(* ===== verification/Prelude.thy ===== *)
theory Prelude
  imports Main "HOL-Library.Word"
begin

text \<open>
  The generic part of the library: machine integers, the outcome of a Rust call, slices and
  little-endian bytes, and UTF-8 validity.

  \<^item> A Rust integer of \<open>w\<close> bits is a \<open>w word\<close>; \<open>unat\<close> reads it as unsigned, \<open>sint\<close> as
    signed. A float is the word of its IEEE-754 bits: the code only moves it around, and the one
    place that computes with it (\<open>qf64\<close>) is written on the bits.
  \<^item> \<open>result\<close> is the outcome of a call: \<open>Ok\<close>, \<open>Err\<close>, or \<open>Panic\<close> when it does not return
    (a slice out of range, an \<open>unreachable!\<close>, an \<open>expect\<close> that fails, a mutex the caller
    already holds).
  \<^item> \<open>exec\<close> is a computation over an explicit state, in the style of a state monad with errors;
    \<open>bind\<close> is the \<open>?\<close> operator and keeps the state reached when the error was raised.
\<close>

unbundle bit_operations_syntax

section \<open>Collections\<close>

named_theorems exec_simps "running outcomes and state-passing computations"
named_theorems byte_simps "lengths and contents of byte encodings"

section \<open>Types\<close>

type_synonym u8 = "8 word"
type_synonym u16 = "16 word"
type_synonym u32 = "32 word"
type_synonym u64 = "64 word"
type_synonym u128 = "128 word"
type_synonym i8 = "8 word"
type_synonym i16 = "16 word"
type_synonym i32 = "32 word"
type_synonym i64 = "64 word"
type_synonym i128 = "128 word"
type_synonym f32 = "32 word"
type_synonym f64 = "64 word"
type_synonym bytes = "8 word list"

section \<open>Outcomes\<close>

datatype ('e, 'a) result = Ok 'a | Err 'e | Panic

fun rbind :: "('e, 'a) result \<Rightarrow> ('a \<Rightarrow> ('e, 'b) result) \<Rightarrow> ('e, 'b) result" where
  "rbind (Ok x) k = k x"
| "rbind (Err e) k = Err e"
| "rbind Panic k = Panic"

fun map_err :: "('e \<Rightarrow> 'f) \<Rightarrow> ('e, 'a) result \<Rightarrow> ('f, 'a) result" where
  "map_err f (Ok x) = Ok x"
| "map_err f (Err e) = Err (f e)"
| "map_err f Panic = Panic"

fun is_ok :: "('e, 'a) result \<Rightarrow> bool" where
  "is_ok (Ok _) = True"
| "is_ok _ = False"

definition some_or_panic :: "'a option \<Rightarrow> ('e, 'a) result" where
  "some_or_panic x = (case x of Some a \<Rightarrow> Ok a | None \<Rightarrow> Panic)"

fun ok_or_panic :: "('e, 'a) result \<Rightarrow> ('f, 'a) result" where
  "ok_or_panic (Ok x) = Ok x"
| "ok_or_panic _ = Panic"

lemma some_or_panic_simps [simp]:
  "some_or_panic (Some a) = Ok a"
  "some_or_panic None = Panic"
  by (simp_all add: some_or_panic_def)

lemma rbind_eq_Ok: "rbind m k = Ok y \<longleftrightarrow> (\<exists>x. m = Ok x \<and> k x = Ok y)"
  by (cases m) auto

lemma some_or_panic_eq_Ok: "some_or_panic x = Ok a \<longleftrightarrow> x = Some a"
  by (cases x) auto

lemma rbind_assoc: "rbind (rbind m k) h = rbind m (\<lambda>x. rbind (k x) h)"
  by (cases m) auto

section \<open>State-passing computations\<close>

type_synonym ('s, 'e, 'a) exec = "'s \<Rightarrow> ('e, 'a) result \<times> 's"

definition ret :: "'a \<Rightarrow> ('s, 'e, 'a) exec" where
  "ret x s = (Ok x, s)"

definition fail :: "'e \<Rightarrow> ('s, 'e, 'a) exec" where
  "fail e s = (Err e, s)"

definition bind :: "('s, 'e, 'a) exec \<Rightarrow> ('a \<Rightarrow> ('s, 'e, 'b) exec) \<Rightarrow> ('s, 'e, 'b) exec" where
  "bind m k s =
     (case m s of
        (Ok x, s') \<Rightarrow> k x s'
      | (Err e, s') \<Rightarrow> (Err e, s')
      | (Panic, s') \<Rightarrow> (Panic, s'))"

definition lift_result :: "('e, 'a) result \<Rightarrow> ('s, 'e, 'a) exec" where
  "lift_result r s = (r, s)"

definition exec_map_err :: "('e \<Rightarrow> 'f) \<Rightarrow> ('s, 'e, 'a) exec \<Rightarrow> ('s, 'f, 'a) exec" where
  "exec_map_err f m s = (case m s of (r, s') \<Rightarrow> (map_err f r, s'))"

lemma ret_run [exec_simps]: "ret x s = (Ok x, s)"
  by (simp add: ret_def)

lemma fail_run [exec_simps]: "fail e s = (Err e, s)"
  by (simp add: fail_def)

lemma lift_result_run [exec_simps]: "lift_result r s = (r, s)"
  by (simp add: lift_result_def)

lemma bind_Ok [exec_simps]: "m s = (Ok x, s') \<Longrightarrow> bind m k s = k x s'"
  by (simp add: bind_def)

lemma bind_Err [exec_simps]: "m s = (Err e, s') \<Longrightarrow> bind m k s = (Err e, s')"
  by (simp add: bind_def)

lemma bind_Panic [exec_simps]: "m s = (Panic, s') \<Longrightarrow> bind m k s = (Panic, s')"
  by (simp add: bind_def)

lemma bind_eq_Ok:
  "bind m k s = (Ok y, s'') \<longleftrightarrow> (\<exists>x s'. m s = (Ok x, s') \<and> k x s' = (Ok y, s''))"
  by (auto simp: bind_def split: prod.splits result.splits)

lemma bind_assoc: "bind (bind m k) h = bind m (\<lambda>x. bind (k x) h)"
  by (auto simp: fun_eq_iff bind_def split: prod.split result.split)

lemma bind_ret: "bind (ret x) k = k x"
  by (simp add: fun_eq_iff bind_def ret_run)

lemma exec_map_err_Ok [exec_simps]: "m s = (Ok x, s') \<Longrightarrow> exec_map_err f m s = (Ok x, s')"
  by (simp add: exec_map_err_def)

section \<open>Slices\<close>

text \<open>\<open>&bin[a..b]\<close> panics unless \<open>a \<le> b \<le> len\<close>; \<open>bin[i]\<close> panics past the end;
  \<open>copy_from_slice\<close> into an array of \<open>n\<close> bytes panics unless the source has \<open>n\<close> bytes.\<close>

definition slice :: "'a list \<Rightarrow> nat \<Rightarrow> nat \<Rightarrow> ('e, 'a list) result" where
  "slice xs a b = (if a \<le> b \<and> b \<le> length xs then Ok (take (b - a) (drop a xs)) else Panic)"

definition index_at :: "'a list \<Rightarrow> nat \<Rightarrow> ('e, 'a) result" where
  "index_at xs i = (if i < length xs then Ok (xs ! i) else Panic)"

definition copy_from_slice :: "nat \<Rightarrow> 'a list \<Rightarrow> ('e, 'a list) result" where
  "copy_from_slice n xs = (if length xs = n then Ok xs else Panic)"

lemma slice_at [simp]: "i + n \<le> length xs \<Longrightarrow> slice xs i (i + n) = Ok (take n (drop i xs))"
  by (simp add: slice_def)

lemma slice_eq_Ok: "slice xs a b = Ok ys \<longleftrightarrow> a \<le> b \<and> b \<le> length xs \<and> ys = take (b - a) (drop a xs)"
  by (auto simp: slice_def)

lemma slice_not_Err [simp]: "slice xs a b \<noteq> Err e"
  by (simp add: slice_def)

lemma index_at_eq_Ok: "index_at xs i = Ok x \<longleftrightarrow> i < length xs \<and> x = xs ! i"
  by (auto simp: index_at_def)

lemma index_at_not_Err [simp]: "index_at xs i \<noteq> Err e"
  by (simp add: index_at_def)

lemma copy_from_slice_eq_Ok: "copy_from_slice n xs = Ok ys \<longleftrightarrow> length xs = n \<and> ys = xs"
  by (auto simp: copy_from_slice_def)

lemma copy_from_slice_not_Err [simp]: "copy_from_slice n xs \<noteq> Err e"
  by (simp add: copy_from_slice_def)

lemma copy_from_slice_Ok [simp]: "length xs = n \<Longrightarrow> copy_from_slice n xs = Ok xs"
  by (simp add: copy_from_slice_def)

lemmas slice_results = slice_eq_Ok index_at_eq_Ok copy_from_slice_eq_Ok rbind_eq_Ok some_or_panic_eq_Ok

section \<open>Little-endian bytes\<close>

text \<open>\<open>le_bytes n w\<close> is \<open>w.to_le_bytes()\<close> for a type of \<open>n\<close> bytes; \<open>le_word\<close> is
  \<open>from_le_bytes\<close>.\<close>

definition le_bytes :: "nat \<Rightarrow> 'a::len word \<Rightarrow> bytes" where
  "le_bytes n w = map (\<lambda>i. ucast (drop_bit (8 * i) w)) [0..<n]"

primrec le_word :: "bytes \<Rightarrow> 'a::len word" where
  "le_word [] = 0"
| "le_word (b # bs) = ucast b OR push_bit 8 (le_word bs)"

lemma length_le_bytes [simp, byte_simps]: "length (le_bytes n w) = n"
  by (simp add: le_bytes_def)

lemma le_bytes_Suc: "le_bytes (Suc n) w = ucast w # le_bytes n (drop_bit 8 w)"
proof -
  have "[0..<Suc n] = 0 # map Suc [0..<n]"
    by (simp add: upt_conv_Cons map_Suc_upt del: upt_Suc)
  then show ?thesis
    by (simp add: le_bytes_def ac_simps del: upt_Suc)
qed

lemma bit_le_word:
  "bit (le_word bs :: 'a::len word) k \<longleftrightarrow>
     k < LENGTH('a) \<and> k div 8 < length bs \<and> bit (bs ! (k div 8)) (k mod 8)"
proof (induction bs arbitrary: k)
  case Nil
  then show ?case by simp
next
  case (Cons b bs)
  show ?case
  proof (cases "k < 8")
    case True
    then show ?thesis
      by (auto simp: bit_simps)
  next
    case False
    then obtain j where k: "k = j + 8" by (metis add.commute le_Suc_ex not_le)
    then have "\<not> bit (ucast b :: 'a word) k"
      by (auto simp: bit_simps dest: bit_imp_le_length)
    moreover have "(j + 8) div 8 = Suc (j div 8)" "(j + 8) mod 8 = j mod 8" by simp_all
    ultimately show ?thesis
      using k by (auto simp: bit_or_iff bit_push_bit_iff Cons.IH possible_bit_def)
  qed
qed

lemma le_word_le_bytes:
  assumes "LENGTH('a::len) \<le> 8 * n"
  shows "le_word (le_bytes n (w :: 'a word)) = w"
proof (rule bit_word_eqI)
  fix k assume k: "k < LENGTH('a)"
  then have "k div 8 < n" using assms by linarith
  then show "bit (le_word (le_bytes n w) :: 'a word) k \<longleftrightarrow> bit w k"
    using k by (simp add: bit_le_word le_bytes_def bit_simps)
qed

lemma le_bytes_le_word:
  assumes "length bs = n" and "8 * n \<le> LENGTH('a::len)"
  shows "le_bytes n (le_word bs :: 'a word) = bs"
proof (rule nth_equalityI)
  fix i assume "i < length (le_bytes n (le_word bs :: 'a word))"
  then have i: "i < n" by simp
  show "le_bytes n (le_word bs :: 'a word) ! i = bs ! i"
  proof (rule bit_word_eqI)
    fix k assume "k < LENGTH(8)"
    then have "k < 8" by simp
    moreover have "8 * i + k < LENGTH('a)" using i assms(2) \<open>k < 8\<close> by linarith
    ultimately show "bit (le_bytes n (le_word bs :: 'a word) ! i) k \<longleftrightarrow> bit (bs ! i) k"
      using i assms(1) by (simp add: le_bytes_def bit_simps bit_le_word)
  qed
qed (simp add: assms)

lemma le_bytes_inject:
  assumes "LENGTH('a::len) \<le> 8 * n"
  shows "le_bytes n (v :: 'a word) = le_bytes n w \<longleftrightarrow> v = w"
  using le_word_le_bytes [OF assms, of v] le_word_le_bytes [OF assms, of w] by metis

lemma le_roundtrip [simp, byte_simps]:
  "le_word (le_bytes (Suc 0) (a :: u8)) = a"
  "le_word (le_bytes 2 (b :: u16)) = b"
  "le_word (le_bytes 4 (c :: u32)) = c"
  "le_word (le_bytes 8 (d :: u64)) = d"
  "le_word (le_bytes 16 (e :: u128)) = e"
  by (simp_all add: le_word_le_bytes)

text \<open>\<open>to_be_bytes\<close> and \<open>from_be_bytes\<close> of a type of \<open>n\<close> bytes.\<close>

definition be_bytes :: "nat \<Rightarrow> 'a::len word \<Rightarrow> bytes" where
  "be_bytes n w = rev (le_bytes n w)"

definition be_word :: "bytes \<Rightarrow> 'a::len word" where
  "be_word bs = le_word (rev bs)"

lemma length_be_bytes [simp, byte_simps]: "length (be_bytes n w) = n"
  by (simp add: be_bytes_def)

lemma be_word_be_bytes: "LENGTH('a::len) \<le> 8 * n \<Longrightarrow> be_word (be_bytes n (w :: 'a word)) = w"
  by (simp add: be_word_def be_bytes_def le_word_le_bytes)

text \<open>\<open>usz\<close> is the size of \<open>usize\<close> in bytes: 4 on wasm32, 8 on a 64-bit host. A \<open>Vec\<close> longer than
  \<open>isize::MAX\<close> panics.\<close>

definition as_usize :: "nat \<Rightarrow> u64 \<Rightarrow> nat" where
  "as_usize usz v = unat v mod 2 ^ (8 * usz)"

definition isize_max :: "nat \<Rightarrow> nat" where
  "isize_max usz = 2 ^ (8 * usz - 1) - 1"

section \<open>Narrowing and widening\<close>

text \<open>A narrowing cast followed by the matching widening gives the value back exactly when the
  value is in the range of the narrow type.\<close>

lemma ucast_ucast_id:
  assumes "LENGTH('b::len) \<le> LENGTH('a::len)" and "unat (v :: 'a word) < 2 ^ LENGTH('b)"
  shows "ucast (ucast v :: 'b word) = v"
proof -
  have "unat (ucast (ucast v :: 'b word) :: 'a word) = unat v"
    using assms by (simp add: unsigned_ucast_eq unsigned_take_bit_eq take_bit_nat_eq_self)
  then show ?thesis by (rule unsigned_word_eqI)
qed

lemma scast_ucast_id:
  assumes "LENGTH('b::len) \<le> LENGTH('a::len)"
    and "- (2 ^ (LENGTH('b) - 1)) \<le> sint (v :: 'a word)" and "sint v < 2 ^ (LENGTH('b) - 1)"
  shows "scast (ucast v :: 'b word) = v"
proof -
  have "sint (ucast v :: 'b word) = signed_take_bit (LENGTH('b) - 1) (uint v)"
    by (simp add: signed_ucast_eq)
  also have "\<dots> = signed_take_bit (LENGTH('b) - 1) (sint v)"
    using assms(1)
    by (simp add: signed_take_bit_eq_iff_take_bit_eq sint_uint take_bit_signed_take_bit
        Suc_leI min_def)
  also have "\<dots> = sint v"
    using assms(2,3) by (simp add: signed_take_bit_int_eq_self)
  finally have "sint (ucast v :: 'b word) = sint v" .
  then have "scast (ucast v :: 'b word) = (word_of_int (sint v) :: 'a word)"
    by (simp only: scast_eq)
  then show ?thesis by simp
qed

lemma unat_of_nat_small: "n < 2 ^ LENGTH('a::len) \<Longrightarrow> unat (of_nat n :: 'a word) = n"
  by (simp only: unsigned_of_nat take_bit_nat_eq_self of_nat_id)

text \<open>Rounding to nearest, ties to even: \<open>m\<close> without its low \<open>s\<close> bits.\<close>

definition round_half_even :: "nat \<Rightarrow> nat \<Rightarrow> nat" where
  "round_half_even m s =
     (let q = m div 2 ^ s; r = m mod 2 ^ s; h = 2 ^ (s - 1)
      in if h < r \<or> (r = h \<and> odd q) then q + 1 else q)"

section \<open>UTF-8\<close>

text \<open>The well-formed byte sequences of the Unicode standard, as \<open>String::from_utf8\<close> accepts
  them: no overlong form, no surrogate, nothing above U+10FFFF.\<close>

definition utf8_cont :: "u8 \<Rightarrow> bool" where
  "utf8_cont b \<longleftrightarrow> 0x80 \<le> b \<and> b \<le> 0xBF"

definition utf8_lead2 :: "u8 \<Rightarrow> bool" where
  "utf8_lead2 b \<longleftrightarrow> 0xC2 \<le> b \<and> b \<le> 0xDF"

definition utf8_lead3 :: "u8 \<Rightarrow> u8 \<Rightarrow> bool" where
  "utf8_lead3 b c \<longleftrightarrow>
     (b = 0xE0 \<and> 0xA0 \<le> c \<and> c \<le> 0xBF) \<or>
     (0xE1 \<le> b \<and> b \<le> 0xEC \<and> utf8_cont c) \<or>
     (b = 0xED \<and> 0x80 \<le> c \<and> c \<le> 0x9F) \<or>
     (0xEE \<le> b \<and> b \<le> 0xEF \<and> utf8_cont c)"

definition utf8_lead4 :: "u8 \<Rightarrow> u8 \<Rightarrow> bool" where
  "utf8_lead4 b c \<longleftrightarrow>
     (b = 0xF0 \<and> 0x90 \<le> c \<and> c \<le> 0xBF) \<or>
     (0xF1 \<le> b \<and> b \<le> 0xF3 \<and> utf8_cont c) \<or>
     (b = 0xF4 \<and> 0x80 \<le> c \<and> c \<le> 0x8F)"

fun utf8_valid :: "bytes \<Rightarrow> bool" where
  "utf8_valid [] = True"
| "utf8_valid (b # bs) =
     (if b < 0x80 then utf8_valid bs
      else case bs of
        [] \<Rightarrow> False
      | c # cs \<Rightarrow>
          if utf8_lead2 b then utf8_cont c \<and> utf8_valid cs
          else (case cs of
              [] \<Rightarrow> False
            | d # ds \<Rightarrow>
                if utf8_lead3 b c then utf8_cont d \<and> utf8_valid ds
                else (case ds of
                    [] \<Rightarrow> False
                  | e # es \<Rightarrow> utf8_lead4 b c \<and> utf8_cont d \<and> utf8_cont e \<and> utf8_valid es)))"

definition string_from_utf8 :: "bytes \<Rightarrow> (bytes, bytes) result" where
  "string_from_utf8 bs = (if utf8_valid bs then Ok bs else Err bs)"

end
