(* ===== verification/Base.thy ===== *)
theory Base
  imports Prelude
begin

text \<open>
  The shared vocabulary of \<open>backends/foundation_wasm/src/base.rs\<close>: the enums that name values
  on the wire between the guest (Rust compiled to WebAssembly) and the host (JavaScript), their
  one-byte codes, the values themselves (\<open>Params\<close> going out, \<open>ReturnValues\<close> coming back), the
  hints that say what shape a reply has, and the packed memory identifier. A Rust variant
  \<open>Type::Name\<close> is the constructor \<open>Name\<close> behind a prefix for the type. An \<open>Into<u8>\<close> is a
  function into bytes; a \<open>From<u8>\<close> whose default arm is \<open>unreachable!\<close> is a function into
  \<open>option\<close> where \<open>None\<close> is that panic. The contract of a code and its decoder is the locale
  \<open>u8_code\<close>.
\<close>

section \<open>One-byte codes\<close>

text \<open>What a pair of \<open>Into<u8>\<close> and \<open>From<u8>\<close> promises: decoding inverts encoding, and a
  byte that decodes is the code of its value.\<close>

locale u8_code =
  fixes enc :: "'a \<Rightarrow> u8"
    and dec :: "u8 \<Rightarrow> 'a option"
  assumes dec_enc: "dec (enc x) = Some x"
    and enc_dec: "dec b = Some x \<Longrightarrow> enc x = b"
begin

lemma dec_eq_Some: "dec b = Some x \<longleftrightarrow> b = enc x"
  using dec_enc enc_dec by auto

lemma enc_inject: "enc x = enc y \<longleftrightarrow> x = y"
  using dec_enc by (metis option.inject)

lemma dec_eq_None: "dec b = None \<longleftrightarrow> b \<notin> range enc"
proof -
  have "dec b = None \<longleftrightarrow> (\<nexists>x. dec b = Some x)" by auto
  then show ?thesis by (auto simp: dec_eq_Some)
qed

end

text \<open>A decoder written as a table of codes meets the contract when every value is found under its
  own code and every entry is the code of its value.\<close>

lemma u8_codeI:
  assumes "\<And>x. map_of tbl (enc x) = Some x"
    and "list_all (\<lambda>(b, x). enc x = b) tbl"
  shows "u8_code enc (map_of tbl)"
  using assms by unfold_locales (auto simp: list_all_iff dest!: map_of_SomeD)

section \<open>Typed slices and return types\<close>

datatype typed_slice =
  TS_Int8 | TS_Int16 | TS_Int32 | TS_Int64 | TS_Uint8 | TS_Uint16 | TS_Uint32 | TS_Uint64
  | TS_Float32 | TS_Float64

primrec typed_slice_to_u8 :: "typed_slice \<Rightarrow> u8" where
  "typed_slice_to_u8 TS_Int8 = 1"
| "typed_slice_to_u8 TS_Int16 = 2"
| "typed_slice_to_u8 TS_Int32 = 3"
| "typed_slice_to_u8 TS_Int64 = 4"
| "typed_slice_to_u8 TS_Uint8 = 5"
| "typed_slice_to_u8 TS_Uint16 = 6"
| "typed_slice_to_u8 TS_Uint32 = 7"
| "typed_slice_to_u8 TS_Uint64 = 8"
| "typed_slice_to_u8 TS_Float32 = 9"
| "typed_slice_to_u8 TS_Float64 = 10"

definition typed_slice_from_u8 :: "u8 \<Rightarrow> typed_slice option" where
  "typed_slice_from_u8 = map_of [
    (1, TS_Int8), (2, TS_Int16), (3, TS_Int32), (4, TS_Int64), (5, TS_Uint8), (6, TS_Uint16),
    (7, TS_Uint32), (8, TS_Uint64), (9, TS_Float32), (10, TS_Float64)]"

datatype return_type_id =
  RT_Bool | RT_Text8 | RT_Int8 | RT_Int16 | RT_Int32 | RT_Int64 | RT_Uint8 | RT_Uint16
  | RT_Uint32 | RT_Uint64 | RT_Float32 | RT_Float64 | RT_Int128 | RT_Uint128
  | RT_MemorySlice | RT_ExternalReference | RT_InternalReference | RT_Uint8ArrayBuffer
  | RT_Uint16ArrayBuffer | RT_Uint32ArrayBuffer | RT_Uint64ArrayBuffer
  | RT_Int8ArrayBuffer | RT_Int16ArrayBuffer | RT_Int32ArrayBuffer | RT_Int64ArrayBuffer
  | RT_Float32ArrayBuffer | RT_Float64ArrayBuffer | RT_Object | RT_DOMObject | RT_None
  | RT_ErrorCode | RT_TypedArraySlice

primrec return_type_id_to_u8 :: "return_type_id \<Rightarrow> u8" where
  "return_type_id_to_u8 RT_Bool = 1"
| "return_type_id_to_u8 RT_Text8 = 2"
| "return_type_id_to_u8 RT_Int8 = 3"
| "return_type_id_to_u8 RT_Int16 = 4"
| "return_type_id_to_u8 RT_Int32 = 5"
| "return_type_id_to_u8 RT_Int64 = 6"
| "return_type_id_to_u8 RT_Uint8 = 7"
| "return_type_id_to_u8 RT_Uint16 = 8"
| "return_type_id_to_u8 RT_Uint32 = 9"
| "return_type_id_to_u8 RT_Uint64 = 10"
| "return_type_id_to_u8 RT_Float32 = 11"
| "return_type_id_to_u8 RT_Float64 = 12"
| "return_type_id_to_u8 RT_Int128 = 13"
| "return_type_id_to_u8 RT_Uint128 = 14"
| "return_type_id_to_u8 RT_MemorySlice = 15"
| "return_type_id_to_u8 RT_ExternalReference = 16"
| "return_type_id_to_u8 RT_InternalReference = 17"
| "return_type_id_to_u8 RT_Uint8ArrayBuffer = 18"
| "return_type_id_to_u8 RT_Uint16ArrayBuffer = 19"
| "return_type_id_to_u8 RT_Uint32ArrayBuffer = 20"
| "return_type_id_to_u8 RT_Uint64ArrayBuffer = 21"
| "return_type_id_to_u8 RT_Int8ArrayBuffer = 22"
| "return_type_id_to_u8 RT_Int16ArrayBuffer = 23"
| "return_type_id_to_u8 RT_Int32ArrayBuffer = 24"
| "return_type_id_to_u8 RT_Int64ArrayBuffer = 25"
| "return_type_id_to_u8 RT_Float32ArrayBuffer = 26"
| "return_type_id_to_u8 RT_Float64ArrayBuffer = 27"
| "return_type_id_to_u8 RT_Object = 28"
| "return_type_id_to_u8 RT_DOMObject = 29"
| "return_type_id_to_u8 RT_None = 30"
| "return_type_id_to_u8 RT_ErrorCode = 31"
| "return_type_id_to_u8 RT_TypedArraySlice = 32"

definition return_type_id_from_u8 :: "u8 \<Rightarrow> return_type_id option" where
  "return_type_id_from_u8 = map_of [
    (1, RT_Bool), (2, RT_Text8), (3, RT_Int8), (4, RT_Int16), (5, RT_Int32), (6, RT_Int64),
    (7, RT_Uint8), (8, RT_Uint16), (9, RT_Uint32), (10, RT_Uint64), (11, RT_Float32),
    (12, RT_Float64), (13, RT_Int128), (14, RT_Uint128), (15, RT_MemorySlice),
    (16, RT_ExternalReference), (17, RT_InternalReference), (18, RT_Uint8ArrayBuffer),
    (19, RT_Uint16ArrayBuffer), (20, RT_Uint32ArrayBuffer), (21, RT_Uint64ArrayBuffer),
    (22, RT_Int8ArrayBuffer), (23, RT_Int16ArrayBuffer), (24, RT_Int32ArrayBuffer),
    (25, RT_Int64ArrayBuffer), (26, RT_Float32ArrayBuffer), (27, RT_Float64ArrayBuffer),
    (28, RT_Object), (29, RT_DOMObject), (30, RT_None), (31, RT_ErrorCode),
    (32, RT_TypedArraySlice)]"

datatype three_state =
  State_One return_type_id
  | State_Two return_type_id return_type_id
  | State_Three return_type_id return_type_id return_type_id

datatype return_encoded =
  RE_AsNakedPriority | RE_AlwaysEncoded

primrec return_encoded_to_u8 :: "return_encoded \<Rightarrow> u8" where
  "return_encoded_to_u8 RE_AsNakedPriority = 30"
| "return_encoded_to_u8 RE_AlwaysEncoded = 40"

definition return_encoded_from_u8 :: "u8 \<Rightarrow> return_encoded option" where
  "return_encoded_from_u8 = map_of [
    (30, RE_AsNakedPriority), (40, RE_AlwaysEncoded)]"

datatype three_state_id =
  SI_One | SI_Two | SI_Three

primrec three_state_id_to_u8 :: "three_state_id \<Rightarrow> u8" where
  "three_state_id_to_u8 SI_One = 70"
| "three_state_id_to_u8 SI_Two = 80"
| "three_state_id_to_u8 SI_Three = 90"

definition three_state_id_from_u8 :: "u8 \<Rightarrow> three_state_id option" where
  "three_state_id_from_u8 = map_of [
    (70, SI_One), (80, SI_Two), (90, SI_Three)]"

primrec to_state_id :: "three_state \<Rightarrow> three_state_id" where
  "to_state_id (State_One _) = SI_One"
| "to_state_id (State_Two _ _) = SI_Two"
| "to_state_id (State_Three _ _ _) = SI_Three"

definition to_state_id_u8 :: "three_state \<Rightarrow> u8" where
  "to_state_id_u8 st = three_state_id_to_u8 (to_state_id st)"

definition state_to_returns_value_u8 :: "three_state \<Rightarrow> bytes" where
  "state_to_returns_value_u8 st =
     to_state_id_u8 st #
     (case st of
        State_One p1 \<Rightarrow> [return_type_id_to_u8 p1]
      | State_Two p1 p2 \<Rightarrow> [return_type_id_to_u8 p1, return_type_id_to_u8 p2]
      | State_Three p1 p2 p3 \<Rightarrow>
          [return_type_id_to_u8 p1, return_type_id_to_u8 p2, return_type_id_to_u8 p3])"

text \<open>The types a state admits, in the order the code tests them.\<close>

primrec state_types :: "three_state \<Rightarrow> return_type_id list" where
  "state_types (State_One p1) = [p1]"
| "state_types (State_Two p1 p2) = [p1, p2]"
| "state_types (State_Three p1 p2 p3) = [p1, p2, p3]"

datatype return_ids =
  RI_None | RI_One | RI_Multi | RI_List

primrec return_ids_to_u8 :: "return_ids \<Rightarrow> u8" where
  "return_ids_to_u8 RI_None = 0"
| "return_ids_to_u8 RI_One = 1"
| "return_ids_to_u8 RI_Multi = 2"
| "return_ids_to_u8 RI_List = 3"

definition return_ids_from_u8 :: "u8 \<Rightarrow> return_ids option" where
  "return_ids_from_u8 = map_of [
    (0, RI_None), (1, RI_One), (2, RI_Multi), (3, RI_List)]"

datatype return_type_hints =
  Hint_None
  | Hint_One three_state
  | Hint_List three_state
  | Hint_Multi "three_state list"

primrec to_return_id :: "return_type_hints \<Rightarrow> return_ids" where
  "to_return_id Hint_None = RI_None"
| "to_return_id (Hint_One _) = RI_One"
| "to_return_id (Hint_List _) = RI_List"
| "to_return_id (Hint_Multi _) = RI_Multi"

definition to_returns_u8 :: "return_type_hints \<Rightarrow> u8" where
  "to_returns_u8 h = return_ids_to_u8 (to_return_id h)"

primrec to_returns_value :: "return_type_hints \<Rightarrow> three_state list option" where
  "to_returns_value Hint_None = None"
| "to_returns_value (Hint_Multi v) = Some v"
| "to_returns_value (Hint_One v) = Some [v]"
| "to_returns_value (Hint_List v) = Some [v]"

definition to_returns_value_u8 :: "return_type_hints \<Rightarrow> bytes option" where
  "to_returns_value_u8 h = map_option (\<lambda>item. concat (map state_to_returns_value_u8 item)) (to_returns_value h)"

section \<open>Handles and locations\<close>

datatype internal_pointer = InternalPointer (ip_value: u64)

datatype external_pointer = ExternalPointer (ep_value: u64)

datatype cached_text = CachedText (ct_value: u64)

datatype memory_location = MemoryLocation (ml_address: u64) (ml_length: u64)

datatype str_location = StrLocation (sl_index: u64) (sl_len: u64)

text \<open>\<open>MemoryId(index, generation)\<close>, packed into 64 bits with the index in the upper half.\<close>

datatype memory_id = MemoryId (mid_index: u32) (mid_generation: u32)

definition BIT_SIZE :: nat where "BIT_SIZE = 32"

definition BIT_MASK :: u64 where "BIT_MASK = 0xFFFFFFFF"

definition memory_id_from_u64 :: "u64 \<Rightarrow> memory_id" where
  "memory_id_from_u64 m =
     (let index = ucast (drop_bit BIT_SIZE m AND BIT_MASK);
          generation = ucast (m AND BIT_MASK)
      in MemoryId index generation)"

definition memory_id_as_u64 :: "memory_id \<Rightarrow> u64" where
  "memory_id_as_u64 m =
     (let msb_bit = push_bit BIT_SIZE (ucast (mid_index m) AND BIT_MASK);
          lsb_bit = ucast (mid_generation m) AND BIT_MASK
      in msb_bit OR lsb_bit)"

text \<open>\<open>InternalPointer\<close> and \<open>MemoryId\<close> derive \<open>Ord\<close>: by their fields, in order.\<close>

instantiation internal_pointer :: linorder
begin
definition less_eq_internal_pointer :: "internal_pointer \<Rightarrow> internal_pointer \<Rightarrow> bool" where
  "less_eq_internal_pointer a b \<longleftrightarrow> ip_value a \<le> ip_value b"
definition less_internal_pointer :: "internal_pointer \<Rightarrow> internal_pointer \<Rightarrow> bool" where
  "less_internal_pointer a b \<longleftrightarrow> ip_value a < ip_value b"
instance
  by standard (auto simp: less_eq_internal_pointer_def less_internal_pointer_def
      internal_pointer.expand)
end

instantiation memory_id :: linorder
begin
definition less_eq_memory_id :: "memory_id \<Rightarrow> memory_id \<Rightarrow> bool" where
  "less_eq_memory_id a b \<longleftrightarrow>
     mid_index a < mid_index b \<or> (mid_index a = mid_index b \<and> mid_generation a \<le> mid_generation b)"
definition less_memory_id :: "memory_id \<Rightarrow> memory_id \<Rightarrow> bool" where
  "less_memory_id a b \<longleftrightarrow>
     mid_index a < mid_index b \<or> (mid_index a = mid_index b \<and> mid_generation a < mid_generation b)"
instance
  by standard (auto simp: less_eq_memory_id_def less_memory_id_def memory_id.expand)
end

section \<open>Returned values\<close>

text \<open>Text is kept as its UTF-8 bytes.\<close>

datatype return_values =
  RV_None
  | RV_Bool bool
  | RV_Float32 f32
  | RV_Float64 f64
  | RV_Int8 i8
  | RV_Int16 i16
  | RV_Int32 i32
  | RV_Int64 i64
  | RV_Int128 i128
  | RV_Uint8 u8
  | RV_Uint16 u16
  | RV_Uint32 u32
  | RV_Uint64 u64
  | RV_Uint128 u128
  | RV_Text8 bytes
  | RV_ErrorCode u16
  | RV_Int8Array "i8 list"
  | RV_Int16Array "i16 list"
  | RV_Int32Array "i32 list"
  | RV_Int64Array "i64 list"
  | RV_Uint8Array "u8 list"
  | RV_Uint16Array "u16 list"
  | RV_Uint32Array "u32 list"
  | RV_Uint64Array "u64 list"
  | RV_Float32Array "f32 list"
  | RV_Float64Array "f64 list"
  | RV_MemorySlice memory_id
  | RV_Object external_pointer
  | RV_DOMObject internal_pointer
  | RV_ExternalReference external_pointer
  | RV_InternalReference internal_pointer
  | RV_TypedArraySlice typed_slice memory_location

primrec to_return_value_type :: "return_values \<Rightarrow> return_type_id" where
  "to_return_value_type RV_None = RT_None"
| "to_return_value_type (RV_Bool _) = RT_Bool"
| "to_return_value_type (RV_Float32 _) = RT_Float32"
| "to_return_value_type (RV_Float64 _) = RT_Float64"
| "to_return_value_type (RV_Int8 _) = RT_Int8"
| "to_return_value_type (RV_Int16 _) = RT_Int16"
| "to_return_value_type (RV_Int32 _) = RT_Int32"
| "to_return_value_type (RV_Int64 _) = RT_Int64"
| "to_return_value_type (RV_Int128 _) = RT_Int128"
| "to_return_value_type (RV_Uint8 _) = RT_Uint8"
| "to_return_value_type (RV_Uint16 _) = RT_Uint16"
| "to_return_value_type (RV_Uint32 _) = RT_Uint32"
| "to_return_value_type (RV_Uint64 _) = RT_Uint64"
| "to_return_value_type (RV_Uint128 _) = RT_Uint128"
| "to_return_value_type (RV_Text8 _) = RT_Text8"
| "to_return_value_type (RV_Object _) = RT_Object"
| "to_return_value_type (RV_ErrorCode _) = RT_ErrorCode"
| "to_return_value_type (RV_DOMObject _) = RT_DOMObject"
| "to_return_value_type (RV_MemorySlice _) = RT_MemorySlice"
| "to_return_value_type (RV_Int8Array _) = RT_Int8ArrayBuffer"
| "to_return_value_type (RV_Int16Array _) = RT_Int16ArrayBuffer"
| "to_return_value_type (RV_Int32Array _) = RT_Int32ArrayBuffer"
| "to_return_value_type (RV_Int64Array _) = RT_Int64ArrayBuffer"
| "to_return_value_type (RV_Uint8Array _) = RT_Uint8ArrayBuffer"
| "to_return_value_type (RV_Uint16Array _) = RT_Uint16ArrayBuffer"
| "to_return_value_type (RV_Uint32Array _) = RT_Uint32ArrayBuffer"
| "to_return_value_type (RV_Uint64Array _) = RT_Uint64ArrayBuffer"
| "to_return_value_type (RV_Float32Array _) = RT_Float32ArrayBuffer"
| "to_return_value_type (RV_Float64Array _) = RT_Float64ArrayBuffer"
| "to_return_value_type (RV_TypedArraySlice _ _) = RT_TypedArraySlice"
| "to_return_value_type (RV_ExternalReference _) = RT_ExternalReference"
| "to_return_value_type (RV_InternalReference _) = RT_InternalReference"

definition to_return_value_type_u8 :: "return_values \<Rightarrow> u8" where
  "to_return_value_type_u8 v = return_type_id_to_u8 (to_return_value_type v)"

datatype returns =
  Returns_None
  | Returns_One return_values
  | Returns_List "return_values list"
  | Returns_Multi "return_values list"

primrec to_returns_type :: "returns \<Rightarrow> return_ids" where
  "to_returns_type Returns_None = RI_None"
| "to_returns_type (Returns_One _) = RI_One"
| "to_returns_type (Returns_List _) = RI_List"
| "to_returns_type (Returns_Multi _) = RI_Multi"

section \<open>Parameters\<close>

datatype param_type_id =
  PT_Null | PT_Undefined | PT_Bool | PT_Text8 | PT_Text16 | PT_Int8 | PT_Int16 | PT_Int32
  | PT_Int64 | PT_Uint8 | PT_Uint16 | PT_Uint32 | PT_Uint64 | PT_Float32 | PT_Float64
  | PT_ExternalReference | PT_Uint8ArrayBuffer | PT_Uint16ArrayBuffer
  | PT_Uint32ArrayBuffer | PT_Uint64ArrayBuffer | PT_Int8ArrayBuffer | PT_Int16ArrayBuffer
  | PT_Int32ArrayBuffer | PT_Int64ArrayBuffer | PT_Float32ArrayBuffer
  | PT_Float64ArrayBuffer | PT_InternalReference | PT_Int128 | PT_Uint128 | PT_CachedText
  | PT_TypedArraySlice | PT_ErrorCode

primrec param_type_id_to_u8 :: "param_type_id \<Rightarrow> u8" where
  "param_type_id_to_u8 PT_Null = 0"
| "param_type_id_to_u8 PT_Undefined = 1"
| "param_type_id_to_u8 PT_Bool = 2"
| "param_type_id_to_u8 PT_Text8 = 3"
| "param_type_id_to_u8 PT_Text16 = 4"
| "param_type_id_to_u8 PT_Int8 = 5"
| "param_type_id_to_u8 PT_Int16 = 6"
| "param_type_id_to_u8 PT_Int32 = 7"
| "param_type_id_to_u8 PT_Int64 = 8"
| "param_type_id_to_u8 PT_Uint8 = 9"
| "param_type_id_to_u8 PT_Uint16 = 10"
| "param_type_id_to_u8 PT_Uint32 = 11"
| "param_type_id_to_u8 PT_Uint64 = 12"
| "param_type_id_to_u8 PT_Float32 = 13"
| "param_type_id_to_u8 PT_Float64 = 14"
| "param_type_id_to_u8 PT_ExternalReference = 15"
| "param_type_id_to_u8 PT_Uint8ArrayBuffer = 16"
| "param_type_id_to_u8 PT_Uint16ArrayBuffer = 17"
| "param_type_id_to_u8 PT_Uint32ArrayBuffer = 18"
| "param_type_id_to_u8 PT_Uint64ArrayBuffer = 19"
| "param_type_id_to_u8 PT_Int8ArrayBuffer = 20"
| "param_type_id_to_u8 PT_Int16ArrayBuffer = 21"
| "param_type_id_to_u8 PT_Int32ArrayBuffer = 22"
| "param_type_id_to_u8 PT_Int64ArrayBuffer = 23"
| "param_type_id_to_u8 PT_Float32ArrayBuffer = 24"
| "param_type_id_to_u8 PT_Float64ArrayBuffer = 25"
| "param_type_id_to_u8 PT_InternalReference = 26"
| "param_type_id_to_u8 PT_Int128 = 27"
| "param_type_id_to_u8 PT_Uint128 = 28"
| "param_type_id_to_u8 PT_CachedText = 29"
| "param_type_id_to_u8 PT_TypedArraySlice = 30"
| "param_type_id_to_u8 PT_ErrorCode = 31"

text \<open>A borrowed slice: its address in guest memory and its elements. Only the address and the
  number of elements reach the wire; a string keeps its UTF-8 bytes, which do.\<close>

datatype 'a rslice = Slice (slice_ptr: u64) (slice_elems: "'a list")

definition slice_len :: "'a rslice \<Rightarrow> u64" where
  "slice_len s = of_nat (length (slice_elems s))"

datatype params =
  P_Undefined
  | P_Null
  | P_Bool bool
  | P_Float32 f32
  | P_Float64 f64
  | P_Int8 i8
  | P_Int16 i16
  | P_Int32 i32
  | P_Int64 i64
  | P_Int128 i128
  | P_Uint8 u8
  | P_Uint16 u16
  | P_Uint32 u32
  | P_Uint64 u64
  | P_Uint128 u128
  | P_CachedText u64
  | P_ErrorCode u16
  | P_Text8 "u8 rslice"
  | P_Text16 "u16 rslice"
  | P_Int8Array "i8 rslice"
  | P_Int16Array "i16 rslice"
  | P_Int32Array "i32 rslice"
  | P_Int64Array "i64 rslice"
  | P_Uint8Array "u8 rslice"
  | P_Uint16Array "u16 rslice"
  | P_Uint32Array "u32 rslice"
  | P_Uint64Array "u64 rslice"
  | P_Float32Array "f32 rslice"
  | P_Float64Array "f64 rslice"
  | P_ExternalReference u64
  | P_InternalReference u64
  | P_TypedArraySlice typed_slice "u8 rslice"

primrec to_value_type :: "params \<Rightarrow> param_type_id" where
  "to_value_type (P_Bool _) = PT_Bool"
| "to_value_type P_Undefined = PT_Undefined"
| "to_value_type P_Null = PT_Null"
| "to_value_type (P_Float32 _) = PT_Float32"
| "to_value_type (P_Float64 _) = PT_Float64"
| "to_value_type (P_Int8 _) = PT_Int8"
| "to_value_type (P_Int16 _) = PT_Int16"
| "to_value_type (P_Int32 _) = PT_Int32"
| "to_value_type (P_Int64 _) = PT_Int64"
| "to_value_type (P_Int128 _) = PT_Int128"
| "to_value_type (P_Uint8 _) = PT_Uint8"
| "to_value_type (P_Uint16 _) = PT_Uint16"
| "to_value_type (P_Uint32 _) = PT_Uint32"
| "to_value_type (P_Uint64 _) = PT_Uint64"
| "to_value_type (P_Uint128 _) = PT_Uint128"
| "to_value_type (P_Text8 _) = PT_Text8"
| "to_value_type (P_Text16 _) = PT_Text16"
| "to_value_type (P_ErrorCode _) = PT_ErrorCode"
| "to_value_type (P_CachedText _) = PT_CachedText"
| "to_value_type (P_Int8Array _) = PT_Int8ArrayBuffer"
| "to_value_type (P_Int16Array _) = PT_Int16ArrayBuffer"
| "to_value_type (P_Int32Array _) = PT_Int32ArrayBuffer"
| "to_value_type (P_Int64Array _) = PT_Int64ArrayBuffer"
| "to_value_type (P_Uint8Array _) = PT_Uint8ArrayBuffer"
| "to_value_type (P_Uint16Array _) = PT_Uint16ArrayBuffer"
| "to_value_type (P_Uint32Array _) = PT_Uint32ArrayBuffer"
| "to_value_type (P_Uint64Array _) = PT_Uint64ArrayBuffer"
| "to_value_type (P_Float32Array _) = PT_Float32ArrayBuffer"
| "to_value_type (P_Float64Array _) = PT_Float64ArrayBuffer"
| "to_value_type (P_ExternalReference _) = PT_ExternalReference"
| "to_value_type (P_InternalReference _) = PT_InternalReference"
| "to_value_type (P_TypedArraySlice _ _) = PT_TypedArraySlice"

definition to_value_type_u8 :: "params \<Rightarrow> u8" where
  "to_value_type_u8 p = param_type_id_to_u8 (to_value_type p)"

definition internal_pointer_value_type :: "internal_pointer \<Rightarrow> param_type_id" where
  "internal_pointer_value_type _ = PT_InternalReference"

definition external_pointer_value_type :: "external_pointer \<Rightarrow> param_type_id" where
  "external_pointer_value_type _ = PT_ExternalReference"

definition cached_text_value_type :: "cached_text \<Rightarrow> param_type_id" where
  "cached_text_value_type _ = PT_InternalReference"

definition cached_text_into_param :: "cached_text \<Rightarrow> params" where
  "cached_text_into_param t = P_CachedText (ct_value t)"

text \<open>\<open>Params::from((u8, &[u8]))\<close> decodes the slice type and panics on an unknown one.\<close>

definition params_from_u8_slice :: "u8 \<Rightarrow> u8 rslice \<Rightarrow> ('e, params) result" where
  "params_from_u8_slice tp ta = rbind (some_or_panic (typed_slice_from_u8 tp)) (\<lambda>t. Ok (P_TypedArraySlice t ta))"

section \<open>Markers\<close>

datatype return_value_marker =
  RVM_Begin | RVM_End

primrec return_value_marker_to_u8 :: "return_value_marker \<Rightarrow> u8" where
  "return_value_marker_to_u8 RVM_Begin = 100"
| "return_value_marker_to_u8 RVM_End = 101"

definition return_value_marker_from_u8 :: "u8 \<Rightarrow> return_value_marker option" where
  "return_value_marker_from_u8 = map_of [
    (1, RVM_Begin), (4, RVM_End)]"

datatype group_return_hint_marker =
  GRM_Start | GRM_Stop

primrec group_return_hint_marker_to_u8 :: "group_return_hint_marker \<Rightarrow> u8" where
  "group_return_hint_marker_to_u8 GRM_Start = 111"
| "group_return_hint_marker_to_u8 GRM_Stop = 222"

definition group_return_hint_marker_from_u8 :: "u8 \<Rightarrow> group_return_hint_marker option" where
  "group_return_hint_marker_from_u8 = map_of [
    (1, GRM_Start), (4, GRM_Stop)]"

datatype return_hint_marker =
  RHM_Start | RHM_Stop

primrec return_hint_marker_to_u8 :: "return_hint_marker \<Rightarrow> u8" where
  "return_hint_marker_to_u8 RHM_Start = 200"
| "return_hint_marker_to_u8 RHM_Stop = 201"

definition return_hint_marker_from_u8 :: "u8 \<Rightarrow> return_hint_marker option" where
  "return_hint_marker_from_u8 = map_of [
    (1, RHM_Start), (4, RHM_Stop)]"

datatype argument_operations =
  AO_Start | AO_Begin | AO_End | AO_Stop

primrec argument_operations_to_u8 :: "argument_operations \<Rightarrow> u8" where
  "argument_operations_to_u8 AO_Start = 1"
| "argument_operations_to_u8 AO_Begin = 2"
| "argument_operations_to_u8 AO_End = 3"
| "argument_operations_to_u8 AO_Stop = 4"

definition argument_operations_from_u8 :: "u8 \<Rightarrow> argument_operations option" where
  "argument_operations_from_u8 = map_of [
    (1, AO_Start), (2, AO_Begin), (3, AO_End), (4, AO_Stop)]"

datatype operations =
  Op_Begin | Op_MakeFunction | Op_Invoke | Op_InvokeAsync | Op_End | Op_Stop

primrec operations_to_u8 :: "operations \<Rightarrow> u8" where
  "operations_to_u8 Op_Begin = 0"
| "operations_to_u8 Op_MakeFunction = 1"
| "operations_to_u8 Op_Invoke = 2"
| "operations_to_u8 Op_InvokeAsync = 3"
| "operations_to_u8 Op_End = 254"
| "operations_to_u8 Op_Stop = 255"

definition operations_from_u8 :: "u8 \<Rightarrow> operations option" where
  "operations_from_u8 = map_of [
    (0, Op_Begin), (1, Op_MakeFunction), (2, Op_Invoke), (3, Op_InvokeAsync), (254, Op_End),
    (255, Op_Stop)]"

section \<open>Type optimizations\<close>

datatype type_optimization =
  TO_None | TO_QuantizedInt16AsI8 | TO_QuantizedInt32AsI8 | TO_QuantizedInt32AsI16
  | TO_QuantizedInt64AsI8 | TO_QuantizedInt64AsI16 | TO_QuantizedInt64AsI32
  | TO_QuantizedUint16AsU8 | TO_QuantizedUint32AsU8 | TO_QuantizedUint32AsU16
  | TO_QuantizedUint64AsU8 | TO_QuantizedUint64AsU16 | TO_QuantizedUint64AsU32
  | TO_QuantizedF64AsF32 | TO_QuantizedF128AsF32 | TO_QuantizedF128AsF64
  | TO_QuantizedInt128AsI8 | TO_QuantizedInt128AsI16 | TO_QuantizedInt128AsI32
  | TO_QuantizedInt128AsI64 | TO_QuantizedUint128AsU8 | TO_QuantizedUint128AsU16
  | TO_QuantizedUint128AsU32 | TO_QuantizedUint128AsU64 | TO_QuantizedPtrAsU8
  | TO_QuantizedPtrAsU16 | TO_QuantizedPtrAsU32 | TO_QuantizedPtrAsU64

primrec type_optimization_to_u8 :: "type_optimization \<Rightarrow> u8" where
  "type_optimization_to_u8 TO_None = 0"
| "type_optimization_to_u8 TO_QuantizedInt16AsI8 = 1"
| "type_optimization_to_u8 TO_QuantizedInt32AsI8 = 2"
| "type_optimization_to_u8 TO_QuantizedInt32AsI16 = 3"
| "type_optimization_to_u8 TO_QuantizedInt64AsI8 = 4"
| "type_optimization_to_u8 TO_QuantizedInt64AsI16 = 5"
| "type_optimization_to_u8 TO_QuantizedInt64AsI32 = 6"
| "type_optimization_to_u8 TO_QuantizedUint16AsU8 = 7"
| "type_optimization_to_u8 TO_QuantizedUint32AsU8 = 8"
| "type_optimization_to_u8 TO_QuantizedUint32AsU16 = 9"
| "type_optimization_to_u8 TO_QuantizedUint64AsU8 = 10"
| "type_optimization_to_u8 TO_QuantizedUint64AsU16 = 11"
| "type_optimization_to_u8 TO_QuantizedUint64AsU32 = 12"
| "type_optimization_to_u8 TO_QuantizedF64AsF32 = 13"
| "type_optimization_to_u8 TO_QuantizedF128AsF32 = 14"
| "type_optimization_to_u8 TO_QuantizedF128AsF64 = 15"
| "type_optimization_to_u8 TO_QuantizedInt128AsI8 = 16"
| "type_optimization_to_u8 TO_QuantizedInt128AsI16 = 17"
| "type_optimization_to_u8 TO_QuantizedInt128AsI32 = 18"
| "type_optimization_to_u8 TO_QuantizedInt128AsI64 = 19"
| "type_optimization_to_u8 TO_QuantizedUint128AsU8 = 20"
| "type_optimization_to_u8 TO_QuantizedUint128AsU16 = 21"
| "type_optimization_to_u8 TO_QuantizedUint128AsU32 = 22"
| "type_optimization_to_u8 TO_QuantizedUint128AsU64 = 23"
| "type_optimization_to_u8 TO_QuantizedPtrAsU8 = 24"
| "type_optimization_to_u8 TO_QuantizedPtrAsU16 = 25"
| "type_optimization_to_u8 TO_QuantizedPtrAsU32 = 26"
| "type_optimization_to_u8 TO_QuantizedPtrAsU64 = 27"

definition type_optimization_from_u8 :: "u8 \<Rightarrow> type_optimization option" where
  "type_optimization_from_u8 = map_of [
    (0, TO_None), (1, TO_QuantizedInt16AsI8), (2, TO_QuantizedInt32AsI8),
    (3, TO_QuantizedInt32AsI16), (4, TO_QuantizedInt64AsI8), (5, TO_QuantizedInt64AsI16),
    (6, TO_QuantizedInt64AsI32), (7, TO_QuantizedUint16AsU8), (8, TO_QuantizedUint32AsU8),
    (9, TO_QuantizedUint32AsU16), (10, TO_QuantizedUint64AsU8), (11, TO_QuantizedUint64AsU16),
    (12, TO_QuantizedUint64AsU32), (13, TO_QuantizedF64AsF32), (14, TO_QuantizedF128AsF32),
    (15, TO_QuantizedF128AsF64), (16, TO_QuantizedInt128AsI8), (17, TO_QuantizedInt128AsI16),
    (18, TO_QuantizedInt128AsI32), (19, TO_QuantizedInt128AsI64),
    (20, TO_QuantizedUint128AsU8), (21, TO_QuantizedUint128AsU16),
    (22, TO_QuantizedUint128AsU32), (23, TO_QuantizedUint128AsU64), (24, TO_QuantizedPtrAsU8),
    (25, TO_QuantizedPtrAsU16), (26, TO_QuantizedPtrAsU32), (27, TO_QuantizedPtrAsU64)]"

section \<open>Text encodings\<close>

datatype js_encoding = JS_UTF8 | JS_UTF16

primrec js_encoding_to_u8 :: "js_encoding \<Rightarrow> u8" where
  "js_encoding_to_u8 JS_UTF8 = 8"
| "js_encoding_to_u8 JS_UTF16 = 16"

primrec js_encoding_to_u32 :: "js_encoding \<Rightarrow> u32" where
  "js_encoding_to_u32 JS_UTF8 = 8"
| "js_encoding_to_u32 JS_UTF16 = 16"

text \<open>\<open>8.0f32\<close> and \<open>16.0f32\<close>, as bits.\<close>

primrec js_encoding_to_f32 :: "js_encoding \<Rightarrow> f32" where
  "js_encoding_to_f32 JS_UTF8 = 0x41000000"
| "js_encoding_to_f32 JS_UTF16 = 0x41800000"

definition js_encoding_from_u8 :: "u8 \<Rightarrow> js_encoding" where
  "js_encoding_from_u8 v = (if v = 8 then JS_UTF8 else if v = 16 then JS_UTF16 else JS_UTF8)"

definition js_encoding_from_u16 :: "u16 \<Rightarrow> js_encoding" where
  "js_encoding_from_u16 v = (if v = 8 then JS_UTF8 else if v = 16 then JS_UTF16 else JS_UTF8)"

definition js_encoding_from_u32 :: "u32 \<Rightarrow> js_encoding" where
  "js_encoding_from_u32 v = (if v = 8 then JS_UTF8 else if v = 16 then JS_UTF16 else JS_UTF8)"

definition js_encoding_from_f32 :: "f32 \<Rightarrow> js_encoding" where
  "js_encoding_from_f32 v =
     (if v = 0x41000000 then JS_UTF8 else if v = 0x41800000 then JS_UTF16 else JS_UTF8)"

definition js_encoding_from_f64 :: "f64 \<Rightarrow> js_encoding" where
  "js_encoding_from_f64 v =
     (if v = 0x4020000000000000 then JS_UTF8
      else if v = 0x4030000000000000 then JS_UTF16 else JS_UTF8)"

section \<open>The codes are codes\<close>

interpretation typed_slice_code: u8_code typed_slice_to_u8 typed_slice_from_u8
  unfolding typed_slice_from_u8_def by (rule u8_codeI, induct_tac x) simp_all

interpretation return_type_id_code: u8_code return_type_id_to_u8 return_type_id_from_u8
  unfolding return_type_id_from_u8_def by (rule u8_codeI, induct_tac x) simp_all

interpretation return_encoded_code: u8_code return_encoded_to_u8 return_encoded_from_u8
  unfolding return_encoded_from_u8_def by (rule u8_codeI, induct_tac x) simp_all

interpretation three_state_id_code: u8_code three_state_id_to_u8 three_state_id_from_u8
  unfolding three_state_id_from_u8_def by (rule u8_codeI, induct_tac x) simp_all

interpretation return_ids_code: u8_code return_ids_to_u8 return_ids_from_u8
  unfolding return_ids_from_u8_def by (rule u8_codeI, induct_tac x) simp_all

interpretation argument_operations_code: u8_code argument_operations_to_u8 argument_operations_from_u8
  unfolding argument_operations_from_u8_def by (rule u8_codeI, induct_tac x) simp_all

interpretation operations_code: u8_code operations_to_u8 operations_from_u8
  unfolding operations_from_u8_def by (rule u8_codeI, induct_tac x) simp_all

interpretation type_optimization_code: u8_code type_optimization_to_u8 type_optimization_from_u8
  unfolding type_optimization_from_u8_def by (rule u8_codeI, induct_tac x) simp_all

text \<open>The host's reading of a parameter's type byte; the guest never decodes one.\<close>

definition param_type_id_from_u8 :: "u8 \<Rightarrow> param_type_id option" where
  "param_type_id_from_u8 = map_of [
    (0, PT_Null), (1, PT_Undefined), (2, PT_Bool), (3, PT_Text8), (4, PT_Text16), (5, PT_Int8),
    (6, PT_Int16), (7, PT_Int32), (8, PT_Int64), (9, PT_Uint8), (10, PT_Uint16), (11, PT_Uint32),
    (12, PT_Uint64), (13, PT_Float32), (14, PT_Float64), (15, PT_ExternalReference),
    (16, PT_Uint8ArrayBuffer), (17, PT_Uint16ArrayBuffer), (18, PT_Uint32ArrayBuffer),
    (19, PT_Uint64ArrayBuffer), (20, PT_Int8ArrayBuffer), (21, PT_Int16ArrayBuffer),
    (22, PT_Int32ArrayBuffer), (23, PT_Int64ArrayBuffer), (24, PT_Float32ArrayBuffer),
    (25, PT_Float64ArrayBuffer), (26, PT_InternalReference), (27, PT_Int128), (28, PT_Uint128),
    (29, PT_CachedText), (30, PT_TypedArraySlice), (31, PT_ErrorCode)]"

interpretation param_type_id_code: u8_code param_type_id_to_u8 param_type_id_from_u8
  unfolding param_type_id_from_u8_def by (rule u8_codeI, induct_tac x) simp_all

lemma bit_mask_eq: "BIT_MASK = mask 32"
  by (simp add: BIT_MASK_def mask_eq_exp_minus_1)

lemma memory_id_unpack: "memory_id_from_u64 (memory_id_as_u64 m) = m"
  by (cases m) (auto simp: memory_id_from_u64_def memory_id_as_u64_def bit_mask_eq BIT_SIZE_def bit_simps
      intro!: bit_word_eqI)

section \<open>Properties\<close>

text \<open>The one-byte codes the guest decodes are exact. Each decoder accepts a byte exactly when it
  is the code of a value, and gives that value.\<close>

theorem wire_codes_exact:
  "(typed_slice_from_u8 b = Some s \<longleftrightarrow> b = typed_slice_to_u8 s)
   \<and> (return_type_id_from_u8 b = Some r \<longleftrightarrow> b = return_type_id_to_u8 r)
   \<and> (three_state_id_from_u8 b = Some st \<longleftrightarrow> b = three_state_id_to_u8 st)
   \<and> (return_ids_from_u8 b = Some ri \<longleftrightarrow> b = return_ids_to_u8 ri)
   \<and> (argument_operations_from_u8 b = Some ao \<longleftrightarrow> b = argument_operations_to_u8 ao)
   \<and> (operations_from_u8 b = Some oper \<longleftrightarrow> b = operations_to_u8 oper)
   \<and> (type_optimization_from_u8 b = Some tq \<longleftrightarrow> b = type_optimization_to_u8 tq)"
  by (simp only: typed_slice_code.dec_eq_Some return_type_id_code.dec_eq_Some
      three_state_id_code.dec_eq_Some return_ids_code.dec_eq_Some
      argument_operations_code.dec_eq_Some operations_code.dec_eq_Some
      type_optimization_code.dec_eq_Some simp_thms)

text \<open>The three marker types are the exception. Their \<open>From<u8>\<close> matches 1 and 4, but the codes
  are 100/101, 111/222 and 200/201: no marker's own code decodes.\<close>

theorem markers_never_decode:
  "return_value_marker_from_u8 (return_value_marker_to_u8 m) = None
   \<and> group_return_hint_marker_from_u8 (group_return_hint_marker_to_u8 g) = None
   \<and> return_hint_marker_from_u8 (return_hint_marker_to_u8 h) = None"
  by (cases m; cases g; cases h)
    (simp_all add: return_value_marker_from_u8_def group_return_hint_marker_from_u8_def
      return_hint_marker_from_u8_def)

text \<open>Packing a \<open>MemoryId\<close> into the \<open>u64\<close> that crosses the boundary loses nothing, and every
  \<open>u64\<close> is the packing of one \<open>MemoryId\<close>.\<close>

theorem memory_id_packing:
  "memory_id_from_u64 (memory_id_as_u64 m) = m \<and> memory_id_as_u64 (memory_id_from_u64 w) = w"
proof
  show "memory_id_from_u64 (memory_id_as_u64 m) = m" by (rule memory_id_unpack)
  show "memory_id_as_u64 (memory_id_from_u64 w) = w"
  proof (rule bit_word_eqI)
    fix k assume "k < LENGTH(64)"
    then show "bit (memory_id_as_u64 (memory_id_from_u64 w)) k \<longleftrightarrow> bit w k"
      by (cases "k < 32")
        (auto simp: memory_id_from_u64_def memory_id_as_u64_def bit_mask_eq BIT_SIZE_def bit_simps)
  qed
qed

end
