(* ===== verification/Quantize.thy ===== *)
theory Quantize
  imports Base
begin

text \<open>
  \<open>value_quantitization\<close> of \<open>foundation_wasm/src/base.rs\<close>: an integer, float or pointer is
  sent in the smallest type of its family that holds it, with a \<open>TypeOptimization\<close> byte that
  names the narrowing. The reading side is given as reference functions \<open>unq_*\<close>, one per family,
  which return \<open>None\<close> for an optimization that does not belong to the family. The contract between
  the two sides is the locale \<open>quantizer\<close>; each quantizer of the code is an interpretation.
\<close>

section \<open>Signed integers\<close>

definition qi16 :: "i16 \<Rightarrow> bytes \<times> type_optimization" where
  "qi16 value =
     (if -128 \<le> sint value \<and> sint value \<le> 127
      then (le_bytes 1 (ucast value :: i8), TO_QuantizedInt16AsI8)
      else (le_bytes 2 value, TO_None))"

definition qi32 :: "i32 \<Rightarrow> bytes \<times> type_optimization" where
  "qi32 value =
     (let v = sint value in
      if -128 \<le> v \<and> v \<le> 127
      then (le_bytes 1 (ucast value :: i8), TO_QuantizedInt32AsI8)
      else if (-32768 \<le> v \<and> v \<le> -129) \<or> (128 \<le> v \<and> v \<le> 32767)
      then (le_bytes 2 (ucast value :: i16), TO_QuantizedInt32AsI16)
      else (le_bytes 4 value, TO_None))"

definition qi64 :: "i64 \<Rightarrow> bytes \<times> type_optimization" where
  "qi64 value =
     (let v = sint value in
      if -128 \<le> v \<and> v \<le> 127
      then (le_bytes 1 (ucast value :: i8), TO_QuantizedInt64AsI8)
      else if (-32768 \<le> v \<and> v \<le> -129) \<or> (128 \<le> v \<and> v \<le> 32767)
      then (le_bytes 2 (ucast value :: i16), TO_QuantizedInt64AsI16)
      else if (-2147483648 \<le> v \<and> v \<le> -32769) \<or> (32768 \<le> v \<and> v \<le> 2147483647)
      then (le_bytes 4 (ucast value :: i32), TO_QuantizedInt64AsI32)
      else (le_bytes 8 value, TO_None))"

text \<open>Two \<open>i64\<close> halves, most significant first. \<open>>>\<close> on \<open>i128\<close> is the arithmetic shift.\<close>

definition i128_halves :: "i128 \<Rightarrow> bytes" where
  "i128_halves value =
     (let value_msb = ucast (signed_drop_bit 64 value) :: i64;
          value_lsb = ucast value :: i64
      in le_bytes 8 value_msb @ le_bytes 8 value_lsb)"

definition qi128 :: "i128 \<Rightarrow> bytes \<times> type_optimization" where
  "qi128 value =
     (let v = sint value in
      if -128 \<le> v \<and> v \<le> 127
      then (le_bytes 1 (ucast value :: i8), TO_QuantizedInt128AsI8)
      else if (-32768 \<le> v \<and> v \<le> -129) \<or> (128 \<le> v \<and> v \<le> 32767)
      then (le_bytes 2 (ucast value :: i16), TO_QuantizedInt128AsI16)
      else if (-2147483648 \<le> v \<and> v \<le> -32769) \<or> (32768 \<le> v \<and> v \<le> 2147483647)
      then (le_bytes 4 (ucast value :: i32), TO_QuantizedInt128AsI32)
      else if (-9223372036854775808 \<le> v \<and> v \<le> -2147483649)
            \<or> (2147483648 \<le> v \<and> v \<le> 9223372036854775807)
      then (le_bytes 8 (ucast value :: i64), TO_QuantizedInt128AsI64)
      else (i128_halves value, TO_None))"

section \<open>Unsigned integers and pointers\<close>

definition qu16 :: "u16 \<Rightarrow> bytes \<times> type_optimization" where
  "qu16 value =
     (if value \<le> 255 then (le_bytes 1 (ucast value :: u8), TO_QuantizedUint16AsU8)
      else (le_bytes 2 value, TO_None))"

definition qu32 :: "u32 \<Rightarrow> bytes \<times> type_optimization" where
  "qu32 value =
     (if value \<le> 255 then (le_bytes 1 (ucast value :: u8), TO_QuantizedUint32AsU8)
      else if 256 \<le> value \<and> value \<le> 65535
      then (le_bytes 2 (ucast value :: u16), TO_QuantizedUint32AsU16)
      else (le_bytes 4 value, TO_None))"

definition qu64 :: "u64 \<Rightarrow> bytes \<times> type_optimization" where
  "qu64 value =
     (if value \<le> 255 then (le_bytes 1 (ucast value :: u8), TO_QuantizedUint64AsU8)
      else if 256 \<le> value \<and> value \<le> 65535
      then (le_bytes 2 (ucast value :: u16), TO_QuantizedUint64AsU16)
      else if 65536 \<le> value \<and> value \<le> 4294967295
      then (le_bytes 4 (ucast value :: u32), TO_QuantizedUint64AsU32)
      else (le_bytes 8 value, TO_None))"

definition u128_halves :: "u128 \<Rightarrow> bytes" where
  "u128_halves value =
     (let value_msb = ucast (drop_bit 64 value) :: u64;
          value_lsb = ucast (value AND 0xFFFFFFFFFFFFFFFF) :: u64
      in le_bytes 8 value_msb @ le_bytes 8 value_lsb)"

definition qu128 :: "u128 \<Rightarrow> bytes \<times> type_optimization" where
  "qu128 value =
     (if value \<le> 255 then (le_bytes 1 (ucast value :: u8), TO_QuantizedUint128AsU8)
      else if 256 \<le> value \<and> value \<le> 65535
      then (le_bytes 2 (ucast value :: u16), TO_QuantizedUint128AsU16)
      else if 65536 \<le> value \<and> value \<le> 4294967295
      then (le_bytes 4 (ucast value :: u32), TO_QuantizedUint128AsU32)
      else if 4294967296 \<le> value \<and> value \<le> 18446744073709551615
      then (le_bytes 8 (ucast value :: u64), TO_QuantizedUint128AsU64)
      else (u128_halves value, TO_None))"

text \<open>A pointer is its address as a \<open>u64\<close>.\<close>

definition qpointer :: "u64 \<Rightarrow> bytes \<times> type_optimization" where
  "qpointer ptr =
     (if ptr \<le> 255 then (le_bytes 1 (ucast ptr :: u8), TO_QuantizedPtrAsU8)
      else if 256 \<le> ptr \<and> ptr \<le> 65535
      then (le_bytes 2 (ucast ptr :: u16), TO_QuantizedPtrAsU16)
      else if 65536 \<le> ptr \<and> ptr \<le> 4294967295
      then (le_bytes 4 (ucast ptr :: u32), TO_QuantizedPtrAsU32)
      else (le_bytes 8 ptr, TO_None))"

section \<open>Floats\<close>

text \<open>
  \<open>value as f32\<close> rounds to the nearest \<open>f32\<close>, ties to even. On the bits: \<open>f64_exp\<close> and
  \<open>f64_man\<close> are the two fields, \<open>round_half_even\<close> drops low bits, and a carry out of the
  mantissa moves into the exponent field, as it must.
\<close>

definition f64_neg :: "f64 \<Rightarrow> nat" where "f64_neg v = unat v div 2 ^ 63"
definition f64_exp :: "f64 \<Rightarrow> nat" where "f64_exp v = unat v div 2 ^ 52 mod 2 ^ 11"
definition f64_man :: "f64 \<Rightarrow> nat" where "f64_man v = unat v mod 2 ^ 52"

definition f64_as_f32 :: "f64 \<Rightarrow> f32" where
  "f64_as_f32 v =
     (let e = f64_exp v; m = f64_man v; neg = f64_neg v * 2 ^ 31;
          sig = (if e = 0 then m else 2 ^ 52 + m);
          magnitude =
            (if e = 2047 then (if m = 0 then 0x7F800000 else 0x7FC00000)
             else if 1150 < e then 0x7F800000
             else if 897 \<le> e then (e - 897) * 2 ^ 23 + round_half_even sig 29
             else round_half_even sig (29 + (897 - max e 1)))
      in of_nat (neg + magnitude))"

text \<open>\<open>F32_MIN..=F32_MAX\<close>: the magnitude is at most that of \<open>f32::MAX\<close>; NaN is outside.\<close>

definition f64_in_f32_range :: "f64 \<Rightarrow> bool" where
  "f64_in_f32_range v \<longleftrightarrow> v AND 0x7FFFFFFFFFFFFFFF \<le> 0x47EFFFFFE0000000"

definition qf64 :: "f64 \<Rightarrow> bytes \<times> type_optimization" where
  "qf64 value =
     (if f64_in_f32_range value then (le_bytes 4 (f64_as_f32 value), TO_QuantizedF64AsF32)
      else (le_bytes 8 value, TO_None))"

section \<open>The reading side\<close>

text \<open>The number of payload bytes behind an optimization byte, for a type of \<open>n\<close> bytes.\<close>

primrec payload_width :: "nat \<Rightarrow> type_optimization \<Rightarrow> nat" where
  "payload_width n TO_None = n"
| "payload_width n TO_QuantizedInt16AsI8 = 1"
| "payload_width n TO_QuantizedInt32AsI8 = 1"
| "payload_width n TO_QuantizedInt32AsI16 = 2"
| "payload_width n TO_QuantizedInt64AsI8 = 1"
| "payload_width n TO_QuantizedInt64AsI16 = 2"
| "payload_width n TO_QuantizedInt64AsI32 = 4"
| "payload_width n TO_QuantizedUint16AsU8 = 1"
| "payload_width n TO_QuantizedUint32AsU8 = 1"
| "payload_width n TO_QuantizedUint32AsU16 = 2"
| "payload_width n TO_QuantizedUint64AsU8 = 1"
| "payload_width n TO_QuantizedUint64AsU16 = 2"
| "payload_width n TO_QuantizedUint64AsU32 = 4"
| "payload_width n TO_QuantizedF64AsF32 = 4"
| "payload_width n TO_QuantizedF128AsF32 = 4"
| "payload_width n TO_QuantizedF128AsF64 = 8"
| "payload_width n TO_QuantizedInt128AsI8 = 1"
| "payload_width n TO_QuantizedInt128AsI16 = 2"
| "payload_width n TO_QuantizedInt128AsI32 = 4"
| "payload_width n TO_QuantizedInt128AsI64 = 8"
| "payload_width n TO_QuantizedUint128AsU8 = 1"
| "payload_width n TO_QuantizedUint128AsU16 = 2"
| "payload_width n TO_QuantizedUint128AsU32 = 4"
| "payload_width n TO_QuantizedUint128AsU64 = 8"
| "payload_width n TO_QuantizedPtrAsU8 = 1"
| "payload_width n TO_QuantizedPtrAsU16 = 2"
| "payload_width n TO_QuantizedPtrAsU32 = 4"
| "payload_width n TO_QuantizedPtrAsU64 = 8"

definition unq_i16 :: "type_optimization \<Rightarrow> bytes \<Rightarrow> i16 option" where
  "unq_i16 t bs =
     (case t of TO_None \<Rightarrow> Some (le_word bs)
      | TO_QuantizedInt16AsI8 \<Rightarrow> Some (scast (le_word bs :: i8))
      | _ \<Rightarrow> None)"

definition unq_i32 :: "type_optimization \<Rightarrow> bytes \<Rightarrow> i32 option" where
  "unq_i32 t bs =
     (case t of TO_None \<Rightarrow> Some (le_word bs)
      | TO_QuantizedInt32AsI8 \<Rightarrow> Some (scast (le_word bs :: i8))
      | TO_QuantizedInt32AsI16 \<Rightarrow> Some (scast (le_word bs :: i16))
      | _ \<Rightarrow> None)"

definition unq_i64 :: "type_optimization \<Rightarrow> bytes \<Rightarrow> i64 option" where
  "unq_i64 t bs =
     (case t of TO_None \<Rightarrow> Some (le_word bs)
      | TO_QuantizedInt64AsI8 \<Rightarrow> Some (scast (le_word bs :: i8))
      | TO_QuantizedInt64AsI16 \<Rightarrow> Some (scast (le_word bs :: i16))
      | TO_QuantizedInt64AsI32 \<Rightarrow> Some (scast (le_word bs :: i32))
      | _ \<Rightarrow> None)"

text \<open>The halves of a 128-bit value: the upper one shifted, the lower one zero-extended.\<close>

definition join_halves :: "bytes \<Rightarrow> u128" where
  "join_halves bs =
     push_bit 64 (ucast (le_word (take 8 bs) :: u64)) OR ucast (le_word (drop 8 bs) :: u64)"

definition unq_i128 :: "type_optimization \<Rightarrow> bytes \<Rightarrow> i128 option" where
  "unq_i128 t bs =
     (case t of TO_None \<Rightarrow> Some (join_halves bs)
      | TO_QuantizedInt128AsI8 \<Rightarrow> Some (scast (le_word bs :: i8))
      | TO_QuantizedInt128AsI16 \<Rightarrow> Some (scast (le_word bs :: i16))
      | TO_QuantizedInt128AsI32 \<Rightarrow> Some (scast (le_word bs :: i32))
      | TO_QuantizedInt128AsI64 \<Rightarrow> Some (scast (le_word bs :: i64))
      | _ \<Rightarrow> None)"

definition unq_u16 :: "type_optimization \<Rightarrow> bytes \<Rightarrow> u16 option" where
  "unq_u16 t bs =
     (case t of TO_None \<Rightarrow> Some (le_word bs)
      | TO_QuantizedUint16AsU8 \<Rightarrow> Some (ucast (le_word bs :: u8))
      | _ \<Rightarrow> None)"

definition unq_u32 :: "type_optimization \<Rightarrow> bytes \<Rightarrow> u32 option" where
  "unq_u32 t bs =
     (case t of TO_None \<Rightarrow> Some (le_word bs)
      | TO_QuantizedUint32AsU8 \<Rightarrow> Some (ucast (le_word bs :: u8))
      | TO_QuantizedUint32AsU16 \<Rightarrow> Some (ucast (le_word bs :: u16))
      | _ \<Rightarrow> None)"

definition unq_u64 :: "type_optimization \<Rightarrow> bytes \<Rightarrow> u64 option" where
  "unq_u64 t bs =
     (case t of TO_None \<Rightarrow> Some (le_word bs)
      | TO_QuantizedUint64AsU8 \<Rightarrow> Some (ucast (le_word bs :: u8))
      | TO_QuantizedUint64AsU16 \<Rightarrow> Some (ucast (le_word bs :: u16))
      | TO_QuantizedUint64AsU32 \<Rightarrow> Some (ucast (le_word bs :: u32))
      | _ \<Rightarrow> None)"

definition unq_u128 :: "type_optimization \<Rightarrow> bytes \<Rightarrow> u128 option" where
  "unq_u128 t bs =
     (case t of TO_None \<Rightarrow> Some (join_halves bs)
      | TO_QuantizedUint128AsU8 \<Rightarrow> Some (ucast (le_word bs :: u8))
      | TO_QuantizedUint128AsU16 \<Rightarrow> Some (ucast (le_word bs :: u16))
      | TO_QuantizedUint128AsU32 \<Rightarrow> Some (ucast (le_word bs :: u32))
      | TO_QuantizedUint128AsU64 \<Rightarrow> Some (ucast (le_word bs :: u64))
      | _ \<Rightarrow> None)"

definition unq_pointer :: "type_optimization \<Rightarrow> bytes \<Rightarrow> u64 option" where
  "unq_pointer t bs =
     (case t of TO_None \<Rightarrow> Some (le_word bs)
      | TO_QuantizedPtrAsU8 \<Rightarrow> Some (ucast (le_word bs :: u8))
      | TO_QuantizedPtrAsU16 \<Rightarrow> Some (ucast (le_word bs :: u16))
      | TO_QuantizedPtrAsU32 \<Rightarrow> Some (ucast (le_word bs :: u32))
      | TO_QuantizedPtrAsU64 \<Rightarrow> Some (le_word bs)
      | _ \<Rightarrow> None)"

text \<open>An optimization byte, its payload, and the rest of the stream.\<close>

definition read_quantized ::
    "nat \<Rightarrow> (type_optimization \<Rightarrow> bytes \<Rightarrow> 'a option) \<Rightarrow> bytes \<Rightarrow> ('a \<times> bytes) option" where
  "read_quantized n unq bs =
     (case bs of
        [] \<Rightarrow> None
      | b # rest \<Rightarrow>
          (case type_optimization_from_u8 b of
             None \<Rightarrow> None
           | Some t \<Rightarrow>
               let w = payload_width n t in
               if length rest < w then None
               else map_option (\<lambda>v. (v, drop w rest)) (unq t (take w rest))))"

section \<open>The contract\<close>

locale quantizer =
  fixes q :: "'a \<Rightarrow> bytes \<times> type_optimization"
    and unq :: "type_optimization \<Rightarrow> bytes \<Rightarrow> 'a option"
    and width :: nat
  assumes unq_q: "unq (snd (q v)) (fst (q v)) = Some v"
    and q_width: "length (fst (q v)) = payload_width width (snd (q v))"
    and q_no_longer: "length (fst (q v)) \<le> width"
begin

lemma q_inject: "q v = q w \<longleftrightarrow> v = w"
  using unq_q by (metis option.inject)

lemma read_q_at:
  "payload_width n (snd (q v)) = length (fst (q v)) \<Longrightarrow>
   read_quantized n unq (type_optimization_to_u8 (snd (q v)) # fst (q v) @ rest) = Some (v, rest)"
  using unq_q [of v] by (simp add: read_quantized_def type_optimization_code.dec_enc Let_def)

lemma read_q_split:
  "read_quantized width unq (type_optimization_to_u8 (snd (q v)) # fst (q v) @ rest) = Some (v, rest)"
  by (rule read_q_at) (simp add: q_width)

lemma read_raw:
  "unq TO_None raw = Some v \<Longrightarrow>
   read_quantized (length raw) unq (type_optimization_to_u8 TO_None # raw @ rest) = Some (v, rest)"
  by (simp add: read_quantized_def type_optimization_code.dec_enc Let_def del: type_optimization_to_u8.simps)

end

section \<open>The quantizers meet it\<close>

text \<open>A narrowed value is in the range of the narrow type, so the widening gives it back.\<close>

lemma widen_signed [simp]:
  "-128 \<le> sint (a :: i16) \<Longrightarrow> sint a \<le> 127 \<Longrightarrow> scast (ucast a :: i8) = a"
  "-128 \<le> sint (b :: i32) \<Longrightarrow> sint b \<le> 127 \<Longrightarrow> scast (ucast b :: i8) = b"
  "-32768 \<le> sint b \<Longrightarrow> sint b \<le> 32767 \<Longrightarrow> scast (ucast b :: i16) = b"
  "-128 \<le> sint (c :: i64) \<Longrightarrow> sint c \<le> 127 \<Longrightarrow> scast (ucast c :: i8) = c"
  "-32768 \<le> sint c \<Longrightarrow> sint c \<le> 32767 \<Longrightarrow> scast (ucast c :: i16) = c"
  "-2147483648 \<le> sint c \<Longrightarrow> sint c \<le> 2147483647 \<Longrightarrow> scast (ucast c :: i32) = c"
  "-128 \<le> sint (d :: i128) \<Longrightarrow> sint d \<le> 127 \<Longrightarrow> scast (ucast d :: i8) = d"
  "-32768 \<le> sint d \<Longrightarrow> sint d \<le> 32767 \<Longrightarrow> scast (ucast d :: i16) = d"
  "-2147483648 \<le> sint d \<Longrightarrow> sint d \<le> 2147483647 \<Longrightarrow> scast (ucast d :: i32) = d"
  "-9223372036854775808 \<le> sint d \<Longrightarrow> sint d \<le> 9223372036854775807 \<Longrightarrow> scast (ucast d :: i64) = d"
  by (simp_all add: scast_ucast_id)

lemma widen_unsigned [simp]:
  "(a :: u16) \<le> 255 \<Longrightarrow> ucast (ucast a :: u8) = a"
  "(b :: u32) \<le> 255 \<Longrightarrow> ucast (ucast b :: u8) = b"
  "b \<le> 65535 \<Longrightarrow> ucast (ucast b :: u16) = b"
  "(c :: u64) \<le> 255 \<Longrightarrow> ucast (ucast c :: u8) = c"
  "c \<le> 65535 \<Longrightarrow> ucast (ucast c :: u16) = c"
  "c \<le> 4294967295 \<Longrightarrow> ucast (ucast c :: u32) = c"
  "(d :: u128) \<le> 255 \<Longrightarrow> ucast (ucast d :: u8) = d"
  "d \<le> 65535 \<Longrightarrow> ucast (ucast d :: u16) = d"
  "d \<le> 4294967295 \<Longrightarrow> ucast (ucast d :: u32) = d"
  "d \<le> 18446744073709551615 \<Longrightarrow> ucast (ucast d :: u64) = d"
  by (simp_all add: ucast_ucast_id word_le_nat_alt)

lemma join_halves_bits:
  "join_halves (le_bytes 8 (ucast (drop_bit 64 v) :: u64) @ le_bytes 8 (ucast v :: u64)) = v"
proof (rule bit_word_eqI)
  fix k assume "k < LENGTH(128)"
  then show "bit (join_halves (le_bytes 8 (ucast (drop_bit 64 v) :: u64) @ le_bytes 8 (ucast v :: u64))) k
      \<longleftrightarrow> bit v k"
    by (cases "k < 64") (auto simp: join_halves_def bit_simps)
qed

lemma u128_halves_eq:
  "u128_halves v = le_bytes 8 (ucast (drop_bit 64 v) :: u64) @ le_bytes 8 (ucast v :: u64)"
proof -
  have "v AND 0xFFFFFFFFFFFFFFFF = take_bit 64 v"
    by (simp add: take_bit_eq_mask mask_eq_exp_minus_1)
  then have "(ucast (v AND 0xFFFFFFFFFFFFFFFF) :: u64) = ucast v"
    by (auto intro!: bit_word_eqI simp: bit_simps)
  then show ?thesis by (simp add: u128_halves_def)
qed

lemma i128_halves_eq:
  "i128_halves v = le_bytes 8 (ucast (drop_bit 64 v) :: u64) @ le_bytes 8 (ucast v :: u64)"
proof -
  have "(ucast (signed_drop_bit 64 v) :: u64) = ucast (drop_bit 64 v)"
    by (rule bit_word_eqI) (auto simp: bit_simps bit_signed_drop_bit_iff)
  then show ?thesis by (simp add: i128_halves_def)
qed

lemma halves_facts [simp]:
  "length (u128_halves v) = 16" "length (i128_halves v) = 16"
  "join_halves (u128_halves v) = v" "join_halves (i128_halves v) = v"
  by (simp_all add: u128_halves_eq i128_halves_eq join_halves_bits)

interpretation qi16: quantizer qi16 unq_i16 2
  by unfold_locales (auto simp: qi16_def unq_i16_def Let_def)

interpretation qi32: quantizer qi32 unq_i32 4
  by unfold_locales (auto simp: qi32_def unq_i32_def Let_def)

interpretation qi64: quantizer qi64 unq_i64 8
  by unfold_locales (auto simp: qi64_def unq_i64_def Let_def)

interpretation qi128: quantizer qi128 unq_i128 16
  by unfold_locales (auto simp: qi128_def unq_i128_def Let_def)

interpretation qu16: quantizer qu16 unq_u16 2
  by unfold_locales (auto simp: qu16_def unq_u16_def Let_def)

interpretation qu32: quantizer qu32 unq_u32 4
  by unfold_locales (auto simp: qu32_def unq_u32_def Let_def)

interpretation qu64: quantizer qu64 unq_u64 8
  by unfold_locales (auto simp: qu64_def unq_u64_def Let_def)

interpretation qu128: quantizer qu128 unq_u128 16
  by unfold_locales (auto simp: qu128_def unq_u128_def Let_def)

interpretation qpointer: quantizer qpointer unq_pointer 8
  by unfold_locales (auto simp: qpointer_def unq_pointer_def Let_def)

section \<open>Floats: what the narrowing keeps\<close>

text \<open>The widening the reader applies (\<open>f32 as f64\<close>), on the bits: exponents are rebiased by 896
  and a subnormal is normalised at its leading bit.\<close>

fun msb_index :: "nat \<Rightarrow> nat" where
  "msb_index n = (if n < 2 then 0 else Suc (msb_index (n div 2)))"

declare msb_index.simps [simp del]

definition f32_as_f64 :: "f32 \<Rightarrow> f64" where
  "f32_as_f64 v =
     (let n = unat v; neg = n div 2 ^ 31; e = n div 2 ^ 23 mod 2 ^ 8; m = n mod 2 ^ 23
      in of_nat (neg * 2 ^ 63 +
           (if e = 255 then 2047 * 2 ^ 52 + m * 2 ^ 29
            else if e \<noteq> 0 then (e + 896) * 2 ^ 52 + m * 2 ^ 29
            else if m = 0 then 0
            else (let k = msb_index m in (k + 874) * 2 ^ 52 + (m - 2 ^ k) * 2 ^ (52 - k)))))"

definition unq_f64 :: "type_optimization \<Rightarrow> bytes \<Rightarrow> f64 option" where
  "unq_f64 t bs =
     (case t of TO_None \<Rightarrow> Some (le_word bs)
      | TO_QuantizedF64AsF32 \<Rightarrow> Some (f32_as_f64 (le_word bs))
      | _ \<Rightarrow> None)"

text \<open>A double that is an \<open>f32\<close>: a zero, or a normal \<open>f32\<close> exponent and the low 29 mantissa bits
  clear.\<close>

definition f64_is_f32 :: "f64 \<Rightarrow> bool" where
  "f64_is_f32 v \<longleftrightarrow>
     (f64_exp v = 0 \<and> f64_man v = 0) \<or>
     (897 \<le> f64_exp v \<and> f64_exp v \<le> 1150 \<and> f64_man v mod 2 ^ 29 = 0)"

lemma div_fields: "(n :: nat) = n div (a * b) * (a * b) + n div a mod b * a + n mod a"
proof -
  have "n div (a * b) * (a * b) + n div a mod b * a = (n div a div b * b + n div a mod b) * a"
    unfolding div_mult2_eq distrib_right by simp
  then show ?thesis by (simp only: div_mult_mod_eq)
qed

lemma f64_fields: "unat v = f64_neg v * 2 ^ 63 + f64_exp v * 2 ^ 52 + f64_man v"
  using div_fields [of "unat v" "2 ^ 52" "2 ^ 11"] by (simp add: f64_neg_def f64_exp_def f64_man_def)

lemma f64_field_bounds: "f64_neg v < 2" "f64_exp v < 2048" "f64_man v < 2 ^ 52"
proof -
  have "unat v < 2 ^ 64" using unsigned_less [of v] by simp
  then show "f64_neg v < 2" by (simp add: f64_neg_def less_mult_imp_div_less)
qed (simp_all add: f64_exp_def f64_man_def)

lemma round_exact: "m mod 2 ^ s = 0 \<Longrightarrow> round_half_even m s = m div 2 ^ s"
  by (simp add: round_half_even_def Let_def)

lemma round_le: "round_half_even m s \<le> m div 2 ^ s + 1"
  by (simp add: round_half_even_def Let_def)

lemma low_field: "(m :: nat) < d \<Longrightarrow> (m + k * d) div d = k \<and> (m + k * d) mod d = m"
  by simp

lemma f32_as_f64_fields:
  assumes "neg < 2" "e < 256" "m < 2 ^ 23" and v: "v = of_nat (neg * 2 ^ 31 + e * 2 ^ 23 + m)"
  shows "e = 0 \<Longrightarrow> m = 0 \<Longrightarrow> f32_as_f64 v = of_nat (neg * 2 ^ 63)"
    and "e \<noteq> 0 \<Longrightarrow> e \<noteq> 255 \<Longrightarrow>
      f32_as_f64 v = of_nat (neg * 2 ^ 63 + (e + 896) * 2 ^ 52 + m * 2 ^ 29)"
proof -
  have u: "unat v = neg * 2 ^ 31 + e * 2 ^ 23 + m"
    unfolding v by (rule unat_of_nat_small) (use assms in simp)
  then have w: "unat v = m + (neg * 2 ^ 8 + e) * 2 ^ 23" by simp
  have f: "unat v div 2 ^ 31 = neg" "unat v div 2 ^ 23 mod 2 ^ 8 = e" "unat v mod 2 ^ 23 = m"
    using assms(1-3) u low_field [of m "2 ^ 23" "neg * 2 ^ 8 + e"] unfolding w by simp_all
  show "e = 0 \<Longrightarrow> m = 0 \<Longrightarrow> f32_as_f64 v = of_nat (neg * 2 ^ 63)"
    unfolding f32_as_f64_def Let_def f by simp
  show "e \<noteq> 0 \<Longrightarrow> e \<noteq> 255 \<Longrightarrow>
      f32_as_f64 v = of_nat (neg * 2 ^ 63 + (e + 896) * 2 ^ 52 + m * 2 ^ 29)"
    unfolding f32_as_f64_def Let_def f by simp
qed

lemma widen_f32:
  assumes "f64_is_f32 v"
  shows "f32_as_f64 (f64_as_f32 v) = v"
proof -
  have n: "of_nat (f64_neg v * 2 ^ 63 + f64_exp v * 2 ^ 52 + f64_man v) = v"
    unfolding f64_fields [symmetric] by simp
  note b = f64_field_bounds [of v]
  show ?thesis
  proof (cases "f64_exp v = 0 \<and> f64_man v = 0")
    case True
    then have "f64_as_f32 v = of_nat (f64_neg v * 2 ^ 31 + 0 * 2 ^ 23 + 0)"
      by (simp add: f64_as_f32_def Let_def round_exact)
    from f32_as_f64_fields(1) [OF _ _ _ this] show ?thesis using b True n by simp
  next
    case False
    then have e: "897 \<le> f64_exp v" "f64_exp v \<le> 1150" and m: "f64_man v mod 2 ^ 29 = 0"
      using assms by (auto simp: f64_is_f32_def)
    define q where "q = f64_man v div 2 ^ 29"
    have mq: "f64_man v = q * 2 ^ 29" using m q_def by (metis div_mult_mod_eq add.right_neutral)
    have q: "q < 2 ^ 23" using b(3) mq by simp
    have s: "round_half_even (2 ^ 52 + f64_man v) 29 = 2 ^ 23 + q"
      by (subst round_exact) (simp_all add: mq)
    have "f64_as_f32 v = of_nat (f64_neg v * 2 ^ 31 + ((f64_exp v - 897) * 2 ^ 23 + (2 ^ 23 + q)))"
      unfolding f64_as_f32_def Let_def using e s by simp
    also have "f64_neg v * 2 ^ 31 + ((f64_exp v - 897) * 2 ^ 23 + (2 ^ 23 + q))
        = f64_neg v * 2 ^ 31 + (f64_exp v - 896) * 2 ^ 23 + q"
      using e by simp
    finally have v32: "f64_as_f32 v = of_nat (f64_neg v * 2 ^ 31 + (f64_exp v - 896) * 2 ^ 23 + q)" .
    from f32_as_f64_fields(2) [OF _ _ _ v32]
    have "f32_as_f64 (f64_as_f32 v)
        = of_nat (f64_neg v * 2 ^ 63 + (f64_exp v - 896 + 896) * 2 ^ 52 + q * 2 ^ 29)"
      using e b(1) q by simp
    also have "f64_exp v - 896 + 896 = f64_exp v" using e by simp
    finally show ?thesis using n by (simp only: mq)
  qed
qed

text \<open>The range test admits only values whose rounding is finite: the largest exponent is admitted
  with a mantissa that cannot carry.\<close>

definition f32_finite :: "f32 \<Rightarrow> bool" where
  "f32_finite w \<longleftrightarrow> unat w mod 2 ^ 31 < 255 * 2 ^ 23"

lemma unat_magnitude: "unat (v AND 0x7FFFFFFFFFFFFFFF) = f64_exp v * 2 ^ 52 + f64_man v"
proof -
  have "v AND 0x7FFFFFFFFFFFFFFF = take_bit 63 v"
    by (simp add: take_bit_eq_mask mask_eq_exp_minus_1)
  then have "unat (v AND 0x7FFFFFFFFFFFFFFF) = unat v mod 2 ^ 63"
    by (simp add: unsigned_take_bit_eq take_bit_eq_mod [where 'a = nat])
  also have "\<dots> = f64_exp v * 2 ^ 52 + f64_man v"
  proof -
    have lt: "f64_exp v * 2 ^ 52 + f64_man v < 2 ^ 63" using f64_field_bounds [of v] by simp
    have "unat v = f64_exp v * 2 ^ 52 + f64_man v + f64_neg v * 2 ^ 63"
      using f64_fields [of v] by simp
    with low_field [OF lt] show ?thesis by metis
  qed
  finally show ?thesis .
qed

lemma round_top:
  assumes "m \<le> q * 2 ^ s" and "0 < s"
  shows "round_half_even m s \<le> q"
proof (cases "m = q * 2 ^ s")
  case True
  then show ?thesis by (simp add: round_exact)
next
  case False
  then have "m div 2 ^ s < q" using assms by (simp add: less_mult_imp_div_less)
  then show ?thesis using round_le [of m s] by linarith
qed

lemma f64_in_f32_range_fields:
  assumes "f64_in_f32_range v"
  shows "f64_exp v < 1150 \<or> (f64_exp v = 1150 \<and> f64_man v \<le> (2 ^ 23 - 1) * 2 ^ 29)"
proof -
  have "unat (v AND 0x7FFFFFFFFFFFFFFF) \<le> 0x47EFFFFFE0000000"
    using assms unfolding f64_in_f32_range_def word_le_nat_alt by simp
  then show ?thesis using f64_field_bounds(3) [of v] unfolding unat_magnitude by simp linarith
qed

lemma f64_as_f32_magnitude:
  assumes "f64_in_f32_range v"
  obtains k where "k < 255 * 2 ^ 23" and "f64_as_f32 v = of_nat (f64_neg v * 2 ^ 31 + k)"
proof -
  note b = f64_field_bounds(3) [of v] and r = f64_in_f32_range_fields [OF assms]
  show thesis
  proof (cases "897 \<le> f64_exp v")
    case True
    let ?q = "round_half_even (2 ^ 52 + f64_man v) 29"
    have "?q \<le> (if f64_exp v = 1150 then 2 ^ 24 - 1 else 2 ^ 24)"
      using b r by (intro round_top) auto
    then have "(f64_exp v - 897) * 2 ^ 23 + ?q < 255 * 2 ^ 23"
      using r True by (simp split: if_splits)
    moreover have "f64_as_f32 v = of_nat (f64_neg v * 2 ^ 31 + ((f64_exp v - 897) * 2 ^ 23 + ?q))"
      unfolding f64_as_f32_def Let_def using r True by auto
    ultimately show ?thesis by (rule that)
  next
    case False
    let ?sig = "if f64_exp v = 0 then f64_man v else 2 ^ 52 + f64_man v"
    let ?s = "29 + (897 - max (f64_exp v) 1)"
    have "?sig \<le> 2 ^ 24 * 2 ^ 29" using b by simp
    also have "\<dots> \<le> 2 ^ 24 * 2 ^ ?s" by (intro mult_left_mono power_increasing) simp_all
    finally have "round_half_even ?sig ?s \<le> 2 ^ 24" by (rule round_top) simp
    then have "round_half_even ?sig ?s < 255 * 2 ^ 23" by simp
    moreover have "f64_as_f32 v = of_nat (f64_neg v * 2 ^ 31 + round_half_even ?sig ?s)"
      unfolding f64_as_f32_def Let_def using False by simp
    ultimately show ?thesis by (rule that)
  qed
qed

section \<open>Properties\<close>

text \<open>C40: every integer and pointer quantizer is lossless. Whatever follows on the stream, reading
  the optimization byte and its payload gives the value and leaves the rest.\<close>

theorem quantize_lossless:
  "read_quantized 2 unq_i16 (type_optimization_to_u8 (snd (qi16 a)) # fst (qi16 a) @ rest) = Some (a, rest)
   \<and> read_quantized 4 unq_i32 (type_optimization_to_u8 (snd (qi32 b)) # fst (qi32 b) @ rest) = Some (b, rest)
   \<and> read_quantized 8 unq_i64 (type_optimization_to_u8 (snd (qi64 c)) # fst (qi64 c) @ rest) = Some (c, rest)
   \<and> read_quantized 16 unq_i128 (type_optimization_to_u8 (snd (qi128 d)) # fst (qi128 d) @ rest) = Some (d, rest)
   \<and> read_quantized 2 unq_u16 (type_optimization_to_u8 (snd (qu16 e)) # fst (qu16 e) @ rest) = Some (e, rest)
   \<and> read_quantized 4 unq_u32 (type_optimization_to_u8 (snd (qu32 f)) # fst (qu32 f) @ rest) = Some (f, rest)
   \<and> read_quantized 8 unq_u64 (type_optimization_to_u8 (snd (qu64 g)) # fst (qu64 g) @ rest) = Some (g, rest)
   \<and> read_quantized 16 unq_u128 (type_optimization_to_u8 (snd (qu128 h)) # fst (qu128 h) @ rest) = Some (h, rest)
   \<and> read_quantized 8 unq_pointer (type_optimization_to_u8 (snd (qpointer p)) # fst (qpointer p) @ rest)
       = Some (p, rest)"
  by (simp only: qi16.read_q_split qi32.read_q_split qi64.read_q_split qi128.read_q_split
      qu16.read_q_split qu32.read_q_split qu64.read_q_split qu128.read_q_split qpointer.read_q_split
      simp_thms)

text \<open>The widths a family may choose from, and the narrowest that holds a value.\<close>

definition narrowest :: "nat list \<Rightarrow> (nat \<Rightarrow> bool) \<Rightarrow> nat" where
  "narrowest widths holds = hd (filter holds widths @ [last widths])"

lemma narrowest_signed:
  fixes v :: int
  shows "narrowest [1, 2, 4, 8] (\<lambda>w. - (2 ^ (8 * w - 1)) \<le> v \<and> v < 2 ^ (8 * w - 1)) =
      (if -128 \<le> v \<and> v < 128 then 1 else if -32768 \<le> v \<and> v < 32768 then 2
       else if -2147483648 \<le> v \<and> v < 2147483648 then 4 else 8)"
    and "narrowest [1, 2, 4, 8, 16] (\<lambda>w. - (2 ^ (8 * w - 1)) \<le> v \<and> v < 2 ^ (8 * w - 1)) =
      (if -128 \<le> v \<and> v < 128 then 1 else if -32768 \<le> v \<and> v < 32768 then 2
       else if -2147483648 \<le> v \<and> v < 2147483648 then 4
       else if -9223372036854775808 \<le> v \<and> v < 9223372036854775808 then 8 else 16)"
  by (simp_all add: narrowest_def)

lemma narrowest_unsigned:
  fixes v :: nat
  shows "narrowest [1, 2, 4, 8] (\<lambda>w. v < 2 ^ (8 * w)) =
      (if v < 256 then 1 else if v < 65536 then 2 else if v < 4294967296 then 4 else 8)"
    and "narrowest [1, 2, 4, 8, 16] (\<lambda>w. v < 2 ^ (8 * w)) =
      (if v < 256 then 1 else if v < 65536 then 2 else if v < 4294967296 then 4
       else if v < 18446744073709551616 then 8 else 16)"
  by (simp_all add: narrowest_def)

lemma quantized_lengths:
  "length (fst (qi64 c)) =
     (if -128 \<le> sint c \<and> sint c < 128 then 1 else if -32768 \<le> sint c \<and> sint c < 32768 then 2
      else if -2147483648 \<le> sint c \<and> sint c < 2147483648 then 4 else 8)"
  "length (fst (qi128 d)) =
     (if -128 \<le> sint d \<and> sint d < 128 then 1 else if -32768 \<le> sint d \<and> sint d < 32768 then 2
      else if -2147483648 \<le> sint d \<and> sint d < 2147483648 then 4
      else if -9223372036854775808 \<le> sint d \<and> sint d < 9223372036854775808 then 8 else 16)"
  "length (fst (qu64 g)) =
     (if unat g < 256 then 1 else if unat g < 65536 then 2 else if unat g < 4294967296 then 4 else 8)"
  "length (fst (qu128 h)) =
     (if unat h < 256 then 1 else if unat h < 65536 then 2 else if unat h < 4294967296 then 4
      else if unat h < 18446744073709551616 then 8 else 16)"
  by (simp_all add: qi64_def qi128_def qu64_def qu128_def Let_def word_le_nat_alt; linarith)+

text \<open>The quantizers are optimal. The payload has the narrowest width of the family that holds
  the value: 1, 2, 4, 8 or 16 bytes in two's complement for the signed types, in binary for the
  unsigned ones.\<close>

theorem quantize_narrowest:
  "length (fst (qi64 c)) = narrowest [1, 2, 4, 8] (\<lambda>w. - (2 ^ (8 * w - 1)) \<le> sint c \<and> sint c < 2 ^ (8 * w - 1))
   \<and> length (fst (qi128 d))
       = narrowest [1, 2, 4, 8, 16] (\<lambda>w. - (2 ^ (8 * w - 1)) \<le> sint d \<and> sint d < 2 ^ (8 * w - 1))
   \<and> length (fst (qu64 g)) = narrowest [1, 2, 4, 8] (\<lambda>w. unat g < 2 ^ (8 * w))
   \<and> length (fst (qu128 h)) = narrowest [1, 2, 4, 8, 16] (\<lambda>w. unat h < 2 ^ (8 * w))"
  by (simp only: quantized_lengths narrowest_signed narrowest_unsigned simp_thms)

text \<open>A double that is sent as an \<open>f32\<close> arrives finite and with its sign, and one that is an
  \<open>f32\<close> arrives unchanged.\<close>

theorem qf64_narrowing:
  assumes "qf64 v = (bs, TO_QuantizedF64AsF32)"
  shows "length bs = 4 \<and> f32_finite (le_word bs) \<and> unat (le_word bs :: f32) div 2 ^ 31 = f64_neg v
    \<and> (f64_is_f32 v \<longrightarrow> unq_f64 TO_QuantizedF64AsF32 bs = Some v)"
proof -
  from assms have r: "f64_in_f32_range v" and bs: "bs = le_bytes 4 (f64_as_f32 v)"
    by (auto simp: qf64_def split: if_splits)
  from bs have w: "le_word bs = f64_as_f32 v" by simp
  obtain k where k: "k < 255 * 2 ^ 23" "f64_as_f32 v = of_nat (f64_neg v * 2 ^ 31 + k)"
    using f64_as_f32_magnitude [OF r] by blast
  then have "unat (f64_as_f32 v) = k + f64_neg v * 2 ^ 31"
    using f64_field_bounds(1) [of v] unat_of_nat_small [of "f64_neg v * 2 ^ 31 + k", where 'a = 32]
    by simp
  then show ?thesis
    using k(1) low_field [of k "2 ^ 31" "f64_neg v"] widen_f32 [of v]
    unfolding w f32_finite_def unq_f64_def by (simp add: bs)
qed

theorem qf64_narrowing_witness:
  "f32_finite 0x3FC00000 \<and> unq_f64 TO_QuantizedF64AsF32 (le_bytes 4 (0x3FC00000 :: f32)) = Some 0x3FF8000000000000"
proof -
  have "qf64 0x3FF8000000000000 = (le_bytes 4 (0x3FC00000 :: f32), TO_QuantizedF64AsF32)"
    by (simp add: qf64_def f64_in_f32_range_def f64_as_f32_def f64_exp_def f64_man_def f64_neg_def
        round_half_even_def Let_def)
  moreover have "f64_is_f32 0x3FF8000000000000"
    by (simp add: f64_is_f32_def f64_exp_def f64_man_def)
  ultimately show ?thesis using qf64_narrowing by fastforce
qed

text \<open>The narrowing is not lossless. The range test asks only whether the magnitude fits an
  \<open>f32\<close>, so 0.1 is sent as an \<open>f32\<close> and arrives as 0.10000000149011612.\<close>

theorem qf64_loses_precision:
  "qf64 0x3FB999999999999A = (le_bytes 4 (0x3DCCCCCD :: f32), TO_QuantizedF64AsF32)
   \<and> unq_f64 TO_QuantizedF64AsF32 (fst (qf64 0x3FB999999999999A)) = Some 0x3FB99999A0000000"
  by (simp add: qf64_def f64_in_f32_range_def f64_as_f32_def f64_exp_def f64_man_def f64_neg_def
      round_half_even_def unq_f64_def f32_as_f64_def Let_def)

end
