(* ===== verification/Errors.thy ===== *)
theory Errors
  imports Base
begin

text \<open>
  The error types of \<open>backends/foundation_wasm/src/error.rs\<close> and their \<open>From\<close> conversions, which
  the \<open>?\<close> operator applies. A \<open>FromUtf8Error\<close> carries the bytes it was given. The message of
  \<open>BinaryReadError::MemoryError\<close> is only ever shown, so the model names the five messages of the
  code instead of spelling them.
\<close>

datatype task_error_code = TaskErrorCode (te_code: u16)

definition task_error_from_u16 :: "u16 \<Rightarrow> task_error_code" where
  "task_error_from_u16 code = TaskErrorCode code"

definition task_error_from_return_value :: "return_values \<Rightarrow> ('e, task_error_code) result" where
  "task_error_from_return_value value =
     (case value of RV_ErrorCode code \<Rightarrow> Ok (TaskErrorCode code) | _ \<Rightarrow> Panic)"

datatype memory_writer_error =
  MW_FailedWrite
  | MW_PreviousUnclosedOperation
  | MW_NotValidUTF8 bytes
  | MW_NotValidUTF16
  | MW_UnableToWrite
  | MW_UnexpectedFreeState
  | MW_UnexpectedOccupiedState

datatype return_value_error =
  RVE_UnexpectedReturnType
  | RVE_InvalidReturnType return_values
  | RVE_ExpectedOne "return_values list"
  | RVE_ExpectedList "return_values list"
  | RVE_ExpectedMultiple "return_values list"
  | RVE_InvalidReturnIds "return_values list"

datatype memory_allocation_error =
  MA_NoMemoryAllocation
  | MA_NoMoreAllocationSlots
  | MA_InvalidAllocationId
  | MA_FailedDeAllocation
  | MA_TaskFailure task_error_code
  | MA_FailedAllocationReading memory_id
  | MA_MemoryReadError memory_reader_error
  | MA_MemoryWriteError memory_writer_error
and memory_reader_error =
  MR_NotValidUTF8 bytes
  | MR_NotValidUTF16
  | MR_ReturnValueError return_value_error
  | MR_NotValidReplyBinary binary_read_error
and binary_read_error =
  BR_WrongStarterCode u8
  | BR_UnexpectedBinCode u8
  | BR_ExpectedStringInCode u8
  | BR_WrongEndingCode u8
  | BR_MemoryError memory_message
  | BR_NotMatchingTypeHint three_state return_type_id
and memory_message =
  Msg_Allocation memory_allocation_error
  | Msg_NoVec
  | Msg_UnevenLength
  | Msg_NotOneItem
  | Msg_NoValue

text \<open>The conversions, named by the type they produce and the type they take.\<close>

definition reader_error_from_return_value_error :: "return_value_error \<Rightarrow> memory_reader_error" where
  "reader_error_from_return_value_error value = MR_ReturnValueError value"

definition reader_error_from_binary :: "binary_read_error \<Rightarrow> memory_reader_error" where
  "reader_error_from_binary value = MR_NotValidReplyBinary value"

definition reader_error_from_utf8 :: "bytes \<Rightarrow> memory_reader_error" where
  "reader_error_from_utf8 value = MR_NotValidUTF8 value"

definition allocation_error_from_task :: "task_error_code \<Rightarrow> memory_allocation_error" where
  "allocation_error_from_task value = MA_TaskFailure value"

definition allocation_error_from_return_value_error ::
    "return_value_error \<Rightarrow> memory_allocation_error" where
  "allocation_error_from_return_value_error value =
     MA_MemoryReadError (reader_error_from_return_value_error value)"

definition allocation_error_from_reader :: "memory_reader_error \<Rightarrow> memory_allocation_error" where
  "allocation_error_from_reader value = MA_MemoryReadError value"

definition allocation_error_from_writer :: "memory_writer_error \<Rightarrow> memory_allocation_error" where
  "allocation_error_from_writer value = MA_MemoryWriteError value"

definition binary_error_from_allocation :: "memory_allocation_error \<Rightarrow> binary_read_error" where
  "binary_error_from_allocation value = BR_MemoryError (Msg_Allocation value)"

datatype guest_operation_error =
  GO_UnknownInternalPointer internal_pointer
  | GO_UnknownExternalPointer external_pointer

datatype wasm_errors =
  WE_GuestError guest_operation_error
  | WE_BinaryErrors binary_read_error
  | WE_MemoryErrors memory_allocation_error
  | WE_WriteErrors memory_writer_error
  | WE_ReadErrors memory_reader_error
  | WE_ReturnError return_value_error

lemmas error_conversions =
  reader_error_from_return_value_error_def reader_error_from_binary_def reader_error_from_utf8_def
  allocation_error_from_task_def allocation_error_from_return_value_error_def
  allocation_error_from_reader_def allocation_error_from_writer_def binary_error_from_allocation_def

end
