(* ===== verification/Encode.thy ===== *)
theory Encode
  imports Quantize Errors
begin

text \<open>
  What the guest writes: \<open>foundation_wasm/src/ops.rs\<close>, the implementations of \<open>ToBinary\<close> and of
  \<open>Batchable::encode\<close> for values, argument lists and return hints, over any \<open>BatchEncodable\<close>
  (\<open>mem.rs\<close>). The trait is a record of its methods, the implementing type a type parameter, so
  \<open>encode<F>\<close> is a function of the record; every arm of \<open>Params::encode\<close> is a definition of its own.
  The trait's contract is the locale \<open>batch_encoder\<close>; inside it each encoder is shown to append one
  frame to the operations and its text to the text buffer.
  \<open>usz\<close> is the size of \<open>usize\<close> in bytes.
\<close>

section \<open>The trait\<close>

record ('f, 's) batch_encodable =
  be_string :: "'f \<Rightarrow> bytes \<Rightarrow> ('s, memory_writer_error, str_location) exec"
  be_data :: "'f \<Rightarrow> bytes \<Rightarrow> ('s, memory_writer_error, unit) exec"
  be_end :: "'f \<Rightarrow> ('s, memory_writer_error, unit) exec"

abbreviation "arg_begin \<equiv> argument_operations_to_u8 AO_Begin"
abbreviation "arg_end \<equiv> argument_operations_to_u8 AO_End"
abbreviation "opt_u8 \<equiv> type_optimization_to_u8"
abbreviation "type_u8 p \<equiv> param_type_id_to_u8 (to_value_type p)"

section \<open>Plain binary\<close>

definition slice_location :: "'a rslice \<Rightarrow> bytes" where
  "slice_location value = le_bytes 8 (slice_ptr value) @ le_bytes 8 (slice_len value)"

primrec params_to_binary_value :: "params \<Rightarrow> bytes" where
  "params_to_binary_value P_Undefined = []"
| "params_to_binary_value P_Null = []"
| "params_to_binary_value (P_Float64 value) = le_bytes 8 value"
| "params_to_binary_value (P_CachedText value) = le_bytes 8 value"
| "params_to_binary_value (P_Uint64 value) = le_bytes 8 value"
| "params_to_binary_value (P_Text8 value) = slice_location value"
| "params_to_binary_value (P_ExternalReference value) = le_bytes 8 value"
| "params_to_binary_value (P_Float32 value) = le_bytes 4 value"
| "params_to_binary_value (P_Bool value) = (if value then [1] else [0])"
| "params_to_binary_value (P_Float64Array value) = slice_location value"
| "params_to_binary_value (P_Uint32Array value) = slice_location value"
| "params_to_binary_value (P_Int8 value) = le_bytes 1 value"
| "params_to_binary_value (P_Int16 value) = le_bytes 2 value"
| "params_to_binary_value (P_Int32 value) = le_bytes 4 value"
| "params_to_binary_value (P_Int64 value) = le_bytes 8 value"
| "params_to_binary_value (P_Uint8 value) = le_bytes 1 value"
| "params_to_binary_value (P_ErrorCode value) = le_bytes 2 value"
| "params_to_binary_value (P_Uint16 value) = le_bytes 2 value"
| "params_to_binary_value (P_Uint32 value) = le_bytes 4 value"
| "params_to_binary_value (P_Int128 value) =
     le_bytes 8 (ucast (signed_drop_bit 64 value) :: i64)
     @ le_bytes 8 (ucast (value AND 0xFFFFFFFFFFFFFFFF) :: i64)"
| "params_to_binary_value (P_Uint128 value) =
     le_bytes 8 (ucast (drop_bit 64 value) :: u64)
     @ le_bytes 8 (ucast (value AND 0xFFFFFFFFFFFFFFFF) :: u64)"
| "params_to_binary_value (P_Text16 value) = slice_location value"
| "params_to_binary_value (P_InternalReference value) = le_bytes 8 value"
| "params_to_binary_value (P_Uint64Array value) = slice_location value"
| "params_to_binary_value (P_Int32Array value) = slice_location value"
| "params_to_binary_value (P_Int64Array value) = slice_location value"
| "params_to_binary_value (P_Int8Array value) = slice_location value"
| "params_to_binary_value (P_Int16Array value) = slice_location value"
| "params_to_binary_value (P_Uint8Array value) = slice_location value"
| "params_to_binary_value (P_Uint16Array value) = slice_location value"
| "params_to_binary_value (P_Float32Array value) = slice_location value"
| "params_to_binary_value (P_TypedArraySlice slice_type value) =
     typed_slice_to_u8 slice_type # slice_location value"

definition params_to_binary :: "params \<Rightarrow> bytes" where
  "params_to_binary p = to_value_type_u8 p # params_to_binary_value p"

fun params_list_to_binary :: "params list \<Rightarrow> bytes" where
  "params_list_to_binary [] = []"
| "params_list_to_binary (p # ps) = params_to_binary p @ params_list_to_binary ps"

definition return_type_hints_to_binary :: "return_type_hints \<Rightarrow> ('e, bytes) result" where
  "return_type_hints_to_binary h =
     (if h = Hint_None
      then Ok [return_hint_marker_to_u8 RHM_Start, to_returns_u8 h, return_hint_marker_to_u8 RHM_Stop]
      else rbind (some_or_panic (to_returns_value_u8 h)) (\<lambda>value.
        Ok ([return_hint_marker_to_u8 RHM_Start, to_returns_u8 h] @ value
            @ [return_hint_marker_to_u8 RHM_Stop])))"

section \<open>One argument\<close>

definition encode_undefined :: "('f, 's) batch_encodable \<Rightarrow> 'f \<Rightarrow> ('s, memory_writer_error, unit) exec" where
  "encode_undefined d f = bind
     (be_data d f [arg_begin, type_u8 P_Undefined, arg_end])
     (\<lambda>_. ret ())"

definition encode_null :: "('f, 's) batch_encodable \<Rightarrow> 'f \<Rightarrow> ('s, memory_writer_error, unit) exec" where
  "encode_null d f = bind
     (be_data d f [arg_begin, type_u8 P_Null, arg_end])
     (\<lambda>_. ret ())"

definition encode_bool :: "('f, 's) batch_encodable \<Rightarrow> 'f \<Rightarrow> bool \<Rightarrow> ('s, memory_writer_error, unit) exec" where
  "encode_bool d f value =
     (let indicator = (if value then 1 else 0)
      in bind (be_data d f [arg_begin, type_u8 (P_Bool value),
                indicator, arg_end])
           (\<lambda>_. ret ()))"

definition encode_float32 :: "('f, 's) batch_encodable \<Rightarrow> 'f \<Rightarrow> f32 \<Rightarrow> ('s, memory_writer_error, unit) exec" where
  "encode_float32 d f value =
     (let value_bytes = le_bytes 4 value
      in bind (be_data d f ([arg_begin, type_u8 (P_Float32 value)]
                @ value_bytes @ [arg_end]))
           (\<lambda>_. ret ()))"

definition encode_int8 :: "('f, 's) batch_encodable \<Rightarrow> 'f \<Rightarrow> i8 \<Rightarrow> ('s, memory_writer_error, unit) exec" where
  "encode_int8 d f value =
     (let value_bytes = le_bytes 1 value
      in bind (be_data d f ([arg_begin, type_u8 (P_Int8 value)]
                @ value_bytes @ [arg_end]))
           (\<lambda>_. ret ()))"

definition encode_uint8 :: "('f, 's) batch_encodable \<Rightarrow> 'f \<Rightarrow> u8 \<Rightarrow> ('s, memory_writer_error, unit) exec" where
  "encode_uint8 d f value =
     (let value_bytes = le_bytes 1 value
      in bind (be_data d f ([arg_begin, type_u8 (P_Uint8 value)]
                @ value_bytes @ [arg_end]))
           (\<lambda>_. ret ()))"

definition encode_float64 :: "('f, 's) batch_encodable \<Rightarrow> 'f \<Rightarrow> bool \<Rightarrow> f64 \<Rightarrow> ('s, memory_writer_error, unit) exec" where
  "encode_float64 d f optimized value =
     (let (value_bytes, tq) = (if optimized then qf64 value else (le_bytes 8 value, TO_None))
      in bind (be_data d f ([arg_begin, type_u8 (P_Float64 value),
                opt_u8 tq] @ value_bytes @ [arg_end]))
           (\<lambda>_. ret ()))"

definition encode_error_code :: "('f, 's) batch_encodable \<Rightarrow> 'f \<Rightarrow> bool \<Rightarrow> u16 \<Rightarrow> ('s, memory_writer_error, unit) exec" where
  "encode_error_code d f optimized value =
     (let (value_bytes, tq) = (if optimized then qu16 value else (le_bytes 2 value, TO_None))
      in bind (be_data d f ([arg_begin, type_u8 (P_ErrorCode value),
                opt_u8 tq] @ value_bytes @ [arg_end]))
           (\<lambda>_. ret ()))"

definition encode_int16 :: "('f, 's) batch_encodable \<Rightarrow> 'f \<Rightarrow> bool \<Rightarrow> i16 \<Rightarrow> ('s, memory_writer_error, unit) exec" where
  "encode_int16 d f optimized value =
     (let (value_bytes, tq) = (if optimized then qi16 value else (le_bytes 2 value, TO_None))
      in bind (be_data d f ([arg_begin, type_u8 (P_Int16 value),
                opt_u8 tq] @ value_bytes @ [arg_end]))
           (\<lambda>_. ret ()))"

definition encode_int32 :: "('f, 's) batch_encodable \<Rightarrow> 'f \<Rightarrow> bool \<Rightarrow> i32 \<Rightarrow> ('s, memory_writer_error, unit) exec" where
  "encode_int32 d f optimized value =
     (let (value_bytes, tq) = (if optimized then qi32 value else (le_bytes 4 value, TO_None))
      in bind (be_data d f ([arg_begin, type_u8 (P_Int32 value),
                opt_u8 tq] @ value_bytes @ [arg_end]))
           (\<lambda>_. ret ()))"

definition encode_int64 :: "('f, 's) batch_encodable \<Rightarrow> 'f \<Rightarrow> bool \<Rightarrow> i64 \<Rightarrow> ('s, memory_writer_error, unit) exec" where
  "encode_int64 d f optimized value =
     (let (value_bytes, tq) = (if optimized then qi64 value else (le_bytes 8 value, TO_None))
      in bind (be_data d f ([arg_begin, type_u8 (P_Int64 value),
                opt_u8 tq] @ value_bytes @ [arg_end]))
           (\<lambda>_. ret ()))"

definition encode_uint16 :: "('f, 's) batch_encodable \<Rightarrow> 'f \<Rightarrow> bool \<Rightarrow> u16 \<Rightarrow> ('s, memory_writer_error, unit) exec" where
  "encode_uint16 d f optimized value =
     (let (value_bytes, tq) = (if optimized then qu16 value else (le_bytes 2 value, TO_None))
      in bind (be_data d f ([arg_begin, type_u8 (P_Uint16 value),
                opt_u8 tq] @ value_bytes @ [arg_end]))
           (\<lambda>_. ret ()))"

definition encode_uint32 :: "('f, 's) batch_encodable \<Rightarrow> 'f \<Rightarrow> bool \<Rightarrow> u32 \<Rightarrow> ('s, memory_writer_error, unit) exec" where
  "encode_uint32 d f optimized value =
     (let (value_bytes, tq) = (if optimized then qu32 value else (le_bytes 4 value, TO_None))
      in bind (be_data d f ([arg_begin, type_u8 (P_Uint32 value),
                opt_u8 tq] @ value_bytes @ [arg_end]))
           (\<lambda>_. ret ()))"

definition encode_uint64 :: "('f, 's) batch_encodable \<Rightarrow> 'f \<Rightarrow> bool \<Rightarrow> u64 \<Rightarrow> ('s, memory_writer_error, unit) exec" where
  "encode_uint64 d f optimized value =
     (let (value_bytes, tq) = (if optimized then qu64 value else (le_bytes 8 value, TO_None))
      in bind (be_data d f ([arg_begin, type_u8 (P_Uint64 value),
                opt_u8 tq] @ value_bytes @ [arg_end]))
           (\<lambda>_. ret ()))"

definition encode_cached_text :: "('f, 's) batch_encodable \<Rightarrow> 'f \<Rightarrow> bool \<Rightarrow> u64 \<Rightarrow> ('s, memory_writer_error, unit) exec" where
  "encode_cached_text d f optimized value =
     (let (value_bytes, tq) = (if optimized then qu64 value else (le_bytes 8 value, TO_None))
      in bind (be_data d f ([arg_begin, type_u8 (P_CachedText value),
                opt_u8 tq] @ value_bytes @ [arg_end]))
           (\<lambda>_. ret ()))"

definition encode_external_reference :: "('f, 's) batch_encodable \<Rightarrow> 'f \<Rightarrow> bool \<Rightarrow> u64 \<Rightarrow> ('s, memory_writer_error, unit) exec" where
  "encode_external_reference d f optimized value =
     (let (value_bytes, tq) = (if optimized then qu64 value else (le_bytes 8 value, TO_None))
      in bind (be_data d f ([arg_begin, type_u8 (P_ExternalReference value),
                opt_u8 tq] @ value_bytes @ [arg_end]))
           (\<lambda>_. ret ()))"

definition encode_internal_reference :: "('f, 's) batch_encodable \<Rightarrow> 'f \<Rightarrow> bool \<Rightarrow> u64 \<Rightarrow> ('s, memory_writer_error, unit) exec" where
  "encode_internal_reference d f optimized value =
     (let (value_bytes, tq) = (if optimized then qu64 value else (le_bytes 8 value, TO_None))
      in bind (be_data d f ([arg_begin, type_u8 (P_InternalReference value),
                opt_u8 tq] @ value_bytes @ [arg_end]))
           (\<lambda>_. ret ()))"

definition encode_int128 :: "('f, 's) batch_encodable \<Rightarrow> 'f \<Rightarrow> bool \<Rightarrow> i128 \<Rightarrow> ('s, memory_writer_error, unit) exec" where
  "encode_int128 d f optimized value =
     (let (value_bytes, tq) =
            (if optimized then qi128 value
             else (let value_msb = ucast (signed_drop_bit 64 value) :: u64; value_lsb = ucast value :: u64
                   in (le_bytes 8 value_msb @ le_bytes 8 value_lsb, TO_None)))
      in bind (be_data d f ([arg_begin, type_u8 (P_Int128 value),
                opt_u8 tq] @ value_bytes @ [arg_end]))
           (\<lambda>_. ret ()))"

definition encode_uint128 :: "('f, 's) batch_encodable \<Rightarrow> 'f \<Rightarrow> bool \<Rightarrow> u128 \<Rightarrow> ('s, memory_writer_error, unit) exec" where
  "encode_uint128 d f optimized value =
     (let (value_bytes, tq) =
            (if optimized then qu128 value
             else (let value_msb = ucast (drop_bit 64 value) :: u64; value_lsb = ucast value :: u64
                   in (le_bytes 8 value_msb @ le_bytes 8 value_lsb, TO_None)))
      in bind (be_data d f ([arg_begin, type_u8 (P_Uint128 value),
                opt_u8 tq] @ value_bytes @ [arg_end]))
           (\<lambda>_. ret ()))"

definition encode_text8 :: "('f, 's) batch_encodable \<Rightarrow> 'f \<Rightarrow> bool \<Rightarrow> u8 rslice \<Rightarrow> ('s, memory_writer_error, unit) exec" where
  "encode_text8 d f optimized value = bind (be_string d f (slice_elems value)) (\<lambda>value_pointer.
     let (value_index_bytes, tq_index) =
           (if optimized then qu64 (sl_index value_pointer)
            else (le_bytes 8 (sl_index value_pointer), TO_None));
         (value_length_bytes, tq_len) =
           (if optimized then qu64 (sl_len value_pointer)
            else (le_bytes 8 (sl_len value_pointer), TO_None))
     in bind (be_data d f ([arg_begin, type_u8 (P_Text8 value),
               opt_u8 tq_index] @ value_index_bytes
               @ [opt_u8 tq_len] @ value_length_bytes @ [arg_end]))
          (\<lambda>_. ret ()))"

definition encode_text16 :: "('f, 's) batch_encodable \<Rightarrow> 'f \<Rightarrow> nat \<Rightarrow> bool \<Rightarrow> u16 rslice \<Rightarrow> ('s, memory_writer_error, unit) exec" where
  "encode_text16 d f usz optimized value =
     (let (value_bytes, tq) =
            (if optimized then qpointer (slice_ptr value) else (le_bytes usz (slice_ptr value), TO_None));
          (value_length_bytes, tq_len) =
            (if optimized then qu64 (slice_len value) else (le_bytes usz (slice_len value), TO_None))
      in bind (be_data d f ([arg_begin, type_u8 (P_Text16 value),
                opt_u8 tq] @ value_bytes
                @ [opt_u8 tq_len] @ value_length_bytes @ [arg_end]))
           (\<lambda>_. ret ()))"

definition encode_float32_array :: "('f, 's) batch_encodable \<Rightarrow> 'f \<Rightarrow> nat \<Rightarrow> bool \<Rightarrow> f32 rslice \<Rightarrow> ('s, memory_writer_error, unit) exec" where
  "encode_float32_array d f usz optimized value =
     (let (value_bytes, tq) =
            (if optimized then qpointer (slice_ptr value) else (le_bytes usz (slice_ptr value), TO_None));
          (value_length_bytes, tq_len) =
            (if optimized then qu64 (slice_len value) else (le_bytes usz (slice_len value), TO_None))
      in bind (be_data d f ([arg_begin, type_u8 (P_Float32Array value),
                opt_u8 tq] @ value_bytes
                @ [opt_u8 tq_len] @ value_length_bytes @ [arg_end]))
           (\<lambda>_. ret ()))"

definition encode_float64_array :: "('f, 's) batch_encodable \<Rightarrow> 'f \<Rightarrow> nat \<Rightarrow> bool \<Rightarrow> f64 rslice \<Rightarrow> ('s, memory_writer_error, unit) exec" where
  "encode_float64_array d f usz optimized value =
     (let (value_bytes, tq) =
            (if optimized then qpointer (slice_ptr value) else (le_bytes usz (slice_ptr value), TO_None));
          (value_length_bytes, tq_len) =
            (if optimized then qu64 (slice_len value) else (le_bytes usz (slice_len value), TO_None))
      in bind (be_data d f ([arg_begin, type_u8 (P_Float64Array value),
                opt_u8 tq] @ value_bytes
                @ [opt_u8 tq_len] @ value_length_bytes @ [arg_end]))
           (\<lambda>_. ret ()))"

definition encode_uint32_array :: "('f, 's) batch_encodable \<Rightarrow> 'f \<Rightarrow> nat \<Rightarrow> bool \<Rightarrow> u32 rslice \<Rightarrow> ('s, memory_writer_error, unit) exec" where
  "encode_uint32_array d f usz optimized value =
     (let (value_bytes, tq) =
            (if optimized then qpointer (slice_ptr value) else (le_bytes usz (slice_ptr value), TO_None));
          (value_length_bytes, tq_len) =
            (if optimized then qu64 (slice_len value) else (le_bytes usz (slice_len value), TO_None))
      in bind (be_data d f ([arg_begin, type_u8 (P_Uint32Array value),
                opt_u8 tq] @ value_bytes
                @ [opt_u8 tq_len] @ value_length_bytes @ [arg_end]))
           (\<lambda>_. ret ()))"

definition encode_uint8_array :: "('f, 's) batch_encodable \<Rightarrow> 'f \<Rightarrow> nat \<Rightarrow> bool \<Rightarrow> u8 rslice \<Rightarrow> ('s, memory_writer_error, unit) exec" where
  "encode_uint8_array d f usz optimized value =
     (let (value_bytes, tq) =
            (if optimized then qpointer (slice_ptr value) else (le_bytes usz (slice_ptr value), TO_None));
          (value_length_bytes, tq_len) =
            (if optimized then qu64 (slice_len value) else (le_bytes usz (slice_len value), TO_None))
      in bind (be_data d f ([arg_begin, type_u8 (P_Uint8Array value),
                opt_u8 tq] @ value_bytes
                @ [opt_u8 tq_len] @ value_length_bytes @ [arg_end]))
           (\<lambda>_. ret ()))"

definition encode_uint16_array :: "('f, 's) batch_encodable \<Rightarrow> 'f \<Rightarrow> nat \<Rightarrow> bool \<Rightarrow> u16 rslice \<Rightarrow> ('s, memory_writer_error, unit) exec" where
  "encode_uint16_array d f usz optimized value =
     (let (value_bytes, tq) =
            (if optimized then qpointer (slice_ptr value) else (le_bytes usz (slice_ptr value), TO_None));
          (value_length_bytes, tq_len) =
            (if optimized then qu64 (slice_len value) else (le_bytes usz (slice_len value), TO_None))
      in bind (be_data d f ([arg_begin, type_u8 (P_Uint16Array value),
                opt_u8 tq] @ value_bytes
                @ [opt_u8 tq_len] @ value_length_bytes @ [arg_end]))
           (\<lambda>_. ret ()))"

definition encode_uint64_array :: "('f, 's) batch_encodable \<Rightarrow> 'f \<Rightarrow> nat \<Rightarrow> bool \<Rightarrow> u64 rslice \<Rightarrow> ('s, memory_writer_error, unit) exec" where
  "encode_uint64_array d f usz optimized value =
     (let (value_bytes, tq) =
            (if optimized then qpointer (slice_ptr value) else (le_bytes usz (slice_ptr value), TO_None));
          (value_length_bytes, tq_len) =
            (if optimized then qu64 (slice_len value) else (le_bytes usz (slice_len value), TO_None))
      in bind (be_data d f ([arg_begin, type_u8 (P_Uint64Array value),
                opt_u8 tq] @ value_bytes
                @ [opt_u8 tq_len] @ value_length_bytes @ [arg_end]))
           (\<lambda>_. ret ()))"

definition encode_int32_array :: "('f, 's) batch_encodable \<Rightarrow> 'f \<Rightarrow> nat \<Rightarrow> bool \<Rightarrow> i32 rslice \<Rightarrow> ('s, memory_writer_error, unit) exec" where
  "encode_int32_array d f usz optimized value =
     (let (value_bytes, tq) =
            (if optimized then qpointer (slice_ptr value) else (le_bytes usz (slice_ptr value), TO_None));
          (value_length_bytes, tq_len) =
            (if optimized then qu64 (slice_len value) else (le_bytes usz (slice_len value), TO_None))
      in bind (be_data d f ([arg_begin, type_u8 (P_Int32Array value),
                opt_u8 tq] @ value_bytes
                @ [opt_u8 tq_len] @ value_length_bytes @ [arg_end]))
           (\<lambda>_. ret ()))"

definition encode_int64_array :: "('f, 's) batch_encodable \<Rightarrow> 'f \<Rightarrow> nat \<Rightarrow> bool \<Rightarrow> i64 rslice \<Rightarrow> ('s, memory_writer_error, unit) exec" where
  "encode_int64_array d f usz optimized value =
     (let (value_bytes, tq) =
            (if optimized then qpointer (slice_ptr value) else (le_bytes usz (slice_ptr value), TO_None));
          (value_length_bytes, tq_len) =
            (if optimized then qu64 (slice_len value) else (le_bytes usz (slice_len value), TO_None))
      in bind (be_data d f ([arg_begin, type_u8 (P_Int64Array value),
                opt_u8 tq] @ value_bytes
                @ [opt_u8 tq_len] @ value_length_bytes @ [arg_end]))
           (\<lambda>_. ret ()))"

definition encode_int8_array :: "('f, 's) batch_encodable \<Rightarrow> 'f \<Rightarrow> nat \<Rightarrow> bool \<Rightarrow> i8 rslice \<Rightarrow> ('s, memory_writer_error, unit) exec" where
  "encode_int8_array d f usz optimized value =
     (let (value_bytes, tq) =
            (if optimized then qpointer (slice_ptr value) else (le_bytes usz (slice_ptr value), TO_None));
          (value_length_bytes, tq_len) =
            (if optimized then qu64 (slice_len value) else (le_bytes usz (slice_len value), TO_None))
      in bind (be_data d f ([arg_begin, type_u8 (P_Int8Array value),
                opt_u8 tq] @ value_bytes
                @ [opt_u8 tq_len] @ value_length_bytes @ [arg_end]))
           (\<lambda>_. ret ()))"

definition encode_int16_array :: "('f, 's) batch_encodable \<Rightarrow> 'f \<Rightarrow> nat \<Rightarrow> bool \<Rightarrow> i16 rslice \<Rightarrow> ('s, memory_writer_error, unit) exec" where
  "encode_int16_array d f usz optimized value =
     (let (value_bytes, tq) =
            (if optimized then qpointer (slice_ptr value) else (le_bytes usz (slice_ptr value), TO_None));
          (value_length_bytes, tq_len) =
            (if optimized then qu64 (slice_len value) else (le_bytes usz (slice_len value), TO_None))
      in bind (be_data d f ([arg_begin, type_u8 (P_Int16Array value),
                opt_u8 tq] @ value_bytes
                @ [opt_u8 tq_len] @ value_length_bytes @ [arg_end]))
           (\<lambda>_. ret ()))"

definition encode_typed_array_slice :: "('f, 's) batch_encodable \<Rightarrow> 'f \<Rightarrow> nat \<Rightarrow> bool \<Rightarrow> typed_slice \<Rightarrow> u8 rslice \<Rightarrow> ('s, memory_writer_error, unit) exec" where
  "encode_typed_array_slice d f usz optimized slice_type value =
     (let (value_bytes, tq) =
            (if optimized then qpointer (slice_ptr value) else (le_bytes usz (slice_ptr value), TO_None));
          (value_length_bytes, tq_len) =
            (if optimized then qu64 (slice_len value) else (le_bytes usz (slice_len value), TO_None))
      in bind (be_data d f ([arg_begin, type_u8 (P_TypedArraySlice slice_type value),
                typed_slice_to_u8 slice_type,
                opt_u8 tq] @ value_bytes
                @ [opt_u8 tq_len] @ value_length_bytes @ [arg_end]))
           (\<lambda>_. ret ()))"

primrec params_encode :: "('f, 's) batch_encodable \<Rightarrow> 'f \<Rightarrow> nat \<Rightarrow> bool \<Rightarrow> params \<Rightarrow> ('s, memory_writer_error, unit) exec" where
  "params_encode d f usz optimized P_Undefined = encode_undefined d f"
| "params_encode d f usz optimized P_Null = encode_null d f"
| "params_encode d f usz optimized (P_Bool value) = encode_bool d f value"
| "params_encode d f usz optimized (P_Float32 value) = encode_float32 d f value"
| "params_encode d f usz optimized (P_Int8 value) = encode_int8 d f value"
| "params_encode d f usz optimized (P_Uint8 value) = encode_uint8 d f value"
| "params_encode d f usz optimized (P_Float64 value) = encode_float64 d f optimized value"
| "params_encode d f usz optimized (P_ErrorCode value) = encode_error_code d f optimized value"
| "params_encode d f usz optimized (P_Int16 value) = encode_int16 d f optimized value"
| "params_encode d f usz optimized (P_Int32 value) = encode_int32 d f optimized value"
| "params_encode d f usz optimized (P_Int64 value) = encode_int64 d f optimized value"
| "params_encode d f usz optimized (P_Uint16 value) = encode_uint16 d f optimized value"
| "params_encode d f usz optimized (P_Uint32 value) = encode_uint32 d f optimized value"
| "params_encode d f usz optimized (P_Uint64 value) = encode_uint64 d f optimized value"
| "params_encode d f usz optimized (P_CachedText value) = encode_cached_text d f optimized value"
| "params_encode d f usz optimized (P_ExternalReference value) = encode_external_reference d f optimized value"
| "params_encode d f usz optimized (P_InternalReference value) = encode_internal_reference d f optimized value"
| "params_encode d f usz optimized (P_Int128 value) = encode_int128 d f optimized value"
| "params_encode d f usz optimized (P_Uint128 value) = encode_uint128 d f optimized value"
| "params_encode d f usz optimized (P_Text8 value) = encode_text8 d f optimized value"
| "params_encode d f usz optimized (P_Text16 value) = encode_text16 d f usz optimized value"
| "params_encode d f usz optimized (P_Float32Array value) = encode_float32_array d f usz optimized value"
| "params_encode d f usz optimized (P_Float64Array value) = encode_float64_array d f usz optimized value"
| "params_encode d f usz optimized (P_Uint32Array value) = encode_uint32_array d f usz optimized value"
| "params_encode d f usz optimized (P_Uint8Array value) = encode_uint8_array d f usz optimized value"
| "params_encode d f usz optimized (P_Uint16Array value) = encode_uint16_array d f usz optimized value"
| "params_encode d f usz optimized (P_Uint64Array value) = encode_uint64_array d f usz optimized value"
| "params_encode d f usz optimized (P_Int32Array value) = encode_int32_array d f usz optimized value"
| "params_encode d f usz optimized (P_Int64Array value) = encode_int64_array d f usz optimized value"
| "params_encode d f usz optimized (P_Int8Array value) = encode_int8_array d f usz optimized value"
| "params_encode d f usz optimized (P_Int16Array value) = encode_int16_array d f usz optimized value"
| "params_encode d f usz optimized (P_TypedArraySlice slice_type value) = encode_typed_array_slice d f usz optimized slice_type value"

section \<open>Argument lists, hints, handles\<close>

definition DEFAULT_ALLOCATION_SIZE :: nat where "DEFAULT_ALLOCATION_SIZE = 10"

definition ARGUMENT_ENDER :: bytes where "ARGUMENT_ENDER = [argument_operations_to_u8 AO_Stop]"

definition ARGUMENT_STARTER :: bytes where "ARGUMENT_STARTER = [argument_operations_to_u8 AO_Start]"

fun encode_each ::
    "('f, 's) batch_encodable \<Rightarrow> 'f \<Rightarrow> nat \<Rightarrow> bool \<Rightarrow> params list \<Rightarrow> ('s, memory_writer_error, unit) exec" where
  "encode_each d f usz optimize [] = ret ()"
| "encode_each d f usz optimize (p # ps) =
     bind (params_encode d f usz optimize p) (\<lambda>_. encode_each d f usz optimize ps)"

definition params_list_encode ::
    "('f, 's) batch_encodable \<Rightarrow> 'f \<Rightarrow> nat \<Rightarrow> bool \<Rightarrow> params list \<Rightarrow> ('s, memory_writer_error, unit) exec" where
  "params_list_encode d f usz optimize ps =
     bind (be_data d f ARGUMENT_STARTER) (\<lambda>_.
     bind (encode_each d f usz optimize ps) (\<lambda>_.
     bind (be_data d f ARGUMENT_ENDER) (\<lambda>_. ret ())))"

definition return_type_hints_encode ::
    "('f, 's) batch_encodable \<Rightarrow> 'f \<Rightarrow> return_type_hints \<Rightarrow> ('s, memory_writer_error, unit) exec" where
  "return_type_hints_encode d f h =
     bind (lift_result (return_type_hints_to_binary h)) (\<lambda>encoded.
     bind (be_data d f encoded) (\<lambda>_. ret ()))"

definition internal_pointer_encode ::
    "('f, 's) batch_encodable \<Rightarrow> 'f \<Rightarrow> bool \<Rightarrow> internal_pointer \<Rightarrow> ('s, memory_writer_error, unit) exec" where
  "internal_pointer_encode d f optimized p =
     (let (value_bytes, tq) =
            (if optimized then qu64 (ip_value p) else (le_bytes 8 (ip_value p), TO_None))
      in bind (be_data d f ([param_type_id_to_u8 (internal_pointer_value_type p), opt_u8 tq] @ value_bytes))
           (\<lambda>_. ret ()))"

definition operations_encode ::
    "('f, 's) batch_encodable \<Rightarrow> 'f \<Rightarrow> operations \<Rightarrow> ('s, memory_writer_error, unit) exec" where
  "operations_encode d f oper = bind (be_data d f [operations_to_u8 oper]) (\<lambda>_. ret ())"

definition external_pointer_encode ::
    "('f, 's) batch_encodable \<Rightarrow> 'f \<Rightarrow> bool \<Rightarrow> external_pointer \<Rightarrow> ('s, memory_writer_error, unit) exec" where
  "external_pointer_encode d f optimized p =
     (let (value_bytes, tq) =
            (if optimized then qu64 (ep_value p) else (le_bytes 8 (ep_value p), TO_None))
      in bind (be_data d f ([param_type_id_to_u8 (external_pointer_value_type p), opt_u8 tq] @ value_bytes))
           (\<lambda>_. ret ()))"

section \<open>Frames\<close>

text \<open>
  What an argument looks like on the stream, as a function of the argument and of the length of the
  text buffer when it is written: begin, type, body, end. Only \<open>Text8\<close> writes text, and its body
  is the place of that text.
\<close>

definition opted :: "bool \<Rightarrow> bytes \<times> type_optimization \<Rightarrow> bytes \<Rightarrow> bytes" where
  "opted optimized q raw = (if optimized then opt_u8 (snd q) # fst q else opt_u8 TO_None # raw)"

definition slice_body :: "nat \<Rightarrow> bool \<Rightarrow> 'a rslice \<Rightarrow> bytes" where
  "slice_body usz optimized v =
     opted optimized (qpointer (slice_ptr v)) (le_bytes usz (slice_ptr v))
     @ opted optimized (qu64 (slice_len v)) (le_bytes usz (slice_len v))"

definition u64_body :: "bool \<Rightarrow> u64 \<Rightarrow> bytes" where
  "u64_body optimized v = opted optimized (qu64 v) (le_bytes 8 v)"

primrec param_body :: "nat \<Rightarrow> bool \<Rightarrow> nat \<Rightarrow> params \<Rightarrow> bytes" where
  "param_body usz optimized n P_Undefined = []"
| "param_body usz optimized n P_Null = []"
| "param_body usz optimized n (P_Bool v) = [if v then 1 else 0]"
| "param_body usz optimized n (P_Float32 v) = le_bytes 4 v"
| "param_body usz optimized n (P_Int8 v) = le_bytes 1 v"
| "param_body usz optimized n (P_Uint8 v) = le_bytes 1 v"
| "param_body usz optimized n (P_Float64 v) = opted optimized (qf64 v) (le_bytes 8 v)"
| "param_body usz optimized n (P_Int16 v) = opted optimized (qi16 v) (le_bytes 2 v)"
| "param_body usz optimized n (P_Int32 v) = opted optimized (qi32 v) (le_bytes 4 v)"
| "param_body usz optimized n (P_Int64 v) = opted optimized (qi64 v) (le_bytes 8 v)"
| "param_body usz optimized n (P_Int128 v) = opted optimized (qi128 v) (i128_halves v)"
| "param_body usz optimized n (P_Uint16 v) = opted optimized (qu16 v) (le_bytes 2 v)"
| "param_body usz optimized n (P_Uint32 v) = opted optimized (qu32 v) (le_bytes 4 v)"
| "param_body usz optimized n (P_Uint64 v) = u64_body optimized v"
| "param_body usz optimized n (P_Uint128 v) = opted optimized (qu128 v) (u128_halves v)"
| "param_body usz optimized n (P_ErrorCode v) = opted optimized (qu16 v) (le_bytes 2 v)"
| "param_body usz optimized n (P_CachedText v) = u64_body optimized v"
| "param_body usz optimized n (P_ExternalReference v) = u64_body optimized v"
| "param_body usz optimized n (P_InternalReference v) = u64_body optimized v"
| "param_body usz optimized n (P_Text8 v) =
     u64_body optimized (of_nat n) @ u64_body optimized (of_nat (length (slice_elems v)))"
| "param_body usz optimized n (P_Text16 v) = slice_body usz optimized v"
| "param_body usz optimized n (P_Int8Array v) = slice_body usz optimized v"
| "param_body usz optimized n (P_Int16Array v) = slice_body usz optimized v"
| "param_body usz optimized n (P_Int32Array v) = slice_body usz optimized v"
| "param_body usz optimized n (P_Int64Array v) = slice_body usz optimized v"
| "param_body usz optimized n (P_Uint8Array v) = slice_body usz optimized v"
| "param_body usz optimized n (P_Uint16Array v) = slice_body usz optimized v"
| "param_body usz optimized n (P_Uint32Array v) = slice_body usz optimized v"
| "param_body usz optimized n (P_Uint64Array v) = slice_body usz optimized v"
| "param_body usz optimized n (P_Float32Array v) = slice_body usz optimized v"
| "param_body usz optimized n (P_Float64Array v) = slice_body usz optimized v"
| "param_body usz optimized n (P_TypedArraySlice t v) = typed_slice_to_u8 t # slice_body usz optimized v"

definition param_text :: "params \<Rightarrow> bytes" where
  "param_text p = (case p of P_Text8 v \<Rightarrow> slice_elems v | _ \<Rightarrow> [])"

definition param_frame :: "nat \<Rightarrow> bool \<Rightarrow> nat \<Rightarrow> params \<Rightarrow> bytes" where
  "param_frame usz optimized n p = arg_begin # type_u8 p # param_body usz optimized n p @ [arg_end]"

fun params_frames :: "nat \<Rightarrow> bool \<Rightarrow> nat \<Rightarrow> params list \<Rightarrow> bytes" where
  "params_frames usz optimized n [] = []"
| "params_frames usz optimized n (p # ps) =
     param_frame usz optimized n p @ params_frames usz optimized (n + length (param_text p)) ps"

definition hints_frame :: "return_type_hints \<Rightarrow> bytes" where
  "hints_frame h =
     return_hint_marker_to_u8 RHM_Start # to_returns_u8 h
     # concat (map state_to_returns_value_u8 (case to_returns_value h of None \<Rightarrow> [] | Some v \<Rightarrow> v))
     @ [return_hint_marker_to_u8 RHM_Stop]"

lemma return_type_hints_to_binary_eq: "return_type_hints_to_binary h = Ok (hints_frame h)"
  by (cases h) (simp_all add: return_type_hints_to_binary_def hints_frame_def to_returns_value_u8_def)

section \<open>The contract of an encoder\<close>

text \<open>
  \<open>opened f s\<close>: the encoder \<open>f\<close> accepts writes. \<open>ops\<close> and \<open>texts\<close> are what it has written.
  \<open>same f\<close> relates states that differ at most in what \<open>f\<close> owns.
\<close>

locale batch_encoder =
  fixes d :: "('f, 's) batch_encodable"
    and opened :: "'f \<Rightarrow> 's \<Rightarrow> bool"
    and ops :: "'f \<Rightarrow> 's \<Rightarrow> bytes"
    and texts :: "'f \<Rightarrow> 's \<Rightarrow> bytes"
    and same :: "'f \<Rightarrow> 's \<Rightarrow> 's \<Rightarrow> bool"
  assumes data_law: "opened f s \<Longrightarrow> \<exists>s'. be_data d f bs s = (Ok (), s') \<and> opened f s'
      \<and> ops f s' = ops f s @ bs \<and> texts f s' = texts f s \<and> same f s s'"
    and string_law: "opened f s \<Longrightarrow> \<exists>s'.
        be_string d f bs s = (Ok (StrLocation (of_nat (length (texts f s))) (of_nat (length bs))), s')
      \<and> opened f s' \<and> ops f s' = ops f s \<and> texts f s' = texts f s @ bs \<and> same f s s'"
    and end_law: "opened f s \<Longrightarrow> \<exists>s'. be_end d f s = (Ok (), s') \<and> opened f s'
      \<and> ops f s' = ops f s @ [operations_to_u8 Op_End] \<and> texts f s' = texts f s \<and> same f s s'"
    and same_refl: "same f s s"
    and same_trans: "same f s s1 \<Longrightarrow> same f s1 s2 \<Longrightarrow> same f s s2"
begin

text \<open>\<open>writes f m b t\<close>: run on an open encoder, \<open>m\<close> succeeds, appends \<open>t\<close> to the text and
  \<open>b n\<close> to the operations, \<open>n\<close> the length of the text before, and touches nothing else.\<close>

definition writes :: "'f \<Rightarrow> ('s, 'e, unit) exec \<Rightarrow> (nat \<Rightarrow> bytes) \<Rightarrow> bytes \<Rightarrow> bool" where
  "writes f m b t \<longleftrightarrow> (\<forall>s. opened f s \<longrightarrow> (\<exists>s'. m s = (Ok (), s') \<and> opened f s'
     \<and> ops f s' = ops f s @ b (length (texts f s)) \<and> texts f s' = texts f s @ t \<and> same f s s'))"

lemma writes_ret: "writes f (ret ()) (\<lambda>_. []) []"
  by (simp add: writes_def ret_run same_refl)

lemma writes_bind:
  assumes m: "writes f m b t" and k: "writes f k b' t'"
  shows "writes f (bind m (\<lambda>_. k)) (\<lambda>n. b n @ b' (n + length t)) (t @ t')"
  unfolding writes_def
proof (intro allI impI)
  fix s assume "opened f s"
  then obtain s1 where 1: "m s = (Ok (), s1)" "opened f s1"
      "ops f s1 = ops f s @ b (length (texts f s))" "texts f s1 = texts f s @ t" "same f s s1"
    using m unfolding writes_def by blast
  then obtain s2 where 2: "k s1 = (Ok (), s2)" "opened f s2"
      "ops f s2 = ops f s1 @ b' (length (texts f s1))" "texts f s2 = texts f s1 @ t'" "same f s1 s2"
    using k unfolding writes_def by blast
  show "\<exists>s'. bind m (\<lambda>_. k) s = (Ok (), s') \<and> opened f s'
      \<and> ops f s' = ops f s @ (\<lambda>n. b n @ b' (n + length t)) (length (texts f s))
      \<and> texts f s' = texts f s @ t @ t' \<and> same f s s'"
    using 1 2 same_trans by (intro exI [of _ s2]) (auto simp: bind_def)
qed

lemma writes_cong:
  assumes "writes f m b t" "\<And>n. b n = b' n" "t = t'"
  shows "writes f m b' t'"
proof -
  have "b = b'" using assms(2) by auto
  then show ?thesis using assms(1,3) by simp
qed

lemma writes_data: "writes f (be_data d f bs) (\<lambda>_. bs) []"
  using data_law by (fastforce simp: writes_def)

lemma writes_end: "writes f (be_end d f) (\<lambda>_. [operations_to_u8 Op_End]) []"
  using end_law by (fastforce simp: writes_def)

lemma writes_data_ret: "writes f (bind (be_data d f bs) (\<lambda>_. ret ())) (\<lambda>_. bs) []"
  using writes_bind [OF writes_data writes_ret] by (rule writes_cong) simp_all

lemma writes_data_ret_eta: "writes f (bind (be_data d f bs) ret) (\<lambda>_. bs) []"
  using writes_data_ret by simp

text \<open>Writing text first and using its place in what follows.\<close>

lemma writes_string:
  assumes "\<And>n. writes f (k (StrLocation (of_nat n) (of_nat (length bs)))) (\<lambda>_. b n) []"
  shows "writes f (bind (be_string d f bs) k) b bs"
  unfolding writes_def
proof (intro allI impI)
  fix s assume "opened f s"
  then obtain s1 where 1: "be_string d f bs s
        = (Ok (StrLocation (of_nat (length (texts f s))) (of_nat (length bs))), s1)"
      "opened f s1" "ops f s1 = ops f s" "texts f s1 = texts f s @ bs" "same f s s1"
    using string_law by blast
  obtain s2 where 2: "k (StrLocation (of_nat (length (texts f s))) (of_nat (length bs))) s1 = (Ok (), s2)"
      "opened f s2" "ops f s2 = ops f s1 @ b (length (texts f s))" "texts f s2 = texts f s1" "same f s1 s2"
    using assms [of "length (texts f s)"] 1(2) unfolding writes_def by fastforce
  show "\<exists>s'. bind (be_string d f bs) k s = (Ok (), s') \<and> opened f s'
      \<and> ops f s' = ops f s @ b (length (texts f s)) \<and> texts f s' = texts f s @ bs \<and> same f s s'"
    using 1 2 same_trans by (intro exI [of _ s2]) (auto simp: bind_def)
qed

lemmas encode_arms = encode_undefined_def encode_null_def encode_bool_def encode_float32_def encode_int8_def encode_uint8_def encode_float64_def encode_error_code_def encode_int16_def encode_int32_def encode_int64_def encode_uint16_def encode_uint32_def encode_uint64_def encode_cached_text_def encode_external_reference_def encode_internal_reference_def encode_int128_def encode_uint128_def encode_text8_def encode_text16_def encode_float32_array_def encode_float64_array_def encode_uint32_array_def encode_uint8_array_def encode_uint16_array_def encode_uint64_array_def encode_int32_array_def encode_int64_array_def encode_int8_array_def encode_int16_array_def encode_typed_array_slice_def

lemma params_encode_writes:
  "writes f (params_encode d f usz optimized p) (\<lambda>n. param_frame usz optimized n p) (param_text p)"
proof (cases p)
  case (P_Text8 v)
  show ?thesis
    unfolding P_Text8 params_encode.simps encode_text8_def param_text_def params.case
    by (rule writes_string)
      (simp add: split_beta Let_def param_frame_def u64_body_def opted_def writes_data_ret_eta)
qed (simp_all add: encode_arms split_beta Let_def param_frame_def param_text_def u64_body_def slice_body_def
      opted_def i128_halves_def u128_halves_eq writes_data_ret_eta)

lemma encode_each_writes:
  "writes f (encode_each d f usz optimized ps) (\<lambda>n. params_frames usz optimized n ps)
     (concat (map param_text ps))"
proof (induction ps)
  case Nil
  then show ?case by (simp add: writes_ret)
next
  case (Cons p ps)
  show ?case
    unfolding encode_each.simps
    by (rule writes_cong [OF writes_bind [OF params_encode_writes Cons.IH]]) simp_all
qed

lemma params_list_encode_writes:
  "writes f (params_list_encode d f usz optimized ps)
     (\<lambda>n. ARGUMENT_STARTER @ params_frames usz optimized n ps @ ARGUMENT_ENDER) (concat (map param_text ps))"
  unfolding params_list_encode_def
  by (rule writes_cong [OF writes_bind [OF writes_data writes_bind [OF encode_each_writes
        writes_data_ret]]]) simp_all

lemma return_type_hints_encode_writes:
  "writes f (return_type_hints_encode d f h) (\<lambda>_. hints_frame h) []"
proof -
  have "return_type_hints_encode d f h = bind (be_data d f (hints_frame h)) (\<lambda>_. ret ())"
    by (simp add: return_type_hints_encode_def return_type_hints_to_binary_eq bind_def lift_result_run fun_eq_iff)
  then show ?thesis by (simp add: writes_data_ret_eta)
qed

lemma pointer_encode_writes:
  "writes f (external_pointer_encode d f optimized ep)
     (\<lambda>_. param_type_id_to_u8 PT_ExternalReference # u64_body optimized (ep_value ep)) []"
  "writes f (internal_pointer_encode d f optimized ip)
     (\<lambda>_. param_type_id_to_u8 PT_InternalReference # u64_body optimized (ip_value ip)) []"
  by (simp_all add: external_pointer_encode_def internal_pointer_encode_def external_pointer_value_type_def
      internal_pointer_value_type_def split_beta Let_def u64_body_def opted_def writes_data_ret_eta)

lemma operations_encode_writes: "writes f (operations_encode d f oper) (\<lambda>_. [operations_to_u8 oper]) []"
  by (simp add: operations_encode_def writes_data_ret_eta)

end

end
