(* ===== verification/Handles.thy ===== *)
theory Handles
  imports Prelude
begin

text \<open>
  The contract of a store that hands out identifiers for reusable slots: a fresh identifier
  resolves, resolved nowhere before, and disturbs no other; a released one no longer resolves; two
  live identifiers never share a slot. The provider gives its invariant, how an identifier resolves,
  the two operations as state changes, and the slot behind an identifier.
\<close>

fun alloc_all :: "('a \<Rightarrow> 's \<Rightarrow> ('k \<times> 's) option) \<Rightarrow> 'a list \<Rightarrow> 's \<Rightarrow> ('k list \<times> 's) option" where
  "alloc_all alloc [] s = Some ([], s)"
| "alloc_all alloc (a # as) s =
     (case alloc a s of
        None \<Rightarrow> None
      | Some (k, s1) \<Rightarrow>
          (case alloc_all alloc as s1 of
             None \<Rightarrow> None
           | Some (ks, s2) \<Rightarrow> Some (k # ks, s2)))"

locale handle_store =
  fixes inv :: "'s \<Rightarrow> bool"
    and resolve :: "'s \<Rightarrow> 'k \<Rightarrow> 'h option"
    and alloc :: "'a \<Rightarrow> 's \<Rightarrow> ('k \<times> 's) option"
    and release :: "'k \<Rightarrow> 's \<Rightarrow> 's"
    and slot :: "'k \<Rightarrow> nat"
  assumes alloc_inv: "inv s \<Longrightarrow> alloc a s = Some (k, s') \<Longrightarrow> inv s'"
    and alloc_fresh: "inv s \<Longrightarrow> alloc a s = Some (k, s') \<Longrightarrow> resolve s k = None"
    and alloc_live: "inv s \<Longrightarrow> alloc a s = Some (k, s') \<Longrightarrow> \<exists>h. resolve s' k = Some h"
    and alloc_frame: "inv s \<Longrightarrow> alloc a s = Some (k, s') \<Longrightarrow> j \<noteq> k \<Longrightarrow> resolve s' j = resolve s j"
    and release_inv: "inv s \<Longrightarrow> inv (release k s)"
    and release_dead: "inv s \<Longrightarrow> resolve (release k s) k = None"
    and release_frame: "inv s \<Longrightarrow> slot j \<noteq> slot k \<Longrightarrow> resolve (release k s) j = resolve s j"
    and slot_unique: "inv s \<Longrightarrow> resolve s j = Some g \<Longrightarrow> resolve s k = Some h \<Longrightarrow> slot j = slot k \<Longrightarrow> j = k"
begin

lemma release_live_frame:
  assumes "inv s" "resolve s k = Some g" "resolve s j = Some h" "j \<noteq> k"
  shows "resolve (release k s) j = Some h"
  using assms release_frame slot_unique by metis

lemma alloc_keeps: "inv s \<Longrightarrow> alloc a s = Some (k, s') \<Longrightarrow> resolve s j = Some h \<Longrightarrow> resolve s' j = Some h"
  using alloc_fresh alloc_frame by (metis option.distinct(1))

lemma alloc_release:
  assumes "inv s" "alloc a s = Some (k, s')" "resolve s j = Some h"
  shows "resolve (release k s') j = Some h"
proof -
  have "j \<noteq> k" using alloc_fresh [OF assms(1,2)] assms(3) by auto
  moreover obtain g where "resolve s' k = Some g" using alloc_live [OF assms(1,2)] by blast
  ultimately show ?thesis
    using release_live_frame alloc_inv alloc_keeps assms by metis
qed

text \<open>A run of allocations gives distinct identifiers, all live, all new, and keeps the old ones.\<close>

lemma alloc_all_sound:
  assumes "inv s" "alloc_all alloc as s = Some (ks, s')"
  shows "inv s' \<and> length ks = length as \<and> distinct ks
    \<and> (\<forall>k \<in> set ks. resolve s k = None \<and> (\<exists>h. resolve s' k = Some h))
    \<and> (\<forall>j. j \<notin> set ks \<longrightarrow> resolve s' j = resolve s j)"
  using assms
proof (induction as arbitrary: s ks)
  case Nil
  then show ?case by simp
next
  case (Cons a as)
  then obtain k s1 ks1 where a: "alloc a s = Some (k, s1)"
    and r: "alloc_all alloc as s1 = Some (ks1, s')" and ks: "ks = k # ks1"
    by (auto split: option.splits prod.splits)
  note s1 = alloc_inv [OF Cons.prems(1) a]
  note IH = Cons.IH [OF s1 r]
  have k: "resolve s k = None" "\<exists>h. resolve s1 k = Some h"
    using alloc_fresh alloc_live Cons.prems(1) a by blast+
  then have "k \<notin> set ks1" using IH by auto
  then show ?case
    using IH k ks alloc_frame [OF Cons.prems(1) a] by (auto; metis option.distinct(1))
qed

end

text \<open>
  Identifiers that carry the generation of their slot: a step moves the generation of a slot by at most one,
  and a retired identifier stays retired as long as the generation does not go round.
\<close>

locale generational =
  fixes inv :: "'s \<Rightarrow> bool"
    and step :: "'s \<Rightarrow> 's \<Rightarrow> bool"
    and retired :: "'s \<Rightarrow> 'k \<Rightarrow> bool"
    and generation :: "'s \<Rightarrow> 'k \<Rightarrow> nat"
    and rounds :: nat
  assumes inv_step: "step s s' \<Longrightarrow> inv s \<Longrightarrow> inv s'"
    and retired_step: "step s s' \<Longrightarrow> inv s \<Longrightarrow> retired s k \<Longrightarrow> Suc (generation s k) < rounds
      \<Longrightarrow> retired s' k \<and> generation s' k \<le> Suc (generation s k)"
begin

lemma inv_steps: "step\<^sup>*\<^sup>* s s' \<Longrightarrow> inv s \<Longrightarrow> inv s'"
  by (induction rule: rtranclp_induct) (auto intro: inv_step)

lemma retired_steps:
  assumes "(step ^^ n) s s'" "inv s" "retired s k" "generation s k + n < rounds"
  shows "retired s' k \<and> inv s' \<and> generation s' k \<le> generation s k + n"
  using assms
proof (induction n arbitrary: s')
  case 0
  then show ?case by simp
next
  case (Suc n)
  then obtain s1 where s1: "(step ^^ n) s s1" "step s1 s'" by auto
  with Suc have "retired s1 k \<and> inv s1 \<and> generation s1 k \<le> generation s k + n" by simp
  then show ?case
    using retired_step [OF s1(2), of k] inv_step [OF s1(2)] Suc.prems(4) by auto
qed

end

end
