(* ===== verification/Memory.thy ===== *)
theory Memory
  imports Errors Handles
begin

text \<open>
  Guest memory: \<open>foundation_wasm/src/mem.rs\<close>. A \<open>MemoryAllocation\<close> is an
  \<open>Arc<Mutex<Option<Vec<u8>>>>\<close>, so cloning it shares the buffer; the model keeps the buffers in one
  list of cells and a \<open>MemoryAllocation\<close> is the number of a cell. \<open>MemoryAllocations\<close> is the table
  of generations and handles with its stack of free slots. A lock the code takes and drops inside
  one call is not visible and has no counterpart.

  The generation counter wraps, as the release profile does.
\<close>

section \<open>State\<close>

datatype memory_allocation = MemoryAllocation (ma_cell: nat)

record memory =
  cells :: "bytes option list"
  allocs :: "(u32 \<times> memory_allocation) list"
  free :: "nat list"

type_synonym ('e, 'a) mem = "(memory, 'e, 'a) exec"

definition cell_get :: "nat \<Rightarrow> memory \<Rightarrow> bytes option" where
  "cell_get c s = (if c < length (cells s) then cells s ! c else None)"

definition cell_put :: "nat \<Rightarrow> bytes option \<Rightarrow> memory \<Rightarrow> memory" where
  "cell_put c v s = s\<lparr>cells := (cells s)[c := v]\<rparr>"

section \<open>MemoryAllocation\<close>

definition ma_new :: "bytes \<Rightarrow> ('e, memory_allocation) mem" where
  "ma_new bs s = (Ok (MemoryAllocation (length (cells s))), s\<lparr>cells := cells s @ [Some bs]\<rparr>)"

definition ma_into_with :: "(bytes \<Rightarrow> 'a \<times> bytes) \<Rightarrow> memory_allocation \<Rightarrow> ('e, 'a option) mem" where
  "ma_into_with f m s =
     (case cell_get (ma_cell m) s of
        Some bs \<Rightarrow> (case f bs of (t, bs') \<Rightarrow> (Ok (Some t), cell_put (ma_cell m) (Some bs') s))
      | None \<Rightarrow> (Ok None, s))"

definition ma_apply :: "(bytes \<Rightarrow> bytes) \<Rightarrow> memory_allocation \<Rightarrow> ('e, unit) mem" where
  "ma_apply f m s =
     (case cell_get (ma_cell m) s of
        Some bs \<Rightarrow> (Ok (), cell_put (ma_cell m) (Some (f bs)) s)
      | None \<Rightarrow> (Ok (), s))"

text \<open>Where the allocator put a buffer is a parameter, \<open>ptr_of\<close>, of the two calls that tell.\<close>

definition ma_as_address ::
    "(nat \<Rightarrow> bytes \<Rightarrow> u64) \<Rightarrow> memory_allocation \<Rightarrow> (memory_allocation_error, u64 \<times> u64) mem" where
  "ma_as_address ptr_of m s =
     (case cell_get (ma_cell m) s of
        Some bs \<Rightarrow> (Ok (ptr_of (ma_cell m) bs, of_nat (length bs)), s)
      | None \<Rightarrow> (Err MA_NoMemoryAllocation, s))"

definition ma_get_pointer ::
    "(nat \<Rightarrow> bytes \<Rightarrow> u64) \<Rightarrow> memory_allocation \<Rightarrow> (memory_allocation_error, u64) mem" where
  "ma_get_pointer ptr_of m s =
     (case cell_get (ma_cell m) s of
        Some bs \<Rightarrow> (Ok (ptr_of (ma_cell m) bs), s)
      | None \<Rightarrow> (Err MA_NoMemoryAllocation, s))"

definition ma_len :: "memory_allocation \<Rightarrow> (memory_allocation_error, u64) mem" where
  "ma_len m s =
     (case cell_get (ma_cell m) s of
        Some bs \<Rightarrow> (Ok (of_nat (length bs)), s)
      | None \<Rightarrow> (Err MA_NoMemoryAllocation, s))"

definition ma_reset :: "memory_allocation \<Rightarrow> ('e, unit) mem" where
  "ma_reset m s = (Ok (), cell_put (ma_cell m) (Some []) s)"

definition ma_reset_to :: "nat \<Rightarrow> nat \<Rightarrow> memory_allocation \<Rightarrow> ('e, unit) mem" where
  "ma_reset_to usz n m s =
     (case cell_get (ma_cell m) s of
        Some _ \<Rightarrow>
          (if n \<le> isize_max usz then (Ok (), cell_put (ma_cell m) (Some (replicate n 0)) s)
           else (Panic, cell_put (ma_cell m) (Some []) s))
      | None \<Rightarrow>
          (if n \<le> isize_max usz then (Ok (), cell_put (ma_cell m) (Some (replicate n 0)) s)
           else (Panic, s)))"

definition ma_is_empty :: "memory_allocation \<Rightarrow> (memory_allocation_error, bool) mem" where
  "ma_is_empty m s =
     (case cell_get (ma_cell m) s of
        Some bs \<Rightarrow> (Ok (bs = []), s)
      | None \<Rightarrow> (Err MA_NoMemoryAllocation, s))"

definition ma_clear :: "memory_allocation \<Rightarrow> (memory_allocation_error, unit) mem" where
  "ma_clear m s =
     (case cell_get (ma_cell m) s of
        Some _ \<Rightarrow> (Ok (), cell_put (ma_cell m) (Some []) s)
      | None \<Rightarrow> (Err MA_NoMemoryAllocation, s))"

definition ma_is_valid_memory :: "memory_allocation \<Rightarrow> memory \<Rightarrow> bool" where
  "ma_is_valid_memory m s \<longleftrightarrow> cell_get (ma_cell m) s \<noteq> None"

definition ma_clone_memory :: "memory_allocation \<Rightarrow> (memory_allocation_error, bytes) mem" where
  "ma_clone_memory m s =
     (case cell_get (ma_cell m) s of
        Some bs \<Rightarrow> (Ok bs, s)
      | None \<Rightarrow> (Err MA_NoMemoryAllocation, s))"

definition ma_vec_from_memory :: "memory_allocation \<Rightarrow> (memory_allocation_error, bytes) mem" where
  "ma_vec_from_memory m = ma_clone_memory m"

definition ma_string_from_memory :: "memory_allocation \<Rightarrow> (memory_allocation_error, bytes) mem" where
  "ma_string_from_memory m s =
     (case cell_get (ma_cell m) s of
        Some bs \<Rightarrow>
          (map_err (\<lambda>err. allocation_error_from_reader (MR_NotValidUTF8 err)) (string_from_utf8 bs), s)
      | None \<Rightarrow> (Err MA_NoMemoryAllocation, s))"

definition ma_take :: "memory_allocation \<Rightarrow> ('e, bytes option) mem" where
  "ma_take m s =
     (case cell_get (ma_cell m) s of
        Some bs \<Rightarrow> (Ok (Some bs), cell_put (ma_cell m) None s)
      | None \<Rightarrow> (Ok None, s))"

text \<open>\<open>MemorySlot(ops, text)\<close>: two handles.\<close>

datatype memory_slot = MemorySlot (slot_ops: memory_allocation) (slot_text: memory_allocation)

section \<open>MemoryAllocations\<close>

definition mas_new :: memory where
  "mas_new = \<lparr>cells = [], allocs = [], free = []\<rparr>"

definition mas_is_empty :: "memory \<Rightarrow> bool" where
  "mas_is_empty s \<longleftrightarrow> allocs s = [] \<and> free s = []"

definition mas_is_allocations_empty :: "memory \<Rightarrow> bool" where
  "mas_is_allocations_empty s \<longleftrightarrow> allocs s = []"

definition mas_total_free :: "memory \<Rightarrow> u64" where
  "mas_total_free s = of_nat (length (free s))"

definition mas_total_allocated :: "memory \<Rightarrow> u64" where
  "mas_total_allocated s = of_nat (length (allocs s))"

definition mas_deallocate :: "memory_id \<Rightarrow> (memory_allocation_error, unit) mem" where
  "mas_deallocate mid s =
     (if unat (mid_index mid) \<in> set (free s) then (Ok (), s)
      else
        (let potential_location = unat (mid_index mid) in
         if length (allocs s) \<le> potential_location then (Err MA_InvalidAllocationId, s)
         else (Ok (), s\<lparr>free := free s @ [potential_location]\<rparr>)))"

definition mas_get :: "memory_id \<Rightarrow> memory \<Rightarrow> (memory_allocation_error, memory_allocation) result" where
  "mas_get mid s =
     (let i = unat (mid_index mid) in
      if i \<notin> set (free s) \<and> i < length (allocs s) \<and> fst (allocs s ! i) = mid_generation mid
      then Ok (snd (allocs s ! i))
      else Err MA_InvalidAllocationId)"

definition mas_get_free_slot :: "(memory_allocation_error, nat option) mem" where
  "mas_get_free_slot s =
     (if free s \<noteq> [] then (Ok (Some (last (free s))), s\<lparr>free := butlast (free s)\<rparr>)
      else (Ok None, s))"

definition mas_allocate :: "nat \<Rightarrow> u64 \<Rightarrow> (memory_allocation_error, memory_id) mem" where
  "mas_allocate usz desired_capacity = bind mas_get_free_slot (\<lambda>found.
     case found of
       None \<Rightarrow> (\<lambda>s.
         let next_index = length (allocs s) in
         if \<not> next_index < 2 ^ 32 then (Err MA_NoMoreAllocationSlots, s)
         else if \<not> as_usize usz desired_capacity \<le> isize_max usz then (Panic, s)
         else bind (ma_new (replicate (as_usize usz desired_capacity) 0))
           (\<lambda>allocation s. (Ok (MemoryId (of_nat next_index) 0),
              s\<lparr>allocs := allocs s @ [(0, allocation)]\<rparr>)) s)
     | Some index \<Rightarrow> (\<lambda>s.
         if \<not> index < length (allocs s) then (Panic, s)
         else
           (case allocs s ! index of (generation_id, allocation) \<Rightarrow>
              bind (ma_reset_to usz (as_usize usz desired_capacity) allocation)
                (\<lambda>_ s. (Ok (MemoryId (of_nat index) (generation_id + 1)),
                   s\<lparr>allocs := (allocs s)[index := (generation_id + 1, allocation)]\<rparr>)) s)))"

section \<open>The invariant\<close>

lemma fst_clone_memory:
  "fst (ma_clone_memory h s) = (case cell_get (ma_cell h) s of Some bs \<Rightarrow> Ok bs | None \<Rightarrow> Err MA_NoMemoryAllocation)"
  by (simp add: ma_clone_memory_def split: option.split)

lemma replicate_3: "replicate 3 x = [x, x, x]"
  by (simp add: numeral_3_eq_3)

text \<open>Free slots are distinct and exist, every slot fits an index of 32 bits, no two slots share a
  buffer, and every buffer exists.\<close>

definition mem_inv :: "memory \<Rightarrow> bool" where
  "mem_inv s \<longleftrightarrow>
     distinct (free s) \<and> (\<forall>i \<in> set (free s). i < length (allocs s)) \<and> length (allocs s) \<le> 2 ^ 32
     \<and> distinct (map snd (allocs s)) \<and> (\<forall>h \<in> snd ` set (allocs s). ma_cell h < length (cells s))"

lemma cell_put_fields [simp]:
  "allocs (cell_put c v s) = allocs s" "free (cell_put c v s) = free s"
  "length (cells (cell_put c v s)) = length (cells s)"
  by (simp_all add: cell_put_def)

lemma cell_get_put [simp]:
  "cell_get d (cell_put c v s) = (if d = c \<and> c < length (cells s) then v else cell_get d s)"
  by (auto simp: cell_get_def cell_put_def)

lemma mem_inv_cell_put [simp]: "mem_inv (cell_put c v s) = mem_inv s"
  by (simp add: mem_inv_def)

lemma mas_get_cell_put [simp]: "mas_get mid (cell_put c v s) = mas_get mid s"
  by (simp add: mas_get_def cong: if_cong)

lemma cell_get_Some_lt: "cell_get c s = Some bs \<Longrightarrow> c < length (cells s)"
  by (simp add: cell_get_def split: if_splits)

lemma mas_get_Ok:
  "mas_get mid s = Ok h \<longleftrightarrow>
     unat (mid_index mid) \<notin> set (free s) \<and> unat (mid_index mid) < length (allocs s)
     \<and> allocs s ! unat (mid_index mid) = (mid_generation mid, h)"
  by (auto simp: mas_get_def Let_def prod_eq_iff)

lemma get_free_slot_run [exec_simps]:
  "free s = [] \<Longrightarrow> mas_get_free_slot s = (Ok None, s)"
  "free s = fs @ [i] \<Longrightarrow> mas_get_free_slot s = (Ok (Some i), s\<lparr>free := fs\<rparr>)"
  by (simp_all add: mas_get_free_slot_def)

text \<open>\<open>allocate\<close>, solved: a new slot when none is free, otherwise the one freed last, with its next
  generation and its buffer zeroed.\<close>

lemma mas_allocate_new:
  assumes "free s = []"
  shows "mas_allocate usz cap s =
    (if \<not> length (allocs s) < 2 ^ 32 then (Err MA_NoMoreAllocationSlots, s)
     else if \<not> as_usize usz cap \<le> isize_max usz then (Panic, s)
     else (Ok (MemoryId (of_nat (length (allocs s))) 0),
           s\<lparr>cells := cells s @ [Some (replicate (as_usize usz cap) 0)],
             allocs := allocs s @ [(0, MemoryAllocation (length (cells s)))]\<rparr>))"
  using assms by (simp add: mas_allocate_def bind_def get_free_slot_run ma_new_def Let_def)

lemma mas_allocate_reuse:
  assumes "free s = fs @ [i]" "i < length (allocs s)" "allocs s ! i = (g, h)" "ma_cell h < length (cells s)"
  shows "mas_allocate usz cap s =
    (if as_usize usz cap \<le> isize_max usz
     then (Ok (MemoryId (of_nat i) (g + 1)),
           cell_put (ma_cell h) (Some (replicate (as_usize usz cap) 0))
             (s\<lparr>free := fs, allocs := (allocs s)[i := (g + 1, h)]\<rparr>))
     else (Panic, (if cell_get (ma_cell h) s = None then s\<lparr>free := fs\<rparr>
                   else cell_put (ma_cell h) (Some []) (s\<lparr>free := fs\<rparr>))))"
  using assms
  by (simp add: mas_allocate_def bind_def get_free_slot_run ma_reset_to_def cell_get_def cell_put_def
      split: option.split)

lemma free_last_slot:
  assumes "mem_inv s" "free s \<noteq> []"
  obtains fs i g h where "free s = fs @ [i]" "i < length (allocs s)" "allocs s ! i = (g, h)"
    "ma_cell h < length (cells s)" "i \<notin> set fs"
proof -
  obtain fs i where fs: "free s = fs @ [i]" using assms(2) by (metis append_butlast_last_id)
  then have i: "i < length (allocs s)" "i \<notin> set fs" using assms(1) by (auto simp: mem_inv_def)
  obtain g h where "allocs s ! i = (g, h)" by (cases "allocs s ! i")
  moreover from this have "ma_cell h < length (cells s)"
    using assms(1) i nth_mem [of i "allocs s"] by (auto simp: mem_inv_def)
  ultimately show thesis using fs i by (intro that)
qed

lemma cell_get_more [simp]:
  "cell_get c (s\<lparr>cells := cells s @ [v]\<rparr>) = (if c = length (cells s) then v else cell_get c s)"
  "cell_get c (s\<lparr>cells := cells s @ [v], allocs := a\<rparr>) = (if c = length (cells s) then v else cell_get c s)"
  "cell_get c (s\<lparr>allocs := a\<rparr>) = cell_get c s"
  "cell_get c (s\<lparr>free := f\<rparr>) = cell_get c s"
  "cell_get c (s\<lparr>free := f, allocs := a\<rparr>) = cell_get c s"
  by (auto simp: cell_get_def nth_append)

lemma mem_inv_new: "mem_inv mas_new"
  by (simp add: mem_inv_def mas_new_def)

lemma mem_inv_deallocate:
  assumes "mem_inv s" "mas_deallocate mid s = (r, s')"
  shows "mem_inv s'"
  using assms by (auto simp: mas_deallocate_def mem_inv_def Let_def split: if_splits) force+

lemma mem_inv_allocate:
  assumes inv: "mem_inv s" and run: "mas_allocate usz cap s = (r, s')"
  shows "mem_inv s'"
proof (cases "free s = []")
  case True
  have "distinct (map snd (allocs s @ [(0, MemoryAllocation (length (cells s)))]))"
    using inv by (force simp: mem_inv_def)
  with inv run show ?thesis
    by (auto simp: mas_allocate_new [OF True] mem_inv_def less_SucI split: if_splits) force+
next
  case False
  obtain fs i g h where f: "free s = fs @ [i]" "i < length (allocs s)" "allocs s ! i = (g, h)"
    "ma_cell h < length (cells s)" "i \<notin> set fs"
    using free_last_slot [OF inv False] by blast
  have m: "map snd ((allocs s)[i := (g + 1, h)]) = map snd (allocs s)"
    using f by (metis map_update list_update_id snd_conv nth_map)
  have "set ((allocs s)[i := (g + 1, h)]) \<subseteq> insert (g + 1, h) (set (allocs s))"
    by (rule set_update_subset_insert)
  with inv f have "mem_inv (s\<lparr>free := fs, allocs := (allocs s)[i := (g + 1, h)]\<rparr>)" "mem_inv (s\<lparr>free := fs\<rparr>)"
    by (auto simp: mem_inv_def m)
  then show ?thesis
    using run unfolding mas_allocate_reuse [OF f(1-4)] by (auto split: if_splits)
qed

section \<open>Identifiers\<close>

text \<open>What a successful allocation promises: the identifier is new, resolves to a zeroed buffer, and
  every other identifier and its buffer are as before.\<close>

definition allocated :: "nat \<Rightarrow> memory \<Rightarrow> memory_id \<Rightarrow> memory \<Rightarrow> bool" where
  "allocated n s k s' \<longleftrightarrow>
     (\<exists>h. mas_get k s' = Ok h \<and> cell_get (ma_cell h) s' = Some (replicate n 0))
     \<and> mas_get k s = Err MA_InvalidAllocationId
     \<and> (\<forall>j. j \<noteq> k \<longrightarrow> mas_get j s' = mas_get j s)
     \<and> (\<forall>j g. mas_get j s = Ok g \<longrightarrow> cell_get (ma_cell g) s' = cell_get (ma_cell g) s)"

lemma memory_id_eqI: "unat (mid_index j) = unat (mid_index k) \<Longrightarrow> mid_generation j = mid_generation k \<Longrightarrow> j = k"
  by (simp add: memory_id.expand unsigned_word_eqI)

lemma allocated_new:
  assumes inv: "mem_inv s" and fr: "free s = []" and run: "mas_allocate usz cap s = (Ok k, s')"
  shows "allocated (as_usize usz cap) s k s'"
proof -
  let ?n = "length (allocs s)"
  let ?h = "MemoryAllocation (length (cells s))"
  from run have lt: "?n < 2 ^ 32" and k: "k = MemoryId (of_nat ?n) 0"
    and s': "s' = s\<lparr>cells := cells s @ [Some (replicate (as_usize usz cap) 0)],
               allocs := allocs s @ [(0, ?h)]\<rparr>"
    by (auto simp: mas_allocate_new [OF fr] split: if_splits)
  have i: "unat (mid_index k) = ?n" "mid_generation k = 0" using lt by (simp_all add: k unat_of_nat_small)
  have "mas_get j s' = mas_get j s" if "j \<noteq> k" for j
    using that i memory_id_eqI [of j k] by (auto simp: mas_get_def Let_def s' nth_append)
  moreover have "mas_get j s = Ok g \<Longrightarrow> ma_cell g \<noteq> length (cells s)" for j g
    using inv by (force simp: mas_get_Ok mem_inv_def dest: nth_mem)
  ultimately show ?thesis
    using fr i by (auto simp: allocated_def mas_get_def Let_def s' nth_append)
qed

lemma allocated_reuse:
  assumes inv: "mem_inv s" and fr: "free s \<noteq> []" and run: "mas_allocate usz cap s = (Ok k, s')"
  shows "allocated (as_usize usz cap) s k s'"
proof -
  obtain fs i g0 h where f: "free s = fs @ [i]" "i < length (allocs s)" "allocs s ! i = (g0, h)"
    "ma_cell h < length (cells s)" "i \<notin> set fs"
    using free_last_slot [OF inv fr] by blast
  from run have k: "k = MemoryId (of_nat i) (g0 + 1)"
    and s': "s' = cell_put (ma_cell h) (Some (replicate (as_usize usz cap) 0))
               (s\<lparr>free := fs, allocs := (allocs s)[i := (g0 + 1, h)]\<rparr>)"
    by (auto simp: mas_allocate_reuse [OF f(1-4)] split: if_splits)
  have "i < 2 ^ 32" using f(2) inv by (auto simp: mem_inv_def)
  then have i: "unat (mid_index k) = i" "mid_generation k = g0 + 1"
    by (simp_all add: k unat_of_nat_small)
  have "mas_get j s' = mas_get j s" if "j \<noteq> k" for j
    using that f i memory_id_eqI [of j k] by (auto simp: mas_get_def Let_def s' nth_list_update)
  moreover have "ma_cell g \<noteq> ma_cell h" if "mas_get j s = Ok g" for j g
  proof -
    have "unat (mid_index j) < length (allocs s)" "unat (mid_index j) \<noteq> i"
      "snd (allocs s ! unat (mid_index j)) = g"
      using f that by (auto simp: mas_get_Ok)
    moreover have "distinct (map snd (allocs s))" using inv by (simp add: mem_inv_def)
    ultimately have "g \<noteq> h"
      using f(2,3) by (metis length_map nth_eq_iff_index_eq nth_map snd_conv)
    then show ?thesis using memory_allocation.expand by blast
  qed
  ultimately show ?thesis
    using f i by (auto simp: allocated_def mas_get_def Let_def s')
qed

lemma mas_allocate_Ok:
  assumes "mem_inv s" "mas_allocate usz cap s = (Ok k, s')"
  shows "allocated (as_usize usz cap) s k s'"
  using assms allocated_new allocated_reuse by metis

lemma mas_deallocate_free:
  "mas_deallocate mid s = (r, s') \<Longrightarrow> unat (mid_index mid) \<in> set (free s') \<or> length (allocs s) \<le> unat (mid_index mid)"
  "mas_deallocate mid s = (r, s') \<Longrightarrow> allocs s' = allocs s \<and> cells s' = cells s"
  "mas_deallocate mid s = (r, s') \<Longrightarrow> i \<noteq> unat (mid_index mid) \<Longrightarrow> i \<in> set (free s') \<longleftrightarrow> i \<in> set (free s)"
  by (auto simp: mas_deallocate_def Let_def split: if_splits)

text \<open>The table of allocations as a store of handles.\<close>

definition mem_resolve :: "memory \<Rightarrow> memory_id \<Rightarrow> memory_allocation option" where
  "mem_resolve s mid = (case mas_get mid s of Ok h \<Rightarrow> Some h | _ \<Rightarrow> None)"

definition mem_alloc :: "nat \<Rightarrow> u64 \<Rightarrow> memory \<Rightarrow> (memory_id \<times> memory) option" where
  "mem_alloc usz cap s = (case mas_allocate usz cap s of (Ok k, s') \<Rightarrow> Some (k, s') | _ \<Rightarrow> None)"

definition mem_release :: "memory_id \<Rightarrow> memory \<Rightarrow> memory" where
  "mem_release mid s = snd (mas_deallocate mid s)"

definition mem_slot :: "memory_id \<Rightarrow> nat" where
  "mem_slot mid = unat (mid_index mid)"

lemma mem_alloc_eq: "mem_alloc usz cap s = Some (k, s') \<longleftrightarrow> mas_allocate usz cap s = (Ok k, s')"
  by (auto simp: mem_alloc_def split: prod.splits result.splits)

lemma mem_resolve_eq: "mem_resolve s mid = Some h \<longleftrightarrow> mas_get mid s = Ok h"
  by (auto simp: mem_resolve_def split: result.splits)

lemma mem_resolve_None: "mem_resolve s mid = None \<longleftrightarrow> mas_get mid s = Err MA_InvalidAllocationId"
  by (auto simp: mem_resolve_def mas_get_def Let_def)

interpretation mem: handle_store mem_inv mem_resolve "mem_alloc usz" mem_release mem_slot
  for usz
proof
  fix s k a s' j
  assume inv: "mem_inv s" and "mem_alloc usz a s = Some (k, s')"
  then have run: "mas_allocate usz a s = (Ok k, s')" by (simp add: mem_alloc_eq)
  show "mem_inv s'" by (rule mem_inv_allocate [OF inv run])
  note ok = mas_allocate_Ok [OF inv run, unfolded allocated_def]
  show "mem_resolve s k = None" "\<exists>h. mem_resolve s' k = Some h"
    using ok by (auto simp: mem_resolve_None mem_resolve_eq)
  show "j \<noteq> k \<Longrightarrow> mem_resolve s' j = mem_resolve s j"
    using ok by (simp add: mem_resolve_def)
next
  fix s k j
  assume inv: "mem_inv s"
  obtain r s' where d: "mas_deallocate k s = (r, s')" by fastforce
  show "mem_inv (mem_release k s)" using mem_inv_deallocate [OF inv d] by (simp add: mem_release_def d)
  show "mem_resolve (mem_release k s) k = None"
    using mas_deallocate_free(1,2) [OF d] by (auto simp: mem_release_def d mem_resolve_None mas_get_def Let_def)
  show "mem_slot j \<noteq> mem_slot k \<Longrightarrow> mem_resolve (mem_release k s) j = mem_resolve s j"
    using mas_deallocate_free(2,3) [OF d]
    by (simp add: mem_release_def d mem_resolve_def mas_get_def Let_def mem_slot_def)
next
  fix s j k g h
  assume "mem_resolve s j = Some g" "mem_resolve s k = Some h" "mem_slot j = mem_slot k"
  then show "j = k"
    by (auto simp: mem_resolve_eq mas_get_Ok mem_slot_def intro: memory_id_eqI)
qed

lemma live_cells_distinct:
  assumes "mem_inv s" "mas_get j s = Ok g" "mas_get k s = Ok h" "j \<noteq> k"
  shows "ma_cell g \<noteq> ma_cell h"
proof -
  have "unat (mid_index j) \<noteq> unat (mid_index k)"
    using assms(2-4) memory_id_eqI [of j k] by (auto simp: mas_get_Ok)
  then have "g \<noteq> h"
    using assms(1-3) unfolding mas_get_Ok mem_inv_def
    by (metis length_map nth_eq_iff_index_eq nth_map snd_conv)
  then show ?thesis using memory_allocation.expand by blast
qed

lemma mas_get_cell:
  assumes "mem_inv s" "mas_get k s = Ok h"
  shows "ma_cell h < length (cells s)"
  using assms by (force simp: mas_get_Ok mem_inv_def dest: nth_mem)

lemma mas_get_not_Ok: "(\<And>h. mas_get k s \<noteq> Ok h) \<Longrightarrow> mas_get k s = Err MA_InvalidAllocationId"
  by (cases "mas_get k s") (auto simp: mas_get_def Let_def split: if_splits)

section \<open>Reachable states\<close>

text \<open>One call that returns, on the table or on a handle it gave out. A handle may be kept after its identifier is
  released, so a write may hit any buffer.\<close>

inductive mem_step :: "nat \<Rightarrow> memory \<Rightarrow> memory \<Rightarrow> bool" for usz where
  step_allocate: "mas_allocate usz cap s = (r, s') \<Longrightarrow> r \<noteq> Panic \<Longrightarrow> mem_step usz s s'"
| step_deallocate: "mas_deallocate mid s = (r, s') \<Longrightarrow> mem_step usz s s'"
| step_apply: "ma_apply f h s = (r :: (memory_allocation_error, unit) result, s') \<Longrightarrow> mem_step usz s s'"
| step_reset: "ma_reset h s = (r :: (memory_allocation_error, unit) result, s') \<Longrightarrow> mem_step usz s s'"
| step_reset_to: "ma_reset_to usz n h s = (r :: (memory_allocation_error, unit) result, s') \<Longrightarrow> mem_step usz s s'"
| step_clear: "ma_clear h s = (r, s') \<Longrightarrow> mem_step usz s s'"
| step_take: "ma_take h s = (r :: (memory_allocation_error, bytes option) result, s') \<Longrightarrow> mem_step usz s s'"

inductive_cases mem_stepE: "mem_step usz s s'"

text \<open>A call on a handle changes one buffer or nothing.\<close>

lemma buffer_calls:
  "ma_apply f h s = (ra, s') \<Longrightarrow> s' = s \<or> (\<exists>v. s' = cell_put (ma_cell h) v s)"
  "ma_reset h s = (ra, s') \<Longrightarrow> s' = s \<or> (\<exists>v. s' = cell_put (ma_cell h) v s)"
  "ma_reset_to usz n h s = (ra, s') \<Longrightarrow> s' = s \<or> (\<exists>v. s' = cell_put (ma_cell h) v s)"
  "ma_clear h s = (rc, s') \<Longrightarrow> s' = s \<or> (\<exists>v. s' = cell_put (ma_cell h) v s)"
  "ma_take h s = (rt, s') \<Longrightarrow> s' = s \<or> (\<exists>v. s' = cell_put (ma_cell h) v s)"
  by (auto simp: ma_apply_def ma_reset_def ma_reset_to_def ma_clear_def ma_take_def
      split: option.splits if_splits)

lemma mem_step_cases [consumes 1, case_names allocate deallocate buffer same]:
  assumes "mem_step usz s s'"
  obtains cap r where "mas_allocate usz cap s = (r, s')" "r \<noteq> Panic"
  | mid r where "mas_deallocate mid s = (r, s')"
  | c v where "s' = cell_put c v s"
  | "s' = s"
  using assms by (elim mem_stepE) (blast dest: buffer_calls)+

lemma mem_inv_step: "mem_step usz s s' \<Longrightarrow> mem_inv s \<Longrightarrow> mem_inv s'"
  by (induction rule: mem_step_cases) (auto intro: mem_inv_allocate mem_inv_deallocate)

text \<open>An identifier whose time is over: its slot is free, or already at a later generation.\<close>

definition retired :: "memory \<Rightarrow> memory_id \<Rightarrow> bool" where
  "retired s mid \<longleftrightarrow>
     (let i = unat (mid_index mid) in
      i < length (allocs s) \<and>
      (if i \<in> set (free s) then mid_generation mid \<le> fst (allocs s ! i)
       else mid_generation mid < fst (allocs s ! i)))"

definition generation_of :: "memory \<Rightarrow> memory_id \<Rightarrow> nat" where
  "generation_of s mid = unat (fst (allocs s ! unat (mid_index mid)))"

lemma retired_get: "retired s mid \<Longrightarrow> mas_get mid s = Err MA_InvalidAllocationId"
  by (auto simp: retired_def mas_get_def Let_def split: if_splits)

lemma retired_deallocated:
  "mas_get mid s = Ok h \<Longrightarrow> mas_deallocate mid s = (r, s') \<Longrightarrow> retired s' mid"
  by (auto simp: retired_def mas_get_Ok mas_deallocate_def Let_def split: if_splits)

lemma retired_cell_put [simp]: "retired (cell_put c v s) mid = retired s mid"
  by (simp add: retired_def)

lemma retired_deallocate:
  assumes "mas_deallocate k s = (r, s')" "retired s mid"
  shows "retired s' mid \<and> generation_of s' mid = generation_of s mid"
  using assms by (auto simp: retired_def generation_of_def mas_deallocate_def Let_def split: if_splits)

lemma retired_allocate:
  assumes inv: "mem_inv s" and run: "mas_allocate usz cap s = (r, s')"
    and r: "r \<noteq> Panic" and mid: "retired s mid" and g: "Suc (generation_of s mid) < 2 ^ 32"
  shows "retired s' mid \<and> generation_of s' mid \<le> Suc (generation_of s mid)"
proof (cases "free s = []")
  case True
  then show ?thesis
    using run mid by (auto simp: mas_allocate_new retired_def generation_of_def nth_append Let_def split: if_splits)
next
  case False
  obtain fs i g0 h where f: "free s = fs @ [i]" "i < length (allocs s)" "allocs s ! i = (g0, h)"
    "ma_cell h < length (cells s)" "i \<notin> set fs"
    using free_last_slot [OF inv False] by blast
  have "unat (mid_index mid) = i \<Longrightarrow> unat (g0 + 1) = Suc (unat g0)"
    using g f(3) by (simp add: generation_of_def unat_word_ariths)
  then show ?thesis
    using run r mid f unfolding mas_allocate_reuse [OF f(1-4)]
    by (auto simp: retired_def generation_of_def Let_def nth_list_update word_less_nat_alt word_le_nat_alt
        split: if_splits)
qed

lemma retired_step:
  assumes "mem_step usz s s'" "mem_inv s" "retired s mid" "Suc (generation_of s mid) < 2 ^ 32"
  shows "retired s' mid \<and> generation_of s' mid \<le> Suc (generation_of s mid)"
  using assms
  by (induction rule: mem_step_cases)
    (auto dest: retired_allocate retired_deallocate simp: generation_of_def)

interpretation mem_ids: generational mem_inv "mem_step usz" retired generation_of "2 ^ 32"
  for usz
  by unfold_locales (fact mem_inv_step, fact retired_step)

section \<open>Properties\<close>

text \<open>C15: the allocator's invariant. In every state the calls can reach from an empty table, free
  slots are distinct and in range, no two slots share a buffer, and indices fit 32 bits.\<close>

theorem mem_reachable_inv:
  assumes "(mem_step usz)\<^sup>*\<^sup>* mas_new s"
  shows "mem_inv s"
  using assms by (induction rule: rtranclp_induct) (simp_all add: mem_inv_new mem_inv_step)

theorem mem_reachable_inv_witness:
  "mem_inv (snd (mas_allocate 4 16 mas_new)) \<and> mem_inv (snd (mas_deallocate (MemoryId 0 0) (snd (mas_allocate 4 16 mas_new))))"
proof -
  define s1 where "s1 = snd (mas_allocate 4 16 mas_new)"
  define s2 where "s2 = snd (mas_deallocate (MemoryId 0 0) s1)"
  have "mas_allocate 4 16 mas_new = (Ok (MemoryId 0 0), s1)"
    by (simp add: s1_def mas_allocate_new mas_new_def as_usize_def isize_max_def)
  then have 1: "mem_step 4 mas_new s1" by (rule step_allocate) simp
  have 2: "mem_step 4 s1 s2" by (rule step_deallocate) (simp add: s2_def prod_eq_iff)
  have "mem_inv s1" by (rule mem_reachable_inv [of 4]) (use 1 in blast)
  moreover have "mem_inv s2" by (rule mem_reachable_inv [of 4]) (use 1 2 in auto)
  ultimately show ?thesis by (simp add: s1_def s2_def)
qed

text \<open>An allocation that succeeds gives an identifier that resolved nowhere before, resolves to a
  buffer of the requested number of zero bytes, and leaves every other identifier and every live
  buffer as it was.\<close>

theorem allocate_gives_fresh_zeroed_memory:
  assumes "mem_inv s" "mas_allocate usz cap s = (Ok k, s')"
  shows "mas_get k s = Err MA_InvalidAllocationId
    \<and> (\<exists>h. mas_get k s' = Ok h \<and> fst (ma_clone_memory h s') = Ok (replicate (as_usize usz cap) 0))
    \<and> (\<forall>j. j \<noteq> k \<longrightarrow> mas_get j s' = mas_get j s)
    \<and> (\<forall>j g. mas_get j s = Ok g \<longrightarrow> fst (ma_clone_memory g s') = fst (ma_clone_memory g s))"
proof -
  from mas_allocate_Ok [OF assms] obtain h
    where "mas_get k s' = Ok h" "cell_get (ma_cell h) s' = Some (replicate (as_usize usz cap) 0)"
      and "mas_get k s = Err MA_InvalidAllocationId" "\<forall>j. j \<noteq> k \<longrightarrow> mas_get j s' = mas_get j s"
      and "\<forall>j g. mas_get j s = Ok g \<longrightarrow> cell_get (ma_cell g) s' = cell_get (ma_cell g) s"
    unfolding allocated_def by blast
  then show ?thesis by (auto simp: fst_clone_memory)
qed

theorem allocate_gives_fresh_zeroed_memory_witness:
  "mas_get (MemoryId 0 0) mas_new = Err MA_InvalidAllocationId
   \<and> (\<exists>h. mas_get (MemoryId 0 0) (snd (mas_allocate 4 3 mas_new)) = Ok h
        \<and> fst (ma_clone_memory h (snd (mas_allocate 4 3 mas_new))) = Ok [0, 0, 0])"
proof -
  have run: "mas_allocate 4 3 mas_new = (Ok (MemoryId 0 0), snd (mas_allocate 4 3 mas_new))"
    by (simp add: mas_allocate_new mas_new_def as_usize_def isize_max_def)
  show ?thesis
    using allocate_gives_fresh_zeroed_memory [OF mem_inv_new run]
    by (simp add: as_usize_def replicate_3)
qed

text \<open>C14: use after free is caught. Once an identifier has been deallocated, \<open>get\<close> refuses it after any
  further calls, however the slot is reused, until its 32-bit generation has gone round.\<close>

theorem released_id_stays_dead:
  assumes "mem_inv s" "mas_get mid s = Ok h" "mas_deallocate mid s = (r, s1)"
    and "(mem_step usz ^^ n) s1 s2" "unat (mid_generation mid) + n < 2 ^ 32"
  shows "mas_get mid s2 = Err MA_InvalidAllocationId"
proof -
  have g: "generation_of s1 mid = unat (mid_generation mid)"
    using assms(2) mas_deallocate_free(2) [OF assms(3)] by (simp add: generation_of_def mas_get_Ok)
  have "retired s2 mid"
    using mem_ids.retired_steps [OF assms(4) mem_inv_deallocate [OF assms(1,3)] retired_deallocated [OF assms(2,3)]]
      assms(5) g by simp
  then show ?thesis by (rule retired_get)
qed

definition table_of_one :: memory where
  "table_of_one = snd (mas_allocate 4 8 mas_new)"

lemma table_of_one_runs:
  "mas_allocate 4 8 mas_new = (Ok (MemoryId 0 0), table_of_one)"
  "mas_get (MemoryId 0 0) table_of_one = Ok (MemoryAllocation 0)"
  "mas_deallocate (MemoryId 0 0) table_of_one = (Ok (), table_of_one\<lparr>free := [0]\<rparr>)"
  "mas_allocate 4 8 (table_of_one\<lparr>free := [0]\<rparr>) = (Ok (MemoryId 0 1), table_of_one\<lparr>allocs := [(1, MemoryAllocation 0)]\<rparr>)"
  "free table_of_one = []" "allocs table_of_one = [(0, MemoryAllocation 0)]"
  by (simp_all add: table_of_one_def mas_allocate_new mas_new_def as_usize_def isize_max_def mas_get_def
      mas_deallocate_def mas_allocate_reuse [where fs = "[]" and i = 0 and g = 0 and h = "MemoryAllocation 0"]
      cell_put_def)

theorem released_id_stays_dead_witness:
  "mas_get (MemoryId 0 0) (table_of_one\<lparr>allocs := [(1, MemoryAllocation 0)]\<rparr>) = Err MA_InvalidAllocationId"
proof (rule released_id_stays_dead)
  show "mem_inv table_of_one" using mem_inv_allocate [OF mem_inv_new table_of_one_runs(1)] .
  show "mas_get (MemoryId 0 0) table_of_one = Ok (MemoryAllocation 0)" by (rule table_of_one_runs)
  show "mas_deallocate (MemoryId 0 0) table_of_one = (Ok (), table_of_one\<lparr>free := [0]\<rparr>)" by (rule table_of_one_runs)
  show "(mem_step 4 ^^ 1) (table_of_one\<lparr>free := [0]\<rparr>) (table_of_one\<lparr>allocs := [(1, MemoryAllocation 0)]\<rparr>)"
    using step_allocate [OF table_of_one_runs(4)] by (simp add: OO_def)
qed simp

text \<open>Deallocating a live identifier frees that one and no other: it stops resolving, and every
  other live identifier keeps its handle and its bytes.\<close>

theorem deallocate_frees_only_its_id:
  assumes "mem_inv s" "mas_get mid s = Ok h" "mas_get j s = Ok g" "j \<noteq> mid"
    and "mas_deallocate mid s = (r, s')"
  shows "r = Ok () \<and> mas_get mid s' = Err MA_InvalidAllocationId \<and> mas_get j s' = Ok g
    \<and> cell_get (ma_cell g) s' = cell_get (ma_cell g) s"
proof -
  have s': "s' = mem_release mid s" by (simp add: mem_release_def assms(5))
  have "mem_resolve s' j = Some g"
    unfolding s' using assms(1-4) by (intro mem.release_live_frame) (simp_all add: mem_resolve_eq)
  moreover have "mem_resolve s' mid = None" unfolding s' using assms(1) by (rule mem.release_dead)
  moreover have "r = Ok ()" using assms(2,5) by (auto simp: mas_get_Ok mas_deallocate_def split: if_splits)
  ultimately show ?thesis
    using mas_deallocate_free(2) [OF assms(5)]
    by (simp add: mem_resolve_eq mem_resolve_None cell_get_def)
qed

theorem deallocate_frees_only_its_id_witness:
  "mas_get (MemoryId 1 0) (snd (mas_deallocate (MemoryId 0 0) (snd (mas_allocate 4 2 table_of_one))))
    = Ok (MemoryAllocation 1)"
proof -
  let ?s = "snd (mas_allocate 4 2 table_of_one)"
  have run: "mas_allocate 4 2 table_of_one = (Ok (MemoryId 1 0), ?s)"
    by (simp add: mas_allocate_new table_of_one_runs as_usize_def isize_max_def)
  have inv: "mem_inv ?s"
    using mem_inv_allocate [OF mem_inv_allocate [OF mem_inv_new table_of_one_runs(1)] run] .
  have "mas_get (MemoryId 0 0) ?s = Ok (MemoryAllocation 0)" "mas_get (MemoryId 1 0) ?s = Ok (MemoryAllocation 1)"
    by (simp_all add: mas_allocate_new table_of_one_def mas_new_def mas_get_def as_usize_def isize_max_def)
  from deallocate_frees_only_its_id [OF inv this, OF _ surjective_pairing] show ?thesis by simp
qed

text \<open>\<open>deallocate\<close> looks only at the index. Releasing an identifier a second time, after its slot has
  a new owner, succeeds and takes the slot from that owner, although \<open>get\<close> refuses the stale
  identifier.\<close>

theorem stale_deallocate_frees_the_new_owner:
  assumes "mas_get new s = Ok h" "mid_index old = mid_index new" "old \<noteq> new"
  shows "mas_get old s = Err MA_InvalidAllocationId \<and> fst (mas_deallocate old s) = Ok ()
    \<and> mas_get new (snd (mas_deallocate old s)) = Err MA_InvalidAllocationId"
proof -
  have "mid_generation old \<noteq> mid_generation new" using assms(2,3) by (auto simp: memory_id.expand)
  then show ?thesis using assms(1,2) by (auto simp: mas_get_Ok) (auto simp: mas_get_def mas_deallocate_def Let_def)
qed

theorem stale_deallocate_frees_the_new_owner_witness:
  "mas_get (MemoryId 0 1) (snd (mas_deallocate (MemoryId 0 0)
     (snd (mas_allocate 4 8 (snd (mas_deallocate (MemoryId 0 0) (snd (mas_allocate 4 8 mas_new))))))))
    = Err MA_InvalidAllocationId"
proof -
  have "mas_get (MemoryId 0 1) (table_of_one\<lparr>allocs := [(1, MemoryAllocation 0)]\<rparr>) = Ok (MemoryAllocation 0)"
    by (simp add: mas_get_def table_of_one_runs)
  from stale_deallocate_frees_the_new_owner [OF this, of "MemoryId 0 0"]
  show ?thesis by (simp add: table_of_one_runs)
qed

end
