(* ===== verification/Batch.thy ===== *)
theory Batch
  imports Encode Memory
begin

text \<open>
  The batch builder of \<open>foundation_wasm/src/ops.rs\<close>: \<open>Instructions\<close> writes operations into one
  allocation and text into another, \<open>MemoryAllocations::batch_for\<close> opens a batch, \<open>stop\<close> closes it.
  \<open>Instructions\<close> implements \<open>BatchEncodable\<close>; the model's record of its methods is
  \<open>instructions_encodable\<close>, and it is interpreted as a \<open>batch_encoder\<close> over guest memory.
\<close>

section \<open>State\<close>

datatype completed_instructions = CompletedInstructions (ci_ops_id: memory_id) (ci_text_id: memory_id)

datatype memory_pointer = MemoryPointer (mp_text_id: memory_id) (mp_ops_id: memory_id)

record instructions =
  ins_optimized :: bool
  ins_ops_id :: memory_id
  ins_text_id :: memory_id
  ins_mem :: "(memory_allocation \<times> memory_allocation) option"

definition instructions_new ::
    "bool \<Rightarrow> memory_id \<Rightarrow> memory_id \<Rightarrow> memory_allocation \<Rightarrow> memory_allocation \<Rightarrow> instructions" where
  "instructions_new optimized ops_id text_id ops texts =
     \<lparr>ins_optimized = optimized, ins_ops_id = ops_id, ins_text_id = text_id, ins_mem = Some (ops, texts)\<rparr>"

definition instructions_pointer :: "instructions \<Rightarrow> memory_pointer" where
  "instructions_pointer i = MemoryPointer (ins_text_id i) (ins_ops_id i)"

definition in_occupied_state :: "instructions \<Rightarrow> bool" where
  "in_occupied_state i \<longleftrightarrow> ins_mem i \<noteq> None"

definition in_free_state :: "instructions \<Rightarrow> bool" where
  "in_free_state i \<longleftrightarrow> ins_mem i = None"

definition should_be_occupied :: "instructions \<Rightarrow> (memory_writer_error, unit) result" where
  "should_be_occupied i = (if in_free_state i then Err MW_UnexpectedFreeState else Ok ())"

definition should_be_free :: "instructions \<Rightarrow> (memory_writer_error, unit) result" where
  "should_be_free i = (if in_occupied_state i then Err MW_UnexpectedOccupiedState else Ok ())"

section \<open>Writing\<close>

definition instructions_begin :: "instructions \<Rightarrow> (memory_writer_error, unit) mem" where
  "instructions_begin i =
     (if in_free_state i then fail MW_PreviousUnclosedOperation
      else
        (case ins_mem i of
           Some (oper, _) \<Rightarrow>
             bind (ma_apply (\<lambda>mem. mem @ [operations_to_u8 Op_Begin]) oper) (\<lambda>_. ret ())
         | None \<Rightarrow> ret ()))"

definition instructions_string :: "instructions \<Rightarrow> bytes \<Rightarrow> (memory_writer_error, str_location) mem" where
  "instructions_string i data_bytes =
     (if in_occupied_state i
      then
        (case ins_mem i of
           Some (_, text) \<Rightarrow>
             bind (exec_map_err (\<lambda>_. MW_UnableToWrite) (ma_len text)) (\<lambda>text_location.
               let text_length = of_nat (length data_bytes);
                   byte_length_diff = length data_bytes - length data_bytes
               in bind (ma_apply (\<lambda>mem. (mem @ data_bytes)
                          @ (if 0 < byte_length_diff then replicate byte_length_diff 32 else [])) text)
                    (\<lambda>_. ret (StrLocation text_location text_length)))
         | None \<Rightarrow> fail MW_UnableToWrite)
      else fail MW_UnableToWrite)"

definition instructions_data :: "instructions \<Rightarrow> bytes \<Rightarrow> (memory_writer_error, unit) mem" where
  "instructions_data i bs =
     (if in_occupied_state i
      then
        (case ins_mem i of
           Some (ops, _) \<Rightarrow> bind (ma_apply (\<lambda>mem. mem @ bs) ops) (\<lambda>_. ret ())
         | None \<Rightarrow> fail MW_UnableToWrite)
      else fail MW_UnableToWrite)"

definition instructions_end :: "instructions \<Rightarrow> (memory_writer_error, unit) mem" where
  "instructions_end i =
     (if in_occupied_state i
      then
        (case ins_mem i of
           Some (ops, _) \<Rightarrow> bind (ma_apply (\<lambda>mem. mem @ [operations_to_u8 Op_End]) ops) (\<lambda>_. ret ())
         | None \<Rightarrow> fail MW_UnableToWrite)
      else fail MW_UnableToWrite)"

definition instructions_stop :: "instructions \<Rightarrow> (memory_writer_error, completed_instructions) mem" where
  "instructions_stop i =
     (if in_occupied_state i
      then
        (case ins_mem i of
           Some (ops, _) \<Rightarrow>
             bind (ma_apply (\<lambda>mem. mem @ [operations_to_u8 Op_Stop]) ops)
               (\<lambda>_. ret (CompletedInstructions (ins_ops_id i) (ins_text_id i)))
         | None \<Rightarrow> fail MW_UnableToWrite)
      else fail MW_UnableToWrite)"

definition instructions_complete :: "instructions \<Rightarrow> (memory_allocation_error, completed_instructions) mem" where
  "instructions_complete i = exec_map_err allocation_error_from_writer (instructions_stop i)"

definition instructions_encodable :: "(instructions, memory) batch_encodable" where
  "instructions_encodable =
     \<lparr>be_string = instructions_string, be_data = instructions_data, be_end = instructions_end\<rparr>"

section \<open>Opening a batch\<close>

definition mas_get_run :: "memory_id \<Rightarrow> (memory_allocation_error, memory_allocation) mem" where
  "mas_get_run mid s = (mas_get mid s, s)"

definition batch_for :: "nat \<Rightarrow> u64 \<Rightarrow> u64 \<Rightarrow> bool \<Rightarrow> (memory_allocation_error, instructions) mem" where
  "batch_for usz text_capacity operations_capacity optimized =
     bind (mas_allocate usz operations_capacity) (\<lambda>operations_id.
     bind (mas_get_run operations_id) (\<lambda>operations_buffer.
     bind (ma_reset_to usz 0 operations_buffer) (\<lambda>_.
     bind (mas_allocate usz text_capacity) (\<lambda>text_id.
     bind (mas_get_run text_id) (\<lambda>text_buffer.
     bind (ma_reset_to usz 0 text_buffer) (\<lambda>_.
       let instruction = instructions_new optimized operations_id text_id operations_buffer text_buffer
       in bind (exec_map_err allocation_error_from_writer (instructions_begin instruction)) (\<lambda>_.
          ret instruction)))))))"

definition batch_from :: "bool \<Rightarrow> completed_instructions \<Rightarrow> (memory_allocation_error, instructions) mem" where
  "batch_from optimized completed =
     bind (mas_get_run (ci_ops_id completed)) (\<lambda>operations.
     bind (mas_get_run (ci_text_id completed)) (\<lambda>text_buffer.
       let instruction = instructions_new optimized (ci_ops_id completed) (ci_text_id completed)
                           operations text_buffer
       in bind (exec_map_err allocation_error_from_writer (instructions_begin instruction)) (\<lambda>_.
          ret instruction)))"

definition get_slot :: "completed_instructions \<Rightarrow> (memory_allocation_error, memory_slot) mem" where
  "get_slot completed =
     bind (mas_get_run (ci_ops_id completed)) (\<lambda>operation_buffer.
     bind (mas_get_run (ci_text_id completed)) (\<lambda>text_buffer.
       ret (MemorySlot operation_buffer text_buffer)))"

section \<open>Operations\<close>

definition encode_return_hints :: "instructions \<Rightarrow> return_type_hints \<Rightarrow> (memory_writer_error, unit) mem" where
  "encode_return_hints i hint = bind (return_type_hints_encode instructions_encodable i hint) (\<lambda>_. ret ())"

definition encode_params :: "instructions \<Rightarrow> nat \<Rightarrow> params list option \<Rightarrow> (memory_writer_error, unit) mem" where
  "encode_params i usz params =
     (case params of
        Some pm \<Rightarrow> bind (params_list_encode instructions_encodable i usz (ins_optimized i) pm) (\<lambda>_. ret ())
      | None \<Rightarrow> ret ())"

definition register_function :: "instructions \<Rightarrow> external_pointer \<Rightarrow> bytes \<Rightarrow> (memory_writer_error, unit) mem" where
  "register_function i allocated_handle body =
     bind (be_string instructions_encodable i body) (\<lambda>value_pointer.
       let value_index = le_bytes 8 (sl_index value_pointer);
           value_length = le_bytes 8 (sl_len value_pointer)
       in bind (be_data instructions_encodable i [operations_to_u8 Op_MakeFunction]) (\<lambda>_.
          bind (external_pointer_encode instructions_encodable i (ins_optimized i) allocated_handle) (\<lambda>_.
          bind (be_data instructions_encodable i ([param_type_id_to_u8 PT_Text8] @ value_index @ value_length)) (\<lambda>_.
          bind (be_end instructions_encodable i) (\<lambda>_. ret ())))))"

definition invoke ::
    "instructions \<Rightarrow> nat \<Rightarrow> external_pointer \<Rightarrow> params list option \<Rightarrow> return_type_hints
      \<Rightarrow> (memory_writer_error, unit) mem" where
  "invoke i usz allocated_handle params returns =
     bind (be_data instructions_encodable i [operations_to_u8 Op_Invoke]) (\<lambda>_.
     bind (external_pointer_encode instructions_encodable i (ins_optimized i) allocated_handle) (\<lambda>_.
     bind (encode_return_hints i returns) (\<lambda>_.
     bind (encode_params i usz params) (\<lambda>_.
     bind (be_end instructions_encodable i) (\<lambda>_. ret ())))))"

definition invoke_async ::
    "instructions \<Rightarrow> nat \<Rightarrow> external_pointer \<Rightarrow> internal_pointer \<Rightarrow> params list option \<Rightarrow> return_type_hints
      \<Rightarrow> (memory_writer_error, unit) mem" where
  "invoke_async i usz allocated_handle callback_handle params returning =
     bind (be_data instructions_encodable i [operations_to_u8 Op_InvokeAsync]) (\<lambda>_.
     bind (external_pointer_encode instructions_encodable i (ins_optimized i) allocated_handle) (\<lambda>_.
     bind (internal_pointer_encode instructions_encodable i (ins_optimized i) callback_handle) (\<lambda>_.
     bind (encode_return_hints i returning) (\<lambda>_.
     bind (encode_params i usz params) (\<lambda>_.
     bind (be_end instructions_encodable i) (\<lambda>_. ret ()))))))"

section \<open>Instructions is an encoder\<close>

definition ins_opened :: "instructions \<Rightarrow> memory \<Rightarrow> bool" where
  "ins_opened i s \<longleftrightarrow>
     (\<exists>ops text. ins_mem i = Some (ops, text) \<and> ma_cell ops \<noteq> ma_cell text
        \<and> cell_get (ma_cell ops) s \<noteq> None \<and> cell_get (ma_cell text) s \<noteq> None)"

definition buffer_of :: "memory_allocation \<Rightarrow> memory \<Rightarrow> bytes" where
  "buffer_of h s = (case cell_get (ma_cell h) s of Some bs \<Rightarrow> bs | None \<Rightarrow> [])"

definition ins_ops :: "instructions \<Rightarrow> memory \<Rightarrow> bytes" where
  "ins_ops i s = (case ins_mem i of Some (ops, _) \<Rightarrow> buffer_of ops s | None \<Rightarrow> [])"

definition ins_texts :: "instructions \<Rightarrow> memory \<Rightarrow> bytes" where
  "ins_texts i s = (case ins_mem i of Some (_, text) \<Rightarrow> buffer_of text s | None \<Rightarrow> [])"

definition ins_same :: "instructions \<Rightarrow> memory \<Rightarrow> memory \<Rightarrow> bool" where
  "ins_same i s s' \<longleftrightarrow>
     allocs s' = allocs s \<and> free s' = free s \<and> length (cells s') = length (cells s)
     \<and> (\<forall>c. (case ins_mem i of Some (ops, text) \<Rightarrow> c \<noteq> ma_cell ops \<and> c \<noteq> ma_cell text | None \<Rightarrow> True)
          \<longrightarrow> cell_get c s' = cell_get c s)"

lemma ins_openedE:
  assumes "ins_opened i s"
  obtains ops tx a b where "ins_mem i = Some (ops, tx)" "ma_cell ops \<noteq> ma_cell tx"
    "cell_get (ma_cell ops) s = Some a" "cell_get (ma_cell tx) s = Some b"
    "ma_cell ops < length (cells s)" "ma_cell tx < length (cells s)"
  using assms unfolding ins_opened_def by (fastforce dest: cell_get_Some_lt)

lemmas ins_view_defs = ins_opened_def ins_ops_def ins_texts_def ins_same_def buffer_of_def

interpretation instr: batch_encoder instructions_encodable ins_opened ins_ops ins_texts ins_same
proof
  fix i s bs
  assume "ins_opened i s"
  then obtain ops tx a b where m: "ins_mem i = Some (ops, tx)" "ma_cell ops \<noteq> ma_cell tx"
    "cell_get (ma_cell ops) s = Some a" "cell_get (ma_cell tx) s = Some b"
    "ma_cell ops < length (cells s)" "ma_cell tx < length (cells s)"
    by (rule ins_openedE)
  show "\<exists>s'. be_data instructions_encodable i bs s = (Ok (), s') \<and> ins_opened i s'
      \<and> ins_ops i s' = ins_ops i s @ bs \<and> ins_texts i s' = ins_texts i s \<and> ins_same i s s'"
    using m by (simp add: instructions_encodable_def instructions_data_def in_occupied_state_def
        bind_def ma_apply_def ret_run ins_view_defs)
  show "\<exists>s'. be_string instructions_encodable i bs s
        = (Ok (StrLocation (of_nat (length (ins_texts i s))) (of_nat (length bs))), s')
      \<and> ins_opened i s' \<and> ins_ops i s' = ins_ops i s \<and> ins_texts i s' = ins_texts i s @ bs \<and> ins_same i s s'"
    using m by (simp add: instructions_encodable_def instructions_string_def in_occupied_state_def
        bind_def ma_apply_def ma_len_def exec_map_err_def Let_def ret_run ins_view_defs)
  show "\<exists>s'. be_end instructions_encodable i s = (Ok (), s') \<and> ins_opened i s'
      \<and> ins_ops i s' = ins_ops i s @ [operations_to_u8 Op_End] \<and> ins_texts i s' = ins_texts i s \<and> ins_same i s s'"
    using m by (simp add: instructions_encodable_def instructions_end_def in_occupied_state_def
        bind_def ma_apply_def ret_run ins_view_defs)
qed (auto simp: ins_same_def)

section \<open>What a request writes\<close>

text \<open>The three calls a client makes on an open batch, as data, so that a run of them is a list.\<close>

datatype request =
  Req_Register external_pointer bytes
  | Req_Invoke external_pointer "params list option" return_type_hints
  | Req_InvokeAsync external_pointer internal_pointer "params list option" return_type_hints

primrec run_request :: "instructions \<Rightarrow> nat \<Rightarrow> request \<Rightarrow> (memory_writer_error, unit) mem" where
  "run_request i usz (Req_Register h body) = register_function i h body"
| "run_request i usz (Req_Invoke h ps r) = invoke i usz h ps r"
| "run_request i usz (Req_InvokeAsync h cb ps r) = invoke_async i usz h cb ps r"

fun run_requests :: "instructions \<Rightarrow> nat \<Rightarrow> request list \<Rightarrow> (memory_writer_error, unit) mem" where
  "run_requests i usz [] = ret ()"
| "run_requests i usz (r # rs) = bind (run_request i usz r) (\<lambda>_. run_requests i usz rs)"

definition handle_frame :: "bool \<Rightarrow> external_pointer \<Rightarrow> bytes" where
  "handle_frame optimized h = param_type_id_to_u8 PT_ExternalReference # u64_body optimized (ep_value h)"

definition callback_frame :: "bool \<Rightarrow> internal_pointer \<Rightarrow> bytes" where
  "callback_frame optimized h = param_type_id_to_u8 PT_InternalReference # u64_body optimized (ip_value h)"

primrec args_frame :: "nat \<Rightarrow> bool \<Rightarrow> nat \<Rightarrow> params list option \<Rightarrow> bytes" where
  "args_frame usz optimized n None = []"
| "args_frame usz optimized n (Some ps) =
     ARGUMENT_STARTER @ params_frames usz optimized n ps @ ARGUMENT_ENDER"

primrec args_text :: "params list option \<Rightarrow> bytes" where
  "args_text None = []"
| "args_text (Some ps) = concat (map param_text ps)"

primrec request_frame :: "nat \<Rightarrow> bool \<Rightarrow> nat \<Rightarrow> request \<Rightarrow> bytes" where
  "request_frame usz optimized n (Req_Register h body) =
     operations_to_u8 Op_MakeFunction # handle_frame optimized h
     @ param_type_id_to_u8 PT_Text8 # le_bytes 8 (of_nat n :: u64) @ le_bytes 8 (of_nat (length body) :: u64)
     @ [operations_to_u8 Op_End]"
| "request_frame usz optimized n (Req_Invoke h ps r) =
     operations_to_u8 Op_Invoke # handle_frame optimized h @ hints_frame r
     @ args_frame usz optimized n ps @ [operations_to_u8 Op_End]"
| "request_frame usz optimized n (Req_InvokeAsync h cb ps r) =
     operations_to_u8 Op_InvokeAsync # handle_frame optimized h @ callback_frame optimized cb
     @ hints_frame r @ args_frame usz optimized n ps @ [operations_to_u8 Op_End]"

primrec request_text :: "request \<Rightarrow> bytes" where
  "request_text (Req_Register h body) = body"
| "request_text (Req_Invoke h ps r) = args_text ps"
| "request_text (Req_InvokeAsync h cb ps r) = args_text ps"

fun requests_frames :: "nat \<Rightarrow> bool \<Rightarrow> nat \<Rightarrow> request list \<Rightarrow> bytes" where
  "requests_frames usz optimized n [] = []"
| "requests_frames usz optimized n (r # rs) =
     request_frame usz optimized n r @ requests_frames usz optimized (n + length (request_text r)) rs"

lemma bind_ret_unit: "bind m (\<lambda>_. ret ()) = (m :: ('s, 'e, unit) exec)"
  by (auto simp: bind_def ret_def fun_eq_iff split: prod.split result.split)

lemma encode_params_writes:
  "instr.writes i (encode_params i usz ps) (\<lambda>n. args_frame usz (ins_optimized i) n ps) (args_text ps)"
  using instr.writes_ret instr.params_list_encode_writes
  by (cases ps) (simp_all add: encode_params_def bind_ret_unit [simplified])

lemma encode_return_hints_writes: "instr.writes i (encode_return_hints i r) (\<lambda>_. hints_frame r) []"
  using instr.return_type_hints_encode_writes
  by (simp add: encode_return_hints_def bind_ret_unit [simplified])

lemma end_writes:
  "instr.writes i (bind (be_end instructions_encodable i) (\<lambda>_. ret ())) (\<lambda>_. [operations_to_u8 Op_End]) []"
  using instr.writes_end by (simp add: bind_ret_unit [simplified])

lemma run_request_writes:
  "instr.writes i (run_request i usz r) (\<lambda>n. request_frame usz (ins_optimized i) n r) (request_text r)"
proof (cases r)
  case (Req_Register h body)
  show ?thesis
    unfolding Req_Register run_request.simps register_function_def Let_def request_text.simps
    by (rule instr.writes_string, rule instr.writes_cong [OF instr.writes_bind [OF instr.writes_data
        instr.writes_bind [OF instr.pointer_encode_writes(1) instr.writes_bind [OF instr.writes_data
        end_writes]]]]) (simp_all add: handle_frame_def)
next
  case (Req_Invoke h ps hint)
  show ?thesis
    unfolding Req_Invoke run_request.simps invoke_def
    by (rule instr.writes_cong [OF instr.writes_bind [OF instr.writes_data
        instr.writes_bind [OF instr.pointer_encode_writes(1) instr.writes_bind [OF encode_return_hints_writes
        instr.writes_bind [OF encode_params_writes end_writes]]]]]) (simp_all add: handle_frame_def)
next
  case (Req_InvokeAsync h cb ps hint)
  show ?thesis
    unfolding Req_InvokeAsync run_request.simps invoke_async_def
    by (rule instr.writes_cong [OF instr.writes_bind [OF instr.writes_data
        instr.writes_bind [OF instr.pointer_encode_writes(1) instr.writes_bind [OF instr.pointer_encode_writes(2)
        instr.writes_bind [OF encode_return_hints_writes
        instr.writes_bind [OF encode_params_writes end_writes]]]]]])
      (simp_all add: handle_frame_def callback_frame_def)
qed

lemma run_requests_writes:
  "instr.writes i (run_requests i usz rs) (\<lambda>n. requests_frames usz (ins_optimized i) n rs)
     (concat (map request_text rs))"
proof (induction rs)
  case Nil
  show ?case using instr.writes_ret by simp
next
  case (Cons r rs)
  show ?case
    unfolding run_requests.simps
    by (rule instr.writes_cong [OF instr.writes_bind [OF run_request_writes Cons.IH]]) simp_all
qed

section \<open>Opening and closing\<close>

text \<open>An allocation emptied at once, as \<open>batch_for\<close> does twice.\<close>

lemma allocate_reset:
  assumes inv: "mem_inv s" and run: "mas_allocate usz cap s = (Ok k, s1)" and get: "mas_get k s1 = Ok h"
  defines "s2 \<equiv> cell_put (ma_cell h) (Some []) s1"
  shows "ma_reset_to usz 0 h s1 = (Ok (), s2)" "mem_inv s2" "mas_get k s2 = Ok h"
    "cell_get (ma_cell h) s2 = Some []"
    "mas_get k s = Err MA_InvalidAllocationId"
    "mas_get j s = Ok g \<Longrightarrow> mas_get j s2 = Ok g \<and> j \<noteq> k \<and> ma_cell g \<noteq> ma_cell h
       \<and> cell_get (ma_cell g) s2 = cell_get (ma_cell g) s"
proof -
  note a = mas_allocate_Ok [OF inv run, unfolded allocated_def]
  note inv1 = mem_inv_allocate [OF inv run]
  obtain z where z: "cell_get (ma_cell h) s1 = Some z" using a get by auto
  then show "ma_reset_to usz 0 h s1 = (Ok (), s2)" by (simp add: ma_reset_to_def s2_def)
  show "mem_inv s2" "mas_get k s2 = Ok h" "cell_get (ma_cell h) s2 = Some []"
    using inv1 get cell_get_Some_lt [OF z] by (simp_all add: s2_def)
  show "mas_get k s = Err MA_InvalidAllocationId" using a by blast
  assume j: "mas_get j s = Ok g"
  then have "j \<noteq> k" using a by auto
  moreover from this have "mas_get j s1 = Ok g" using a j by metis
  moreover from this have "ma_cell g \<noteq> ma_cell h"
    using live_cells_distinct [OF inv1 _ get] \<open>j \<noteq> k\<close> by blast
  ultimately show "mas_get j s2 = Ok g \<and> j \<noteq> k \<and> ma_cell g \<noteq> ma_cell h
       \<and> cell_get (ma_cell g) s2 = cell_get (ma_cell g) s"
    using a j by (auto simp: s2_def)
qed

text \<open>What an opened batch is: two new identifiers over two buffers of its own, one holding the begin
  marker and the other empty, and nothing else changed.\<close>

definition batch_opened :: "bool \<Rightarrow> memory \<Rightarrow> instructions \<Rightarrow> memory \<Rightarrow> bool" where
  "batch_opened optimized s i s' \<longleftrightarrow>
     mem_inv s' \<and> ins_opened i s' \<and> ins_optimized i = optimized
     \<and> ins_ops i s' = [operations_to_u8 Op_Begin] \<and> ins_texts i s' = []
     \<and> (\<exists>ho ht. ins_mem i = Some (ho, ht) \<and> mas_get (ins_ops_id i) s' = Ok ho \<and> mas_get (ins_text_id i) s' = Ok ht)
     \<and> ins_ops_id i \<noteq> ins_text_id i
     \<and> mas_get (ins_ops_id i) s = Err MA_InvalidAllocationId \<and> mas_get (ins_text_id i) s = Err MA_InvalidAllocationId
     \<and> (\<forall>j g. mas_get j s = Ok g \<longrightarrow> mas_get j s' = Ok g \<and> cell_get (ma_cell g) s' = cell_get (ma_cell g) s)"

lemma batch_for_opened:
  assumes inv: "mem_inv s" and run: "batch_for usz tc oc optimized s = (Ok i, s')"
  shows "batch_opened optimized s i s'"
proof -
  from run obtain k1 s1 h1 where a1: "mas_allocate usz oc s = (Ok k1, s1)" and g1: "mas_get k1 s1 = Ok h1"
    by (auto simp: batch_for_def bind_eq_Ok mas_get_run_def)
  define s2 where "s2 = cell_put (ma_cell h1) (Some []) s1"
  note r1 = allocate_reset [OF inv a1 g1, folded s2_def]
  from run obtain k2 s3 h2 where a2: "mas_allocate usz tc s2 = (Ok k2, s3)" and g2: "mas_get k2 s3 = Ok h2"
    by (auto simp: batch_for_def bind_eq_Ok mas_get_run_def a1 g1 r1(1))
  define s4 where "s4 = cell_put (ma_cell h2) (Some []) s3"
  note r2 = allocate_reset [OF r1(2) a2 g2, folded s4_def]
  note h1 = r2(6) [OF r1(3)]
  have c1: "cell_get (ma_cell h1) s4 = Some []" using h1 r1(4) by simp
  have i: "i = instructions_new optimized k1 k2 h1 h2"
    and s': "s' = cell_put (ma_cell h1) (Some [operations_to_u8 Op_Begin]) s4"
    using run c1
    by (auto simp: batch_for_def mas_get_run_def ret_run exec_map_err_def instructions_begin_def
        instructions_new_def in_free_state_def ma_apply_def bind_def a1 g1 r1(1) a2 g2 r2(1))
  have lt: "ma_cell h1 < length (cells s4)" using cell_get_Some_lt [OF c1] .
  have "mas_get j s' = Ok g \<and> cell_get (ma_cell g) s' = cell_get (ma_cell g) s" if j: "mas_get j s = Ok g" for j g
    using r1(6) [OF j] r2(6) [of j g] by (simp add: s')
  moreover have "mas_get k2 s = Err MA_InvalidAllocationId"
    by (rule mas_get_not_Ok) (use r2(5) r1(6) [of k2] in force)
  moreover have "ma_cell h2 \<noteq> ma_cell h1" "k1 \<noteq> k2" using h1 by auto
  moreover have "mas_get k1 s4 = Ok h1" using h1 by simp
  ultimately show ?thesis
    using r1(5) r2(2-4) c1 lt by (auto simp: batch_opened_def i s' instructions_new_def ins_view_defs)
qed

end
