(* ===== verification/Decode.thy ===== *)
theory Decode
  imports Batch
begin

text \<open>
  A reference reader for the operations stream: what a host must do to recover the requests a guest
  wrote. It is the specification the guest's encoders are checked against, not a model of the
  JavaScript host. An argument is read as its type and the unsigned values of its fields;
  \<open>usz\<close> is the size of \<open>usize\<close> in bytes, 4 or 8, which fixes the width of an unoptimized address.
\<close>

section \<open>Fields\<close>

type_synonym reader = "bytes \<Rightarrow> (nat list \<times> bytes) option"

definition read_plain :: "nat \<Rightarrow> reader" where
  "read_plain n bs =
     (if length bs < n then None else Some ([unat (le_word (take n bs) :: u64)], drop n bs))"

definition read_field :: "nat \<Rightarrow> (type_optimization \<Rightarrow> bytes \<Rightarrow> 'a::len word option) \<Rightarrow> reader" where
  "read_field n unq bs = map_option (\<lambda>(v, rest). ([unat v], rest)) (read_quantized n unq bs)"

definition read_slice_type :: reader where
  "read_slice_type bs =
     (case bs of
        [] \<Rightarrow> None
      | b # rest \<Rightarrow> (case typed_slice_from_u8 b of None \<Rightarrow> None | Some _ \<Rightarrow> Some ([unat b], rest)))"

definition read_both :: "reader \<Rightarrow> reader \<Rightarrow> reader" where
  "read_both r1 r2 bs =
     (case r1 bs of
        None \<Rightarrow> None
      | Some (vs, bs1) \<Rightarrow> map_option (\<lambda>(ws, rest). (vs @ ws, rest)) (r2 bs1))"

definition read_slice :: "nat \<Rightarrow> reader" where
  "read_slice usz = read_both (read_field usz unq_pointer) (read_field usz unq_u64)"

primrec arg_reader :: "nat \<Rightarrow> param_type_id \<Rightarrow> reader" where
  "arg_reader usz PT_Null = (\<lambda>bs. Some ([], bs))"
| "arg_reader usz PT_Undefined = (\<lambda>bs. Some ([], bs))"
| "arg_reader usz PT_Bool = read_plain 1"
| "arg_reader usz PT_Text8 = read_both (read_field 8 unq_u64) (read_field 8 unq_u64)"
| "arg_reader usz PT_Text16 = read_slice usz"
| "arg_reader usz PT_Int8 = read_plain 1"
| "arg_reader usz PT_Int16 = read_field 2 unq_i16"
| "arg_reader usz PT_Int32 = read_field 4 unq_i32"
| "arg_reader usz PT_Int64 = read_field 8 unq_i64"
| "arg_reader usz PT_Uint8 = read_plain 1"
| "arg_reader usz PT_Uint16 = read_field 2 unq_u16"
| "arg_reader usz PT_Uint32 = read_field 4 unq_u32"
| "arg_reader usz PT_Uint64 = read_field 8 unq_u64"
| "arg_reader usz PT_Float32 = read_plain 4"
| "arg_reader usz PT_Float64 = read_field 8 unq_f64"
| "arg_reader usz PT_ExternalReference = read_field 8 unq_u64"
| "arg_reader usz PT_Uint8ArrayBuffer = read_slice usz"
| "arg_reader usz PT_Uint16ArrayBuffer = read_slice usz"
| "arg_reader usz PT_Uint32ArrayBuffer = read_slice usz"
| "arg_reader usz PT_Uint64ArrayBuffer = read_slice usz"
| "arg_reader usz PT_Int8ArrayBuffer = read_slice usz"
| "arg_reader usz PT_Int16ArrayBuffer = read_slice usz"
| "arg_reader usz PT_Int32ArrayBuffer = read_slice usz"
| "arg_reader usz PT_Int64ArrayBuffer = read_slice usz"
| "arg_reader usz PT_Float32ArrayBuffer = read_slice usz"
| "arg_reader usz PT_Float64ArrayBuffer = read_slice usz"
| "arg_reader usz PT_InternalReference = read_field 8 unq_u64"
| "arg_reader usz PT_Int128 = read_field 16 unq_i128"
| "arg_reader usz PT_Uint128 = read_field 16 unq_u128"
| "arg_reader usz PT_CachedText = read_field 8 unq_u64"
| "arg_reader usz PT_TypedArraySlice = read_both read_slice_type (read_slice usz)"
| "arg_reader usz PT_ErrorCode = read_field 2 unq_u16"

section \<open>Arguments\<close>

datatype wire_arg = Arg param_type_id "nat list"

definition decode_arg :: "nat \<Rightarrow> bytes \<Rightarrow> (wire_arg \<times> bytes) option" where
  "decode_arg usz bs =
     (case bs of
        b # t # rest \<Rightarrow>
          if b \<noteq> arg_begin then None
          else
            (case param_type_id_from_u8 t of
               None \<Rightarrow> None
             | Some ty \<Rightarrow>
                 (case arg_reader usz ty rest of
                    Some (vs, e # rest') \<Rightarrow> if e = arg_end then Some (Arg ty vs, rest') else None
                  | _ \<Rightarrow> None))
      | _ \<Rightarrow> None)"

function decode_args :: "nat \<Rightarrow> bytes \<Rightarrow> (wire_arg list \<times> bytes) option" where
  "decode_args usz bs =
     (case bs of
        [] \<Rightarrow> None
      | b # rest \<Rightarrow>
          if b = argument_operations_to_u8 AO_Stop then Some ([], rest)
          else
            (case decode_arg usz bs of
               None \<Rightarrow> None
             | Some (a, bs') \<Rightarrow>
                 if length bs' < length bs
                 then map_option (\<lambda>(as, rest'). (a # as, rest')) (decode_args usz bs')
                 else None))"
  by pat_completeness auto
termination by (relation "measure (\<lambda>(usz, bs). length bs)") auto

declare decode_args.simps [simp del]

text \<open>The fields of an argument written when the text buffer held \<open>n\<close> bytes.\<close>

definition slice_values :: "'a rslice \<Rightarrow> nat list" where
  "slice_values v = [unat (slice_ptr v), unat (slice_len v)]"

primrec param_values :: "nat \<Rightarrow> params \<Rightarrow> nat list" where
  "param_values n P_Undefined = []"
| "param_values n P_Null = []"
| "param_values n (P_Bool v) = [if v then 1 else 0]"
| "param_values n (P_Float32 v) = [unat v]"
| "param_values n (P_Float64 v) = [unat v]"
| "param_values n (P_Int8 v) = [unat v]"
| "param_values n (P_Int16 v) = [unat v]"
| "param_values n (P_Int32 v) = [unat v]"
| "param_values n (P_Int64 v) = [unat v]"
| "param_values n (P_Int128 v) = [unat v]"
| "param_values n (P_Uint8 v) = [unat v]"
| "param_values n (P_Uint16 v) = [unat v]"
| "param_values n (P_Uint32 v) = [unat v]"
| "param_values n (P_Uint64 v) = [unat v]"
| "param_values n (P_Uint128 v) = [unat v]"
| "param_values n (P_CachedText v) = [unat v]"
| "param_values n (P_ErrorCode v) = [unat v]"
| "param_values n (P_Text8 v) = [unat (of_nat n :: u64), unat (slice_len v)]"
| "param_values n (P_Text16 v) = slice_values v"
| "param_values n (P_Int8Array v) = slice_values v"
| "param_values n (P_Int16Array v) = slice_values v"
| "param_values n (P_Int32Array v) = slice_values v"
| "param_values n (P_Int64Array v) = slice_values v"
| "param_values n (P_Uint8Array v) = slice_values v"
| "param_values n (P_Uint16Array v) = slice_values v"
| "param_values n (P_Uint32Array v) = slice_values v"
| "param_values n (P_Uint64Array v) = slice_values v"
| "param_values n (P_Float32Array v) = slice_values v"
| "param_values n (P_Float64Array v) = slice_values v"
| "param_values n (P_ExternalReference v) = [unat v]"
| "param_values n (P_InternalReference v) = [unat v]"
| "param_values n (P_TypedArraySlice t v) = unat (typed_slice_to_u8 t) # slice_values v"

text \<open>An optimized \<open>Float64\<close> in the range of an \<open>f32\<close> is sent as one. It is the one argument that may not
  arrive as it is; \<open>exact\<close> says that it does.\<close>

definition as_sent :: "bool \<Rightarrow> params \<Rightarrow> params" where
  "as_sent optimized p =
     (case p of
        P_Float64 v \<Rightarrow> if optimized \<and> f64_in_f32_range v then P_Float64 (f32_as_f64 (f64_as_f32 v)) else p
      | _ \<Rightarrow> p)"

definition exact :: "bool \<Rightarrow> params \<Rightarrow> bool" where
  "exact optimized p =
     (case p of
        P_Float64 v \<Rightarrow> optimized \<and> f64_in_f32_range v \<longrightarrow> f32_as_f64 (f64_as_f32 v) = v
      | _ \<Rightarrow> True)"

lemma as_sent_same [simp]:
  "to_value_type (as_sent optimized p) = to_value_type p" "param_text (as_sent optimized p) = param_text p"
  by (cases p; simp add: as_sent_def param_text_def)+

text \<open>On a 32-bit guest an address and a length fit 32 bits.\<close>

definition slice_fits :: "nat \<Rightarrow> 'a rslice \<Rightarrow> bool" where
  "slice_fits usz v \<longleftrightarrow> unat (slice_ptr v) < 2 ^ (8 * usz) \<and> unat (slice_len v) < 2 ^ (8 * usz)"

definition param_fits :: "nat \<Rightarrow> params \<Rightarrow> bool" where
  "param_fits usz p =
     (case p of
        P_Text16 v \<Rightarrow> slice_fits usz v
      | P_Int8Array v \<Rightarrow> slice_fits usz v
      | P_Int16Array v \<Rightarrow> slice_fits usz v
      | P_Int32Array v \<Rightarrow> slice_fits usz v
      | P_Int64Array v \<Rightarrow> slice_fits usz v
      | P_Uint8Array v \<Rightarrow> slice_fits usz v
      | P_Uint16Array v \<Rightarrow> slice_fits usz v
      | P_Uint32Array v \<Rightarrow> slice_fits usz v
      | P_Uint64Array v \<Rightarrow> slice_fits usz v
      | P_Float32Array v \<Rightarrow> slice_fits usz v
      | P_Float64Array v \<Rightarrow> slice_fits usz v
      | P_TypedArraySlice t v \<Rightarrow> slice_fits usz v
      | _ \<Rightarrow> True)"

section \<open>Reading back what was written\<close>

lemma le_word_prefix:
  "(le_word (le_bytes n (w :: 'a::len word)) :: 'b::len word) = ucast (take_bit (8 * n) w)"
  by (rule bit_word_eqI) (auto simp: bit_le_word le_bytes_def bit_simps dest: bit_imp_le_length)

lemma read_plain_le_bytes:
  assumes "n \<le> 8" "LENGTH('a::len) \<le> 8 * n"
  shows "read_plain n (le_bytes n (w :: 'a word) @ rest) = Some ([unat w], rest)"
proof -
  have "unat w < 2 ^ LENGTH('a)" by (rule unsigned_less)
  also have "(2 :: nat) ^ LENGTH('a) \<le> 2 ^ 64" using assms by (intro power_increasing) auto
  finally have "take_bit 64 (unat w) = unat w" by (rule take_bit_nat_eq_self)
  then show ?thesis
    using assms by (simp add: read_plain_def le_word_prefix take_bit_word_eq_self unsigned_ucast_eq
        unsigned_take_bit_eq)
qed

lemma read_field_opted:
  assumes "read_quantized n unq (opt_u8 (snd q) # fst q @ rest) = Some (v, rest)"
    and "unq TO_None raw = Some w" "length raw = n"
  shows "read_field n unq (opted optimized q raw @ rest) = Some ([unat (if optimized then v else w)], rest)"
  using assms
  by (cases optimized)
    (auto simp: read_field_def opted_def read_quantized_def type_optimization_code.dec_enc Let_def
      simp del: type_optimization_to_u8.simps split: option.splits)

lemma unq_none:
  "unq_i16 TO_None (le_bytes 2 a) = Some a" "unq_i32 TO_None (le_bytes 4 b) = Some b"
  "unq_i64 TO_None (le_bytes 8 c) = Some c" "unq_i128 TO_None (i128_halves d) = Some d"
  "unq_u16 TO_None (le_bytes 2 a) = Some a" "unq_u32 TO_None (le_bytes 4 b) = Some b"
  "unq_u64 TO_None (le_bytes 8 c) = Some c" "unq_u128 TO_None (u128_halves d) = Some d"
  "unq_f64 TO_None (le_bytes 8 c) = Some c"
  by (simp_all add: unq_i16_def unq_i32_def unq_i64_def unq_i128_def unq_u16_def unq_u32_def unq_u64_def
      unq_u128_def unq_f64_def)

lemma read_qf64:
  "read_quantized 8 unq_f64 (opt_u8 (snd (qf64 v)) # fst (qf64 v) @ rest)
     = Some (if f64_in_f32_range v then f32_as_f64 (f64_as_f32 v) else v, rest)"
  by (simp add: read_quantized_def type_optimization_code.dec_enc qf64_def unq_f64_def Let_def
      del: type_optimization_to_u8.simps)

lemma read_opted:
  "read_field 2 unq_i16 (opted optimized (qi16 a) (le_bytes 2 a) @ rest) = Some ([unat a], rest)"
  "read_field 4 unq_i32 (opted optimized (qi32 b) (le_bytes 4 b) @ rest) = Some ([unat b], rest)"
  "read_field 8 unq_i64 (opted optimized (qi64 c) (le_bytes 8 c) @ rest) = Some ([unat c], rest)"
  "read_field 16 unq_i128 (opted optimized (qi128 d) (i128_halves d) @ rest) = Some ([unat d], rest)"
  "read_field 2 unq_u16 (opted optimized (qu16 a) (le_bytes 2 a) @ rest) = Some ([unat a], rest)"
  "read_field 4 unq_u32 (opted optimized (qu32 b) (le_bytes 4 b) @ rest) = Some ([unat b], rest)"
  "read_field 8 unq_u64 (u64_body optimized c @ rest) = Some ([unat c], rest)"
  "read_field 16 unq_u128 (opted optimized (qu128 d) (u128_halves d) @ rest) = Some ([unat d], rest)"
  by (simp_all add: u64_body_def read_field_opted [OF qi16.read_q_split unq_none(1)]
      read_field_opted [OF qi32.read_q_split unq_none(2)] read_field_opted [OF qi64.read_q_split unq_none(3)]
      read_field_opted [OF qi128.read_q_split unq_none(4)] read_field_opted [OF qu16.read_q_split unq_none(5)]
      read_field_opted [OF qu32.read_q_split unq_none(6)] read_field_opted [OF qu64.read_q_split unq_none(7)]
      read_field_opted [OF qu128.read_q_split unq_none(8)])

lemma read_opted_f64:
  "read_field 8 unq_f64 (opted optimized (qf64 v) (le_bytes 8 v) @ rest)
     = Some ([unat (if optimized \<and> f64_in_f32_range v then f32_as_f64 (f64_as_f32 v) else v)], rest)"
  using read_field_opted [OF read_qf64 unq_none(9)] by simp

lemma read_quantized_none_u64:
  "read_quantized 8 unq_u64 (0 # le_bytes 8 (v :: u64) @ rest) = Some (v, rest)"
  by (simp add: read_quantized_def type_optimization_from_u8_def unq_u64_def)

text \<open>An address or length of a 32-bit guest is never sent at 8 bytes, so the reader that takes an
  unoptimized one to have \<open>usz\<close> bytes is right in both modes.\<close>

lemma le_word_usz:
  assumes "unat (v :: u64) < 2 ^ (8 * usz)"
  shows "le_word (le_bytes usz v) = v"
proof -
  have "unat (take_bit (8 * usz) v) = unat v"
    using assms by (simp add: unsigned_take_bit_eq take_bit_nat_eq_self)
  then have "take_bit (8 * usz) v = v" by (rule unsigned_word_eqI)
  then show ?thesis by (simp add: le_word_prefix)
qed

lemma read_plain_byte: "read_plain (Suc 0) (b # rest) = Some ([unat b], rest)"
  using read_plain_le_bytes [of 1 b rest] by (simp add: le_bytes_def)

lemma read_quantized_narrow:
  assumes "snd q \<noteq> TO_None" "read_quantized 8 unq (opt_u8 (snd q) # fst q @ rest) = Some (v, rest)"
  shows "read_quantized n unq (opt_u8 (snd q) # fst q @ rest) = Some (v, rest)"
proof -
  have "payload_width n (snd q) = payload_width 8 (snd q)" using assms(1) by (cases "snd q") simp_all
  then show ?thesis
    using assms(2) by (simp add: read_quantized_def type_optimization_code.dec_enc Let_def
        del: type_optimization_to_u8.simps)
qed

lemma read_quantized_usz:
  assumes "usz = 4 \<or> usz = 8" "unat v < 2 ^ (8 * usz)"
  shows "read_quantized usz unq_pointer (opt_u8 (snd (qpointer v)) # fst (qpointer v) @ rest) = Some (v, rest)"
    and "read_quantized usz unq_u64 (opt_u8 (snd (qu64 v)) # fst (qu64 v) @ rest) = Some (v, rest)"
proof -
  have "v \<le> 4294967295" if "usz = 4" using assms(2) that by (simp add: word_le_nat_alt)
  then have "usz = 8 \<or> (snd (qpointer v) \<noteq> TO_None \<and> snd (qu64 v) \<noteq> TO_None)"
    using assms(1) by (auto simp: qpointer_def qu64_def word_le_nat_alt)
  then show "read_quantized usz unq_pointer (opt_u8 (snd (qpointer v)) # fst (qpointer v) @ rest) = Some (v, rest)"
    and "read_quantized usz unq_u64 (opt_u8 (snd (qu64 v)) # fst (qu64 v) @ rest) = Some (v, rest)"
    using read_quantized_narrow [OF _ qpointer.read_q_split] read_quantized_narrow [OF _ qu64.read_q_split]
      qpointer.read_q_split qu64.read_q_split by metis+
qed

lemma read_slice_body:
  assumes "usz = 4 \<or> usz = 8" "slice_fits usz v"
  shows "read_slice usz (slice_body usz optimized v @ rest) = Some (slice_values v, rest)"
proof -
  have "read_field usz unq_pointer (opted optimized (qpointer (slice_ptr v)) (le_bytes usz (slice_ptr v)) @ rest')
      = Some ([unat (slice_ptr v)], rest')" for rest'
    using assms read_field_opted [OF read_quantized_usz(1), where raw = "le_bytes usz (slice_ptr v)"]
    by (simp add: slice_fits_def unq_pointer_def le_word_usz)
  moreover have "read_field usz unq_u64 (opted optimized (qu64 (slice_len v)) (le_bytes usz (slice_len v)) @ rest)
      = Some ([unat (slice_len v)], rest)"
    using assms read_field_opted [OF read_quantized_usz(2), where raw = "le_bytes usz (slice_len v)"]
    by (simp add: slice_fits_def unq_u64_def le_word_usz)
  ultimately show ?thesis
    by (simp add: read_slice_def read_both_def slice_body_def slice_values_def)
qed

lemma read_slice_type: "read_slice_type (typed_slice_to_u8 t # rest) = Some ([unat (typed_slice_to_u8 t)], rest)"
  by (simp add: read_slice_type_def typed_slice_code.dec_enc)

lemma read_body:
  assumes "usz = 4 \<or> usz = 8" "param_fits usz p"
  shows "arg_reader usz (to_value_type p) (param_body usz optimized n p @ rest)
    = Some (param_values n (as_sent optimized p), rest)"
  using assms
  by (cases p) (simp_all add: param_fits_def read_plain_le_bytes read_opted read_opted_f64 read_slice_body
      read_slice_type read_both_def slice_len_def read_plain_byte as_sent_def)

definition param_view :: "bool \<Rightarrow> nat \<Rightarrow> params \<Rightarrow> wire_arg" where
  "param_view optimized n p = Arg (to_value_type p) (param_values n (as_sent optimized p))"

fun params_views :: "bool \<Rightarrow> nat \<Rightarrow> params list \<Rightarrow> wire_arg list" where
  "params_views optimized n [] = []"
| "params_views optimized n (p # ps) =
     param_view optimized n p # params_views optimized (n + length (param_text p)) ps"

lemma decode_arg_frame:
  assumes "usz = 4 \<or> usz = 8" "param_fits usz p"
  shows "decode_arg usz (param_frame usz optimized n p @ rest) = Some (param_view optimized n p, rest)"
  using read_body [OF assms, of optimized n "arg_end # rest"]
  by (simp add: decode_arg_def param_frame_def param_view_def param_type_id_code.dec_enc)

lemma decode_args_frames:
  assumes "usz = 4 \<or> usz = 8" "\<forall>p \<in> set ps. param_fits usz p"
  shows "decode_args usz (params_frames usz optimized n ps @ argument_operations_to_u8 AO_Stop # rest)
    = Some (params_views optimized n ps, rest)"
  using assms(2)
proof (induction ps arbitrary: n)
  case Nil
  then show ?case by (subst decode_args.simps) simp
next
  case (Cons p ps)
  let ?rest = "params_frames usz optimized (n + length (param_text p)) ps @ argument_operations_to_u8 AO_Stop # rest"
  have d: "decode_arg usz (param_frame usz optimized n p @ ?rest) = Some (param_view optimized n p, ?rest)"
    using Cons.prems by (intro decode_arg_frame [OF assms(1)]) simp
  have "\<exists>xs. param_frame usz optimized n p @ ?rest = arg_begin # xs \<and> length ?rest < length (arg_begin # xs)"
    by (simp add: param_frame_def)
  then obtain xs where xs: "param_frame usz optimized n p @ ?rest = arg_begin # xs"
    "length ?rest < length (arg_begin # xs)" by blast
  have "decode_args usz (arg_begin # xs)
      = map_option (\<lambda>(as, rest'). (param_view optimized n p # as, rest')) (decode_args usz ?rest)"
    using d xs by (subst decode_args.simps) simp
  then show ?case using Cons xs(1) by simp
qed

section \<open>Hints\<close>

fun decode_states :: "bytes \<Rightarrow> (three_state list \<times> bytes) option" where
  "decode_states [] = None"
| "decode_states (b # rest) =
     (if b = return_hint_marker_to_u8 RHM_Stop then Some ([], rest)
      else
        (case (three_state_id_from_u8 b, rest) of
           (Some SI_One, p1 # rest') \<Rightarrow>
             (case return_type_id_from_u8 p1 of
                Some t1 \<Rightarrow> map_option (\<lambda>(sts, r). (State_One t1 # sts, r)) (decode_states rest')
              | None \<Rightarrow> None)
         | (Some SI_Two, p1 # p2 # rest') \<Rightarrow>
             (case (return_type_id_from_u8 p1, return_type_id_from_u8 p2) of
                (Some t1, Some t2) \<Rightarrow> map_option (\<lambda>(sts, r). (State_Two t1 t2 # sts, r)) (decode_states rest')
              | _ \<Rightarrow> None)
         | (Some SI_Three, p1 # p2 # p3 # rest') \<Rightarrow>
             (case (return_type_id_from_u8 p1, return_type_id_from_u8 p2, return_type_id_from_u8 p3) of
                (Some t1, Some t2, Some t3) \<Rightarrow>
                  map_option (\<lambda>(sts, r). (State_Three t1 t2 t3 # sts, r)) (decode_states rest')
              | _ \<Rightarrow> None)
         | _ \<Rightarrow> None))"

definition decode_hints :: "bytes \<Rightarrow> (return_type_hints \<times> bytes) option" where
  "decode_hints bs =
     (case bs of
        b # k # rest \<Rightarrow>
          if b \<noteq> return_hint_marker_to_u8 RHM_Start then None
          else
            (case (return_ids_from_u8 k, decode_states rest) of
               (Some RI_None, Some ([], r)) \<Rightarrow> Some (Hint_None, r)
             | (Some RI_One, Some ([st], r)) \<Rightarrow> Some (Hint_One st, r)
             | (Some RI_List, Some ([st], r)) \<Rightarrow> Some (Hint_List st, r)
             | (Some RI_Multi, Some (sts, r)) \<Rightarrow> Some (Hint_Multi sts, r)
             | _ \<Rightarrow> None)
      | _ \<Rightarrow> None)"

lemma decode_states_encoded:
  "decode_states (concat (map state_to_returns_value_u8 sts) @ return_hint_marker_to_u8 RHM_Stop # rest)
    = Some (sts, rest)"
proof (induction sts)
  case Nil
  then show ?case by simp
next
  case (Cons st sts)
  have "three_state_id_from_u8 70 = Some SI_One" "three_state_id_from_u8 80 = Some SI_Two"
    "three_state_id_from_u8 90 = Some SI_Three"
    by (simp_all add: three_state_id_from_u8_def)
  with Cons show ?case
    by (cases st) (simp_all add: state_to_returns_value_u8_def to_state_id_u8_def return_type_id_code.dec_enc)
qed

lemma decode_hints_frame: "decode_hints (hints_frame h @ rest) = Some (h, rest)"
proof -
  have "return_ids_from_u8 (to_returns_u8 h) = Some (to_return_id h)"
    by (simp add: to_returns_u8_def return_ids_code.dec_enc)
  then show ?thesis
    using decode_states_encoded [of _ rest] decode_states_encoded [of "[]" rest]
      decode_states_encoded [of "[_]" rest]
    by (cases h) (auto simp: decode_hints_def hints_frame_def)
qed

section \<open>Operations\<close>

datatype host_op =
  HO_MakeFunction external_pointer u64 u64
  | HO_Invoke external_pointer return_type_hints "wire_arg list option"
  | HO_InvokeAsync external_pointer internal_pointer return_type_hints "wire_arg list option"

definition decode_u64 :: "param_type_id \<Rightarrow> bytes \<Rightarrow> (u64 \<times> bytes) option" where
  "decode_u64 ty bs =
     (case bs of
        b # rest \<Rightarrow> if b = param_type_id_to_u8 ty then read_quantized 8 unq_u64 rest else None
      | [] \<Rightarrow> None)"

text \<open>Arguments are present exactly when the list opens with its start marker.\<close>

definition decode_arguments :: "nat \<Rightarrow> bytes \<Rightarrow> (wire_arg list option \<times> bytes) option" where
  "decode_arguments usz bs =
     (case bs of
        b # rest \<Rightarrow>
          if b = argument_operations_to_u8 AO_Start
          then map_option (\<lambda>(as, r). (Some as, r)) (decode_args usz rest)
          else Some (None, bs)
      | [] \<Rightarrow> None)"

definition expect :: "u8 \<Rightarrow> bytes \<Rightarrow> bytes option" where
  "expect b bs = (case bs of c # rest \<Rightarrow> if c = b then Some rest else None | [] \<Rightarrow> None)"

definition decode_make_function :: "bytes \<Rightarrow> (host_op \<times> bytes) option" where
  "decode_make_function bs =
     Option.bind (decode_u64 PT_ExternalReference bs) (\<lambda>(h, r1).
     Option.bind (expect (param_type_id_to_u8 PT_Text8) r1) (\<lambda>r2.
       if length r2 < 16 then None
       else map_option (\<lambda>r3. (HO_MakeFunction (ExternalPointer h) (le_word (take 8 r2)) (le_word (take 8 (drop 8 r2))), r3))
              (expect (operations_to_u8 Op_End) (drop 16 r2))))"

definition decode_invoke :: "nat \<Rightarrow> bytes \<Rightarrow> (host_op \<times> bytes) option" where
  "decode_invoke usz bs =
     Option.bind (decode_u64 PT_ExternalReference bs) (\<lambda>(h, r1).
     Option.bind (decode_hints r1) (\<lambda>(hint, r2).
     Option.bind (decode_arguments usz r2) (\<lambda>(as, r3).
       map_option (\<lambda>r4. (HO_Invoke (ExternalPointer h) hint as, r4)) (expect (operations_to_u8 Op_End) r3))))"

definition decode_invoke_async :: "nat \<Rightarrow> bytes \<Rightarrow> (host_op \<times> bytes) option" where
  "decode_invoke_async usz bs =
     Option.bind (decode_u64 PT_ExternalReference bs) (\<lambda>(h, r0).
     Option.bind (decode_u64 PT_InternalReference r0) (\<lambda>(cb, r1).
     Option.bind (decode_hints r1) (\<lambda>(hint, r2).
     Option.bind (decode_arguments usz r2) (\<lambda>(as, r3).
       map_option (\<lambda>r4. (HO_InvokeAsync (ExternalPointer h) (InternalPointer cb) hint as, r4))
         (expect (operations_to_u8 Op_End) r3)))))"

definition decode_op :: "nat \<Rightarrow> bytes \<Rightarrow> (host_op \<times> bytes) option" where
  "decode_op usz bs =
     (case bs of
        [] \<Rightarrow> None
      | b # rest \<Rightarrow>
          (case operations_from_u8 b of
             Some Op_MakeFunction \<Rightarrow> decode_make_function rest
           | Some Op_Invoke \<Rightarrow> decode_invoke usz rest
           | Some Op_InvokeAsync \<Rightarrow> decode_invoke_async usz rest
           | _ \<Rightarrow> None))"

function decode_ops :: "nat \<Rightarrow> bytes \<Rightarrow> (host_op list \<times> bytes) option" where
  "decode_ops usz bs =
     (case bs of
        [] \<Rightarrow> None
      | b # rest \<Rightarrow>
          if b = operations_to_u8 Op_Stop then Some ([], rest)
          else
            (case decode_op usz bs of
               None \<Rightarrow> None
             | Some (x, bs') \<Rightarrow>
                 if length bs' < length bs
                 then map_option (\<lambda>(xs, rest'). (x # xs, rest')) (decode_ops usz bs')
                 else None))"
  by pat_completeness auto
termination by (relation "measure (\<lambda>(usz, bs). length bs)") auto

declare decode_ops.simps [simp del]

definition decode_batch :: "nat \<Rightarrow> bytes \<Rightarrow> (host_op list \<times> bytes) option" where
  "decode_batch usz bs = Option.bind (expect (operations_to_u8 Op_Begin) bs) (decode_ops usz)"

text \<open>What the reader should get for a request.\<close>

definition args_view :: "bool \<Rightarrow> nat \<Rightarrow> params list option \<Rightarrow> wire_arg list option" where
  "args_view optimized n ps = map_option (params_views optimized n) ps"

primrec request_view :: "bool \<Rightarrow> nat \<Rightarrow> request \<Rightarrow> host_op" where
  "request_view optimized n (Req_Register h body) = HO_MakeFunction h (of_nat n) (of_nat (length body))"
| "request_view optimized n (Req_Invoke h ps r) = HO_Invoke h r (args_view optimized n ps)"
| "request_view optimized n (Req_InvokeAsync h cb ps r) = HO_InvokeAsync h cb r (args_view optimized n ps)"

fun requests_views :: "bool \<Rightarrow> nat \<Rightarrow> request list \<Rightarrow> host_op list" where
  "requests_views optimized n [] = []"
| "requests_views optimized n (r # rs) =
     request_view optimized n r # requests_views optimized (n + length (request_text r)) rs"

primrec request_params :: "request \<Rightarrow> params list option" where
  "request_params (Req_Register h body) = None"
| "request_params (Req_Invoke h ps r) = ps"
| "request_params (Req_InvokeAsync h cb ps r) = ps"

definition args_fit :: "nat \<Rightarrow> params list option \<Rightarrow> bool" where
  "args_fit usz ps \<longleftrightarrow> (case ps of None \<Rightarrow> True | Some qs \<Rightarrow> list_all (param_fits usz) qs)"

lemma decode_u64_handle:
  "decode_u64 PT_ExternalReference (handle_frame optimized h @ rest) = Some (ep_value h, rest)"
  "decode_u64 PT_InternalReference (callback_frame optimized cb @ rest) = Some (ip_value cb, rest)"
  using qu64.read_q_split read_quantized_none_u64
  by (simp_all add: decode_u64_def handle_frame_def callback_frame_def u64_body_def opted_def)

lemma decode_arguments_frame:
  assumes "usz = 4 \<or> usz = 8" "args_fit usz ps" "b \<noteq> argument_operations_to_u8 AO_Start"
  shows "decode_arguments usz (args_frame usz optimized n ps @ b # rest) = Some (args_view optimized n ps, b # rest)"
proof (cases ps)
  case None
  then show ?thesis using assms(3) by (simp add: decode_arguments_def args_view_def)
next
  case (Some qs)
  then show ?thesis
    using decode_args_frames [OF assms(1), of qs optimized n "b # rest"] assms(2)
    by (simp add: decode_arguments_def args_view_def args_fit_def list_all_iff ARGUMENT_STARTER_def
        ARGUMENT_ENDER_def)
qed

lemma decode_arguments_end:
  assumes "usz = 4 \<or> usz = 8" "args_fit usz ps"
  shows "decode_arguments usz (args_frame usz optimized n ps @ 254 # rest) = Some (args_view optimized n ps, 254 # rest)"
  using decode_arguments_frame [OF assms, of 254] by simp

lemma decode_op_frame:
  assumes "usz = 4 \<or> usz = 8" "args_fit usz (request_params r)"
  shows "decode_op usz (request_frame usz optimized n r @ rest) = Some (request_view optimized n r, rest)"
proof -
  have ops: "operations_from_u8 1 = Some Op_MakeFunction" "operations_from_u8 2 = Some Op_Invoke"
    "operations_from_u8 3 = Some Op_InvokeAsync"
    by (simp_all add: operations_from_u8_def)
  show ?thesis
    using assms
    by (cases r) (simp_all add: decode_op_def ops decode_make_function_def decode_invoke_def
        decode_invoke_async_def decode_u64_handle decode_hints_frame decode_arguments_end expect_def)
qed

lemma decode_ops_frames:
  assumes "usz = 4 \<or> usz = 8" "\<forall>r \<in> set rs. args_fit usz (request_params r)"
  shows "decode_ops usz (requests_frames usz optimized n rs @ operations_to_u8 Op_Stop # rest)
    = Some (requests_views optimized n rs, rest)"
  using assms(2)
proof (induction rs arbitrary: n)
  case Nil
  then show ?case by (subst decode_ops.simps) simp
next
  case (Cons r rs)
  let ?rest = "requests_frames usz optimized (n + length (request_text r)) rs @ operations_to_u8 Op_Stop # rest"
  have d: "decode_op usz (request_frame usz optimized n r @ ?rest) = Some (request_view optimized n r, ?rest)"
    using Cons.prems by (intro decode_op_frame [OF assms(1)]) simp
  have "\<exists>b xs. request_frame usz optimized n r @ ?rest = b # xs \<and> b \<noteq> operations_to_u8 Op_Stop
      \<and> length ?rest < length (b # xs)"
    by (cases r) simp_all
  then obtain b xs where xs: "request_frame usz optimized n r @ ?rest = b # xs"
    "b \<noteq> operations_to_u8 Op_Stop" "length ?rest < length (b # xs)" by blast
  have "decode_ops usz (b # xs)
      = map_option (\<lambda>(xs, rest'). (request_view optimized n r # xs, rest')) (decode_ops usz ?rest)"
    using d xs by (subst decode_ops.simps) simp
  then show ?case using Cons xs(1) by simp
qed

section \<open>What a host makes of a batch\<close>

text \<open>The host resolves a text argument, and the body of a function, in the batch's text buffer. What it then
  has of an argument is the text, or the fields: a number, or the address and length of an array.\<close>

datatype arg_content = AC_Text bytes | AC_Fields param_type_id "nat list"

datatype op_content =
  OC_Function external_pointer bytes
  | OC_Invoke external_pointer return_type_hints "arg_content list option"
  | OC_InvokeAsync external_pointer internal_pointer return_type_hints "arg_content list option"

definition resolve_arg :: "bytes \<Rightarrow> wire_arg \<Rightarrow> arg_content" where
  "resolve_arg texts a =
     (case a of Arg t vs \<Rightarrow>
        (case (t, vs) of
           (PT_Text8, [index, len]) \<Rightarrow> AC_Text (take len (drop index texts))
         | _ \<Rightarrow> AC_Fields t vs))"

primrec resolve_op :: "bytes \<Rightarrow> host_op \<Rightarrow> op_content" where
  "resolve_op texts (HO_MakeFunction h index len) = OC_Function h (take (unat len) (drop (unat index) texts))"
| "resolve_op texts (HO_Invoke h r as) = OC_Invoke h r (map_option (map (resolve_arg texts)) as)"
| "resolve_op texts (HO_InvokeAsync h cb r as) = OC_InvokeAsync h cb r (map_option (map (resolve_arg texts)) as)"

definition read_batch :: "nat \<Rightarrow> bytes \<Rightarrow> bytes \<Rightarrow> op_content list option" where
  "read_batch usz ops texts =
     Option.bind (decode_batch usz ops) (\<lambda>(xs, rest). if rest = [] then Some (map (resolve_op texts) xs) else None)"

text \<open>What a request says, whichever way it is written.\<close>

definition param_content :: "params \<Rightarrow> arg_content" where
  "param_content p =
     (case p of
        P_Text8 v \<Rightarrow> AC_Text (slice_elems v)
      | _ \<Rightarrow> AC_Fields (to_value_type p) (param_values 0 p))"

primrec request_content :: "request \<Rightarrow> op_content" where
  "request_content (Req_Register h body) = OC_Function h body"
| "request_content (Req_Invoke h ps r) = OC_Invoke h r (map_option (map param_content) ps)"
| "request_content (Req_InvokeAsync h cb ps r) = OC_InvokeAsync h cb r (map_option (map param_content) ps)"

primrec request_as_sent :: "bool \<Rightarrow> request \<Rightarrow> request" where
  "request_as_sent optimized (Req_Register h body) = Req_Register h body"
| "request_as_sent optimized (Req_Invoke h ps r) = Req_Invoke h (map_option (map (as_sent optimized)) ps) r"
| "request_as_sent optimized (Req_InvokeAsync h cb ps r) =
     Req_InvokeAsync h cb (map_option (map (as_sent optimized)) ps) r"

definition request_exact :: "bool \<Rightarrow> request \<Rightarrow> bool" where
  "request_exact optimized r = (case request_params r of None \<Rightarrow> True | Some ps \<Rightarrow> list_all (exact optimized) ps)"

lemma unat_of_nat_u64: "n < 2 ^ 64 \<Longrightarrow> unat (of_nat n :: u64) = n"
  by (simp add: unat_of_nat_small)

lemma resolve_arg_view:
  assumes "length pre + length (param_text p) < 2 ^ 64"
  shows "resolve_arg (pre @ param_text p @ post) (param_view optimized (length pre) p)
    = param_content (as_sent optimized p)"
  using assms
  by (cases p) (simp_all add: resolve_arg_def param_view_def param_content_def param_text_def slice_len_def
      unat_of_nat_u64 slice_values_def as_sent_def)

lemma resolve_args_views:
  assumes "length pre + length (concat (map param_text ps)) < 2 ^ 64"
  shows "map (resolve_arg (pre @ concat (map param_text ps) @ post)) (params_views optimized (length pre) ps)
    = map (param_content \<circ> as_sent optimized) ps"
  using assms
proof (induction ps arbitrary: pre)
  case (Cons p ps)
  then show ?case
    using resolve_arg_view [of pre p "concat (map param_text ps) @ post" optimized]
      Cons.IH [of "pre @ param_text p"] by simp
qed simp

lemma resolve_op_view:
  assumes "length pre + length (request_text r) < 2 ^ 64"
  shows "resolve_op (pre @ request_text r @ post) (request_view optimized (length pre) r)
    = request_content (request_as_sent optimized r)"
proof -
  have args: "length pre + length (args_text ps) < 2 ^ 64 \<Longrightarrow>
      map_option (map (resolve_arg (pre @ args_text ps @ post))) (args_view optimized (length pre) ps)
      = map_option (map param_content) (map_option (map (as_sent optimized)) ps)" for ps
    using resolve_args_views [of pre "the ps" post optimized] by (cases ps) (simp_all add: args_view_def)
  show ?thesis
    using assms args by (cases r) (simp_all add: unat_of_nat_u64)
qed

lemma resolve_ops_views:
  assumes "length pre + length (concat (map request_text rs)) < 2 ^ 64"
  shows "map (resolve_op (pre @ concat (map request_text rs) @ post)) (requests_views optimized (length pre) rs)
    = map (request_content \<circ> request_as_sent optimized) rs"
  using assms
proof (induction rs arbitrary: pre)
  case (Cons r rs)
  then show ?case
    using resolve_op_view [of pre r "concat (map request_text rs) @ post" optimized]
      Cons.IH [of "pre @ request_text r"] by simp
qed simp

text \<open>What is said is what was meant exactly when every argument is exact.\<close>

lemma param_content_exact: "param_content (as_sent optimized p) = param_content p \<longleftrightarrow> exact optimized p"
  by (cases p) (auto simp: param_content_def as_sent_def exact_def intro: unsigned_word_eqI)

lemma request_content_exact:
  "request_content (request_as_sent optimized r) = request_content r \<longleftrightarrow> request_exact optimized r"
proof -
  have "map (param_content \<circ> as_sent optimized) ps = map param_content ps \<longleftrightarrow> list_all (exact optimized) ps" for ps
    by (auto simp: list_all_iff param_content_exact)
  then show ?thesis by (cases r) (auto simp: request_exact_def split: option.splits)
qed

section \<open>A whole batch\<close>

lemma ins_same_get: "ins_same i s s' \<Longrightarrow> mas_get k s' = mas_get k s"
  by (simp add: ins_same_def mas_get_def cong: if_cong)

lemma ins_same_inv: "ins_same i s s' \<Longrightarrow> mem_inv s \<Longrightarrow> mem_inv s'"
  by (simp add: ins_same_def mem_inv_def)

lemma stop_run:
  assumes "ins_opened i s"
  obtains s' where "instructions_complete i s = (Ok (CompletedInstructions (ins_ops_id i) (ins_text_id i)), s')"
    "ins_opened i s'" "ins_ops i s' = ins_ops i s @ [operations_to_u8 Op_Stop]" "ins_texts i s' = ins_texts i s"
    "ins_same i s s'"
proof -
  obtain ops tx a b where m: "ins_mem i = Some (ops, tx)" "ma_cell ops \<noteq> ma_cell tx"
    "cell_get (ma_cell ops) s = Some a" "cell_get (ma_cell tx) s = Some b"
    "ma_cell ops < length (cells s)" "ma_cell tx < length (cells s)"
    using assms by (rule ins_openedE)
  show thesis
    by (rule that [of "cell_put (ma_cell ops) (Some (a @ [operations_to_u8 Op_Stop])) s"])
      (use m in \<open>simp_all add: instructions_complete_def instructions_stop_def exec_map_err_def in_occupied_state_def
        bind_def ma_apply_def ret_run ins_view_defs\<close>)
qed

text \<open>The state after a batch is opened, filled and closed, with what its two buffers hold.\<close>

lemma batch_complete:
  assumes "mem_inv s" "batch_for usz tc oc optimized s = (Ok i, s1)"
  obtains s2 s3 ho ht where "run_requests i usz rs s1 = (Ok (), s2)"
    "instructions_complete i s2 = (Ok (CompletedInstructions (ins_ops_id i) (ins_text_id i)), s3)"
    "fst (get_slot (CompletedInstructions (ins_ops_id i) (ins_text_id i)) s3) = Ok (MemorySlot ho ht)"
    "buffer_of ho s3 = operations_to_u8 Op_Begin # requests_frames usz optimized 0 rs @ [operations_to_u8 Op_Stop]"
    "buffer_of ht s3 = concat (map request_text rs)"
    "mem_inv s3"
    "\<And>j g. mas_get j s = Ok g \<Longrightarrow> mas_get j s3 = Ok g \<and> cell_get (ma_cell g) s3 = cell_get (ma_cell g) s"
proof -
  note o = batch_for_opened [OF assms, unfolded batch_opened_def]
  from o obtain ho ht where m: "ins_mem i = Some (ho, ht)" "mas_get (ins_ops_id i) s1 = Ok ho"
    "mas_get (ins_text_id i) s1 = Ok ht" by blast
  obtain s2 where 2: "run_requests i usz rs s1 = (Ok (), s2)" "ins_opened i s2"
    "ins_ops i s2 = operations_to_u8 Op_Begin # requests_frames usz optimized 0 rs"
    "ins_texts i s2 = concat (map request_text rs)" "ins_same i s1 s2"
    using run_requests_writes [of i usz rs] o unfolding instr.writes_def by auto
  obtain s3 where 3: "instructions_complete i s2 = (Ok (CompletedInstructions (ins_ops_id i) (ins_text_id i)), s3)"
    "ins_opened i s3" "ins_ops i s3 = ins_ops i s2 @ [operations_to_u8 Op_Stop]" "ins_texts i s3 = ins_texts i s2"
    "ins_same i s2 s3"
    using stop_run [OF 2(2)] by blast
  have same: "ins_same i s1 s3" using instr.same_trans 2(5) 3(5) by blast
  have keep: "mas_get j s3 = Ok g \<and> cell_get (ma_cell g) s3 = cell_get (ma_cell g) s" if j: "mas_get j s = Ok g" for j g
  proof -
    have j1: "mas_get j s1 = Ok g" "cell_get (ma_cell g) s1 = cell_get (ma_cell g) s" using o j by blast+
    have "j \<noteq> ins_ops_id i" "j \<noteq> ins_text_id i" using o j by auto
    then have "ma_cell g \<noteq> ma_cell ho" "ma_cell g \<noteq> ma_cell ht"
      using live_cells_distinct j1(1) m(2,3) o by blast+
    then show ?thesis using same j1 m(1) by (simp add: ins_same_get [OF same]) (simp add: ins_same_def)
  qed
  show thesis
  proof (rule that [OF 2(1) 3(1)])
    show "fst (get_slot (CompletedInstructions (ins_ops_id i) (ins_text_id i)) s3) = Ok (MemorySlot ho ht)"
      by (simp add: get_slot_def bind_def mas_get_run_def ret_run ins_same_get [OF same] m)
    show "buffer_of ho s3 = operations_to_u8 Op_Begin # requests_frames usz optimized 0 rs @ [operations_to_u8 Op_Stop]"
      "buffer_of ht s3 = concat (map request_text rs)"
      using 2(3,4) 3(3,4) m(1) by (simp_all add: ins_ops_def ins_texts_def)
    show "mem_inv s3" using ins_same_inv [OF same] o by blast
  qed (use keep in blast)+
qed

lemma allocate_succeeds:
  assumes "mem_inv s" "length (allocs s) < 2 ^ 32" "as_usize usz cap \<le> isize_max usz"
  obtains k s' h where "mas_allocate usz cap s = (Ok k, s')" "mas_get k s' = Ok h"
    "length (allocs s') \<le> Suc (length (allocs s))"
proof (cases "free s = []")
  case True
  then obtain k s' where r: "mas_allocate usz cap s = (Ok k, s')" "length (allocs s') \<le> Suc (length (allocs s))"
    using assms by (auto simp: mas_allocate_new)
  moreover obtain h where "mas_get k s' = Ok h"
    using mas_allocate_Ok [OF assms(1) r(1)] by (auto simp: allocated_def)
  ultimately show ?thesis using that by blast
next
  case False
  then obtain fs i g h where "free s = fs @ [i]" "i < length (allocs s)" "allocs s ! i = (g, h)"
    "ma_cell h < length (cells s)" "i \<notin> set fs"
    using free_last_slot [OF assms(1)] by blast
  then obtain k s' where r: "mas_allocate usz cap s = (Ok k, s')" "length (allocs s') \<le> Suc (length (allocs s))"
    using assms(3) by (auto simp: mas_allocate_reuse)
  moreover obtain h where "mas_get k s' = Ok h"
    using mas_allocate_Ok [OF assms(1) r(1)] by (auto simp: allocated_def)
  ultimately show ?thesis using that by blast
qed

lemma batch_for_succeeds:
  assumes "mem_inv s" "length (allocs s) + 2 \<le> 2 ^ 32"
    and "as_usize usz tc \<le> isize_max usz" "as_usize usz oc \<le> isize_max usz"
  obtains i s' where "batch_for usz tc oc optimized s = (Ok i, s')"
proof -
  have lt: "length (allocs s) < 2 ^ 32" using assms(2) by simp
  obtain k1 s1 h1 where a1: "mas_allocate usz oc s = (Ok k1, s1)" "mas_get k1 s1 = Ok h1"
    "length (allocs s1) \<le> Suc (length (allocs s))"
    by (rule allocate_succeeds [OF assms(1) lt assms(4)])
  define s2 where "s2 = cell_put (ma_cell h1) (Some []) s1"
  note r1 = allocate_reset [OF assms(1) a1(1,2), folded s2_def]
  have lt2: "length (allocs s2) < 2 ^ 32" using a1(3) assms(2) by (simp add: s2_def)
  obtain k2 s3 h2 where a2: "mas_allocate usz tc s2 = (Ok k2, s3)" "mas_get k2 s3 = Ok h2"
    by (rule allocate_succeeds [OF r1(2) lt2 assms(3)])
  define s4 where "s4 = cell_put (ma_cell h2) (Some []) s3"
  note r2 = allocate_reset [OF r1(2) a2, folded s4_def]
  have "cell_get (ma_cell h1) s4 = Some []" using r2(6) [OF r1(3)] r1(4) by simp
  then show thesis
    by (intro that) (simp add: batch_for_def bind_def a1 mas_get_run_def r1(1) a2 r2(1) Let_def ret_run
        exec_map_err_def instructions_begin_def instructions_new_def in_free_state_def ma_apply_def)
qed

section \<open>Properties\<close>

text \<open>C1: the guest's batches can be read. A batch opened with \<open>batch_for\<close>, filled by any run of
  \<open>register_function\<close>, \<open>invoke\<close> and \<open>invoke_async\<close> whose addresses and lengths fit a \<open>usize\<close> and whose text
  stays below \<open>2^64\<close> bytes, and completed, never fails; its slot is found under the returned identifiers. From
  its two buffers, and nothing else, a host reads one operation for each request, in order: the handle, the hint,
  the callback, the function body and every text byte for byte, every number with its type, every array as its
  address and length. They are what the requests say, except that an optimized \<open>Float64\<close> in the range of an
  \<open>f32\<close> arrives rounded to one; so the batch reads back as the requests exactly when it is not optimized or
  every such \<open>Float64\<close> is representable as an \<open>f32\<close>.\<close>

theorem batch_round_trip:
  assumes "usz = 4 \<or> usz = 8" "mem_inv s" "batch_for usz tc oc optimized s = (Ok i, s1)"
    and "\<forall>r \<in> set rs. args_fit usz (request_params r)" "length (concat (map request_text rs)) < 2 ^ 64"
  shows "\<exists>s2 s3 completed slot. run_requests i usz rs s1 = (Ok (), s2)
    \<and> instructions_complete i s2 = (Ok completed, s3) \<and> fst (get_slot completed s3) = Ok slot
    \<and> read_batch usz (buffer_of (slot_ops slot) s3) (buffer_of (slot_text slot) s3)
        = Some (map (request_content \<circ> request_as_sent optimized) rs)
    \<and> (map (request_content \<circ> request_as_sent optimized) rs = map request_content rs
        \<longleftrightarrow> (\<forall>r \<in> set rs. request_exact optimized r))"
proof -
  obtain s2 s3 ho ht where b: "run_requests i usz rs s1 = (Ok (), s2)"
    "instructions_complete i s2 = (Ok (CompletedInstructions (ins_ops_id i) (ins_text_id i)), s3)"
    "fst (get_slot (CompletedInstructions (ins_ops_id i) (ins_text_id i)) s3) = Ok (MemorySlot ho ht)"
    "buffer_of ho s3 = operations_to_u8 Op_Begin # requests_frames usz optimized 0 rs @ [operations_to_u8 Op_Stop]"
    "buffer_of ht s3 = concat (map request_text rs)"
    by (rule batch_complete [OF assms(2,3), of rs]) blast
  have "decode_batch usz (buffer_of ho s3) = Some (requests_views optimized 0 rs, [])"
    using decode_ops_frames [OF assms(1,4), of optimized 0 "[]"] by (simp add: decode_batch_def b(4) expect_def)
  then have "read_batch usz (buffer_of ho s3) (buffer_of ht s3)
      = Some (map (request_content \<circ> request_as_sent optimized) rs)"
    using resolve_ops_views [of "[]" rs "[]" optimized] assms(5) by (simp add: read_batch_def b(5))
  moreover have "map (request_content \<circ> request_as_sent optimized) rs = map request_content rs
      \<longleftrightarrow> (\<forall>r \<in> set rs. request_exact optimized r)" by (auto simp: request_content_exact)
  ultimately show ?thesis using b(1-3) by (metis memory_slot.sel)
qed

theorem batch_round_trip_witness:
  "\<exists>i s1 s2 s3 completed slot. batch_for 4 8 8 True mas_new = (Ok i, s1)
    \<and> run_requests i 4 [Req_Register (ExternalPointer 7) [104, 105],
         Req_Invoke (ExternalPointer 7) (Some [P_Int16 300, P_Text8 (Slice 64 [111, 107])]) Hint_None] s1 = (Ok (), s2)
    \<and> instructions_complete i s2 = (Ok completed, s3) \<and> fst (get_slot completed s3) = Ok slot
    \<and> read_batch 4 (buffer_of (slot_ops slot) s3) (buffer_of (slot_text slot) s3)
        = Some [OC_Function (ExternalPointer 7) [104, 105],
            OC_Invoke (ExternalPointer 7) Hint_None (Some [AC_Fields PT_Int16 [300], AC_Text [111, 107]])]"
proof -
  obtain i s1 where b: "batch_for 4 8 8 True mas_new = (Ok i, s1)"
    by (rule batch_for_succeeds [OF mem_inv_new, of 4 8 8 True])
      (simp_all add: mas_new_def as_usize_def isize_max_def)
  show ?thesis
    using b batch_round_trip [OF _ mem_inv_new b, of "[Req_Register (ExternalPointer 7) [104, 105],
         Req_Invoke (ExternalPointer 7) (Some [P_Int16 300, P_Text8 (Slice 64 [111, 107])]) Hint_None]"]
    by (simp add: args_fit_def param_fits_def as_sent_def param_content_def param_text_def request_exact_def exact_def)
qed

text \<open>C34: batches are isolated. Opening, filling and closing one leaves every identifier that was live
  before, and the bytes behind it, as they were, and keeps the allocator's invariant.\<close>

theorem batch_isolated:
  assumes "mem_inv s" "batch_for usz tc oc optimized s = (Ok i, s1)"
    and "run_requests i usz rs s1 = (Ok (), s2)" "instructions_complete i s2 = (Ok completed, s3)"
    and "mas_get j s = Ok g"
  shows "mem_inv s3 \<and> mas_get j s3 = Ok g \<and> cell_get (ma_cell g) s3 = cell_get (ma_cell g) s
    \<and> j \<noteq> ci_ops_id completed \<and> j \<noteq> ci_text_id completed"
proof -
  obtain t2 t3 ho ht where b: "run_requests i usz rs s1 = (Ok (), t2)"
    "instructions_complete i t2 = (Ok (CompletedInstructions (ins_ops_id i) (ins_text_id i)), t3)" "mem_inv t3"
    "\<And>j g. mas_get j s = Ok g \<Longrightarrow> mas_get j t3 = Ok g \<and> cell_get (ma_cell g) t3 = cell_get (ma_cell g) s"
    by (rule batch_complete [OF assms(1,2), of rs]) blast
  have "t2 = s2" using b(1) assms(3) by simp
  with b(2) assms(4) have c: "t3 = s3" "completed = CompletedInstructions (ins_ops_id i) (ins_text_id i)" by simp_all
  have "j \<noteq> ins_ops_id i \<and> j \<noteq> ins_text_id i"
    using batch_for_opened [OF assms(1,2)] assms(5) by (auto simp: batch_opened_def)
  then show ?thesis using b(3) b(4) [OF assms(5)] c by simp
qed

theorem batch_isolated_witness:
  "\<exists>s3. mem_inv s3 \<and> mas_get (MemoryId 0 0) s3 = Ok (MemoryAllocation 0)
     \<and> cell_get 0 s3 = Some (replicate 8 0)"
proof -
  have inv: "mem_inv table_of_one" using mem_inv_allocate [OF mem_inv_new table_of_one_runs(1)] .
  obtain i s1 where o: "batch_for 4 8 8 False table_of_one = (Ok i, s1)"
    by (rule batch_for_succeeds [OF inv, of 4 8 8 False])
      (simp_all add: table_of_one_runs as_usize_def isize_max_def)
  obtain s2 s3 where b: "run_requests i 4 [] s1 = (Ok (), s2)"
    "instructions_complete i s2 = (Ok (CompletedInstructions (ins_ops_id i) (ins_text_id i)), s3)"
    by (rule batch_complete [OF inv o, of "[]"]) blast
  have "cell_get 0 table_of_one = Some (replicate 8 0)"
    by (simp add: table_of_one_def mas_allocate_new mas_new_def as_usize_def isize_max_def cell_get_def)
  with batch_isolated [OF inv o b table_of_one_runs(2)] show ?thesis by auto
qed

text \<open>A batch can be opened whenever two more slots fit the table and the two capacities are
  possible vector lengths; it starts with the begin marker, an empty text buffer and two identifiers
  of its own.\<close>

theorem batch_opens:
  assumes "mem_inv s" "length (allocs s) + 2 \<le> 2 ^ 32"
    and "as_usize usz tc \<le> isize_max usz" "as_usize usz oc \<le> isize_max usz"
  shows "\<exists>i s'. batch_for usz tc oc optimized s = (Ok i, s') \<and> ins_ops i s' = [operations_to_u8 Op_Begin]
    \<and> ins_texts i s' = [] \<and> ins_ops_id i \<noteq> ins_text_id i
    \<and> mas_get (ins_ops_id i) s = Err MA_InvalidAllocationId \<and> mas_get (ins_text_id i) s = Err MA_InvalidAllocationId"
proof -
  obtain i s' where r: "batch_for usz tc oc optimized s = (Ok i, s')"
    by (rule batch_for_succeeds [OF assms])
  with batch_for_opened [OF assms(1) r] show ?thesis by (auto simp: batch_opened_def)
qed

theorem batch_opens_witness:
  "\<exists>i s'. batch_for 4 10 10 True mas_new = (Ok i, s') \<and> ins_ops i s' = [0]"
  using batch_opens [OF mem_inv_new, of 4 10 10 True] by (simp add: mas_new_def as_usize_def isize_max_def) blast

text \<open>Return hints survive, whatever follows them, although the list of a \<open>Multi\<close> hint carries no
  count: the stop marker is not the code of any state.\<close>

theorem hints_round_trip:
  "\<exists>bs. return_type_hints_to_binary h = Ok bs \<and> decode_hints (bs @ rest) = Some (h, rest)"
  by (simp add: return_type_hints_to_binary_eq decode_hints_frame)

text \<open>\<open>begin\<close> is documented to refuse while an operation is unclosed. It tests whether the
  instructions have lost their memory instead, so on an open batch it always succeeds, and writes a
  second begin marker.\<close>

theorem begin_never_refuses_an_open_batch:
  assumes "ins_opened i s"
  shows "\<exists>s'. instructions_begin i s = (Ok (), s') \<and> ins_ops i s' = ins_ops i s @ [operations_to_u8 Op_Begin]"
  using assms by (elim ins_openedE)
    (simp add: instructions_begin_def in_free_state_def bind_def ma_apply_def ret_run ins_view_defs)

theorem begin_never_refuses_an_open_batch_witness:
  "\<exists>i s s'. ins_opened i s \<and> ins_ops i s = [0] \<and> instructions_begin i s = (Ok (), s') \<and> ins_ops i s' = [0, 0]"
proof -
  obtain i s where r: "batch_for 4 8 8 False mas_new = (Ok i, s)"
    by (rule batch_for_succeeds [OF mem_inv_new, of 4 8 8 False])
      (simp_all add: mas_new_def as_usize_def isize_max_def)
  have o: "ins_opened i s" "ins_ops i s = [0]"
    using batch_for_opened [OF mem_inv_new r] by (simp_all add: batch_opened_def)
  with begin_never_refuses_an_open_batch [OF o(1)] show ?thesis by auto
qed

end
