(* ===== verification/Replies.thy ===== *)
theory Replies
  imports Memory
begin

text \<open>
  The reply parser of \<open>foundation_wasm/src/jsapi.rs\<close>: \<open>ReturnValueParserIter\<close> (one definition per arm
  of \<open>parse_next\<close>), its \<open>Iterator\<close> with the checks against the return hints, and
  \<open>FromBinary for ReturnTypeHints\<close>. A reply is a begin marker, values each behind its type byte, and
  an end marker; arrays and text travel in an allocation whose identifier is sent, which the parser
  takes and releases.

  \<open>ALLOCATIONS\<close> is the state of Memory. \<open>held\<close> are the buffers whose locks the caller holds while
  parsing (\<open>into_with\<close>): taking such a buffer again never returns, which the model writes as a panic.
  \<open>usz\<close> is the size of a pointer in bytes: the address of a typed slice is cast to one.
\<close>

section \<open>Constants\<close>

definition MOVE_ONE_BYTE :: nat where "MOVE_ONE_BYTE = 1"
definition MOVE_SIXTEEN_BYTES :: nat where "MOVE_SIXTEEN_BYTES = 2"
definition MOVE_THIRTY_TWO_BYTES :: nat where "MOVE_THIRTY_TWO_BYTES = 4"
definition MOVE_SIXTY_FOUR_BYTES :: nat where "MOVE_SIXTY_FOUR_BYTES = 8"
definition MOVE_ONE_TWENTY_EIGHT_BYTES :: nat where "MOVE_ONE_TWENTY_EIGHT_BYTES = 16"

lemmas move_defs [simp] = MOVE_ONE_BYTE_def MOVE_SIXTEEN_BYTES_def MOVE_THIRTY_TWO_BYTES_def
  MOVE_SIXTY_FOUR_BYTES_def MOVE_ONE_TWENTY_EIGHT_BYTES_def

section \<open>Values that are all on the wire\<close>

definition arm_none :: "bytes \<Rightarrow> nat \<Rightarrow> ('e, return_values \<times> nat) result" where
  "arm_none bin index = Ok (RV_None, index)"

definition arm_error_code :: "bytes \<Rightarrow> nat \<Rightarrow> ('e, return_values \<times> nat) result" where
  "arm_error_code bin index =
     (let end = index + MOVE_SIXTEEN_BYTES
      in rbind (slice bin index end) (\<lambda>portion.
         rbind (copy_from_slice 2 portion) (\<lambda>section.
           Ok (RV_ErrorCode (le_word section), end))))"

definition arm_bool :: "bytes \<Rightarrow> nat \<Rightarrow> ('e, return_values \<times> nat) result" where
  "arm_bool bin index =
     rbind (index_at bin index) (\<lambda>b.
       Ok (if b = 1 then RV_Bool True else RV_Bool False, index + MOVE_ONE_BYTE))"

definition arm_uint8 :: "bytes \<Rightarrow> nat \<Rightarrow> ('e, return_values \<times> nat) result" where
  "arm_uint8 bin index = rbind (index_at bin index) (\<lambda>item. Ok (RV_Uint8 item, index + MOVE_ONE_BYTE))"

definition arm_int8 :: "bytes \<Rightarrow> nat \<Rightarrow> ('e, return_values \<times> nat) result" where
  "arm_int8 bin index = rbind (index_at bin index) (\<lambda>item. Ok (RV_Int8 item, index + MOVE_ONE_BYTE))"

definition arm_uint16 :: "bytes \<Rightarrow> nat \<Rightarrow> ('e, return_values \<times> nat) result" where
  "arm_uint16 bin index =
     (let end = index + MOVE_SIXTEEN_BYTES
      in rbind (slice bin index end) (\<lambda>portion.
         rbind (copy_from_slice 2 portion) (\<lambda>section.
           Ok (RV_Uint16 (le_word section), end))))"

definition arm_uint32 :: "bytes \<Rightarrow> nat \<Rightarrow> ('e, return_values \<times> nat) result" where
  "arm_uint32 bin index =
     (let end = index + MOVE_THIRTY_TWO_BYTES
      in rbind (slice bin index end) (\<lambda>portion.
         rbind (copy_from_slice 4 portion) (\<lambda>section.
           Ok (RV_Uint32 (le_word section), end))))"

definition arm_uint64 :: "bytes \<Rightarrow> nat \<Rightarrow> ('e, return_values \<times> nat) result" where
  "arm_uint64 bin index =
     (let end = index + MOVE_SIXTY_FOUR_BYTES
      in rbind (slice bin index end) (\<lambda>portion.
         rbind (copy_from_slice 8 portion) (\<lambda>section.
           Ok (RV_Uint64 (le_word section), end))))"

definition arm_int16 :: "bytes \<Rightarrow> nat \<Rightarrow> ('e, return_values \<times> nat) result" where
  "arm_int16 bin index =
     (let end = index + MOVE_SIXTEEN_BYTES
      in rbind (slice bin index end) (\<lambda>portion.
         rbind (copy_from_slice 2 portion) (\<lambda>section.
           Ok (RV_Int16 (le_word section), end))))"

definition arm_int32 :: "bytes \<Rightarrow> nat \<Rightarrow> ('e, return_values \<times> nat) result" where
  "arm_int32 bin index =
     (let end = index + MOVE_THIRTY_TWO_BYTES
      in rbind (slice bin index end) (\<lambda>portion.
         rbind (copy_from_slice 4 portion) (\<lambda>section.
           Ok (RV_Int32 (le_word section), end))))"

definition arm_int64 :: "bytes \<Rightarrow> nat \<Rightarrow> ('e, return_values \<times> nat) result" where
  "arm_int64 bin index =
     (let end = index + MOVE_SIXTY_FOUR_BYTES
      in rbind (slice bin index end) (\<lambda>portion.
         rbind (copy_from_slice 8 portion) (\<lambda>section.
           Ok (RV_Int64 (le_word section), end))))"

definition arm_float32 :: "bytes \<Rightarrow> nat \<Rightarrow> ('e, return_values \<times> nat) result" where
  "arm_float32 bin index =
     (let end = index + MOVE_THIRTY_TWO_BYTES
      in rbind (slice bin index end) (\<lambda>portion.
         rbind (copy_from_slice 4 portion) (\<lambda>section.
           Ok (RV_Float32 (le_word section), end))))"

definition arm_uint128 :: "bytes \<Rightarrow> nat \<Rightarrow> ('e, return_values \<times> nat) result" where
  "arm_uint128 bin index =
     (let msb_end = index + MOVE_SIXTY_FOUR_BYTES
      in rbind (slice bin index msb_end) (\<lambda>msb_portion.
         rbind (copy_from_slice 8 msb_portion) (\<lambda>msb_section.
         let lsb_end = msb_end + MOVE_SIXTY_FOUR_BYTES
         in rbind (slice bin msb_end lsb_end) (\<lambda>lsb_portion.
            rbind (copy_from_slice 8 lsb_portion) (\<lambda>lsb_section.
              Ok (RV_Uint128 (push_bit 64 (ucast (le_word msb_section :: u64)) OR ucast (le_word lsb_section :: u64)), lsb_end))))))"

definition arm_int128 :: "bytes \<Rightarrow> nat \<Rightarrow> ('e, return_values \<times> nat) result" where
  "arm_int128 bin index =
     (let msb_end = index + MOVE_SIXTY_FOUR_BYTES
      in rbind (slice bin index msb_end) (\<lambda>msb_portion.
         rbind (copy_from_slice 8 msb_portion) (\<lambda>msb_section.
         let lsb_end = msb_end + MOVE_SIXTY_FOUR_BYTES
         in rbind (slice bin msb_end lsb_end) (\<lambda>lsb_portion.
            rbind (copy_from_slice 8 lsb_portion) (\<lambda>lsb_section.
              Ok (RV_Int128 (push_bit 64 (scast (le_word msb_section :: i64)) OR scast (le_word lsb_section :: i64)), lsb_end))))))"

definition arm_float64 :: "bytes \<Rightarrow> nat \<Rightarrow> ('e, return_values \<times> nat) result" where
  "arm_float64 bin index =
     (let end = index + MOVE_THIRTY_TWO_BYTES
      in rbind (slice bin index end) (\<lambda>portion.
         rbind (copy_from_slice 8 portion) (\<lambda>section.
           Ok (RV_Float64 (le_word section), end))))"

definition arm_typed_array_slice :: "nat \<Rightarrow> bytes \<Rightarrow> nat \<Rightarrow> ('e, return_values \<times> nat) result" where
  "arm_typed_array_slice usz bin index =
     rbind (index_at bin index) (\<lambda>b.
     rbind (some_or_panic (typed_slice_from_u8 b)) (\<lambda>item_type.
     let index = index + MOVE_ONE_BYTE;
         ptr_end = index + MOVE_SIXTY_FOUR_BYTES
     in rbind (slice bin index ptr_end) (\<lambda>ptr_portion.
        rbind (copy_from_slice 8 ptr_portion) (\<lambda>ptr_section.
        let length_end = ptr_end + MOVE_SIXTY_FOUR_BYTES
        in rbind (slice bin ptr_end length_end) (\<lambda>len_portion.
           rbind (copy_from_slice 8 len_portion) (\<lambda>len_section.
             Ok (RV_TypedArraySlice item_type (MemoryLocation (take_bit (8 * usz) (le_word ptr_section)) (le_word len_section)),
                 length_end)))))))"

definition arm_memory_slice :: "bytes \<Rightarrow> nat \<Rightarrow> ('e, return_values \<times> nat) result" where
  "arm_memory_slice bin index =
     (let end = index + MOVE_SIXTY_FOUR_BYTES
      in rbind (slice bin index end) (\<lambda>portion.
         rbind (copy_from_slice 8 portion) (\<lambda>section.
           Ok (RV_MemorySlice (memory_id_from_u64 (le_word section)), end))))"

definition arm_object :: "bytes \<Rightarrow> nat \<Rightarrow> ('e, return_values \<times> nat) result" where
  "arm_object bin index =
     (let end = index + MOVE_SIXTY_FOUR_BYTES
      in rbind (slice bin index end) (\<lambda>portion.
         rbind (copy_from_slice 8 portion) (\<lambda>section.
           Ok (RV_Object (ExternalPointer (le_word section)), end))))"

definition arm_dom_object :: "bytes \<Rightarrow> nat \<Rightarrow> ('e, return_values \<times> nat) result" where
  "arm_dom_object bin index =
     (let end = index + MOVE_SIXTY_FOUR_BYTES
      in rbind (slice bin index end) (\<lambda>portion.
         rbind (copy_from_slice 8 portion) (\<lambda>section.
           Ok (RV_DOMObject (InternalPointer (le_word section)), end))))"

definition arm_external_reference :: "bytes \<Rightarrow> nat \<Rightarrow> ('e, return_values \<times> nat) result" where
  "arm_external_reference bin index =
     (let end = index + MOVE_SIXTY_FOUR_BYTES
      in rbind (slice bin index end) (\<lambda>portion.
         rbind (copy_from_slice 8 portion) (\<lambda>section.
           Ok (RV_ExternalReference (ExternalPointer (le_word section)), end))))"

definition arm_internal_reference :: "bytes \<Rightarrow> nat \<Rightarrow> ('e, return_values \<times> nat) result" where
  "arm_internal_reference bin index =
     (let end = index + MOVE_SIXTY_FOUR_BYTES
      in rbind (slice bin index end) (\<lambda>portion.
         rbind (copy_from_slice 8 portion) (\<lambda>section.
           Ok (RV_InternalReference (InternalPointer (le_word section)), end))))"

section \<open>Values behind an allocation\<close>

text \<open>The steps the twelve arms share: read an identifier, get its allocation, take the buffer out
  of it, release the identifier.\<close>

definition read_memory_id ::
    "bytes \<Rightarrow> nat \<Rightarrow> nat \<Rightarrow> memory \<Rightarrow> (binary_read_error, memory_id) result \<times> memory" where
  "read_memory_id bin index end =
     lift_result (rbind (slice bin index end) (\<lambda>portion.
       rbind (copy_from_slice 8 portion) (\<lambda>section. Ok (memory_id_from_u64 (le_word section)))))"

definition take_allocation ::
    "nat list \<Rightarrow> memory_id \<Rightarrow> memory \<Rightarrow> (binary_read_error, bytes) result \<times> memory" where
  "take_allocation held mem_id s =
     (case mas_get mem_id s of
        Err err \<Rightarrow> (Err (binary_error_from_allocation err), s)
      | Panic \<Rightarrow> (Panic, s)
      | Ok allocation \<Rightarrow>
          if ma_cell allocation \<in> set held then (Panic, s)
          else bind (ma_take allocation) (\<lambda>memory_vec.
            case memory_vec of
              None \<Rightarrow> fail (BR_MemoryError Msg_NoVec)
            | Some bs \<Rightarrow>
                bind (exec_map_err binary_error_from_allocation (mas_deallocate mem_id)) (\<lambda>_. ret bs)) s)"

text \<open>The loop over an array: \<open>move_index\<close> runs over bytes and stops at the number of elements. The
  element width \<open>w\<close> is a constant of the arm, never 0.\<close>

function array_loop :: "nat \<Rightarrow> nat \<Rightarrow> bytes \<Rightarrow> nat \<Rightarrow> ('e, 'a::len word list) result" where
  "array_loop w arr_size memory_vec move_index =
     (if move_index < arr_size \<and> 0 < w
      then
        (let portion_end = move_index + w
         in rbind (slice memory_vec move_index portion_end) (\<lambda>portion.
            rbind (copy_from_slice w portion) (\<lambda>arr.
            rbind (array_loop w arr_size memory_vec portion_end) (\<lambda>rest. Ok (le_word arr # rest)))))
      else Ok [])"
  by pat_completeness auto
termination by (relation "measure (\<lambda>(w, arr_size, _, i). arr_size - i)") auto

declare array_loop.simps [simp del]

definition arm_uint8_array ::
    "nat list \<Rightarrow> bytes \<Rightarrow> nat \<Rightarrow> memory \<Rightarrow> (binary_read_error, return_values \<times> nat) result \<times> memory" where
  "arm_uint8_array held bin index =
     (let end = index + MOVE_SIXTY_FOUR_BYTES
      in bind (read_memory_id bin index end) (\<lambda>mem_id.
         bind (take_allocation held mem_id) (\<lambda>memory_vec.
           ret (RV_Uint8Array memory_vec, end))))"

definition arm_uint16_array ::
    "nat list \<Rightarrow> bytes \<Rightarrow> nat \<Rightarrow> memory \<Rightarrow> (binary_read_error, return_values \<times> nat) result \<times> memory" where
  "arm_uint16_array held bin index =
     (let end = index + MOVE_SIXTY_FOUR_BYTES
      in bind (read_memory_id bin index end) (\<lambda>mem_id.
         bind (take_allocation held mem_id) (\<lambda>memory_vec.
           if length memory_vec mod 2 \<noteq> 0 then fail (BR_MemoryError Msg_UnevenLength)
           else bind (lift_result (array_loop 2 (length memory_vec div 2) memory_vec 0)) (\<lambda>arr_content.
             ret (RV_Uint16Array arr_content, end)))))"

definition arm_uint32_array ::
    "nat list \<Rightarrow> bytes \<Rightarrow> nat \<Rightarrow> memory \<Rightarrow> (binary_read_error, return_values \<times> nat) result \<times> memory" where
  "arm_uint32_array held bin index =
     (let end = index + MOVE_SIXTY_FOUR_BYTES
      in bind (read_memory_id bin index end) (\<lambda>mem_id.
         bind (take_allocation held mem_id) (\<lambda>memory_vec.
           if length memory_vec mod 4 \<noteq> 0 then fail (BR_MemoryError Msg_UnevenLength)
           else bind (lift_result (array_loop 4 (length memory_vec div 4) memory_vec 0)) (\<lambda>arr_content.
             ret (RV_Uint32Array arr_content, end)))))"

definition arm_uint64_array ::
    "nat list \<Rightarrow> bytes \<Rightarrow> nat \<Rightarrow> memory \<Rightarrow> (binary_read_error, return_values \<times> nat) result \<times> memory" where
  "arm_uint64_array held bin index =
     (let end = index + MOVE_SIXTY_FOUR_BYTES
      in bind (read_memory_id bin index end) (\<lambda>mem_id.
         bind (take_allocation held mem_id) (\<lambda>memory_vec.
           if length memory_vec mod 8 \<noteq> 0 then fail (BR_MemoryError Msg_UnevenLength)
           else bind (lift_result (array_loop 8 (length memory_vec div 8) memory_vec 0)) (\<lambda>arr_content.
             ret (RV_Uint64Array arr_content, end)))))"

definition arm_int8_array ::
    "nat list \<Rightarrow> bytes \<Rightarrow> nat \<Rightarrow> memory \<Rightarrow> (binary_read_error, return_values \<times> nat) result \<times> memory" where
  "arm_int8_array held bin index =
     (let end = index + MOVE_SIXTY_FOUR_BYTES
      in bind (read_memory_id bin index end) (\<lambda>mem_id.
         bind (take_allocation held mem_id) (\<lambda>memory_vec.
           ret (RV_Int8Array memory_vec, end))))"

definition arm_int16_array ::
    "nat list \<Rightarrow> bytes \<Rightarrow> nat \<Rightarrow> memory \<Rightarrow> (binary_read_error, return_values \<times> nat) result \<times> memory" where
  "arm_int16_array held bin index =
     (let end = index + MOVE_SIXTY_FOUR_BYTES
      in bind (read_memory_id bin index end) (\<lambda>mem_id.
         bind (take_allocation held mem_id) (\<lambda>memory_vec.
           if length memory_vec mod 2 \<noteq> 0 then fail (BR_MemoryError Msg_UnevenLength)
           else bind (lift_result (array_loop 2 (length memory_vec div 2) memory_vec 0)) (\<lambda>arr_content.
             ret (RV_Int16Array arr_content, end)))))"

definition arm_int32_array ::
    "nat list \<Rightarrow> bytes \<Rightarrow> nat \<Rightarrow> memory \<Rightarrow> (binary_read_error, return_values \<times> nat) result \<times> memory" where
  "arm_int32_array held bin index =
     (let end = index + MOVE_SIXTY_FOUR_BYTES
      in bind (read_memory_id bin index end) (\<lambda>mem_id.
         bind (take_allocation held mem_id) (\<lambda>memory_vec.
           if length memory_vec mod 4 \<noteq> 0 then fail (BR_MemoryError Msg_UnevenLength)
           else bind (lift_result (array_loop 4 (length memory_vec div 4) memory_vec 0)) (\<lambda>arr_content.
             ret (RV_Int32Array arr_content, end)))))"

definition arm_int64_array ::
    "nat list \<Rightarrow> bytes \<Rightarrow> nat \<Rightarrow> memory \<Rightarrow> (binary_read_error, return_values \<times> nat) result \<times> memory" where
  "arm_int64_array held bin index =
     (let end = index + MOVE_SIXTY_FOUR_BYTES
      in bind (read_memory_id bin index end) (\<lambda>mem_id.
         bind (take_allocation held mem_id) (\<lambda>memory_vec.
           if length memory_vec mod 8 \<noteq> 0 then fail (BR_MemoryError Msg_UnevenLength)
           else bind (lift_result (array_loop 8 (length memory_vec div 8) memory_vec 0)) (\<lambda>arr_content.
             ret (RV_Int64Array arr_content, end)))))"

definition arm_float32_array ::
    "nat list \<Rightarrow> bytes \<Rightarrow> nat \<Rightarrow> memory \<Rightarrow> (binary_read_error, return_values \<times> nat) result \<times> memory" where
  "arm_float32_array held bin index =
     (let end = index + MOVE_SIXTY_FOUR_BYTES
      in bind (read_memory_id bin index end) (\<lambda>mem_id.
         bind (take_allocation held mem_id) (\<lambda>memory_vec.
           if length memory_vec mod 4 \<noteq> 0 then fail (BR_MemoryError Msg_UnevenLength)
           else bind (lift_result (array_loop 4 (length memory_vec div 4) memory_vec 0)) (\<lambda>arr_content.
             ret (RV_Float32Array arr_content, end)))))"

definition arm_float64_array ::
    "nat list \<Rightarrow> bytes \<Rightarrow> nat \<Rightarrow> memory \<Rightarrow> (binary_read_error, return_values \<times> nat) result \<times> memory" where
  "arm_float64_array held bin index =
     (let end = index + MOVE_SIXTY_FOUR_BYTES
      in bind (read_memory_id bin index end) (\<lambda>mem_id.
         bind (take_allocation held mem_id) (\<lambda>memory_vec.
           if length memory_vec mod 8 \<noteq> 0 then fail (BR_MemoryError Msg_UnevenLength)
           else bind (lift_result (array_loop 8 (length memory_vec div 8) memory_vec 0)) (\<lambda>arr_content.
             ret (RV_Float64Array arr_content, end)))))"

definition arm_text8 ::
    "nat list \<Rightarrow> bytes \<Rightarrow> nat \<Rightarrow> memory \<Rightarrow> (binary_read_error, return_values \<times> nat) result \<times> memory" where
  "arm_text8 held bin index =
     (let end = index + MOVE_SIXTY_FOUR_BYTES
      in bind (read_memory_id bin index end) (\<lambda>mem_id.
         bind (take_allocation held mem_id) (\<lambda>memory_vec.
           (case string_from_utf8 memory_vec of
              Ok content \<Rightarrow> ret (RV_Text8 content, end)
            | _ \<Rightarrow> fail (BR_ExpectedStringInCode (return_type_id_to_u8 RT_Text8))))))"

section \<open>The parser\<close>

record parser =
  p_hint :: return_type_hints
  p_item_index :: nat
  p_index :: nat
  p_src :: bytes

definition parser_new :: "return_type_hints \<Rightarrow> bytes \<Rightarrow> parser" where
  "parser_new hint src = \<lparr>p_hint = hint, p_item_index = 0, p_index = 0, p_src = src\<rparr>"

primrec parse_arm ::
    "nat \<Rightarrow> nat list \<Rightarrow> bytes \<Rightarrow> nat \<Rightarrow> return_type_id
      \<Rightarrow> memory \<Rightarrow> (binary_read_error, return_values \<times> nat) result \<times> memory" where
  "parse_arm usz held bin index RT_None = lift_result (arm_none bin index)"
| "parse_arm usz held bin index RT_ErrorCode = lift_result (arm_error_code bin index)"
| "parse_arm usz held bin index RT_Bool = lift_result (arm_bool bin index)"
| "parse_arm usz held bin index RT_Uint8 = lift_result (arm_uint8 bin index)"
| "parse_arm usz held bin index RT_Uint16 = lift_result (arm_uint16 bin index)"
| "parse_arm usz held bin index RT_Uint32 = lift_result (arm_uint32 bin index)"
| "parse_arm usz held bin index RT_Uint64 = lift_result (arm_uint64 bin index)"
| "parse_arm usz held bin index RT_Uint128 = lift_result (arm_uint128 bin index)"
| "parse_arm usz held bin index RT_Int8 = lift_result (arm_int8 bin index)"
| "parse_arm usz held bin index RT_Int16 = lift_result (arm_int16 bin index)"
| "parse_arm usz held bin index RT_Int32 = lift_result (arm_int32 bin index)"
| "parse_arm usz held bin index RT_Int64 = lift_result (arm_int64 bin index)"
| "parse_arm usz held bin index RT_Int128 = lift_result (arm_int128 bin index)"
| "parse_arm usz held bin index RT_Float32 = lift_result (arm_float32 bin index)"
| "parse_arm usz held bin index RT_Float64 = lift_result (arm_float64 bin index)"
| "parse_arm usz held bin index RT_TypedArraySlice = lift_result (arm_typed_array_slice usz bin index)"
| "parse_arm usz held bin index RT_MemorySlice = lift_result (arm_memory_slice bin index)"
| "parse_arm usz held bin index RT_Object = lift_result (arm_object bin index)"
| "parse_arm usz held bin index RT_DOMObject = lift_result (arm_dom_object bin index)"
| "parse_arm usz held bin index RT_ExternalReference = lift_result (arm_external_reference bin index)"
| "parse_arm usz held bin index RT_InternalReference = lift_result (arm_internal_reference bin index)"
| "parse_arm usz held bin index RT_Uint8ArrayBuffer = arm_uint8_array held bin index"
| "parse_arm usz held bin index RT_Uint16ArrayBuffer = arm_uint16_array held bin index"
| "parse_arm usz held bin index RT_Uint32ArrayBuffer = arm_uint32_array held bin index"
| "parse_arm usz held bin index RT_Uint64ArrayBuffer = arm_uint64_array held bin index"
| "parse_arm usz held bin index RT_Int8ArrayBuffer = arm_int8_array held bin index"
| "parse_arm usz held bin index RT_Int16ArrayBuffer = arm_int16_array held bin index"
| "parse_arm usz held bin index RT_Int32ArrayBuffer = arm_int32_array held bin index"
| "parse_arm usz held bin index RT_Int64ArrayBuffer = arm_int64_array held bin index"
| "parse_arm usz held bin index RT_Float32ArrayBuffer = arm_float32_array held bin index"
| "parse_arm usz held bin index RT_Float64ArrayBuffer = arm_float64_array held bin index"
| "parse_arm usz held bin index RT_Text8 = arm_text8 held bin index"

definition parse_next ::
    "nat \<Rightarrow> nat list \<Rightarrow> parser \<times> memory \<Rightarrow> (binary_read_error, return_values) result option \<times> parser \<times> memory" where
  "parse_next usz held = (\<lambda>(p, s).
     if length (p_src p) \<le> p_index p then (None, p, s)
     else
       (case return_type_id_from_u8 (p_src p ! p_index p) of
          None \<Rightarrow> (Some Panic, p, s)
        | Some return_id \<Rightarrow>
            (case parse_arm usz held (p_src p) (p_index p + MOVE_ONE_BYTE) return_id s of
               (Ok (value, end), s') \<Rightarrow> (Some (Ok value), p\<lparr>p_index := end\<rparr>, s')
             | (Err err, s') \<Rightarrow> (Some (Err err), p, s')
             | (Panic, s') \<Rightarrow> (Some Panic, p, s'))))"

text \<open>The check against one state of a hint, for a value of type \<open>t\<close>.\<close>

definition check_state :: "three_state \<Rightarrow> return_type_id \<Rightarrow> (binary_read_error, unit) result" where
  "check_state state t =
     (case state of
        State_One return_type_id \<Rightarrow>
          if t \<noteq> return_type_id then Err (BR_NotMatchingTypeHint state t) else Ok ()
      | State_Two p1 p2 \<Rightarrow>
          if t \<noteq> p1 \<and> t \<noteq> p2 then Err (BR_NotMatchingTypeHint state t) else Ok ()
      | State_Three p1 p2 p3 \<Rightarrow>
          if t \<noteq> p1 \<and> t \<noteq> p2 \<and> t \<noteq> p3 then Err (BR_NotMatchingTypeHint state t) else Ok ())"

definition check_hint :: "parser \<Rightarrow> return_type_id \<Rightarrow> (binary_read_error, parser) result" where
  "check_hint p t =
     (case p_hint p of
        Hint_One state \<Rightarrow> rbind (check_state state t) (\<lambda>_. Ok p)
      | Hint_Multi states \<Rightarrow>
          rbind (index_at states (p_item_index p)) (\<lambda>state.
          rbind (check_state state t) (\<lambda>_. Ok (p\<lparr>p_item_index := p_item_index p + 1\<rparr>)))
      | Hint_List state \<Rightarrow> rbind (check_state state t) (\<lambda>_. Ok p)
      | Hint_None \<Rightarrow> Panic)"

definition parser_next ::
    "nat \<Rightarrow> nat list \<Rightarrow> parser \<times> memory \<Rightarrow> (binary_read_error, return_values) result option \<times> parser \<times> memory" where
  "parser_next usz held st =
     (case parse_next usz held st of
        (Some (Ok item), p, s) \<Rightarrow>
          (case check_hint p (to_return_value_type item) of
             Ok p' \<Rightarrow> (Some (Ok item), p', s)
           | Err err \<Rightarrow> (Some (Err err), p, s)
           | Panic \<Rightarrow> (Some Panic, p, s))
      | other \<Rightarrow> other)"

section \<open>Termination\<close>

text \<open>An arm that succeeds moves past its type byte, so a successful \<open>next\<close> shortens the input.\<close>

lemmas pure_arm_defs = arm_none_def arm_error_code_def arm_bool_def arm_uint8_def arm_uint16_def arm_uint32_def arm_uint64_def arm_uint128_def arm_int8_def arm_int16_def arm_int32_def arm_int64_def arm_int128_def arm_float32_def arm_float64_def arm_typed_array_slice_def arm_memory_slice_def arm_object_def arm_dom_object_def arm_external_reference_def arm_internal_reference_def

lemmas memory_arm_defs = arm_uint8_array_def arm_uint16_array_def arm_uint32_array_def arm_uint64_array_def arm_int8_array_def arm_int16_array_def arm_int32_array_def arm_int64_array_def arm_float32_array_def arm_float64_array_def arm_text8_def

lemma parse_arm_advances:
  "parse_arm usz held bin index t s = (Ok (value, end), s') \<Longrightarrow> index \<le> end"
  by (cases t)
    (auto simp: pure_arm_defs memory_arm_defs Let_def rbind_eq_Ok bind_eq_Ok lift_result_run ret_run fail_run
      string_from_utf8_def split: if_splits result.splits)

lemma check_hint_fields:
  "check_hint p t = Ok p' \<Longrightarrow> p_src p' = p_src p \<and> p_index p' = p_index p"
  by (auto simp: check_hint_def rbind_eq_Ok split: return_type_hints.splits)

lemma parser_next_advances:
  assumes "parser_next usz held (p, s) = (Some (Ok item), p', s')"
  shows "p_index p < length (p_src p)" "p_src p' = p_src p" "p_index p < p_index p'"
proof -
  from assms obtain q where "parse_next usz held (p, s) = (Some (Ok item), q, s')" "check_hint q (to_return_value_type item) = Ok p'"
    by (auto simp: parser_next_def split: prod.splits option.splits result.splits)
  then show "p_index p < length (p_src p)" "p_src p' = p_src p" "p_index p < p_index p'"
    by (auto simp: parse_next_def dest!: check_hint_fields parse_arm_advances
        split: if_splits option.splits prod.splits result.splits)
qed

text \<open>The \<open>for\<close> loop of \<open>from_binary\<close>: every value until the parser is done, or the first error.\<close>

function collect_items ::
    "nat \<Rightarrow> nat list \<Rightarrow> parser \<times> memory \<Rightarrow> (binary_read_error, return_values list) result \<times> memory" where
  "collect_items usz held (p, s) =
     (case parser_next usz held (p, s) of
        (None, p', s') \<Rightarrow> (Ok [], s')
      | (Some (Ok item), p', s') \<Rightarrow>
          (case collect_items usz held (p', s') of (r, s'') \<Rightarrow> (rbind r (\<lambda>items. Ok (item # items)), s''))
      | (Some (Err err), p', s') \<Rightarrow> (Err err, s')
      | (Some Panic, p', s') \<Rightarrow> (Panic, s'))"
  by pat_completeness auto
termination
  by (relation "measure (\<lambda>(usz, held, p, s). length (p_src p) - p_index p)")
    (auto, metis diff_less_mono2 order_less_le_trans parser_next_advances less_or_eq_imp_le not_le)

declare collect_items.simps [simp del]

definition from_binary ::
    "nat \<Rightarrow> nat list \<Rightarrow> return_type_hints \<Rightarrow> bytes \<Rightarrow> memory
      \<Rightarrow> (binary_read_error, return_values list) result \<times> memory" where
  "from_binary usz held hint input_bin =
     bind (lift_result (index_at input_bin 0)) (\<lambda>first.
       if first \<noteq> return_value_marker_to_u8 RVM_Begin then fail (BR_WrongStarterCode first)
       else
         (let length' = length input_bin
          in bind (lift_result (index_at input_bin (length' - 1))) (\<lambda>last'.
            if last' \<noteq> return_value_marker_to_u8 RVM_End then fail (BR_WrongEndingCode last')
            else bind (lift_result (slice input_bin 1 (length' - 1))) (\<lambda>bin s.
              collect_items usz held (parser_new hint bin, s)))))"

section \<open>What the array loop reads\<close>

lemma array_loop_from:
  assumes "0 < w" "length bs = w * n"
  shows "(array_loop w n bs (k * w) :: ('e, 'a::len word list) result)
    = Ok (map (\<lambda>j. le_word (take w (drop (j * w) bs))) [k..<(n + w - 1) div w])"
proof (induction "(n + w - 1) div w - k" arbitrary: k)
  case 0
  then have "n + w - 1 < Suc k * w" using assms(1) by (metis div_less_iff_less_mult le_SucI less_Suc_eq_le diff_is_0_eq)
  then have "\<not> k * w < n" using assms(1) by simp
  with 0 show ?case by (subst array_loop.simps) simp
next
  case (Suc d)
  then have lt: "k < (n + w - 1) div w" by simp
  then have "Suc k * w \<le> n + w - 1" using assms(1) by (metis Suc_leI less_eq_div_iff_mult_less_eq)
  then have i: "k * w < n" using assms(1) by simp
  then have "k * w + w \<le> w * n"
  proof -
    have "k \<le> k * w" using assms(1) by simp
    then have "Suc k \<le> n" using i by linarith
    then have "Suc k * w \<le> n * w" by (rule mult_le_mono1)
    then show ?thesis by (simp add: mult.commute)
  qed
  then have "k * w + w \<le> length bs" using assms(2) by simp
  moreover have "(array_loop w n bs (k * w + w) :: ('e, 'a word list) result)
      = Ok (map (\<lambda>j. le_word (take w (drop (j * w) bs))) [Suc k..<(n + w - 1) div w])"
  proof -
    have "d = (n + w - 1) div w - Suc k" using Suc(2) by linarith
    from Suc(1) [OF this] show ?thesis by (simp add: add.commute)
  qed
  ultimately show ?case
    using i assms(1) lt by (subst array_loop.simps) (simp add: Let_def upt_conv_Cons)
qed

lemma chunk_of_concat:
  assumes "j < length xs"
  shows "take w (drop (j * w) (concat (map (le_bytes w) xs))) = le_bytes w (xs ! j)"
  using assms
proof (induction xs arbitrary: j)
  case Nil
  then show ?case by simp
next
  case (Cons x xs)
  then show ?case by (cases j) simp_all
qed

lemma length_concat_le_bytes [simp]: "length (concat (map (le_bytes w) xs)) = w * length xs"
  by (induction xs) simp_all

lemma array_loop_concat:
  assumes "0 < w" "LENGTH('a::len) \<le> 8 * w"
  shows "(array_loop w (length xs) (concat (map (le_bytes w) xs)) 0 :: ('e, 'a word list) result)
    = Ok (take ((length xs + w - 1) div w) xs)"
proof -
  let ?c = "(length xs + w - 1) div w"
  have c: "?c \<le> length xs"
  proof (cases "length xs")
    case (Suc m)
    have "length xs + w - 1 < Suc (length xs) * w"
    proof -
      have "length xs \<le> length xs * w" using assms(1) by simp
      then show ?thesis using assms(1) unfolding mult_Suc by linarith
    qed
    then have "?c < Suc (length xs)" using assms(1) by (simp only: div_less_iff_less_mult)
    then show ?thesis by simp
  qed (use assms(1) in simp)
  have "(array_loop w (length xs) (concat (map (le_bytes w) xs)) 0 :: ('e, 'a word list) result)
      = Ok (map (\<lambda>j. le_word (take w (drop (j * w) (concat (map (le_bytes w) xs))))) [0..<?c])"
    using array_loop_from [OF assms(1), of "concat (map (le_bytes w) xs)" "length xs" 0] by simp
  also have "map (\<lambda>j. le_word (take w (drop (j * w) (concat (map (le_bytes w) xs))))) [0..<?c] = take ?c xs"
    using c by (intro nth_equalityI) (simp_all add: chunk_of_concat le_word_le_bytes [OF assms(2)])
  finally show ?thesis .
qed

section \<open>What a host sends\<close>

text \<open>A value on the wire: its type byte and its payload. Arrays and text are first written into an
  allocation, and the payload is the identifier, \<open>mid\<close>. \<open>backing\<close> is what that allocation holds.\<close>

definition backing :: "return_values \<Rightarrow> bytes option" where
  "backing v =
     (case v of
        RV_Text8 bs \<Rightarrow> Some bs
      | RV_Int8Array xs \<Rightarrow> Some xs
      | RV_Uint8Array xs \<Rightarrow> Some xs
      | RV_Int16Array xs \<Rightarrow> Some (concat (map (le_bytes 2) xs))
      | RV_Int32Array xs \<Rightarrow> Some (concat (map (le_bytes 4) xs))
      | RV_Int64Array xs \<Rightarrow> Some (concat (map (le_bytes 8) xs))
      | RV_Uint16Array xs \<Rightarrow> Some (concat (map (le_bytes 2) xs))
      | RV_Uint32Array xs \<Rightarrow> Some (concat (map (le_bytes 4) xs))
      | RV_Uint64Array xs \<Rightarrow> Some (concat (map (le_bytes 8) xs))
      | RV_Float32Array xs \<Rightarrow> Some (concat (map (le_bytes 4) xs))
      | RV_Float64Array xs \<Rightarrow> Some (concat (map (le_bytes 8) xs))
      | _ \<Rightarrow> None)"

definition reply_payload :: "memory_id \<Rightarrow> return_values \<Rightarrow> bytes" where
  "reply_payload mid v =
     (case v of
        RV_None \<Rightarrow> []
      | RV_Bool b \<Rightarrow> [if b then 1 else 0]
      | RV_Float32 x \<Rightarrow> le_bytes 4 x
      | RV_Float64 x \<Rightarrow> le_bytes 8 x
      | RV_Int8 x \<Rightarrow> [x]
      | RV_Int16 x \<Rightarrow> le_bytes 2 x
      | RV_Int32 x \<Rightarrow> le_bytes 4 x
      | RV_Int64 x \<Rightarrow> le_bytes 8 x
      | RV_Int128 x \<Rightarrow> le_bytes 8 (ucast (drop_bit 64 x) :: i64) @ le_bytes 8 (ucast x :: i64)
      | RV_Uint8 x \<Rightarrow> [x]
      | RV_Uint16 x \<Rightarrow> le_bytes 2 x
      | RV_Uint32 x \<Rightarrow> le_bytes 4 x
      | RV_Uint64 x \<Rightarrow> le_bytes 8 x
      | RV_Uint128 x \<Rightarrow> le_bytes 8 (ucast (drop_bit 64 x) :: u64) @ le_bytes 8 (ucast x :: u64)
      | RV_ErrorCode x \<Rightarrow> le_bytes 2 x
      | RV_MemorySlice m \<Rightarrow> le_bytes 8 (memory_id_as_u64 m)
      | RV_Object p \<Rightarrow> le_bytes 8 (ep_value p)
      | RV_DOMObject p \<Rightarrow> le_bytes 8 (ip_value p)
      | RV_ExternalReference p \<Rightarrow> le_bytes 8 (ep_value p)
      | RV_InternalReference p \<Rightarrow> le_bytes 8 (ip_value p)
      | RV_TypedArraySlice t l \<Rightarrow> typed_slice_to_u8 t # le_bytes 8 (ml_address l) @ le_bytes 8 (ml_length l)
      | _ \<Rightarrow> le_bytes 8 (memory_id_as_u64 mid))"

definition wire_reply :: "memory_id \<times> return_values \<Rightarrow> bytes" where
  "wire_reply r = to_return_value_type_u8 (snd r) # reply_payload (fst r) (snd r)"

definition wire_replies :: "(memory_id \<times> return_values) list \<Rightarrow> bytes" where
  "wire_replies rs =
     return_value_marker_to_u8 RVM_Begin # concat (map wire_reply rs) @ [return_value_marker_to_u8 RVM_End]"

text \<open>What the guest makes of it. The low half of an \<open>i128\<close> is sign-extended into the upper half, of
  an array of \<open>n\<close> elements of \<open>w\<close> bytes only the first \<open>\<lceil>n / w\<rceil>\<close> arrive, and the address of a slice is cut
  to the size of a pointer.\<close>

definition arrived :: "nat \<Rightarrow> 'a list \<Rightarrow> 'a list" where
  "arrived w xs = take ((length xs + w - 1) div w) xs"

definition received :: "nat \<Rightarrow> return_values \<Rightarrow> return_values" where
  "received usz v =
     (case v of
        RV_Int128 x \<Rightarrow> RV_Int128 (if bit x 63 then x OR push_bit 64 (mask 64) else x)
      | RV_Int16Array xs \<Rightarrow> RV_Int16Array (arrived 2 xs)
      | RV_Int32Array xs \<Rightarrow> RV_Int32Array (arrived 4 xs)
      | RV_Int64Array xs \<Rightarrow> RV_Int64Array (arrived 8 xs)
      | RV_Uint16Array xs \<Rightarrow> RV_Uint16Array (arrived 2 xs)
      | RV_Uint32Array xs \<Rightarrow> RV_Uint32Array (arrived 4 xs)
      | RV_Uint64Array xs \<Rightarrow> RV_Uint64Array (arrived 8 xs)
      | RV_Float32Array xs \<Rightarrow> RV_Float32Array (arrived 4 xs)
      | RV_Float64Array xs \<Rightarrow> RV_Float64Array (arrived 8 xs)
      | RV_TypedArraySlice t l \<Rightarrow> RV_TypedArraySlice t (MemoryLocation (take_bit (8 * usz) (ml_address l)) (ml_length l))
      | _ \<Rightarrow> v)"

text \<open>Values the parser can read at all: no \<open>Float64\<close> (its arm always panics), text in UTF-8.\<close>

definition is_float64 :: "return_values \<Rightarrow> bool" where
  "is_float64 v \<longleftrightarrow> to_return_value_type v = RT_Float64"

definition text_ok :: "return_values \<Rightarrow> bool" where
  "text_ok v = (case v of RV_Text8 bs \<Rightarrow> utf8_valid bs | _ \<Rightarrow> True)"

definition readable :: "return_values \<Rightarrow> bool" where
  "readable v = (case v of RV_Float64 _ \<Rightarrow> False | RV_Text8 bs \<Rightarrow> utf8_valid bs | _ \<Rightarrow> True)"

lemma readable_iff: "readable v \<longleftrightarrow> \<not> is_float64 v \<and> text_ok v"
  by (cases v) (simp_all add: readable_def is_float64_def text_ok_def)

definition ready :: "nat list \<Rightarrow> memory \<Rightarrow> memory_id \<times> return_values \<Rightarrow> bool" where
  "ready held s r =
     (case backing (snd r) of
        None \<Rightarrow> True
      | Some bs \<Rightarrow> \<exists>h. mas_get (fst r) s = Ok h \<and> cell_get (ma_cell h) s = Some bs \<and> ma_cell h \<notin> set held)"

definition consume :: "memory \<Rightarrow> memory_id \<times> return_values \<Rightarrow> memory" where
  "consume s r =
     (if backing (snd r) = None then s
      else
        (case mas_get (fst r) s of
           Ok h \<Rightarrow> mem_release (fst r) (cell_put (ma_cell h) None s)
         | _ \<Rightarrow> s))"

section \<open>One value\<close>

lemma slice_middle:
  "slice (pre @ xs @ post) (length pre) (length pre + length xs) = Ok xs"
  by (simp add: slice_def)

lemma slice_le_bytes [simp]:
  "slice (pre @ le_bytes n x @ post) (length pre) (length pre + n) = Ok (le_bytes n x)"
  using slice_middle [of pre "le_bytes n x" post] by simp

lemma slice_le_bytes_after [simp]:
  "slice (pre @ le_bytes n x @ le_bytes m y @ post) (length pre + n) (length pre + n + m) = Ok (le_bytes m y)"
  using slice_middle [of "pre @ le_bytes n x" "le_bytes m y" post] by simp

lemma index_middle [simp]: "index_at (pre @ b # post) (length pre) = Ok b"
  by (simp add: index_at_def)

lemma u128_joined:
  "push_bit 64 (ucast (ucast (drop_bit 64 x) :: u64)) OR ucast (ucast x :: u64) = (x :: u128)"
proof (rule bit_word_eqI)
  fix k assume "k < LENGTH(128)"
  then show "bit (push_bit 64 (ucast (ucast (drop_bit 64 x) :: u64)) OR ucast (ucast x :: u64) :: u128) k \<longleftrightarrow> bit x k"
    by (cases "k < 64") (auto simp: bit_simps)
qed

lemma i128_joined:
  "push_bit 64 (scast (ucast (drop_bit 64 x) :: i64)) OR scast (ucast x :: i64)
     = (if bit x 63 then x OR push_bit 64 (mask 64) else (x :: i128))"
proof (rule bit_word_eqI)
  fix k assume "k < LENGTH(128)"
  then show "bit (push_bit 64 (scast (ucast (drop_bit 64 x) :: i64)) OR scast (ucast x :: i64) :: i128) k
      \<longleftrightarrow> bit (if bit x 63 then x OR push_bit 64 (mask 64) else x) k"
    by (cases "k < 64") (auto simp: bit_simps)
qed

lemma memory_id_roundtrip [simp]: "memory_id_from_u64 (memory_id_as_u64 m) = m"
  by (rule memory_id_unpack)

lemma take_allocation_run:
  assumes "mas_get mid s = Ok h" "cell_get (ma_cell h) s = Some bs" "ma_cell h \<notin> set held"
  shows "take_allocation held mid s = (Ok bs, mem_release mid (cell_put (ma_cell h) None s))"
  using assms(2,3) assms(1) [unfolded mas_get_Ok]
  by (simp add: take_allocation_def ma_take_def bind_def exec_map_err_def mas_deallocate_def mem_release_def
      assms(1) ret_run Let_def)

lemma read_memory_id_run:
  "read_memory_id (pre @ le_bytes 8 (memory_id_as_u64 mid) @ post) (length pre) (length pre + 8) s = (Ok mid, s)"
  by (simp add: read_memory_id_def lift_result_run)

lemma array_loop_words:
  "array_loop 2 (length as) (concat (map (le_bytes 2) (as :: u16 list))) 0 = Ok (arrived 2 as)"
  "array_loop 4 (length bs) (concat (map (le_bytes 4) (bs :: u32 list))) 0 = Ok (arrived 4 bs)"
  "array_loop 8 (length cs) (concat (map (le_bytes 8) (cs :: u64 list))) 0 = Ok (arrived 8 cs)"
  by (simp_all only: arrived_def) (rule array_loop_concat; simp)+

lemma typed_array_slice_run:
  "arm_typed_array_slice usz (pre @ typed_slice_to_u8 t # le_bytes 8 a @ le_bytes 8 l @ post) (length pre)
    = Ok (RV_TypedArraySlice t (MemoryLocation (take_bit (8 * usz) a) l), length pre + 17)"
  by (simp add: arm_typed_array_slice_def Let_def typed_slice_code.dec_enc slice_def)

text \<open>An arm reads back what a host put after the type byte.\<close>

lemma pure_arm_reply:
  assumes "backing v = None" "readable v"
  shows "parse_arm usz held (pre @ reply_payload mid v @ post) (length pre) (to_return_value_type v) s
    = (Ok (received usz v, length pre + length (reply_payload mid v)), s)"
  using assms
proof (cases v)
  case (RV_TypedArraySlice t l)
  then show ?thesis
    by (simp add: reply_payload_def received_def lift_result_run typed_array_slice_run)
qed (auto simp: backing_def readable_def reply_payload_def received_def pure_arm_defs lift_result_run Let_def
      u128_joined i128_joined slice_def simp del: add_2_eq_Suc')

lemma memory_arm_reply:
  assumes "backing v = Some bs" "readable v"
    and "take_allocation held mid s = (Ok bs, s')"
  shows "parse_arm usz held (pre @ reply_payload mid v @ post) (length pre) (to_return_value_type v) s
    = (Ok (received usz v, length pre + length (reply_payload mid v)), s')"
  using assms
  by (cases v)
    (auto simp: backing_def readable_def reply_payload_def received_def memory_arm_defs read_memory_id_run
      Let_def bind_def ret_run lift_result_run fail_run array_loop_words string_from_utf8_def)

lemma parse_next_reply:
  assumes v: "readable (snd r)" "ready held s r"
    and p: "p_src p = pre @ wire_reply r @ post" "p_index p = length pre"
  shows "parse_next usz held (p, s)
    = (Some (Ok (received usz (snd r))), p\<lparr>p_index := length pre + length (wire_reply r)\<rparr>, consume s r)"
proof -
  obtain mid w where r: "r = (mid, w)" by (cases r)
  let ?t = "to_return_value_type w"
  let ?bin = "(pre @ [return_type_id_to_u8 ?t]) @ reply_payload mid w @ post"
  have src: "p_src p = ?bin" using p(1) by (simp add: r wire_reply_def to_return_value_type_u8_def)
  have "parse_arm usz held ?bin (length (pre @ [return_type_id_to_u8 ?t])) ?t s
      = (Ok (received usz w, length (pre @ [return_type_id_to_u8 ?t]) + length (reply_payload mid w)), consume s r)"
  proof (cases "backing w")
    case None
    then have "consume s r = s" by (simp add: consume_def r)
    then show ?thesis using pure_arm_reply [OF None, of usz held] v(1) by (simp only: r snd_conv)
  next
    case (Some bs)
    then obtain h where h: "mas_get mid s = Ok h" "cell_get (ma_cell h) s = Some bs" "ma_cell h \<notin> set held"
      using v(2) by (auto simp: ready_def r)
    then have "consume s r = mem_release mid (cell_put (ma_cell h) None s)" by (simp add: consume_def r Some)
    then show ?thesis using memory_arm_reply [OF Some _ take_allocation_run [OF h]] v(1) by (simp only: r snd_conv)
  qed
  then show ?thesis
    using p(2) by (simp add: parse_next_def src nth_append return_type_id_code.dec_enc)
      (simp add: r wire_reply_def)
qed

lemma parse_next_reply_at:
  "readable (snd r) \<Longrightarrow> ready held s r \<Longrightarrow>
   parse_next usz held (\<lparr>p_hint = hint, p_item_index = k, p_index = length pre, p_src = pre @ wire_reply r @ post\<rparr>, s)
    = (Some (Ok (received usz (snd r))), \<lparr>p_hint = hint, p_item_index = k,
         p_index = length pre + length (wire_reply r), p_src = pre @ wire_reply r @ post\<rparr>, consume s r)"
  using parse_next_reply [where post = post] by simp

section \<open>A whole reply\<close>

text \<open>A hint admits a value of type \<open>t\<close> as item number \<open>k\<close>.\<close>

definition accepts :: "return_type_hints \<Rightarrow> nat \<Rightarrow> return_type_id \<Rightarrow> bool" where
  "accepts hint k t =
     (case hint of
        Hint_None \<Rightarrow> False
      | Hint_One st \<Rightarrow> t \<in> set (state_types st)
      | Hint_List st \<Rightarrow> t \<in> set (state_types st)
      | Hint_Multi sts \<Rightarrow> k < length sts \<and> t \<in> set (state_types (sts ! k)))"

definition next_item :: "return_type_hints \<Rightarrow> nat \<Rightarrow> nat" where
  "next_item hint k = (case hint of Hint_Multi _ \<Rightarrow> k + 1 | _ \<Rightarrow> k)"

fun accepts_all :: "return_type_hints \<Rightarrow> nat \<Rightarrow> return_values list \<Rightarrow> bool" where
  "accepts_all hint k [] = True"
| "accepts_all hint k (v # vs) =
     (accepts hint k (to_return_value_type v) \<and> accepts_all hint (next_item hint k) vs)"

fun ready_all :: "nat list \<Rightarrow> memory \<Rightarrow> (memory_id \<times> return_values) list \<Rightarrow> bool" where
  "ready_all held s [] = True"
| "ready_all held s (r # rs) = (readable (snd r) \<and> ready held s r \<and> ready_all held (consume s r) rs)"

lemma ready_all_append:
  "ready_all held s (xs @ ys) \<longleftrightarrow> ready_all held s xs \<and> ready_all held (foldl consume s xs) ys"
  by (induction xs arbitrary: s) auto

lemma check_state_ok: "t \<in> set (state_types st) \<Longrightarrow> check_state st t = Ok ()"
  by (cases st) (auto simp: check_state_def)

lemma check_state_fails: "t \<notin> set (state_types st) \<Longrightarrow> check_state st t = Err (BR_NotMatchingTypeHint st t)"
  by (cases st) (auto simp: check_state_def)

lemma check_hint_accepts:
  "accepts (p_hint p) (p_item_index p) t \<Longrightarrow>
   check_hint p t = Ok (p\<lparr>p_item_index := next_item (p_hint p) (p_item_index p)\<rparr>)"
  by (cases "p_hint p")
    (auto simp: accepts_def check_hint_def next_item_def check_state_ok index_at_def)

lemma received_type [simp]: "to_return_value_type (received usz v) = to_return_value_type v"
  by (cases v) (simp_all add: received_def)

definition backed :: "memory_id \<times> return_values \<Rightarrow> bool" where
  "backed r \<longleftrightarrow> backing (snd r) \<noteq> None"

text \<open>The state of a hint that item number \<open>k\<close> is checked against; \<open>None\<close> when there is none, and
  the check panics.\<close>

definition hint_state :: "return_type_hints \<Rightarrow> nat \<Rightarrow> three_state option" where
  "hint_state hint k =
     (case hint of
        Hint_None \<Rightarrow> None
      | Hint_One st \<Rightarrow> Some st
      | Hint_List st \<Rightarrow> Some st
      | Hint_Multi sts \<Rightarrow> if k < length sts then Some (sts ! k) else None)"

definition item_after :: "return_type_hints \<Rightarrow> nat \<Rightarrow> nat \<Rightarrow> nat" where
  "item_after hint k n = (case hint of Hint_Multi _ \<Rightarrow> k + n | _ \<Rightarrow> k)"

lemma item_after_0 [simp]: "item_after hint k 0 = k"
  by (simp add: item_after_def split: return_type_hints.split)

lemma item_after_Suc [simp]: "item_after hint (next_item hint k) n = item_after hint k (Suc n)"
  by (simp add: item_after_def next_item_def split: return_type_hints.split)

lemma hint_state_item_after [simp]: "hint_state hint (item_after hint 0 n) = hint_state hint n"
  by (simp add: hint_state_def item_after_def split: return_type_hints.split)

lemma check_hint_rejects:
  "check_hint p t = (case hint_state (p_hint p) (p_item_index p) of
      None \<Rightarrow> Panic
    | Some st \<Rightarrow> if t \<in> set (state_types st) then Ok (p\<lparr>p_item_index := next_item (p_hint p) (p_item_index p)\<rparr>)
                else Err (BR_NotMatchingTypeHint st t))"
  by (cases "p_hint p")
    (auto simp: hint_state_def check_hint_def next_item_def check_state_ok check_state_fails index_at_def)

text \<open>A prefix of admitted values is read and the parse goes on behind it.\<close>

lemma collect_items_prefix:
  assumes "ready_all held s rs" "accepts_all hint k (map snd rs)"
  shows "collect_items usz held (\<lparr>p_hint = hint, p_item_index = k, p_index = length pre,
      p_src = pre @ concat (map wire_reply rs) @ post\<rparr>, s)
    = (case collect_items usz held (\<lparr>p_hint = hint, p_item_index = item_after hint k (length rs),
          p_index = length (pre @ concat (map wire_reply rs)), p_src = pre @ concat (map wire_reply rs) @ post\<rparr>,
          foldl consume s rs) of
         (r, s') \<Rightarrow> (rbind r (\<lambda>items. Ok (map (received usz \<circ> snd) rs @ items)), s'))"
  using assms
proof (induction rs arbitrary: s k pre)
  case Nil
  have "rbind r Ok = r" for r :: "(binary_read_error, return_values list) result" by (cases r) simp_all
  then show ?case by (simp split: prod.split)
next
  case (Cons r rs)
  let ?p = "\<lparr>p_hint = hint, p_item_index = k, p_index = length pre,
      p_src = pre @ wire_reply r @ concat (map wire_reply rs) @ post\<rparr>"
  have "parse_next usz held (?p, s)
      = (Some (Ok (received usz (snd r))), ?p\<lparr>p_index := length pre + length (wire_reply r)\<rparr>, consume s r)"
    using Cons.prems(1) by (intro parse_next_reply [where post = "concat (map wire_reply rs) @ post"]) simp_all
  moreover have "accepts hint k (to_return_value_type (snd r))" using Cons.prems(2) by simp
  ultimately have n: "parser_next usz held (?p, s) = (Some (Ok (received usz (snd r))),
      ?p\<lparr>p_index := length pre + length (wire_reply r), p_item_index := next_item hint k\<rparr>, consume s r)"
    by (simp add: parser_next_def check_hint_accepts)
  have "rbind (rbind x (\<lambda>items. Ok (vs @ items))) (\<lambda>items. Ok (v # items)) = rbind x (\<lambda>items. Ok (v # vs @ items))"
    for x :: "(binary_read_error, return_values list) result" and v vs by (cases x) simp_all
  then show ?case
    using Cons.IH [of "consume s r" "next_item hint k" "pre @ wire_reply r"] Cons.prems n
    by (subst collect_items.simps) (simp add: ac_simps comp_def split: prod.split)
qed

lemma collect_items_end:
  "collect_items usz held (\<lparr>p_hint = hint, p_item_index = k, p_index = length bin, p_src = bin\<rparr>, s) = (Ok [], s)"
  by (subst collect_items.simps) (simp add: parser_next_def parse_next_def)

text \<open>What ends a parse: a value of a type the hint does not admit, one too many, or one whose
  allocation is gone.\<close>

lemma collect_items_check:
  assumes "readable (snd r)" "ready held s r" "\<not> accepts hint k (to_return_value_type (snd r))"
  shows "collect_items usz held (\<lparr>p_hint = hint, p_item_index = k, p_index = length pre, p_src = pre @ wire_reply r @ post\<rparr>, s)
    = (case hint_state hint k of None \<Rightarrow> Panic
         | Some st \<Rightarrow> Err (BR_NotMatchingTypeHint st (to_return_value_type (snd r))), consume s r)"
  using parse_next_reply_at [OF assms(1,2), of usz hint k pre post] assms(3)
  by (subst collect_items.simps)
    (auto simp: parser_next_def check_hint_rejects accepts_def hint_state_def
      split: return_type_hints.splits if_splits)

lemma parse_next_dead:
  assumes "backed r" "mas_get (fst r) s = Err MA_InvalidAllocationId"
  shows "parse_next usz held (\<lparr>p_hint = hint, p_item_index = k, p_index = length pre, p_src = pre @ wire_reply r @ post\<rparr>, s)
    = (Some (Err (BR_MemoryError (Msg_Allocation MA_InvalidAllocationId))),
       \<lparr>p_hint = hint, p_item_index = k, p_index = length pre, p_src = pre @ wire_reply r @ post\<rparr>, s)"
proof -
  obtain mid w where r: "r = (mid, w)" by (cases r)
  let ?t = "to_return_value_type w"
  let ?bin = "(pre @ [return_type_id_to_u8 ?t]) @ reply_payload mid w @ post"
  have src: "pre @ wire_reply r @ post = ?bin" by (simp add: r wire_reply_def to_return_value_type_u8_def)
  have t: "take_allocation held mid s = (Err (BR_MemoryError (Msg_Allocation MA_InvalidAllocationId)), s)"
    using assms(2) by (simp add: take_allocation_def r binary_error_from_allocation_def)
  have "parse_arm usz held ?bin (length (pre @ [return_type_id_to_u8 ?t])) ?t s
      = (Err (BR_MemoryError (Msg_Allocation MA_InvalidAllocationId)), s)"
    using assms(1) t read_memory_id_run [of "pre @ [return_type_id_to_u8 ?t]" mid post s]
    by (cases w) (auto simp: backed_def r backing_def memory_arm_defs reply_payload_def Let_def bind_def)
  then show ?thesis unfolding src by (simp add: parse_next_def nth_append return_type_id_code.dec_enc)
qed

lemma collect_items_dead:
  assumes "backed r" "mas_get (fst r) s = Err MA_InvalidAllocationId"
  shows "collect_items usz held (\<lparr>p_hint = hint, p_item_index = k, p_index = length pre, p_src = pre @ wire_reply r @ post\<rparr>, s)
    = (Err (BR_MemoryError (Msg_Allocation MA_InvalidAllocationId)), s)"
  by (subst collect_items.simps) (simp add: parser_next_def parse_next_dead [OF assms])

lemma from_binary_wire:
  "from_binary usz held hint (wire_replies rs) s
    = collect_items usz held (\<lparr>p_hint = hint, p_item_index = 0, p_index = 0, p_src = concat (map wire_reply rs)\<rparr>, s)"
  by (simp add: from_binary_def wire_replies_def bind_def lift_result_run index_at_def slice_def parser_new_def
      nth_append)

lemma from_binary_replies:
  assumes "ready_all held s rs" "accepts_all hint 0 (map snd rs)"
  shows "from_binary usz held hint (wire_replies rs) s = (Ok (map (received usz \<circ> snd) rs), foldl consume s rs)"
  using collect_items_prefix [OF assms, of usz "[]" "[]"] collect_items_end [of usz held hint _ "concat (map wire_reply rs)"]
  by (simp add: from_binary_wire)

lemma from_binary_check:
  assumes "ready_all held s (rs @ [r])" "accepts_all hint 0 (map snd rs)"
    and "\<not> accepts hint (length rs) (to_return_value_type (snd r))"
  shows "from_binary usz held hint (wire_replies (rs @ r # rest)) s
    = (case hint_state hint (length rs) of None \<Rightarrow> Panic
         | Some st \<Rightarrow> Err (BR_NotMatchingTypeHint st (to_return_value_type (snd r))), consume (foldl consume s rs) r)"
proof -
  have "ready_all held s rs \<and> readable (snd r) \<and> ready held (foldl consume s rs) r"
    using assms(1) by (simp add: ready_all_append)
  moreover have "accepts hint (item_after hint 0 (length rs)) = accepts hint (length rs)"
    by (auto simp: accepts_def item_after_def fun_eq_iff split: return_type_hints.split)
  ultimately show ?thesis
    using collect_items_prefix [of held s rs hint 0 usz "[]" "wire_reply r @ concat (map wire_reply rest)"] assms(2,3)
      collect_items_check [of r held "foldl consume s rs" hint "item_after hint 0 (length rs)" usz
        "concat (map wire_reply rs)" "concat (map wire_reply rest)"]
    by (simp add: from_binary_wire split: option.splits)
qed

text \<open>Distinct allocations stay ready while the earlier ones are consumed, and end up released.\<close>

lemma consume_inv: "mem_inv s \<Longrightarrow> mem_inv (consume s r)"
  by (auto simp: consume_def mem.release_inv split: result.split)

lemma consume_dead:
  assumes "mas_get mid s = Err MA_InvalidAllocationId"
  shows "mas_get mid (consume s r) = Err MA_InvalidAllocationId"
proof -
  have "mas_get mid (mem_release k s') = Err MA_InvalidAllocationId"
    if "mas_get mid s' = Err MA_InvalidAllocationId" for k s'
    using that by (rule_tac mas_get_not_Ok)
      (auto simp: mem_release_def mas_deallocate_def mas_get_def Let_def split: if_splits)
  then show ?thesis using assms by (auto simp: consume_def split: result.split)
qed

lemma consume_ready:
  assumes "mem_inv s" "ready held s r" "ready held s q" "backed r \<Longrightarrow> backed q \<Longrightarrow> fst q \<noteq> fst r"
  shows "ready held (consume s r) q"
proof (cases "backed r \<and> backed q")
  case False
  then show ?thesis using assms(3) by (auto simp: backed_def consume_def ready_def split: option.splits)
next
  case True
  then obtain a b g h where r: "backing (snd r) = Some a" "mas_get (fst r) s = Ok g"
    and q: "backing (snd q) = Some b" "mas_get (fst q) s = Ok h" "cell_get (ma_cell h) s = Some b" "ma_cell h \<notin> set held"
    using assms(2,3) by (auto simp: backed_def ready_def)
  let ?s = "cell_put (ma_cell g) None s"
  have ne: "fst q \<noteq> fst r" using True assms(4) by blast
  have "mas_get (fst q) (mem_release (fst r) ?s) = Ok h"
    using mem.release_live_frame [of ?s "fst r" g "fst q" h] ne assms(1) r(2) q(2)
    by (simp add: mem_resolve_eq)
  moreover have "cell_get (ma_cell h) (mem_release (fst r) ?s) = Some b"
    using live_cells_distinct [OF assms(1) q(2) r(2) ne] q(3)
    by (auto simp: mem_release_def mas_deallocate_def Let_def cell_get_def cell_put_def split: if_splits)
  ultimately show ?thesis using r q by (simp add: ready_def consume_def)
qed

lemma ready_all_distinct:
  assumes "mem_inv s" "\<forall>r \<in> set rs. readable (snd r) \<and> ready held s r" "distinct (map fst (filter backed rs))"
  shows "ready_all held s rs"
  using assms
proof (induction rs arbitrary: s)
  case Nil
  then show ?case by simp
next
  case (Cons r rs)
  have "ready held (consume s r) q" if q: "q \<in> set rs" for q
  proof (rule consume_ready)
    show "fst q \<noteq> fst r" if "backed r" "backed q"
    proof
      assume "fst q = fst r"
      moreover have "fst q \<in> fst ` set (filter backed rs)" using q that(2) by simp
      ultimately have "fst r \<in> fst ` set (filter backed rs)" by simp
      then show False using Cons.prems(3) that(1) by simp
    qed
  qed (use Cons.prems q in auto)
  then show ?case using Cons by (simp add: consume_inv split: if_splits)
qed

lemma consume_releases:
  assumes "mem_inv s" "ready held s r" "backed r"
  shows "mas_get (fst r) (consume s r) = Err MA_InvalidAllocationId"
proof -
  obtain g where g: "mas_get (fst r) s = Ok g" using assms(2,3) by (auto simp: ready_def backed_def)
  have "mem_resolve (mem_release (fst r) (cell_put (ma_cell g) None s)) (fst r) = None"
    using assms(1) by (intro mem.release_dead) simp
  then show ?thesis using assms(3) g by (simp add: consume_def backed_def mem_resolve_None)
qed

lemma foldl_consume_dead:
  "mas_get mid s = Err MA_InvalidAllocationId \<Longrightarrow> mas_get mid (foldl consume s rs) = Err MA_InvalidAllocationId"
  by (induction rs arbitrary: s) (simp_all add: consume_dead)

lemma foldl_consume_releases:
  assumes "mem_inv s" "ready_all held s rs" "r \<in> set rs" "backed r"
  shows "mas_get (fst r) (foldl consume s rs) = Err MA_InvalidAllocationId"
  using assms
proof (induction rs arbitrary: s)
  case (Cons q rs)
  then show ?case
    using consume_releases [OF Cons.prems(1), of held q] consume_inv [of s q]
    by (cases "r = q") (simp_all add: foldl_consume_dead)
qed simp

text \<open>The values that arrive as they were sent.\<close>

definition faithful :: "nat \<Rightarrow> return_values \<Rightarrow> bool" where
  "faithful usz v =
     (case v of
        RV_Int128 x \<Rightarrow> bit x 63 \<longrightarrow> drop_bit 64 x = mask 64
      | RV_Int16Array xs \<Rightarrow> length xs \<le> 1
      | RV_Int32Array xs \<Rightarrow> length xs \<le> 1
      | RV_Int64Array xs \<Rightarrow> length xs \<le> 1
      | RV_Uint16Array xs \<Rightarrow> length xs \<le> 1
      | RV_Uint32Array xs \<Rightarrow> length xs \<le> 1
      | RV_Uint64Array xs \<Rightarrow> length xs \<le> 1
      | RV_Float32Array xs \<Rightarrow> length xs \<le> 1
      | RV_Float64Array xs \<Rightarrow> length xs \<le> 1
      | RV_TypedArraySlice t l \<Rightarrow> unat (ml_address l) < 2 ^ (8 * usz)
      | _ \<Rightarrow> True)"

lemma arrived_whole: "1 < w \<Longrightarrow> arrived w xs = xs \<longleftrightarrow> length xs \<le> 1"
proof -
  assume w: "1 < w"
  have "(length xs + w - 1) div w \<ge> length xs \<longleftrightarrow> length xs * w \<le> length xs + w - 1"
    using w by (simp add: less_eq_div_iff_mult_less_eq)
  also have "\<dots> \<longleftrightarrow> length xs \<le> 1"
  proof (cases "length xs \<le> 1")
    case True
    then show ?thesis using w by (cases "length xs") auto
  next
    case False
    then obtain k where "length xs = Suc (Suc k)" by (cases "length xs"; cases "length xs - 1") auto
    then show ?thesis using w by (simp add: not_le) (use mult_le_mono2 [of 1 w k] in linarith)
  qed
  finally show "arrived w xs = xs \<longleftrightarrow> length xs \<le> 1" by (auto simp: arrived_def)
qed

lemma high_half_kept: "x OR push_bit 64 (mask 64) = x \<longleftrightarrow> drop_bit 64 (x :: i128) = mask 64"
proof
  assume x: "x OR push_bit 64 (mask 64) = x"
  show "drop_bit 64 x = mask 64"
  proof (rule bit_word_eqI)
    fix k assume "k < LENGTH(128)"
    then show "bit (drop_bit 64 x) k \<longleftrightarrow> bit (mask 64 :: i128) k"
      by (subst x [symmetric]) (auto simp: bit_simps dest: bit_imp_le_length)
  qed
next
  assume x: "drop_bit 64 x = mask 64"
  show "x OR push_bit 64 (mask 64) = x"
  proof (rule bit_word_eqI)
    fix k assume k: "k < LENGTH(128)"
    have "bit (drop_bit 64 x) (k - 64) \<longleftrightarrow> bit (mask 64 :: i128) (k - 64)" by (simp add: x)
    then show "bit (x OR push_bit 64 (mask 64)) k \<longleftrightarrow> bit x k" using k by (auto simp: bit_simps)
  qed
qed

lemma address_kept: "take_bit n x = x \<longleftrightarrow> unat x < 2 ^ n"
proof -
  have "take_bit n x = x \<longleftrightarrow> take_bit n (unat x) = unat x"
    by (metis unsigned_take_bit_eq unsigned_word_eqI)
  then show ?thesis by (simp add: take_bit_nat_eq_self_iff)
qed

lemma received_faithful: "received usz v = v \<longleftrightarrow> faithful usz v"
proof (cases v)
  case (RV_TypedArraySlice t l)
  then show ?thesis by (cases l) (simp add: received_def faithful_def address_kept)
qed (auto simp: received_def faithful_def arrived_whole high_half_kept)

text \<open>A \<open>Float64\<close> ends a parse with a panic: its arm cuts four bytes and copies them into an array of eight.\<close>

lemma collect_items_float:
  assumes "is_float64 (snd r)"
  shows "collect_items usz held (\<lparr>p_hint = hint, p_item_index = k, p_index = length pre, p_src = pre @ wire_reply r @ post\<rparr>, s)
    = (Panic, s)"
proof -
  obtain mid x where r: "r = (mid, RV_Float64 x)" using assms by (cases r; cases "snd r") (auto simp: is_float64_def)
  let ?bin = "(pre @ [return_type_id_to_u8 RT_Float64]) @ le_bytes 8 x @ post"
  have src: "pre @ wire_reply r @ post = ?bin"
    by (simp add: r wire_reply_def reply_payload_def to_return_value_type_u8_def)
  have "parse_arm usz held ?bin (length pre + 1) RT_Float64 s = (Panic, s)"
    by (simp add: arm_float64_def lift_result_run slice_def copy_from_slice_def Let_def)
  then have "parser_next usz held (\<lparr>p_hint = hint, p_item_index = k, p_index = length pre, p_src = ?bin\<rparr>, s)
      = (Some Panic, \<lparr>p_hint = hint, p_item_index = k, p_index = length pre, p_src = ?bin\<rparr>, s)"
    by (simp add: parser_next_def parse_next_def nth_append return_type_id_from_u8_def)
  then show ?thesis unfolding src by (subst collect_items.simps) simp
qed

lemma accepts_all_append: "accepts_all hint k (xs @ ys) \<Longrightarrow> accepts_all hint k xs"
  by (induction xs arbitrary: k) auto

lemma from_binary_float:
  assumes "mem_inv s" "\<forall>r \<in> set rs. text_ok (snd r) \<and> ready held s r" "distinct (map fst (filter backed rs))"
    and "accepts_all hint 0 (map snd rs)" "\<exists>r \<in> set rs. is_float64 (snd r)"
  shows "\<exists>s'. from_binary usz held hint (wire_replies rs) s = (Panic, s')"
proof -
  obtain as r bs where rs: "rs = as @ r # bs" and r: "is_float64 (snd r)" and as: "\<forall>q \<in> set as. \<not> is_float64 (snd q)"
    using split_list_first_prop [OF assms(5)] by blast
  have "ready_all held s as"
    using assms(1-3) as by (intro ready_all_distinct) (auto simp: rs readable_iff)
  moreover have "accepts_all hint 0 (map snd as)" using assms(4) by (simp add: rs accepts_all_append)
  ultimately show ?thesis
    using collect_items_prefix [of held s as hint 0 usz "[]" "wire_reply r @ concat (map wire_reply bs)"]
      collect_items_float [OF r, of usz held hint _ "concat (map wire_reply as)" "concat (map wire_reply bs)"]
    by (simp add: from_binary_wire rs)
qed

section \<open>Properties\<close>

text \<open>C2: what a reply becomes. A host sends any values, in any order, under a hint that admits their types,
  with the text in UTF-8 and each text and array in an allocation of its own. If one of them is a \<open>Float64\<close>,
  the parse panics. Otherwise \<open>from_binary\<close> returns \<open>received\<close> of each, in order, and every allocation that
  carried one is released; what is returned is what was sent exactly when no array of elements of two or more
  bytes has more than one element, no \<open>i128\<close> has bit 63 set under other upper bits, and no slice has an
  address beyond a pointer.\<close>

theorem reply_round_trip:
  assumes "mem_inv s" "\<forall>r \<in> set rs. text_ok (snd r) \<and> ready held s r" "distinct (map fst (filter backed rs))"
    and "accepts_all hint 0 (map snd rs)"
  shows "if \<exists>r \<in> set rs. is_float64 (snd r) then fst (from_binary usz held hint (wire_replies rs) s) = Panic
    else \<exists>s'. from_binary usz held hint (wire_replies rs) s = (Ok (map (received usz \<circ> snd) rs), s') \<and> mem_inv s'
      \<and> (\<forall>r \<in> set rs. backed r \<longrightarrow> mas_get (fst r) s' = Err MA_InvalidAllocationId)
      \<and> (map (received usz \<circ> snd) rs = map snd rs \<longleftrightarrow> (\<forall>r \<in> set rs. faithful usz (snd r)))"
proof (cases "\<exists>r \<in> set rs. is_float64 (snd r)")
  case True
  obtain s' where "from_binary usz held hint (wire_replies rs) s = (Panic, s')"
    using from_binary_float [OF assms True, of usz] by blast
  with True show ?thesis by simp
next
  case False
  then have ready: "ready_all held s rs"
    using assms(1-3) by (intro ready_all_distinct) (auto simp: readable_iff)
  have "mem_inv (foldl consume s rs)" using assms(1) by (induction rs arbitrary: s) (simp_all add: consume_inv)
  then show ?thesis
    using from_binary_replies [OF ready assms(4), of usz] foldl_consume_releases [OF assms(1) ready] False
    by (auto simp: received_faithful)
qed

theorem reply_round_trip_witness:
  "(\<exists>s'. from_binary 4 [] (Hint_Multi [State_One RT_Text8, State_Two RT_Bool RT_Int16])
        (wire_replies [(MemoryId 0 0, RV_Text8 [104, 105]), (MemoryId 9 9, RV_Int16 7)])
        (cell_put 0 (Some [104, 105]) table_of_one)
      = (Ok [RV_Text8 [104, 105], RV_Int16 7], s') \<and> mas_get (MemoryId 0 0) s' = Err MA_InvalidAllocationId)
    \<and> fst (from_binary 4 [] (Hint_List (State_One RT_Float64)) (wire_replies [(MemoryId 9 9, RV_Float64 1)]) mas_new) = Panic"
proof
  let ?s = "cell_put 0 (Some [104, 105]) table_of_one"
  have inv: "mem_inv ?s" using mem_inv_allocate [OF mem_inv_new table_of_one_runs(1)] by simp
  have "ready [] ?s (MemoryId 0 0, RV_Text8 [104, 105])"
    by (simp add: ready_def backing_def table_of_one_runs)
      (simp add: table_of_one_def mas_allocate_new mas_new_def as_usize_def isize_max_def)
  then show "\<exists>s'. from_binary 4 [] (Hint_Multi [State_One RT_Text8, State_Two RT_Bool RT_Int16])
        (wire_replies [(MemoryId 0 0, RV_Text8 [104, 105]), (MemoryId 9 9, RV_Int16 7)]) ?s
      = (Ok [RV_Text8 [104, 105], RV_Int16 7], s') \<and> mas_get (MemoryId 0 0) s' = Err MA_InvalidAllocationId"
    using reply_round_trip [OF inv, of "[(MemoryId 0 0, RV_Text8 [104, 105]), (MemoryId 9 9, RV_Int16 7)]" "[]"
        "Hint_Multi [State_One RT_Text8, State_Two RT_Bool RT_Int16]" 4]
    by (auto simp: text_ok_def is_float64_def received_def ready_def backing_def backed_def accepts_def next_item_def)
  show "fst (from_binary 4 [] (Hint_List (State_One RT_Float64)) (wire_replies [(MemoryId 9 9, RV_Float64 1)]) mas_new) = Panic"
    using reply_round_trip [OF mem_inv_new, of "[(MemoryId 9 9, RV_Float64 1)]" "[]" "Hint_List (State_One RT_Float64)" 4]
    by (simp add: text_ok_def is_float64_def ready_def backing_def backed_def accepts_def)
qed

text \<open>No \<open>Float64\<close> ever arrives. Its arm cuts four bytes and copies them into an array of eight, so
  a reply holding one panics, whatever the hint.\<close>

theorem float64_reply_panics:
  "fst (from_binary usz held hint (wire_replies [(mid, RV_Float64 x)]) s) = Panic"
proof -
  let ?bin = "wire_reply (mid, RV_Float64 x)"
  have "parse_arm usz held ?bin 1 RT_Float64 s = (Panic, s)"
    by (simp add: wire_reply_def reply_payload_def to_return_value_type_u8_def pure_arm_defs lift_result_run
        slice_def copy_from_slice_def)
  then have "parse_next usz held (parser_new hint ?bin, s) = (Some Panic, parser_new hint ?bin, s)"
    by (simp add: parse_next_def parser_new_def wire_reply_def to_return_value_type_u8_def
        return_type_id_from_u8_def)
  then have "collect_items usz held (parser_new hint ?bin, s) = (Panic, s)"
    by (subst collect_items.simps) (simp add: parser_next_def parser_new_def)
  then show ?thesis
    by (simp add: from_binary_def wire_replies_def bind_def lift_result_run index_at_def slice_def nth_append)
qed

text \<open>Arrays of 16-, 32- and 64-bit elements are cut short. The loop counts bytes but stops at the
  number of elements, so of \<open>n\<close> elements of \<open>w\<close> bytes only the first \<open>\<lceil>n / w\<rceil>\<close> are returned.\<close>

theorem array_replies_are_cut_short:
  assumes "mas_get mid s = Ok h" "ma_cell h \<notin> set held"
  shows "(cell_get (ma_cell h) s = Some (concat (map (le_bytes 2) xs)) \<longrightarrow>
      fst (from_binary usz held (Hint_One (State_One RT_Uint16ArrayBuffer)) (wire_replies [(mid, RV_Uint16Array xs)]) s)
        = Ok [RV_Uint16Array (take ((length xs + 1) div 2) xs)])
    \<and> (cell_get (ma_cell h) s = Some (concat (map (le_bytes 4) ys)) \<longrightarrow>
      fst (from_binary usz held (Hint_One (State_One RT_Int32ArrayBuffer)) (wire_replies [(mid, RV_Int32Array ys)]) s)
        = Ok [RV_Int32Array (take ((length ys + 3) div 4) ys)])
    \<and> (cell_get (ma_cell h) s = Some (concat (map (le_bytes 8) zs)) \<longrightarrow>
      fst (from_binary usz held (Hint_One (State_One RT_Float64ArrayBuffer)) (wire_replies [(mid, RV_Float64Array zs)]) s)
        = Ok [RV_Float64Array (take ((length zs + 7) div 8) zs)])"
proof (intro conjI impI)
  have one: "fst (from_binary usz held (Hint_One (State_One (to_return_value_type v))) (wire_replies [(mid, v)]) s)
      = Ok [received usz v]" if "readable v" "backing v = Some bs" "cell_get (ma_cell h) s = Some bs" for v bs
    using that assms by (subst from_binary_replies) (auto simp: ready_def accepts_def)
  show "cell_get (ma_cell h) s = Some (concat (map (le_bytes 2) xs)) \<Longrightarrow>
      fst (from_binary usz held (Hint_One (State_One RT_Uint16ArrayBuffer)) (wire_replies [(mid, RV_Uint16Array xs)]) s)
        = Ok [RV_Uint16Array (take ((length xs + 1) div 2) xs)]"
    using one [of "RV_Uint16Array xs"] by (simp add: readable_def backing_def received_def arrived_def)
  show "cell_get (ma_cell h) s = Some (concat (map (le_bytes 4) ys)) \<Longrightarrow>
      fst (from_binary usz held (Hint_One (State_One RT_Int32ArrayBuffer)) (wire_replies [(mid, RV_Int32Array ys)]) s)
        = Ok [RV_Int32Array (take ((length ys + 3) div 4) ys)]"
    using one [of "RV_Int32Array ys"] by (simp add: readable_def backing_def received_def arrived_def add.commute)
  show "cell_get (ma_cell h) s = Some (concat (map (le_bytes 8) zs)) \<Longrightarrow>
      fst (from_binary usz held (Hint_One (State_One RT_Float64ArrayBuffer)) (wire_replies [(mid, RV_Float64Array zs)]) s)
        = Ok [RV_Float64Array (take ((length zs + 7) div 8) zs)]"
    using one [of "RV_Float64Array zs"] by (simp add: readable_def backing_def received_def arrived_def add.commute)
qed

theorem array_replies_are_cut_short_witness:
  "fst (from_binary 4 [] (Hint_One (State_One RT_Uint16ArrayBuffer))
      (wire_replies [(MemoryId 0 0, RV_Uint16Array [1, 2, 3, 4])])
      (cell_put 0 (Some [1, 0, 2, 0, 3, 0, 4, 0]) table_of_one)) = Ok [RV_Uint16Array [1, 2]]"
proof -
  let ?s = "cell_put 0 (Some [1, 0, 2, 0, 3, 0, 4, 0]) table_of_one"
  have g: "mas_get (MemoryId 0 0) ?s = Ok (MemoryAllocation 0)" by (simp add: table_of_one_runs)
  have "cell_get 0 ?s = Some [1, 0, 2, 0, 3, 0, 4, 0]"
    by (simp add: table_of_one_def mas_allocate_new mas_new_def as_usize_def isize_max_def)
  moreover have "concat (map (le_bytes 2) [1, 2, 3, 4 :: u16]) = [1, 0, 2, 0, 3, 0, 4, 0]"
    by (simp add: le_bytes_def upt_rec)
  ultimately show ?thesis
    using array_replies_are_cut_short [OF g, of "[]" "[1, 2, 3, 4]"] by simp
qed

text \<open>The low half of an \<open>i128\<close> is sign-extended over the high half, so a value with bit 63 set
  arrives with its upper 64 bits all ones.\<close>

theorem int128_reply_loses_high_half:
  assumes "bit x 63"
  shows "from_binary usz held (Hint_One (State_One RT_Int128)) (wire_replies [(mid, RV_Int128 x)]) s
    = (Ok [RV_Int128 (x OR push_bit 64 (mask 64))], s)"
proof -
  have "from_binary usz held (Hint_One (State_One RT_Int128)) (wire_replies [(mid, RV_Int128 x)]) s
      = (Ok (map (received usz \<circ> snd) [(mid, RV_Int128 x)]), foldl consume s [(mid, RV_Int128 x)])"
    by (rule from_binary_replies) (simp_all add: readable_def ready_def backing_def accepts_def)
  then show ?thesis using assms by (simp add: received_def consume_def backing_def)
qed

theorem int128_reply_loses_high_half_witness:
  "from_binary 4 [] (Hint_One (State_One RT_Int128)) (wire_replies [(MemoryId 0 0, RV_Int128 0x8000000000000000)]) mas_new
    = (Ok [RV_Int128 0xFFFFFFFFFFFFFFFF8000000000000000], mas_new)"
proof -
  have "bit (0x8000000000000000 :: i128) 63" by simp
  moreover have "(0x8000000000000000 :: i128) OR push_bit 64 (mask 64) = 0xFFFFFFFFFFFFFFFF8000000000000000"
    by (simp add: mask_eq_exp_minus_1)
  ultimately show ?thesis using int128_reply_loses_high_half [of "0x8000000000000000" 4 "[]" "MemoryId 0 0" mas_new] by simp
qed

text \<open>A value the hint does not admit is refused. After any number of admitted values, the first of
  another type ends the parse with \<open>NotMatchingTypeHint\<close>, naming the state it was checked against and its
  type, and nothing after it is read; its own allocation is already consumed.\<close>

theorem mismatched_reply_is_refused:
  assumes "ready_all held s (rs @ [r])" "accepts_all hint 0 (map snd rs)"
    and "hint_state hint (length rs) = Some st" "to_return_value_type (snd r) \<notin> set (state_types st)"
  shows "from_binary usz held hint (wire_replies (rs @ r # rest)) s
    = (Err (BR_NotMatchingTypeHint st (to_return_value_type (snd r))), consume (foldl consume s rs) r)"
proof -
  have "\<not> accepts hint (length rs) (to_return_value_type (snd r))"
    using assms(3,4) by (auto simp: accepts_def hint_state_def split: return_type_hints.splits if_splits)
  from from_binary_check [OF assms(1,2) this] show ?thesis using assms(3) by simp
qed

theorem mismatched_reply_is_refused_witness:
  "from_binary 4 [] (Hint_Multi [State_One RT_Bool, State_Two RT_Int16 RT_Text8])
      (wire_replies [(MemoryId 0 0, RV_Bool True), (MemoryId 0 0, RV_Int8 3), (MemoryId 0 0, RV_Bool True)]) mas_new
    = (Err (BR_NotMatchingTypeHint (State_Two RT_Int16 RT_Text8) RT_Int8), mas_new)"
  using mismatched_reply_is_refused [of "[]" mas_new "[(MemoryId 0 0, RV_Bool True)]" "(MemoryId 0 0, RV_Int8 3)"
      "Hint_Multi [State_One RT_Bool, State_Two RT_Int16 RT_Text8]" "State_Two RT_Int16 RT_Text8"
      4 "[(MemoryId 0 0, RV_Bool True)]"]
  by (simp add: readable_def ready_def backing_def consume_def accepts_def hint_state_def)

text \<open>A value beyond the states of a \<open>Multi\<close> hint, and any value under a \<open>None\<close> hint, is not an error
  but a panic: \<open>next\<close> indexes the states with the item number and never asks whether it is in range.\<close>

theorem surplus_reply_panics:
  assumes "ready_all held s (rs @ [r])" "accepts_all hint 0 (map snd rs)" "hint_state hint (length rs) = None"
  shows "fst (from_binary usz held hint (wire_replies (rs @ r # rest)) s) = Panic"
proof -
  have "\<not> accepts hint (length rs) (to_return_value_type (snd r))"
    using assms(3) by (auto simp: accepts_def hint_state_def split: return_type_hints.splits if_splits)
  from from_binary_check [OF assms(1,2) this] show ?thesis using assms(3) by simp
qed

theorem surplus_reply_panics_witness:
  "fst (from_binary 4 [] (Hint_Multi [State_One RT_Bool])
      (wire_replies [(MemoryId 0 0, RV_Bool True), (MemoryId 0 0, RV_Bool False)]) mas_new) = Panic"
  using surplus_reply_panics [of "[]" mas_new "[(MemoryId 0 0, RV_Bool True)]" "(MemoryId 0 0, RV_Bool False)"
      "Hint_Multi [State_One RT_Bool]" 4 "[]"]
  by (simp add: readable_def ready_def backing_def accepts_def hint_state_def)

text \<open>A reply without its markers is refused before anything is parsed; the empty buffer, whose first
  byte is read unguarded, panics.\<close>

theorem reply_markers_checked:
  "(b \<noteq> return_value_marker_to_u8 RVM_Begin \<longrightarrow>
      from_binary usz held hint (b # bs) s = (Err (BR_WrongStarterCode b), s))
   \<and> (b = return_value_marker_to_u8 RVM_Begin \<and> bs \<noteq> [] \<and> last bs \<noteq> return_value_marker_to_u8 RVM_End \<longrightarrow>
      from_binary usz held hint (b # bs) s = (Err (BR_WrongEndingCode (last bs)), s))
   \<and> from_binary usz held hint [] s = (Panic, s)"
  by (auto simp: from_binary_def bind_def lift_result_run fail_run index_at_def last_conv_nth)

theorem reply_markers_checked_witness:
  "from_binary 4 [] Hint_None [9, 9] mas_new = (Err (BR_WrongStarterCode 9), mas_new)
   \<and> from_binary 4 [] Hint_None [return_value_marker_to_u8 RVM_Begin, 9] mas_new = (Err (BR_WrongEndingCode 9), mas_new)"
  using reply_markers_checked [of 9 4 "[]" Hint_None "[9]" mas_new]
    reply_markers_checked [of "return_value_marker_to_u8 RVM_Begin" 4 "[]" Hint_None "[9]" mas_new]
  by (simp add: return_value_marker_to_u8_def)

end
