(* ===== verification/Callbacks.thy ===== *)
theory Callbacks
  imports Errors Handles "HOL-Library.AList"
begin

text \<open>
  What the guest keeps for the host to call back: \<open>foundation_wasm/src/frames.rs\<close>,
  \<open>intervals.rs\<close>, \<open>schedule.rs\<close> and \<open>registry.rs\<close>.

  A boxed closure is a value of type \<open>'cb\<close>; what it does when it is called is an argument of the
  operations that call one (\<open>tick\<close>, \<open>perform\<close>, \<open>receive\<close>), a computation over any state \<open>'s\<close>
  that may also never return. A \<open>BTreeMap\<close> is an association list with distinct keys: the code
  inserts, removes, looks up and counts, and never iterates. The \<open>Mutex\<close> around a closure is only
  taken while the lock of its registry is held, so it never blocks and has no counterpart.
\<close>

section \<open>TickState\<close>

datatype tick_state = REQUEUE | STOP

definition tick_state_into_u8 :: "tick_state \<Rightarrow> u8" where
  "tick_state_into_u8 st = (case st of REQUEUE \<Rightarrow> 1 | STOP \<Rightarrow> 2)"

definition tick_state_from_u8 :: "u8 \<Rightarrow> ('e, tick_state) result" where
  "tick_state_from_u8 value = (if value = 1 then Ok REQUEUE else if value = 2 then Ok STOP else Panic)"

section \<open>Callback lists\<close>

text \<open>The two loops of \<open>call\<close>: run every closure, collecting the positions of those that want to
  run again, then swap these to the front.\<close>

fun tick_items ::
    "('cb \<Rightarrow> ('s, 'e, tick_state) exec) \<Rightarrow> nat \<Rightarrow> 'cb option list \<Rightarrow> ('s, 'e, nat list) exec" where
  "tick_items tick index [] = ret []"
| "tick_items tick index (None # items) = tick_items tick (index + 1) items"
| "tick_items tick index (Some elem # items) =
     bind (tick elem) (\<lambda>st.
     bind (tick_items tick (index + 1) items) (\<lambda>to_keep.
       ret (if st = REQUEUE then index # to_keep else to_keep)))"

fun swap_to_front :: "nat \<Rightarrow> nat list \<Rightarrow> 'a list \<Rightarrow> nat \<times> 'a list" where
  "swap_to_front place_index [] items = (place_index, items)"
| "swap_to_front place_index (index # to_keep) items =
     swap_to_front (place_index + 1) to_keep
       (items[place_index := items ! index, index := items ! place_index])"

record 'cb frame_callback_list =
  fl_items :: "'cb option list"

definition frame_list_new :: "'cb frame_callback_list" where
  "frame_list_new = \<lparr>fl_items = []\<rparr>"

definition frame_list_len :: "'cb frame_callback_list \<Rightarrow> nat" where
  "frame_list_len l = length (fl_items l)"

definition frame_list_is_empty :: "'cb frame_callback_list \<Rightarrow> bool" where
  "frame_list_is_empty l \<longleftrightarrow> fl_items l = []"

definition frame_list_add :: "'cb \<Rightarrow> 'cb frame_callback_list \<Rightarrow> 'cb frame_callback_list" where
  "frame_list_add handler l = l\<lparr>fl_items := fl_items l @ [Some handler]\<rparr>"

definition frame_list_call ::
    "('cb \<Rightarrow> f64 \<Rightarrow> ('s, 'e, tick_state) exec) \<Rightarrow> f64 \<Rightarrow> 'cb frame_callback_list
      \<Rightarrow> ('s, 'e, tick_state \<times> 'cb frame_callback_list) exec" where
  "frame_list_call tick value l =
     bind (tick_items (\<lambda>elem. tick elem value) 0 (fl_items l)) (\<lambda>to_keep.
       if to_keep = [] then ret (STOP, l\<lparr>fl_items := []\<rparr>)
       else
         (case swap_to_front 0 to_keep (fl_items l) of
            (place_index, items) \<Rightarrow> ret (REQUEUE, l\<lparr>fl_items := take place_index items\<rparr>)))"

record 'cb interval_callback_list =
  il_items :: "'cb option list"

definition interval_list_new :: "'cb interval_callback_list" where
  "interval_list_new = \<lparr>il_items = []\<rparr>"

definition interval_list_len :: "'cb interval_callback_list \<Rightarrow> nat" where
  "interval_list_len l = length (il_items l)"

definition interval_list_is_empty :: "'cb interval_callback_list \<Rightarrow> bool" where
  "interval_list_is_empty l \<longleftrightarrow> il_items l = []"

definition interval_list_add :: "'cb \<Rightarrow> 'cb interval_callback_list \<Rightarrow> 'cb interval_callback_list" where
  "interval_list_add handler l = l\<lparr>il_items := il_items l @ [Some handler]\<rparr>"

definition interval_list_call ::
    "('cb \<Rightarrow> ('s, 'e, tick_state) exec) \<Rightarrow> 'cb interval_callback_list
      \<Rightarrow> ('s, 'e, tick_state \<times> 'cb interval_callback_list) exec" where
  "interval_list_call perform l =
     bind (tick_items perform 0 (il_items l)) (\<lambda>to_keep.
       if to_keep = [] then ret (STOP, l\<lparr>il_items := []\<rparr>)
       else
         (case swap_to_front 0 to_keep (il_items l) of
            (place_index, items) \<Rightarrow> ret (REQUEUE, l\<lparr>il_items := take place_index items\<rparr>)))"

section \<open>Registries\<close>

text \<open>The three registries are the same structure: a map from pointers and a counter. Adding counts
  first, so the first pointer is 1; the counter wraps as the release profile does.\<close>

record 'v registry =
  tree :: "(internal_pointer \<times> 'v) list"
  id_counter :: u64

definition registry_new :: "'v registry" where
  "registry_new = \<lparr>tree = [], id_counter = 0\<rparr>"

definition tree_get :: "internal_pointer \<Rightarrow> 'v registry \<Rightarrow> 'v option" where
  "tree_get ptr r = map_of (tree r) ptr"

definition tree_insert :: "'v \<Rightarrow> 'v registry \<Rightarrow> internal_pointer \<times> 'v registry" where
  "tree_insert v r =
     (let n = id_counter r + 1
      in (InternalPointer n, r\<lparr>id_counter := n, tree := AList.update (InternalPointer n) v (tree r)\<rparr>))"

definition tree_remove :: "internal_pointer \<Rightarrow> 'v registry \<Rightarrow> 'v option \<times> 'v registry" where
  "tree_remove ptr r = (map_of (tree r) ptr, r\<lparr>tree := AList.delete ptr (tree r)\<rparr>)"

type_synonym 'cb internal_reference_registry = "(return_type_hints \<times> 'cb) registry"

definition internal_registry_add ::
    "return_type_hints \<Rightarrow> 'cb \<Rightarrow> 'cb internal_reference_registry
      \<Rightarrow> internal_pointer \<times> 'cb internal_reference_registry" where
  "internal_registry_add returns callback r = tree_insert (returns, callback) r"

definition internal_registry_delete ::
    "internal_pointer \<Rightarrow> 'cb internal_reference_registry
      \<Rightarrow> return_type_hints option \<times> 'cb internal_reference_registry" where
  "internal_registry_delete ptr r = (case tree_remove ptr r of (v, r') \<Rightarrow> (map_option fst v, r'))"

definition internal_registry_get_type ::
    "internal_pointer \<Rightarrow> 'cb internal_reference_registry \<Rightarrow> return_type_hints option" where
  "internal_registry_get_type ptr r = map_option fst (tree_get ptr r)"

definition internal_registry_call ::
    "('cb \<Rightarrow> 'v \<Rightarrow> ('s, 'e, unit) exec) \<Rightarrow> internal_pointer \<Rightarrow> 'v \<Rightarrow> 'cb internal_reference_registry
      \<Rightarrow> ('s, 'e, unit option) exec" where
  "internal_registry_call receive ptr values r =
     (case tree_get ptr r of
        Some (_, callback) \<Rightarrow> bind (receive callback values) (\<lambda>_. ret (Some ()))
      | None \<Rightarrow> ret None)"

type_synonym 'cb schedule_registry = "'cb registry"

definition schedule_registry_add ::
    "'cb \<Rightarrow> 'cb schedule_registry \<Rightarrow> internal_pointer \<times> 'cb schedule_registry" where
  "schedule_registry_add callback r = tree_insert callback r"

definition schedule_registry_delete ::
    "internal_pointer \<Rightarrow> 'cb schedule_registry \<Rightarrow> unit option \<times> 'cb schedule_registry" where
  "schedule_registry_delete ptr r = (case tree_remove ptr r of (v, r') \<Rightarrow> (map_option (\<lambda>_. ()) v, r'))"

definition schedule_registry_call ::
    "('cb \<Rightarrow> ('s, 'e, unit) exec) \<Rightarrow> internal_pointer \<Rightarrow> 'cb schedule_registry \<Rightarrow> ('s, 'e, unit option) exec" where
  "schedule_registry_call perform ptr r =
     (case tree_get ptr r of
        Some callback \<Rightarrow> bind (perform callback) (\<lambda>_. ret (Some ()))
      | None \<Rightarrow> ret None)"

definition schedule_registry_len :: "'cb schedule_registry \<Rightarrow> nat" where
  "schedule_registry_len r = length (tree r)"

definition schedule_registry_is_empty :: "'cb schedule_registry \<Rightarrow> bool" where
  "schedule_registry_is_empty r \<longleftrightarrow> tree r = []"

type_synonym 'cb interval_registry = "'cb registry"

definition interval_registry_add ::
    "'cb \<Rightarrow> 'cb interval_registry \<Rightarrow> internal_pointer \<times> 'cb interval_registry" where
  "interval_registry_add callback r = tree_insert callback r"

definition interval_registry_delete ::
    "internal_pointer \<Rightarrow> 'cb interval_registry \<Rightarrow> unit option \<times> 'cb interval_registry" where
  "interval_registry_delete ptr r = (case tree_remove ptr r of (v, r') \<Rightarrow> (map_option (\<lambda>_. ()) v, r'))"

definition interval_registry_call ::
    "('cb \<Rightarrow> ('s, 'e, tick_state) exec) \<Rightarrow> internal_pointer \<Rightarrow> 'cb interval_registry
      \<Rightarrow> ('s, 'e, tick_state option) exec" where
  "interval_registry_call perform ptr r =
     (case tree_get ptr r of
        Some callback \<Rightarrow> bind (perform callback) (\<lambda>st. ret (Some st))
      | None \<Rightarrow> ret None)"

definition interval_registry_len :: "'cb interval_registry \<Rightarrow> nat" where
  "interval_registry_len r = length (tree r)"

definition interval_registry_is_empty :: "'cb interval_registry \<Rightarrow> bool" where
  "interval_registry_is_empty r \<longleftrightarrow> tree r = []"

section \<open>Compaction\<close>

text \<open>What \<open>call\<close> promises: every closure runs once, in the order they were added, and the list
  becomes those that asked to run again, in that order.\<close>

fun requeued :: "('cb \<Rightarrow> ('s, 'e, tick_state) exec) \<Rightarrow> 'cb option list \<Rightarrow> ('s, 'e, 'cb option list) exec" where
  "requeued tick [] = ret []"
| "requeued tick (None # items) = requeued tick items"
| "requeued tick (Some elem # items) =
     bind (tick elem) (\<lambda>st.
     bind (requeued tick items) (\<lambda>kept.
       ret (if st = REQUEUE then Some elem # kept else kept)))"

lemma nth_beyond_swap:
  "p \<le> i \<Longrightarrow> i < j \<Longrightarrow> xs[p := a, i := b] ! j = xs ! j"
  by simp

lemma swap_to_front_keeps:
  assumes "sorted_wrt (<) ks" "\<forall>k \<in> set ks. p \<le> k \<and> k < length xs"
  shows "fst (swap_to_front p ks xs) = p + length ks
    \<and> take (p + length ks) (snd (swap_to_front p ks xs)) = take p xs @ map ((!) xs) ks"
  using assms
proof (induction ks arbitrary: p xs)
  case Nil
  then show ?case by simp
next
  case (Cons k ks)
  let ?xs = "xs[p := xs ! k, k := xs ! p]"
  have k: "p \<le> k" "k < length xs" and gt: "\<forall>j \<in> set ks. k < j \<and> j < length xs"
    using Cons.prems by auto
  then have "\<forall>j \<in> set ks. p + 1 \<le> j \<and> j < length ?xs" by auto
  moreover have "sorted_wrt (<) ks" using Cons.prems(1) by simp
  ultimately have IH: "fst (swap_to_front (p + 1) ks ?xs) = p + 1 + length ks"
    "take (p + 1 + length ks) (snd (swap_to_front (p + 1) ks ?xs)) = take (p + 1) ?xs @ map ((!) ?xs) ks"
    using Cons.IH [of "p + 1" ?xs] by simp_all
  have "take (p + 1) ?xs = take p xs @ [xs ! k]"
    using k by (cases "k = p") (simp_all add: take_Suc_conv_app_nth)
  moreover have "map ((!) ?xs) ks = map ((!) xs) ks" using k gt by auto
  ultimately show ?case using IH by simp
qed

lemma tick_items_requeued:
  "tick_items tick i items s = (Ok ks, s') \<Longrightarrow>
     sorted_wrt (<) ks \<and> (\<forall>k \<in> set ks. i \<le> k \<and> k < i + length items)
     \<and> requeued tick items s = (Ok (map (\<lambda>k. items ! (k - i)) ks), s')"
proof (induction tick i items arbitrary: s ks rule: tick_items.induct)
  case (1 tick i)
  then show ?case by (auto simp: ret_run)
next
  case (2 tick i items)
  then have IH: "sorted_wrt (<) ks" "\<forall>k \<in> set ks. i + 1 \<le> k \<and> k < i + 1 + length items"
    "requeued tick items s = (Ok (map (\<lambda>k. items ! (k - (i + 1))) ks), s')" by auto
  moreover have "map (\<lambda>k. (None # items) ! (k - i)) ks = map (\<lambda>k. items ! (k - (i + 1))) ks"
    using IH(2) by (auto simp: nth_Cons')
  ultimately show ?case by (auto dest: bspec [where x = i])
next
  case (3 tick i cb items)
  from "3.prems" obtain st s1 js where t: "tick cb s = (Ok st, s1)"
    and j: "tick_items tick (i + 1) items s1 = (Ok js, s')" and ks: "ks = (if st = REQUEUE then i # js else js)"
    by (auto simp: bind_eq_Ok ret_run)
  from "3.IH" [OF j] have IH: "sorted_wrt (<) js" "\<forall>k \<in> set js. i + 1 \<le> k \<and> k < i + 1 + length items"
    "requeued tick items s1 = (Ok (map (\<lambda>k. items ! (k - (i + 1))) js), s')" by auto
  moreover have "map (\<lambda>k. (Some cb # items) ! (k - i)) js = map (\<lambda>k. items ! (k - (i + 1))) js"
    using IH(2) by (auto simp: nth_Cons')
  ultimately show ?case by (auto simp: ks bind_def t ret_run)
qed

lemma tick_items_stuck:
  "(case tick_items tick i items s of (Ok _, _) \<Rightarrow> True | (Err e, s') \<Rightarrow> requeued tick items s = (Err e, s')
    | (Panic, s') \<Rightarrow> requeued tick items s = (Panic, s'))"
proof (induction tick i items arbitrary: s rule: tick_items.induct)
  case (2 tick i items)
  then show ?case by (simp only: tick_items.simps requeued.simps)
next
  case (3 tick i cb items)
  show ?case
  proof (cases "tick cb s")
    case (Pair r s1)
    then show ?thesis
      using "3.IH" [of s1] by (cases r) (auto simp: bind_def ret_run split: prod.splits result.splits)
  qed
qed (auto simp: ret_run)

lemma compaction:
  "bind (tick_items tick 0 items) (\<lambda>ks.
     if ks = [] then ret (STOP, f []) else (case swap_to_front 0 ks items of (n, xs) \<Rightarrow> ret (REQUEUE, f (take n xs)))) s
   = bind (requeued tick items) (\<lambda>kept. ret (if kept = [] then STOP else REQUEUE, f kept)) s"
proof (cases "tick_items tick 0 items s")
  case (Pair r s')
  show ?thesis
  proof (cases r)
    case (Ok ks)
    note q = tick_items_requeued [OF Pair [unfolded Ok]]
    have "fst (swap_to_front 0 ks items) = length ks"
      "take (length ks) (snd (swap_to_front 0 ks items)) = map ((!) items) ks"
      using swap_to_front_keeps [of ks 0 items] q by auto
    then show ?thesis using q by (auto simp: bind_def Pair Ok ret_run split: prod.split)
  next
    case (Err e)
    then show ?thesis using Pair tick_items_stuck [where tick = tick and i = 0 and items = items and s = s] by (simp add: bind_def)
  next
    case Panic
    then show ?thesis using Pair tick_items_stuck [where tick = tick and i = 0 and items = items and s = s] by (simp add: bind_def)
  qed
qed

section \<open>Pointers\<close>

text \<open>Every registered pointer has been counted, and none is registered twice.\<close>

definition reg_inv :: "'v registry \<Rightarrow> bool" where
  "reg_inv r \<longleftrightarrow>
     distinct (map fst (tree r)) \<and> (\<forall>ptr \<in> fst ` set (tree r). 0 < ip_value ptr \<and> ip_value ptr \<le> id_counter r)"

definition reg_resolve :: "'v registry \<Rightarrow> internal_pointer \<Rightarrow> 'v option" where
  "reg_resolve r ptr = tree_get ptr r"

text \<open>An addition that does not wrap the counter.\<close>

definition reg_alloc :: "'v \<Rightarrow> 'v registry \<Rightarrow> (internal_pointer \<times> 'v registry) option" where
  "reg_alloc v r = (if id_counter r = - 1 then None else Some (tree_insert v r))"

definition reg_release :: "internal_pointer \<Rightarrow> 'v registry \<Rightarrow> 'v registry" where
  "reg_release ptr r = snd (tree_remove ptr r)"

definition reg_slot :: "internal_pointer \<Rightarrow> nat" where
  "reg_slot ptr = unat (ip_value ptr)"

lemma counter_next:
  assumes "(c :: u64) \<noteq> - 1"
  shows "c < c + 1 \<and> 0 < c + 1"
proof -
  have "unat c \<noteq> unat (- 1 :: u64)" using assms by (simp add: word_unat_eq_iff)
  moreover have "unat (- 1 :: u64) = 2 ^ 64 - 1" by (simp add: unsigned_minus_1_eq_mask mask_eq_exp_minus_1)
  moreover have "unat c < 2 ^ 64" using unsigned_less [of c] by simp
  ultimately have "unat c + 1 < 2 ^ 64" by linarith
  then have "unat (c + 1) = unat c + 1" by (simp add: unat_word_ariths)
  then show ?thesis by (simp add: word_less_nat_alt)
qed

lemma tree_get_None: "tree_get ptr r = None \<longleftrightarrow> ptr \<notin> fst ` set (tree r)"
  by (simp add: tree_get_def map_of_eq_None_iff)

lemma reg_inv_beyond: "reg_inv r \<Longrightarrow> id_counter r < ip_value ptr \<Longrightarrow> tree_get ptr r = None"
  by (auto simp: reg_inv_def tree_get_None)

lemma reg_inv_new: "reg_inv registry_new"
  by (simp add: reg_inv_def registry_new_def)

lemma tree_insert_get:
  "tree_insert v r = (ptr, r') \<Longrightarrow> tree_get q r' = (if q = ptr then Some v else tree_get q r)"
  by (auto simp: tree_insert_def tree_get_def Let_def update_conv')

lemma tree_remove_get:
  "tree_remove ptr r = (v, r') \<Longrightarrow> tree_get q r' = (if q = ptr then None else tree_get q r)"
  by (auto simp: tree_remove_def tree_get_def delete_conv')

lemma tree_insert_inv:
  assumes "reg_inv r" "id_counter r \<noteq> - 1" "tree_insert v r = (ptr, r')"
  shows "reg_inv r' \<and> id_counter r < ip_value ptr \<and> id_counter r' = ip_value ptr"
proof -
  note n = counter_next [OF assms(2)]
  have r': "ptr = InternalPointer (id_counter r + 1)" "id_counter r' = id_counter r + 1"
    "tree r' = AList.update ptr v (tree r)"
    using assms(3) by (auto simp: tree_insert_def Let_def)
  then have "fst ` set (tree r') = insert ptr (fst ` set (tree r))" by (simp add: dom_update)
  moreover have "distinct (map fst (tree r'))"
    using assms(1) r'(3) by (simp add: reg_inv_def distinct_update)
  ultimately show ?thesis
    using assms(1) n r'(1,2) by (auto simp: reg_inv_def)
qed

lemma tree_remove_inv:
  assumes "reg_inv r" "tree_remove ptr r = (v, r')"
  shows "reg_inv r' \<and> id_counter r' = id_counter r"
proof -
  have "set (tree r') \<subseteq> set (tree r)"
    using assms(2) by (auto simp: tree_remove_def AList.delete_eq)
  moreover have "distinct (map fst (tree r'))"
    using assms by (auto simp: tree_remove_def reg_inv_def distinct_delete)
  moreover have "id_counter r' = id_counter r" using assms(2) by (auto simp: tree_remove_def)
  ultimately show ?thesis using assms(1) by (auto simp: reg_inv_def)
qed

interpretation reg: handle_store reg_inv reg_resolve reg_alloc reg_release reg_slot
proof
  fix r r' :: "'v registry" and v k j
  assume inv: "reg_inv r" and "reg_alloc v r = Some (k, r')"
  then have run: "id_counter r \<noteq> - 1" "tree_insert v r = (k, r')" by (auto simp: reg_alloc_def split: if_splits)
  note i = tree_insert_inv [OF inv run]
  show "reg_inv r'" using i by simp
  show "reg_resolve r k = None" using i reg_inv_beyond [OF inv] by (simp add: reg_resolve_def)
  show "\<exists>h. reg_resolve r' k = Some h" using tree_insert_get [OF run(2)] by (simp add: reg_resolve_def)
  show "j \<noteq> k \<Longrightarrow> reg_resolve r' j = reg_resolve r j"
    using tree_insert_get [OF run(2)] by (simp add: reg_resolve_def)
next
  fix r :: "'v registry" and k j
  obtain v r' where rm: "tree_remove k r = (v, r')" by (cases "tree_remove k r")
  assume inv: "reg_inv r"
  show "reg_inv (reg_release k r)" using tree_remove_inv [OF inv rm] by (simp add: reg_release_def rm)
  show "reg_resolve (reg_release k r) k = None"
    using tree_remove_get [OF rm] by (simp add: reg_release_def reg_resolve_def rm)
  show "reg_slot j \<noteq> reg_slot k \<Longrightarrow> reg_resolve (reg_release k r) j = reg_resolve r j"
    using tree_remove_get [OF rm, of j] by (auto simp: reg_release_def reg_resolve_def rm)
next
  fix j k
  show "reg_slot j = reg_slot k \<Longrightarrow> j = k"
    by (simp add: reg_slot_def internal_pointer.expand unsigned_word_eqI)
qed

section \<open>Histories\<close>

inductive registry_step :: "'v registry \<Rightarrow> 'v registry \<Rightarrow> bool" where
  step_add: "id_counter r \<noteq> - 1 \<Longrightarrow> tree_insert v r = (ptr, r') \<Longrightarrow> registry_step r r'"
| step_delete: "tree_remove ptr r = (v, r') \<Longrightarrow> registry_step r r'"

lemma registry_reachable_inv: "registry_step\<^sup>*\<^sup>* registry_new r \<Longrightarrow> reg_inv r"
  by (induction rule: rtranclp_induct)
    (auto simp: reg_inv_new elim!: registry_step.cases dest: tree_insert_inv tree_remove_inv)

text \<open>A pointer that was counted and is not registered stays so.\<close>

lemma registry_dead_stays:
  assumes "registry_step\<^sup>*\<^sup>* r r'" "reg_inv r" "ip_value ptr \<le> id_counter r" "tree_get ptr r = None"
  shows "reg_inv r' \<and> ip_value ptr \<le> id_counter r' \<and> tree_get ptr r' = None"
  using assms(1)
proof (induction rule: rtranclp_induct)
  case base
  then show ?case using assms by simp
next
  case (step r1 r2)
  from step(2) show ?case
  proof cases
    case (step_add v q)
    then show ?thesis using step.IH tree_insert_inv [OF _ step_add] by (auto simp: tree_insert_get)
  next
    case (step_delete q v)
    then show ?thesis using step.IH tree_remove_inv by (auto simp: tree_remove_get)
  qed
qed

section \<open>Properties\<close>

text \<open>C37: one \<open>call\<close> of a callback list, with its in-place swaps and truncation, is the promised
  compaction: every closure runs exactly once in the order of registration, the list becomes those that
  asked to be requeued in the same order, and \<open>STOP\<close> is returned exactly when none did. When a closure
  does not return, neither does the call.\<close>

theorem callback_list_call_refines:
  "frame_list_call tick value l s =
     bind (requeued (\<lambda>elem. tick elem value) (fl_items l))
       (\<lambda>kept. ret (if kept = [] then STOP else REQUEUE, l\<lparr>fl_items := kept\<rparr>)) s
   \<and> interval_list_call perform k s =
     bind (requeued perform (il_items k))
       (\<lambda>kept. ret (if kept = [] then STOP else REQUEUE, k\<lparr>il_items := kept\<rparr>)) s"
  unfolding frame_list_call_def interval_list_call_def
  by (rule conjI; rule compaction)

text \<open>A callback pointer is never reused. In any history of a registry in which the counter does not
  wrap, a pointer that was deleted is unknown from then on, whatever is registered or deleted later:
  it has no hint, and calling it runs nothing.\<close>

theorem deleted_callback_stays_dead:
  assumes "registry_step\<^sup>*\<^sup>* registry_new r" "internal_registry_delete ptr r = (Some hint, r1)"
    and "registry_step\<^sup>*\<^sup>* r1 r2"
  shows "internal_registry_get_type ptr r2 = None \<and> internal_registry_call receive ptr values r2 s = (Ok None, s)"
proof -
  note inv = registry_reachable_inv [OF assms(1)]
  obtain v where rm: "tree_remove ptr r = (Some v, r1)"
    using assms(2) by (auto simp: internal_registry_delete_def split: prod.splits)
  then have "tree_get ptr r = Some v" by (simp add: tree_remove_def tree_get_def)
  then have "ip_value ptr \<le> id_counter r" using reg_inv_beyond [OF inv, of ptr] by force
  moreover have "reg_inv r1" "id_counter r1 = id_counter r" using tree_remove_inv [OF inv rm] by simp_all
  moreover have "tree_get ptr r1 = None" using tree_remove_get [OF rm] by simp
  ultimately have "tree_get ptr r2 = None" using registry_dead_stays [OF assms(3)] by simp
  then show ?thesis by (simp add: internal_registry_get_type_def internal_registry_call_def ret_run)
qed

theorem deleted_callback_stays_dead_witness:
  "internal_registry_get_type (InternalPointer 1)
     (snd (internal_registry_add Hint_None (7 :: nat)
        (snd (internal_registry_delete (InternalPointer 1)
          (snd (internal_registry_add (Hint_One (State_One RT_Bool)) 5 registry_new)))))) = None"
proof -
  define r where "r = snd (internal_registry_add (Hint_One (State_One RT_Bool)) (5 :: nat) registry_new)"
  define r1 where "r1 = snd (internal_registry_delete (InternalPointer 1) r)"
  define r2 where "r2 = snd (internal_registry_add Hint_None 7 r1)"
  have "registry_step registry_new r"
    by (rule step_add [of _ "(Hint_One (State_One RT_Bool), 5)" "InternalPointer 1"])
      (simp_all add: r_def internal_registry_add_def tree_insert_def registry_new_def)
  moreover have "internal_registry_delete (InternalPointer 1) r = (Some (Hint_One (State_One RT_Bool)), r1)"
    by (simp add: r1_def r_def internal_registry_add_def internal_registry_delete_def tree_insert_def
        tree_remove_def registry_new_def)
  moreover have "registry_step r1 r2"
    by (rule step_add [of _ "(Hint_None, 7)" "InternalPointer 2"])
      (simp_all add: r2_def r1_def r_def internal_registry_add_def internal_registry_delete_def tree_insert_def
        tree_remove_def registry_new_def)
  ultimately have "internal_registry_get_type (InternalPointer 1) r2 = None"
    using deleted_callback_stays_dead [OF r_into_rtranclp _ r_into_rtranclp] by metis
  then show ?thesis by (simp only: r_def r1_def r2_def)
qed

text \<open>A timer runs while it is registered. \<open>add\<close> gives a pointer that was unknown; calling it
  performs exactly the closure that was added; after \<open>delete\<close>, which succeeds, calling it performs
  nothing; and no other pointer is touched by either.\<close>

theorem timer_lifecycle:
  assumes "registry_step\<^sup>*\<^sup>* registry_new r" "id_counter r \<noteq> - 1"
    and "schedule_registry_add callback r = (ptr, r1)" "schedule_registry_delete ptr r1 = (d, r2)"
  shows "schedule_registry_call perform ptr r s = (Ok None, s)
    \<and> schedule_registry_call perform ptr r1 s = bind (perform callback) (\<lambda>_. ret (Some ())) s
    \<and> d = Some () \<and> schedule_registry_call perform ptr r2 s = (Ok None, s)
    \<and> (\<forall>q. q = ptr \<or> schedule_registry_call perform q r1 s = schedule_registry_call perform q r s
             \<and> schedule_registry_call perform q r2 s = schedule_registry_call perform q r s)"
proof -
  have al: "reg_alloc callback r = Some (ptr, r1)"
    using assms(2,3) by (simp add: reg_alloc_def schedule_registry_add_def)
  obtain v where rm: "tree_remove ptr r1 = (v, r2)"
    using assms(4) by (auto simp: schedule_registry_delete_def split: prod.splits)
  have "tree_get ptr r = None"
    using reg.alloc_fresh [OF registry_reachable_inv [OF assms(1)] al] by (simp add: reg_resolve_def)
  moreover have in1: "tree_get q r1 = (if q = ptr then Some callback else tree_get q r)" for q
    using assms(3) tree_insert_get [of callback r ptr r1 q] by (simp add: schedule_registry_add_def)
  moreover have "tree_get q r2 = (if q = ptr then None else tree_get q r1)" for q
    by (rule tree_remove_get [OF rm])
  moreover have "v = Some callback" using rm in1 [of ptr] by (simp add: tree_remove_def tree_get_def)
  ultimately show ?thesis
    using assms(4) rm by (simp add: schedule_registry_call_def schedule_registry_delete_def ret_run)
qed

theorem timer_lifecycle_witness:
  "schedule_registry_add (5 :: nat) registry_new = (InternalPointer 1, \<lparr>tree = [(InternalPointer 1, 5)], id_counter = 1\<rparr>)
   \<and> schedule_registry_call (\<lambda>cb log. (Ok () :: (unit, unit) result, cb # log)) (InternalPointer 1)
       \<lparr>tree = [(InternalPointer 1, 5)], id_counter = 1\<rparr> [] = (Ok (Some ()), [5 :: nat])"
proof -
  have add: "schedule_registry_add (5 :: nat) registry_new = (InternalPointer 1, \<lparr>tree = [(InternalPointer 1, 5)], id_counter = 1\<rparr>)"
    by (simp add: schedule_registry_add_def tree_insert_def registry_new_def)
  obtain d r2 where "schedule_registry_delete (InternalPointer 1) \<lparr>tree = [(InternalPointer 1, 5 :: nat)], id_counter = 1\<rparr> = (d, r2)"
    by (cases "schedule_registry_delete (InternalPointer 1) \<lparr>tree = [(InternalPointer 1, 5 :: nat)], id_counter = 1\<rparr>")
  from timer_lifecycle [OF rtranclp.rtrancl_refl _ add this, of "\<lambda>cb log. (Ok () :: (unit, unit) result, cb # log)" "[]"]
  show ?thesis using add by (simp add: registry_new_def bind_def ret_run)
qed

end
