(* ===== verification/Runtime.thy ===== *)
theory Runtime
  imports Batch Replies Callbacks
begin

text \<open>
  The guest runtime: \<open>internal_api\<close> and \<open>exposed_runtime\<close> of \<open>foundation_wasm/src/jsapi.rs\<close>, the
  operations a guest calls and the entry points a host calls, over the five static tables, each behind
  its own mutex.

  The mutexes are not reentrant: taking one that the caller already holds never returns, which is a
  \<open>Panic\<close> here. A closure runs with the lock of its table held, so \<open>rt_locks\<close> is part of the state a
  closure sees. What the closures do is given by the arguments \<open>tick\<close>, \<open>perform\<close> and \<open>receive\<close>,
  computations over the whole runtime and a world \<open>'w\<close> of the host. An \<open>expect\<close> that fails aborts
  the call.
\<close>

section \<open>State\<close>

datatype statics =
  ALLOCATIONS
  | ANIMATION_FRAME_CALLBACKS
  | INTERNAL_CALLBACKS
  | RECURRING_INTERVAL_CALLBACKS
  | SCHEDULED_CALLBACKS

record ('cb, 'w) runtime =
  rt_memory :: memory
  rt_frames :: "'cb frame_callback_list"
  rt_internal :: "'cb internal_reference_registry"
  rt_intervals :: "'cb interval_registry"
  rt_schedules :: "'cb schedule_registry"
  rt_locks :: "statics set"
  rt_world :: 'w

type_synonym ('cb, 'w, 'e, 'a) run = "(('cb, 'w) runtime, 'e, 'a) exec"

definition with_lock :: "statics \<Rightarrow> ('cb, 'w, 'e, 'a) run \<Rightarrow> ('cb, 'w, 'e, 'a) run" where
  "with_lock L m rt =
     (if L \<in> rt_locks rt then (Panic, rt)
      else
        (case m (rt\<lparr>rt_locks := insert L (rt_locks rt)\<rparr>) of
           (r, rt') \<Rightarrow> (r, rt'\<lparr>rt_locks := rt_locks rt' - {L}\<rparr>)))"

definition on_memory :: "('e, 'a) mem \<Rightarrow> ('cb, 'w, 'e, 'a) run" where
  "on_memory m rt = (case m (rt_memory rt) of (r, s) \<Rightarrow> (r, rt\<lparr>rt_memory := s\<rparr>))"

text \<open>\<open>expect\<close> on a \<open>Result\<close> and on an \<open>Option\<close>, and a result kept to be matched on.\<close>

definition expect_ok :: "('s, 'e, 'a) exec \<Rightarrow> ('s, 'f, 'a) exec" where
  "expect_ok m s = (case m s of (r, s') \<Rightarrow> (ok_or_panic r, s'))"

definition expect_some :: "('s, 'e, 'a option) exec \<Rightarrow> ('s, 'e, 'a) exec" where
  "expect_some m = bind m (\<lambda>x. lift_result (some_or_panic x))"

definition settled :: "('s, 'e, 'a) exec \<Rightarrow> ('s, 'f, ('e, 'a) result) exec" where
  "settled m s =
     (case m s of
        (Panic, s') \<Rightarrow> (Panic, s')
      | (r, s') \<Rightarrow> (Ok r, s'))"

section \<open>Batches, memory and replies\<close>

definition FAILED_RETURN_HINT :: return_type_hints where
  "FAILED_RETURN_HINT = Hint_One (State_One RT_ErrorCode)"

definition create_instructions :: "nat \<Rightarrow> u64 \<Rightarrow> u64 \<Rightarrow> ('cb, 'w, 'e, instructions) run" where
  "create_instructions usz text_size operation_size =
     expect_ok (with_lock ALLOCATIONS (on_memory (batch_for usz text_size operation_size True)))"

definition get_memory :: "memory_id \<Rightarrow> ('cb, 'w, 'e, memory_allocation) run" where
  "get_memory mid = expect_ok (with_lock ALLOCATIONS (on_memory (mas_get_run mid)))"

text \<open>The last value of a reply that was read with the failure hint, when it is an error code.\<close>

definition failed_code :: "(binary_read_error, return_values list) result \<Rightarrow> u16 option" where
  "failed_code failed_result =
     (case failed_result of
        Ok failed_returns \<Rightarrow>
          if failed_returns = [] then None
          else (case last failed_returns of RV_ErrorCode code \<Rightarrow> Some code | _ \<Rightarrow> None)
      | _ \<Rightarrow> None)"

definition parse_callback_replies ::
    "nat \<Rightarrow> memory_id \<Rightarrow> return_type_hints \<Rightarrow> ('cb, 'w, memory_allocation_error, returns) run" where
  "parse_callback_replies usz memory_id returns =
     bind (get_memory memory_id) (\<lambda>memory rt.
       case cell_get (ma_cell memory) (rt_memory rt) of
         None \<Rightarrow> (Err (MA_FailedAllocationReading memory_id), rt)
       | Some mem \<Rightarrow>
           bind (settled (on_memory (from_binary usz [ma_cell memory] returns mem))) (\<lambda>result.
           bind (settled (on_memory (from_binary usz [ma_cell memory] FAILED_RETURN_HINT mem))) (\<lambda>failed_result.
             case failed_code failed_result of
               Some code \<Rightarrow> fail (MA_TaskFailure (TaskErrorCode code))
             | None \<Rightarrow>
                 (case result of
                    Err err \<Rightarrow> fail (allocation_error_from_reader (MR_NotValidReplyBinary err))
                  | Panic \<Rightarrow> lift_result Panic
                  | Ok replies \<Rightarrow>
                      (case returns of
                         Hint_One _ \<Rightarrow>
                           if length replies \<noteq> 1
                           then fail (allocation_error_from_reader (MR_ReturnValueError (RVE_ExpectedOne replies)))
                           else ret (Returns_One (last replies))
                       | Hint_List _ \<Rightarrow> ret (Returns_List replies)
                       | Hint_Multi _ \<Rightarrow> ret (Returns_Multi replies)
                       | Hint_None \<Rightarrow> lift_result Panic)))) rt)"

section \<open>Animation frames\<close>

definition get_total_animation_callbacks :: "('cb, 'w, 'e, nat) run" where
  "get_total_animation_callbacks =
     with_lock ANIMATION_FRAME_CALLBACKS (\<lambda>rt. (Ok (frame_list_len (rt_frames rt)), rt))"

definition run_animation_frames ::
    "('cb \<Rightarrow> f64 \<Rightarrow> ('cb, 'w, 'e, tick_state) run) \<Rightarrow> f64 \<Rightarrow> ('cb, 'w, 'e, u8) run" where
  "run_animation_frames tick value =
     with_lock ANIMATION_FRAME_CALLBACKS
       (bind (\<lambda>rt. frame_list_call tick value (rt_frames rt) rt) (\<lambda>(st, l) rt.
          (Ok (tick_state_into_u8 st), rt\<lparr>rt_frames := l\<rparr>)))"

definition register_animation_hook :: "'cb \<Rightarrow> ('cb, 'w, 'e, unit) run" where
  "register_animation_hook f =
     with_lock ANIMATION_FRAME_CALLBACKS (\<lambda>rt. (Ok (), rt\<lparr>rt_frames := frame_list_add f (rt_frames rt)\<rparr>))"

section \<open>Timers\<close>

definition unregister_schedule_callback :: "internal_pointer \<Rightarrow> ('cb, 'w, 'e, unit) run" where
  "unregister_schedule_callback addr =
     expect_some (with_lock SCHEDULED_CALLBACKS (\<lambda>rt.
       case schedule_registry_delete addr (rt_schedules rt) of (d, r) \<Rightarrow> (Ok d, rt\<lparr>rt_schedules := r\<rparr>)))"

definition run_schedule_callback ::
    "('cb \<Rightarrow> ('cb, 'w, wasm_errors, unit) run) \<Rightarrow> internal_pointer \<Rightarrow> ('cb, 'w, wasm_errors, unit) run" where
  "run_schedule_callback perform addr =
     with_lock SCHEDULED_CALLBACKS
       (bind (\<lambda>rt. schedule_registry_call perform addr (rt_schedules rt) rt) (\<lambda>called.
          case called of
            Some () \<Rightarrow> ret ()
          | None \<Rightarrow> fail (WE_GuestError (GO_UnknownInternalPointer addr))))"

definition register_schedule :: "'cb \<Rightarrow> ('cb, 'w, 'e, internal_pointer) run" where
  "register_schedule f =
     with_lock SCHEDULED_CALLBACKS (\<lambda>rt.
       case schedule_registry_add f (rt_schedules rt) of (ptr, r) \<Rightarrow> (Ok ptr, rt\<lparr>rt_schedules := r\<rparr>))"

definition run_interval_callback ::
    "('cb \<Rightarrow> ('cb, 'w, wasm_errors, tick_state) run) \<Rightarrow> internal_pointer
      \<Rightarrow> ('cb, 'w, wasm_errors, tick_state) run" where
  "run_interval_callback perform addr =
     with_lock RECURRING_INTERVAL_CALLBACKS
       (bind (\<lambda>rt. interval_registry_call perform addr (rt_intervals rt) rt) (\<lambda>called.
          case called of
            Some inner \<Rightarrow> ret inner
          | None \<Rightarrow> fail (WE_GuestError (GO_UnknownInternalPointer addr))))"

definition register_interval :: "'cb \<Rightarrow> ('cb, 'w, 'e, internal_pointer) run" where
  "register_interval f =
     with_lock RECURRING_INTERVAL_CALLBACKS (\<lambda>rt.
       case interval_registry_add f (rt_intervals rt) of (ptr, r) \<Rightarrow> (Ok ptr, rt\<lparr>rt_intervals := r\<rparr>))"

definition unregister_interval_callback :: "internal_pointer \<Rightarrow> ('cb, 'w, 'e, unit) run" where
  "unregister_interval_callback addr =
     expect_some (with_lock RECURRING_INTERVAL_CALLBACKS (\<lambda>rt.
       case interval_registry_delete addr (rt_intervals rt) of (d, r) \<Rightarrow> (Ok d, rt\<lparr>rt_intervals := r\<rparr>)))"

section \<open>Callbacks for replies\<close>

definition register_callback :: "return_type_hints \<Rightarrow> 'cb \<Rightarrow> ('cb, 'w, 'e, internal_pointer) run" where
  "register_callback returns f =
     with_lock INTERNAL_CALLBACKS (\<lambda>rt.
       case internal_registry_add returns f (rt_internal rt) of (ptr, r) \<Rightarrow> (Ok ptr, rt\<lparr>rt_internal := r\<rparr>))"

definition unregister_internal_callback :: "internal_pointer \<Rightarrow> ('cb, 'w, 'e, unit) run" where
  "unregister_internal_callback addr =
     bind (expect_some (with_lock INTERNAL_CALLBACKS (\<lambda>rt.
       case internal_registry_delete addr (rt_internal rt) of (d, r) \<Rightarrow> (Ok d, rt\<lparr>rt_internal := r\<rparr>)))) (\<lambda>_. ret ())"

definition run_internal_callbacks ::
    "nat \<Rightarrow> ('cb \<Rightarrow> (task_error_code, returns) result \<Rightarrow> ('cb, 'w, 'e, unit) run) \<Rightarrow> internal_pointer \<Rightarrow> memory_id
      \<Rightarrow> ('cb, 'w, 'e, unit) run" where
  "run_internal_callbacks usz receive addr value =
     bind (expect_some (with_lock INTERNAL_CALLBACKS (\<lambda>rt. (Ok (internal_registry_get_type addr (rt_internal rt)), rt))))
       (\<lambda>returns.
     bind (settled (parse_callback_replies usz value returns)) (\<lambda>outcome.
       case outcome of
         Ok values \<Rightarrow>
           expect_some (with_lock INTERNAL_CALLBACKS
             (\<lambda>rt. internal_registry_call receive addr (Ok values) (rt_internal rt) rt))
       | Err (MA_TaskFailure code) \<Rightarrow>
           expect_some (with_lock INTERNAL_CALLBACKS
             (\<lambda>rt. internal_registry_call receive addr (Err code) (rt_internal rt) rt))
       | _ \<Rightarrow> lift_result Panic))"

section \<open>Reading memory out\<close>

definition extract_vec_from_memory :: "u64 \<Rightarrow> ('cb, 'w, 'e, bytes) run" where
  "extract_vec_from_memory allocation_id =
     expect_ok (with_lock ALLOCATIONS (on_memory
       (bind (mas_get_run (memory_id_from_u64 allocation_id)) ma_clone_memory)))"

definition extract_string_from_memory :: "u64 \<Rightarrow> ('cb, 'w, 'e, bytes) run" where
  "extract_string_from_memory allocation_id =
     expect_ok (with_lock ALLOCATIONS (on_memory
       (bind (mas_get_run (memory_id_from_u64 allocation_id)) ma_string_from_memory)))"

section \<open>What the host calls\<close>

definition create_allocation :: "nat \<Rightarrow> u64 \<Rightarrow> ('cb, 'w, 'e, u64) run" where
  "create_allocation usz size' =
     bind (expect_ok (with_lock ALLOCATIONS (on_memory (mas_allocate usz size')))) (\<lambda>mem_id.
       ret (memory_id_as_u64 mem_id))"

definition allocation_start_pointer :: "(nat \<Rightarrow> bytes \<Rightarrow> u64) \<Rightarrow> u64 \<Rightarrow> ('cb, 'w, 'e, u64) run" where
  "allocation_start_pointer ptr_of mem_id =
     expect_ok (with_lock ALLOCATIONS (on_memory
       (bind (mas_get_run (memory_id_from_u64 mem_id)) (ma_get_pointer ptr_of))))"

definition allocation_length :: "u64 \<Rightarrow> ('cb, 'w, 'e, u64) run" where
  "allocation_length allocation_id =
     expect_ok (with_lock ALLOCATIONS (on_memory
       (bind (mas_get_run (memory_id_from_u64 allocation_id)) ma_len)))"

definition dispose_allocation :: "u64 \<Rightarrow> ('cb, 'w, 'e, unit) run" where
  "dispose_allocation allocation_id =
     expect_ok (with_lock ALLOCATIONS (on_memory (mas_deallocate (memory_id_from_u64 allocation_id))))"

definition clear_allocation :: "u64 \<Rightarrow> ('cb, 'w, 'e, unit) run" where
  "clear_allocation allocation_id =
     expect_ok (with_lock ALLOCATIONS (on_memory
       (bind (mas_get_run (memory_id_from_u64 allocation_id)) ma_clear)))"

definition run_scheduled_callback ::
    "('cb \<Rightarrow> ('cb, 'w, wasm_errors, unit) run) \<Rightarrow> u64 \<Rightarrow> ('cb, 'w, 'e, unit) run" where
  "run_scheduled_callback perform addr = expect_ok (run_schedule_callback perform (InternalPointer addr))"

definition exposed_run_interval_callback ::
    "('cb \<Rightarrow> ('cb, 'w, wasm_errors, tick_state) run) \<Rightarrow> u64 \<Rightarrow> ('cb, 'w, 'e, u8) run" where
  "exposed_run_interval_callback perform addr =
     bind (expect_ok (run_interval_callback perform (InternalPointer addr))) (\<lambda>state. ret (tick_state_into_u8 state))"

definition trigger_animation_callbacks ::
    "('cb \<Rightarrow> f64 \<Rightarrow> ('cb, 'w, 'e, tick_state) run) \<Rightarrow> f64 \<Rightarrow> ('cb, 'w, 'e, u8) run" where
  "trigger_animation_callbacks tick value = run_animation_frames tick value"

definition unregister_callback :: "u64 \<Rightarrow> ('cb, 'w, 'e, unit) run" where
  "unregister_callback addr = unregister_internal_callback (InternalPointer addr)"

definition invoke_callback ::
    "nat \<Rightarrow> ('cb \<Rightarrow> (task_error_code, returns) result \<Rightarrow> ('cb, 'w, 'e, unit) run) \<Rightarrow> u64 \<Rightarrow> u64
      \<Rightarrow> ('cb, 'w, 'e, unit) run" where
  "invoke_callback usz receive addr allocation_id =
     run_internal_callbacks usz receive (InternalPointer addr) (memory_id_from_u64 allocation_id)"

section \<open>Running the runtime\<close>

lemma with_lock_memory:
  "L \<notin> rt_locks rt \<Longrightarrow> with_lock L (on_memory m) rt = on_memory m rt"
  by (auto simp: with_lock_def on_memory_def split: prod.split)

lemma with_lock_read:
  "L \<notin> rt_locks rt \<Longrightarrow> (\<And>lk. f (rt\<lparr>rt_locks := lk\<rparr>) = f rt) \<Longrightarrow> with_lock L (\<lambda>rt. (Ok (f rt), rt)) rt = (Ok (f rt), rt)"
  by (simp add: with_lock_def)

lemma settled_run:
  "settled m s = (case m s of (Panic, s') \<Rightarrow> (Panic, s') | (Ok x, s') \<Rightarrow> (Ok (Ok x), s') | (Err e, s') \<Rightarrow> (Ok (Err e), s'))"
  by (simp add: settled_def split: prod.split result.split)

lemma get_memory_run:
  "ALLOCATIONS \<notin> rt_locks rt \<Longrightarrow> mas_get mid (rt_memory rt) = Ok h \<Longrightarrow> get_memory mid rt = (Ok h, rt)"
  by (simp add: get_memory_def expect_ok_def with_lock_memory on_memory_def mas_get_run_def)

text \<open>What \<open>parse_callback_replies\<close> makes of the two parses of the buffer.\<close>

definition reply_outcome ::
    "return_type_hints \<Rightarrow> (binary_read_error, return_values list) result \<Rightarrow> u16 option
      \<Rightarrow> (memory_allocation_error, returns) result" where
  "reply_outcome returns result failed =
     (case failed of
        Some code \<Rightarrow> Err (MA_TaskFailure (TaskErrorCode code))
      | None \<Rightarrow>
          (case result of
             Err err \<Rightarrow> Err (MA_MemoryReadError (MR_NotValidReplyBinary err))
           | Panic \<Rightarrow> Panic
           | Ok replies \<Rightarrow>
               (case returns of
                  Hint_One _ \<Rightarrow>
                    if length replies \<noteq> 1
                    then Err (MA_MemoryReadError (MR_ReturnValueError (RVE_ExpectedOne replies)))
                    else Ok (Returns_One (last replies))
                | Hint_List _ \<Rightarrow> Ok (Returns_List replies)
                | Hint_Multi _ \<Rightarrow> Ok (Returns_Multi replies)
                | Hint_None \<Rightarrow> Panic)))"

lemma parse_callback_replies_run:
  assumes "ALLOCATIONS \<notin> rt_locks rt" "mas_get mid (rt_memory rt) = Ok h"
    and "cell_get (ma_cell h) (rt_memory rt) = Some bs"
    and "from_binary usz [ma_cell h] returns bs (rt_memory rt) = (r1, s1)" "r1 \<noteq> Panic"
    and "from_binary usz [ma_cell h] FAILED_RETURN_HINT bs s1 = (r2, s2)" "r2 \<noteq> Panic"
  shows "parse_callback_replies usz mid returns rt = (reply_outcome returns r1 (failed_code r2), rt\<lparr>rt_memory := s2\<rparr>)"
  using assms
  by (cases r1; cases r2)
    (auto simp: parse_callback_replies_def bind_def get_memory_run settled_run on_memory_def reply_outcome_def
      fail_run ret_run lift_result_run allocation_error_from_reader_def split: option.split return_type_hints.split)

text \<open>What \<open>run_internal_callbacks\<close> does with it.\<close>

lemma run_internal_callbacks_run:
  fixes receive :: "'cb \<Rightarrow> (task_error_code, returns) result \<Rightarrow> ('cb, 'w, 'e, unit) run"
  assumes "INTERNAL_CALLBACKS \<notin> rt_locks rt" "tree_get ptr (rt_internal rt) = Some (hint, cb)"
    and "parse_callback_replies usz mid hint rt = (r, rt\<lparr>rt_memory := s\<rparr>)"
    and "r = Ok values \<and> outcome = Ok values \<or> r = Err (MA_TaskFailure code) \<and> outcome = Err code"
  shows "run_internal_callbacks usz receive ptr mid rt
    = with_lock INTERNAL_CALLBACKS (receive cb outcome) (rt\<lparr>rt_memory := s\<rparr>)"
proof -
  have get: "expect_some (with_lock INTERNAL_CALLBACKS (\<lambda>rt. (Ok (internal_registry_get_type ptr (rt_internal rt)), rt))) rt
      = (Ok hint :: ('e, return_type_hints) result, rt)"
    using assms(1,2) by (simp add: expect_some_def with_lock_def bind_def lift_result_run internal_registry_get_type_def)
  have call: "expect_some (with_lock INTERNAL_CALLBACKS
        (\<lambda>rt. internal_registry_call receive ptr outcome (rt_internal rt) rt)) (rt\<lparr>rt_memory := s\<rparr>)
      = with_lock INTERNAL_CALLBACKS (receive cb outcome) (rt\<lparr>rt_memory := s\<rparr>)"
    using assms(1,2)
    by (simp add: expect_some_def with_lock_def bind_def lift_result_run internal_registry_call_def ret_run
        split: prod.split result.split)
  show ?thesis
    using assms(3,4) get call by (auto simp: run_internal_callbacks_def bind_def settled_run)
qed

text \<open>A first parse that panics takes the whole call with it.\<close>

lemma parse_callback_replies_panics:
  assumes "ALLOCATIONS \<notin> rt_locks rt" "mas_get mid (rt_memory rt) = Ok h"
    and "cell_get (ma_cell h) (rt_memory rt) = Some bs"
    and "from_binary usz [ma_cell h] returns bs (rt_memory rt) = (Panic, s)"
  shows "parse_callback_replies usz mid returns rt = (Panic, rt\<lparr>rt_memory := s\<rparr>)"
  using assms by (simp add: parse_callback_replies_def bind_def get_memory_run settled_run on_memory_def)

lemma run_internal_callbacks_panics:
  assumes "INTERNAL_CALLBACKS \<notin> rt_locks rt" "tree_get ptr (rt_internal rt) = Some (hint, cb)"
    and "parse_callback_replies usz mid hint rt = (Panic, rt')"
  shows "run_internal_callbacks usz receive ptr mid rt = (Panic, rt')"
  using assms by (simp add: run_internal_callbacks_def bind_def settled_run expect_some_def with_lock_def
      lift_result_run internal_registry_get_type_def)

section \<open>The failure parse\<close>

lemma error_code_reply:
  "to_return_value_type v = RT_ErrorCode \<longleftrightarrow> (\<exists>code. v = RV_ErrorCode code)"
  by (cases v) simp_all

lemma error_codes_unbacked:
  assumes "\<forall>r \<in> set es. to_return_value_type (snd r) = RT_ErrorCode"
  shows "ready_all held s es" "foldl consume s es = s" "accepts_all FAILED_RETURN_HINT 0 (map snd es)"
proof -
  have u: "backing (snd r) = None \<and> readable (snd r)" if "r \<in> set es" for r
    using assms that by (auto simp: error_code_reply backing_def readable_def)
  then have c: "consume s r = s" if "r \<in> set es" for r using that by (simp add: consume_def)
  show "ready_all held s es" "foldl consume s es = s"
    using u c by (induction es) (auto simp: ready_def)
  show "accepts_all FAILED_RETURN_HINT 0 (map snd es)"
    using assms by (induction es) (auto simp: accepts_def next_item_def FAILED_RETURN_HINT_def)
qed

text \<open>A reply of values that is not all error codes does not read as a failure, once its allocations
  are gone, and reading it so changes nothing.\<close>

lemma failure_parse_rejects:
  assumes "\<forall>r \<in> set rs. readable (snd r)" "\<forall>r \<in> set rs. backed r \<longrightarrow> mas_get (fst r) s = Err MA_InvalidAllocationId"
    and "\<exists>r \<in> set rs. to_return_value_type (snd r) \<noteq> RT_ErrorCode"
  shows "\<exists>e. from_binary usz held FAILED_RETURN_HINT (wire_replies rs) s = (Err e, s)"
proof -
  obtain es r rest where rs: "rs = es @ r # rest" and r: "to_return_value_type (snd r) \<noteq> RT_ErrorCode"
    and es: "\<forall>q \<in> set es. to_return_value_type (snd q) = RT_ErrorCode"
    using split_list_first_prop [OF assms(3)] by blast
  note e = error_codes_unbacked [OF es]
  show ?thesis
  proof (cases "backed r")
    case True
    then have d: "mas_get (fst r) s = Err MA_InvalidAllocationId" using assms(2) rs by simp
    show ?thesis
      using collect_items_prefix [OF e(1,3), where pre = "[]" and post = "wire_reply r @ concat (map wire_reply rest)"]
        collect_items_dead [OF True d, of usz held FAILED_RETURN_HINT _ "concat (map wire_reply es)"
          "concat (map wire_reply rest)"] e(2)
      by (simp add: from_binary_wire rs)
  next
    case False
    then have "backing (snd r) = None" by (simp add: backed_def)
    moreover have "ready_all held s (es @ [r])"
      using assms(1) rs calculation e(1) by (simp add: ready_all_append ready_def)
    ultimately show ?thesis
      using from_binary_check [of held s es r FAILED_RETURN_HINT usz rest] e(2,3) r rs
      by (simp add: accepts_def FAILED_RETURN_HINT_def hint_state_def consume_def)
  qed
qed

text \<open>An error code under a hint that admits no value at all.\<close>

lemma hint_state_None: "hint_state hint 0 = None \<longleftrightarrow> hint = Hint_None \<or> hint = Hint_Multi []"
  by (auto simp: hint_state_def split: return_type_hints.split)

lemma error_code_surplus:
  assumes "hint_state hint 0 = None"
  shows "from_binary usz held hint (wire_replies [(k, RV_ErrorCode code)]) s = (Panic, s)"
proof -
  have "ready_all held s [(k, RV_ErrorCode code)]" "foldl consume s [(k, RV_ErrorCode code)] = s"
    by (rule error_codes_unbacked, simp)+
  moreover have "\<not> accepts hint 0 RT_ErrorCode"
    using assms by (auto simp: accepts_def hint_state_None)
  ultimately show ?thesis
    using from_binary_check [of held s "[]" "(k, RV_ErrorCode code)" hint usz "[]"] assms by simp
qed

section \<open>The shape of a reply\<close>

definition returned :: "return_type_hints \<Rightarrow> return_values list \<Rightarrow> returns option" where
  "returned hint vs =
     (case hint of
        Hint_None \<Rightarrow> None
      | Hint_One _ \<Rightarrow> if length vs = 1 then Some (Returns_One (hd vs)) else None
      | Hint_List _ \<Rightarrow> Some (Returns_List vs)
      | Hint_Multi _ \<Rightarrow> Some (Returns_Multi vs))"

lemma returned_same:
  assumes "returned hint (map f rs) = Some values"
  shows "returned hint (map g rs) = Some values \<longleftrightarrow> (\<forall>r \<in> set rs. f r = g r)"
  using assms by (cases rs) (auto simp: returned_def split: return_type_hints.splits if_splits)

lemma foldl_consume_inv: "mem_inv s \<Longrightarrow> mem_inv (foldl consume s rs)"
  by (induction rs arbitrary: s) (simp_all add: consume_inv)

section \<open>Reading through the runtime\<close>

lemma read_memory_run:
  assumes "ALLOCATIONS \<notin> rt_locks rt"
  shows "extract_vec_from_memory i rt = (case mas_get (memory_id_from_u64 i) (rt_memory rt) of
      Ok h \<Rightarrow> (case cell_get (ma_cell h) (rt_memory rt) of Some bs \<Rightarrow> (Ok bs, rt) | None \<Rightarrow> (Panic, rt)) | _ \<Rightarrow> (Panic, rt))"
    and "allocation_length i rt = (case mas_get (memory_id_from_u64 i) (rt_memory rt) of
      Ok h \<Rightarrow> (case cell_get (ma_cell h) (rt_memory rt) of Some bs \<Rightarrow> (Ok (of_nat (length bs)), rt) | None \<Rightarrow> (Panic, rt))
      | _ \<Rightarrow> (Panic, rt))"
    and "mas_get (memory_id_from_u64 i) (rt_memory rt) = Err e \<Longrightarrow> clear_allocation i rt = (Panic, rt)"
  using assms
  by (auto simp: extract_vec_from_memory_def allocation_length_def clear_allocation_def expect_ok_def with_lock_memory
      on_memory_def bind_def mas_get_run_def ma_clone_memory_def ma_len_def split: result.split option.split)

section \<open>Properties\<close>

text \<open>C31: a reply reaches its callback. The host invokes a registered callback with a reply whose values the
  hint admits (one of them for \<open>One\<close>), not all of them error codes, with text in UTF-8 and each text and array
  in an allocation of its own. If one of the values is a \<open>Float64\<close>, the guest panics and the closure is not run.
  Otherwise the closure is run exactly once, under the lock of its table, with \<open>received\<close> of each value in the
  shape of the hint, which are the values sent exactly when every one is \<open>faithful\<close> (no wide array of more than
  one element, no \<open>i128\<close> with bit 63 set under other upper bits, no slice beyond a pointer); by then every
  allocation that carried a value has been released and the allocator is sound.\<close>

theorem reply_reaches_callback:
  assumes "INTERNAL_CALLBACKS \<notin> rt_locks rt" "ALLOCATIONS \<notin> rt_locks rt"
    and "tree_get ptr (rt_internal rt) = Some (hint, cb)"
    and "mem_inv (rt_memory rt)" "mas_get mid (rt_memory rt) = Ok h"
    and "cell_get (ma_cell h) (rt_memory rt) = Some (wire_replies rs)"
    and "\<forall>r \<in> set rs. text_ok (snd r) \<and> ready [ma_cell h] (rt_memory rt) r"
    and "distinct (map fst (filter backed rs))" "accepts_all hint 0 (map snd rs)"
    and "\<exists>r \<in> set rs. to_return_value_type (snd r) \<noteq> RT_ErrorCode"
    and "returned hint (map (received usz \<circ> snd) rs) = Some values"
  shows "if \<exists>r \<in> set rs. is_float64 (snd r)
    then \<exists>s. run_internal_callbacks usz receive ptr mid rt = (Panic, rt\<lparr>rt_memory := s\<rparr>)
    else \<exists>s. run_internal_callbacks usz receive ptr mid rt
        = with_lock INTERNAL_CALLBACKS (receive cb (Ok values)) (rt\<lparr>rt_memory := s\<rparr>)
      \<and> (returned hint (map snd rs) = Some values \<longleftrightarrow> (\<forall>r \<in> set rs. faithful usz (snd r)))
      \<and> mem_inv s \<and> (\<forall>r \<in> set rs. backed r \<longrightarrow> mas_get (fst r) s = Err MA_InvalidAllocationId)"
proof (cases "\<exists>r \<in> set rs. is_float64 (snd r)")
  case True
  obtain s where first: "from_binary usz [ma_cell h] hint (wire_replies rs) (rt_memory rt) = (Panic, s)"
    using from_binary_float [OF assms(4,7-9) True] by blast
  have "parse_callback_replies usz mid hint rt = (Panic, rt\<lparr>rt_memory := s\<rparr>)"
    by (rule parse_callback_replies_panics [OF assms(2,5,6) first])
  from run_internal_callbacks_panics [OF assms(1,3) this] show ?thesis using True by auto
next
  case False
  let ?s = "foldl consume (rt_memory rt) rs" and ?held = "[ma_cell h]"
  have readable: "\<forall>r \<in> set rs. readable (snd r)" using assms(7) False by (auto simp: readable_iff)
  have ready: "ready_all ?held (rt_memory rt) rs"
    using assms(4,7,8) readable by (intro ready_all_distinct) auto
  have inv: "mem_inv ?s" using assms(4) by (rule foldl_consume_inv)
  have dead: "\<forall>r \<in> set rs. backed r \<longrightarrow> mas_get (fst r) ?s = Err MA_InvalidAllocationId"
    using foldl_consume_releases [OF assms(4) ready] by blast
  obtain e where second: "from_binary usz ?held FAILED_RETURN_HINT (wire_replies rs) ?s = (Err e, ?s)"
    using failure_parse_rejects [OF readable dead assms(10)] by blast
  have "parse_callback_replies usz mid hint rt = (Ok values, rt\<lparr>rt_memory := ?s\<rparr>)"
    using parse_callback_replies_run [OF assms(2,5,6) from_binary_replies [OF ready assms(9)] _ second] assms(11)
    by (auto simp: reply_outcome_def failed_code_def returned_def length_Suc_conv split: return_type_hints.splits if_splits)
  from run_internal_callbacks_run [OF assms(1,3) this]
  have "run_internal_callbacks usz receive ptr mid rt
      = with_lock INTERNAL_CALLBACKS (receive cb (Ok values)) (rt\<lparr>rt_memory := ?s\<rparr>)" by blast
  then show ?thesis using inv dead False returned_same [OF assms(11)] by (auto simp: received_faithful)
qed

text \<open>C33: a failure reaches its callback as a failure. An error code from the host is handed to the closure as
  \<open>Err\<close> with that code, whatever one value the hint of the callback admits, and nothing else is touched. Under
  a hint that admits no value at all, \<open>None\<close> or an empty \<open>Multi\<close>, the guest panics and the closure is not run:
  the reply is read with the hint of the callback before it is read as a failure.\<close>

theorem error_reply_reaches_callback:
  assumes "INTERNAL_CALLBACKS \<notin> rt_locks rt" "ALLOCATIONS \<notin> rt_locks rt"
    and "tree_get ptr (rt_internal rt) = Some (hint, cb)"
    and "mas_get mid (rt_memory rt) = Ok h"
    and "cell_get (ma_cell h) (rt_memory rt) = Some (wire_replies [(k, RV_ErrorCode code)])"
  shows "run_internal_callbacks usz receive ptr mid rt
    = (if hint = Hint_None \<or> hint = Hint_Multi [] then (Panic, rt)
       else with_lock INTERNAL_CALLBACKS (receive cb (Err (TaskErrorCode code))) rt)"
proof (cases "hint_state hint 0")
  case None
  have "from_binary usz [ma_cell h] hint (wire_replies [(k, RV_ErrorCode code)]) (rt_memory rt) = (Panic, rt_memory rt)"
    by (rule error_code_surplus [OF None])
  from parse_callback_replies_panics [OF assms(2,4,5) this]
  have "parse_callback_replies usz mid hint rt = (Panic, rt\<lparr>rt_memory := rt_memory rt\<rparr>)" .
  from run_internal_callbacks_panics [OF assms(1,3) this] show ?thesis
    using None by (simp add: hint_state_None)
next
  case (Some st)
  let ?rs = "[(k, RV_ErrorCode code)]" and ?held = "[ma_cell h]" and ?s = "rt_memory rt"
  have "\<forall>r \<in> set ?rs. to_return_value_type (snd r) = RT_ErrorCode" by simp
  note e = error_codes_unbacked [OF this]
  obtain r1 where first: "from_binary usz ?held hint (wire_replies ?rs) ?s = (r1, ?s)" "r1 \<noteq> Panic"
    using from_binary_replies [OF e(1), of hint usz ?held ?s] Some e(1,2)
      from_binary_check [of ?held ?s "[]" "(k, RV_ErrorCode code)" hint usz "[]"]
    by (cases "accepts hint 0 RT_ErrorCode") auto
  have second: "from_binary usz ?held FAILED_RETURN_HINT (wire_replies ?rs) ?s = (Ok [RV_ErrorCode code], ?s)"
    using from_binary_replies [OF e(1), of FAILED_RETURN_HINT usz ?held ?s] e(2,3) by (simp add: received_def)
  have "parse_callback_replies usz mid hint rt = (Err (MA_TaskFailure (TaskErrorCode code)), rt\<lparr>rt_memory := ?s\<rparr>)"
    using parse_callback_replies_run [OF assms(2,4,5) first second] by (simp add: reply_outcome_def failed_code_def)
  from run_internal_callbacks_run [OF assms(1,3) this, where code = "TaskErrorCode code"
      and outcome = "Err (TaskErrorCode code)"]
  show ?thesis using Some hint_state_None [of hint] by simp
qed

text \<open>A runtime with one callback and one buffer, for the witnesses; the closure logs what it is given.\<close>

definition runtime_of_one :: "return_type_hints \<Rightarrow> bytes \<Rightarrow> (nat, (nat \<times> (task_error_code, returns) result) list) runtime" where
  "runtime_of_one hint bs =
     \<lparr>rt_memory = cell_put 0 (Some bs) table_of_one, rt_frames = frame_list_new,
      rt_internal = snd (internal_registry_add hint 5 registry_new), rt_intervals = registry_new,
      rt_schedules = snd (schedule_registry_add 5 registry_new), rt_locks = {}, rt_world = []\<rparr>"

definition logs ::
    "nat \<Rightarrow> (task_error_code, returns) result
      \<Rightarrow> (nat, (nat \<times> (task_error_code, returns) result) list, unit, unit) run" where
  "logs cb outcome rt = (Ok (), rt\<lparr>rt_world := (cb, outcome) # rt_world rt\<rparr>)"

lemma runtime_of_one_facts:
  "rt_locks (runtime_of_one hint bs) = {}" "rt_world (runtime_of_one hint bs) = []"
  "tree_get (InternalPointer 1) (rt_internal (runtime_of_one hint bs)) = Some (hint, 5)"
  "tree_get (InternalPointer 1) (rt_schedules (runtime_of_one hint bs)) = Some 5"
  "mem_inv (rt_memory (runtime_of_one hint bs))"
  "mas_get (MemoryId 0 0) (rt_memory (runtime_of_one hint bs)) = Ok (MemoryAllocation 0)"
  "cell_get 0 (rt_memory (runtime_of_one hint bs)) = Some bs"
  using mem_inv_allocate [OF mem_inv_new table_of_one_runs(1)]
  by (simp_all add: runtime_of_one_def internal_registry_add_def schedule_registry_add_def tree_insert_def
      registry_new_def tree_get_def table_of_one_runs)
    (simp add: table_of_one_def mas_allocate_new mas_new_def as_usize_def isize_max_def)

theorem reply_reaches_callback_witness:
  "rt_world (snd (run_internal_callbacks 4 logs (InternalPointer 1) (MemoryId 0 0)
      (runtime_of_one (Hint_One (State_One RT_Int8)) (wire_replies [(MemoryId 0 0, RV_Int8 3)]))))
    = [(5, Ok (Returns_One (RV_Int8 3)))]"
proof -
  note f = runtime_of_one_facts [where hint = "Hint_One (State_One RT_Int8)"
      and bs = "wire_replies [(MemoryId 0 0, RV_Int8 3)]"]
  let ?rt = "runtime_of_one (Hint_One (State_One RT_Int8)) (wire_replies [(MemoryId 0 0, RV_Int8 3)])"
  obtain s where "run_internal_callbacks 4 logs (InternalPointer 1) (MemoryId 0 0) ?rt
      = with_lock INTERNAL_CALLBACKS (logs 5 (Ok (Returns_One (RV_Int8 3)))) (?rt\<lparr>rt_memory := s\<rparr>)"
    using reply_reaches_callback [OF _ _ f(3,5,6), of "[(MemoryId 0 0, RV_Int8 3)]" 4 "Returns_One (RV_Int8 3)" logs] f(1,7)
    by (auto simp: text_ok_def is_float64_def received_def ready_def backing_def backed_def accepts_def returned_def)
  then show ?thesis using f(1,2) by (simp add: with_lock_def logs_def)
qed

theorem error_reply_reaches_callback_witness:
  "rt_world (snd (run_internal_callbacks 4 logs (InternalPointer 1) (MemoryId 0 0)
      (runtime_of_one (Hint_List (State_One RT_Text8)) (wire_replies [(MemoryId 0 0, RV_ErrorCode 404)]))))
    = [(5, Err (TaskErrorCode 404))]
   \<and> fst (run_internal_callbacks 4 logs (InternalPointer 1) (MemoryId 0 0)
      (runtime_of_one Hint_None (wire_replies [(MemoryId 0 0, RV_ErrorCode 404)]))) = Panic"
  using error_reply_reaches_callback [where receive = logs and ptr = "InternalPointer 1" and mid = "MemoryId 0 0"
      and hint = "Hint_List (State_One RT_Text8)" and cb = 5 and h = "MemoryAllocation 0" and k = "MemoryId 0 0"
      and code = 404 and usz = 4
      and rt = "runtime_of_one (Hint_List (State_One RT_Text8)) (wire_replies [(MemoryId 0 0, RV_ErrorCode 404)])"]
    error_reply_reaches_callback [where receive = logs and ptr = "InternalPointer 1" and mid = "MemoryId 0 0"
      and hint = Hint_None and cb = 5 and h = "MemoryAllocation 0" and k = "MemoryId 0 0" and code = 404 and usz = 4
      and rt = "runtime_of_one Hint_None (wire_replies [(MemoryId 0 0, RV_ErrorCode 404)])"]
  by (simp add: runtime_of_one_facts with_lock_def logs_def)

text \<open>A timer cannot use the table it runs from. The lock is held while the closure runs and is not
  reentrant, so a scheduled closure that schedules another, and an interval closure that unregisters an
  interval (its own, say), never return.\<close>

theorem timers_cannot_use_their_table:
  assumes "SCHEDULED_CALLBACKS \<notin> rt_locks rt" "tree_get ptr (rt_schedules rt) = Some cb"
    and "perform cb = bind (register_schedule f) k"
    and "RECURRING_INTERVAL_CALLBACKS \<notin> rt_locks rt" "tree_get iptr (rt_intervals rt) = Some icb"
    and "tick icb = bind (unregister_interval_callback q) ik"
  shows "fst (run_schedule_callback perform ptr rt) = Panic \<and> fst (run_interval_callback tick iptr rt) = Panic"
  using assms
  by (simp add: run_schedule_callback_def run_interval_callback_def with_lock_def schedule_registry_call_def
      interval_registry_call_def register_schedule_def unregister_interval_callback_def expect_some_def bind_def)

theorem timers_cannot_use_their_table_witness:
  "fst (run_schedule_callback (\<lambda>cb. bind (register_schedule cb) (\<lambda>_. ret ())) (InternalPointer 1)
     ((runtime_of_one Hint_None [])\<lparr>rt_intervals := rt_schedules (runtime_of_one Hint_None [])\<rparr>)) = Panic"
  using timers_cannot_use_their_table [where rt = "(runtime_of_one Hint_None [])\<lparr>rt_intervals := rt_schedules (runtime_of_one Hint_None [])\<rparr>"
      and perform = "\<lambda>cb. bind (register_schedule cb) (\<lambda>_. ret ())" and ptr = "InternalPointer 1" and f = 5
      and k = "\<lambda>_. ret ()" and iptr = "InternalPointer 1" and cb = 5 and icb = 5 and q = "InternalPointer 1"
      and ik = "\<lambda>_. ret REQUEUE" and tick = "\<lambda>_. bind (unregister_interval_callback (InternalPointer 1)) (\<lambda>_. ret REQUEUE)"]
  by (simp add: runtime_of_one_facts)

text \<open>The life of an allocation as the host sees it. \<open>create_allocation\<close> gives an identifier behind
  which there are exactly the requested zero bytes; disposing of it succeeds and makes every later use of
  it abort; and neither changes what any other identifier reads.\<close>

theorem host_allocation_lifecycle:
  assumes "ALLOCATIONS \<notin> rt_locks rt" "mem_inv (rt_memory rt)" "create_allocation usz n rt = (Ok aid, rt1)"
  shows "extract_vec_from_memory aid rt1 = (Ok (replicate (as_usize usz n) 0), rt1)
    \<and> allocation_length aid rt1 = (Ok (of_nat (as_usize usz n)), rt1)
    \<and> (\<exists>rt2. dispose_allocation aid rt1 = (Ok (), rt2) \<and> extract_vec_from_memory aid rt2 = (Panic, rt2)
         \<and> allocation_length aid rt2 = (Panic, rt2) \<and> clear_allocation aid rt2 = (Panic, rt2)
         \<and> (\<forall>other bs. extract_vec_from_memory other rt = (Ok bs, rt) \<longrightarrow>
               extract_vec_from_memory other rt1 = (Ok bs, rt1) \<and> extract_vec_from_memory other rt2 = (Ok bs, rt2)))"
proof -
  let ?s = "rt_memory rt"
  obtain mid s1 where run: "mas_allocate usz n ?s = (Ok mid, s1)"
    and aid: "aid = memory_id_as_u64 mid" and rt1: "rt1 = rt\<lparr>rt_memory := s1\<rparr>"
    using assms(1,3) by (auto simp: create_allocation_def bind_eq_Ok ret_run expect_ok_def with_lock_memory
        on_memory_def split: prod.splits elim!: ok_or_panic.elims)
  note al = mas_allocate_Ok [OF assms(2) run, unfolded allocated_def]
  obtain h where h: "mas_get mid s1 = Ok h" "cell_get (ma_cell h) s1 = Some (replicate (as_usize usz n) 0)"
    using al by blast
  let ?s2 = "mem_release mid s1"
  have de: "mas_deallocate mid s1 = (Ok (), ?s2)"
    using h(1) by (auto simp: mas_get_Ok mas_deallocate_def mem_release_def Let_def)
  have cells: "cell_get c ?s2 = cell_get c s1" for c
    using mas_deallocate_free(2) [OF de] by (simp add: cell_get_def)
  have inv1: "mem_inv s1" by (rule mem_inv_allocate [OF assms(2) run])
  have dead: "mas_get mid ?s2 = Err MA_InvalidAllocationId"
    using mem.release_dead [OF inv1] by (simp add: mem_resolve_None)
  let ?rt2 = "rt\<lparr>rt_memory := ?s2\<rparr>"
  have live: "mas_get k s1 = Ok g \<and> mas_get k ?s2 = Ok g \<and> cell_get (ma_cell g) s1 = Some bs"
    if "mas_get k ?s = Ok g" "cell_get (ma_cell g) ?s = Some bs" for k g bs
  proof -
    have a: "mem_alloc usz n ?s = Some (mid, s1)" using run by (simp add: mem_alloc_eq)
    show ?thesis
      using mem.alloc_keeps [OF assms(2) a] mem.alloc_release [OF assms(2) a] that al
      by (simp add: mem_resolve_eq)
  qed
  show ?thesis
  proof (intro conjI exI [of _ ?rt2] allI impI)
    show "dispose_allocation aid rt1 = (Ok (), ?rt2)"
      using assms(1) de by (simp add: dispose_allocation_def expect_ok_def with_lock_memory on_memory_def rt1 aid)
    show "extract_vec_from_memory aid rt1 = (Ok (replicate (as_usize usz n) 0), rt1)"
      "allocation_length aid rt1 = (Ok (of_nat (as_usize usz n)), rt1)"
      "extract_vec_from_memory aid ?rt2 = (Panic, ?rt2)" "allocation_length aid ?rt2 = (Panic, ?rt2)"
      "clear_allocation aid ?rt2 = (Panic, ?rt2)"
      using assms(1) dead h by (simp_all add: read_memory_run aid rt1)
  next
    fix other bs
    assume ok: "extract_vec_from_memory other rt = (Ok bs, rt)"
    obtain g where g: "mas_get (memory_id_from_u64 other) ?s = Ok g" "cell_get (ma_cell g) ?s = Some bs"
      using ok by (auto simp: read_memory_run [OF assms(1)] split: result.splits option.splits)
    from live [OF g] assms(1) show "extract_vec_from_memory other rt1 = (Ok bs, rt1)"
      "extract_vec_from_memory other ?rt2 = (Ok bs, ?rt2)"
      by (simp_all add: rt1 read_memory_run cells)
  qed
qed

theorem host_allocation_lifecycle_witness:
  "\<exists>rt1. (create_allocation 4 8 ((runtime_of_one Hint_None [])\<lparr>rt_memory := mas_new\<rparr>)
        :: (unit, u64) result \<times> _) = (Ok 0, rt1)
    \<and> (extract_vec_from_memory 0 rt1 :: (unit, bytes) result \<times> _) = (Ok [0, 0, 0, 0, 0, 0, 0, 0], rt1)"
proof -
  let ?rt = "(runtime_of_one Hint_None [])\<lparr>rt_memory := mas_new\<rparr>"
  have c: "(create_allocation 4 8 ?rt :: (unit, u64) result \<times> _) = (Ok 0, ?rt\<lparr>rt_memory := table_of_one\<rparr>)"
    by (simp add: create_allocation_def expect_ok_def with_lock_memory on_memory_def runtime_of_one_facts bind_def
        table_of_one_runs ret_run memory_id_as_u64_def)
  have "as_usize 4 8 = 8" by (simp add: as_usize_def)
  moreover have "replicate 8 0 = [0, 0, 0, 0, 0, 0, 0, 0 :: u8]" by (simp add: eval_nat_numeral)
  ultimately have n: "replicate (as_usize 4 8) 0 = [0, 0, 0, 0, 0, 0, 0, 0 :: u8]" by simp
  have "ALLOCATIONS \<notin> rt_locks ?rt" "mem_inv (rt_memory ?rt)"
    by (simp_all add: runtime_of_one_facts mem_inv_new)
  from host_allocation_lifecycle [OF this c] c show ?thesis unfolding n by blast
qed

end
