(* ===== verification/GroupReplies.thy ===== *)
theory GroupReplies
  imports Replies
begin

text \<open>
  Replies to a batch: \<open>FromBinary for GroupReturnTypeHints\<close> and \<open>batch_response\<close> (\<open>jsapi.rs\<close>). A group is a
  start marker, entries, and a stop marker; an entry is a hint and the identifier of an allocation that
  holds a reply, which is parsed under the hint, and released.
\<close>

section \<open>Reading a hint\<close>

definition read_type_id :: "bytes \<Rightarrow> nat \<Rightarrow> ('e, return_type_id \<times> nat) result" where
  "read_type_id bin index =
     rbind (index_at bin index) (\<lambda>b.
     rbind (some_or_panic (return_type_id_from_u8 b)) (\<lambda>t. Ok (t, index + MOVE_ONE_BYTE)))"

definition read_state :: "bytes \<Rightarrow> nat \<Rightarrow> ('e, three_state \<times> nat) result" where
  "read_state bin index =
     rbind (index_at bin index) (\<lambda>b.
     rbind (some_or_panic (three_state_id_from_u8 b)) (\<lambda>state_type.
       let index = index + MOVE_ONE_BYTE in
       rbind (read_type_id bin index) (\<lambda>(p1, index).
         case state_type of
           SI_One \<Rightarrow> Ok (State_One p1, index)
         | SI_Two \<Rightarrow> rbind (read_type_id bin index) (\<lambda>(p2, index). Ok (State_Two p1 p2, index))
         | SI_Three \<Rightarrow>
             rbind (read_type_id bin index) (\<lambda>(p2, index).
             rbind (read_type_id bin index) (\<lambda>(p3, index). Ok (State_Three p1 p2 p3, index))))))"

fun read_states :: "nat \<Rightarrow> bytes \<Rightarrow> nat \<Rightarrow> ('e, three_state list \<times> nat) result" where
  "read_states 0 bin index = Ok ([], index)"
| "read_states (Suc n) bin index =
     rbind (read_state bin index) (\<lambda>(st, index).
     rbind (read_states n bin index) (\<lambda>(sts, index). Ok (st # sts, index)))"

definition read_group_hint :: "bytes \<Rightarrow> nat \<Rightarrow> ('e, return_type_hints \<times> nat) result" where
  "read_group_hint bin index =
     rbind (index_at bin index) (\<lambda>b.
     rbind (some_or_panic (return_ids_from_u8 b)) (\<lambda>reply_type.
       let index = index + MOVE_ONE_BYTE in
       case reply_type of
         RI_One \<Rightarrow> rbind (read_state bin index) (\<lambda>(st, index). Ok (Hint_One st, index))
       | RI_List \<Rightarrow> rbind (read_state bin index) (\<lambda>(st, index). Ok (Hint_List st, index))
       | RI_Multi \<Rightarrow>
           (let item_count_end = index + MOVE_SIXTEEN_BYTES in
            rbind (slice bin index item_count_end) (\<lambda>item_count_slice.
            rbind (copy_from_slice 2 item_count_slice) (\<lambda>item_count_arr.
            rbind (read_states (unat (le_word item_count_arr :: u16)) bin item_count_end) (\<lambda>(value_types, index).
              Ok (Hint_Multi value_types, index)))))
       | RI_None \<Rightarrow> Panic))"

section \<open>The entries\<close>

text \<open>\<open>memory.into_with\<close> holds the lock of the buffer while the reply in it is parsed; \<open>held\<close> are the locks the
  caller has already.\<close>

definition group_value :: "return_type_hints \<Rightarrow> return_values list \<Rightarrow> (binary_read_error, returns) result" where
  "group_value return_hint items =
     (case return_hint of
        Hint_One _ \<Rightarrow>
          if length items \<noteq> 1 then Err (BR_MemoryError Msg_NotOneItem) else Ok (Returns_One (last items))
      | Hint_List _ \<Rightarrow> Ok (Returns_List items)
      | Hint_Multi _ \<Rightarrow> Ok (Returns_Multi items)
      | Hint_None \<Rightarrow> Panic)"

definition group_reply ::
    "nat \<Rightarrow> nat list \<Rightarrow> return_type_hints \<Rightarrow> memory_id \<Rightarrow> memory \<Rightarrow> (binary_read_error, returns) result \<times> memory" where
  "group_reply usz held return_hint mem_id s =
     (case mas_get mem_id s of
        Ok memory \<Rightarrow>
          if ma_cell memory \<in> set held then (Panic, s)
          else
            (case cell_get (ma_cell memory) s of
               Some mem \<Rightarrow>
                 bind (from_binary usz (ma_cell memory # held) return_hint mem) (\<lambda>items.
                 bind (lift_result (group_value return_hint items)) (\<lambda>value_item.
                 bind (exec_map_err binary_error_from_allocation (mas_deallocate mem_id)) (\<lambda>_.
                   ret value_item))) s
             | None \<Rightarrow> (Err (BR_MemoryError Msg_NoValue), s))
      | _ \<Rightarrow> (Panic, s))"

definition group_entry ::
    "nat \<Rightarrow> nat list \<Rightarrow> bytes \<Rightarrow> nat \<Rightarrow> memory \<Rightarrow> (binary_read_error, returns \<times> nat) result \<times> memory" where
  "group_entry usz held bin index =
     bind (lift_result (read_group_hint bin index)) (\<lambda>(return_hint, index).
       let end = index + MOVE_SIXTY_FOUR_BYTES in
       bind (read_memory_id bin index end) (\<lambda>mem_id.
       bind (group_reply usz held return_hint mem_id) (\<lambda>value_item. ret (value_item, end))))"

lemma rbind_OkE: "rbind m k = Ok y \<Longrightarrow> (\<And>x. m = Ok x \<Longrightarrow> k x = Ok y \<Longrightarrow> P) \<Longrightarrow> P"
  by (cases m) auto

lemma read_type_id_end: "read_type_id bin i = Ok (t, j) \<Longrightarrow> i < j"
  by (auto simp: read_type_id_def MOVE_ONE_BYTE_def elim!: rbind_OkE)

lemma read_state_end: "read_state bin i = Ok (st, j) \<Longrightarrow> i < j"
  by (auto simp: read_state_def Let_def MOVE_ONE_BYTE_def elim!: rbind_OkE split: three_state_id.splits
      dest!: read_type_id_end)

lemma read_states_end: "read_states n bin i = Ok (sts, j) \<Longrightarrow> i \<le> j"
  by (induction n bin i arbitrary: sts j rule: read_states.induct) (fastforce elim!: rbind_OkE dest!: read_state_end)+

lemma read_group_hint_end: "read_group_hint bin i = Ok (h, j) \<Longrightarrow> i < j \<and> i < length bin"
  by (auto simp: read_group_hint_def Let_def MOVE_ONE_BYTE_def MOVE_SIXTEEN_BYTES_def index_at_def
      elim!: rbind_OkE split: return_ids.splits if_splits dest!: read_state_end read_states_end)

lemma group_entry_end: "group_entry usz held bin i s = (Ok (v, j), s') \<Longrightarrow> i < j \<and> i < length bin"
  by (auto simp: group_entry_def bind_eq_Ok lift_result_def ret_def Let_def MOVE_SIXTY_FOUR_BYTES_def
      dest!: read_group_hint_end)

function group_entries ::
    "nat \<Rightarrow> nat list \<Rightarrow> bytes \<Rightarrow> nat \<Rightarrow> memory \<Rightarrow> (binary_read_error, returns list) result \<times> memory" where
  "group_entries usz held bin index s =
     (if index < length bin
      then
        (case group_entry usz held bin index s of
           (Ok (value_item, index'), s') \<Rightarrow>
             (case group_entries usz held bin index' s' of
                (r, s'') \<Rightarrow> (rbind r (\<lambda>decoded. Ok (value_item # decoded)), s''))
         | (Err e, s') \<Rightarrow> (Err e, s')
         | (Panic, s') \<Rightarrow> (Panic, s'))
      else (Ok [], s))"
  by pat_completeness auto

termination
  by (relation "measure (\<lambda>(usz, held, bin, index, s). length bin - index)") (auto dest!: group_entry_end [OF sym])

declare group_entries.simps [simp del]

definition group_from_binary ::
    "nat \<Rightarrow> nat list \<Rightarrow> bytes \<Rightarrow> memory \<Rightarrow> (binary_read_error, returns list) result \<times> memory" where
  "group_from_binary usz held input_bin =
     bind (lift_result (index_at input_bin 0)) (\<lambda>first.
       if first \<noteq> group_return_hint_marker_to_u8 GRM_Start then fail (BR_WrongStarterCode first)
       else
         (let length' = length input_bin
          in bind (lift_result (index_at input_bin (length' - 1))) (\<lambda>last'.
            if last' \<noteq> group_return_hint_marker_to_u8 GRM_Stop then fail (BR_WrongEndingCode last')
            else bind (lift_result (slice input_bin 1 (length' - 1))) (\<lambda>bin.
              group_entries usz held bin 0))))"

section \<open>The reply to a batch\<close>

text \<open>What follows the call of the host in \<open>batch_response\<close>: the host has written the group into an
  allocation of the guest and returned its identifier.\<close>

definition batch_response_read :: "nat \<Rightarrow> u64 \<Rightarrow> memory \<Rightarrow> (binary_read_error, returns list) result \<times> memory" where
  "batch_response_read usz return_id s =
     (let mem_id = memory_id_from_u64 return_id in
      case mas_get mem_id s of
        Ok memory \<Rightarrow>
          (case (case cell_get (ma_cell memory) s of
                   Some item \<Rightarrow> group_from_binary usz [ma_cell memory] item s
                 | None \<Rightarrow> (Err (BR_MemoryError Msg_NoValue), s)) of
             (Panic, s1) \<Rightarrow> (Panic, s1)
           | (result, s1) \<Rightarrow>
               (case mas_deallocate mem_id s1 of
                  (Ok _, s2) \<Rightarrow> (result, s2)
                | (Err err, s2) \<Rightarrow> (Err (binary_error_from_allocation err), s2)
                | (Panic, s2) \<Rightarrow> (Panic, s2)))
      | _ \<Rightarrow> (Panic, s))"

text \<open>The host's call itself is a parameter; it is given where the two buffers are and how long they are.\<close>

definition batch_response ::
    "nat \<Rightarrow> (nat \<Rightarrow> bytes \<Rightarrow> u64) \<Rightarrow> (u64 \<Rightarrow> u64 \<Rightarrow> u64 \<Rightarrow> u64 \<Rightarrow> memory \<Rightarrow> u64 \<times> memory)
      \<Rightarrow> memory_id \<Rightarrow> memory_id \<Rightarrow> memory \<Rightarrow> (binary_read_error, returns list) result \<times> memory" where
  "batch_response usz ptr_of host_batch_returning_apply ops_id text_id s =
     (case (mas_get ops_id s, mas_get text_id s) of
        (Ok operations_memory, Ok text_memory) \<Rightarrow>
          (case (fst (ma_as_address ptr_of operations_memory s), fst (ma_as_address ptr_of text_memory s)) of
             (Ok (ops_pointer, ops_length), Ok (text_pointer, text_length)) \<Rightarrow>
               (case host_batch_returning_apply ops_pointer ops_length text_pointer text_length s of
                  (return_id, s1) \<Rightarrow> batch_response_read usz return_id s1)
           | _ \<Rightarrow> (Panic, s))
      | _ \<Rightarrow> (Panic, s))"

section \<open>What a host sends\<close>

definition group_hint_bytes :: "return_type_hints \<Rightarrow> bytes" where
  "group_hint_bytes hint =
     to_returns_u8 hint #
     (case hint of
        Hint_None \<Rightarrow> []
      | Hint_One st \<Rightarrow> state_to_returns_value_u8 st
      | Hint_List st \<Rightarrow> state_to_returns_value_u8 st
      | Hint_Multi sts \<Rightarrow> le_bytes 2 (of_nat (length sts) :: u16) @ concat (map state_to_returns_value_u8 sts))"

type_synonym group_item = "return_type_hints \<times> memory_id \<times> (memory_id \<times> return_values) list"

definition wire_entry :: "group_item \<Rightarrow> bytes" where
  "wire_entry g = (case g of (hint, mid, _) \<Rightarrow> group_hint_bytes hint @ le_bytes 8 (memory_id_as_u64 mid))"

definition wire_group :: "group_item list \<Rightarrow> bytes" where
  "wire_group gs = group_return_hint_marker_to_u8 GRM_Start # concat (map wire_entry gs)
     @ [group_return_hint_marker_to_u8 GRM_Stop]"

definition group_states :: "return_type_hints \<Rightarrow> nat" where
  "group_states hint = (case hint of Hint_Multi sts \<Rightarrow> length sts | _ \<Rightarrow> 0)"

lemma index_after [simp]:
  "index_at (pre @ a # b # post) (Suc (length pre)) = Ok b"
  "index_at (pre @ a # b # c # post) (Suc (Suc (length pre))) = Ok c"
  "index_at (pre @ a # b # c # d # post) (Suc (Suc (Suc (length pre)))) = Ok d"
  by (simp_all add: index_at_def nth_append)

lemma three_state_id_codes [simp]:
  "three_state_id_from_u8 70 = Some SI_One" "three_state_id_from_u8 80 = Some SI_Two"
  "three_state_id_from_u8 90 = Some SI_Three"
  by (simp_all add: three_state_id_from_u8_def)

lemma read_state_wire:
  "read_state (pre @ state_to_returns_value_u8 st @ post) (length pre)
    = Ok (st, length pre + length (state_to_returns_value_u8 st))"
  by (cases st) (simp_all add: read_state_def read_type_id_def state_to_returns_value_u8_def to_state_id_u8_def
      MOVE_ONE_BYTE_def Let_def return_type_id_code.dec_enc)

lemma read_state_wire_after [simp]:
  "read_state (pre @ b # state_to_returns_value_u8 st @ post) (Suc (length pre))
    = Ok (st, Suc (length pre + length (state_to_returns_value_u8 st)))"
  using read_state_wire [of "pre @ [b]" st post] by simp

lemma read_states_wire:
  "read_states (length sts) (pre @ concat (map state_to_returns_value_u8 sts) @ post) (length pre)
    = Ok (sts, length pre + length (concat (map state_to_returns_value_u8 sts)))"
proof (induction sts arbitrary: pre)
  case (Cons st sts)
  from Cons.IH [of "pre @ state_to_returns_value_u8 st"] show ?case
    by (simp add: read_state_wire add.assoc)
qed simp

lemma read_group_hint_wire:
  assumes "hint \<noteq> Hint_None" "group_states hint < 2 ^ 16"
  shows "(read_group_hint (pre @ group_hint_bytes hint @ post) (length pre) :: ('e, _) result)
    = Ok (hint, length pre + length (group_hint_bytes hint))"
proof -
  have id: "return_ids_from_u8 (to_returns_u8 hint) = Some (to_return_id hint)"
    by (simp add: to_returns_u8_def return_ids_code.dec_enc)
  show ?thesis
  proof (cases hint)
    case (Hint_Multi sts)
    let ?n = "le_bytes 2 (of_nat (length sts) :: u16)"
    let ?bs = "concat (map state_to_returns_value_u8 sts)"
    let ?bin = "pre @ to_returns_u8 hint # ?n @ ?bs @ post"
    have n: "length ?n = 2" "unat (le_word ?n :: u16) = length sts"
      using assms(2) by (simp_all add: Hint_Multi group_states_def unat_of_nat_small)
    have count: "(slice ?bin (Suc (length pre)) (Suc (length pre) + 2) :: ('e, bytes) result) = Ok ?n"
      using slice_middle [of "pre @ [to_returns_u8 hint]" ?n "?bs @ post"] n(1) by simp
    have states: "(read_states (length sts) ?bin (Suc (length pre) + 2) :: ('e, _) result)
        = Ok (sts, Suc (length pre) + 2 + length ?bs)"
      using read_states_wire [of sts "pre @ to_returns_u8 hint # ?n" post] n(1) by (simp add: eval_nat_numeral)
    have "index_at ?bin (length pre) = (Ok (to_returns_u8 hint) :: ('e, u8) result)" by simp
    then have "(read_group_hint ?bin (length pre) :: ('e, _) result) = Ok (Hint_Multi sts, Suc (length pre) + 2 + length ?bs)"
      unfolding read_group_hint_def MOVE_ONE_BYTE_def MOVE_SIXTEEN_BYTES_def Let_def
      by (simp only: id [unfolded Hint_Multi] refl rbind.simps some_or_panic_simps Hint_Multi to_return_id.simps return_ids.case
          copy_from_slice_def n if_True simp_thms count [unfolded Hint_Multi] states [unfolded Hint_Multi] prod.case Suc_eq_plus1 [symmetric])
    then show ?thesis by (simp add: group_hint_bytes_def Hint_Multi)
  next
    case (Hint_One st)
    then show ?thesis using id
      by (simp add: read_group_hint_def group_hint_bytes_def Let_def MOVE_ONE_BYTE_def)
  next
    case (Hint_List st)
    then show ?thesis using id
      by (simp add: read_group_hint_def group_hint_bytes_def Let_def MOVE_ONE_BYTE_def)
  qed (use assms(1) in simp)
qed

section \<open>What an entry leaves alone\<close>

definition same_at :: "memory_id \<Rightarrow> memory \<Rightarrow> memory \<Rightarrow> bool" where
  "same_at k s s' \<longleftrightarrow> (\<forall>h. mas_get k s = Ok h \<longrightarrow> mas_get k s' = Ok h \<and> cell_get (ma_cell h) s' = cell_get (ma_cell h) s)"

lemma same_at_refl [simp]: "same_at k s s"
  by (simp add: same_at_def)

lemma same_at_trans: "same_at k s s1 \<Longrightarrow> same_at k s1 s2 \<Longrightarrow> same_at k s s2"
  by (simp add: same_at_def)

lemma cells_release [simp]: "cell_get c (mem_release k s) = cell_get c s"
  by (simp add: mem_release_def mas_deallocate_def Let_def cell_get_def)

lemma release_same:
  assumes "mem_inv s" "mas_get j s = Ok g" "k \<noteq> j"
  shows "same_at k s (mem_release j s)"
  using mem.release_live_frame [OF assms(1), of j g k] assms(2,3) by (simp add: same_at_def mem_resolve_eq)

lemma put_same:
  assumes "mem_inv s" "mas_get j s = Ok g" "k \<noteq> j"
  shows "same_at k s (cell_put (ma_cell g) None s)"
  using live_cells_distinct [OF assms(1) _ assms(2)] assms(3) by (auto simp: same_at_def)

lemma consume_same:
  assumes "mem_inv s" "backed r \<Longrightarrow> fst r \<noteq> k"
  shows "same_at k s (consume s r)"
proof (cases "backed r \<and> (\<exists>g. mas_get (fst r) s = Ok g)")
  case True
  then obtain g where g: "mas_get (fst r) s = Ok g" by blast
  let ?s = "cell_put (ma_cell g) None s"
  have "same_at k s ?s" using assms True g by (intro put_same) auto
  moreover have "same_at k ?s (mem_release (fst r) ?s)" using assms True g by (intro release_same) auto
  ultimately show ?thesis using True g by (auto simp: consume_def backed_def intro: same_at_trans)
next
  case False
  then have "consume s r = s" by (auto simp: consume_def backed_def split: result.split)
  then show ?thesis by simp
qed

lemma consume_all_inv: "mem_inv s \<Longrightarrow> mem_inv (foldl consume s rs)"
  by (induction rs arbitrary: s) (simp_all add: consume_inv)

lemma foldl_consume_same:
  "mem_inv s \<Longrightarrow> k \<notin> fst ` set (filter backed rs) \<Longrightarrow> same_at k s (foldl consume s rs)"
proof (induction rs arbitrary: s)
  case (Cons r rs)
  have "same_at k s (consume s r)" using Cons.prems by (intro consume_same) auto
  moreover have "same_at k (consume s r) (foldl consume (consume s r) rs)"
    using Cons.prems by (intro Cons.IH consume_inv) auto
  ultimately show ?case by (auto intro: same_at_trans)
qed simp

section \<open>One entry\<close>

definition entry_ids :: "group_item \<Rightarrow> memory_id list" where
  "entry_ids g = (case g of (hint, mid, rs) \<Rightarrow> mid # map fst (filter backed rs))"

definition entry_value :: "nat \<Rightarrow> group_item \<Rightarrow> returns" where
  "entry_value usz g = (case g of (hint, mid, rs) \<Rightarrow>
     (case hint of
        Hint_None \<Rightarrow> Returns_None
      | Hint_One _ \<Rightarrow> Returns_One (last (map (received usz \<circ> snd) rs))
      | Hint_List _ \<Rightarrow> Returns_List (map (received usz \<circ> snd) rs)
      | Hint_Multi _ \<Rightarrow> Returns_Multi (map (received usz \<circ> snd) rs)))"

definition entry_sent :: "group_item \<Rightarrow> returns" where
  "entry_sent g = (case g of (hint, mid, rs) \<Rightarrow>
     (case hint of
        Hint_None \<Rightarrow> Returns_None
      | Hint_One _ \<Rightarrow> Returns_One (last (map snd rs))
      | Hint_List _ \<Rightarrow> Returns_List (map snd rs)
      | Hint_Multi _ \<Rightarrow> Returns_Multi (map snd rs)))"

text \<open>What a host promises of an entry.\<close>

definition entry_ok :: "group_item \<Rightarrow> bool" where
  "entry_ok g \<longleftrightarrow> (case g of (hint, mid, rs) \<Rightarrow>
     hint \<noteq> Hint_None \<and> group_states hint < 2 ^ 16 \<and> accepts_all hint 0 (map snd rs) \<and> (\<forall>r \<in> set rs. text_ok (snd r))
     \<and> (case hint of Hint_One _ \<Rightarrow> length rs = 1 | _ \<Rightarrow> True))"

definition entry_float :: "group_item \<Rightarrow> bool" where
  "entry_float g \<longleftrightarrow> (case g of (hint, mid, rs) \<Rightarrow> \<exists>r \<in> set rs. is_float64 (snd r))"

definition entry_faithful :: "nat \<Rightarrow> group_item \<Rightarrow> bool" where
  "entry_faithful usz g \<longleftrightarrow> (case g of (hint, mid, rs) \<Rightarrow> \<forall>r \<in> set rs. faithful usz (snd r))"

lemma entry_sent_faithful: "entry_ok g \<Longrightarrow> entry_value usz g = entry_sent g \<longleftrightarrow> entry_faithful usz g"
proof -
  obtain hint mid rs where g: "g = (hint, mid, rs)" by (cases g) auto
  show "entry_ok g \<Longrightarrow> ?thesis"
    by (cases hint) (auto simp: g entry_ok_def entry_value_def entry_sent_def entry_faithful_def received_faithful length_Suc_conv)
qed

definition entry_placed :: "nat list \<Rightarrow> memory \<Rightarrow> group_item \<Rightarrow> bool" where
  "entry_placed held s g \<longleftrightarrow> (case g of (hint, mid, rs) \<Rightarrow>
     (\<exists>h. mas_get mid s = Ok h \<and> ma_cell h \<notin> set held \<and> cell_get (ma_cell h) s = Some (wire_replies rs))
     \<and> (\<forall>r \<in> set rs. ready held s r))"

definition entry_after :: "memory \<Rightarrow> group_item \<Rightarrow> memory" where
  "entry_after s g = (case g of (hint, mid, rs) \<Rightarrow> mem_release mid (foldl consume s rs))"

lemma ready_beside:
  assumes "mem_inv s" "mas_get mid s = Ok h" "ready held s r" "backed r \<Longrightarrow> fst r \<noteq> mid"
  shows "ready (ma_cell h # held) s r"
  using assms live_cells_distinct [OF assms(1) _ assms(2), of "fst r"]
  by (auto simp: ready_def backed_def split: option.splits)

lemma group_value_ok:
  assumes "entry_ok (hint, mid, rs)"
  shows "group_value hint (map (received usz \<circ> snd) rs) = Ok (entry_value usz (hint, mid, rs))"
  using assms by (cases hint) (auto simp: entry_ok_def group_value_def entry_value_def)

lemma group_reply_ok:
  assumes inv: "mem_inv s" and ok: "entry_ok (hint, mid, rs)" and no: "\<not> entry_float (hint, mid, rs)" and placed: "entry_placed held s (hint, mid, rs)"
    and ids: "distinct (entry_ids (hint, mid, rs))"
  shows "group_reply usz held hint mid s = (Ok (entry_value usz (hint, mid, rs)), entry_after s (hint, mid, rs))"
proof -
  obtain h where h: "mas_get mid s = Ok h" "ma_cell h \<notin> set held" "cell_get (ma_cell h) s = Some (wire_replies rs)"
    and r: "\<forall>r \<in> set rs. ready held s r" using placed by (auto simp: entry_placed_def)
  have mid: "mid \<notin> fst ` set (filter backed rs)" and d: "distinct (map fst (filter backed rs))"
    using ids by (simp_all add: entry_ids_def)
  have f: "readable (snd r)" if "r \<in> set rs" for r
    using that ok no by (auto simp: entry_ok_def entry_float_def readable_iff)
  have "ready_all (ma_cell h # held) s rs"
  proof (rule ready_all_distinct [OF inv _ d], rule ballI)
    fix r assume "r \<in> set rs"
    then show "readable (snd r) \<and> ready (ma_cell h # held) s r"
      using f r mid by (auto intro!: ready_beside [OF inv h(1)])
  qed
  then have "from_binary usz (ma_cell h # held) hint (wire_replies rs) s
      = (Ok (map (received usz \<circ> snd) rs), foldl consume s rs)"
    using from_binary_replies [of "ma_cell h # held" s rs hint usz] ok by (simp add: entry_ok_def)
  moreover have "mas_get mid (foldl consume s rs) = Ok h"
    using foldl_consume_same [OF inv mid] h(1) by (simp add: same_at_def)
  then have "mas_deallocate mid (foldl consume s rs) = (Ok (), entry_after s (hint, mid, rs))"
    by (auto simp: mas_get_Ok mas_deallocate_def mem_release_def entry_after_def split: if_splits)
  ultimately show ?thesis
    using h group_value_ok [OF ok, of usz]
    by (simp add: group_reply_def bind_def lift_result_run exec_map_err_def ret_run)
qed

lemma group_entry_wire:
  assumes "mem_inv s" "entry_ok g" "\<not> entry_float g" "entry_placed held s g" "distinct (entry_ids g)"
  shows "group_entry usz held (pre @ wire_entry g @ post) (length pre) s
    = (Ok (entry_value usz g, length (pre @ wire_entry g)), entry_after s g)"
proof -
  obtain hint mid rs where g: "g = (hint, mid, rs)" by (cases g) auto
  let ?b = "group_hint_bytes hint" and ?m = "le_bytes 8 (memory_id_as_u64 mid)"
  let ?bin = "pre @ ?b @ ?m @ post"
  have h: "(read_group_hint ?bin (length pre) :: (binary_read_error, _) result) = Ok (hint, length pre + length ?b)"
    using assms(2) by (intro read_group_hint_wire) (auto simp: g entry_ok_def)
  have "slice ?bin (length (pre @ ?b)) (length (pre @ ?b) + 8) = (Ok ?m :: (binary_read_error, bytes) result)"
    using slice_le_bytes [of "pre @ ?b" 8 "memory_id_as_u64 mid" post] by simp
  then have "read_memory_id ?bin (length pre + length ?b) (length pre + length ?b + 8) s = (Ok mid, s)"
    by (simp add: read_memory_id_def copy_from_slice_def lift_result_run)
  then show ?thesis
    using h group_reply_ok [of s hint mid rs held usz] assms
    by (simp add: g wire_entry_def group_entry_def bind_def lift_result_run ret_run Let_def MOVE_SIXTY_FOUR_BYTES_def)
qed

lemma entry_after_inv: "mem_inv s \<Longrightarrow> mem_inv (entry_after s g)"
  by (cases g) (simp add: entry_after_def mem.release_inv consume_all_inv)

lemma entry_after_same:
  assumes "mem_inv s" "entry_placed held s g" "distinct (entry_ids g)" "k \<notin> set (entry_ids g)"
  shows "same_at k s (entry_after s g)"
proof -
  obtain hint mid rs where g: "g = (hint, mid, rs)" by (cases g) auto
  let ?s = "foldl consume s rs"
  have "same_at k s ?s" "same_at mid s ?s"
    using assms by (auto simp: g entry_ids_def intro!: foldl_consume_same)
  moreover obtain h where "mas_get mid s = Ok h" using assms(2) by (auto simp: g entry_placed_def)
  ultimately have "same_at k ?s (mem_release mid ?s)"
    using assms(1,4) by (intro release_same [OF consume_all_inv]) (auto simp: same_at_def g entry_ids_def)
  then show ?thesis using \<open>same_at k s ?s\<close> by (auto simp: g entry_after_def intro: same_at_trans)
qed

lemma release_dead_stays: "mas_get k s = Err MA_InvalidAllocationId \<Longrightarrow> mas_get k (mem_release j s) = Err MA_InvalidAllocationId"
  by (rule mas_get_not_Ok) (auto simp: mem_release_def mas_deallocate_def mas_get_def Let_def split: if_splits)

lemma entry_after_dead:
  assumes "mas_get k s = Err MA_InvalidAllocationId" shows "mas_get k (entry_after s g) = Err MA_InvalidAllocationId"
  using assms by (cases g) (auto simp: entry_after_def foldl_consume_dead release_dead_stays)

lemma entry_after_releases:
  assumes "mem_inv s" "entry_ok g" "\<not> entry_float g" "entry_placed held s g" "distinct (entry_ids g)" "k \<in> set (entry_ids g)"
  shows "mas_get k (entry_after s g) = Err MA_InvalidAllocationId"
proof -
  obtain hint mid rs where g: "g = (hint, mid, rs)" by (cases g) auto
  have "ready_all held s rs"
    using assms by (intro ready_all_distinct) (auto simp: g entry_ok_def entry_float_def entry_placed_def entry_ids_def readable_iff)
  then have "mas_get (fst r) (foldl consume s rs) = Err MA_InvalidAllocationId" if "r \<in> set rs" "backed r" for r
    using foldl_consume_releases [OF assms(1)] that by blast
  moreover have "mas_get mid (mem_release mid (foldl consume s rs)) = Err MA_InvalidAllocationId"
    using mem.release_dead [OF consume_all_inv [OF assms(1)]] by (simp add: mem_resolve_None)
  ultimately show ?thesis using assms(6) by (auto simp: g entry_after_def entry_ids_def release_dead_stays)
qed

lemma entry_placed_same:
  assumes "entry_placed held s g" "\<And>k. k \<in> set (entry_ids g) \<Longrightarrow> same_at k s s'"
  shows "entry_placed held s' g"
proof -
  obtain hint mid rs where g: "g = (hint, mid, rs)" by (cases g) auto
  have "ready held s' r" if "r \<in> set rs" "ready held s r" for r
    using that assms(2) [of "fst r"] by (auto simp: g entry_ids_def ready_def same_at_def backed_def split: option.splits)
  then show ?thesis using assms(1) assms(2) [of mid] by (auto simp: g entry_ids_def entry_placed_def same_at_def)
qed

section \<open>A group\<close>

definition group_placed :: "nat list \<Rightarrow> memory \<Rightarrow> group_item list \<Rightarrow> bool" where
  "group_placed held s gs \<longleftrightarrow> (\<forall>g \<in> set gs. entry_ok g \<and> \<not> entry_float g \<and> entry_placed held s g)
     \<and> distinct (concat (map entry_ids gs))"

lemma group_placed_Cons:
  assumes "mem_inv s" "group_placed held s (g # gs)"
  shows "group_placed held (entry_after s g) gs"
proof -
  note placed = assms(2) [unfolded group_placed_def]
  have d: "distinct (entry_ids g)" "distinct (concat (map entry_ids gs))"
    "set (entry_ids g) \<inter> set (concat (map entry_ids gs)) = {}"
    using placed by auto
  have "entry_placed held (entry_after s g) g'" if "g' \<in> set gs" for g'
  proof (rule entry_placed_same)
    show "entry_placed held s g'" using placed that by simp
    fix k assume "k \<in> set (entry_ids g')"
    then have "k \<notin> set (entry_ids g)" using d(3) that by auto
    then show "same_at k s (entry_after s g)" using placed by (intro entry_after_same [OF assms(1) _ d(1)]) auto
  qed
  then show ?thesis using placed d(2) by (simp add: group_placed_def)
qed

text \<open>Entries without a \<open>Float64\<close> are read and the parse goes on behind them.\<close>

lemma group_entries_prefix:
  assumes "mem_inv s" "group_placed held s gs"
  shows "group_entries usz held (pre @ concat (map wire_entry gs) @ post) (length pre) s
    = (case group_entries usz held (pre @ concat (map wire_entry gs) @ post) (length (pre @ concat (map wire_entry gs)))
          (foldl entry_after s gs) of
         (r, s') \<Rightarrow> (rbind r (\<lambda>vs. Ok (map (entry_value usz) gs @ vs)), s'))"
  using assms
proof (induction gs arbitrary: s pre)
  case Nil
  have "rbind r Ok = r" for r :: "(binary_read_error, returns list) result" by (cases r) simp_all
  then show ?case by (simp split: prod.split)
next
  case (Cons g gs)
  let ?bin = "pre @ wire_entry g @ concat (map wire_entry gs) @ post"
  have e: "group_entry usz held ?bin (length pre) s
      = (Ok (entry_value usz g, length (pre @ wire_entry g)), entry_after s g)"
    using Cons.prems by (intro group_entry_wire) (auto simp: group_placed_def)
  have IH: "group_entries usz held ((pre @ wire_entry g) @ concat (map wire_entry gs) @ post) (length (pre @ wire_entry g))
        (entry_after s g)
      = (case group_entries usz held ((pre @ wire_entry g) @ concat (map wire_entry gs) @ post)
            (length ((pre @ wire_entry g) @ concat (map wire_entry gs))) (foldl entry_after (entry_after s g) gs) of
           (r, s') \<Rightarrow> (rbind r (\<lambda>vs. Ok (map (entry_value usz) gs @ vs)), s'))"
    by (intro Cons.IH entry_after_inv group_placed_Cons Cons.prems)
  have "rbind (rbind x (\<lambda>vs. Ok (us @ vs))) (\<lambda>vs. Ok (u # vs)) = rbind x (\<lambda>vs. Ok (u # us @ vs))"
    for x :: "(binary_read_error, returns list) result" and u us by (cases x) simp_all
  moreover have "length pre < length ?bin" using group_entry_end [OF e] by simp
  ultimately show ?case using e IH by (subst group_entries.simps) (simp split: prod.split)
qed

lemma group_from_binary_entries:
  "group_from_binary usz held (wire_group gs) s = group_entries usz held (concat (map wire_entry gs)) 0 s"
  by (simp add: group_from_binary_def wire_group_def bind_def lift_result_run index_at_def slice_def nth_append)

lemma group_from_binary_wire:
  assumes "mem_inv s" "group_placed held s gs"
  shows "group_from_binary usz held (wire_group gs) s = (Ok (map (entry_value usz) gs), foldl entry_after s gs)"
  using group_entries_prefix [OF assms, of usz "[]" "[]"] by (simp add: group_from_binary_entries group_entries.simps)

lemma foldl_entry_after_inv: "mem_inv s \<Longrightarrow> mem_inv (foldl entry_after s gs)"
  by (induction gs arbitrary: s) (simp_all add: entry_after_inv)

lemma foldl_entry_after_dead:
  "mas_get k s = Err MA_InvalidAllocationId \<Longrightarrow> mas_get k (foldl entry_after s gs) = Err MA_InvalidAllocationId"
  by (induction gs arbitrary: s) (simp_all add: entry_after_dead)

lemma foldl_entry_after_releases:
  assumes "mem_inv s" "group_placed held s gs" "g \<in> set gs" "k \<in> set (entry_ids g)"
  shows "mas_get k (foldl entry_after s gs) = Err MA_InvalidAllocationId"
  using assms
proof (induction gs arbitrary: s)
  case (Cons g' gs)
  show ?case
  proof (cases "g = g'")
    case True
    then have "mas_get k (entry_after s g') = Err MA_InvalidAllocationId"
      using Cons.prems by (intro entry_after_releases [of s _ held]) (auto simp: group_placed_def)
    then show ?thesis by (simp add: foldl_entry_after_dead)
  next
    case False
    then show ?thesis
      using Cons.IH [OF entry_after_inv group_placed_Cons] Cons.prems by simp
  qed
qed simp

lemma foldl_entry_after_same:
  assumes "mem_inv s" "group_placed held s gs" "\<And>g. g \<in> set gs \<Longrightarrow> k \<notin> set (entry_ids g)"
  shows "same_at k s (foldl entry_after s gs)"
  using assms
proof (induction gs arbitrary: s)
  case (Cons g gs)
  have "same_at k s (entry_after s g)"
    using Cons.prems by (intro entry_after_same [of s held]) (auto simp: group_placed_def)
  moreover have "same_at k (entry_after s g) (foldl entry_after (entry_after s g) gs)"
    using Cons.prems by (intro Cons.IH entry_after_inv group_placed_Cons) auto
  ultimately show ?case by (auto intro: same_at_trans)
qed simp

lemma group_placed_append:
  assumes "mem_inv s" "group_placed held s as" "entry_placed held s g" "set (entry_ids g) \<inter> set (concat (map entry_ids as)) = {}"
  shows "entry_placed held (foldl entry_after s as) g"
  using assms(4) by (intro entry_placed_same [OF assms(3)] foldl_entry_after_same [OF assms(1,2)]) auto

lemma group_entry_float:
  assumes "mem_inv s" "entry_ok g" "entry_float g" "entry_placed held s g" "distinct (entry_ids g)"
  shows "fst (group_entry usz held (pre @ wire_entry g @ post) (length pre) s) = Panic"
proof -
  obtain hint mid rs where g: "g = (hint, mid, rs)" by (cases g) auto
  obtain h where h: "mas_get mid s = Ok h" "ma_cell h \<notin> set held" "cell_get (ma_cell h) s = Some (wire_replies rs)"
    and r: "\<forall>r \<in> set rs. ready held s r" using assms(4) by (auto simp: g entry_placed_def)
  have "text_ok (snd r) \<and> ready (ma_cell h # held) s r" if "r \<in> set rs" for r
    using that assms(2,5) r by (auto simp: g entry_ok_def entry_ids_def intro!: ready_beside [OF assms(1) h(1)])
  then obtain s' where f: "from_binary usz (ma_cell h # held) hint (wire_replies rs) s = (Panic, s')"
    using from_binary_float [OF assms(1), of rs "ma_cell h # held" hint usz] assms(2,3,5)
    by (auto simp: g entry_ok_def entry_float_def entry_ids_def)
  let ?b = "group_hint_bytes hint" and ?m = "le_bytes 8 (memory_id_as_u64 mid)"
  let ?bin = "pre @ ?b @ ?m @ post"
  have i: "(read_group_hint ?bin (length pre) :: (binary_read_error, _) result) = Ok (hint, length pre + length ?b)"
    using assms(2) by (intro read_group_hint_wire) (auto simp: g entry_ok_def)
  have "slice ?bin (length (pre @ ?b)) (length (pre @ ?b) + 8) = (Ok ?m :: (binary_read_error, bytes) result)"
    using slice_le_bytes [of "pre @ ?b" 8 "memory_id_as_u64 mid" post] by simp
  then have "read_memory_id ?bin (length pre + length ?b) (length pre + length ?b + 8) s = (Ok mid, s)"
    by (simp add: read_memory_id_def copy_from_slice_def lift_result_run)
  then show ?thesis
    using i f h by (simp add: g wire_entry_def group_entry_def group_reply_def bind_def lift_result_run Let_def)
qed

lemma group_from_binary_float:
  assumes "mem_inv s" "\<And>g. g \<in> set gs \<Longrightarrow> entry_ok g \<and> entry_placed held s g" "distinct (concat (map entry_ids gs))"
    and "\<exists>g \<in> set gs. entry_float g"
  shows "fst (group_from_binary usz held (wire_group gs) s) = Panic"
proof -
  obtain as g bs where gs: "gs = as @ g # bs" and g: "entry_float g" and as: "\<forall>g' \<in> set as. \<not> entry_float g'"
    using split_list_first_prop [OF assms(4)] by blast
  have placed: "group_placed held s as" using assms(2,3) as by (simp add: gs group_placed_def)
  let ?s = "foldl entry_after s as" and ?pre = "concat (map wire_entry as)" and ?post = "concat (map wire_entry bs)"
  have p: "entry_placed held ?s g" using assms(2,3) by (intro group_placed_append [OF assms(1) placed]) (auto simp: gs)
  have "fst (group_entry usz held (?pre @ wire_entry g @ ?post) (length ?pre) ?s) = Panic"
    using assms(2,3) by (intro group_entry_float [OF foldl_entry_after_inv [OF assms(1)] _ g p]) (auto simp: gs)
  then obtain s' where e: "group_entry usz held (?pre @ wire_entry g @ ?post) (length ?pre) ?s = (Panic, s')"
    by (metis prod.collapse)
  have "0 < length (wire_entry g)" by (cases g) (simp add: wire_entry_def)
  then have "group_entries usz held (?pre @ wire_entry g @ ?post) (length ?pre) ?s = (Panic, s')"
    using e by (subst group_entries.simps) simp
  then show ?thesis
    using group_entries_prefix [OF assms(1) placed, of usz "[]" "wire_entry g @ ?post"]
    by (simp add: group_from_binary_entries gs)
qed

section \<open>Properties\<close>

text \<open>C3: what the reply to a batch becomes. A host puts each reply of the batch into an allocation of its own,
  with its hint, which admits it, and the identifier in the group, and the group into one more; text is in UTF-8.
  If one of the values is a \<open>Float64\<close>, reading panics. Otherwise the guest gets one entry for each hint, in
  order, with \<open>received\<close> of each value, and every allocation that carried them is released, the group's too; the
  entries are what was sent exactly when no wide array has more than one element, no \<open>i128\<close> has bit 63 set under
  other upper bits, and no slice has an address beyond a pointer.\<close>

theorem batch_response_round_trip:
  assumes "mem_inv s" "mas_get mid s = Ok h" "cell_get (ma_cell h) s = Some (wire_group gs)"
    and "\<And>g. g \<in> set gs \<Longrightarrow> entry_ok g \<and> entry_placed [] s g" "distinct (mid # concat (map entry_ids gs))"
  shows "if \<exists>g \<in> set gs. entry_float g then fst (batch_response_read usz (memory_id_as_u64 mid) s) = Panic
    else \<exists>s'. batch_response_read usz (memory_id_as_u64 mid) s = (Ok (map (entry_value usz) gs), s') \<and> mem_inv s'
      \<and> (\<forall>k \<in> set (mid # concat (map entry_ids gs)). mas_get k s' = Err MA_InvalidAllocationId)
      \<and> (map (entry_value usz) gs = map entry_sent gs \<longleftrightarrow> (\<forall>g \<in> set gs. entry_faithful usz g))"
proof -
  let ?s = "foldl entry_after s gs"
  have other: "k \<noteq> mid" if "k \<in> set (entry_ids g)" "g \<in> set gs" for k g using assms(5) that by auto
  have put: "entry_placed [ma_cell h] s g" if g: "g \<in> set gs" for g
  proof -
    have "ready [ma_cell h] s r" if "ready [] s r" "backed r \<Longrightarrow> fst r \<noteq> mid" for r
      using ready_beside [OF assms(1,2) that] .
    moreover have "ma_cell h' \<noteq> ma_cell h" if "mas_get k s = Ok h'" "k \<noteq> mid" for k h'
      using live_cells_distinct [OF assms(1) that(1) assms(2) that(2)] .
    ultimately show ?thesis
      using assms(4) [OF g] other [OF _ g] by (cases g) (auto simp: entry_placed_def entry_ids_def)
  qed
  show ?thesis
  proof (cases "\<exists>g \<in> set gs. entry_float g")
    case True
    have "fst (group_from_binary usz [ma_cell h] (wire_group gs) s) = Panic"
      using assms(4,5) put by (intro group_from_binary_float [OF assms(1) _ _ True]) auto
    then obtain s' where "group_from_binary usz [ma_cell h] (wire_group gs) s = (Panic, s')"
      by (metis prod.collapse)
    then show ?thesis
      using True assms(2,3) by (simp add: batch_response_read_def)
  next
    case False
    then have placed: "group_placed [ma_cell h] s gs" using assms(4,5) put by (simp add: group_placed_def)
    have read: "group_from_binary usz [ma_cell h] (wire_group gs) s = (Ok (map (entry_value usz) gs), ?s)"
      by (rule group_from_binary_wire [OF assms(1) placed])
    have "mas_get mid ?s = Ok h"
      using foldl_entry_after_same [OF assms(1) placed, of mid] other assms(2) by (auto simp: same_at_def)
    then have free: "mas_deallocate mid ?s = (Ok (), mem_release mid ?s)"
      by (auto simp: mas_get_Ok mas_deallocate_def mem_release_def split: if_splits)
    have inv: "mem_inv ?s" by (rule foldl_entry_after_inv [OF assms(1)])
    have "mas_get k (mem_release mid ?s) = Err MA_InvalidAllocationId" if "k \<in> set (mid # concat (map entry_ids gs))" for k
      using that mem.release_dead [OF inv, of mid]
      by (cases "k = mid") (auto simp: mem_resolve_None intro!: release_dead_stays foldl_entry_after_releases [OF assms(1) placed])
    moreover have "batch_response_read usz (memory_id_as_u64 mid) s = (Ok (map (entry_value usz) gs), mem_release mid ?s)"
      by (simp add: batch_response_read_def assms(2,3) read free)
    ultimately show ?thesis
      using False mem.release_inv [OF inv, of mid] entry_sent_faithful assms(4) by auto
  qed
qed

text \<open>The markers of a group are checked before anything is read, and an empty buffer panics.\<close>

lemma group_markers_checked:
  "b \<noteq> group_return_hint_marker_to_u8 GRM_Start \<Longrightarrow> group_from_binary usz held (b # bs) s = (Err (BR_WrongStarterCode b), s)"
  "b = group_return_hint_marker_to_u8 GRM_Start \<Longrightarrow> bs \<noteq> [] \<Longrightarrow> last bs \<noteq> group_return_hint_marker_to_u8 GRM_Stop \<Longrightarrow>
     group_from_binary usz held (b # bs) s = (Err (BR_WrongEndingCode (last bs)), s)"
  "group_from_binary usz held [] s = (Panic, s)"
  by (simp_all add: group_from_binary_def bind_def lift_result_run fail_run index_at_def last_conv_nth)

section \<open>Witness\<close>

definition one_group :: "group_item list" where
  "one_group = [(Hint_One (State_One RT_Bool), MemoryId 0 0, [(MemoryId 9 9, RV_Bool True)])]"

definition with_group :: memory where
  "with_group = \<lparr>cells = [Some (wire_replies [(MemoryId 9 9, RV_Bool True)]), Some (wire_group one_group)],
     allocs = [(0, MemoryAllocation 0), (0, MemoryAllocation 1)], free = []\<rparr>"

theorem batch_response_round_trip_witness:
  "fst (batch_response_read 4 (memory_id_as_u64 (MemoryId 1 0)) with_group) = Ok [Returns_One (RV_Bool True)]"
proof -
  have inv: "mem_inv with_group" by (auto simp: mem_inv_def with_group_def)
  have "mas_get (MemoryId 1 0) with_group = Ok (MemoryAllocation 1)"
    "cell_get (ma_cell (MemoryAllocation 1)) with_group = Some (wire_group one_group)"
    by (simp_all add: with_group_def mas_get_def cell_get_def)
  from batch_response_round_trip [OF inv this, of 4] show ?thesis
    by (auto simp: one_group_def entry_ok_def entry_placed_def entry_ids_def entry_value_def group_states_def accepts_def
        entry_float_def is_float64_def text_ok_def received_def ready_def backing_def backed_def with_group_def mas_get_def cell_get_def)
qed

end
