(* ===== verification/Streams.thy ===== *)
theory Streams
  imports Prelude
begin

text \<open>
  Byte streams as \<open>std::io\<close> gives them. A reader is the list of what its next calls of \<open>read\<close> will
  find: bytes that have arrived, an empty chunk for a \<open>read\<close> that returns 0, or an error; past the end
  of the list every \<open>read\<close> returns 0. A writer is what it has put out so far and the answers of its next
  calls of \<open>write\<close> and \<open>flush\<close>; past the end of the lists they take everything. \<open>read_exact\<close> and
  \<open>write_all\<close> are the loops of the standard library over \<open>read\<close> and \<open>write\<close>.
\<close>

datatype io_kind = WouldBlock | TimedOut | UnexpectedEof | Interrupted | WriteZero | OtherIo nat

section \<open>Reading\<close>

datatype read_event = Chunk bytes | Fault io_kind

type_synonym reader = "read_event list"

fun read_some :: "nat \<Rightarrow> (reader, io_kind, bytes) exec" where
  "read_some n [] = (Ok [], [])"
| "read_some n (Fault k # es) = (Err k, es)"
| "read_some n (Chunk bs # es) =
     (if length bs \<le> n then (Ok bs, es) else (Ok (take n bs), Chunk (drop n bs) # es))"

fun read_exact :: "nat \<Rightarrow> (reader, io_kind, bytes) exec" where
  "read_exact n [] = (if n = 0 then (Ok [], []) else (Err UnexpectedEof, []))"
| "read_exact n (Fault k # es) =
     (if n = 0 then (Ok [], Fault k # es)
      else if k = Interrupted then read_exact n es
      else (Err k, es))"
| "read_exact n (Chunk bs # es) =
     (if n = 0 then (Ok [], Chunk bs # es)
      else if bs = [] then (Err UnexpectedEof, es)
      else if n < length bs then (Ok (take n bs), Chunk (drop n bs) # es)
      else
        (case read_exact (n - length bs) es of
           (Ok more, es') \<Rightarrow> (Ok (bs @ more), es')
         | (Err k, es') \<Rightarrow> (Err k, es')
         | (Panic, es') \<Rightarrow> (Panic, es')))"

text \<open>A reader that only delivers, in pieces of any size and with any interruptions, and what it
  delivers.\<close>

fun delivers :: "reader \<Rightarrow> bool" where
  "delivers [] = True"
| "delivers (Chunk bs # es) = (bs \<noteq> [] \<and> delivers es)"
| "delivers (Fault k # es) = (k = Interrupted \<and> delivers es)"

fun delivery :: "reader \<Rightarrow> bytes" where
  "delivery [] = []"
| "delivery (Chunk bs # es) = bs @ delivery es"
| "delivery (Fault k # es) = delivery es"

lemma read_exact_0 [simp]: "read_exact 0 es = (Ok [], es)"
  by (cases es; cases "hd es") auto

text \<open>However the bytes come in, \<open>read_exact\<close> takes the first \<open>n\<close> and leaves the rest.\<close>

lemma read_exact_enough:
  assumes "delivers es" "n \<le> length (delivery es)"
  shows "\<exists>es'. read_exact n (es @ later) = (Ok (take n (delivery es)), es' @ later)
    \<and> delivers es' \<and> delivery es' = drop n (delivery es)"
  using assms
proof (induction es arbitrary: n)
  case Nil
  then show ?case by auto
next
  case (Cons e es)
  show ?case
  proof (cases e)
    case (Fault k)
    with Cons show ?thesis by (cases "n = 0") (auto intro!: exI [of _ "e # es"])
  next
    case (Chunk bs)
    consider "n = 0" | "0 < n" "n < length bs" | "0 < n" "length bs \<le> n" by linarith
    then show ?thesis
    proof cases
      case 1
      then show ?thesis using Cons.prems by (intro exI [of _ "e # es"]) simp
    next
      case 2
      then show ?thesis using Cons.prems Chunk by (intro exI [of _ "Chunk (drop n bs) # es"]) auto
    next
      case 3
      have "n - length bs \<le> length (delivery es)" using Cons.prems(2) Chunk 3 by simp
      with Cons.IH [of "n - length bs"] Cons.prems(1) Chunk obtain es' where "read_exact (n - length bs) (es @ later)
          = (Ok (take (n - length bs) (delivery es)), es' @ later)"
        "delivers es'" "delivery es' = drop (n - length bs) (delivery es)"
        by auto
      then show ?thesis using 3 Cons.prems Chunk by (intro exI [of _ es']) auto
    qed
  qed
qed

text \<open>Without interruptions.\<close>

fun arrives :: "reader \<Rightarrow> bool" where
  "arrives [] = True"
| "arrives (Chunk bs # es) = (bs \<noteq> [] \<and> arrives es)"
| "arrives (Fault k # es) = False"

lemma arrives_delivers: "arrives es \<Longrightarrow> delivers es"
  by (induction es rule: arrives.induct) simp_all

lemma read_exact_arrives: "arrives es \<Longrightarrow> arrives (snd (read_exact n es))"
  by (induction n es rule: read_exact.induct) (auto split: prod.splits result.splits)

text \<open>When the bytes run out, \<open>read_exact\<close> ends as the next call of \<open>read\<close> does.\<close>

lemma read_exact_short:
  assumes "delivers es" "length (delivery es) < n" "k \<noteq> Interrupted"
  shows "read_exact n (es @ Fault k # later) = (Err k, later)"
    and "read_exact n (es @ Chunk [] # later) = (Err UnexpectedEof, later)"
    and "read_exact n es = (Err UnexpectedEof, [])"
  using assms by (induction es arbitrary: n rule: delivers.induct) auto

section \<open>Writing\<close>

datatype write_event = Took nat | Refused io_kind

record writer =
  w_out :: bytes
  w_writes :: "write_event list"
  w_flushes :: "io_kind option list"

fun write_each :: "bytes \<Rightarrow> write_event list \<Rightarrow> (io_kind, unit) result \<times> bytes \<times> write_event list" where
  "write_each bs [] = (Ok (), bs, [])"
| "write_each bs (Took n # ws) =
     (if bs = [] then (Ok (), [], Took n # ws)
      else if n = 0 then (Err WriteZero, [], ws)
      else (case write_each (drop n bs) ws of (r, out, ws') \<Rightarrow> (r, take n bs @ out, ws')))"
| "write_each bs (Refused k # ws) =
     (if bs = [] then (Ok (), [], Refused k # ws)
      else if k = Interrupted then write_each bs ws
      else (Err k, [], ws))"

definition write_all :: "bytes \<Rightarrow> (writer, io_kind, unit) exec" where
  "write_all bs w =
     (case write_each bs (w_writes w) of
        (r, out, ws) \<Rightarrow> (r, w\<lparr>w_out := w_out w @ out, w_writes := ws\<rparr>))"

definition flush_writer :: "(writer, io_kind, unit) exec" where
  "flush_writer w =
     (case w_flushes w of
        [] \<Rightarrow> (Ok (), w)
      | f # fs \<Rightarrow> ((case f of None \<Rightarrow> Ok () | Some k \<Rightarrow> Err k), w\<lparr>w_flushes := fs\<rparr>))"

lemma write_each_out:
  "write_each bs ws = (r, out, ws') \<Longrightarrow> r \<noteq> Panic \<and> (\<exists>rest. bs = out @ rest) \<and> (r = Ok () \<longrightarrow> out = bs)"
proof (induction bs ws arbitrary: r out ws' rule: write_each.induct)
  case (2 bs n ws)
  show ?case
  proof (cases "bs = [] \<or> n = 0")
    case False
    then obtain out1 where w: "write_each (drop n bs) ws = (r, out1, ws')" "out = take n bs @ out1"
      using "2.prems" by (auto split: prod.splits)
    from "2.IH" [OF _ _ w(1)] False have "r \<noteq> Panic" "\<exists>rest. drop n bs = out1 @ rest" "r = Ok () \<longrightarrow> out1 = drop n bs"
      by auto
    then show ?thesis using w(2) by (metis append.assoc append_take_drop_id)
  qed (use "2.prems" in \<open>auto split: if_splits\<close>)
qed (auto split: if_splits)

lemma write_all_Ok:
  "write_all bs w = (Ok (), w') \<Longrightarrow> w_out w' = w_out w @ bs \<and> w_flushes w' = w_flushes w"
  by (auto simp: write_all_def dest!: write_each_out split: prod.splits)

lemma write_all_prefix:
  "write_all bs w = (r, w') \<Longrightarrow> r \<noteq> Panic \<and> (\<exists>out rest. bs = out @ rest \<and> w_out w' = w_out w @ out)"
  by (auto simp: write_all_def dest!: write_each_out split: prod.splits)

lemma flush_writer_out:
  "flush_writer w = (r, w') \<Longrightarrow> r \<noteq> Panic \<and> w_out w' = w_out w \<and> w_writes w' = w_writes w"
  by (auto simp: flush_writer_def split: list.splits option.splits)

end
