(* ===== verification/Utf8.thy ===== *)
theory Utf8
  imports Prelude
begin

text \<open>
  The UTF-8 decoder of the standard library as far as the code sees it: what \<open>str::from_utf8\<close> reports
  about a wrong text (\<open>valid_up_to\<close>, and \<open>error_len\<close>, which is \<open>None\<close> when the text only ends too
  early), and the replacement of \<open>String::from_utf8_lossy\<close>. Both step from character to character with
  \<open>utf8_first\<close>; \<open>utf8_valid\<close> of Prelude is the reference they are proved against.
\<close>

section \<open>One character\<close>

text \<open>What the front of a text that is not empty is: a character of \<open>n\<close> bytes, \<open>n\<close> bytes that no
  continuation can mend, or the beginning of a character.\<close>

datatype utf8_step = Char nat | Bad nat | Cut

text \<open>The bytes after the first: each has its own range, and the first one outside it ends what cannot be
  mended.\<close>

fun utf8_follow :: "nat \<Rightarrow> (u8 \<Rightarrow> bool) list \<Rightarrow> bytes \<Rightarrow> utf8_step" where
  "utf8_follow n [] bs = Char n"
| "utf8_follow n (p # ps) [] = Cut"
| "utf8_follow n (p # ps) (c # cs) = (if p c then utf8_follow (n + 1) ps cs else Bad n)"

definition utf8_first :: "bytes \<Rightarrow> utf8_step" where
  "utf8_first bs =
     (case bs of
        [] \<Rightarrow> Cut
      | b # cs \<Rightarrow>
          if b < 0x80 then Char 1
          else if utf8_lead2 b then utf8_follow 1 [utf8_cont] cs
          else if 0xE0 \<le> b \<and> b \<le> 0xEF then utf8_follow 1 [utf8_lead3 b, utf8_cont] cs
          else if 0xF0 \<le> b \<and> b \<le> 0xF4 then utf8_follow 1 [utf8_lead4 b, utf8_cont, utf8_cont] cs
          else Bad 1)"

lemma utf8_follow_Char: "utf8_follow n ps cs = Char m \<Longrightarrow> n \<le> m \<and> m \<le> n + length cs"
  by (induction n ps cs rule: utf8_follow.induct) (auto split: if_splits)

lemma utf8_follow_Bad: "utf8_follow n ps cs = Bad m \<Longrightarrow> n \<le> m \<and> m \<le> n + length cs"
  by (induction n ps cs rule: utf8_follow.induct) (auto split: if_splits)

lemma utf8_follow_append:
  "utf8_follow n ps cs \<noteq> Cut \<Longrightarrow> utf8_follow n ps (cs @ more) = utf8_follow n ps cs"
  by (induction n ps cs rule: utf8_follow.induct) auto

lemma utf8_first_Char: "utf8_first bs = Char n \<Longrightarrow> 0 < n \<and> n \<le> length bs"
  by (auto simp: utf8_first_def simp del: utf8_follow.simps dest!: utf8_follow_Char split: list.splits if_splits)

lemma utf8_first_Bad: "utf8_first bs = Bad n \<Longrightarrow> 0 < n \<and> n \<le> length bs"
  by (auto simp: utf8_first_def simp del: utf8_follow.simps dest!: utf8_follow_Bad split: list.splits if_splits)

lemma utf8_first_shorter:
  "utf8_first bs = Char n \<Longrightarrow> length bs - n < length bs"
  "utf8_first bs = Bad n \<Longrightarrow> length bs - n < length bs"
  using utf8_first_Char [of bs n] utf8_first_Bad [of bs n] by linarith+

lemma utf8_follow_take:
  "utf8_follow m ps cs = Char n \<Longrightarrow> utf8_follow m ps (take (n - m) cs) = Char n"
proof (induction m ps cs rule: utf8_follow.induct)
  case (3 m p ps c cs)
  then have f: "p c" "utf8_follow (m + 1) ps cs = Char n" by (auto split: if_splits)
  then have "take (n - m) (c # cs) = c # take (n - (m + 1)) cs"
    using utf8_follow_Char [OF f(2)] by (simp add: Suc_diff_Suc take_Cons')
  with f "3.IH" show ?case by simp
qed simp_all

lemma utf8_first_take: "utf8_first bs = Char n \<Longrightarrow> utf8_first (take n bs) = Char n"
proof (cases bs)
  case (Cons b cs)
  assume f: "utf8_first bs = Char n"
  then have "take n bs = b # take (n - 1) cs" using utf8_first_Char [OF f] by (simp add: Cons take_Cons')
  with f show ?thesis
    using utf8_follow_take [where m = 1 and cs = cs and n = n]
    by (auto simp: utf8_first_def Cons simp del: utf8_follow.simps split: if_splits)
qed (simp add: utf8_first_def)

lemma utf8_first_append:
  "utf8_first bs \<noteq> Cut \<Longrightarrow> utf8_first (bs @ more) = utf8_first bs"
  by (cases bs) (auto simp: utf8_first_def utf8_follow_append simp del: utf8_follow.simps split: if_splits)

lemma lead_ranges:
  "utf8_lead3 b c \<Longrightarrow> 0xE0 \<le> b \<and> b \<le> 0xEF"
  "utf8_lead4 b c \<Longrightarrow> 0xF0 \<le> b \<and> b \<le> 0xF4"
  by (auto simp: utf8_lead3_def utf8_lead4_def word_le_nat_alt)

lemma lead_disjoint:
  "(b :: u8) \<le> 0xEF \<Longrightarrow> \<not> 0xF0 \<le> b"
  "0xE0 \<le> b \<or> 0xF0 \<le> b \<Longrightarrow> \<not> b < 0x80 \<and> \<not> utf8_lead2 b"
  by (auto simp: utf8_lead2_def word_le_nat_alt word_less_nat_alt)

text \<open>The reference reads one character and goes on behind it.\<close>

lemma utf8_valid_first:
  assumes "bs \<noteq> []"
  shows "utf8_valid bs \<longleftrightarrow> (case utf8_first bs of Char n \<Rightarrow> utf8_valid (drop n bs) | _ \<Rightarrow> False)"
proof -
  obtain b cs where bs: "bs = b # cs" using assms by (cases bs) auto
  consider "b < 0x80" | "\<not> b < 0x80" "utf8_lead2 b" | "0xE0 \<le> b" "b \<le> 0xEF" | "0xF0 \<le> b" "b \<le> 0xF4"
    | "\<not> b < 0x80" "\<not> utf8_lead2 b" "\<not> (0xE0 \<le> b \<and> b \<le> 0xEF)" "\<not> (0xF0 \<le> b \<and> b \<le> 0xF4)"
    by blast
  then show ?thesis
  proof cases
    case 3
    then have "\<not> utf8_lead4 b c" for c using lead_disjoint(1) lead_ranges(2) by blast
    with 3 lead_disjoint(2) [of b] show ?thesis by (auto simp: bs utf8_first_def split: list.split)
  next
    case 4
    then have "\<not> utf8_lead3 b c" "\<not> b \<le> 0xEF" for c using lead_disjoint(1) lead_ranges(1) by blast+
    with 4 lead_disjoint(2) [of b] show ?thesis by (auto simp: bs utf8_first_def split: list.split)
  next
    case 5
    then have "\<not> utf8_lead3 b c" "\<not> utf8_lead4 b c" for c using lead_ranges by blast+
    with 5 show ?thesis by (auto simp: bs utf8_first_def split: list.split)
  qed (auto simp: bs utf8_first_def split: list.split)
qed

lemma utf8_first_Nil [simp]: "utf8_first [] = Cut"
  by (simp add: utf8_first_def)

lemma utf8_valid_Char: "utf8_first bs = Char n \<Longrightarrow> utf8_valid bs \<longleftrightarrow> utf8_valid (drop n bs)"
  using utf8_valid_first [of bs] by (cases "bs = []") simp_all

lemma utf8_valid_not_Char: "bs \<noteq> [] \<Longrightarrow> utf8_valid bs \<Longrightarrow> \<exists>n. utf8_first bs = Char n"
  using utf8_valid_first [of bs] by (cases "utf8_first bs") simp_all

section \<open>A text\<close>

text \<open>\<open>str::from_utf8\<close>; \<open>i\<close> counts the bytes already read.\<close>

function from_utf8_at :: "nat \<Rightarrow> bytes \<Rightarrow> (nat \<times> nat option, unit) result" where
  "from_utf8_at i bs =
     (if bs = [] then Ok ()
      else
        (case utf8_first bs of
           Char n \<Rightarrow> from_utf8_at (i + n) (drop n bs)
         | Bad n \<Rightarrow> Err (i, Some n)
         | Cut \<Rightarrow> Err (i, None)))"
  by pat_completeness auto
termination
  by (relation "measure (\<lambda>(i, bs). length bs)") (auto simp: utf8_first_shorter)

definition from_utf8 :: "bytes \<Rightarrow> (nat \<times> nat option, unit) result" where
  "from_utf8 bs = from_utf8_at 0 bs"

text \<open>\<open>String::from_utf8_lossy\<close>: every part that cannot be mended becomes one U+FFFD.\<close>

function from_utf8_lossy :: "bytes \<Rightarrow> bytes" where
  "from_utf8_lossy bs =
     (if bs = [] then []
      else
        (case utf8_first bs of
           Char n \<Rightarrow> take n bs @ from_utf8_lossy (drop n bs)
         | Bad n \<Rightarrow> [0xEF, 0xBF, 0xBD] @ from_utf8_lossy (drop n bs)
         | Cut \<Rightarrow> [0xEF, 0xBF, 0xBD]))"
  by pat_completeness auto
termination
  by (relation "measure length") (auto simp: utf8_first_shorter)

declare from_utf8_at.simps [simp del] from_utf8_lossy.simps [simp del]

lemma utf8_chars_induct [consumes 1, case_names Nil Char]:
  assumes "utf8_valid bs" "P []"
    and "\<And>bs n. bs \<noteq> [] \<Longrightarrow> utf8_first bs = Char n \<Longrightarrow> utf8_valid (drop n bs) \<Longrightarrow> P (drop n bs) \<Longrightarrow> P bs"
  shows "P bs"
  using assms(1)
proof (induction "length bs" arbitrary: bs rule: less_induct)
  case less
  show ?case
  proof (cases "bs = []")
    case False
    obtain n where n: "utf8_first bs = Char n" using utf8_valid_not_Char [OF False less.prems] by blast
    then have "length (drop n bs) < length bs" using utf8_first_shorter(1) [OF n] by simp
    moreover have "utf8_valid (drop n bs)" using less.prems utf8_valid_Char [OF n] by simp
    ultimately show ?thesis using False n assms(3) less.hyps by blast
  qed (simp add: assms(2))
qed

lemma utf8_valid_append: "utf8_valid a \<Longrightarrow> utf8_valid (a @ b) \<longleftrightarrow> utf8_valid b"
proof (induction a rule: utf8_chars_induct)
  case (Char a n)
  have "utf8_first (a @ b) = Char n" using utf8_first_append [of a b] Char(2) by simp
  moreover have "n \<le> length a" using utf8_first_Char [OF Char(2)] by simp
  ultimately show ?case using utf8_valid_Char [of "a @ b" n] Char.IH by simp
qed simp

text \<open>What \<open>from_utf8\<close> reports: all bytes up to \<open>valid_up_to\<close> are valid, and there the text is broken or
  cut.\<close>

lemma from_utf8_at_result:
  "case from_utf8_at i bs of
     Ok _ \<Rightarrow> utf8_valid bs
   | Err (j, e) \<Rightarrow> \<exists>v. j = i + v \<and> v < length bs \<and> utf8_valid (take v bs)
       \<and> (case e of Some n \<Rightarrow> utf8_first (drop v bs) = Bad n | None \<Rightarrow> utf8_first (drop v bs) = Cut)
   | Panic \<Rightarrow> False"
proof (induction i bs rule: from_utf8_at.induct)
  case (1 i bs)
  show ?case
  proof (cases "bs = []")
    case False
    show ?thesis
    proof (cases "utf8_first bs")
      case (Char n)
      have take: "take (n + v) bs = take n bs @ take v (drop n bs)" for v by (simp add: take_add)
      have "utf8_valid (take n bs)" using utf8_valid_Char [OF utf8_first_take [OF Char]] by simp
      then have valid: "utf8_valid (take (n + v) bs)" if "utf8_valid (take v (drop n bs))" for v
        using that unfolding take by (simp add: utf8_valid_append)
      have step: "from_utf8_at i bs = from_utf8_at (i + n) (drop n bs)"
        using False Char by (subst from_utf8_at.simps) simp
      show ?thesis
      proof (cases "from_utf8_at (i + n) (drop n bs)")
        case (Ok u)
        then show ?thesis using "1.IH" [OF False Char] by (simp add: step utf8_valid_Char [OF Char])
      next
        case (Err e)
        then obtain j x where e: "from_utf8_at (i + n) (drop n bs) = Err (j, x)" by (cases e) simp
        then obtain v where "j = i + n + v" "v < length (drop n bs)" "utf8_valid (take v (drop n bs))"
          "case x of Some m \<Rightarrow> utf8_first (drop v (drop n bs)) = Bad m | None \<Rightarrow> utf8_first (drop v (drop n bs)) = Cut"
          using "1.IH" [OF False Char] by auto
        then show ?thesis
          using valid unfolding step e by (auto simp: add.assoc add.commute [of v n] intro!: exI [of _ "n + v"] split: option.splits)
      next
        case Panic
        then show ?thesis using "1.IH" [OF False Char] by simp
      qed
    qed (use False in \<open>simp_all add: from_utf8_at.simps\<close>)
  qed (simp add: from_utf8_at.simps)
qed

lemma from_utf8_cases:
  obtains "utf8_valid bs" "from_utf8 bs = Ok ()"
  | v n where "from_utf8 bs = Err (v, Some n)" "v < length bs" "utf8_valid (take v bs)" "utf8_first (drop v bs) = Bad n"
  | v where "from_utf8 bs = Err (v, None)" "v < length bs" "utf8_valid (take v bs)" "utf8_first (drop v bs) = Cut"
  using from_utf8_at_result [where i = 0 and bs = bs]
  by (auto simp: from_utf8_def split: result.splits prod.splits option.splits)

text \<open>Nothing appended to it mends a broken text, and a text that is cut is not valid yet.\<close>

lemma broken_stays:
  assumes "utf8_valid (take v bs)" "utf8_first (drop v bs) = Bad n"
  shows "\<not> utf8_valid (bs @ more)"
proof
  assume "utf8_valid (bs @ more)"
  moreover have "bs @ more = take v bs @ drop v bs @ more" by simp
  ultimately have "utf8_valid (drop v bs @ more)" using utf8_valid_append [OF assms(1)] by metis
  moreover have "utf8_first (drop v bs @ more) = Bad n" using utf8_first_append assms(2) by simp
  ultimately show False using utf8_valid_not_Char [of "drop v bs @ more"] by (cases "drop v bs @ more") auto
qed

lemma cut_not_valid:
  assumes "utf8_valid (take v bs)" "utf8_first (drop v bs) = Cut" "v < length bs"
  shows "\<not> utf8_valid bs"
proof
  assume "utf8_valid bs"
  then have "utf8_valid (drop v bs)" using utf8_valid_append [OF assms(1), of "drop v bs"] by simp
  then show False using utf8_valid_not_Char [of "drop v bs"] assms(2,3) by auto
qed

lemma from_utf8_ok: "from_utf8 bs = Ok () \<longleftrightarrow> utf8_valid bs"
  using broken_stays [of _ bs _ "[]"] cut_not_valid [of _ bs] by (cases bs rule: from_utf8_cases) auto

text \<open>The lossy text is valid, and a valid text is left alone.\<close>

lemma from_utf8_lossy_valid: "utf8_valid (from_utf8_lossy bs)"
proof (induction bs rule: from_utf8_lossy.induct)
  case (1 bs)
  have fffd: "utf8_valid [0xEF, 0xBF, 0xBD]" by (simp add: utf8_lead2_def utf8_lead3_def utf8_cont_def)
  show ?case
  proof (cases "bs = []")
    case False
    show ?thesis
    proof (cases "utf8_first bs")
      case (Char n)
      have "utf8_valid (take n bs)" using utf8_valid_Char [OF utf8_first_take [OF Char]] by simp
      then show ?thesis using 1 False Char by (subst from_utf8_lossy.simps) (simp add: utf8_valid_append)
    next
      case (Bad n)
      then show ?thesis
        using 1 False utf8_valid_append [OF fffd] by (subst from_utf8_lossy.simps) (simp del: utf8_valid.simps)
    next
      case Cut
      then show ?thesis using False fffd by (subst from_utf8_lossy.simps) (simp del: utf8_valid.simps)
    qed
  qed (simp add: from_utf8_lossy.simps)
qed

lemma from_utf8_lossy_id: "utf8_valid bs \<Longrightarrow> from_utf8_lossy bs = bs"
proof (induction bs rule: utf8_chars_induct)
  case (Char bs n)
  then show ?case by (subst from_utf8_lossy.simps) simp
qed (simp add: from_utf8_lossy.simps)

section \<open>Cutting at an ASCII character\<close>

lemma ascii_no_cont:
  assumes "x < 0x80"
  shows "\<not> utf8_cont x" "\<not> utf8_lead3 b x" "\<not> utf8_lead4 b x"
  using assms by (auto simp: utf8_cont_def utf8_lead3_def utf8_lead4_def word_le_nat_alt word_less_nat_alt)

lemma utf8_follow_cut:
  "utf8_follow n ps cs = Cut \<Longrightarrow> \<forall>p\<in>set ps. \<not> p x \<Longrightarrow> \<exists>m. utf8_follow n ps (cs @ x # more) = Bad m"
  by (induction n ps cs rule: utf8_follow.induct) (auto split: if_splits)

lemma utf8_first_cut:
  assumes "utf8_first a = Cut" "a \<noteq> []" "x < 0x80"
  shows "\<exists>m. utf8_first (a @ x # more) = Bad m"
proof -
  obtain b cs where "a = b # cs" using assms(2) by (cases a) auto
  then show ?thesis using assms(1) ascii_no_cont [OF assms(3)]
    by (auto simp: utf8_first_def simp del: utf8_follow.simps split: if_splits intro!: utf8_follow_cut)
qed

lemma utf8_valid_cut:
  assumes "utf8_valid (a @ x # b)" "x < 0x80"
  shows "utf8_valid a \<and> utf8_valid b"
  using assms
proof (induction a rule: length_induct)
  case (1 a)
  show ?case
  proof (cases "a = []")
    case True
    then show ?thesis using "1.prems" by simp
  next
    case False
    obtain n where n: "utf8_first (a @ x # b) = Char n" using utf8_valid_not_Char [OF _ "1.prems"(1)] by auto
    then have "utf8_first a \<noteq> Cut" using utf8_first_cut [OF _ False assms(2), of b] by auto
    then have "utf8_first a = Char n" using utf8_first_append [of a "x # b"] n by simp
    moreover from utf8_first_Char [OF this] have "0 < n" "n \<le> length a" by simp_all
    ultimately show ?thesis
      using "1.IH" [rule_format, of "drop n a"] "1.prems" utf8_valid_Char [OF n] utf8_valid_Char [of a n] False by simp
  qed
qed

lemma utf8_valid_snoc: "x < 0x80 \<Longrightarrow> utf8_valid (a @ [x]) \<longleftrightarrow> utf8_valid a"
  using utf8_valid_cut [of a x "[]"] utf8_valid_append [of a "[x]"] by auto

end
