(* ===== verification/WsFrame.thy ===== *)
theory WsFrame
  imports Streams Utf8
begin

text \<open>
  WebSocket frames: \<open>foundation_core/src/wire/websocket/frame.rs\<close>, with the errors of \<open>error.rs\<close> and the
  messages of \<open>message.rs\<close>. \<open>encode\<close> writes a frame, \<open>decode\<close> reads one from a reader that delivers its
  bytes in any pieces (Streams). The text of an error is only shown, so the model names it.

  \<open>usz\<close> is the size of \<open>usize\<close>. A payload that could not be allocated for lack of memory aborts the
  program and is not modelled; one longer than \<open>isize::MAX\<close> panics.
\<close>

section \<open>Errors and messages\<close>

datatype ws_note =
  Note_UnknownOpcode u8
  | Note_PartialRead io_kind
  | Note_ControlFragmented
  | Note_ControlTooLarge nat
  | Note_UnexpectedContinuation
  | Note_NoMessage
  | Note_TooLarge nat nat
  | Note_NewMessage
  | Note_MaskedFromServer
  | Note_FragmentsNotSupported
  | Note_Continuation
  | Note_DataOpcode
  | Note_UnknownControl
  | Note_UnmaskedClient
  | Note_HttpResponse
  | Note_FrameDecode

datatype ws_error =
  WS_UpgradeFailed u16
  | WS_InvalidAcceptKey
  | WS_MissingAcceptKey
  | WS_MissingKey
  | WS_InvalidFrame ws_note
  | WS_InvalidUtf8 bytes
  | WS_ConnectionClosed
  | WS_ProtocolError ws_note
  | WS_IoError io_kind
  | WS_InvalidUrl

definition ws_error_from_io :: "io_kind \<Rightarrow> ws_error" where
  "ws_error_from_io err = WS_IoError err"

definition ws_error_from_utf8 :: "bytes \<Rightarrow> ws_error" where
  "ws_error_from_utf8 err = WS_InvalidUtf8 err"

datatype ws_message =
  WM_ConnectionEstablished
  | WM_Text bytes
  | WM_Binary bytes
  | WM_Ping bytes
  | WM_Pong bytes
  | WM_Close u16 bytes

section \<open>Frames\<close>

datatype opcode = OC_Continuation | OC_Text | OC_Binary | OC_Close | OC_Ping | OC_Pong

primrec opcode_to_u8 :: "opcode \<Rightarrow> u8" where
  "opcode_to_u8 OC_Continuation = 0x0"
| "opcode_to_u8 OC_Text = 0x1"
| "opcode_to_u8 OC_Binary = 0x2"
| "opcode_to_u8 OC_Close = 0x8"
| "opcode_to_u8 OC_Ping = 0x9"
| "opcode_to_u8 OC_Pong = 0xA"

definition opcode_from_byte :: "u8 \<Rightarrow> (ws_error, opcode) result" where
  "opcode_from_byte byte =
     (if byte = 0x0 then Ok OC_Continuation
      else if byte = 0x1 then Ok OC_Text
      else if byte = 0x2 then Ok OC_Binary
      else if byte = 0x8 then Ok OC_Close
      else if byte = 0x9 then Ok OC_Ping
      else if byte = 0xA then Ok OC_Pong
      else Err (WS_InvalidFrame (Note_UnknownOpcode byte)))"

definition is_control :: "opcode \<Rightarrow> bool" where
  "is_control oc = (case oc of OC_Close \<Rightarrow> True | OC_Ping \<Rightarrow> True | OC_Pong \<Rightarrow> True | _ \<Rightarrow> False)"

text \<open>\<open>[u8; 4]\<close>.\<close>

datatype mask_key = MaskKey u8 u8 u8 u8

primrec mask_bytes :: "mask_key \<Rightarrow> bytes" where
  "mask_bytes (MaskKey a b c d) = [a, b, c, d]"

definition mask_of :: "bytes \<Rightarrow> mask_key" where
  "mask_of bs = MaskKey (bs ! 0) (bs ! 1) (bs ! 2) (bs ! 3)"

record ws_frame =
  wf_fin :: bool
  wf_opcode :: opcode
  wf_mask :: "mask_key option"
  wf_payload :: bytes

definition apply_mask :: "bytes \<Rightarrow> mask_key \<Rightarrow> bytes" where
  "apply_mask payload key = map (\<lambda>(i, byte). byte XOR mask_bytes key ! (i mod 4)) (List.enumerate 0 payload)"

section \<open>Encoding\<close>

definition ws_length_bytes :: "u8 \<Rightarrow> nat \<Rightarrow> bytes" where
  "ws_length_bytes mask_bit len =
     (if len < 126 then [mask_bit OR of_nat len]
      else if len \<le> 65535 then (mask_bit OR 126) # be_bytes 2 (of_nat len :: u16)
      else (mask_bit OR 127) # be_bytes 8 (of_nat len :: u64))"

definition ws_encode :: "ws_frame \<Rightarrow> bytes" where
  "ws_encode f =
     (let first_byte = (if wf_fin f then 0x80 else 0x00) OR opcode_to_u8 (wf_opcode f);
          mask_bit = (if wf_mask f \<noteq> None then 0x80 else 0x00);
          header = first_byte # ws_length_bytes mask_bit (length (wf_payload f))
      in (case wf_mask f of
            Some key \<Rightarrow> header @ mask_bytes key @ apply_mask (wf_payload f) key
          | None \<Rightarrow> header @ wf_payload f))"

section \<open>Decoding\<close>

text \<open>Once the first byte is consumed, \<open>WouldBlock\<close> and \<open>TimedOut\<close> become a protocol error: the caller
  must not start again in the middle of a frame.\<close>

definition map_partial_read_err :: "ws_error \<Rightarrow> ws_error" where
  "map_partial_read_err e =
     (case e of
        WS_IoError k \<Rightarrow> if k = WouldBlock \<or> k = TimedOut then WS_ProtocolError (Note_PartialRead k) else e
      | _ \<Rightarrow> e)"

definition read_part :: "nat \<Rightarrow> (reader, ws_error, bytes) exec" where
  "read_part n = exec_map_err (\<lambda>e. map_partial_read_err (ws_error_from_io e)) (read_exact n)"

definition read_payload_len :: "nat \<Rightarrow> u8 \<Rightarrow> (reader, ws_error, nat) exec" where
  "read_payload_len usz length_byte =
     (if length_byte = 126 then bind (read_part 2) (\<lambda>buf. ret (unat (be_word buf :: u16)))
      else if length_byte = 127 then bind (read_part 8) (\<lambda>buf. ret (as_usize usz (be_word buf)))
      else ret (unat length_byte))"

definition read_mask :: "bool \<Rightarrow> (reader, ws_error, mask_key option) exec" where
  "read_mask masked = (if masked then bind (read_part 4) (\<lambda>key. ret (Some (mask_of key))) else ret None)"

definition unmask :: "mask_key option \<Rightarrow> bytes \<Rightarrow> bytes" where
  "unmask key payload = (case key of Some mask_key \<Rightarrow> apply_mask payload mask_key | None \<Rightarrow> payload)"

definition first_byte :: "(reader, ws_error, u8) exec" where
  "first_byte es =
     (case read_some 1 es of
        (Ok [], es') \<Rightarrow> (Err (WS_IoError WouldBlock), es')
      | (Ok (b # _), es') \<Rightarrow> (Ok b, es')
      | (Err e, es') \<Rightarrow> (Err (WS_IoError e), es')
      | (Panic, es') \<Rightarrow> (Panic, es'))"

definition ws_decode :: "nat \<Rightarrow> (reader, ws_error, ws_frame) exec" where
  "ws_decode usz =
     bind first_byte (\<lambda>header0.
     bind (read_part 1) (\<lambda>second.
     bind (lift_result (opcode_from_byte (header0 AND 0x0F))) (\<lambda>opcode.
     bind (read_payload_len usz (hd second AND 0x7F)) (\<lambda>payload_len.
     bind (read_mask (hd second AND 0x80 \<noteq> 0)) (\<lambda>key.
     if payload_len \<le> isize_max usz then
       bind (read_part payload_len) (\<lambda>payload.
         ret \<lparr>wf_fin = (header0 AND 0x80 \<noteq> 0), wf_opcode = opcode, wf_mask = key,
              wf_payload = unmask key payload\<rparr>)
     else lift_result Panic)))))"

text \<open>\<open>decode_with_buffer\<close> reads the payload into a \<open>BytesMut\<close> of the caller. That type is not under
  \<open>src/\<close>: \<open>resize\<close> is what its \<open>resize\<close> does to the cleared buffer.\<close>

definition ws_decode_with_buffer ::
    "(bytes \<Rightarrow> nat \<Rightarrow> u8 \<Rightarrow> (ws_error, bytes) result) \<Rightarrow> nat \<Rightarrow> (reader, ws_error, ws_frame \<times> bytes) exec" where
  "ws_decode_with_buffer resize usz =
     bind first_byte (\<lambda>header0.
     bind (read_part 1) (\<lambda>second.
     bind (lift_result (opcode_from_byte (header0 AND 0x0F))) (\<lambda>opcode.
     bind (read_payload_len usz (hd second AND 0x7F)) (\<lambda>payload_len.
     bind (read_mask (hd second AND 0x80 \<noteq> 0)) (\<lambda>key.
     bind (lift_result (resize [] payload_len 0)) (\<lambda>buf.
     bind (read_part (length buf)) (\<lambda>payload_buf.
       let payload_buf = unmask key payload_buf
       in ret (\<lparr>wf_fin = (header0 AND 0x80 \<noteq> 0), wf_opcode = opcode, wf_mask = key, wf_payload = payload_buf\<rparr>,
               payload_buf))))))))"

section \<open>Validation and messages\<close>

definition ws_validate :: "ws_frame \<Rightarrow> (ws_error, unit) result" where
  "ws_validate f =
     (if is_control (wf_opcode f) then
        (if \<not> wf_fin f then Err (WS_ProtocolError Note_ControlFragmented)
         else if length (wf_payload f) > 125
         then Err (WS_ProtocolError (Note_ControlTooLarge (length (wf_payload f))))
         else Ok ())
      else Ok ())"

definition INVALID_CLOSE_PAYLOAD :: bytes where
  "INVALID_CLOSE_PAYLOAD =
     [73, 110, 118, 97, 108, 105, 100, 32, 99, 108, 111, 115, 101, 32, 112, 97, 121, 108, 111, 97, 100]"

definition ws_to_message :: "ws_frame \<Rightarrow> (ws_error, ws_message) result" where
  "ws_to_message f =
     (case wf_opcode f of
        OC_Text \<Rightarrow> rbind (map_err ws_error_from_utf8 (string_from_utf8 (wf_payload f))) (\<lambda>text. Ok (WM_Text text))
      | OC_Binary \<Rightarrow> Ok (WM_Binary (wf_payload f))
      | OC_Ping \<Rightarrow> Ok (WM_Ping (wf_payload f))
      | OC_Pong \<Rightarrow> Ok (WM_Pong (wf_payload f))
      | OC_Close \<Rightarrow>
          if wf_payload f = [] then Ok (WM_Close 1005 [])
          else if length (wf_payload f) = 1 then Ok (WM_Close 1002 INVALID_CLOSE_PAYLOAD)
          else
            (let code = be_word (take 2 (wf_payload f));
                 reason = (if length (wf_payload f) > 2 then from_utf8_lossy (drop 2 (wf_payload f)) else [])
             in Ok (WM_Close code reason))
      | OC_Continuation \<Rightarrow> Err (WS_InvalidFrame Note_UnexpectedContinuation))"

section \<open>Masking\<close>

lemma length_apply_mask [simp]: "length (apply_mask bs m) = length bs"
  by (simp add: apply_mask_def)

lemma nth_apply_mask: "i < length bs \<Longrightarrow> apply_mask bs m ! i = bs ! i XOR mask_bytes m ! (i mod 4)"
  by (simp add: apply_mask_def nth_enumerate_eq)

lemma apply_mask_twice [simp]: "apply_mask (apply_mask bs m) m = bs"
  by (rule nth_equalityI) (simp_all add: nth_apply_mask xor.assoc)

lemma mask_of_bytes [simp]: "mask_of (mask_bytes m) = m"
  by (cases m) (simp add: mask_of_def)

lemma length_mask_bytes [simp]: "length (mask_bytes m) = 4"
  by (cases m) simp

section \<open>Headers\<close>

lemma opcode_from_byte_code [simp]: "opcode_from_byte (opcode_to_u8 oc) = Ok oc"
  by (cases oc) (simp_all add: opcode_from_byte_def)

lemma opcode_from_byte_Ok: "opcode_from_byte b = Ok oc \<longleftrightarrow> b = opcode_to_u8 oc"
  by (cases oc) (auto simp: opcode_from_byte_def)

lemma header_fields:
  "((if fin then 0x80 else 0x00) OR opcode_to_u8 oc) AND 0x0F = opcode_to_u8 oc"
  "(((if fin then 0x80 else 0x00) OR opcode_to_u8 oc) AND 0x80 \<noteq> 0) = fin"
  by (cases oc; simp)+

lemma small_length_fields:
  assumes "n < 128"
  shows "((if m then 0x80 else 0x00) OR (of_nat n :: u8)) AND 0x7F = of_nat n"
    and "(((if m then 0x80 else 0x00) OR (of_nat n :: u8)) AND 0x80 \<noteq> 0) = m"
proof -
  have b: "k < 7" if "bit n k" for k
  proof (rule ccontr)
    assume "\<not> k < 7"
    then have "(2 :: nat) ^ 7 \<le> 2 ^ k" by (intro power_increasing) simp_all
    then show False using assms that by (simp add: bit_iff_odd)
  qed
  have c: "(0x7F :: u8) = mask 7" by (simp add: mask_eq_exp_minus_1)
  have d: "bit (0x80 :: u8) k \<longleftrightarrow> k = 7" for k
    using bit_exp_iff [where 'a = "8 word", of 7 k] by (auto simp: possible_bit_def)
  have d': "bit (128 :: int) k \<longleftrightarrow> k = 7" for k
    using bit_exp_iff [where 'a = int, of 7 k] by (auto simp: possible_bit_def)
  show "((if m then 0x80 else 0x00) OR (of_nat n :: u8)) AND 0x7F = of_nat n"
    unfolding c by (rule bit_word_eqI) (auto simp: bit_simps d d' dest: b)
  have e: "bit (((if m then 0x80 else 0x00) OR (of_nat n :: u8)) AND 0x80) k \<longleftrightarrow> m \<and> k = 7" for k
    by (auto simp: bit_simps d d' dest: b)
  show "(((if m then 0x80 else 0x00) OR (of_nat n :: u8)) AND 0x80 \<noteq> 0) = m"
  proof (cases m)
    case True
    then show ?thesis using e [of 7] by (auto dest: arg_cong [where f = "\<lambda>w. bit w 7"])
  next
    case False
    then have "((if m then 0x80 else 0x00) OR (of_nat n :: u8)) AND 0x80 = 0"
      using e by (intro bit_word_eqI) simp
    then show ?thesis using False by simp
  qed
qed

section \<open>Reading back\<close>

lemma read_some_first:
  assumes "delivers (Chunk (b # bs) # es)"
  shows "\<exists>es'. first_byte ((Chunk (b # bs) # es) @ later) = (Ok b, es' @ later) \<and> delivers es'
    \<and> delivery es' = bs @ delivery es"
  using assms by (cases bs) (auto simp: first_byte_def intro: exI [of _ es] exI [of _ "Chunk bs # es"])

lemma read_part_run:
  assumes "delivers es" "delivery es = bs @ rest" "length bs = n"
  shows "\<exists>es'. read_part n (es @ later) = (Ok bs, es' @ later) \<and> delivers es' \<and> delivery es' = rest"
  using read_exact_enough [OF assms(1), of n later] assms(2,3)
  by (auto simp: read_part_def exec_map_err_def)

lemma be_word_u16_length: "n \<le> 65535 \<Longrightarrow> unat (be_word (be_bytes 2 (of_nat n :: u16)) :: u16) = n"
  by (simp add: be_word_be_bytes unat_of_nat_small)

lemma be_word_u64_length:
  "n < 2 ^ 64 \<Longrightarrow> n < 2 ^ (8 * usz) \<Longrightarrow> as_usize usz (be_word (be_bytes 8 (of_nat n :: u64))) = n"
  by (simp add: be_word_be_bytes unat_of_nat_small as_usize_def)

text \<open>The second byte and the length bytes that follow it.\<close>

lemma length_masked: "(hd (ws_length_bytes (if m then 0x80 else 0x00) n) AND 0x80 \<noteq> 0) = m"
  using small_length_fields(2) [of 126 m] small_length_fields(2) [of 127 m] small_length_fields(2) [of n m]
  by (simp add: ws_length_bytes_def)

lemma read_length_run:
  assumes "delivers es" "delivery es = tl (ws_length_bytes (if m then 0x80 else 0x00) n) @ rest"
    and "n < 2 ^ 64" "n < 2 ^ (8 * usz)"
  shows "\<exists>es'. read_payload_len usz (hd (ws_length_bytes (if m then 0x80 else 0x00) n) AND 0x7F) (es @ later)
      = (Ok n, es' @ later) \<and> delivers es' \<and> delivery es' = rest"
proof -
  note f126 = small_length_fields [of 126 m, simplified] and f127 = small_length_fields [of 127 m, simplified]
  consider "n < 126" | "126 \<le> n" "n \<le> 65535" | "65535 < n" by linarith
  then show ?thesis
  proof cases
    case 1
    then have u: "unat (of_nat n :: u8) = n" by (simp add: unat_of_nat_small)
    then have "(of_nat n :: u8) \<noteq> 126" "(of_nat n :: u8) \<noteq> 127" using 1 by auto
    then show ?thesis
      using 1 assms(1,2) small_length_fields(1) [of n m] u
      by (auto simp: ws_length_bytes_def read_payload_len_def ret_run)
  next
    case 2
    then have h: "hd (ws_length_bytes (if m then 0x80 else 0x00) n) AND 0x7F = 126"
      "tl (ws_length_bytes (if m then 0x80 else 0x00) n) = be_bytes 2 (of_nat n :: u16)"
      using f126 by (simp_all add: ws_length_bytes_def)
    from read_part_run [OF assms(1,2), of 2 later] h(2) obtain es' where
      "read_part 2 (es @ later) = (Ok (be_bytes 2 (of_nat n :: u16)), es' @ later)" "delivers es'" "delivery es' = rest"
      by auto
    then show ?thesis using 2 by (auto simp: h(1) read_payload_len_def bind_def ret_run be_word_u16_length)
  next
    case 3
    then have h: "hd (ws_length_bytes (if m then 0x80 else 0x00) n) AND 0x7F = 127"
      "tl (ws_length_bytes (if m then 0x80 else 0x00) n) = be_bytes 8 (of_nat n :: u64)"
      using f127 by (simp_all add: ws_length_bytes_def)
    from read_part_run [OF assms(1,2), of 8 later] h(2) obtain es' where
      "read_part 8 (es @ later) = (Ok (be_bytes 8 (of_nat n :: u64)), es' @ later)" "delivers es'" "delivery es' = rest"
      by auto
    then show ?thesis
      using 3 be_word_u64_length [OF assms(3,4)] by (auto simp: h(1) read_payload_len_def bind_def ret_run)
  qed
qed

lemma read_mask_run:
  assumes "delivers es" "delivery es = (case k of Some key \<Rightarrow> mask_bytes key | None \<Rightarrow> []) @ rest"
  shows "\<exists>es'. read_mask (k \<noteq> None) (es @ later) = (Ok k, es' @ later) \<and> delivers es' \<and> delivery es' = rest"
proof (cases k)
  case (Some key)
  then show ?thesis
    using read_part_run [OF assms(1), of "mask_bytes key" rest 4 later] assms(2)
    by (auto simp: read_mask_def bind_def ret_run)
qed (use assms in \<open>auto simp: read_mask_def ret_run\<close>)

text \<open>The parts of an encoded frame.\<close>

definition frame_flags :: "ws_frame \<Rightarrow> u8" where
  "frame_flags f = (if wf_fin f then 0x80 else 0x00) OR opcode_to_u8 (wf_opcode f)"

definition frame_length :: "ws_frame \<Rightarrow> bytes" where
  "frame_length f = ws_length_bytes (if wf_mask f \<noteq> None then 0x80 else 0x00) (length (wf_payload f))"

definition frame_key :: "ws_frame \<Rightarrow> bytes" where
  "frame_key f = (case wf_mask f of Some key \<Rightarrow> mask_bytes key | None \<Rightarrow> [])"

lemma frame_parts:
  "ws_encode f = frame_flags f # hd (frame_length f) # tl (frame_length f) @ frame_key f @ unmask (wf_mask f) (wf_payload f)"
  by (auto simp: ws_encode_def frame_flags_def frame_length_def frame_key_def unmask_def ws_length_bytes_def Let_def
      split: option.split)

lemma unmask_twice [simp]: "unmask k (unmask k bs) = bs"
  by (simp add: unmask_def split: option.split)

lemma length_unmask [simp]: "length (unmask k bs) = length bs"
  by (simp add: unmask_def split: option.split)

text \<open>A payload the reader can hold.\<close>

definition holds_payload :: "nat \<Rightarrow> ws_frame \<Rightarrow> bool" where
  "holds_payload usz f \<longleftrightarrow> usz \<le> 8 \<and> length (wf_payload f) \<le> isize_max usz"

lemma holds_payload_bounds:
  assumes "holds_payload usz f"
  shows "length (wf_payload f) < 2 ^ 64" "length (wf_payload f) < 2 ^ (8 * usz)"
proof -
  have "(1 :: nat) \<le> 2 ^ (8 * usz - 1)" by simp
  then have n: "length (wf_payload f) < 2 ^ (8 * usz - 1)" using assms unfolding holds_payload_def isize_max_def by linarith
  have "8 * usz - 1 \<le> 64" using assms unfolding holds_payload_def by linarith
  then have "(2 :: nat) ^ (8 * usz - 1) \<le> 2 ^ 64" "(2 :: nat) ^ (8 * usz - 1) \<le> 2 ^ (8 * usz)"
    using power_increasing [of "8 * usz - 1" 64 "2 :: nat"] power_increasing [of "8 * usz - 1" "8 * usz" "2 :: nat"]
    by simp_all
  then show "length (wf_payload f) < 2 ^ 64" "length (wf_payload f) < 2 ^ (8 * usz)" using n by linarith+
qed

lemma ws_decode_run:
  assumes d: "delivers (Chunk (b # bs) # es)" "delivery (Chunk (b # bs) # es) = ws_encode f @ rest" and h: "holds_payload usz f"
  shows "\<exists>es'. ws_decode usz ((Chunk (b # bs) # es) @ later) = (Ok f, es' @ later) \<and> delivers es' \<and> delivery es' = rest"
proof -
  note bounds = holds_payload_bounds [OF h]
  obtain e1 where e1: "first_byte ((Chunk (b # bs) # es) @ later) = (Ok b, e1 @ later)" "delivers e1"
    "delivery e1 = bs @ delivery es"
    using read_some_first [OF d(1)] by blast
  have b: "b = frame_flags f" and t: "delivery e1 = [hd (frame_length f)] @ tl (frame_length f) @ frame_key f
      @ unmask (wf_mask f) (wf_payload f) @ rest"
    using d(2) e1(3) by (simp_all add: frame_parts)
  obtain e2 where e2: "read_part 1 (e1 @ later) = (Ok [hd (frame_length f)], e2 @ later)" "delivers e2"
    "delivery e2 = tl (frame_length f) @ frame_key f @ unmask (wf_mask f) (wf_payload f) @ rest"
    using read_part_run [OF e1(2) t, of 1 later] by auto
  note len = read_length_run [OF e2(2) e2(3) [unfolded frame_length_def] bounds, of later, folded frame_length_def]
  note masked = length_masked [of "wf_mask f \<noteq> None" "length (wf_payload f)", folded frame_length_def]
  obtain e3 where e3: "read_payload_len usz (hd (frame_length f) AND 0x7F) (e2 @ later)
      = (Ok (length (wf_payload f)), e3 @ later)" "delivers e3"
    "delivery e3 = frame_key f @ unmask (wf_mask f) (wf_payload f) @ rest"
    using len by blast
  obtain e4 where e4: "read_mask (wf_mask f \<noteq> None) (e3 @ later) = (Ok (wf_mask f), e4 @ later)" "delivers e4"
    "delivery e4 = unmask (wf_mask f) (wf_payload f) @ rest"
    using read_mask_run [OF e3(2), of "wf_mask f"] e3(3) by (auto simp: frame_key_def)
  obtain e5 where e5: "read_part (length (wf_payload f)) (e4 @ later) = (Ok (unmask (wf_mask f) (wf_payload f)), e5 @ later)"
    "delivers e5" "delivery e5 = rest"
    using read_part_run [OF e4(2,3), of "length (wf_payload f)" later] by auto
  note fields = header_fields [of "wf_fin f" "wf_opcode f", folded frame_flags_def]
  have "ws_decode usz ((Chunk (b # bs) # es) @ later) = (Ok f, e5 @ later)"
    using h e1(1) e2(1) e3(1) e4(1) e5(1) masked fields
    by (simp add: ws_decode_def bind_def lift_result_run ret_run b holds_payload_def)
  then show ?thesis using e5 by blast
qed

text \<open>A reader that delivers without interruptions is left so.\<close>

lemma ws_decode_arrives:
  assumes "ws_decode usz es = (Ok f, es')" "arrives es"
  shows "arrives es'"
proof -
  have part: "arrives r'" if "read_part n r = (Ok bs, r')" "arrives r" for n r bs r'
    using that read_exact_arrives [of r n] by (auto simp: read_part_def exec_map_err_def split: prod.splits)
  have first: "arrives r'" if "first_byte r = (Ok b, r')" "arrives r" for r b r'
    using that by (cases r rule: arrives.cases) (auto simp: first_byte_def split: if_splits list.splits)
  show ?thesis
    using assms
    by (auto simp: ws_decode_def bind_eq_Ok read_payload_len_def read_mask_def ret_run lift_result_run
        dest!: first part split: if_splits)
qed

section \<open>Frames that are cut\<close>

text \<open>Every part of a frame is either read or, when an error \<open>k\<close> comes before its last byte, ends the
  decoding with that error; \<open>q\<close> is what is still missing.\<close>

definition cut_error :: "io_kind \<Rightarrow> ws_error" where
  "cut_error k = map_partial_read_err (WS_IoError k)"

lemma read_part_stage:
  assumes "delivers es" "delivery es @ q = xs @ ys" "length xs = n" "k \<noteq> Interrupted"
  shows "read_part n (es @ Fault k # later) = (Err (cut_error k), later)
    \<or> (\<exists>es'. read_part n (es @ Fault k # later) = (Ok xs, es' @ Fault k # later) \<and> delivers es' \<and> delivery es' @ q = ys)"
proof (cases "length (delivery es) < n")
  case True
  then show ?thesis
    using read_exact_short(1) [OF assms(1) True assms(4), of later]
    by (simp add: read_part_def exec_map_err_def cut_error_def ws_error_from_io_def)
next
  case False
  then obtain zs where "delivery es = xs @ zs" "zs @ q = ys"
    using assms(2,3) by (auto simp: append_eq_append_conv2)
  then show ?thesis using read_part_run [OF assms(1) _ assms(3)] by blast
qed

lemma read_length_stage:
  assumes "delivers es" "delivery es @ q = tl (ws_length_bytes (if m then 0x80 else 0x00) n) @ ys"
    and "n < 2 ^ 64" "n < 2 ^ (8 * usz)" "k \<noteq> Interrupted"
  shows "read_payload_len usz (hd (ws_length_bytes (if m then 0x80 else 0x00) n) AND 0x7F) (es @ Fault k # later)
      = (Err (cut_error k), later)
    \<or> (\<exists>es'. read_payload_len usz (hd (ws_length_bytes (if m then 0x80 else 0x00) n) AND 0x7F) (es @ Fault k # later)
      = (Ok n, es' @ Fault k # later) \<and> delivers es' \<and> delivery es' @ q = ys)"
proof -
  let ?l = "ws_length_bytes (if m then 0x80 else 0x00) n"
  show ?thesis
  proof (cases "length (delivery es) < length (tl ?l)")
    case False
    obtain us where us: "delivery es = tl ?l @ us \<and> us @ q = ys \<or> delivery es @ us = tl ?l \<and> q = us @ ys"
      using assms(2) by (auto simp: append_eq_append_conv2)
    have "us = []" if "delivery es @ us = tl ?l"
      using False arg_cong [OF that, of length] by (cases us) auto
    with us have "delivery es = tl ?l @ us" "us @ q = ys" by auto
    then show ?thesis using read_length_run [OF assms(1) _ assms(3,4)] by blast
  next
    case True
    have f: "((if m then 0x80 else 0x00) OR 126 :: u8) AND 0x7F = 126" "((if m then 0x80 else 0x00) OR 127 :: u8) AND 0x7F = 127"
      using small_length_fields(1) [of 126 m] small_length_fields(1) [of 127 m] by simp_all
    have "read_part i (es @ Fault k # later) = (Err (cut_error k), later)" if "length (delivery es) < i" for i
      using read_exact_short(1) [OF assms(1) that assms(5), of later]
      by (simp add: read_part_def exec_map_err_def cut_error_def ws_error_from_io_def)
    then show ?thesis
      using True f by (auto simp: ws_length_bytes_def read_payload_len_def bind_def split: if_splits)
  qed
qed

lemma read_mask_stage:
  assumes "delivers es" "delivery es @ q = (case kx of Some key \<Rightarrow> mask_bytes key | None \<Rightarrow> []) @ ys" "k \<noteq> Interrupted"
  shows "read_mask (kx \<noteq> None) (es @ Fault k # later) = (Err (cut_error k), later)
    \<or> (\<exists>es'. read_mask (kx \<noteq> None) (es @ Fault k # later) = (Ok kx, es' @ Fault k # later) \<and> delivers es' \<and> delivery es' @ q = ys)"
proof (cases kx)
  case (Some key)
  then show ?thesis
    using read_part_stage [OF assms(1), of q "mask_bytes key" ys 4 k later] assms(2,3)
    by (auto simp: read_mask_def bind_def ret_run)
qed (use assms in \<open>auto simp: read_mask_def ret_run\<close>)

lemma ws_decode_cut:
  assumes d: "delivers (Chunk (b # bs) # es)" "delivery (Chunk (b # bs) # es) @ q = ws_encode f" "q \<noteq> []"
    and h: "holds_payload usz f" and k: "k \<noteq> Interrupted"
  shows "ws_decode usz ((Chunk (b # bs) # es) @ Fault k # later) = (Err (cut_error k), later)"
proof -
  note bounds = holds_payload_bounds [OF h]
  obtain e1 where e1: "first_byte ((Chunk (b # bs) # es) @ Fault k # later) = (Ok b, e1 @ Fault k # later)" "delivers e1"
    "delivery e1 = bs @ delivery es"
    using read_some_first [OF d(1)] by blast
  have b: "b = frame_flags f" and t: "delivery e1 @ q = [hd (frame_length f)] @ tl (frame_length f) @ frame_key f
      @ unmask (wf_mask f) (wf_payload f)"
    using d(2) e1(3) by (simp_all add: frame_parts)
  note fields = header_fields [of "wf_fin f" "wf_opcode f", folded frame_flags_def]
  note masked = length_masked [of "wf_mask f \<noteq> None" "length (wf_payload f)", folded frame_length_def]
  have size: "length (wf_payload f) \<le> isize_max usz" using h by (simp add: holds_payload_def)
  note run = ws_decode_def bind_def lift_result_run ret_run b fields masked size e1(1) [unfolded b append_Cons]
  show ?thesis
  proof (rule ccontr)
    assume neg: "\<not> ?thesis"
    have "read_part 1 (e1 @ Fault k # later) \<noteq> (Err (cut_error k), later)" using neg by (auto simp: run)
    then obtain e2 where e2: "read_part 1 (e1 @ Fault k # later) = (Ok [hd (frame_length f)], e2 @ Fault k # later)"
      "delivers e2" "delivery e2 @ q = tl (frame_length f) @ frame_key f @ unmask (wf_mask f) (wf_payload f)"
      using read_part_stage [OF e1(2) t _ k, of 1 later] by auto
    have "read_payload_len usz (hd (frame_length f) AND 0x7F) (e2 @ Fault k # later) \<noteq> (Err (cut_error k), later)"
      using neg by (auto simp: run e2(1) simp del: One_nat_def not_None_eq)
    then obtain e3 where e3: "read_payload_len usz (hd (frame_length f) AND 0x7F) (e2 @ Fault k # later)
        = (Ok (length (wf_payload f)), e3 @ Fault k # later)" "delivers e3"
      "delivery e3 @ q = frame_key f @ unmask (wf_mask f) (wf_payload f)"
      using read_length_stage [OF e2(2) e2(3) [unfolded frame_length_def] bounds k, of later, folded frame_length_def]
      by blast
    have "read_mask (wf_mask f \<noteq> None) (e3 @ Fault k # later) \<noteq> (Err (cut_error k), later)"
      using neg by (auto simp: run e2(1) e3(1) simp del: One_nat_def not_None_eq)
    then obtain e4 where e4: "read_mask (wf_mask f \<noteq> None) (e3 @ Fault k # later) = (Ok (wf_mask f), e4 @ Fault k # later)"
      "delivers e4" "delivery e4 @ q = unmask (wf_mask f) (wf_payload f)"
      using read_mask_stage [OF e3(2) e3(3) [unfolded frame_key_def] k, of later] by blast
    have "length (delivery e4) + length q = length (wf_payload f)" using e4(3) by (metis length_append length_unmask)
    then have "length (delivery e4) < length (wf_payload f)" using d(3) by (cases q) simp_all
    then have "read_part (length (wf_payload f)) (e4 @ Fault k # later) = (Err (cut_error k), later)"
      using read_exact_short(1) [OF e4(2) _ k, of _ later]
      by (simp add: read_part_def exec_map_err_def cut_error_def ws_error_from_io_def)
    then show False using neg by (auto simp: run e2(1) e3(1) e4(1) simp del: One_nat_def not_None_eq)
  qed
qed

section \<open>Properties\<close>

text \<open>C16: a frame survives the wire. Whatever frame is encoded (any opcode, masked or not, any payload the
  receiver can hold), and however the bytes arrive, in pieces of any size with any interruptions after the
  first, \<open>decode\<close> returns the frame and leaves exactly the bytes behind it unread.\<close>

theorem frame_round_trip:
  assumes "delivers (Chunk (b # bs) # es)" "delivery (Chunk (b # bs) # es) = ws_encode f @ rest" "holds_payload usz f"
  shows "\<exists>es'. ws_decode usz ((Chunk (b # bs) # es) @ later) = (Ok f, es' @ later)
    \<and> delivers es' \<and> delivery es' = rest"
  by (rule ws_decode_run [OF assms])

theorem frame_round_trip_witness:
  "\<exists>es'. ws_decode 8 [Chunk [0x81], Fault Interrupted, Chunk [0x82, 1, 2], Chunk [3, 4, 0x69, 0x6B, 0x21]]
    = (Ok \<lparr>wf_fin = True, wf_opcode = OC_Text, wf_mask = Some (MaskKey 1 2 3 4), wf_payload = [0x68, 0x69]\<rparr>, es')
    \<and> delivery es' = [0x21]"
proof -
  let ?f = "\<lparr>wf_fin = True, wf_opcode = OC_Text, wf_mask = Some (MaskKey 1 2 3 4), wf_payload = [0x68, 0x69]\<rparr>"
  have "ws_encode ?f = [0x81, 0x82, 1, 2, 3, 4, 0x69, 0x6B]"
    by (simp add: ws_encode_def ws_length_bytes_def apply_mask_def)
  then show ?thesis
    using frame_round_trip [of "0x81" "[]" "[Fault Interrupted, Chunk [0x82, 1, 2], Chunk [3, 4, 0x69, 0x6B, 0x21]]" ?f "[0x21]" 8 "[]"]
    by (simp add: holds_payload_def isize_max_def) blast
qed

text \<open>A frame that is cut is never resumed in the middle. When the stream would block, or times out,
  after at least the first byte and before the last one, \<open>decode\<close> reports a protocol error; when it does so
  before the first byte, it reports the stream's own error and has consumed nothing of the frame.\<close>

theorem cut_frame_is_protocol_error:
  assumes "delivers (Chunk (b # bs) # es)" "delivery (Chunk (b # bs) # es) @ missing = ws_encode f" "missing \<noteq> []"
    and "holds_payload usz f" "k = WouldBlock \<or> k = TimedOut"
  shows "ws_decode usz ((Chunk (b # bs) # es) @ Fault k # later) = (Err (WS_ProtocolError (Note_PartialRead k)), later)
    \<and> ws_decode usz (Fault k # later) = (Err (WS_IoError k), later)"
  using ws_decode_cut [OF assms(1-4), of k later] assms(5)
  by (auto simp: cut_error_def map_partial_read_err_def) (simp_all add: ws_decode_def first_byte_def bind_def)

theorem cut_frame_is_protocol_error_witness:
  "ws_decode 8 [Chunk [0x82, 3, 7], Fault WouldBlock, Chunk [8, 9]]
    = (Err (WS_ProtocolError (Note_PartialRead WouldBlock)), [Chunk [8, 9]])"
proof -
  let ?f = "\<lparr>wf_fin = True, wf_opcode = OC_Binary, wf_mask = None, wf_payload = [7, 8, 9]\<rparr>"
  have "ws_encode ?f = [0x82, 3, 7, 8, 9]" by (simp add: ws_encode_def ws_length_bytes_def)
  then show ?thesis
    using cut_frame_is_protocol_error [of "0x82" "[3, 7]" "[]" "[8, 9]" ?f 8 WouldBlock "[Chunk [8, 9]]"]
    by (simp add: holds_payload_def isize_max_def)
qed

text \<open>A peer can make \<open>decode\<close> panic. A header that announces a payload longer than \<open>isize::MAX\<close>, ten
  bytes in all, is answered by allocating that payload before a byte of it has arrived.\<close>

theorem oversized_frame_panics:
  assumes "delivers (Chunk (b # bs) # es)" "delivery (Chunk (b # bs) # es) = b # 127 # be_bytes 8 n @ rest"
    and "opcode_from_byte (b AND 0x0F) = Ok oc" "isize_max usz < as_usize usz n"
  shows "fst (ws_decode usz (Chunk (b # bs) # es)) = Panic"
proof -
  obtain e1 where e1: "first_byte ((Chunk (b # bs) # es) @ []) = (Ok b, e1 @ [])" "delivers e1"
    "delivery e1 = bs @ delivery es"
    using read_some_first [OF assms(1)] by blast
  then have t: "delivery e1 = [127] @ be_bytes 8 n @ rest" using assms(2) by simp
  obtain e2 where e2: "read_part 1 (e1 @ []) = (Ok [127], e2 @ [])" "delivers e2" "delivery e2 = be_bytes 8 n @ rest"
    using read_part_run [OF e1(2) t, of 1 "[]"] by auto
  obtain e3 where "read_part 8 (e2 @ []) = (Ok (be_bytes 8 n), e3 @ [])"
    using read_part_run [OF e2(2,3), of 8 "[]"] by auto
  then have "read_payload_len usz 127 e2 = (Ok (as_usize usz n), e3)"
    by (simp add: read_payload_len_def bind_def ret_run be_word_be_bytes)
  then show ?thesis
    using e1(1) e2(1) assms(3,4) by (simp add: ws_decode_def bind_def lift_result_run read_mask_def ret_run)
qed

theorem oversized_frame_panics_witness:
  "fst (ws_decode 8 [Chunk [0x82, 127, 0x80, 0, 0, 0, 0, 0, 0, 0]]) = Panic"
proof -
  have "be_bytes 8 (0x8000000000000000 :: u64) = [0x80, 0, 0, 0, 0, 0, 0, 0]"
    by (simp add: be_bytes_def le_bytes_def upt_rec)
  then show ?thesis
    using oversized_frame_panics [of "0x82" "[127, 0x80, 0, 0, 0, 0, 0, 0, 0]" "[]" "0x8000000000000000" "[]" OC_Binary 8]
    by (simp add: opcode_from_byte_def isize_max_def as_usize_def)
qed

lemma ws_decode_with_buffer_run:
  assumes "\<forall>n. resize [] n 0 = (if n \<le> isize_max usz then Ok (replicate n 0) else Panic)"
  shows "ws_decode_with_buffer resize usz es = bind (ws_decode usz) (\<lambda>f. ret (f, wf_payload f)) es"
proof -
  have lift: "bind (lift_result (if c then Ok x else Panic)) k = (if c then k x else lift_result Panic)"
    for c and x :: bytes and k :: "bytes \<Rightarrow> (reader, ws_error, ws_frame \<times> bytes) exec"
    by (auto simp: fun_eq_iff bind_def lift_result_run)
  have panic: "bind (lift_result Panic) (\<lambda>f. ret (f, wf_payload f)) = lift_result Panic"
    by (simp add: fun_eq_iff bind_def lift_result_run)
  have if_bind: "bind (if c then m else m') k = (if c then bind m k else bind m' k)"
    for c and m m' :: "(reader, ws_error, ws_frame) exec" and k :: "ws_frame \<Rightarrow> (reader, ws_error, ws_frame \<times> bytes) exec"
    by simp
  show ?thesis
    by (simp add: ws_decode_with_buffer_def ws_decode_def bind_assoc assms lift Let_def bind_ret if_bind panic cong: if_cong)
qed

text \<open>\<open>decode_with_buffer\<close> is \<open>decode\<close>. On every stream it returns the same frame, the same error or
  panic, and leaves the same bytes, and the buffer of the caller holds the payload.\<close>

theorem decode_with_buffer_equals_decode:
  assumes "\<forall>n. resize [] n 0 = (if n \<le> isize_max usz then Ok (replicate n 0) else Panic)"
  shows "bind (ws_decode_with_buffer resize usz) (\<lambda>(f, buf). ret f) es = ws_decode usz es
    \<and> (\<forall>f buf es'. ws_decode_with_buffer resize usz es = (Ok (f, buf), es') \<longrightarrow> buf = wf_payload f)"
  using ws_decode_with_buffer_run [of resize usz es] assms
  by (auto simp: bind_def ret_run split: prod.splits result.splits)

theorem decode_with_buffer_equals_decode_witness:
  "bind (ws_decode_with_buffer (\<lambda>_ n b. if n \<le> isize_max 4 then Ok (replicate n b) else Panic) 4) (\<lambda>(f, buf). ret f)
     [Chunk [0x82, 1, 5]] = ws_decode 4 [Chunk [0x82, 1, 5]]"
  using decode_with_buffer_equals_decode [of "\<lambda>_ n b. if n \<le> isize_max 4 then Ok (replicate n b) else Panic" 4] by simp

text \<open>An encoded frame costs its payload, two bytes, no, two or eight more for the length, the fewest
  that can carry it, and four for a mask.\<close>

theorem encoded_frame_length:
  "length (ws_encode f) = 2
     + (if length (wf_payload f) < 126 then 0 else if length (wf_payload f) < 2 ^ 16 then 2 else 8)
     + (if wf_mask f = None then 0 else 4) + length (wf_payload f)"
  by (auto simp: ws_encode_def ws_length_bytes_def Let_def split: option.split)

end
