(* ===== verification/WsWriter.thy ===== *)
theory WsWriter
  imports WsFrame
begin

text \<open>
  Writing frames in batches: \<open>foundation_core/src/wire/websocket/batch_writer.rs\<close>. Encoded frames gather in a
  buffer that is written out when it is full, when its oldest frame has waited long enough, or on request.
  A reading of the clock is a number of nanoseconds, an argument of the operation that reads it; the
  statistics count without bound.
\<close>

section \<open>The writer\<close>

definition DEFAULT_BATCH_SIZE_BYTES :: nat where
  "DEFAULT_BATCH_SIZE_BYTES = 16 * 1024"

definition DEFAULT_FLUSH_TIMEOUT :: nat where
  "DEFAULT_FLUSH_TIMEOUT = 10 * 1000000"

record batch_writer =
  bw_inner :: writer
  bw_buffer :: bytes
  bw_max :: nat
  bw_timeout :: nat
  bw_start :: "nat option"
  bw_count :: nat
  bw_frames :: nat
  bw_flushes :: nat
  bw_bytes :: nat

record batch_writer_stats =
  st_frames :: nat
  st_flushes :: nat
  st_bytes :: nat
  st_buffered :: nat
  st_queued :: nat

definition batch_writer_new :: "writer \<Rightarrow> nat \<Rightarrow> nat \<Rightarrow> batch_writer" where
  "batch_writer_new inner max_batch_size flush_timeout =
     \<lparr>bw_inner = inner, bw_buffer = [], bw_max = max_batch_size, bw_timeout = flush_timeout, bw_start = None,
      bw_count = 0, bw_frames = 0, bw_flushes = 0, bw_bytes = 0\<rparr>"

definition with_defaults :: "writer \<Rightarrow> batch_writer" where
  "with_defaults inner =
     \<lparr>bw_inner = inner, bw_buffer = [], bw_max = DEFAULT_BATCH_SIZE_BYTES, bw_timeout = DEFAULT_FLUSH_TIMEOUT,
      bw_start = None, bw_count = 0, bw_frames = 0, bw_flushes = 0, bw_bytes = 0\<rparr>"

definition needs_flush :: "nat \<Rightarrow> batch_writer \<Rightarrow> bool" where
  "needs_flush now b \<longleftrightarrow>
     bw_max b \<le> length (bw_buffer b)
     \<or> (case bw_start b of None \<Rightarrow> False | Some start \<Rightarrow> bw_timeout b \<le> now - start)"

text \<open>\<open>self.inner.write_all(..)\<close> and \<open>self.inner.flush()\<close>, with their errors wrapped.\<close>

definition on_inner :: "(writer, io_kind, unit) exec \<Rightarrow> (batch_writer, ws_error, unit) exec" where
  "on_inner m b = (case m (bw_inner b) of (r, w) \<Rightarrow> (map_err WS_IoError r, b\<lparr>bw_inner := w\<rparr>))"

definition put_all :: "bytes \<Rightarrow> (batch_writer, ws_error, unit) exec" where
  "put_all bs = bind (on_inner (write_all bs)) (\<lambda>_. on_inner flush_writer)"

definition flush_batch :: "(batch_writer, ws_error, unit) exec" where
  "flush_batch b =
     (if bw_buffer b = [] then (Ok (), b)
      else bind (put_all (bw_buffer b))
        (\<lambda>_ b. (Ok (), b\<lparr>bw_flushes := bw_flushes b + 1, bw_buffer := [], bw_count := 0, bw_start := None\<rparr>)) b)"

definition push_frame :: "ws_frame \<Rightarrow> batch_writer \<Rightarrow> batch_writer" where
  "push_frame frame b =
     (let encoded = ws_encode frame
      in b\<lparr>bw_buffer := bw_buffer b @ encoded, bw_count := bw_count b + 1,
           bw_frames := bw_frames b + 1, bw_bytes := bw_bytes b + length encoded\<rparr>)"

text \<open>\<open>t0\<close> is the reading when a batch starts, \<open>t1\<close> when it is restarted, \<open>t2\<close> that of \<open>needs_flush\<close>.\<close>

definition make_room :: "nat \<Rightarrow> nat \<Rightarrow> (batch_writer, ws_error, unit) exec" where
  "make_room t1 encoded_len b =
     (if bw_max b < length (bw_buffer b) + encoded_len \<and> bw_buffer b \<noteq> []
      then bind flush_batch (\<lambda>_ b. (Ok (), b\<lparr>bw_start := Some t1\<rparr>)) b
      else (Ok (), b))"

definition queue_frame :: "nat \<Rightarrow> nat \<Rightarrow> nat \<Rightarrow> ws_frame \<Rightarrow> (batch_writer, ws_error, unit) exec" where
  "queue_frame t0 t1 t2 frame b =
     bind (make_room t1 (length (ws_encode frame)))
       (\<lambda>_ b. let b = push_frame frame b in if needs_flush t2 b then flush_batch b else (Ok (), b))
       (if bw_start b = None then b\<lparr>bw_start := Some t0\<rparr> else b)"

fun queue_frames :: "((nat \<times> nat \<times> nat) \<times> ws_frame) list \<Rightarrow> (batch_writer, ws_error, unit) exec" where
  "queue_frames [] = ret ()"
| "queue_frames (((t0, t1, t2), frame) # frames) = bind (queue_frame t0 t1 t2 frame) (\<lambda>_. queue_frames frames)"

definition write_immediate :: "ws_frame \<Rightarrow> (batch_writer, ws_error, unit) exec" where
  "write_immediate frame =
     bind flush_batch (\<lambda>_.
       let encoded = ws_encode frame
       in bind (put_all encoded) (\<lambda>_ b. (Ok (), b\<lparr>bw_frames := bw_frames b + 1,
            bw_bytes := bw_bytes b + length encoded, bw_flushes := bw_flushes b + 1\<rparr>)))"

definition queued_frame_count :: "batch_writer \<Rightarrow> nat" where
  "queued_frame_count b = bw_count b"

definition buffered_bytes :: "batch_writer \<Rightarrow> nat" where
  "buffered_bytes b = length (bw_buffer b)"

definition writer_stats :: "batch_writer \<Rightarrow> batch_writer_stats" where
  "writer_stats b =
     \<lparr>st_frames = bw_frames b, st_flushes = bw_flushes b, st_bytes = bw_bytes b,
      st_buffered = length (bw_buffer b), st_queued = bw_count b\<rparr>"

definition writer_into_inner :: "batch_writer \<Rightarrow> (ws_error, writer) result" where
  "writer_into_inner b = (case flush_batch b of (r, b') \<Rightarrow> rbind r (\<lambda>_. Ok (bw_inner b')))"

section \<open>What has been sent\<close>

text \<open>The abstraction: the bytes put out and those still in the buffer, as one stream.\<close>

definition sent :: "batch_writer \<Rightarrow> bytes" where
  "sent b = w_out (bw_inner b) @ bw_buffer b"

text \<open>The invariant: the buffer is a whole number of frames, counted by \<open>frame_count\<close>, and the statistics
  of bytes and frames cover what is in it.\<close>

definition writer_inv :: "batch_writer \<Rightarrow> bool" where
  "writer_inv b \<longleftrightarrow>
     (\<exists>fs. bw_buffer b = concat (map ws_encode fs) \<and> bw_count b = length fs \<and> length fs \<le> bw_frames b
           \<and> length (bw_buffer b) \<le> bw_bytes b)
     \<and> (bw_buffer b \<noteq> [] \<longrightarrow> bw_start b \<noteq> None)"

lemma ws_encode_nonempty [simp]: "ws_encode f \<noteq> []"
  by (simp add: ws_encode_def Let_def split: option.split)

lemma writer_inv_new [simp]: "writer_inv (batch_writer_new w n t)" "writer_inv (with_defaults w)"
  by (auto simp: writer_inv_def batch_writer_new_def with_defaults_def intro!: exI [of _ "[]"])

lemma put_all_result:
  assumes "put_all bs b = (r, b')"
  shows "r \<noteq> Panic \<and> (\<exists>w out rest. b' = b\<lparr>bw_inner := w\<rparr> \<and> bs = out @ rest \<and> w_out w = w_out (bw_inner b) @ out
    \<and> (r = Ok () \<longrightarrow> rest = []))"
proof -
  obtain r1 w1 where w1: "write_all bs (bw_inner b) = (r1, w1)" by (cases "write_all bs (bw_inner b)")
  obtain r2 w2 where w2: "flush_writer w1 = (r2, w2)" by (cases "flush_writer w1")
  show ?thesis
  proof (cases r1)
    case (Ok u)
    then show ?thesis
      using assms w1 w2 write_all_Ok [of bs "bw_inner b" w1] flush_writer_out [OF w2]
      by (cases r2) (auto simp: put_all_def on_inner_def bind_def)
  next
    case (Err e)
    then show ?thesis
      using assms w1 write_all_prefix [OF w1] by (auto simp: put_all_def on_inner_def bind_def)
  qed (use write_all_prefix [OF w1] in simp)
qed

lemma flush_batch_result:
  assumes "flush_batch b = (r, b')"
  shows "r \<noteq> Panic
    \<and> (r = Ok () \<longrightarrow> sent b' = sent b \<and> bw_buffer b' = [] \<and> bw_count b' = (if bw_buffer b = [] then bw_count b else 0))
    \<and> (\<forall>e. r = Err e \<longrightarrow> bw_buffer b \<noteq> []
         \<and> (\<exists>w out rest. b' = b\<lparr>bw_inner := w\<rparr> \<and> bw_buffer b = out @ rest \<and> w_out w = w_out (bw_inner b) @ out))
    \<and> bw_frames b' = bw_frames b \<and> bw_bytes b' = bw_bytes b \<and> bw_max b' = bw_max b \<and> bw_timeout b' = bw_timeout b"
proof (cases "bw_buffer b = []")
  case False
  obtain r1 b1 where put: "put_all (bw_buffer b) b = (r1, b1)" by (cases "put_all (bw_buffer b) b")
  from put_all_result [OF put] assms put False show ?thesis
    by (cases r1) (auto simp: flush_batch_def bind_def sent_def)
qed (use assms in \<open>auto simp: flush_batch_def\<close>)

lemma flush_batch_inv:
  assumes "flush_batch b = (r, b')" "writer_inv b"
  shows "writer_inv b'"
proof (cases "bw_buffer b = []")
  case False
  note out = flush_batch_result [OF assms(1)]
  show ?thesis
  proof (cases r)
    case (Ok u)
    then show ?thesis using out assms(2) False by (auto simp: writer_inv_def intro!: exI [of _ "[]"])
  next
    case (Err e)
    then obtain w where "b' = b\<lparr>bw_inner := w\<rparr>" using out by auto
    then show ?thesis using assms(2) by (simp add: writer_inv_def)
  qed (use out in simp)
qed (use assms in \<open>simp add: flush_batch_def\<close>)

lemma push_frame_inv:
  assumes "writer_inv b" "bw_start b \<noteq> None"
  shows "writer_inv (push_frame f b)"
proof -
  obtain fs where "bw_buffer b = concat (map ws_encode fs)" "bw_count b = length fs" "length fs \<le> bw_frames b"
    "length (bw_buffer b) \<le> bw_bytes b"
    using assms(1) by (auto simp: writer_inv_def)
  then show ?thesis
    using assms(2) by (auto simp: writer_inv_def push_frame_def Let_def intro!: exI [of _ "fs @ [f]"])
qed

text \<open>A call of \<open>queue_frame\<close>: either the flush that makes room fails, and the frame is not taken, or the frame
  is taken and the flush after it may fail.\<close>

lemma queue_frame_cases:
  assumes "queue_frame t0 t1 t2 f b = (r, b')" "writer_inv b"
  obtains (refused) e b1 where "r = Err e" "flush_batch b1 = (Err e, b')" "writer_inv b1" "sent b1 = sent b"
      "bw_buffer b1 = bw_buffer b" "bw_frames b1 = bw_frames b" "bw_bytes b1 = bw_bytes b"
  | (taken) b1 where "writer_inv b1" "sent b1 = sent b" "bw_frames b1 = bw_frames b" "bw_bytes b1 = bw_bytes b"
      "bw_max b1 = bw_max b" "bw_start b1 \<noteq> None"
      "(r, b') = (if needs_flush t2 (push_frame f b1) then flush_batch (push_frame f b1) else (Ok (), push_frame f b1))"
proof -
  define b1 where "b1 = (if bw_start b = None then b\<lparr>bw_start := Some t0\<rparr> else b)"
  have b1: "writer_inv b1" "sent b1 = sent b" "bw_buffer b1 = bw_buffer b" "bw_frames b1 = bw_frames b"
    "bw_bytes b1 = bw_bytes b" "bw_max b1 = bw_max b" "bw_start b1 \<noteq> None"
    using assms(2) by (auto simp: b1_def writer_inv_def sent_def)
  have run: "bind (make_room t1 (length (ws_encode f)))
      (\<lambda>_ b. let b = push_frame f b in if needs_flush t2 b then flush_batch b else (Ok (), b)) b1 = (r, b')"
    using assms(1) by (simp add: queue_frame_def b1_def)
  show thesis
  proof (cases "bw_max b1 < length (bw_buffer b1) + length (ws_encode f) \<and> bw_buffer b1 \<noteq> []")
    case False
    then have "make_room t1 (length (ws_encode f)) b1 = (Ok (), b1)" by (auto simp: make_room_def)
    then show thesis using taken [of b1] b1 run by (simp add: bind_def Let_def)
  next
    case True
    then have room: "make_room t1 (length (ws_encode f)) b1
        = bind flush_batch (\<lambda>_ b. (Ok (), b\<lparr>bw_start := Some t1\<rparr>)) b1"
      by (simp add: make_room_def)
    obtain r2 b2 where flush: "flush_batch b1 = (r2, b2)" by (cases "flush_batch b1")
    note after = flush_batch_result [OF flush] flush_batch_inv [OF flush b1(1)]
    show thesis
    proof (cases r2)
      case (Ok u)
      have "writer_inv (b2\<lparr>bw_start := Some t1\<rparr>)" using after(2) by (simp add: writer_inv_def)
      then show thesis
        using taken [of "b2\<lparr>bw_start := Some t1\<rparr>"] after(1) b1 run room flush Ok
        by (auto simp: sent_def bind_def Let_def)
    next
      case (Err e)
      then show thesis using refused [of e b1] b1 run room flush by (simp add: bind_def)
    qed (use after in simp)
  qed
qed

lemma queue_frame_Ok:
  assumes "queue_frame t0 t1 t2 f b = (Ok (), b')" "writer_inv b"
  shows "sent b' = sent b @ ws_encode f \<and> bw_frames b' = bw_frames b + 1
    \<and> bw_bytes b' = bw_bytes b + length (ws_encode f)
    \<and> (bw_buffer b' = [] \<or> length (bw_buffer b') < bw_max b')"
  using assms
proof (cases rule: queue_frame_cases)
  case (taken b1)
  have push: "sent (push_frame f b1) = sent b1 @ ws_encode f" by (simp add: sent_def push_frame_def Let_def)
  show ?thesis
  proof (cases "needs_flush t2 (push_frame f b1)")
    case True
    then have "flush_batch (push_frame f b1) = (Ok (), b')" using taken by simp
    from flush_batch_result [OF this] push taken show ?thesis by (simp add: push_frame_def Let_def)
  next
    case False
    then show ?thesis using taken push by (auto simp: push_frame_def needs_flush_def Let_def)
  qed
qed simp

lemma queue_frame_inv:
  assumes "queue_frame t0 t1 t2 f b = (r, b')" "writer_inv b"
  shows "writer_inv b' \<and> r \<noteq> Panic"
  using assms
proof (cases rule: queue_frame_cases)
  case (refused e b1)
  then show ?thesis using flush_batch_inv by auto
next
  case (taken b1)
  have "writer_inv (push_frame f b1)" using push_frame_inv taken by blast
  then show ?thesis
    using taken flush_batch_inv [of "push_frame f b1" r b'] flush_batch_result [of "push_frame f b1" r b']
    by (auto split: if_splits)
qed

lemma write_immediate_Ok:
  assumes "write_immediate f b = (Ok (), b')" "writer_inv b"
  shows "writer_inv b' \<and> sent b' = sent b @ ws_encode f \<and> bw_buffer b' = [] \<and> bw_frames b' = bw_frames b + 1
    \<and> bw_bytes b' = bw_bytes b + length (ws_encode f)"
proof -
  obtain b1 where flush: "flush_batch b = (Ok (), b1)"
    using assms(1) by (auto simp: write_immediate_def bind_eq_Ok)
  obtain b2 where put: "put_all (ws_encode f) b1 = (Ok (), b2)"
      "b' = b2\<lparr>bw_frames := bw_frames b2 + 1, bw_bytes := bw_bytes b2 + length (ws_encode f), bw_flushes := bw_flushes b2 + 1\<rparr>"
    using assms(1) flush by (auto simp: write_immediate_def bind_def Let_def split: prod.splits result.splits)
  have "writer_inv b1" using flush_batch_inv [OF flush assms(2)] .
  then have "writer_inv b'"
    using put_all_result [OF put(1)] flush_batch_result [OF flush] put(2)
    by (auto simp: writer_inv_def intro!: exI [of _ "[]"])
  then show ?thesis
    using put_all_result [OF put(1)] flush_batch_result [OF flush] put(2) by (auto simp: sent_def)
qed

section \<open>Sequences of calls\<close>

datatype writer_call = Queue nat nat nat ws_frame | Flush | Immediate ws_frame

primrec run_call :: "writer_call \<Rightarrow> (batch_writer, ws_error, unit) exec" where
  "run_call (Queue t0 t1 t2 f) = queue_frame t0 t1 t2 f"
| "run_call Flush = flush_batch"
| "run_call (Immediate f) = write_immediate f"

primrec called_frames :: "writer_call \<Rightarrow> ws_frame list" where
  "called_frames (Queue t0 t1 t2 f) = [f]"
| "called_frames Flush = []"
| "called_frames (Immediate f) = [f]"

text \<open>The calls are made one after the other, whatever each returns.\<close>

fun run_calls :: "writer_call list \<Rightarrow> batch_writer \<Rightarrow> (ws_error, unit) result list \<times> batch_writer" where
  "run_calls [] b = ([], b)"
| "run_calls (c # cs) b = (case run_call c b of (r, b1) \<Rightarrow> (case run_calls cs b1 of (rs, b2) \<Rightarrow> (r # rs, b2)))"

lemma write_immediate_inv:
  assumes "write_immediate f b = (r, b')" "writer_inv b"
  shows "writer_inv b' \<and> r \<noteq> Panic"
proof (cases "r = Ok ()")
  case True
  then show ?thesis using write_immediate_Ok assms by blast
next
  case False
  obtain r1 b1 where flush: "flush_batch b = (r1, b1)" by (cases "flush_batch b")
  obtain r2 b2 where put: "put_all (ws_encode f) b1 = (r2, b2)" by (cases "put_all (ws_encode f) b1")
  have kept: "writer_inv b1" "writer_inv b2"
    using flush_batch_inv [OF flush assms(2)] put_all_result [OF put] by (auto simp: writer_inv_def)
  have "r = r1 \<and> b' = b1 \<and> r1 \<noteq> Ok () \<or> r = r2 \<and> b' = b2"
    using assms(1) flush put False
    by (auto simp: write_immediate_def bind_def Let_def split: prod.splits result.splits)
  then show ?thesis using kept flush_batch_result [OF flush] put_all_result [OF put] by auto
qed

lemma run_call_inv: "run_call c b = (r, b') \<Longrightarrow> writer_inv b \<Longrightarrow> writer_inv b' \<and> r \<noteq> Panic"
  using queue_frame_inv flush_batch_inv flush_batch_result write_immediate_inv
  by (cases c) (fastforce simp: )+

lemma run_call_Ok:
  assumes "run_call c b = (Ok (), b')" "writer_inv b"
  shows "sent b' = sent b @ concat (map ws_encode (called_frames c))
    \<and> bw_frames b' = bw_frames b + length (called_frames c)
    \<and> bw_bytes b' = bw_bytes b + length (concat (map ws_encode (called_frames c)))
    \<and> (bw_buffer b' = [] \<or> length (bw_buffer b') < bw_max b')"
  using assms queue_frame_Ok [of _ _ _ _ b b'] flush_batch_result [of b "Ok ()" b'] write_immediate_Ok [of _ b b']
  by (cases c) auto

lemma run_calls_inv:
  "run_calls cs b = (rs, b') \<Longrightarrow> writer_inv b \<Longrightarrow> writer_inv b' \<and> list_all (\<lambda>r. r \<noteq> Panic) rs"
proof (induction cs arbitrary: b rs)
  case (Cons c cs)
  obtain r b1 where c: "run_call c b = (r, b1)" by (cases "run_call c b")
  obtain rs1 where "run_calls cs b1 = (rs1, b')" "rs = r # rs1" using Cons.prems(1) c by (auto split: prod.splits)
  then show ?case using Cons.IH [of b1 rs1] run_call_inv [OF c Cons.prems(2)] by simp
qed simp

lemma run_calls_Ok:
  assumes "run_calls cs b = (rs, b')" "list_all is_ok rs" "writer_inv b"
  shows "sent b' = sent b @ concat (map ws_encode (concat (map called_frames cs)))
    \<and> bw_frames b' = bw_frames b + length (concat (map called_frames cs))
    \<and> bw_bytes b' = bw_bytes b + length (concat (map ws_encode (concat (map called_frames cs))))"
  using assms
proof (induction cs arbitrary: b rs)
  case (Cons c cs)
  obtain r b1 where c: "run_call c b = (r, b1)" by (cases "run_call c b")
  obtain rs1 where cs: "run_calls cs b1 = (rs1, b')" "rs = r # rs1"
    using Cons.prems(1) c by (auto split: prod.splits)
  have "r = Ok ()" using Cons.prems(2) cs(2) by (cases r) auto
  with c have c: "run_call c b = (Ok (), b1)" by simp
  show ?case
    using Cons.IH [OF cs(1)] Cons.prems(2,3) cs(2) run_call_inv [OF c] run_call_Ok [OF c] by simp
qed simp

section \<open>What the writer promises\<close>

text \<open>C26: the writer refines a plain stream. However calls that queue, flush and write at once are mixed, and
  whatever the limit, the timeout and the clock, as long as each call succeeds the bytes put out and those
  still buffered are, together, the encoded frames in the order of the calls, each once; after a final
  flush they are all put out. The statistics count exactly these frames and bytes.\<close>

theorem batched_frames_in_order:
  assumes "run_calls cs (batch_writer_new inner limit timeout) = (rs, b)" "list_all is_ok rs"
  shows "sent b = w_out inner @ concat (map ws_encode (concat (map called_frames cs)))
    \<and> bw_frames b = length (concat (map called_frames cs))
    \<and> bw_bytes b = length (concat (map ws_encode (concat (map called_frames cs))))
    \<and> (\<forall>w. writer_into_inner b = Ok w
         \<longrightarrow> w_out w = w_out inner @ concat (map ws_encode (concat (map called_frames cs))))"
proof -
  have start: "sent (batch_writer_new inner limit timeout) = w_out inner"
      "bw_frames (batch_writer_new inner limit timeout) = 0" "bw_bytes (batch_writer_new inner limit timeout) = 0"
    by (simp_all add: batch_writer_new_def sent_def)
  note stream = run_calls_Ok [OF assms writer_inv_new(1), unfolded start]
  have closed: "w_out w = sent b" if "writer_into_inner b = Ok w" for w
    using that flush_batch_result [of b "Ok ()"]
    by (cases "flush_batch b") (auto simp: writer_into_inner_def rbind_eq_Ok sent_def)
  show ?thesis using stream by (auto dest: closed)
qed

text \<open>Two frames go out together when the second one fills the batch.\<close>

theorem batched_frames_in_order_witness:
  "let f = \<lparr>wf_fin = True, wf_opcode = OC_Text, wf_mask = None, wf_payload = [0x68, 0x69]\<rparr>;
       w = \<lparr>w_out = [], w_writes = [Took 3], w_flushes = []\<rparr>;
       b = snd (run_calls [Queue 0 0 1 f, Queue 2 2 3 f] (batch_writer_new w 8 100))
   in sent b = [0x81, 2, 0x68, 0x69, 0x81, 2, 0x68, 0x69] \<and> bw_buffer b = [] \<and> bw_frames b = 2 \<and> bw_bytes b = 8"
proof -
  let ?f = "\<lparr>wf_fin = True, wf_opcode = OC_Text, wf_mask = None, wf_payload = [0x68, 0x69]\<rparr>"
  let ?w = "\<lparr>w_out = [], w_writes = [Took 3], w_flushes = []\<rparr>"
  have f: "ws_encode ?f = [0x81, 2, 0x68, 0x69]" by (simp add: ws_encode_def ws_length_bytes_def)
  have run: "run_calls [Queue 0 0 1 ?f, Queue 2 2 3 ?f] (batch_writer_new ?w 8 100)
    = ([Ok (), Ok ()], \<lparr>bw_inner = \<lparr>w_out = [0x81, 2, 0x68, 0x69, 0x81, 2, 0x68, 0x69], w_writes = [], w_flushes = []\<rparr>,
        bw_buffer = [], bw_max = 8, bw_timeout = 100, bw_start = None, bw_count = 0, bw_frames = 2, bw_flushes = 1, bw_bytes = 8\<rparr>)"
    by (simp add: queue_frame_def make_room_def push_frame_def needs_flush_def flush_batch_def put_all_def on_inner_def
        write_all_def flush_writer_def bind_def f batch_writer_new_def)
  show ?thesis
    using batched_frames_in_order [OF run] run f unfolding Let_def by (simp del: run_calls.simps)
qed

text \<open>The writer's invariant survives every error. Whatever the stream refuses, and whatever the caller
  goes on to call, nothing panics, and the buffer always holds a whole number of frames, as many as
  \<open>queued_frame_count\<close> says and no more than were ever taken.\<close>

theorem buffer_holds_whole_frames:
  "let (rs, b) = run_calls cs (batch_writer_new inner limit timeout)
   in list_all (\<lambda>r. r \<noteq> Panic) rs
      \<and> (\<exists>fs. bw_buffer b = concat (map ws_encode fs) \<and> queued_frame_count b = length fs
              \<and> length fs \<le> st_frames (writer_stats b) \<and> buffered_bytes b \<le> st_bytes (writer_stats b))"
proof (cases "run_calls cs (batch_writer_new inner limit timeout)")
  case (Pair rs b)
  from run_calls_inv [OF Pair] have "list_all (\<lambda>r. r \<noteq> Panic) rs" "writer_inv b" by simp_all
  then show ?thesis
    unfolding Pair writer_inv_def queued_frame_count_def writer_stats_def buffered_bytes_def by simp
qed

text \<open>A flush that fails loses the count of what has gone out. Part of the buffer may be on the stream, but
  the writer keeps all of it: when a later flush succeeds, the peer receives that part and then the whole
  buffer again, which for a part that is not empty is not a sequence of the frames queued.\<close>

theorem failed_flush_repeats_bytes:
  assumes "flush_batch b = (Err e, b1)" "flush_batch b1 = (Ok (), b2)"
  shows "\<exists>out rest. bw_buffer b = out @ rest \<and> w_out (bw_inner b1) = w_out (bw_inner b) @ out
    \<and> w_out (bw_inner b2) = w_out (bw_inner b) @ out @ bw_buffer b"
  using flush_batch_result [OF assms(1)] flush_batch_result [OF assms(2)] by (auto simp: sent_def)

theorem failed_flush_repeats_bytes_witness:
  "let b = \<lparr>bw_inner = \<lparr>w_out = [], w_writes = [Took 1, Refused WouldBlock], w_flushes = []\<rparr>,
        bw_buffer = [0x81, 0], bw_max = 8, bw_timeout = 100, bw_start = Some 0, bw_count = 1, bw_frames = 1,
        bw_flushes = 0, bw_bytes = 2\<rparr>;
       b1 = snd (flush_batch b); b2 = snd (flush_batch b1)
   in w_out (bw_inner b1) = [0x81] \<and> w_out (bw_inner b2) = [0x81, 0x81, 0]"
proof -
  let ?b = "\<lparr>bw_inner = \<lparr>w_out = [], w_writes = [Took 1, Refused WouldBlock], w_flushes = []\<rparr>,
      bw_buffer = [0x81, 0], bw_max = 8, bw_timeout = 100, bw_start = Some 0, bw_count = 1, bw_frames = 1,
      bw_flushes = 0, bw_bytes = 2\<rparr>"
  let ?b1 = "?b\<lparr>bw_inner := \<lparr>w_out = [0x81], w_writes = [], w_flushes = []\<rparr>\<rparr>"
  note defs = flush_batch_def put_all_def on_inner_def write_all_def flush_writer_def bind_def
  have first: "flush_batch ?b = (Err (WS_IoError WouldBlock), ?b1)" by (simp add: defs)
  moreover obtain b2 where second: "flush_batch ?b1 = (Ok (), b2)" by (simp add: defs)
  ultimately show ?thesis
    using failed_flush_repeats_bytes [OF first second] unfolding Let_def by auto
qed

end
