(* ===== verification/WsConnection.thy ===== *)
theory WsConnection
  imports WsWriter
begin

text \<open>
  The two blocking ends of a WebSocket: \<open>WebSocketConnection\<close> of
  \<open>foundation_core/src/wire/websocket/connection.rs\<close> and \<open>WebSocketServerConnection\<close> of \<open>server.rs\<close>. Each
  owns one stream, read directly and written through a \<open>BatchFrameWriter\<close>; the shared stream of the
  code is the reader of the one and the inner writer of the other. The readings of the clock that a queued
  frame takes are one argument \<open>t\<close>.
\<close>

section \<open>The state\<close>

datatype connection_state = CS_Open | CS_Closing (close_sent: bool) (close_received: bool) | CS_Closed

record connection =
  cn_stream :: reader
  cn_writer :: batch_writer
  cn_state :: connection_state

type_synonym clock = "nat \<times> nat \<times> nat"

definition on_writer :: "(batch_writer, ws_error, 'a) exec \<Rightarrow> (connection, ws_error, 'a) exec" where
  "on_writer m c = (case m (cn_writer c) of (r, w) \<Rightarrow> (r, c\<lparr>cn_writer := w\<rparr>))"

definition on_stream :: "(reader, ws_error, 'a) exec \<Rightarrow> (connection, ws_error, 'a) exec" where
  "on_stream m c = (case m (cn_stream c) of (r, es) \<Rightarrow> (r, c\<lparr>cn_stream := es\<rparr>))"

definition set_state :: "connection_state \<Rightarrow> (connection, ws_error, unit) exec" where
  "set_state s c = (Ok (), c\<lparr>cn_state := s\<rparr>)"

definition connection_new :: "reader \<Rightarrow> writer \<Rightarrow> connection" where
  "connection_new es w = \<lparr>cn_stream = es, cn_writer = with_defaults w, cn_state = CS_Open\<rparr>"

definition is_open :: "connection \<Rightarrow> bool" where
  "is_open c = (case cn_state c of CS_Open \<Rightarrow> True | _ \<Rightarrow> False)"

text \<open>The frame of a message; \<open>ConnectionEstablished\<close> has none.\<close>

definition close_payload :: "u16 \<Rightarrow> bytes \<Rightarrow> bytes" where
  "close_payload code reason = be_bytes 2 code @ reason"

fun message_frame :: "mask_key option \<Rightarrow> ws_message \<Rightarrow> ws_frame option" where
  "message_frame key WM_ConnectionEstablished = None"
| "message_frame key (WM_Text text') =
     Some \<lparr>wf_fin = True, wf_opcode = OC_Text, wf_mask = key, wf_payload = text'\<rparr>"
| "message_frame key (WM_Binary data) =
     Some \<lparr>wf_fin = True, wf_opcode = OC_Binary, wf_mask = key, wf_payload = data\<rparr>"
| "message_frame key (WM_Ping data) =
     Some \<lparr>wf_fin = True, wf_opcode = OC_Ping, wf_mask = key, wf_payload = data\<rparr>"
| "message_frame key (WM_Pong data) =
     Some \<lparr>wf_fin = True, wf_opcode = OC_Pong, wf_mask = key, wf_payload = data\<rparr>"
| "message_frame key (WM_Close code reason) =
     Some \<lparr>wf_fin = True, wf_opcode = OC_Close, wf_mask = key, wf_payload = close_payload code reason\<rparr>"

definition parse_close_payload :: "bytes \<Rightarrow> u16 \<times> bytes" where
  "parse_close_payload payload =
     (if payload = [] then (1005, [])
      else if length payload = 1 then (1002, INVALID_CLOSE_PAYLOAD)
      else
        (let code = be_word (take 2 payload);
             reason = (if length payload > 2 then from_utf8_lossy (drop 2 payload) else [])
         in (code, reason)))"

section \<open>\<open>WebSocketConnection\<close>\<close>

definition send_frame :: "clock \<Rightarrow> ws_frame \<Rightarrow> (connection, ws_error, unit) exec" where
  "send_frame t frame =
     on_writer
       (if is_control (wf_opcode frame) then write_immediate frame
        else (case t of (t0, t1, t2) \<Rightarrow> queue_frame t0 t1 t2 frame))"

definition send :: "clock \<Rightarrow> ws_message \<Rightarrow> (connection, ws_error, unit) exec" where
  "send t message c =
     (if cn_state c = CS_Closed then (Err WS_ConnectionClosed, c)
      else
        (case message_frame None message of
           None \<Rightarrow> (Ok (), c)
         | Some frame \<Rightarrow> bind (send_frame t frame) (\<lambda>_. on_writer flush_batch) c))"

definition close :: "clock \<Rightarrow> u16 \<Rightarrow> bytes \<Rightarrow> (connection, ws_error, unit) exec" where
  "close t code reason c =
     (case cn_state c of
        CS_Closed \<Rightarrow> (Ok (), c)
      | CS_Closing True _ \<Rightarrow> (Ok (), c)
      | _ \<Rightarrow>
          bind (on_writer flush_batch) (\<lambda>_.
          bind (send_frame t \<lparr>wf_fin = True, wf_opcode = OC_Close, wf_mask = None,
                  wf_payload = close_payload code reason\<rparr>) (\<lambda>_ c.
            set_state (case cn_state c of
                CS_Open \<Rightarrow> CS_Closing True False
              | CS_Closing _ was_received \<Rightarrow> CS_Closing True was_received
              | CS_Closed \<Rightarrow> CS_Closed) c)) c)"

definition handle_control_frame :: "clock \<Rightarrow> ws_frame \<Rightarrow> (connection, ws_error, ws_message) exec" where
  "handle_control_frame t frame =
     (case wf_opcode frame of
        OC_Ping \<Rightarrow>
          bind (send_frame t \<lparr>wf_fin = True, wf_opcode = OC_Pong, wf_mask = None, wf_payload = wf_payload frame\<rparr>)
            (\<lambda>_. ret (WM_Ping (wf_payload frame)))
      | OC_Pong \<Rightarrow> ret (WM_Pong (wf_payload frame))
      | OC_Close \<Rightarrow>
          (case parse_close_payload (wf_payload frame) of
             (code, reason) \<Rightarrow>
               bind (\<lambda>c. if cn_state c = CS_Open
                         then bind (set_state (CS_Closing False True)) (\<lambda>_. close t code reason) c
                         else (Ok (), c))
                 (\<lambda>_. ret (WM_Close code reason)))
      | _ \<Rightarrow> fail (WS_ProtocolError Note_UnknownControl))"

text \<open>\<open>recv\<close>: \<open>frame_received\<close> is what it does with the frame it has decoded.\<close>

definition frame_received :: "clock \<Rightarrow> ws_frame \<Rightarrow> (connection, ws_error, ws_message) exec" where
  "frame_received t frame =
     bind (lift_result (ws_validate frame)) (\<lambda>_.
       if wf_mask frame \<noteq> None then fail (WS_ProtocolError Note_MaskedFromServer)
       else if is_control (wf_opcode frame) then handle_control_frame t frame
       else if \<not> wf_fin frame then fail (WS_ProtocolError Note_FragmentsNotSupported)
       else if wf_opcode frame = OC_Continuation then fail (WS_ProtocolError Note_Continuation)
       else
         (case wf_opcode frame of
            OC_Text \<Rightarrow> bind (lift_result (map_err WS_InvalidUtf8 (string_from_utf8 (wf_payload frame))))
              (\<lambda>text'. ret (WM_Text text'))
          | OC_Binary \<Rightarrow> ret (WM_Binary (wf_payload frame))
          | _ \<Rightarrow> fail (WS_ProtocolError Note_DataOpcode)))"

definition recv :: "nat \<Rightarrow> clock \<Rightarrow> (connection, ws_error, ws_message) exec" where
  "recv usz t c =
     (if cn_state c = CS_Closed then (Err WS_ConnectionClosed, c)
      else bind (on_writer flush_batch) (\<lambda>_. bind (on_stream (ws_decode usz)) (frame_received t)) c)"

text \<open>The iterator over the messages ends when the connection is no longer open.\<close>

definition messages_next :: "nat \<Rightarrow> clock \<Rightarrow> connection \<Rightarrow> (ws_error, ws_message) result option \<times> connection" where
  "messages_next usz t c =
     (if \<not> is_open c then (None, c) else (case recv usz t c of (r, c') \<Rightarrow> (Some r, c')))"

section \<open>\<open>WebSocketServerConnection\<close>\<close>

type_synonym server_connection = connection

definition server_send_frame :: "clock \<Rightarrow> ws_frame \<Rightarrow> (server_connection, ws_error, unit) exec" where
  "server_send_frame t frame c =
     (if cn_state c = CS_Closed then (Err WS_ConnectionClosed, c)
      else
        (let frame = frame\<lparr>wf_mask := None\<rparr>
         in on_writer
              (if is_control (wf_opcode frame) then write_immediate frame
               else (case t of (t0, t1, t2) \<Rightarrow> queue_frame t0 t1 t2 frame)) c))"

definition server_send :: "clock \<Rightarrow> ws_message \<Rightarrow> (server_connection, ws_error, unit) exec" where
  "server_send t message =
     (case message_frame None message of
        None \<Rightarrow> ret ()
      | Some frame \<Rightarrow> bind (server_send_frame t frame) (\<lambda>_. on_writer flush_batch))"

text \<open>The reason of the close that answers an unmasked frame: \<open>b"unmasked frame"\<close>.\<close>

definition UNMASKED_FRAME :: bytes where
  "UNMASKED_FRAME = [117, 110, 109, 97, 115, 107, 101, 100, 32, 102, 114, 97, 109, 101]"

definition server_received :: "clock \<Rightarrow> ws_frame \<Rightarrow> (server_connection, ws_error, ws_frame) exec" where
  "server_received t frame c =
     (if wf_mask frame = None \<and> \<not> is_control (wf_opcode frame) then
        (let close_frame = \<lparr>wf_fin = True, wf_opcode = OC_Close, wf_mask = None,
               wf_payload = close_payload 1002 UNMASKED_FRAME\<rparr>
         in (case server_send_frame t close_frame c of
               (Panic, c) \<Rightarrow> (Panic, c)
             | (_, c) \<Rightarrow> (Err (WS_ProtocolError Note_UnmaskedClient), c)))
      else (Ok frame, c))"

definition server_recv_frame :: "nat \<Rightarrow> clock \<Rightarrow> (server_connection, ws_error, ws_frame) exec" where
  "server_recv_frame usz t c =
     (if cn_state c = CS_Closed then (Err WS_ConnectionClosed, c)
      else bind (on_writer flush_batch) (\<lambda>_. bind (on_stream (ws_decode usz)) (server_received t)) c)"

definition server_recv :: "nat \<Rightarrow> clock \<Rightarrow> (server_connection, ws_error, ws_message) exec" where
  "server_recv usz t = bind (server_recv_frame usz t) (\<lambda>frame. lift_result (ws_to_message frame))"

definition server_close :: "clock \<Rightarrow> u16 \<Rightarrow> bytes \<Rightarrow> (server_connection, ws_error, unit) exec" where
  "server_close t code reason c =
     (case cn_state c of
        CS_Closed \<Rightarrow> (Ok (), c)
      | CS_Closing True _ \<Rightarrow> (Ok (), c)
      | _ \<Rightarrow>
          bind (on_writer flush_batch) (\<lambda>_.
          bind (server_send_frame t \<lparr>wf_fin = True, wf_opcode = OC_Close, wf_mask = None,
                  wf_payload = close_payload code reason\<rparr>) (\<lambda>_ c.
            set_state (case cn_state c of
                CS_Open \<Rightarrow> CS_Closing True False
              | CS_Closing _ was_received \<Rightarrow> CS_Closing True was_received
              | CS_Closed \<Rightarrow> CS_Closed) c)) c)"

definition server_messages_next ::
    "nat \<Rightarrow> clock \<Rightarrow> server_connection \<Rightarrow> (ws_error, ws_message) result option \<times> server_connection" where
  "server_messages_next usz t c =
     (if \<not> is_open c then (None, c) else (case server_recv usz t c of (r, c') \<Rightarrow> (Some r, c')))"

section \<open>Connections whose stream takes everything\<close>

definition accepting :: "batch_writer \<Rightarrow> bool" where
  "accepting b \<longleftrightarrow> w_writes (bw_inner b) = [] \<and> w_flushes (bw_inner b) = []"

lemma put_all_accepting:
  "accepting b \<Longrightarrow> put_all bs b = (Ok (), b\<lparr>bw_inner := bw_inner b\<lparr>w_out := w_out (bw_inner b) @ bs\<rparr>\<rparr>)"
  by (cases b, cases "bw_inner b")
    (simp add: accepting_def put_all_def on_inner_def write_all_def flush_writer_def bind_def)

lemma flush_batch_accepting:
  assumes "accepting b"
  obtains b' where "flush_batch b = (Ok (), b')" "accepting b'" "sent b' = sent b" "bw_buffer b' = []"
proof (cases "bw_buffer b = []")
  case True
  then show thesis using that [of b] assms by (simp add: flush_batch_def)
next
  case False
  then show thesis using that assms put_all_accepting [OF assms, of "bw_buffer b"]
    by (auto simp: flush_batch_def bind_def accepting_def sent_def)
qed

lemma write_immediate_accepting:
  assumes "accepting b"
  obtains b' where "write_immediate f b = (Ok (), b')" "accepting b'" "sent b' = sent b @ ws_encode f" "bw_buffer b' = []"
proof -
  obtain b1 where b1: "flush_batch b = (Ok (), b1)" "accepting b1" "sent b1 = sent b" "bw_buffer b1 = []"
    using flush_batch_accepting [OF assms] by blast
  show thesis
    using that b1 put_all_accepting [OF b1(2), of "ws_encode f"]
    by (auto simp: write_immediate_def bind_def accepting_def sent_def Let_def)
qed

lemma queue_frame_accepting:
  assumes "accepting b"
  obtains b' where "queue_frame t0 t1 t2 f b = (Ok (), b')" "accepting b'" "sent b' = sent b @ ws_encode f"
proof -
  define b0 where "b0 = (if bw_start b = None then b\<lparr>bw_start := Some t0\<rparr> else b)"
  have b0: "accepting b0" "sent b0 = sent b" using assms by (auto simp: b0_def accepting_def sent_def)
  obtain b1 where b1: "make_room t1 (length (ws_encode f)) b0 = (Ok (), b1)" "accepting b1" "sent b1 = sent b"
  proof (cases "bw_max b0 < length (bw_buffer b0) + length (ws_encode f) \<and> bw_buffer b0 \<noteq> []")
    case False
    then have "make_room t1 (length (ws_encode f)) b0 = (Ok (), b0)" by (auto simp: make_room_def)
    then show thesis using b0 that by blast
  next
    case True
    obtain b' where "flush_batch b0 = (Ok (), b')" "accepting b'" "sent b' = sent b0" "bw_buffer b' = []"
      using flush_batch_accepting [OF b0(1)] by blast
    then show thesis using True b0 that [of "b'\<lparr>bw_start := Some t1\<rparr>"]
      by (simp add: make_room_def bind_def accepting_def sent_def)
  qed
  have run: "queue_frame t0 t1 t2 f b
      = (if needs_flush t2 (push_frame f b1) then flush_batch (push_frame f b1) else (Ok (), push_frame f b1))"
    using b1(1) by (simp add: queue_frame_def b0_def bind_def Let_def)
  have push: "accepting (push_frame f b1)" "sent (push_frame f b1) = sent b @ ws_encode f"
    using b1 by (simp_all add: push_frame_def Let_def accepting_def sent_def)
  obtain b' where b': "flush_batch (push_frame f b1) = (Ok (), b')" "accepting b'" "sent b' = sent (push_frame f b1)"
    using flush_batch_accepting [OF push(1)] by blast
  show thesis
  proof (cases "needs_flush t2 (push_frame f b1)")
    case True
    then show thesis using that [of b'] run push b' by simp
  next
    case False
    then show thesis using that [of "push_frame f b1"] run push by simp
  qed
qed

text \<open>What a connection whose stream takes everything does, in terms of the bytes it has sent.\<close>

definition bytes_sent :: "connection \<Rightarrow> bytes" where
  "bytes_sent c = sent (cn_writer c)"

definition accepts_all :: "connection \<Rightarrow> bool" where
  "accepts_all c \<longleftrightarrow> accepting (cn_writer c)"

definition close_frame :: "u16 \<Rightarrow> bytes \<Rightarrow> ws_frame" where
  "close_frame code reason = \<lparr>wf_fin = True, wf_opcode = OC_Close, wf_mask = None, wf_payload = close_payload code reason\<rparr>"

lemma flush_accepts:
  assumes "accepts_all c"
  obtains c' where "on_writer flush_batch c = (Ok (), c')" "accepts_all c'" "bytes_sent c' = bytes_sent c"
    "cn_stream c' = cn_stream c" "cn_state c' = cn_state c" "bw_buffer (cn_writer c') = []"
proof -
  obtain w where "flush_batch (cn_writer c) = (Ok (), w)" "accepting w" "sent w = sent (cn_writer c)" "bw_buffer w = []"
    using flush_batch_accepting assms unfolding accepts_all_def by blast
  then show thesis using that [of "c\<lparr>cn_writer := w\<rparr>"] by (simp add: on_writer_def accepts_all_def bytes_sent_def)
qed

lemma send_frame_accepts:
  assumes "accepts_all c"
  obtains c' where "send_frame t f c = (Ok (), c')" "accepts_all c'" "bytes_sent c' = bytes_sent c @ ws_encode f"
    "cn_stream c' = cn_stream c" "cn_state c' = cn_state c"
proof -
  obtain t0 t1 t2 where t: "t = (t0, t1, t2)" by (cases t)
  have acc: "accepting (cn_writer c)" using assms by (simp add: accepts_all_def)
  obtain w where "(if is_control (wf_opcode f) then write_immediate f else queue_frame t0 t1 t2 f) (cn_writer c) = (Ok (), w)"
      "accepting w" "sent w = sent (cn_writer c) @ ws_encode f"
  proof (cases "is_control (wf_opcode f)")
    case True
    obtain w where "write_immediate f (cn_writer c) = (Ok (), w)" "accepting w" "sent w = sent (cn_writer c) @ ws_encode f"
      by (rule write_immediate_accepting [OF acc])
    then show thesis using that True by simp
  next
    case False
    obtain w where "queue_frame t0 t1 t2 f (cn_writer c) = (Ok (), w)" "accepting w" "sent w = sent (cn_writer c) @ ws_encode f"
      by (rule queue_frame_accepting [OF acc])
    then show thesis using that False by simp
  qed
  then show thesis
    using that [of "c\<lparr>cn_writer := w\<rparr>"] t
    by (simp add: send_frame_def on_writer_def accepts_all_def bytes_sent_def cong del: if_weak_cong)
qed

lemma server_send_frame_accepts:
  assumes "accepts_all c" "cn_state c \<noteq> CS_Closed"
  obtains c' where "server_send_frame t f c = (Ok (), c')" "accepts_all c'" "bytes_sent c' = bytes_sent c @ ws_encode (f\<lparr>wf_mask := None\<rparr>)"
    "cn_stream c' = cn_stream c" "cn_state c' = cn_state c"
proof -
  have "server_send_frame t f c = send_frame t (f\<lparr>wf_mask := None\<rparr>) c"
    using assms(2) by (simp add: server_send_frame_def send_frame_def Let_def)
  then show thesis using send_frame_accepts [OF assms(1), of t "f\<lparr>wf_mask := None\<rparr>"] that by metis
qed

lemma close_accepts:
  assumes "accepts_all c"
  obtains c' where "close t code reason c = (Ok (), c')" "accepts_all c'" "cn_stream c' = cn_stream c"
    "bytes_sent c' = bytes_sent c @ (if cn_state c = CS_Closed \<or> (\<exists>r. cn_state c = CS_Closing True r) then []
       else ws_encode (close_frame code reason))"
    "cn_state c' = (case cn_state c of CS_Open \<Rightarrow> CS_Closing True False | CS_Closing _ r \<Rightarrow> CS_Closing True r | CS_Closed \<Rightarrow> CS_Closed)"
proof (cases "cn_state c = CS_Closed \<or> (\<exists>r. cn_state c = CS_Closing True r)")
  case True
  then show thesis using that [of c] assms by (auto simp: close_def)
next
  case False
  obtain c1 where c1: "on_writer flush_batch c = (Ok (), c1)" "accepts_all c1" "bytes_sent c1 = bytes_sent c"
      "cn_stream c1 = cn_stream c" "cn_state c1 = cn_state c"
    using flush_accepts [OF assms] by metis
  obtain c2 where c2: "send_frame t (close_frame code reason) c1 = (Ok (), c2)" "accepts_all c2"
      "bytes_sent c2 = bytes_sent c1 @ ws_encode (close_frame code reason)" "cn_stream c2 = cn_stream c1" "cn_state c2 = cn_state c1"
    using send_frame_accepts [OF c1(2)] by metis
  have run: "close t code reason c = (Ok (), c2\<lparr>cn_state :=
      (case cn_state c of CS_Open \<Rightarrow> CS_Closing True False | CS_Closing _ r \<Rightarrow> CS_Closing True r | CS_Closed \<Rightarrow> CS_Closed)\<rparr>)"
    using False c1(1,5) c2(1,5)
    by (cases "cn_state c")
      (simp_all add: close_def bind_def set_state_def close_frame_def [symmetric] split: bool.split)
  show thesis
    by (rule that [OF run]) (use False c1 c2 in \<open>auto simp: accepts_all_def bytes_sent_def\<close>)
qed

section \<open>From one end to the other\<close>

text \<open>A frame that arrives.\<close>

definition arriving :: "connection \<Rightarrow> nat \<Rightarrow> ws_frame \<Rightarrow> bool" where
  "arriving c usz f \<longleftrightarrow>
     (\<exists>b bs es later rest. cn_stream c = (Chunk (b # bs) # es) @ later \<and> delivers (Chunk (b # bs) # es)
        \<and> delivery (Chunk (b # bs) # es) = ws_encode f @ rest)
     \<and> holds_payload usz f \<and> accepts_all c \<and> cn_state c \<noteq> CS_Closed"

lemma arriving_run:
  assumes "arriving c usz f"
  obtains c' where "bind (on_writer flush_batch) (\<lambda>_. bind (on_stream (ws_decode usz)) k) c = k f c'"
    "accepts_all c'" "bytes_sent c' = bytes_sent c" "cn_state c' = cn_state c"
proof -
  obtain b bs es later rest where c: "cn_stream c = (Chunk (b # bs) # es) @ later" "delivers (Chunk (b # bs) # es)"
      "delivery (Chunk (b # bs) # es) = ws_encode f @ rest" "holds_payload usz f" "accepts_all c"
    using assms by (auto simp: arriving_def)
  obtain c1 where c1: "on_writer flush_batch c = (Ok (), c1)" "accepts_all c1" "bytes_sent c1 = bytes_sent c"
      "cn_stream c1 = cn_stream c" "cn_state c1 = cn_state c"
    by (rule flush_accepts [OF c(5)])
  obtain es' where "ws_decode usz ((Chunk (b # bs) # es) @ later) = (Ok f, es' @ later)"
    using ws_decode_run [OF c(2,3,4)] by blast
  then have "on_stream (ws_decode usz) c1 = (Ok f, c1\<lparr>cn_stream := es' @ later\<rparr>)"
    using c1(4) c(1) by (simp add: on_stream_def)
  then show thesis
    using that [of "c1\<lparr>cn_stream := es' @ later\<rparr>"] c1 by (simp add: bind_def accepts_all_def bytes_sent_def)
qed

lemma recv_arriving:
  assumes "arriving c usz f"
  obtains c' where "recv usz t c = frame_received t f c'" "accepts_all c'" "bytes_sent c' = bytes_sent c" "cn_state c' = cn_state c"
proof -
  obtain c' where "bind (on_writer flush_batch) (\<lambda>_. bind (on_stream (ws_decode usz)) (frame_received t)) c = frame_received t f c'"
    "accepts_all c'" "bytes_sent c' = bytes_sent c" "cn_state c' = cn_state c"
    by (rule arriving_run [OF assms])
  then show thesis using that assms by (simp add: recv_def arriving_def)
qed

lemma server_recv_arriving:
  assumes "arriving c usz f"
  obtains c' where "server_recv usz t c = bind (server_received t f) (\<lambda>frame. lift_result (ws_to_message frame)) c'"
    "accepts_all c'" "bytes_sent c' = bytes_sent c" "cn_state c' = cn_state c"
proof -
  obtain c' where "bind (on_writer flush_batch) (\<lambda>_. bind (on_stream (ws_decode usz)) (server_received t)) c = server_received t f c'"
    "accepts_all c'" "bytes_sent c' = bytes_sent c" "cn_state c' = cn_state c"
    by (rule arriving_run [OF assms])
  then show thesis using that assms by (simp add: server_recv_def server_recv_frame_def bind_def arriving_def)
qed

text \<open>A message that both ends can carry: the text and the reason of a close are Rust strings, and a control
  frame holds 125 bytes.\<close>

fun sendable :: "nat \<Rightarrow> ws_message \<Rightarrow> bool" where
  "sendable usz WM_ConnectionEstablished = False"
| "sendable usz (WM_Text s) = (utf8_valid s \<and> length s \<le> isize_max usz)"
| "sendable usz (WM_Binary bs) = (length bs \<le> isize_max usz)"
| "sendable usz (WM_Ping bs) = (length bs \<le> 125)"
| "sendable usz (WM_Pong bs) = (length bs \<le> 125)"
| "sendable usz (WM_Close code s) = (utf8_valid s \<and> length s \<le> 123)"

lemma sendable_frame:
  assumes "sendable usz m" "usz = 4 \<or> usz = 8"
  obtains f where "message_frame key m = Some f" "holds_payload usz f" "wf_mask f = key" "wf_fin f" "ws_validate f = Ok ()"
proof -
  have "125 \<le> isize_max usz" using assms(2) by (auto simp: isize_max_def)
  then show thesis
    using that assms by (cases m) (auto simp: holds_payload_def ws_validate_def is_control_def close_payload_def)
qed

lemma parse_close_frame:
  assumes "utf8_valid reason"
  shows "parse_close_payload (close_payload code reason) = (code, reason)"
proof -
  have "be_bytes 2 code \<noteq> []" by (metis length_be_bytes list.size(3) zero_neq_numeral)
  then show ?thesis
    using assms from_utf8_lossy_id by (auto simp: parse_close_payload_def close_payload_def be_word_be_bytes Let_def)
qed

lemma message_frame_received:
  assumes "sendable usz m" "message_frame None m = Some f" "ws_validate f = Ok ()" "accepts_all c"
  shows "fst (frame_received t f c) = Ok m"
proof -
  obtain c1 where ping: "send_frame t \<lparr>wf_fin = True, wf_opcode = OC_Pong, wf_mask = None, wf_payload = wf_payload f\<rparr> c = (Ok (), c1)"
    using send_frame_accepts [OF assms(4)] by metis
  have closing: "\<exists>c'. (\<lambda>c. if cn_state c = CS_Open then bind (set_state (CS_Closing False True)) (\<lambda>_. close t code reason) c
      else (Ok (), c)) c = (Ok (), c')" for code reason
    using close_accepts [of "c\<lparr>cn_state := CS_Closing False True\<rparr>" t code reason] assms(4)
    by (auto simp: bind_def set_state_def accepts_all_def)
  show ?thesis
  proof (cases m)
    case (WM_Close code reason)
    obtain c' where "(\<lambda>c. if cn_state c = CS_Open then bind (set_state (CS_Closing False True)) (\<lambda>_. close t code reason) c
      else (Ok (), c)) c = (Ok (), c')" using closing by blast
    then show ?thesis
      using assms WM_Close
      by (auto simp: frame_received_def exec_simps bind_def is_control_def handle_control_frame_def parse_close_frame)
  qed (use assms ping in \<open>auto simp: frame_received_def exec_simps bind_def is_control_def handle_control_frame_def
      string_from_utf8_def\<close>)
qed

text \<open>C38: what the server sends, the client receives. Whatever message both ends can carry is handed to
  \<open>send\<close> of the server, and however its bytes then arrive, \<open>recv\<close> of the client returns that message, a
  close with its code and reason, whatever else the client does in reply.\<close>

theorem server_message_reaches_client:
  assumes "server_send t m server = (Ok (), server')" "accepts_all server" "cn_state server \<noteq> CS_Closed"
    and "bytes_sent server' = bytes_sent server @ delivery (Chunk (b # bs) # es)"
    and "cn_stream client = (Chunk (b # bs) # es) @ later" "delivers (Chunk (b # bs) # es)"
    and "accepts_all client" "cn_state client \<noteq> CS_Closed" "sendable usz m" "usz = 4 \<or> usz = 8"
  shows "fst (recv usz t' client) = Ok m"
proof -
  obtain f where f: "message_frame None m = Some f" "holds_payload usz f" "wf_mask f = None" "ws_validate f = Ok ()"
    using sendable_frame [OF assms(9,10), of None] by metis
  obtain s1 where s1: "server_send_frame t f server = (Ok (), s1)" "accepts_all s1"
      "bytes_sent s1 = bytes_sent server @ ws_encode (f\<lparr>wf_mask := None\<rparr>)"
    using server_send_frame_accepts [OF assms(2,3)] by metis
  have "f\<lparr>wf_mask := None\<rparr> = f" using f(3) by simp
  moreover obtain s2 where "on_writer flush_batch s1 = (Ok (), s2)" "bytes_sent s2 = bytes_sent s1"
    using flush_accepts [OF s1(2)] by metis
  ultimately have "bytes_sent server' = bytes_sent server @ ws_encode f"
    using assms(1) f(1) s1 by (simp add: server_send_def bind_def)
  then have "delivery (Chunk (b # bs) # es) = ws_encode f @ []" using assms(4) by simp
  then have "arriving client usz f"
    using assms(5-8) f(2) unfolding arriving_def by blast
  then obtain c' where "recv usz t' client = frame_received t' f c'" "accepts_all c'"
    using recv_arriving by metis
  then show ?thesis using message_frame_received [OF assms(9) f(1,4)] by metis
qed

text \<open>What the client sends, the server refuses. A text or binary message that \<open>WebSocketConnection\<close> sends
  goes out unmasked, as every frame of it does, so \<open>WebSocketServerConnection\<close> answers it with a close of
  code 1002 and a protocol error, and its state stays what it was.\<close>

theorem client_message_refused_by_server:
  assumes "send t m client = (Ok (), client')" "accepts_all client" "cn_state client \<noteq> CS_Closed"
    and "bytes_sent client' = bytes_sent client @ delivery (Chunk (b # bs) # es)"
    and "cn_stream server = (Chunk (b # bs) # es) @ later" "delivers (Chunk (b # bs) # es)"
    and "accepts_all server" "cn_state server \<noteq> CS_Closed" "sendable usz m" "usz = 4 \<or> usz = 8"
    and "m = WM_Text payload \<or> m = WM_Binary payload"
  shows "\<exists>server'. server_recv usz t' server = (Err (WS_ProtocolError Note_UnmaskedClient), server')
    \<and> bytes_sent server' = bytes_sent server @ ws_encode (close_frame 1002 UNMASKED_FRAME)
    \<and> cn_state server' = cn_state server"
proof -
  obtain f where f: "message_frame None m = Some f" "holds_payload usz f" "wf_mask f = None"
    using sendable_frame [OF assms(9,10), of None] by metis
  obtain c1 where c1: "send_frame t f client = (Ok (), c1)" "accepts_all c1" "bytes_sent c1 = bytes_sent client @ ws_encode f"
    using send_frame_accepts [OF assms(2)] by metis
  moreover obtain c2 where "on_writer flush_batch c1 = (Ok (), c2)" "bytes_sent c2 = bytes_sent c1"
    using flush_accepts [OF c1(2)] by metis
  ultimately have "bytes_sent client' = bytes_sent client @ ws_encode f"
    using assms(1,3) f(1) by (simp add: send_def bind_def)
  then have "delivery (Chunk (b # bs) # es) = ws_encode f @ []" using assms(4) by simp
  then have "arriving server usz f"
    using assms(5-8) f(2) unfolding arriving_def by blast
  then obtain s1 where s1: "server_recv usz t' server = bind (server_received t' f) (\<lambda>frame. lift_result (ws_to_message frame)) s1"
      "accepts_all s1" "bytes_sent s1 = bytes_sent server" "cn_state s1 = cn_state server"
    using server_recv_arriving by metis
  have open': "cn_state s1 \<noteq> CS_Closed" using s1(4) assms(8) by simp
  obtain s2 where s2: "server_send_frame t' (close_frame 1002 UNMASKED_FRAME) s1 = (Ok (), s2)"
      "bytes_sent s2 = bytes_sent s1 @ ws_encode (close_frame 1002 UNMASKED_FRAME)" "cn_state s2 = cn_state s1"
    using server_send_frame_accepts [OF s1(2) open', of t' "close_frame 1002 UNMASKED_FRAME"]
    by (metis close_frame_def ws_frame.update_convs(3))
  have "\<not> is_control (wf_opcode f)" using assms(11) f(1) by (auto simp: is_control_def)
  then show ?thesis
    using s1 s2 f(3) by (simp add: bind_def server_received_def close_frame_def)
qed

text \<open>Witnesses: a fresh connection that has sent nothing, and one whose stream holds given bytes.\<close>

definition fresh :: "reader \<Rightarrow> connection" where
  "fresh es = connection_new es \<lparr>w_out = [], w_writes = [], w_flushes = []\<rparr>"

lemma fresh_simps [simp]:
  "accepts_all (fresh es)" "cn_state (fresh es) = CS_Open" "cn_stream (fresh es) = es" "bytes_sent (fresh es) = []"
  by (simp_all add: fresh_def connection_new_def accepts_all_def accepting_def bytes_sent_def sent_def with_defaults_def)

lemma send_text_run:
  "\<exists>c. send t (WM_Text [0x68, 0x69]) (fresh es) = (Ok (), c) \<and> bytes_sent c = [0x81, 2, 0x68, 0x69]"
  "\<exists>c. server_send t (WM_Text [0x68, 0x69]) (fresh es) = (Ok (), c) \<and> bytes_sent c = [0x81, 2, 0x68, 0x69]"
proof -
  let ?f = "\<lparr>wf_fin = True, wf_opcode = OC_Text, wf_mask = None, wf_payload = [0x68, 0x69]\<rparr>"
  have f: "ws_encode ?f = [0x81, 2, 0x68, 0x69]" by (simp add: ws_encode_def ws_length_bytes_def)
  obtain c1 where c1: "send_frame t ?f (fresh es) = (Ok (), c1)" "accepts_all c1" "bytes_sent c1 = bytes_sent (fresh es) @ ws_encode ?f"
    by (rule send_frame_accepts [OF fresh_simps(1)])
  obtain c2 where c2: "on_writer flush_batch c1 = (Ok (), c2)" "bytes_sent c2 = bytes_sent c1"
    by (rule flush_accepts [OF c1(2)])
  have "server_send_frame t ?f (fresh es) = send_frame t ?f (fresh es)"
    by (simp add: server_send_frame_def send_frame_def)
  with c1 c2 f show "\<exists>c. send t (WM_Text [0x68, 0x69]) (fresh es) = (Ok (), c) \<and> bytes_sent c = [0x81, 2, 0x68, 0x69]"
    "\<exists>c. server_send t (WM_Text [0x68, 0x69]) (fresh es) = (Ok (), c) \<and> bytes_sent c = [0x81, 2, 0x68, 0x69]"
    by (simp_all add: send_def server_send_def bind_def)
qed

theorem server_message_reaches_client_witness:
  "fst (recv 8 (0, 0, 0) (fresh [Chunk [0x81, 2], Fault Interrupted, Chunk [0x68, 0x69]])) = Ok (WM_Text [0x68, 0x69])"
proof -
  obtain s where s: "server_send (0, 0, 0) (WM_Text [0x68, 0x69]) (fresh []) = (Ok (), s)" "bytes_sent s = [0x81, 2, 0x68, 0x69]"
    using send_text_run(2) by blast
  have "utf8_valid [0x68, 0x69]" by simp
  then show ?thesis
    using server_message_reaches_client [of "(0, 0, 0)" "WM_Text [0x68, 0x69]" "fresh []" s "0x81" "[2]"
        "[Fault Interrupted, Chunk [0x68, 0x69]]" "fresh [Chunk [0x81, 2], Fault Interrupted, Chunk [0x68, 0x69]]" "[]" 8] s
    by (simp add: isize_max_def)
qed

theorem client_message_refused_by_server_witness:
  "\<exists>c. server_recv 8 (0, 0, 0) (fresh [Chunk [0x81, 2, 0x68, 0x69]]) = (Err (WS_ProtocolError Note_UnmaskedClient), c)
    \<and> bytes_sent c = ws_encode (close_frame 1002 UNMASKED_FRAME)"
proof -
  obtain s where s: "send (0, 0, 0) (WM_Text [0x68, 0x69]) (fresh []) = (Ok (), s)" "bytes_sent s = [0x81, 2, 0x68, 0x69]"
    using send_text_run(1) by blast
  have "utf8_valid [0x68, 0x69]" by simp
  then show ?thesis
    using client_message_refused_by_server [of "(0, 0, 0)" "WM_Text [0x68, 0x69]" "fresh []" s "0x81" "[2, 0x68, 0x69]"
        "[]" "fresh [Chunk [0x81, 2, 0x68, 0x69]]" "[]" 8 "[0x68, 0x69]" "(0, 0, 0)"] s
    by (auto simp: isize_max_def)
qed

text \<open>The server does not assemble. The first fragment of a text that a client cuts in two, its \<open>fin\<close> bit
  clear, is handed to the caller as a complete message, and its continuation as an invalid frame.\<close>

theorem server_takes_fragment_for_message:
  assumes "arriving c1 usz \<lparr>wf_fin = False, wf_opcode = OC_Text, wf_mask = Some key, wf_payload = front\<rparr>"
    and "utf8_valid front"
    and "arriving c2 usz \<lparr>wf_fin = True, wf_opcode = OC_Continuation, wf_mask = Some key, wf_payload = back\<rparr>"
  shows "fst (server_recv usz t c1) = Ok (WM_Text front)
    \<and> fst (server_recv usz t c2) = Err (WS_InvalidFrame Note_UnexpectedContinuation)"
proof -
  obtain c1' where "server_recv usz t c1
      = bind (server_received t \<lparr>wf_fin = False, wf_opcode = OC_Text, wf_mask = Some key, wf_payload = front\<rparr>)
          (\<lambda>frame. lift_result (ws_to_message frame)) c1'"
    using server_recv_arriving [OF assms(1)] by metis
  moreover obtain c2' where "server_recv usz t c2
      = bind (server_received t \<lparr>wf_fin = True, wf_opcode = OC_Continuation, wf_mask = Some key, wf_payload = back\<rparr>)
          (\<lambda>frame. lift_result (ws_to_message frame)) c2'"
    using server_recv_arriving [OF assms(3)] by metis
  ultimately show ?thesis
    using assms(2) by (simp add: bind_def server_received_def lift_result_run ws_to_message_def string_from_utf8_def)
qed

theorem server_takes_fragment_for_message_witness:
  "fst (server_recv 8 (0, 0, 0) (fresh [Chunk [0x01, 0x81, 0, 0, 0, 0, 65]])) = Ok (WM_Text [65])
   \<and> fst (server_recv 8 (0, 0, 0) (fresh [Chunk [0x80, 0x81, 0, 0, 0, 0, 66]])) = Err (WS_InvalidFrame Note_UnexpectedContinuation)"
proof -
  let ?f = "\<lparr>wf_fin = False, wf_opcode = OC_Text, wf_mask = Some (MaskKey 0 0 0 0), wf_payload = [65]\<rparr>"
    and ?g = "\<lparr>wf_fin = True, wf_opcode = OC_Continuation, wf_mask = Some (MaskKey 0 0 0 0), wf_payload = [66]\<rparr>"
  have "ws_encode ?f = [0x01, 0x81, 0, 0, 0, 0, 65]" "ws_encode ?g = [0x80, 0x81, 0, 0, 0, 0, 66]"
    by (simp_all add: ws_encode_def ws_length_bytes_def apply_mask_def)
  then have "arriving (fresh [Chunk [0x01, 0x81, 0, 0, 0, 0, 65]]) 8 ?f" "arriving (fresh [Chunk [0x80, 0x81, 0, 0, 0, 0, 66]]) 8 ?g"
    unfolding arriving_def holds_payload_def isize_max_def
    by (auto intro!: exI [of _ "[]"])
  then show ?thesis
    using server_takes_fragment_for_message [of "fresh [Chunk [0x01, 0x81, 0, 0, 0, 0, 65]]" 8 "MaskKey 0 0 0 0" "[65]"
        "fresh [Chunk [0x80, 0x81, 0, 0, 0, 0, 66]]" "[66]"]
    by simp
qed

section \<open>The closing handshake\<close>

definition close_count :: "ws_frame list \<Rightarrow> nat" where
  "close_count fs = length (filter (\<lambda>f. wf_opcode f = OC_Close) fs)"

definition closed_flag :: "connection \<Rightarrow> nat" where
  "closed_flag c = (case cn_state c of CS_Closing True _ \<Rightarrow> 1 | _ \<Rightarrow> 0)"

text \<open>The contract of every step: it appends frames, and a close among them only when the state records that
  the one close has now been sent.\<close>

definition closing_step :: "connection \<Rightarrow> connection \<Rightarrow> bool" where
  "closing_step c c' \<longleftrightarrow> accepts_all c' \<and> (cn_state c \<noteq> CS_Closed \<longrightarrow> cn_state c' \<noteq> CS_Closed)
     \<and> (\<exists>fs. bytes_sent c' = bytes_sent c @ concat (map ws_encode fs) \<and> close_count fs + closed_flag c \<le> closed_flag c')"

lemma closing_step_refl:
  assumes "accepts_all c'" "bytes_sent c' = bytes_sent c" "cn_state c' = cn_state c"
  shows "closing_step c c'"
  using assms by (auto simp: closing_step_def closed_flag_def close_count_def intro!: exI [of _ "[]"])

lemma closing_step_trans:
  assumes "closing_step c1 c2" "closing_step c2 c3"
  shows "closing_step c1 c3"
proof -
  obtain fs where "bytes_sent c2 = bytes_sent c1 @ concat (map ws_encode fs)" "close_count fs + closed_flag c1 \<le> closed_flag c2"
    using assms(1) unfolding closing_step_def by blast
  moreover obtain gs where "bytes_sent c3 = bytes_sent c2 @ concat (map ws_encode gs)" "close_count gs + closed_flag c2 \<le> closed_flag c3"
    using assms(2) unfolding closing_step_def by blast
  ultimately have "bytes_sent c3 = bytes_sent c1 @ concat (map ws_encode (fs @ gs))" "close_count (fs @ gs) + closed_flag c1 \<le> closed_flag c3"
    by (simp_all add: close_count_def)
  then show ?thesis using assms unfolding closing_step_def by blast
qed

lemma closing_step_frame:
  assumes "accepts_all c'" "bytes_sent c' = bytes_sent c @ ws_encode f" "cn_state c' = cn_state c" "wf_opcode f \<noteq> OC_Close"
  shows "closing_step c c'"
  using assms by (auto simp: closing_step_def closed_flag_def close_count_def intro!: exI [of _ "[f]"])

lemma close_step:
  assumes "accepts_all c"
  shows "closing_step c (snd (close t code reason c))"
proof -
  obtain c' where c': "close t code reason c = (Ok (), c')" "accepts_all c'"
    "bytes_sent c' = bytes_sent c @ (if cn_state c = CS_Closed \<or> (\<exists>r. cn_state c = CS_Closing True r) then []
       else ws_encode (close_frame code reason))"
    "cn_state c' = (case cn_state c of CS_Open \<Rightarrow> CS_Closing True False | CS_Closing _ r \<Rightarrow> CS_Closing True r | CS_Closed \<Rightarrow> CS_Closed)"
    using close_accepts [OF assms] by metis
  show ?thesis
  proof (cases "cn_state c = CS_Closed \<or> (\<exists>r. cn_state c = CS_Closing True r)")
    case True
    then show ?thesis using c' by (intro closing_step_refl) (auto split: connection_state.splits)
  next
    case False
    then have "bytes_sent c' = bytes_sent c @ concat (map ws_encode [close_frame code reason])"
      "close_count [close_frame code reason] + closed_flag c \<le> closed_flag c'"
      using c'(3,4) by (auto simp: close_count_def close_frame_def closed_flag_def split: connection_state.splits bool.splits)
    moreover have "cn_state c' \<noteq> CS_Closed" using c'(4) False by (auto split: connection_state.splits)
    ultimately show ?thesis using c'(1,2) unfolding closing_step_def by (metis snd_conv)
  qed
qed

lemma snd_bind_ret: "snd (bind m (\<lambda>x. ret (g x)) c) = snd (m c)"
  by (auto simp: bind_def ret_run split: prod.split result.split)

lemma handle_control_step:
  assumes "accepts_all c"
  shows "closing_step c (snd (handle_control_frame t f c))"
proof -
  have pong: "closing_step c (snd (send_frame t \<lparr>wf_fin = True, wf_opcode = OC_Pong, wf_mask = None, wf_payload = wf_payload f\<rparr> c))"
    by (rule send_frame_accepts [OF assms, of t "\<lparr>wf_fin = True, wf_opcode = OC_Pong, wf_mask = None, wf_payload = wf_payload f\<rparr>"],
        rule closing_step_frame) auto
  have mark: "closing_step c (c\<lparr>cn_state := CS_Closing False True\<rparr>)" if "cn_state c = CS_Open"
    using that assms
    by (auto simp: closing_step_def closed_flag_def close_count_def accepts_all_def bytes_sent_def intro!: exI [of _ "[]"])
  have answer: "closing_step c (snd (close t code reason (c\<lparr>cn_state := CS_Closing False True\<rparr>)))"
    if "cn_state c = CS_Open" for code reason
    using closing_step_trans [OF mark [OF that] close_step] assms by (simp add: accepts_all_def)
  have same: "closing_step c c" by (rule closing_step_refl [OF assms]) simp_all
  have "bind (set_state (CS_Closing False True)) (\<lambda>_. close t code reason) c
      = close t code reason (c\<lparr>cn_state := CS_Closing False True\<rparr>)" for code reason
    by (simp add: bind_def set_state_def)
  then show ?thesis
    using pong answer same
    by (auto simp: handle_control_frame_def snd_bind_ret ret_run fail_run split: opcode.splits prod.splits)
qed

lemma frame_received_step:
  assumes "accepts_all c"
  shows "closing_step c (snd (frame_received t f c))"
  using handle_control_step [OF assms, of t f] closing_step_refl [OF assms]
  by (auto simp: frame_received_def bind_def exec_simps split: prod.splits result.splits opcode.splits if_splits)

lemma recv_step:
  assumes "accepts_all c"
  shows "closing_step c (snd (recv usz t c))"
proof (cases "cn_state c = CS_Closed")
  case True
  then show ?thesis using closing_step_refl [OF assms] by (simp add: recv_def)
next
  case False
  obtain c1 where c1: "on_writer flush_batch c = (Ok (), c1)" "accepts_all c1" "bytes_sent c1 = bytes_sent c" "cn_state c1 = cn_state c"
    using flush_accepts [OF assms] by metis
  obtain r es where es: "ws_decode usz (cn_stream c1) = (r, es)" by (cases "ws_decode usz (cn_stream c1)")
  let ?c2 = "c1\<lparr>cn_stream := es\<rparr>"
  have c2: "accepts_all ?c2" "closing_step c ?c2"
    using c1 closing_step_refl [of ?c2 c] by (simp_all add: accepts_all_def bytes_sent_def)
  show ?thesis
    using False c1(1) es c2(2) closing_step_trans [OF c2(2) frame_received_step [OF c2(1)]]
    by (cases r) (simp_all add: recv_def bind_def on_stream_def)
qed

text \<open>What a caller may do, any number of times and in any order, whatever each call returns; each call comes
  with the clock it reads.\<close>

datatype connection_call = Call_send ws_message | Call_recv | Call_next | Call_flush | Call_close u16 bytes

fun do_call :: "nat \<Rightarrow> clock \<times> connection_call \<Rightarrow> connection \<Rightarrow> connection" where
  "do_call usz (t, Call_send m) c = snd (send t m c)"
| "do_call usz (t, Call_recv) c = snd (recv usz t c)"
| "do_call usz (t, Call_next) c = snd (messages_next usz t c)"
| "do_call usz (t, Call_flush) c = snd (on_writer flush_batch c)"
| "do_call usz (t, Call_close code reason) c = snd (close t code reason c)"

lemma send_step:
  assumes "accepts_all c" "\<forall>code reason. m \<noteq> WM_Close code reason"
  shows "closing_step c (snd (send t m c))"
proof (cases "cn_state c = CS_Closed \<or> message_frame None m = None")
  case True
  then show ?thesis using closing_step_refl [OF assms(1)] by (auto simp: send_def)
next
  case False
  then obtain f where f: "message_frame None m = Some f" by auto
  obtain c1 where c1: "send_frame t f c = (Ok (), c1)" "accepts_all c1" "bytes_sent c1 = bytes_sent c @ ws_encode f" "cn_state c1 = cn_state c"
    using send_frame_accepts [OF assms(1)] by metis
  obtain c2 where c2: "on_writer flush_batch c1 = (Ok (), c2)" "accepts_all c2" "bytes_sent c2 = bytes_sent c1" "cn_state c2 = cn_state c1"
    using flush_accepts [OF c1(2)] by metis
  have "wf_opcode f \<noteq> OC_Close" using f assms(2) by (cases m) auto
  then show ?thesis
    using closing_step_frame [of c2 c f] False f c1 c2 by (simp add: send_def bind_def)
qed

lemma next_run: "snd (messages_next usz t c) = (if is_open c then snd (recv usz t c) else c)"
  by (simp add: messages_next_def split: prod.split)

lemma connection_call_step:
  assumes "accepts_all c" "\<forall>code reason. snd call \<noteq> Call_send (WM_Close code reason)"
  shows "closing_step c (do_call usz call c)"
proof (cases "(usz, call, c)" rule: do_call.cases)
  case (4 usz t c)
  obtain c' where "on_writer flush_batch c = (Ok (), c')" "accepts_all c'" "bytes_sent c' = bytes_sent c" "cn_state c' = cn_state c"
    using flush_accepts assms(1) 4 by (metis prod.inject)
  then show ?thesis using 4 closing_step_refl [of c' c] by simp
qed (use assms send_step recv_step close_step closing_step_refl [OF assms(1)] in
      \<open>auto simp: next_run\<close>)

lemma connection_calls_step:
  assumes "accepts_all c" "\<forall>call \<in> set calls. \<forall>code reason. snd call \<noteq> Call_send (WM_Close code reason)"
  shows "closing_step c (fold (do_call usz) calls c)"
  using assms
proof (induction calls arbitrary: c)
  case (Cons call calls)
  have step: "closing_step c (do_call usz call c)" using connection_call_step Cons.prems by simp
  then have "accepts_all (do_call usz call c)" by (simp add: closing_step_def)
  with Cons.IH [of "do_call usz call c"] Cons.prems(2) closing_step_trans [OF step] show ?case by simp
qed (simp add: closing_step_refl)

text \<open>One close is enough. On a stream that takes what it is given, a connection that starts open puts out
  nothing but whole frames, at most one of which is a close, whatever the caller sends (other than a close
  message of its own), receives, flushes and closes, and whatever the peer sends, closes included. It never
  reaches \<open>Closed\<close>.\<close>

theorem at_most_one_close:
  assumes "accepts_all c" "cn_state c = CS_Open"
    and "\<forall>call \<in> set calls. \<forall>code reason. snd call \<noteq> Call_send (WM_Close code reason)"
  shows "\<exists>fs. bytes_sent (fold (do_call usz) calls c) = bytes_sent c @ concat (map ws_encode fs)
    \<and> length (filter (\<lambda>f. wf_opcode f = OC_Close) fs) \<le> 1
    \<and> cn_state (fold (do_call usz) calls c) \<noteq> CS_Closed"
proof -
  obtain fs where fs: "bytes_sent (fold (do_call usz) calls c) = bytes_sent c @ concat (map ws_encode fs)"
      "close_count fs + closed_flag c \<le> closed_flag (fold (do_call usz) calls c)"
      "cn_state (fold (do_call usz) calls c) \<noteq> CS_Closed"
    using connection_calls_step [OF assms(1,3), of usz] assms(2) unfolding closing_step_def by auto
  have "closed_flag (fold (do_call usz) calls c) \<le> 1"
    by (simp add: closed_flag_def split: connection_state.split bool.split)
  then have "length (filter (\<lambda>f. wf_opcode f = OC_Close) fs) \<le> 1"
    using fs(2) unfolding close_count_def by linarith
  then show ?thesis using fs(1,3) by blast
qed

theorem at_most_one_close_witness:
  "\<exists>fs. bytes_sent (fold (do_call 8)
       [((0, 0, 0), Call_close 1000 []), ((1, 1, 1), Call_recv), ((2, 2, 2), Call_close 1001 [])] (fresh [Chunk [0x88, 0]]))
     = concat (map ws_encode fs) \<and> length (filter (\<lambda>f. wf_opcode f = OC_Close) fs) \<le> 1"
  using at_most_one_close [of "fresh [Chunk [0x88, 0]]"
      "[((0, 0, 0), Call_close 1000 []), ((1, 1, 1), Call_recv), ((2, 2, 2), Call_close 1001 [])]" 8]
  by auto

end
