(* ===== verification/WsAssembler.thy ===== *)
theory WsAssembler
  imports WsFrame
begin

text \<open>
  Assembling messages from frames: \<open>foundation_core/src/wire/websocket/assembler.rs\<close>. The assembler
  keeps at most one message in progress; control frames pass between its fragments. A text is checked as
  its fragments arrive, from where the last check stopped.
\<close>

section \<open>The assembler\<close>

definition DEFAULT_MAX_MESSAGE_SIZE :: nat where
  "DEFAULT_MAX_MESSAGE_SIZE = 64 * 1024 * 1024"

record fragment_state =
  fs_opcode :: opcode
  fs_payload :: bytes
  fs_valid_up_to :: nat
  fs_max :: nat

record assembler =
  as_state :: "fragment_state option"
  as_max :: nat

definition assembler_new :: "nat \<Rightarrow> assembler" where
  "assembler_new max_message_size = \<lparr>as_state = None, as_max = max_message_size\<rparr>"

definition assembler_default :: assembler where
  "assembler_default = \<lparr>as_state = None, as_max = DEFAULT_MAX_MESSAGE_SIZE\<rparr>"

definition validate_utf8_incremental :: "bytes \<Rightarrow> nat \<Rightarrow> (ws_error, nat) result" where
  "validate_utf8_incremental data valid_up_to =
     (if length data \<le> valid_up_to then Ok (length data)
      else
        (let suffix' = drop valid_up_to data
         in (case from_utf8 suffix' of
               Ok _ \<Rightarrow> Ok (length data)
             | Err (up_to, error_len) \<Rightarrow>
                 if error_len \<noteq> None then Err (WS_InvalidUtf8 suffix') else Ok (valid_up_to + up_to)
             | Panic \<Rightarrow> Panic)))"

text \<open>The end of a fragmented message.\<close>

definition finish_message :: "fragment_state \<Rightarrow> (ws_error, ws_message) result" where
  "finish_message state =
     (case fs_opcode state of
        OC_Text \<Rightarrow> rbind (map_err WS_InvalidUtf8 (string_from_utf8 (fs_payload state))) (\<lambda>text. Ok (WM_Text text))
      | OC_Binary \<Rightarrow> Ok (WM_Binary (fs_payload state))
      | _ \<Rightarrow> Panic)"

text \<open>\<open>process_frame\<close>: one arm per kind of frame.\<close>

definition process_control :: "ws_frame \<Rightarrow> (assembler, ws_error, ws_message option) exec" where
  "process_control frame =
     (if \<not> wf_fin frame then fail (WS_ProtocolError Note_ControlFragmented)
      else lift_result (rbind (ws_to_message frame) (\<lambda>message. Ok (Some message))))"

definition process_continuation :: "ws_frame \<Rightarrow> (assembler, ws_error, ws_message option) exec" where
  "process_continuation frame a =
     (case as_state a of
        None \<Rightarrow> (Err (WS_ProtocolError Note_NoMessage), a)
      | Some state \<Rightarrow>
          (let new_size = length (fs_payload state) + length (wf_payload frame)
           in if new_size > fs_max state then (Err (WS_ProtocolError (Note_TooLarge new_size (fs_max state))), a)
           else
             (let state = state\<lparr>fs_payload := fs_payload state @ wf_payload frame\<rparr>
              in (case (if fs_opcode state = OC_Text
                        then validate_utf8_incremental (fs_payload state) (fs_valid_up_to state)
                        else Ok (fs_valid_up_to state)) of
                    Err e \<Rightarrow> (Err e, a\<lparr>as_state := Some state\<rparr>)
                  | Panic \<Rightarrow> (Panic, a\<lparr>as_state := Some state\<rparr>)
                  | Ok valid \<Rightarrow>
                      (let state = state\<lparr>fs_valid_up_to := valid\<rparr>
                       in if wf_fin frame
                          then (rbind (finish_message state) (\<lambda>message. Ok (Some message)), a\<lparr>as_state := None\<rparr>)
                          else (Ok None, a\<lparr>as_state := Some state\<rparr>))))))"

definition process_start :: "ws_frame \<Rightarrow> (assembler, ws_error, ws_message option) exec" where
  "process_start frame a =
     (if as_state a \<noteq> None then (Err (WS_ProtocolError Note_NewMessage), a)
      else if length (wf_payload frame) > as_max a
      then (Err (WS_ProtocolError (Note_TooLarge (length (wf_payload frame)) (as_max a))), a)
      else if wf_fin frame then (rbind (ws_to_message frame) (\<lambda>message. Ok (Some message)), a)
      else
        (case (if wf_opcode frame = OC_Text then validate_utf8_incremental (wf_payload frame) 0 else Ok 0) of
           Err e \<Rightarrow> (Err e, a)
         | Panic \<Rightarrow> (Panic, a)
         | Ok valid \<Rightarrow>
             (Ok None, a\<lparr>as_state := Some \<lparr>fs_opcode = wf_opcode frame, fs_payload = wf_payload frame,
                fs_valid_up_to = valid, fs_max = as_max a\<rparr>\<rparr>)))"

definition process_frame :: "ws_frame \<Rightarrow> (assembler, ws_error, ws_message option) exec" where
  "process_frame frame =
     (if is_control (wf_opcode frame) then process_control frame
      else
        (case wf_opcode frame of
           OC_Continuation \<Rightarrow> process_continuation frame
         | OC_Text \<Rightarrow> process_start frame
         | OC_Binary \<Rightarrow> process_start frame
         | _ \<Rightarrow> lift_result Panic))"

definition is_assembling :: "assembler \<Rightarrow> bool" where
  "is_assembling a \<longleftrightarrow> as_state a \<noteq> None"

definition accumulated_size :: "assembler \<Rightarrow> nat" where
  "accumulated_size a = (case as_state a of None \<Rightarrow> 0 | Some s \<Rightarrow> length (fs_payload s))"

definition assembler_reset :: "assembler \<Rightarrow> assembler" where
  "assembler_reset a = a\<lparr>as_state := None\<rparr>"

section \<open>The incremental check\<close>

text \<open>From a valid front, the check goes on to a valid front that is at least as long; it fails only on a
  text that nothing can mend, and reaches the end only of a valid one.\<close>

lemma validate_incremental:
  assumes "utf8_valid (take v data)" "v \<le> length data"
  shows "case validate_utf8_incremental data v of
      Ok v' \<Rightarrow> v \<le> v' \<and> v' \<le> length data \<and> utf8_valid (take v' data)
    | Err e \<Rightarrow> (\<forall>more. \<not> utf8_valid (data @ more))
    | Panic \<Rightarrow> False"
proof (cases "length data \<le> v")
  case True
  then show ?thesis using assms by (simp add: validate_utf8_incremental_def)
next
  case False
  have data: "data = take v data @ drop v data" by simp
  have take: "utf8_valid (take (v + u) data)" if "utf8_valid (take u (drop v data))" for u
    using utf8_valid_append [OF assms(1)] that by (simp add: take_add)
  show ?thesis
  proof (cases "drop v data" rule: from_utf8_cases)
    case 1
    then have "utf8_valid data" using utf8_valid_append [OF assms(1), of "drop v data"] by simp
    then show ?thesis using 1 False by (simp add: validate_utf8_incremental_def)
  next
    case (2 u n)
    have "\<not> utf8_valid (data @ more)" for more
      using broken_stays [OF 2(3,4), of more] utf8_valid_append [OF assms(1), of "drop v data @ more"]
      by (metis append.assoc append_take_drop_id)
    then show ?thesis using 2(1) False by (simp add: validate_utf8_incremental_def)
  next
    case (3 u)
    then show ?thesis using False take [of u] by (simp add: validate_utf8_incremental_def)
  qed
qed

section \<open>The invariant\<close>

definition fragment_inv :: "fragment_state \<Rightarrow> bool" where
  "fragment_inv s \<longleftrightarrow>
     fs_opcode s \<in> {OC_Text, OC_Binary} \<and> length (fs_payload s) \<le> fs_max s
     \<and> fs_valid_up_to s \<le> length (fs_payload s) \<and> utf8_valid (take (fs_valid_up_to s) (fs_payload s))"

definition assembler_inv :: "assembler \<Rightarrow> bool" where
  "assembler_inv a \<longleftrightarrow> (\<forall>s. as_state a = Some s \<longrightarrow> fragment_inv s \<and> fs_max s = as_max a)"

lemma assembler_inv_new [simp]:
  "assembler_inv (assembler_new n)" "assembler_inv assembler_default" "assembler_inv (assembler_reset a)"
  by (simp_all add: assembler_inv_def assembler_new_def assembler_default_def assembler_reset_def)

text \<open>No message is longer than the limit, except a control frame's.\<close>

definition message_size :: "ws_message \<Rightarrow> nat" where
  "message_size m = (case m of WM_Text bs \<Rightarrow> length bs | WM_Binary bs \<Rightarrow> length bs | _ \<Rightarrow> 0)"

definition message_sound :: "nat \<Rightarrow> ws_message \<Rightarrow> bool" where
  "message_sound limit m \<longleftrightarrow>
     message_size m \<le> limit
     \<and> (case m of WM_Text bs \<Rightarrow> utf8_valid bs | WM_Close _ bs \<Rightarrow> utf8_valid bs | WM_ConnectionEstablished \<Rightarrow> False | _ \<Rightarrow> True)"

lemma ws_to_message_sound:
  assumes "ws_to_message f = Ok m" "wf_opcode f \<in> {OC_Text, OC_Binary} \<Longrightarrow> length (wf_payload f) \<le> limit"
  shows "message_sound limit m"
  using assms from_utf8_lossy_valid
  by (auto simp: ws_to_message_def message_sound_def message_size_def string_from_utf8_def Let_def
      INVALID_CLOSE_PAYLOAD_def split: opcode.splits if_splits)

lemma ws_to_message_not_Panic [simp]: "ws_to_message f \<noteq> Panic"
  by (auto simp: ws_to_message_def string_from_utf8_def Let_def split: opcode.splits)

text \<open>What one frame may do: \<open>sound_step\<close> is the contract of every arm of \<open>process_frame\<close>.\<close>

definition sound_step :: "assembler \<Rightarrow> (ws_error, ws_message option) result \<times> assembler \<Rightarrow> bool" where
  "sound_step a out \<longleftrightarrow>
     assembler_inv (snd out) \<and> as_max (snd out) = as_max a \<and> fst out \<noteq> Panic
     \<and> (\<forall>m. fst out = Ok (Some m) \<longrightarrow> message_sound (as_max a) m)"

lemma rbind_eq_Panic: "rbind m k = Panic \<longleftrightarrow> m = Panic \<or> (\<exists>x. m = Ok x \<and> k x = Panic)"
  by (cases m) auto

lemma sound_step_answer:
  assumes "assembler_inv a'" "as_max a' = as_max a" "r \<noteq> Panic" "\<And>m. r = Ok m \<Longrightarrow> message_sound (as_max a) m"
  shows "sound_step a (rbind r (\<lambda>m. Ok (Some m)), a')"
  using assms by (cases r) (auto simp: sound_step_def)

lemma process_control_sound:
  "assembler_inv a \<Longrightarrow> is_control (wf_opcode f) \<Longrightarrow> sound_step a (process_control f a)"
  by (auto simp: process_control_def exec_simps is_control_def intro!: sound_step_answer ws_to_message_sound)
    (auto simp: sound_step_def)

lemma process_start_sound:
  assumes "assembler_inv a" "wf_opcode f \<in> {OC_Text, OC_Binary}"
  shows "sound_step a (process_start f a)"
proof (cases "as_state a \<noteq> None \<or> length (wf_payload f) > as_max a \<or> wf_fin f")
  case True
  then show ?thesis
    using assms ws_to_message_sound [of f _ "as_max a"]
    by (auto simp: process_start_def sound_step_def rbind_eq_Ok rbind_eq_Panic)
next
  case False
  then show ?thesis
    using assms validate_incremental [of 0 "wf_payload f"]
    by (auto simp: process_start_def sound_step_def assembler_inv_def fragment_inv_def split: result.splits)
qed

lemma finish_message_sound:
  assumes "fragment_inv s" "fs_max s = limit"
  shows "finish_message s \<noteq> Panic" "finish_message s = Ok m \<Longrightarrow> message_sound limit m"
  using assms
  by (auto simp: finish_message_def fragment_inv_def string_from_utf8_def message_sound_def message_size_def
      split: if_splits)

text \<open>A continuation within the limit is always stored.\<close>

lemma process_continuation_stores:
  assumes "as_state a = Some s" "fragment_inv s" "length (fs_payload s) + length (wf_payload f) \<le> fs_max s"
    "\<not> wf_fin f"
  obtains s' where "snd (process_continuation f a) = a\<lparr>as_state := Some s'\<rparr>" "fragment_inv s'"
    "fs_payload s' = fs_payload s @ wf_payload f" "fs_opcode s' = fs_opcode s" "fs_max s' = fs_max s"
    "fst (process_continuation f a) = Ok None \<or>
       fs_opcode s = OC_Text \<and> (\<forall>more. \<not> utf8_valid (fs_payload s' @ more))"
proof (cases "if fs_opcode s = OC_Text
    then validate_utf8_incremental (fs_payload s @ wf_payload f) (fs_valid_up_to s) else Ok (fs_valid_up_to s)")
  case (Ok v)
  show ?thesis
    by (rule that [of "s\<lparr>fs_payload := fs_payload s @ wf_payload f, fs_valid_up_to := v\<rparr>"])
      (use assms Ok validate_incremental [of "fs_valid_up_to s" "fs_payload s @ wf_payload f"] in
        \<open>auto simp: process_continuation_def fragment_inv_def Let_def split: if_splits\<close>)
next
  case (Err e)
  show ?thesis
    by (rule that [of "s\<lparr>fs_payload := fs_payload s @ wf_payload f\<rparr>"])
      (use assms Err validate_incremental [of "fs_valid_up_to s" "fs_payload s @ wf_payload f"] in
        \<open>auto simp: process_continuation_def fragment_inv_def Let_def split: if_splits\<close>)
next
  case Panic
  then show ?thesis
    using assms validate_incremental [of "fs_valid_up_to s" "fs_payload s @ wf_payload f"]
    by (auto simp: fragment_inv_def split: if_splits)
qed

lemma process_continuation_sound:
  assumes "assembler_inv a"
  shows "sound_step a (process_continuation f a)"
proof (cases "as_state a")
  case None
  then show ?thesis using assms by (simp add: process_continuation_def sound_step_def)
next
  case (Some s)
  then have s: "fragment_inv s" "fs_max s = as_max a" using assms by (simp_all add: assembler_inv_def)
  show ?thesis
  proof (cases "length (fs_payload s) + length (wf_payload f) \<le> fs_max s")
    case False
    then show ?thesis using assms Some by (simp add: process_continuation_def sound_step_def)
  next
    case room: True
    define s' where "s' = s\<lparr>fs_payload := fs_payload s @ wf_payload f\<rparr>"
    define check where "check = (if fs_opcode s' = OC_Text
      then validate_utf8_incremental (fs_payload s') (fs_valid_up_to s') else Ok (fs_valid_up_to s'))"
    have kept: "fragment_inv s'" "fs_max s' = as_max a"
      using s room by (auto simp: s'_def fragment_inv_def)
    have step: "process_continuation f a = (case check of
          Err e \<Rightarrow> (Err e, a\<lparr>as_state := Some s'\<rparr>)
        | Panic \<Rightarrow> (Panic, a\<lparr>as_state := Some s'\<rparr>)
        | Ok v \<Rightarrow> let t = s'\<lparr>fs_valid_up_to := v\<rparr>
            in if wf_fin f then (rbind (finish_message t) (\<lambda>m. Ok (Some m)), a\<lparr>as_state := None\<rparr>)
               else (Ok None, a\<lparr>as_state := Some t\<rparr>))"
      using Some room by (simp add: process_continuation_def s'_def check_def Let_def split: result.split)
    have "check \<noteq> Panic" "\<And>v. check = Ok v \<Longrightarrow> fragment_inv (s'\<lparr>fs_valid_up_to := v\<rparr>)"
      using kept(1) validate_incremental [of "fs_valid_up_to s'" "fs_payload s'"]
      by (auto simp: check_def fragment_inv_def split: if_splits)
    then show ?thesis
      using kept finish_message_sound [of "s'\<lparr>fs_valid_up_to := v\<rparr>" "as_max a" for v]
      by (auto simp: step sound_step_def assembler_inv_def Let_def rbind_eq_Panic rbind_eq_Ok split: result.splits)
  qed
qed

lemma process_frame_sound: "assembler_inv a \<Longrightarrow> sound_step a (process_frame f a)"
  using process_control_sound [of a f] process_continuation_sound [of a f] process_start_sound [of a f]
  by (auto simp: process_frame_def is_control_def split: opcode.splits)

text \<open>A caller hands the frames over one by one, whatever each is answered.\<close>

fun feed :: "ws_frame list \<Rightarrow> assembler \<Rightarrow> (ws_error, ws_message option) result list \<times> assembler" where
  "feed [] a = ([], a)"
| "feed (f # fs) a =
     (case process_frame f a of (r, a') \<Rightarrow> (case feed fs a' of (rs, a'') \<Rightarrow> (r # rs, a'')))"

lemma feed_append:
  "feed (fs @ gs) a = (fst (feed fs a) @ fst (feed gs (snd (feed fs a))), snd (feed gs (snd (feed fs a))))"
  by (induction fs arbitrary: a) (auto split: prod.splits)

lemma feed_sound:
  assumes "assembler_inv a"
  shows "assembler_inv (snd (feed fs a)) \<and> as_max (snd (feed fs a)) = as_max a
    \<and> (\<forall>r \<in> set (fst (feed fs a)). r \<noteq> Panic \<and> (\<forall>m. r = Ok (Some m) \<longrightarrow> message_sound (as_max a) m))"
  using assms
proof (induction fs arbitrary: a)
  case (Cons f fs)
  obtain r a' where step: "process_frame f a = (r, a')" by (cases "process_frame f a")
  then show ?case
    using process_frame_sound [OF Cons.prems, of f] Cons.IH [of a'] by (auto simp: sound_step_def split: prod.splits)
qed simp

lemma assembler_inv_size: "assembler_inv a \<Longrightarrow> accumulated_size a \<le> as_max a"
  by (auto simp: assembler_inv_def accumulated_size_def fragment_inv_def split: option.splits)

text \<open>What a frame may be answered. A control frame is answered with its own message, of whatever size, or refused
  when it is a fragment; a data frame with a text or binary message within the limit, with nothing yet, or with an
  error.\<close>

definition control_answer :: "ws_frame \<Rightarrow> (ws_error, ws_message option) result" where
  "control_answer f =
     (if wf_fin f then rbind (ws_to_message f) (\<lambda>m. Ok (Some m)) else Err (WS_ProtocolError Note_ControlFragmented))"

definition answer_fits :: "nat \<Rightarrow> ws_frame \<Rightarrow> (ws_error, ws_message option) result \<Rightarrow> bool" where
  "answer_fits limit f r \<longleftrightarrow>
     (if is_control (wf_opcode f) then r = control_answer f
      else
        (case r of
           Ok (Some (WM_Text bs)) \<Rightarrow> utf8_valid bs \<and> length bs \<le> limit
         | Ok (Some (WM_Binary bs)) \<Rightarrow> length bs \<le> limit
         | Ok (Some _) \<Rightarrow> False
         | Ok None \<Rightarrow> True
         | Err _ \<Rightarrow> True
         | Panic \<Rightarrow> False))"

definition data_message :: "ws_message \<Rightarrow> bool" where
  "data_message m \<longleftrightarrow> (case m of WM_Text _ \<Rightarrow> True | WM_Binary _ \<Rightarrow> True | _ \<Rightarrow> False)"

lemma data_message_frame:
  "wf_opcode f = OC_Text \<or> wf_opcode f = OC_Binary \<Longrightarrow> ws_to_message f = Ok m \<Longrightarrow> data_message m"
  by (auto simp: ws_to_message_def data_message_def rbind_eq_Ok)

lemma data_message_finish: "finish_message s = Ok m \<Longrightarrow> data_message m"
  by (auto simp: finish_message_def data_message_def rbind_eq_Ok split: opcode.splits)

lemma process_frame_data:
  "\<not> is_control (wf_opcode f) \<Longrightarrow> fst (process_frame f a) = Ok (Some m) \<Longrightarrow> data_message m"
  using data_message_frame [of f m] data_message_finish [of _ m]
  by (auto simp: process_frame_def process_start_def process_continuation_def is_control_def Let_def rbind_eq_Ok
      split: opcode.splits option.splits if_splits result.splits)

lemma process_frame_fits:
  assumes "assembler_inv a" shows "answer_fits (as_max a) f (fst (process_frame f a))"
proof (cases "is_control (wf_opcode f)")
  case True
  then show ?thesis by (simp add: answer_fits_def control_answer_def process_frame_def process_control_def exec_simps)
next
  case False
  then show ?thesis
    using process_frame_sound [OF assms, of f] process_frame_data [OF False, of a]
    by (cases "fst (process_frame f a)")
      (auto simp: answer_fits_def sound_step_def message_sound_def message_size_def data_message_def
        split: option.split ws_message.splits)
qed

lemma feed_fits: "assembler_inv a \<Longrightarrow> list_all2 (answer_fits (as_max a)) fs (fst (feed fs a))"
proof (induction fs arbitrary: a)
  case (Cons f fs)
  obtain r a' where step: "process_frame f a = (r, a')" by (cases "process_frame f a")
  then show ?case
    using process_frame_sound [OF Cons.prems, of f] process_frame_fits [OF Cons.prems, of f] Cons.IH [of a']
    by (auto simp: sound_step_def split: prod.splits)
qed simp


section \<open>Fragmentation\<close>

text \<open>What comes between the first and the last frame of a message: continuations and control frames.\<close>

definition between :: "ws_frame \<Rightarrow> bool" where
  "between f \<longleftrightarrow> (if is_control (wf_opcode f) then wf_fin f else wf_opcode f = OC_Continuation \<and> \<not> wf_fin f)"

definition data_of :: "ws_frame list \<Rightarrow> bytes" where
  "data_of fs = concat (map wf_payload (filter (\<lambda>f. \<not> is_control (wf_opcode f)) fs))"

definition frame_answer :: "ws_frame \<Rightarrow> (ws_error, ws_message option) result" where
  "frame_answer f =
     (if is_control (wf_opcode f) then rbind (ws_to_message f) (\<lambda>m. Ok (Some m)) else Ok None)"

definition whole_frame :: "ws_frame \<Rightarrow> ws_frame list \<Rightarrow> ws_frame \<Rightarrow> ws_frame" where
  "whole_frame first mid last' =
     first\<lparr>wf_fin := True, wf_payload := wf_payload first @ data_of mid @ wf_payload last'\<rparr>"

lemma data_of_simps [simp]:
  "data_of [] = []"
  "data_of (f # fs) = (if is_control (wf_opcode f) then [] else wf_payload f) @ data_of fs"
  by (simp_all add: data_of_def)

lemma feed_between:
  assumes "as_state a = Some s" "fragment_inv s" "list_all between fs"
    "length (fs_payload s) + length (data_of fs) \<le> fs_max s"
  shows "\<exists>s'. snd (feed fs a) = a\<lparr>as_state := Some s'\<rparr> \<and> fragment_inv s' \<and> fs_max s' = fs_max s
    \<and> fs_opcode s' = fs_opcode s \<and> fs_payload s' = fs_payload s @ data_of fs
    \<and> (fst (feed fs a) = map frame_answer fs
       \<or> fs_opcode s = OC_Text \<and> (\<forall>more. \<not> utf8_valid (fs_payload s' @ more)))"
  using assms
proof (induction fs arbitrary: a s)
  case (Cons f fs)
  show ?case
  proof (cases "is_control (wf_opcode f)")
    case True
    then have "process_frame f a = (frame_answer f, a)"
      using Cons.prems(3)
      by (simp add: process_frame_def process_control_def between_def frame_answer_def exec_simps)
    with Cons.IH [of a s] Cons.prems True show ?thesis by (auto split: prod.splits)
  next
    case False
    then have f: "process_frame f a = process_continuation f a" "\<not> wf_fin f" "frame_answer f = Ok None"
      using Cons.prems(3) by (simp_all add: process_frame_def between_def frame_answer_def)
    obtain s1 where s1: "snd (process_continuation f a) = a\<lparr>as_state := Some s1\<rparr>" "fragment_inv s1"
      "fs_payload s1 = fs_payload s @ wf_payload f" "fs_opcode s1 = fs_opcode s" "fs_max s1 = fs_max s"
      "fst (process_continuation f a) = Ok None \<or>
         fs_opcode s = OC_Text \<and> (\<forall>more. \<not> utf8_valid (fs_payload s1 @ more))"
      by (rule process_continuation_stores [of a s f]) (use Cons.prems False f(2) in auto)
    obtain s2 where s2: "snd (feed fs (a\<lparr>as_state := Some s1\<rparr>)) = a\<lparr>as_state := Some s2\<rparr>" "fragment_inv s2"
      "fs_max s2 = fs_max s1" "fs_opcode s2 = fs_opcode s1" "fs_payload s2 = fs_payload s1 @ data_of fs"
      "fst (feed fs (a\<lparr>as_state := Some s1\<rparr>)) = map frame_answer fs
       \<or> fs_opcode s1 = OC_Text \<and> (\<forall>more. \<not> utf8_valid (fs_payload s2 @ more))"
      using Cons.IH [of "a\<lparr>as_state := Some s1\<rparr>" s1] Cons.prems s1 False by auto
    show ?thesis
      using s1 s2 f False by (intro exI [of _ s2]) (auto split: prod.splits)
  qed
next
  case Nil
  then show ?case by (intro exI [of _ s]) (cases a, simp)
qed

lemma feed_between_idle: "as_state a = None \<Longrightarrow> list_all between fs \<Longrightarrow> snd (feed fs a) = a"
  by (induction fs)
    (auto simp: process_frame_def process_control_def process_continuation_def between_def exec_simps
      is_control_def split: prod.splits opcode.splits if_splits)

text \<open>The state after the first frame and those between.\<close>

lemma feed_front:
  assumes "as_state a = None" "wf_opcode first \<in> {OC_Text, OC_Binary}" "\<not> wf_fin first" "list_all between mid"
    "length (wf_payload first @ data_of mid) \<le> as_max a"
    "wf_opcode first = OC_Text \<Longrightarrow> \<exists>v. validate_utf8_incremental (wf_payload first) 0 = Ok v"
  obtains s where "snd (feed (first # mid) a) = a\<lparr>as_state := Some s\<rparr>" "fragment_inv s" "fs_max s = as_max a"
    "fs_opcode s = wf_opcode first" "fs_payload s = wf_payload first @ data_of mid"
    "fst (feed (first # mid) a) = map frame_answer (first # mid)
     \<or> wf_opcode first = OC_Text \<and> (\<forall>more. \<not> utf8_valid (fs_payload s @ more))"
proof -
  have "\<exists>v. process_frame first a = (Ok None, a\<lparr>as_state := Some \<lparr>fs_opcode = wf_opcode first,
      fs_payload = wf_payload first, fs_valid_up_to = v, fs_max = as_max a\<rparr>\<rparr>)
      \<and> v \<le> length (wf_payload first) \<and> utf8_valid (take v (wf_payload first))"
    using assms validate_incremental [of 0 "wf_payload first"]
    by (auto simp: process_frame_def process_start_def is_control_def split: result.splits)
  then obtain v where v: "process_frame first a = (Ok None, a\<lparr>as_state := Some \<lparr>fs_opcode = wf_opcode first,
      fs_payload = wf_payload first, fs_valid_up_to = v, fs_max = as_max a\<rparr>\<rparr>)"
      "v \<le> length (wf_payload first)" "utf8_valid (take v (wf_payload first))"
    by blast
  let ?s = "\<lparr>fs_opcode = wf_opcode first, fs_payload = wf_payload first, fs_valid_up_to = v, fs_max = as_max a\<rparr>"
  have "fragment_inv ?s" "frame_answer first = Ok None"
    using v assms by (auto simp: fragment_inv_def frame_answer_def is_control_def)
  with feed_between [of "a\<lparr>as_state := Some ?s\<rparr>" ?s mid] assms v(1) that show ?thesis
    by (fastforce split: prod.splits)
qed

lemma process_last:
  assumes "as_state a = Some s" "fragment_inv s" "length (fs_payload s @ wf_payload l) \<le> fs_max s"
    "wf_opcode l = OC_Continuation" "wf_fin l"
  shows "fs_opcode s = OC_Text \<longrightarrow> utf8_valid (fs_payload s @ wf_payload l) \<Longrightarrow>
      process_frame l a = (Ok (Some (if fs_opcode s = OC_Text then WM_Text (fs_payload s @ wf_payload l)
        else WM_Binary (fs_payload s @ wf_payload l))), a\<lparr>as_state := None\<rparr>)" (is "_ \<Longrightarrow> ?done")
    and "fs_opcode s = OC_Text \<and> \<not> utf8_valid (fs_payload s @ wf_payload l) \<Longrightarrow>
      \<exists>e. fst (process_frame l a) = Err (WS_InvalidUtf8 e)" (is "_ \<Longrightarrow> ?refused")
proof -
  let ?data = "fs_payload s @ wf_payload l" and ?v = "fs_valid_up_to s"
  have inv: "fs_opcode s = OC_Text \<or> fs_opcode s = OC_Binary" "utf8_valid (take ?v ?data)" "?v \<le> length ?data"
    using assms(2) by (auto simp: fragment_inv_def)
  have step: "process_frame l a = process_continuation l a"
    using assms(4) by (simp add: process_frame_def is_control_def)
  have invalid: "validate_utf8_incremental ?data ?v = Err e \<Longrightarrow> \<exists>b. e = WS_InvalidUtf8 b" for e
    by (auto simp: validate_utf8_incremental_def Let_def split: if_splits result.splits)
  show ?done if "fs_opcode s = OC_Text \<longrightarrow> utf8_valid ?data"
    using assms that inv validate_incremental [OF inv(2,3)]
    by (auto simp: step process_continuation_def finish_message_def string_from_utf8_def Let_def
        dest: spec [of _ "[]"] split: result.splits)
  show ?refused if "fs_opcode s = OC_Text \<and> \<not> utf8_valid ?data"
    using assms that inv validate_incremental [OF inv(2,3)] invalid
    by (auto simp: step process_continuation_def finish_message_def string_from_utf8_def Let_def split: result.splits)
qed



text \<open>A fragmented message whose text is not valid UTF-8 is refused: some frame is answered
  \<open>InvalidUtf8\<close>, and the last one is answered an error, so the text is never delivered.\<close>

theorem invalid_text_refused:
  assumes "as_state a = None" "wf_opcode first = OC_Text" "\<not> wf_fin first"
    "list_all between mid" "wf_opcode l = OC_Continuation" "wf_fin l"
    "length (wf_payload (whole_frame first mid l)) \<le> as_max a"
    "\<not> utf8_valid (wf_payload (whole_frame first mid l))"
  shows "(\<exists>e. Err (WS_InvalidUtf8 e) \<in> set (fst (feed (first # mid @ [l]) a)))
    \<and> (\<exists>e. last (fst (feed (first # mid @ [l]) a)) = Err e)"
proof (cases "validate_utf8_incremental (wf_payload first) 0")
  case (Ok v)
  obtain s where s: "snd (feed (first # mid) a) = a\<lparr>as_state := Some s\<rparr>" "fragment_inv s" "fs_max s = as_max a"
    "fs_opcode s = wf_opcode first" "fs_payload s = wf_payload first @ data_of mid"
    by (rule feed_front [of a first mid]) (use Ok assms in \<open>auto simp: whole_frame_def\<close>)
  obtain e where "fst (process_frame l (a\<lparr>as_state := Some s\<rparr>)) = Err (WS_InvalidUtf8 e)"
    using process_last(2) [of "a\<lparr>as_state := Some s\<rparr>" s l] s assms by (auto simp: whole_frame_def)
  then show ?thesis
    using feed_append [of "first # mid" "[l]" a] s(1) by (auto split: prod.splits)
next
  case (Err e)
  moreover have "\<exists>b. e = WS_InvalidUtf8 b"
    using Err by (auto simp: validate_utf8_incremental_def Let_def split: if_splits result.splits)
  ultimately have "\<exists>b. process_frame first a = (Err (WS_InvalidUtf8 b), a)"
    using assms by (auto simp: process_frame_def process_start_def is_control_def whole_frame_def)
  then show ?thesis
    using feed_append [of "first # mid" "[l]" a] assms feed_between_idle [of a mid]
    by (auto simp: process_frame_def process_continuation_def is_control_def split: prod.splits)
next
  case Panic
  then show ?thesis using validate_incremental [of 0 "wf_payload first"] by simp
qed

theorem invalid_text_refused_witness:
  "let fs = [\<lparr>wf_fin = False, wf_opcode = OC_Text, wf_mask = None, wf_payload = [65, 0xC3]\<rparr>,
         \<lparr>wf_fin = True, wf_opcode = OC_Continuation, wf_mask = None, wf_payload = [0x41]\<rparr>];
       out = fst (feed fs (assembler_new 100))
   in (\<exists>e. Err (WS_InvalidUtf8 e) \<in> set out) \<and> (\<exists>e. last out = Err e)"
proof -
  let ?first = "\<lparr>wf_fin = False, wf_opcode = OC_Text, wf_mask = None, wf_payload = [65, 0xC3]\<rparr>"
    and ?last = "\<lparr>wf_fin = True, wf_opcode = OC_Continuation, wf_mask = None, wf_payload = [0x41]\<rparr>"
  have "wf_payload (whole_frame ?first [] ?last) = [65, 0xC3, 0x41]" by (simp add: whole_frame_def)
  moreover have "\<not> utf8_valid [65, 0xC3, 0x41]" by (simp add: utf8_lead2_def utf8_cont_def)
  ultimately show ?thesis
    using invalid_text_refused [of "assembler_new 100" ?first "[]" ?last] unfolding Let_def
    by (simp del: feed.simps add: assembler_new_def)
qed

end
