(* ===== verification/Tasks.thy ===== *)
theory Tasks
  imports Streams
begin

text \<open>
  What the polled tasks of the program share: the status a poll reports
  (\<open>foundation_core/src/valtron/task.rs\<close>) and the connection they hold.
\<close>

datatype ('r, 'p) task_status =
  Status_Init | Status_Delayed nat | Status_Pending 'p | Status_Ready 'r | Status_Spawn | Status_Ignore

text \<open>A connection: one stream, read and written.\<close>

record transport =
  tr_in :: reader
  tr_out :: writer

text \<open>Writes and flushes whose outcome is ignored or only logged.\<close>

definition try_write :: "bytes \<Rightarrow> transport \<Rightarrow> transport" where
  "try_write bs tr = tr\<lparr>tr_out := snd (write_all bs (tr_out tr))\<rparr>"

definition try_flush :: "transport \<Rightarrow> transport" where
  "try_flush tr = tr\<lparr>tr_out := snd (flush_writer (tr_out tr))\<rparr>"

section \<open>Polling\<close>

text \<open>Polled again and again, whatever the poll returns; \<open>es\<close> is what each poll finds outside.\<close>

primrec poll_all :: "('e \<Rightarrow> 's \<Rightarrow> 'r \<times> 's) \<Rightarrow> 'e list \<Rightarrow> 's \<Rightarrow> 'r list \<times> 's" where
  "poll_all step [] s = ([], s)"
| "poll_all step (e # es) s =
     (case step e s of (r, s') \<Rightarrow> (case poll_all step es s' of (rs, s'') \<Rightarrow> (r # rs, s'')))"

lemma poll_all_Cons:
  "fst (poll_all step (e # es) s) = fst (step e s) # fst (poll_all step es (snd (step e s)))"
  "snd (poll_all step (e # es) s) = snd (poll_all step es (snd (step e s)))"
  by (simp_all split: prod.split)

lemma poll_all_length: "length (fst (poll_all step es s)) = length es"
  by (induction es arbitrary: s) (simp_all add: poll_all_Cons del: poll_all.simps(2))

text \<open>What a run costs, when each poll costs what the state it finds tells.\<close>

primrec cost_all :: "('e \<Rightarrow> 's \<Rightarrow> 'r \<times> 's) \<Rightarrow> ('s \<Rightarrow> nat) \<Rightarrow> 'e list \<Rightarrow> 's \<Rightarrow> nat" where
  "cost_all step cost [] s = 0"
| "cost_all step cost (e # es) s = cost s + cost_all step cost es (snd (step e s))"

text \<open>A task that keeps an invariant, and reports only what is good.\<close>

locale polled =
  fixes step :: "'e \<Rightarrow> 's \<Rightarrow> 'r \<times> 's" and inv :: "'s \<Rightarrow> bool" and good :: "'r \<Rightarrow> bool"
  assumes keeps: "inv s \<Longrightarrow> good (fst (step e s)) \<and> inv (snd (step e s))"
begin

lemma poll_all_good: "inv s \<Longrightarrow> list_all good (fst (poll_all step es s)) \<and> inv (snd (poll_all step es s))"
proof (induction es arbitrary: s)
  case (Cons e es)
  then show ?case using keeps [OF Cons.prems, of e] by (simp add: poll_all_Cons del: poll_all.simps(2))
qed simp

end

text \<open>A task with a budget: what a poll costs it takes from the budget, and its result may add to it.\<close>

locale budgeted = polled +
  fixes cost :: "'s \<Rightarrow> nat" and left :: "'s \<Rightarrow> nat" and gain :: "'r \<Rightarrow> nat"
  assumes pays: "inv s \<Longrightarrow> cost s + left (snd (step e s)) \<le> left s + gain (fst (step e s))"
begin

lemma within_budget: "inv s \<Longrightarrow> cost_all step cost es s \<le> left s + sum_list (map gain (fst (poll_all step es s)))"
proof (induction es arbitrary: s)
  case (Cons e es)
  have "inv (snd (step e s))" using keeps Cons.prems by blast
  from Cons.IH [OF this] pays [OF Cons.prems, of e] show ?case by (simp add: poll_all_Cons del: poll_all.simps(2))
qed simp

end

lemma poll_all_append:
  "fst (poll_all step (xs @ ys) s) = fst (poll_all step xs s) @ fst (poll_all step ys (snd (poll_all step xs s)))"
  "snd (poll_all step (xs @ ys) s) = snd (poll_all step ys (snd (poll_all step xs s)))"
  by (induction xs arbitrary: s) (simp_all add: poll_all_Cons del: poll_all.simps(2))

text \<open>
  A task that tries again while it has attempts, four polls for each: the attempt and its refusal, the wait,
  the new beginning. It gives up at the refusal that finds no attempt left.
\<close>

locale retry_cycle =
  fixes step :: "'e \<Rightarrow> 's \<Rightarrow> 'r \<times> 's" and trying :: "nat \<Rightarrow> 's \<Rightarrow> bool" and over :: "'s \<Rightarrow> bool"
    and refuses :: "'e \<Rightarrow> bool" and waits :: "'r \<Rightarrow> nat list" and fine :: "nat \<Rightarrow> bool" and stop :: 'r
  assumes tries_again: "trying (Suc n) s \<Longrightarrow> list_all refuses [e1, e2, e3, e4] \<Longrightarrow>
      trying n (snd (poll_all step [e1, e2, e3, e4] s)) \<and>
      (\<exists>w. fine w \<and> concat (map waits (fst (poll_all step [e1, e2, e3, e4] s))) = [w])"
    and gives_up: "trying 0 s \<Longrightarrow> list_all refuses [e1, e2] \<Longrightarrow>
      over (snd (poll_all step [e1, e2] s)) \<and> concat (map waits (fst (poll_all step [e1, e2] s))) = [] \<and>
      last (fst (poll_all step [e1, e2] s)) = stop"
begin

lemma ends:
  "trying n s \<Longrightarrow> list_all refuses es \<Longrightarrow> length es = 4 * n + 2 \<Longrightarrow>
   over (snd (poll_all step es s)) \<and> last (fst (poll_all step es s)) = stop \<and>
   length (concat (map waits (fst (poll_all step es s)))) = n \<and> list_all fine (concat (map waits (fst (poll_all step es s))))"
proof (induction n arbitrary: s es)
  case 0
  then obtain e1 e2 where "es = [e1, e2]" by (auto simp: length_Suc_conv numeral_2_eq_2)
  then show ?case using gives_up [OF "0.prems"(1), of e1 e2] "0.prems"(2) by (simp del: poll_all.simps(2) concat_eq_Nil_conv)
next
  case (Suc n)
  then have "length es = Suc (Suc (Suc (Suc (4 * n + 2))))" by simp
  then obtain e1 e2 e3 e4 es' where es: "es = [e1, e2, e3, e4] @ es'" "length es' = 4 * n + 2"
    by (auto simp only: length_Suc_conv append_Cons append_Nil)
  let ?s = "snd (poll_all step [e1, e2, e3, e4] s)"
  obtain w where "trying n ?s" "fine w" "concat (map waits (fst (poll_all step [e1, e2, e3, e4] s))) = [w]"
    using tries_again [OF Suc.prems(1), of e1 e2 e3 e4] Suc.prems(2) es(1) by auto
  moreover note Suc.IH [of ?s es']
  moreover have "fst (poll_all step es' ?s) \<noteq> []" using poll_all_length [of step es' ?s] es(2) by (metis add_is_0 list.size(3) zero_neq_numeral)
  ultimately show ?case using es Suc.prems(2) unfolding es(1) poll_all_append map_append concat_append by (simp del: poll_all.simps(2))
qed

end

end
