(* ===== verification/WsTask.thy ===== *)
theory WsTask
  imports WsConnection WsAssembler Tasks
begin

text \<open>
  The WebSocket client as a task that is polled: \<open>WebSocketTask\<close> of
  \<open>foundation_core/src/wire/websocket/task.rs\<close>, one definition per state of \<open>next_status\<close>. What a poll takes
  from the rest of the program and from outside is the record \<open>task_env\<close>: the URL parser, the connection
  pool, the HTTP codec of the handshake, the random key and mask, SHA-1 and Base64 of the accept key, the
  buffer type, and the concurrent queue that other threads fill. The boxes inside the states are always full
  when a poll begins and are left out.
\<close>

section \<open>Status and environment\<close>

datatype ws_progress = WP_Connecting | WP_Handshaking | WP_Reading

type_synonym ws_status = "((ws_error, ws_message) result, ws_progress) task_status"

text \<open>What the response reader yields: the status code, the values of \<open>Sec-WebSocket-Accept\<close> among the
  headers, or a part that is skipped.\<close>

datatype http_part = Part_Intro u16 | Part_Headers "bytes list option" | Part_Other

record task_env =
  te_parses :: "bytes \<Rightarrow> bool"
  te_is_ws :: "bytes \<Rightarrow> bool"
  te_key :: bytes
  te_connect :: "bytes \<Rightarrow> transport option"
  te_request :: "bytes \<Rightarrow> bytes \<Rightarrow> bytes option \<Rightarrow> bytes option"
  te_part :: "reader \<Rightarrow> (unit, http_part) result option \<times> reader"
  te_accept :: "bytes \<Rightarrow> bytes"
  te_pop :: "nat \<Rightarrow> ws_message option"
  te_mask :: mask_key
  te_resize :: "bytes \<Rightarrow> nat \<Rightarrow> u8 \<Rightarrow> (ws_error, bytes) result"
  te_usz :: nat

section \<open>The states\<close>

text \<open>\<open>queue\<close> is the handle of the delivery queue, when there is one.\<close>

record connect_info =
  ci_url :: bytes
  ci_subprotocols :: "bytes option"
  ci_headers :: "(bytes \<times> bytes) list"
  ci_queue :: "nat option"
  ci_read_timeout :: nat

record connecting_state =
  cg_url :: bytes
  cg_key :: bytes
  cg_subprotocols :: "bytes option"
  cg_headers :: "(bytes \<times> bytes) list"
  cg_queue :: "nat option"
  cg_read_timeout :: nat

record sending_state =
  sd_connection :: transport
  sd_request :: "bytes list"
  sd_chunk :: nat
  sd_key :: bytes
  sd_subprotocols :: "bytes option"
  sd_queue :: "nat option"
  sd_read_timeout :: nat

record reading_state =
  rd_connection :: transport
  rd_key :: bytes
  rd_subprotocols :: "bytes option"
  rd_queue :: "nat option"
  rd_read_timeout :: nat

record validating_state =
  vd_connection :: transport
  vd_accept :: "bytes list option"
  vd_key :: bytes
  vd_subprotocols :: "bytes option"
  vd_queue :: "nat option"
  vd_read_timeout :: nat

record open_state =
  op_stream :: transport
  op_queue :: nat
  op_read_timeout :: nat
  op_assembler :: assembler

datatype task_state =
  TS_Init connect_info
  | TS_Connecting connecting_state
  | TS_HandshakeSending sending_state
  | TS_HandshakeReading reading_state
  | TS_HandshakeValidating validating_state
  | TS_Open open_state
  | TS_Closed "ws_error option"

record ws_task =
  wt_state :: "task_state option"
  wt_sleep :: nat

definition DEFAULT_READ_TIMEOUT :: nat where "DEFAULT_READ_TIMEOUT = 5 * 1000000000"
definition SLEEP_BETWEEN_WORK :: nat where "SLEEP_BETWEEN_WORK = 15 * 1000000"

section \<open>Constructors\<close>

definition task_connect :: "task_env \<Rightarrow> bytes \<Rightarrow> (ws_error, ws_task) result" where
  "task_connect e url =
     (if \<not> te_parses e url then Err WS_InvalidUrl
      else if \<not> te_is_ws e url then Err WS_InvalidUrl
      else Ok \<lparr>wt_state = Some (TS_Init \<lparr>ci_url = url, ci_subprotocols = None, ci_headers = [], ci_queue = None,
                 ci_read_timeout = DEFAULT_READ_TIMEOUT\<rparr>), wt_sleep = SLEEP_BETWEEN_WORK\<rparr>)"

definition connect_with_delivery ::
    "task_env \<Rightarrow> bytes \<Rightarrow> bytes option \<Rightarrow> (bytes \<times> bytes) list \<Rightarrow> nat \<Rightarrow> nat \<Rightarrow> nat \<Rightarrow> (ws_error, ws_task) result" where
  "connect_with_delivery e url subprotocols extra_headers delivery_queue read_timeout sleep_between =
     (if \<not> te_parses e url then Err WS_InvalidUrl
      else if \<not> te_is_ws e url then Err WS_InvalidUrl
      else Ok \<lparr>wt_state = Some (TS_Init \<lparr>ci_url = url, ci_subprotocols = subprotocols, ci_headers = extra_headers,
                 ci_queue = Some delivery_queue, ci_read_timeout = read_timeout\<rparr>), wt_sleep = sleep_between\<rparr>)"

definition with_subprotocol :: "bytes \<Rightarrow> ws_task \<Rightarrow> ws_task" where
  "with_subprotocol protocol t =
     (case wt_state t of
        Some (TS_Init info) \<Rightarrow> t\<lparr>wt_state := Some (TS_Init (info\<lparr>ci_subprotocols := Some protocol\<rparr>))\<rparr>
      | _ \<Rightarrow> t)"

definition with_header :: "bytes \<Rightarrow> bytes \<Rightarrow> ws_task \<Rightarrow> ws_task" where
  "with_header name val t =
     (case wt_state t of
        Some (TS_Init info) \<Rightarrow> t\<lparr>wt_state := Some (TS_Init (info\<lparr>ci_headers := ci_headers info @ [(name, val)]\<rparr>))\<rparr>
      | _ \<Rightarrow> t)"

section \<open>One poll\<close>

type_synonym poll = "(unit, ws_status option) result \<times> task_state option"

definition poll_init :: "task_env \<Rightarrow> connect_info \<Rightarrow> poll" where
  "poll_init e info =
     (if \<not> te_parses e (ci_url info) then (Ok None, None)
      else (Ok (Some (Status_Pending WP_Connecting)),
        Some (TS_Connecting \<lparr>cg_url = ci_url info, cg_key = te_key e, cg_subprotocols = ci_subprotocols info,
          cg_headers = ci_headers info, cg_queue = ci_queue info, cg_read_timeout = ci_read_timeout info\<rparr>)))"

definition poll_connecting :: "task_env \<Rightarrow> connecting_state \<Rightarrow> poll" where
  "poll_connecting e state =
     (case te_connect e (cg_url state) of
        None \<Rightarrow> (Ok None, Some (TS_Closed (Some WS_ConnectionClosed)))
      | Some connection \<Rightarrow>
          (case te_request e (cg_url state) (cg_key state) (cg_subprotocols state) of
             None \<Rightarrow> (Ok None, Some (TS_Closed (Some WS_InvalidUrl)))
           | Some request_bytes \<Rightarrow>
               (Ok (Some (Status_Pending WP_Handshaking)),
                Some (TS_HandshakeSending \<lparr>sd_connection = connection, sd_request = map (\<lambda>b. [b]) request_bytes,
                  sd_chunk = 0, sd_key = cg_key state, sd_subprotocols = cg_subprotocols state,
                  sd_queue = cg_queue state, sd_read_timeout = cg_read_timeout state\<rparr>))))"

definition poll_sending :: "sending_state \<Rightarrow> poll" where
  "poll_sending state =
     (if sd_chunk state < length (sd_request state) then
        (Ok (Some (Status_Pending WP_Handshaking)),
         Some (TS_HandshakeSending (state\<lparr>sd_connection := try_write (sd_request state ! sd_chunk state) (sd_connection state),
           sd_chunk := sd_chunk state + 1\<rparr>)))
      else
        (Ok (Some (Status_Pending WP_Handshaking)),
         Some (TS_HandshakeReading \<lparr>rd_connection = try_flush (sd_connection state), rd_key = sd_key state,
           rd_subprotocols = sd_subprotocols state, rd_queue = sd_queue state, rd_read_timeout = sd_read_timeout state\<rparr>)))"

definition poll_reading :: "task_env \<Rightarrow> reading_state \<Rightarrow> poll" where
  "poll_reading e state =
     (case te_part e (tr_in (rd_connection state)) of
        (part, es) \<Rightarrow>
          (let state = state\<lparr>rd_connection := rd_connection state\<lparr>tr_in := es\<rparr>\<rparr>
           in (case part of
                 Some (Ok (Part_Intro status)) \<Rightarrow>
                   if status \<noteq> 101 then (Ok None, Some (TS_Closed (Some (WS_UpgradeFailed status))))
                   else (Ok (Some (Status_Pending WP_Handshaking)), Some (TS_HandshakeReading state))
               | Some (Ok (Part_Headers accept)) \<Rightarrow>
                   (Ok (Some (Status_Pending WP_Handshaking)),
                    Some (TS_HandshakeValidating \<lparr>vd_connection = rd_connection state, vd_accept = accept,
                      vd_key = rd_key state, vd_subprotocols = rd_subprotocols state, vd_queue = rd_queue state,
                      vd_read_timeout = rd_read_timeout state\<rparr>))
               | Some (Ok Part_Other) \<Rightarrow>
                   (Ok (Some (Status_Pending WP_Handshaking)), Some (TS_HandshakeReading state))
               | Some (Err _) \<Rightarrow> (Ok None, Some (TS_Closed (Some (WS_ProtocolError Note_HttpResponse))))
               | Some Panic \<Rightarrow> (Panic, None)
               | None \<Rightarrow> (Ok None, Some (TS_Closed (Some WS_ConnectionClosed))))))"

definition poll_validating :: "task_env \<Rightarrow> validating_state \<Rightarrow> poll" where
  "poll_validating e state =
     (let expected_accept = te_accept e (vd_key state)
      in (case vd_accept state of
            None \<Rightarrow> (Ok None, Some (TS_Closed (Some WS_MissingAcceptKey)))
          | Some [] \<Rightarrow> (Ok None, Some (TS_Closed (Some WS_MissingAcceptKey)))
          | Some (accept # _) \<Rightarrow>
              if accept \<noteq> expected_accept then (Ok None, Some (TS_Closed (Some WS_InvalidAcceptKey)))
              else
                (case vd_queue state of
                   None \<Rightarrow> (Panic, None)
                 | Some queue \<Rightarrow>
                     (Ok (Some (Status_Ready (Ok WM_ConnectionEstablished))),
                      Some (TS_Open \<lparr>op_stream = vd_connection state, op_queue = queue,
                        op_read_timeout = vd_read_timeout state, op_assembler = assembler_default\<rparr>)))))"

text \<open>The open state: one message out, or else one frame in.\<close>

definition poll_outgoing :: "task_env \<Rightarrow> open_state \<Rightarrow> ws_message \<Rightarrow> poll" where
  "poll_outgoing e state outgoing =
     (let state =
        (case message_frame (Some (te_mask e)) outgoing of
           None \<Rightarrow> state
         | Some frame \<Rightarrow> state\<lparr>op_stream := try_flush (try_write (ws_encode frame) (op_stream state))\<rparr>)
      in (Ok (Some (Status_Pending WP_Reading)), Some (TS_Open state)))"

definition poll_frame :: "open_state \<Rightarrow> ws_frame \<Rightarrow> poll" where
  "poll_frame state frame =
     (case ws_validate frame of
        Err err \<Rightarrow> (Ok (Some (Status_Ready (Err err))), Some (TS_Open state))
      | Panic \<Rightarrow> (Panic, None)
      | Ok _ \<Rightarrow>
          if wf_mask frame \<noteq> None then
            (Ok None, Some (TS_Closed (Some (WS_ProtocolError Note_MaskedFromServer))))
          else if is_control (wf_opcode frame) then
            (case wf_opcode frame of
               OC_Ping \<Rightarrow>
                 (let pong_frame = \<lparr>wf_fin = True, wf_opcode = OC_Pong, wf_mask = None, wf_payload = wf_payload frame\<rparr>
                  in (Ok (Some (Status_Ready (Ok (WM_Ping (wf_payload frame))))),
                      Some (TS_Open (state\<lparr>op_stream := try_flush (try_write (ws_encode pong_frame) (op_stream state))\<rparr>))))
             | OC_Pong \<Rightarrow> (Ok (Some (Status_Ready (Ok (WM_Pong (wf_payload frame))))), Some (TS_Open state))
             | OC_Close \<Rightarrow>
                 (case parse_close_payload (wf_payload frame) of
                    (code, reason) \<Rightarrow> (Ok (Some (Status_Ready (Ok (WM_Close code reason)))), Some (TS_Closed None)))
             | _ \<Rightarrow> (Ok (Some (Status_Ready (Err (WS_ProtocolError Note_UnknownControl)))), Some (TS_Open state)))
          else
            (case process_frame frame (op_assembler state) of
               (r, assembler) \<Rightarrow>
                 (let state = state\<lparr>op_assembler := assembler\<rparr>
                  in (case r of
                        Ok (Some message) \<Rightarrow> (Ok (Some (Status_Ready (Ok message))), Some (TS_Open state))
                      | Ok None \<Rightarrow> (Ok (Some (Status_Pending WP_Reading)), Some (TS_Open state))
                      | Err err \<Rightarrow> (Ok (Some (Status_Ready (Err err))), Some (TS_Open state))
                      | Panic \<Rightarrow> (Panic, None)))))"

definition poll_incoming :: "task_env \<Rightarrow> nat \<Rightarrow> open_state \<Rightarrow> poll" where
  "poll_incoming e sleep_between_work state =
     (let tr = try_flush (op_stream state)
      in (case ws_decode_with_buffer (te_resize e) (te_usz e) (tr_in tr) of
            (r, es) \<Rightarrow>
              (let state = state\<lparr>op_stream := tr\<lparr>tr_in := es\<rparr>\<rparr>
               in (case r of
                     Ok (frame, _) \<Rightarrow> poll_frame state frame
                   | Err (WS_IoError k) \<Rightarrow>
                       if k = UnexpectedEof then (Ok None, Some (TS_Closed None))
                       else if k = WouldBlock \<or> k = TimedOut
                       then (Ok (Some (Status_Delayed sleep_between_work)), Some (TS_Open state))
                       else (Ok (Some (Status_Ready (Err (WS_IoError k)))),
                             Some (TS_Closed (Some (WS_ProtocolError Note_FrameDecode))))
                   | Err err \<Rightarrow>
                       (Ok (Some (Status_Ready (Err err))),
                        Some (TS_Closed (Some (WS_ProtocolError Note_FrameDecode))))
                   | Panic \<Rightarrow> (Panic, None)))))"

definition poll_open :: "task_env \<Rightarrow> nat \<Rightarrow> open_state \<Rightarrow> poll" where
  "poll_open e sleep_between_work state =
     (case te_pop e (op_queue state) of
        Some outgoing \<Rightarrow> poll_outgoing e state outgoing
      | None \<Rightarrow> poll_incoming e sleep_between_work state)"

definition next_status :: "task_env \<Rightarrow> (ws_task, unit, ws_status option) exec" where
  "next_status e t =
     (case wt_state t of
        None \<Rightarrow> (Ok None, t)
      | Some state \<Rightarrow>
          (case (case state of
                   TS_Init info \<Rightarrow> poll_init e info
                 | TS_Connecting s \<Rightarrow> poll_connecting e s
                 | TS_HandshakeSending s \<Rightarrow> poll_sending s
                 | TS_HandshakeReading s \<Rightarrow> poll_reading e s
                 | TS_HandshakeValidating s \<Rightarrow> poll_validating e s
                 | TS_Open s \<Rightarrow> poll_open e (wt_sleep t) s
                 | TS_Closed _ \<Rightarrow> (Ok None, None)) of
             (r, state') \<Rightarrow> (r, t\<lparr>wt_state := state'\<rparr>)))"

abbreviation polls :: "task_env list \<Rightarrow> ws_task \<Rightarrow> (unit, ws_status option) result list \<times> ws_task" where
  "polls \<equiv> poll_all next_status"

section \<open>A task without a queue\<close>

definition queueless :: "task_state \<Rightarrow> bool" where
  "queueless s = (case s of
     TS_Init i \<Rightarrow> ci_queue i = None
   | TS_Connecting c \<Rightarrow> cg_queue c = None
   | TS_HandshakeSending c \<Rightarrow> sd_queue c = None
   | TS_HandshakeReading c \<Rightarrow> rd_queue c = None
   | TS_HandshakeValidating c \<Rightarrow> vd_queue c = None
   | TS_Open _ \<Rightarrow> False
   | TS_Closed _ \<Rightarrow> True)"

definition queueless_task :: "ws_task \<Rightarrow> bool" where
  "queueless_task t \<longleftrightarrow> (\<forall>s. wt_state t = Some s \<longrightarrow> queueless s)"

definition not_ready :: "(unit, ws_status option) result \<Rightarrow> bool" where
  "not_ready r = (case r of Ok (Some (Status_Ready _)) \<Rightarrow> False | _ \<Rightarrow> True)"

lemma queueless_step:
  assumes "queueless_task t"
  shows "not_ready (fst (next_status e t)) \<and> queueless_task (snd (next_status e t))"
proof (cases "wt_state t")
  case None
  then show ?thesis by (simp add: next_status_def not_ready_def queueless_task_def)
next
  case (Some s)
  then have "queueless s" using assms by (simp add: queueless_task_def)
  then show ?thesis
    using Some
    by (cases s)
      (auto simp: next_status_def not_ready_def queueless_task_def queueless_def poll_init_def poll_connecting_def
        poll_sending_def poll_reading_def poll_validating_def Let_def
        split: option.split result.split http_part.split list.split prod.split)
qed

interpretation queueless: polled next_status queueless_task not_ready
  by unfold_locales (rule queueless_step)

text \<open>\<open>WebSocketTask::connect\<close> makes a client that can never connect. However often it is polled, and whatever
  the server answers, it yields no message and no error; and when the server completes the handshake with
  the right key, the poll panics, because the task was given no delivery queue.\<close>

theorem connect_never_opens:
  assumes "task_connect e0 url = Ok t"
  shows "list_all not_ready (fst (polls es t))
    \<and> (\<forall>v others. wt_state (snd (polls es t)) = Some (TS_HandshakeValidating v)
         \<and> vd_accept v = Some (te_accept e (vd_key v) # others)
         \<longrightarrow> fst (next_status e (snd (polls es t))) = Panic)"
proof -
  have "queueless_task t" using assms by (auto simp: task_connect_def queueless_task_def queueless_def split: if_splits)
  note run = queueless.poll_all_good [OF this, of es]
  have "fst (next_status e (snd (polls es t))) = Panic"
    if "wt_state (snd (polls es t)) = Some (TS_HandshakeValidating v)" "vd_accept v = Some (te_accept e (vd_key v) # others)"
    for v others
    using run that by (simp add: next_status_def poll_validating_def queueless_task_def queueless_def Let_def)
  then show ?thesis using run by blast
qed

text \<open>A server that answers the upgrade at once, and correctly.\<close>

definition demo_env :: task_env where
  "demo_env = \<lparr>te_parses = (\<lambda>_. True), te_is_ws = (\<lambda>_. True), te_key = [1], te_connect = (\<lambda>_. Some \<lparr>tr_in = [],
     tr_out = \<lparr>w_out = [], w_writes = [], w_flushes = []\<rparr>\<rparr>), te_request = (\<lambda>_ _ _. Some [71]),
     te_part = (\<lambda>es. (Some (Ok (Part_Intro 101)), es)), te_accept = (\<lambda>key. key @ [2]), te_pop = (\<lambda>_. None),
     te_mask = MaskKey 1 2 3 4, te_resize = (\<lambda>_ n b. if n \<le> isize_max 8 then Ok (replicate n b) else Panic), te_usz = 8\<rparr>"

theorem connect_never_opens_witness:
  "\<exists>t. task_connect demo_env [119] = Ok t
    \<and> fst (next_status demo_env (snd (polls [demo_env, demo_env, demo_env, demo_env, demo_env,
          demo_env\<lparr>te_part := \<lambda>es. (Some (Ok (Part_Headers (Some [[1, 2]]))), es)\<rparr>] t))) = Panic"
proof -
  let ?es = "[demo_env, demo_env, demo_env, demo_env, demo_env,
          demo_env\<lparr>te_part := \<lambda>es. (Some (Ok (Part_Headers (Some [[1, 2]]))), es)\<rparr>]"
  obtain t where t: "task_connect demo_env [119] = Ok t"
      "t = \<lparr>wt_state = Some (TS_Init \<lparr>ci_url = [119], ci_subprotocols = None, ci_headers = [], ci_queue = None,
         ci_read_timeout = DEFAULT_READ_TIMEOUT\<rparr>), wt_sleep = SLEEP_BETWEEN_WORK\<rparr>"
    by (simp add: task_connect_def demo_env_def)
  have "\<exists>v. wt_state (snd (polls ?es t)) = Some (TS_HandshakeValidating v) \<and> vd_accept v = Some [[1, 2]] \<and> vd_key v = [1]"
    unfolding t(2)
    by (simp add: next_status_def poll_init_def poll_connecting_def poll_sending_def poll_reading_def demo_env_def Let_def)
  then show ?thesis
    using connect_never_opens [OF t(1), of ?es demo_env] t(1) by (auto simp: demo_env_def)
qed

section \<open>The open state\<close>

lemma decode_arriving:
  assumes "arrives es" "delivery es = ws_encode f @ rest" "holds_payload usz f"
  obtains es' where "ws_decode usz es = (Ok f, es')" "arrives es'" "delivery es' = rest"
proof -
  obtain b bs es1 where es: "es = Chunk (b # bs) # es1"
  proof (cases es rule: arrives.cases)
    case (2 bs es1)
    then show thesis using assms(1) that by (cases bs) auto
  qed (use assms in auto)
  obtain es' where es': "ws_decode usz (es @ []) = (Ok f, es' @ [])" "delivery es' = rest"
    using ws_decode_run [of b bs es1 f rest usz "[]"] assms arrives_delivers es by auto
  then show thesis using that [of es'] ws_decode_arrives [of usz es f es'] assms(1) by simp
qed

text \<open>What a poll reports of an answer of the assembler.\<close>

fun answer_status :: "(ws_error, ws_message option) result \<Rightarrow> (unit, ws_status option) result" where
  "answer_status (Ok (Some m)) = Ok (Some (Status_Ready (Ok m)))"
| "answer_status (Ok None) = Ok (Some (Status_Pending WP_Reading))"
| "answer_status (Err e) = Ok (Some (Status_Ready (Err e)))"
| "answer_status Panic = Panic"

text \<open>A poll that finds the queue empty, with the buffer type as documented.\<close>

definition idle_env :: "nat \<Rightarrow> nat \<Rightarrow> task_env \<Rightarrow> bool" where
  "idle_env queue usz e \<longleftrightarrow> te_pop e queue = None \<and> te_usz e = usz
     \<and> (\<forall>n. te_resize e [] n 0 = (if n \<le> isize_max usz then Ok (replicate n 0) else Panic))"

definition server_frame :: "nat \<Rightarrow> ws_frame \<Rightarrow> bool" where
  "server_frame usz f \<longleftrightarrow> holds_payload usz f \<and> wf_mask f = None \<and> ws_validate f = Ok () \<and> wf_opcode f \<noteq> OC_Close"

lemma poll_frame_assembles:
  assumes "server_frame usz f" "assembler_inv (op_assembler s)"
  shows "\<exists>s'. poll_frame s f = (answer_status (fst (process_frame f (op_assembler s))), Some (TS_Open s'))
    \<and> op_assembler s' = snd (process_frame f (op_assembler s)) \<and> tr_in (op_stream s') = tr_in (op_stream s)
    \<and> op_queue s' = op_queue s"
proof (cases "is_control (wf_opcode f)")
  case True
  then have "wf_fin f" using assms(1) by (auto simp: server_frame_def ws_validate_def split: if_splits)
  then show ?thesis
    using True assms(1)
    by (cases "wf_opcode f")
      (simp_all add: server_frame_def poll_frame_def process_frame_def process_control_def exec_simps is_control_def
        ws_to_message_def try_write_def try_flush_def Let_def)
next
  case False
  obtain r a where step: "process_frame f (op_assembler s) = (r, a)" by (cases "process_frame f (op_assembler s)")
  then have "r \<noteq> Panic" using process_frame_sound [OF assms(2), of f] by (simp add: sound_step_def)
  then show ?thesis
    using False assms(1) step
    by (cases r) (auto simp: server_frame_def poll_frame_def Let_def split: option.split)
qed

lemma poll_open_assembles:
  assumes "idle_env (op_queue s) usz e" "arrives (tr_in (op_stream s))" "server_frame usz f"
    "delivery (tr_in (op_stream s)) = ws_encode f @ rest" "assembler_inv (op_assembler s)"
  obtains s' where "poll_open e n s = (answer_status (fst (process_frame f (op_assembler s))), Some (TS_Open s'))"
    "op_assembler s' = snd (process_frame f (op_assembler s))" "arrives (tr_in (op_stream s'))"
    "delivery (tr_in (op_stream s')) = rest" "op_queue s' = op_queue s"
proof -
  have "holds_payload usz f" using assms(3) by (simp add: server_frame_def)
  with assms obtain es where es: "ws_decode usz (tr_in (op_stream s)) = (Ok f, es)" "arrives es" "delivery es = rest"
    using decode_arriving by blast
  let ?s = "s\<lparr>op_stream := (try_flush (op_stream s))\<lparr>tr_in := es\<rparr>\<rparr>"
  have "ws_decode_with_buffer (te_resize e) (te_usz e) (tr_in (try_flush (op_stream s))) = (Ok (f, wf_payload f), es)"
    using ws_decode_with_buffer_run [of "te_resize e" usz "tr_in (op_stream s)"] assms(1) es(1)
    by (simp add: idle_env_def try_flush_def bind_def ret_run)
  then have "poll_open e n s = poll_frame ?s f"
    using assms(1) by (simp add: poll_open_def idle_env_def poll_incoming_def Let_def)
  then show thesis using poll_frame_assembles [OF assms(3), of ?s] assms(5) es(2,3) that by auto
qed

text \<open>C27: an open task assembles what arrives. From bytes that carry any sequence of valid server frames other
  than a close, in pieces of any size, polling once per frame reports exactly what the assembler answers to
  these frames: \<open>Ready\<close> with each message that is complete, \<open>Pending\<close> for a fragment, \<open>Ready\<close> with the error
  of a frame that violates the protocol, after which the task stays open.\<close>

theorem open_task_assembles:
  assumes "wt_state t = Some (TS_Open s)" "assembler_inv (op_assembler s)" "arrives (tr_in (op_stream s))"
    "delivery (tr_in (op_stream s)) = concat (map ws_encode fs) @ rest" "list_all (server_frame usz) fs"
    "length es = length fs" "list_all (idle_env (op_queue s) usz) es"
  shows "fst (polls es t) = map answer_status (fst (feed fs (op_assembler s)))"
  using assms
proof (induction fs arbitrary: es t s)
  case (Cons f fs)
  obtain e es1 where es: "es = e # es1" using Cons.prems(6) by (cases es) auto
  obtain s' where s': "poll_open e (wt_sleep t) s = (answer_status (fst (process_frame f (op_assembler s))), Some (TS_Open s'))"
    "op_assembler s' = snd (process_frame f (op_assembler s))" "arrives (tr_in (op_stream s'))"
    "delivery (tr_in (op_stream s')) = concat (map ws_encode fs) @ rest" "op_queue s' = op_queue s"
    by (rule poll_open_assembles [of s usz e f "concat (map ws_encode fs) @ rest"]) (use Cons.prems es in auto)
  have step: "next_status e t = (answer_status (fst (process_frame f (op_assembler s))), t\<lparr>wt_state := Some (TS_Open s')\<rparr>)"
    using s'(1) Cons.prems(1) by (simp add: next_status_def)
  have "assembler_inv (op_assembler s')"
    using process_frame_sound [OF Cons.prems(2), of f] s'(2) by (simp add: sound_step_def)
  then show ?case
    using Cons.IH [of "t\<lparr>wt_state := Some (TS_Open s')\<rparr>" s' es1] Cons.prems(5-7) s' step es
    by (auto split: prod.splits)
qed simp

text \<open>A text cut inside a character, a ping between its fragments, all in chunks that fit no frame.\<close>

theorem open_task_assembles_witness:
  "fst (polls [demo_env, demo_env, demo_env] \<lparr>wt_state = Some (TS_Open \<lparr>op_stream = \<lparr>tr_in = [Chunk [0x01, 2, 65],
        Chunk [0xC3, 0x89], Chunk [0, 0x80, 1, 0xA9]], tr_out = \<lparr>w_out = [], w_writes = [], w_flushes = []\<rparr>\<rparr>,
      op_queue = 0, op_read_timeout = 1, op_assembler = assembler_default\<rparr>), wt_sleep = 1\<rparr>)
   = [Ok (Some (Status_Pending WP_Reading)), Ok (Some (Status_Ready (Ok (WM_Ping [])))),
      Ok (Some (Status_Ready (Ok (WM_Text [65, 0xC3, 0xA9]))))]"
proof -
  let ?f = "\<lparr>wf_fin = False, wf_opcode = OC_Text, wf_mask = None, wf_payload = [65, 0xC3]\<rparr>"
    and ?g = "\<lparr>wf_fin = True, wf_opcode = OC_Ping, wf_mask = None, wf_payload = []\<rparr>"
    and ?h = "\<lparr>wf_fin = True, wf_opcode = OC_Continuation, wf_mask = None, wf_payload = [0xA9]\<rparr>"
  let ?s = "\<lparr>op_stream = \<lparr>tr_in = [Chunk [0x01, 2, 65], Chunk [0xC3, 0x89], Chunk [0, 0x80, 1, 0xA9]],
      tr_out = \<lparr>w_out = [], w_writes = [], w_flushes = []\<rparr>\<rparr>, op_queue = 0, op_read_timeout = 1, op_assembler = assembler_default\<rparr>"
  have encoded: "ws_encode ?f = [0x01, 2, 65, 0xC3]" "ws_encode ?g = [0x89, 0]" "ws_encode ?h = [0x80, 1, 0xA9]"
    by (simp_all add: ws_encode_def ws_length_bytes_def)
  have frames: "list_all (server_frame 8) [?f, ?g, ?h]"
    by (simp add: server_frame_def holds_payload_def isize_max_def ws_validate_def is_control_def)
  have "feed [?f, ?g, ?h] assembler_default
      = ([Ok None, Ok (Some (WM_Ping [])), Ok (Some (WM_Text [65, 0xC3, 0xA9]))], assembler_default)"
  proof -
    have "from_utf8 [65, 0xC3] = Err (1, None)"
      by (simp add: from_utf8_def from_utf8_at.simps utf8_first_def utf8_lead2_def)
    moreover have "from_utf8 [0xC3, 0xA9] = Ok ()"
      unfolding from_utf8_ok by (simp add: utf8_lead2_def utf8_cont_def)
    moreover have "utf8_valid [65, 0xC3, 0xA9]" by (simp add: utf8_lead2_def utf8_cont_def)
    ultimately show ?thesis
      by (simp add: process_frame_def process_start_def process_control_def process_continuation_def finish_message_def
          validate_utf8_incremental_def string_from_utf8_def ws_to_message_def is_control_def assembler_default_def
          DEFAULT_MAX_MESSAGE_SIZE_def exec_simps Let_def)
  qed
  then show ?thesis
    using open_task_assembles [of "\<lparr>wt_state = Some (TS_Open ?s), wt_sleep = 1\<rparr>" ?s "[?f, ?g, ?h]" "[]" 8
        "[demo_env, demo_env, demo_env]"] encoded frames
    by (simp add: idle_env_def demo_env_def del: poll_all.simps feed.simps)
qed

text \<open>The end of the stream is never noticed. When the server closes the connection between two frames, every
  \<open>read\<close> returns 0 from then on; each poll takes that for a lack of data and reports \<open>Delayed\<close>, without
  end: the task never closes.\<close>

theorem closed_stream_never_ends_the_task:
  assumes "wt_state t = Some (TS_Open s)" "tr_in (op_stream s) = []" "list_all (idle_env (op_queue s) usz) es"
  shows "fst (polls es t) = replicate (length es) (Ok (Some (Status_Delayed (wt_sleep t))))"
  using assms
proof (induction es arbitrary: t s)
  case (Cons e es)
  have eof: "ws_decode usz [] = (Err (WS_IoError WouldBlock), [])"
    by (simp add: ws_decode_def bind_def first_byte_def)
  have idle: "te_pop e (op_queue s) = None" "te_usz e = usz"
      "\<forall>n. te_resize e [] n 0 = (if n \<le> isize_max usz then Ok (replicate n 0) else Panic)"
    using Cons.prems(3) by (simp_all add: idle_env_def)
  have "poll_open e (wt_sleep t) s
      = (Ok (Some (Status_Delayed (wt_sleep t))), Some (TS_Open (s\<lparr>op_stream := try_flush (op_stream s)\<rparr>)))"
    using idle Cons.prems(2) ws_decode_with_buffer_run [of "te_resize e" usz "[]"] eof
    by (simp add: poll_open_def poll_incoming_def try_flush_def bind_def Let_def)
  then have "next_status e t = (Ok (Some (Status_Delayed (wt_sleep t))),
      t\<lparr>wt_state := Some (TS_Open (s\<lparr>op_stream := try_flush (op_stream s)\<rparr>))\<rparr>)"
    using Cons.prems(1) by (simp add: next_status_def)
  then show ?case
    using Cons.IH [of "t\<lparr>wt_state := Some (TS_Open (s\<lparr>op_stream := try_flush (op_stream s)\<rparr>))\<rparr>"
        "s\<lparr>op_stream := try_flush (op_stream s)\<rparr>"] Cons.prems(2,3)
    by (auto simp: try_flush_def split: prod.splits)
qed simp

theorem closed_stream_never_ends_the_task_witness:
  "fst (polls (replicate 3 demo_env) \<lparr>wt_state = Some (TS_Open \<lparr>op_stream = \<lparr>tr_in = [], tr_out = \<lparr>w_out = [],
       w_writes = [], w_flushes = []\<rparr>\<rparr>, op_queue = 0, op_read_timeout = 1, op_assembler = assembler_default\<rparr>), wt_sleep = 15\<rparr>)
   = replicate 3 (Ok (Some (Status_Delayed 15)))"
  using closed_stream_never_ends_the_task [of "\<lparr>wt_state = Some (TS_Open \<lparr>op_stream = \<lparr>tr_in = [], tr_out = \<lparr>w_out = [],
       w_writes = [], w_flushes = []\<rparr>\<rparr>, op_queue = 0, op_read_timeout = 1, op_assembler = assembler_default\<rparr>), wt_sleep = 15\<rparr>"
      "\<lparr>op_stream = \<lparr>tr_in = [], tr_out = \<lparr>w_out = [], w_writes = [], w_flushes = []\<rparr>\<rparr>, op_queue = 0, op_read_timeout = 1,
        op_assembler = assembler_default\<rparr>" 8 "replicate 3 demo_env"]
  by (simp add: list_all_iff idle_env_def demo_env_def del: replicate.simps)

lemma ws_to_message_close:
  "wf_opcode f = OC_Close \<Longrightarrow> ws_to_message f = Ok (case parse_close_payload (wf_payload f) of (code, reason) \<Rightarrow> WM_Close code reason)"
  by (simp add: ws_to_message_def parse_close_payload_def Let_def)

lemma server_takes_masked:
  assumes "arriving server usz f" "message_frame (Some key) m = Some f" "sendable usz m"
  shows "fst (server_recv usz t server) = Ok m"
proof -
  obtain c' where "server_recv usz t server = bind (server_received t f) (\<lambda>frame. lift_result (ws_to_message frame)) c'"
    using server_recv_arriving [OF assms(1)] by metis
  then show ?thesis
    using assms(2,3)
    by (cases m) (auto simp: bind_def server_received_def lift_result_run ws_to_message_close parse_close_frame,
        auto simp: ws_to_message_def string_from_utf8_def)
qed

text \<open>What the client task sends, the server receives. A message taken from the delivery queue goes out in
  one poll, as a masked frame, and the server's \<open>recv\<close> returns it, however its bytes arrive.\<close>

theorem task_message_reaches_server:
  assumes "wt_state t = Some (TS_Open s)" "te_pop e (op_queue s) = Some m" "sendable usz m" "usz = 4 \<or> usz = 8"
    and "next_status e t = (r, t')" "wt_state t' = Some (TS_Open s')"
    and "w_writes (tr_out (op_stream s)) = []" "w_flushes (tr_out (op_stream s)) = []"
    and "w_out (tr_out (op_stream s')) = w_out (tr_out (op_stream s)) @ delivery (Chunk (b # bs) # es)"
    and "cn_stream server = (Chunk (b # bs) # es) @ later" "delivers (Chunk (b # bs) # es)"
    and "accepts_all server" "cn_state server \<noteq> CS_Closed"
  shows "r = Ok (Some (Status_Pending WP_Reading)) \<and> fst (server_recv usz clock server) = Ok m"
proof -
  obtain f where f: "message_frame (Some (te_mask e)) m = Some f" "holds_payload usz f"
    using sendable_frame [OF assms(3,4)] by metis
  have "r = Ok (Some (Status_Pending WP_Reading))" "s' = s\<lparr>op_stream := try_flush (try_write (ws_encode f) (op_stream s))\<rparr>"
    using assms(1,2,5,6) f(1) by (auto simp: next_status_def poll_open_def poll_outgoing_def Let_def)
  moreover from this(2) have "w_out (tr_out (op_stream s')) = w_out (tr_out (op_stream s)) @ ws_encode f"
    using assms(7,8) by (simp add: try_flush_def try_write_def write_all_def flush_writer_def)
  moreover from this have "arriving server usz f"
    using assms(9-13) f(2) unfolding arriving_def by auto
  ultimately show ?thesis using server_takes_masked [OF _ f(1) assms(3)] by blast
qed

theorem task_message_reaches_server_witness:
  "fst (next_status (demo_env\<lparr>te_pop := \<lambda>_. Some (WM_Binary [9])\<rparr>) \<lparr>wt_state = Some (TS_Open \<lparr>op_stream = \<lparr>tr_in = [],
       tr_out = \<lparr>w_out = [], w_writes = [], w_flushes = []\<rparr>\<rparr>, op_queue = 0, op_read_timeout = 1,
       op_assembler = assembler_default\<rparr>), wt_sleep = 1\<rparr>) = Ok (Some (Status_Pending WP_Reading))
   \<and> fst (server_recv 8 (0, 0, 0) (fresh [Chunk [0x82, 0x81, 1, 2], Chunk [3, 4, 8]])) = Ok (WM_Binary [9])"
proof -
  let ?e = "demo_env\<lparr>te_pop := \<lambda>_. Some (WM_Binary [9])\<rparr>"
  let ?s = "\<lparr>op_stream = \<lparr>tr_in = [], tr_out = \<lparr>w_out = [], w_writes = [], w_flushes = []\<rparr>\<rparr>, op_queue = 0,
      op_read_timeout = 1, op_assembler = assembler_default\<rparr>"
  let ?s' = "?s\<lparr>op_stream := \<lparr>tr_in = [], tr_out = \<lparr>w_out = [0x82, 0x81, 1, 2, 3, 4, 8], w_writes = [], w_flushes = []\<rparr>\<rparr>\<rparr>"
  have frame: "ws_encode \<lparr>wf_fin = True, wf_opcode = OC_Binary, wf_mask = Some (MaskKey 1 2 3 4), wf_payload = [9]\<rparr>
      = [0x82, 0x81, 1, 2, 3, 4, 8]"
    by (simp add: ws_encode_def ws_length_bytes_def apply_mask_def)
  have step: "next_status ?e \<lparr>wt_state = Some (TS_Open ?s), wt_sleep = 1\<rparr>
      = (Ok (Some (Status_Pending WP_Reading)), \<lparr>wt_state = Some (TS_Open ?s'), wt_sleep = 1\<rparr>)"
    by (simp add: next_status_def poll_open_def poll_outgoing_def demo_env_def frame try_flush_def try_write_def
        write_all_def flush_writer_def)
  show ?thesis
    using task_message_reaches_server [of "\<lparr>wt_state = Some (TS_Open ?s), wt_sleep = 1\<rparr>" ?s ?e "WM_Binary [9]" 8
        "Ok (Some (Status_Pending WP_Reading))" "\<lparr>wt_state = Some (TS_Open ?s'), wt_sleep = 1\<rparr>" ?s' "0x82" "[0x81, 1, 2]"
        "[Chunk [3, 4, 8]]" "fresh [Chunk [0x82, 0x81, 1, 2], Chunk [3, 4, 8]]" "[]" "(0, 0, 0)"] step
    by (simp add: isize_max_def demo_env_def)
qed

section \<open>The handshake\<close>

text \<open>The key is generated in the first poll and stays the same; what is assembled is never the message that
  announces the connection.\<close>

definition keyed :: "bytes \<Rightarrow> task_state \<Rightarrow> bool" where
  "keyed key s = (case s of
     TS_Init _ \<Rightarrow> False
   | TS_Connecting c \<Rightarrow> cg_key c = key
   | TS_HandshakeSending c \<Rightarrow> sd_key c = key
   | TS_HandshakeReading c \<Rightarrow> rd_key c = key
   | TS_HandshakeValidating c \<Rightarrow> vd_key c = key
   | TS_Open c \<Rightarrow> assembler_inv (op_assembler c)
   | TS_Closed _ \<Rightarrow> True)"

definition keyed_task :: "bytes \<Rightarrow> ws_task \<Rightarrow> bool" where
  "keyed_task key t \<longleftrightarrow> (\<forall>s. wt_state t = Some s \<longrightarrow> keyed key s)"

definition established :: "(unit, ws_status option) result" where
  "established = Ok (Some (Status_Ready (Ok WM_ConnectionEstablished)))"

lemma poll_frame_keyed:
  assumes "assembler_inv (op_assembler s)"
  shows "fst (poll_frame s f) \<noteq> established \<and> (\<forall>s'. snd (poll_frame s f) = Some s' \<longrightarrow> keyed key s')"
proof -
  obtain r a where step: "process_frame f (op_assembler s) = (r, a)" by (cases "process_frame f (op_assembler s)")
  have "assembler_inv a" "r \<noteq> Ok (Some WM_ConnectionEstablished)"
    using process_frame_sound [OF assms, of f] step by (auto simp: sound_step_def message_sound_def)
  then show ?thesis
    using assms step
    by (auto simp: poll_frame_def established_def keyed_def Let_def split: result.split option.split opcode.split prod.split)
qed

lemma poll_open_keyed:
  assumes "assembler_inv (op_assembler s)"
  shows "fst (poll_open e n s) \<noteq> established \<and> (\<forall>s'. snd (poll_open e n s) = Some s' \<longrightarrow> keyed key s')"
proof (cases "te_pop e (op_queue s)")
  case (Some m)
  then show ?thesis
    using assms by (auto simp: poll_open_def poll_outgoing_def established_def keyed_def Let_def split: option.split)
next
  case None
  obtain r es where "ws_decode_with_buffer (te_resize e) (te_usz e) (tr_in (try_flush (op_stream s))) = (r, es)"
    by (cases "ws_decode_with_buffer (te_resize e) (te_usz e) (tr_in (try_flush (op_stream s)))")
  then show ?thesis
    using None assms poll_frame_keyed [of "s\<lparr>op_stream := (try_flush (op_stream s))\<lparr>tr_in := es\<rparr>\<rparr>"]
    by (auto simp: poll_open_def poll_incoming_def established_def keyed_def Let_def split: result.split ws_error.split prod.split)
qed

lemma keyed_step:
  assumes "keyed_task key t"
  shows "keyed_task key (snd (next_status e t))
    \<and> (fst (next_status e t) = established \<longrightarrow>
         (\<exists>v others. wt_state t = Some (TS_HandshakeValidating v) \<and> vd_accept v = Some (te_accept e key # others)))"
proof (cases "wt_state t")
  case None
  then show ?thesis by (simp add: next_status_def established_def keyed_task_def)
next
  case (Some s)
  then have "keyed key s" using assms by (simp add: keyed_task_def)
  show ?thesis
  proof (cases "\<exists>c. s = TS_Open c")
    case True
    then obtain c where c: "s = TS_Open c" "assembler_inv (op_assembler c)" using \<open>keyed key s\<close> by (auto simp: keyed_def)
    then show ?thesis
      using Some poll_open_keyed [OF c(2), of e "wt_sleep t" key]
      by (cases "poll_open e (wt_sleep t) c") (simp add: next_status_def keyed_task_def)
  next
    case False
    then show ?thesis
    using Some \<open>keyed key s\<close>
    by (cases s)
      (auto simp: next_status_def established_def keyed_task_def keyed_def poll_connecting_def assembler_inv_new
        poll_sending_def poll_reading_def poll_validating_def Let_def
        split: option.splits result.splits http_part.splits list.splits prod.splits if_splits)
  qed
qed

interpretation keyed: polled next_status "keyed_task key" "\<lambda>_. True" for key
  using keyed_step by unfold_locales blast

text \<open>C32: a connection is announced only to a server that knows the key. Whenever, in any run of a client made by
  \<open>connect_with_delivery\<close>, a poll reports \<open>ConnectionEstablished\<close>, the task was validating, and the first
  \<open>Sec-WebSocket-Accept\<close> of the response is the accept key of the key that the first poll generated.\<close>

theorem established_only_with_the_key:
  assumes "connect_with_delivery e0 url subprotocols headers queue read_timeout sleep_between = Ok t"
    and "fst (next_status e (snd (polls (e1 # es) t))) = Ok (Some (Status_Ready (Ok WM_ConnectionEstablished)))"
  shows "\<exists>v others. wt_state (snd (polls (e1 # es) t)) = Some (TS_HandshakeValidating v)
    \<and> vd_accept v = Some (te_accept e (te_key e1) # others)"
proof -
  have "keyed_task (te_key e1) (snd (next_status e1 t))"
    using assms(1) by (auto simp: connect_with_delivery_def next_status_def poll_init_def keyed_task_def keyed_def split: if_splits)
  then have "keyed_task (te_key e1) (snd (polls (e1 # es) t))"
    using keyed.poll_all_good by (simp add: poll_all_Cons del: poll_all.simps)
  then show ?thesis using keyed_step [of "te_key e1" "snd (polls (e1 # es) t)" e] assms(2) by (simp add: established_def)
qed

theorem established_only_with_the_key_witness:
  "\<exists>t v others. connect_with_delivery demo_env [119] None [] 0 1 1 = Ok t
    \<and> wt_state (snd (polls [demo_env, demo_env, demo_env, demo_env, demo_env,
          demo_env\<lparr>te_part := \<lambda>es. (Some (Ok (Part_Headers (Some [[1, 2]]))), es)\<rparr>] t)) = Some (TS_HandshakeValidating v)
    \<and> vd_accept v = Some ([1, 2] # others)"
proof -
  let ?es = "[demo_env, demo_env, demo_env, demo_env,
          demo_env\<lparr>te_part := \<lambda>es. (Some (Ok (Part_Headers (Some [[1, 2]]))), es)\<rparr>]"
  obtain t where t: "connect_with_delivery demo_env [119] None [] 0 1 1 = Ok t"
      "t = \<lparr>wt_state = Some (TS_Init \<lparr>ci_url = [119], ci_subprotocols = None, ci_headers = [], ci_queue = Some 0,
         ci_read_timeout = 1\<rparr>), wt_sleep = 1\<rparr>"
    by (simp add: connect_with_delivery_def demo_env_def)
  have "fst (next_status demo_env (snd (polls (demo_env # ?es) t))) = Ok (Some (Status_Ready (Ok WM_ConnectionEstablished)))"
    unfolding t(2)
    by (simp add: next_status_def poll_init_def poll_connecting_def poll_sending_def poll_reading_def poll_validating_def
        demo_env_def Let_def)
  from established_only_with_the_key [OF t(1) this] t(1) show ?thesis by (simp add: demo_env_def)
qed

end
