(* ===== verification/Retries.thy ===== *)
theory Retries
  imports Prelude
begin

text \<open>
  Deciding when to try again: \<open>foundation_core/src/retries\<close> (\<open>RetryState\<close>, the trait \<open>RetryDecider\<close> and its
  two implementations) and its client \<open>synca/idleman.rs\<close> (\<open>SleepyMan\<close>, \<open>IdleMan\<close>). A \<open>Duration\<close> is
  a number of nanoseconds up to \<open>Duration::MAX\<close>; its saturating operations are written out. The random
  generator is the third-party \<open>fastrand\<close>: \<open>draw n\<close> is what \<open>rng.u32(0..n)\<close> returns in this call.
\<close>

section \<open>Durations\<close>

definition duration_max :: nat where
  "duration_max = 2 ^ 64 * 1000000000 - 1"

definition dur_saturating_mul :: "nat \<Rightarrow> nat \<Rightarrow> nat" where
  "dur_saturating_mul d k = min (d * k) duration_max"

definition dur_saturating_add :: "nat \<Rightarrow> nat \<Rightarrow> nat" where
  "dur_saturating_add d e = min (d + e) duration_max"

definition dur_saturating_sub :: "nat \<Rightarrow> nat \<Rightarrow> nat" where
  "dur_saturating_sub d e = d - e"

text \<open>\<open>clamp\<close> panics when the bounds are the wrong way round.\<close>

definition dur_clamp :: "nat \<Rightarrow> nat \<Rightarrow> nat \<Rightarrow> (unit, nat) result" where
  "dur_clamp d low high = (if low \<le> high then Ok (max low (min d high)) else Panic)"

definition u32_saturating_add :: "u32 \<Rightarrow> u32 \<Rightarrow> u32" where
  "u32_saturating_add a b = (if unat a + unat b < 2 ^ 32 then a + b else 0xFFFFFFFF)"

definition u32_saturating_pow :: "u32 \<Rightarrow> u32 \<Rightarrow> nat" where
  "u32_saturating_pow a n = min (unat a ^ unat n) (2 ^ 32 - 1)"

section \<open>The state and the deciders\<close>

definition DEFAULT_MIN_DURATION :: nat where
  "DEFAULT_MIN_DURATION = 100 * 1000000"

record retry_state =
  rt_wait :: "nat option"
  rt_total_allowed :: u32
  rt_attempt :: u32

definition retry_state_new :: "u32 \<Rightarrow> u32 \<Rightarrow> nat option \<Rightarrow> retry_state" where
  "retry_state_new attempt total_allowed wait =
     \<lparr>rt_wait = wait, rt_total_allowed = total_allowed, rt_attempt = attempt\<rparr>"

definition can_retry :: "retry_state \<Rightarrow> bool" where
  "can_retry s \<longleftrightarrow> rt_attempt s = rt_total_allowed s"

text \<open>\<open>SameBackoffDecider\<close>.\<close>

definition same_decide :: "nat \<Rightarrow> retry_state \<Rightarrow> (unit, retry_state option) result" where
  "same_decide duration state =
     (let last_attempt = rt_attempt state
      in if rt_total_allowed state \<le> last_attempt then Ok None
         else Ok (Some \<lparr>rt_wait = Some duration, rt_total_allowed = rt_total_allowed state,
                        rt_attempt = u32_saturating_add last_attempt 1\<rparr>))"

text \<open>\<open>ExponentialBackoffDecider\<close>. The jitter is an \<open>f32\<close>; \<open>f32_percent\<close> is
  \<open>(jitter * 100f32) as u32\<close> on the bits: the product of the significand with 100 is rounded to 24 bits,
  ties to even, and truncated.\<close>

definition f32_exp :: "f32 \<Rightarrow> nat" where "f32_exp v = unat v div 2 ^ 23 mod 2 ^ 8"
definition f32_man :: "f32 \<Rightarrow> nat" where "f32_man v = unat v mod 2 ^ 23"

text \<open>\<open>0 < jitter < 1\<close>: the sign bit is clear, and the bits are those of a number between; NaN is outside.\<close>

definition jitter_ok :: "f32 \<Rightarrow> bool" where
  "jitter_ok v \<longleftrightarrow> 0 < v \<and> v < 0x3F800000"

definition f32_percent :: "f32 \<Rightarrow> nat" where
  "f32_percent v =
     (let sig = (if f32_exp v = 0 then f32_man v else 2 ^ 23 + f32_man v);
          e = max (f32_exp v) 1;
          product = sig * 100;
          s = (if product < 2 ^ 24 then 0
               else if product < 2 ^ 25 then 1 else if product < 2 ^ 26 then 2 else if product < 2 ^ 27 then 3
               else if product < 2 ^ 28 then 4 else if product < 2 ^ 29 then 5 else if product < 2 ^ 30 then 6 else 7);
          rounded = round_half_even product s
      in rounded * 2 ^ s div 2 ^ (150 - e))"

record exponential_decider =
  ed_factor :: u32
  ed_jitter :: f32
  ed_min :: nat
  ed_max :: nat

definition DEFAULT_JITTER :: f32 where "DEFAULT_JITTER = 0x3F19999A"
definition DEFAULT_FACTOR :: u32 where "DEFAULT_FACTOR = 3"

definition exponential_new :: "u32 \<Rightarrow> f32 \<Rightarrow> nat \<Rightarrow> nat option \<Rightarrow> (unit, exponential_decider) result" where
  "exponential_new factor jitter min_duration max_duration =
     (if jitter_ok jitter
      then Ok \<lparr>ed_factor = factor, ed_jitter = jitter, ed_min = min_duration,
               ed_max = (case max_duration of Some d \<Rightarrow> d | None \<Rightarrow> duration_max)\<rparr>
      else Panic)"

definition exponential_from_duration :: "nat \<Rightarrow> nat option \<Rightarrow> (unit, exponential_decider) result" where
  "exponential_from_duration min_duration max_duration =
     exponential_new DEFAULT_FACTOR DEFAULT_JITTER min_duration max_duration"

definition exponential_default :: "(unit, exponential_decider) result" where
  "exponential_default = exponential_new DEFAULT_FACTOR DEFAULT_JITTER DEFAULT_MIN_DURATION None"

text \<open>\<open>rng.u32(0..n)\<close> panics on the empty range.\<close>

definition rng_below :: "(nat \<Rightarrow> nat) \<Rightarrow> nat \<Rightarrow> (unit, nat) result" where
  "rng_below draw n = (if n = 0 then Panic else Ok (draw n))"

definition jittered :: "nat \<Rightarrow> nat \<Rightarrow> nat \<Rightarrow> nat" where
  "jittered jitter_factor random duration =
     (let duration = dur_saturating_mul duration 100;
          duration =
            (if random < jitter_factor
             then dur_saturating_sub duration (dur_saturating_mul duration random div 100)
             else dur_saturating_add duration (dur_saturating_mul duration (random div 2) div 100))
      in duration div 100)"

definition exponential_decide ::
    "exponential_decider \<Rightarrow> (nat \<Rightarrow> nat) \<Rightarrow> retry_state \<Rightarrow> (unit, retry_state option) result" where
  "exponential_decide d draw state =
     (let last_attempt = rt_attempt state
      in if rt_total_allowed state \<le> last_attempt then Ok None
         else
           (let next_attempt = u32_saturating_add last_attempt 1;
                exponent = u32_saturating_pow (ed_factor d) next_attempt;
                duration = dur_saturating_mul (ed_min d) exponent;
                jitter_factor = f32_percent (ed_jitter d)
            in rbind (rng_below draw (jitter_factor * 2)) (\<lambda>random.
               rbind (dur_clamp (jittered jitter_factor random duration) (ed_min d) (ed_max d)) (\<lambda>duration.
               Ok (Some \<lparr>rt_wait = Some duration, rt_total_allowed = rt_total_allowed state,
                         rt_attempt = next_attempt\<rparr>)))))"

section \<open>The contract of a decider\<close>

text \<open>\<open>RetryDecider\<close> as its clients use it; \<open>'r\<close> is what a call takes from outside.\<close>

lemma next_attempt:
  assumes "\<not> allowed \<le> (attempt :: u32)"
  shows "unat (u32_saturating_add attempt 1) = unat attempt + 1" "u32_saturating_add attempt 1 \<le> allowed"
proof -
  have less: "unat attempt < unat allowed" using assms by (simp add: not_le word_less_nat_alt)
  then have "unat attempt + 1 < 2 ^ 32" using unsigned_less [of allowed, where ?'a = nat] by simp
  then show u: "unat (u32_saturating_add attempt 1) = unat attempt + 1"
    by (simp add: u32_saturating_add_def unat_word_ariths)
  show "u32_saturating_add attempt 1 \<le> allowed" using less u by (simp add: word_le_nat_alt)
qed

locale retry_decider =
  fixes decide :: "'r \<Rightarrow> retry_state \<Rightarrow> (unit, retry_state option) result"
  assumes gives_up: "rt_total_allowed s \<le> rt_attempt s \<Longrightarrow> decide r s = Ok None"
    and goes_on: "decide r s = Ok (Some s') \<Longrightarrow> unat (rt_attempt s') = unat (rt_attempt s) + 1
      \<and> rt_total_allowed s' = rt_total_allowed s \<and> rt_wait s' \<noteq> None"
    and refuses_only_then: "decide r s = Ok None \<Longrightarrow> rt_total_allowed s \<le> rt_attempt s"
    and never_Err: "decide r s \<noteq> Err e"
begin

lemma attempt_within: "decide r s = Ok (Some s') \<Longrightarrow> rt_attempt s' \<le> rt_total_allowed s'"
proof -
  assume d: "decide r s = Ok (Some s')"
  then have "\<not> rt_total_allowed s \<le> rt_attempt s" using gives_up [of s r] by auto
  then show "rt_attempt s' \<le> rt_total_allowed s'" using goes_on [OF d] by (simp add: word_le_nat_alt)
qed

text \<open>Asked again and again, each time with the state it returned.\<close>

primrec retries :: "'r list \<Rightarrow> retry_state \<Rightarrow> (unit, retry_state option) result" where
  "retries [] s = Ok (Some s)"
| "retries (r # rs) s = rbind (decide r s) (\<lambda>next. case next of None \<Rightarrow> Ok None | Some s' \<Rightarrow> retries rs s')"

lemma retries_attempt:
  "retries rs s = Ok (Some s') \<Longrightarrow>
     unat (rt_attempt s') = unat (rt_attempt s) + length rs \<and> rt_total_allowed s' = rt_total_allowed s"
proof (induction rs arbitrary: s)
  case (Cons r rs)
  then obtain s1 where s1: "decide r s = Ok (Some s1)" "retries rs s1 = Ok (Some s')"
    by (auto simp: rbind_eq_Ok split: option.splits)
  then show ?case using Cons.IH [OF s1(2)] goes_on [OF s1(1)] by simp
qed simp

lemma retries_bounded:
  assumes "retries rs s = Ok (Some s')" "rt_attempt s \<le> rt_total_allowed s"
  shows "length rs \<le> unat (rt_total_allowed s) - unat (rt_attempt s)"
  using assms
proof (induction rs rule: rev_induct)
  case (snoc r rs)
  have app: "retries (rs @ [r]) t = rbind (retries rs t) (\<lambda>next. case next of None \<Rightarrow> Ok None | Some t' \<Rightarrow> decide r t')" for t
  proof (induction rs arbitrary: t)
    case Nil
    show ?case by (cases "decide r t") (auto split: option.split)
  next
    case (Cons r' rs)
    then show ?case by (cases "decide r' t") (auto split: option.split)
  qed
  obtain s1 where "retries rs s = Ok (Some s1)" "decide r s1 = Ok (Some s')"
    using snoc.prems(1) by (auto simp: app rbind_eq_Ok split: option.splits)
  then show ?case
    using retries_attempt [of rs s s1] retries_attempt [OF snoc.prems(1)] attempt_within [of r s1 s'] goes_on [of r s1 s']
    by (simp add: word_le_nat_alt)
qed simp

end

interpretation same: retry_decider "\<lambda>_. same_decide duration" for duration
  by unfold_locales (auto simp: same_decide_def Let_def next_attempt split: if_splits)

interpretation exponential: retry_decider "exponential_decide d" for d
  by unfold_locales
    (auto simp: exponential_decide_def Let_def next_attempt rbind_eq_Ok rng_below_def dur_clamp_def split: if_splits)

section \<open>What the deciders promise\<close>

lemma can_retry_exhausted: "can_retry s \<Longrightarrow> same_decide d s = Ok None \<and> exponential_decide e draw s = Ok None"
  by (simp add: can_retry_def same_decide_def exponential_decide_def)

text \<open>The jitter works on the duration times 100, saturated, and moves it up or down by at most its share of it.\<close>

lemma jittered_range:
  assumes "random < 2 * p"
  shows "(dur_saturating_mul d 100 - dur_saturating_mul d 100 * p div 100) div 100 \<le> jittered p random d"
    and "jittered p random d \<le> dur_saturating_add (dur_saturating_mul d 100) (dur_saturating_mul d 100 * p div 100) div 100"
proof -
  define w where "w = dur_saturating_mul d 100"
  have top: "w \<le> duration_max" by (simp add: w_def dur_saturating_mul_def)
  have share: "dur_saturating_mul w k div 100 \<le> w * p div 100" if "k \<le> p" for k
    using that by (simp add: dur_saturating_mul_def div_le_mono min_le_iff_disj)
  have "random div 2 \<le> p" using assms by linarith
  note up = share [OF this]
  have shape: "jittered p random d = (if random < p then w - dur_saturating_mul w random div 100
      else dur_saturating_add w (dur_saturating_mul w (random div 2) div 100)) div 100"
    by (simp add: jittered_def dur_saturating_sub_def Let_def flip: w_def)
  have "w - w * p div 100 \<le> w - dur_saturating_mul w random div 100"
    "w - dur_saturating_mul w random div 100 \<le> dur_saturating_add w (w * p div 100)" if "random < p"
    using share [of random] that top by (auto simp: dur_saturating_add_def diff_le_mono2 intro: le_trans [OF diff_le_self])
  moreover have "w - w * p div 100 \<le> dur_saturating_add w (dur_saturating_mul w (random div 2) div 100)"
    "dur_saturating_add w (dur_saturating_mul w (random div 2) div 100) \<le> dur_saturating_add w (w * p div 100)"
    using up top by (simp_all add: dur_saturating_add_def min_le_iff_disj le_diff_conv)
  ultimately show "(w - w * p div 100) div 100 \<le> jittered p random d"
    "jittered p random d \<le> dur_saturating_add w (w * p div 100) div 100"
    unfolding shape by (auto intro: div_le_mono)
qed

text \<open>C39: how long to wait. The attempt is counted on by one. Before attempt \<open>n\<close> the wait is the smallest duration
  times the factor to the \<open>n\<close>, the power saturated at the largest \<open>u32\<close> and the product at the longest duration;
  it is moved up or down by at most the percentage of the jitter, reckoned in hundredths that saturate at the
  longest duration too (\<open>w\<close>), and then brought within the two bounds, which it never leaves. Nothing is assumed
  but that the random generator keeps to its range; short of saturation the share is that of the wait itself.\<close>

theorem exponential_wait_bounds:
  assumes "exponential_decide d draw s = Ok (Some s')" "\<forall>n>0. draw n < n"
  shows "unat (rt_attempt s') = unat (rt_attempt s) + 1
    \<and> (let p = f32_percent (ed_jitter d);
           base = min (ed_min d * min (unat (ed_factor d) ^ unat (rt_attempt s')) (2 ^ 32 - 1)) duration_max;
           w = min (base * 100) duration_max in
       (base * 100 \<le> duration_max \<longrightarrow> (w - w * p div 100) div 100 = base * (100 - p) div 100
          \<and> (w + w * p div 100) div 100 = base * (100 + p) div 100)
       \<and> (\<exists>x wait. rt_wait s' = Some wait \<and> wait = max (ed_min d) (min x (ed_max d)) \<and> ed_min d \<le> wait \<and> wait \<le> ed_max d
            \<and> (w - w * p div 100) div 100 \<le> x \<and> x \<le> min (w + w * p div 100) duration_max div 100))"
proof -
  let ?p = "f32_percent (ed_jitter d)" and ?n = "u32_saturating_add (rt_attempt s) 1"
  have n: "rt_attempt s' = ?n" "\<not> rt_total_allowed s \<le> rt_attempt s" and p: "?p \<noteq> 0"
    and wait: "rbind (dur_clamp (jittered ?p (draw (?p * 2)) (dur_saturating_mul (ed_min d) (u32_saturating_pow (ed_factor d) ?n)))
        (ed_min d) (ed_max d)) (\<lambda>w. Ok (Some w)) = Ok (rt_wait s')"
    using assms(1) by (auto simp: exponential_decide_def rng_below_def rbind_eq_Ok Let_def split: if_splits)
  define base where "base = min (ed_min d * min (unat (ed_factor d) ^ unat (rt_attempt s')) (2 ^ 32 - 1)) duration_max"
  define w where "w = min (base * 100) duration_max"
  have pow: "dur_saturating_mul (ed_min d) (u32_saturating_pow (ed_factor d) ?n) = base"
    by (simp add: base_def n(1) dur_saturating_mul_def u32_saturating_pow_def)
  have "draw (?p * 2) < 2 * ?p" using assms(2) p by (metis mult.commute mult_pos_pos neq0_conv zero_less_numeral)
  note range = jittered_range [OF this, of base, unfolded dur_saturating_mul_def dur_saturating_add_def, folded w_def]
  define x where "x = jittered ?p (draw (?p * 2)) base"
  have x: "rt_wait s' = Some (max (ed_min d) (min x (ed_max d)))" "ed_min d \<le> ed_max d"
    using wait unfolding pow x_def by (auto simp: dur_clamp_def split: if_splits)
  have "(w - w * ?p div 100) div 100 = base * (100 - ?p) div 100 \<and> (w + w * ?p div 100) div 100 = base * (100 + ?p) div 100"
    if "base * 100 \<le> duration_max"
  proof -
    have "w = base * 100" "base * 100 * ?p div 100 = base * ?p" using that by (simp_all add: w_def)
    then show ?thesis by (simp add: diff_mult_distrib2 add_mult_distrib2)
  qed
  moreover have "\<exists>x wait. rt_wait s' = Some wait \<and> wait = max (ed_min d) (min x (ed_max d)) \<and> ed_min d \<le> wait \<and> wait \<le> ed_max d
      \<and> (w - w * ?p div 100) div 100 \<le> x \<and> x \<le> min (w + w * ?p div 100) duration_max div 100"
    using x range unfolding x_def [symmetric]
    by (intro exI [of _ x] exI [of _ "max (ed_min d) (min x (ed_max d))"]) simp
  moreover have "unat (rt_attempt s') = unat (rt_attempt s) + 1" using n next_attempt(1) [OF n(2)] by simp
  ultimately show ?thesis unfolding Let_def base_def [symmetric] w_def [symmetric] by blast
qed

text \<open>The percentage of two jitters: that of the default one, and that of one half of a hundredth.\<close>

lemma default_percent: "f32_percent DEFAULT_JITTER = 60"
proof -
  have "f32_exp DEFAULT_JITTER = 126" "f32_man DEFAULT_JITTER = 1677722"
    by (simp_all add: f32_exp_def f32_man_def DEFAULT_JITTER_def)
  moreover have "round_half_even 1006633000 6 = 15728641" by (simp add: round_half_even_def)
  ultimately show ?thesis by (simp add: f32_percent_def)
qed

lemma small_percent: "f32_percent 0x3BA3D70A = 0"
proof -
  have "f32_exp 0x3BA3D70A = 119" "f32_man 0x3BA3D70A = 2348810"
    by (simp_all add: f32_exp_def f32_man_def)
  moreover have "round_half_even 1073741800 6 = 16777216" by (simp add: round_half_even_def)
  ultimately show ?thesis by (simp add: f32_percent_def)
qed

text \<open>The default decider's first wait, for a draw of 59.\<close>

theorem exponential_wait_bounds_witness:
  "\<exists>wait. exponential_decide \<lparr>ed_factor = 3, ed_jitter = DEFAULT_JITTER, ed_min = DEFAULT_MIN_DURATION, ed_max = duration_max\<rparr>
      (\<lambda>n. if n = 120 then 59 else 0) (retry_state_new 0 2 None)
      = Ok (Some \<lparr>rt_wait = Some wait, rt_total_allowed = 2, rt_attempt = 1\<rparr>)
    \<and> 120000000 \<le> wait \<and> wait \<le> 480000000"
proof -
  let ?d = "\<lparr>ed_factor = 3, ed_jitter = DEFAULT_JITTER, ed_min = DEFAULT_MIN_DURATION, ed_max = duration_max\<rparr>"
    and ?draw = "\<lambda>n. if n = 120 then 59 else 0"
  have run: "exponential_decide ?d ?draw (retry_state_new 0 2 None)
      = Ok (Some \<lparr>rt_wait = Some 123000000, rt_total_allowed = 2, rt_attempt = 1\<rparr>)"
  proof -
    have "jittered 60 59 300000000 = 123000000"
      by (simp add: jittered_def dur_saturating_mul_def dur_saturating_sub_def duration_max_def)
    moreover have "u32_saturating_add 0 1 = 1" "u32_saturating_pow 3 1 = 3"
      by (simp_all add: u32_saturating_add_def u32_saturating_pow_def)
    moreover have "dur_saturating_mul 100000000 3 = 300000000" "dur_clamp 123000000 100000000 duration_max = Ok 123000000"
      by (simp_all add: dur_saturating_mul_def dur_clamp_def duration_max_def)
    ultimately show ?thesis
      by (simp add: exponential_decide_def retry_state_new_def rng_below_def default_percent DEFAULT_MIN_DURATION_def)
  qed
  show ?thesis
    using exponential_wait_bounds [OF run] run default_percent
    by (auto simp: DEFAULT_MIN_DURATION_def duration_max_def Let_def)
qed

text \<open>What the constructor accepts, the decider may choke on. \<open>new\<close> takes any jitter between 0 and 1 and any
  bounds; with a jitter of less than a hundredth, or a smallest duration above the largest, every \<open>decide\<close>
  that has an attempt left panics.\<close>

theorem accepted_decider_panics:
  assumes "exponential_new factor jitter low high = Ok d" "rt_attempt s < rt_total_allowed s"
    and "f32_percent jitter = 0 \<or> (\<exists>h. high = Some h \<and> h < low)"
  shows "exponential_decide d draw s = Panic"
proof -
  have d: "ed_jitter d = jitter" "ed_min d = low" "ed_max d = (case high of Some d \<Rightarrow> d | None \<Rightarrow> duration_max)"
    using assms(1) by (auto simp: exponential_new_def split: if_splits)
  have left: "\<not> rt_total_allowed s \<le> rt_attempt s" using assms(2) by simp
  show ?thesis
  proof (cases "f32_percent jitter = 0")
    case True
    then show ?thesis using left by (simp add: exponential_decide_def d rng_below_def)
  next
    case False
    then obtain h where "high = Some h" "\<not> low \<le> h" using assms(3) by auto
    then show ?thesis using left False by (simp add: exponential_decide_def d rng_below_def dur_clamp_def Let_def)
  qed
qed

theorem accepted_decider_panics_witness:
  "\<exists>d e. exponential_new 3 0x3BA3D70A 1000 None = Ok d \<and> exponential_decide d (\<lambda>_. 0) (retry_state_new 0 5 None) = Panic
    \<and> exponential_from_duration 40000 (Some 30000) = Ok e \<and> exponential_decide e (\<lambda>_. 0) (retry_state_new 0 5 None) = Panic"
proof -
  obtain d where d: "exponential_new 3 0x3BA3D70A 1000 None = Ok d"
    by (simp add: exponential_new_def jitter_ok_def)
  obtain e where e: "exponential_new DEFAULT_FACTOR DEFAULT_JITTER 40000 (Some 30000) = Ok e"
    by (simp add: exponential_new_def jitter_ok_def DEFAULT_JITTER_def)
  show ?thesis
    using accepted_decider_panics [OF d, of "retry_state_new 0 5 None" "\<lambda>_. 0"] d
      accepted_decider_panics [OF e, of "retry_state_new 0 5 None" "\<lambda>_. 0"] e small_percent
    by (simp add: retry_state_new_def exponential_from_duration_def)
qed

section \<open>\<open>SleepyMan\<close> and \<open>IdleMan\<close>\<close>

datatype sleepy_state = Sleepy_Init | Sleepy_Ongoing retry_state | Sleepy_Expired

record sleepy_man =
  sm_max_sleeps :: u32
  sm_last :: sleepy_state
  sm_decider :: exponential_decider

definition sleepy_new :: "u32 \<Rightarrow> exponential_decider \<Rightarrow> sleepy_man" where
  "sleepy_new max_idles decider = \<lparr>sm_max_sleeps = max_idles, sm_last = Sleepy_Init, sm_decider = decider\<rparr>"

definition sleepy_reset :: "sleepy_man \<Rightarrow> sleepy_man" where
  "sleepy_reset m = m\<lparr>sm_last := Sleepy_Init\<rparr>"

definition next_sleep :: "(nat \<Rightarrow> nat) \<Rightarrow> (sleepy_man, unit, sleepy_state) exec" where
  "next_sleep draw m =
     (case sm_last m of
        Sleepy_Init \<Rightarrow>
          (let s = Sleepy_Ongoing (retry_state_new 0 (sm_max_sleeps m) None) in (Ok s, m\<lparr>sm_last := s\<rparr>))
      | Sleepy_Ongoing retry_state \<Rightarrow>
          (case exponential_decide (sm_decider m) draw retry_state of
             Ok (Some inner) \<Rightarrow> (Ok (Sleepy_Ongoing inner), m\<lparr>sm_last := Sleepy_Ongoing inner\<rparr>)
           | Ok None \<Rightarrow> (Ok Sleepy_Expired, m\<lparr>sm_last := Sleepy_Expired\<rparr>)
           | Err e \<Rightarrow> (Err e, m)
           | Panic \<Rightarrow> (Panic, m))
      | Sleepy_Expired \<Rightarrow> (Ok Sleepy_Expired, m))"

record idle_man =
  im_sleepy :: sleepy_man
  im_counter :: u32
  im_base :: "nat option"
  im_max :: u32

definition DEFAULT_BASIC_SLEEP :: nat where "DEFAULT_BASIC_SLEEP = 10 * 1000000"
definition DEFAULT_MAX_SLEEP_COUNT :: u32 where "DEFAULT_MAX_SLEEP_COUNT = 5"

definition idle_new :: "u32 \<Rightarrow> nat option \<Rightarrow> sleepy_man \<Rightarrow> idle_man" where
  "idle_new max_idle base_sleep sleepy =
     \<lparr>im_sleepy = sleepy, im_counter = 0, im_base = base_sleep, im_max = max_idle\<rparr>"

definition idle_basic :: "u32 \<Rightarrow> (unit, idle_man) result" where
  "idle_basic max_idle =
     rbind exponential_default (\<lambda>d.
       Ok (idle_new max_idle (Some DEFAULT_BASIC_SLEEP) (sleepy_new DEFAULT_MAX_SLEEP_COUNT d)))"

text \<open>\<open>compare_exchange(max_idle, 0)\<close>.\<close>

definition try_reset :: "idle_man \<Rightarrow> bool \<times> idle_man" where
  "try_reset m = (if im_counter m = im_max m then (True, m\<lparr>im_counter := 0\<rparr>) else (False, m))"

definition increment :: "(nat \<Rightarrow> nat) \<Rightarrow> (idle_man, unit, nat option) exec" where
  "increment draw m =
     (if im_max m \<le> im_counter m then
        (case next_sleep draw (im_sleepy m) of
           (Ok (Sleepy_Ongoing retry_state), sleepy) \<Rightarrow>
             (Ok (case rt_wait retry_state of None \<Rightarrow> im_base m | Some inner \<Rightarrow> Some inner), m\<lparr>im_sleepy := sleepy\<rparr>)
         | (Ok Sleepy_Expired, sleepy) \<Rightarrow>
             (case try_reset (m\<lparr>im_sleepy := sleepy\<rparr>) of
                (done, m) \<Rightarrow>
                  if done then (Ok (im_base m), m\<lparr>im_sleepy := sleepy_reset (im_sleepy m)\<rparr>) else (Panic, m))
         | (Ok Sleepy_Init, sleepy) \<Rightarrow> (Panic, m\<lparr>im_sleepy := sleepy\<rparr>)
         | (Err e, sleepy) \<Rightarrow> (Err e, m\<lparr>im_sleepy := sleepy\<rparr>)
         | (Panic, sleepy) \<Rightarrow> (Panic, m\<lparr>im_sleepy := sleepy\<rparr>))
      else (Ok (im_base m), m\<lparr>im_counter := im_counter m + 1\<rparr>))"

text \<open>A decider that does not panic.\<close>

definition decider_ok :: "exponential_decider \<Rightarrow> bool" where
  "decider_ok d \<longleftrightarrow> f32_percent (ed_jitter d) \<noteq> 0 \<and> ed_min d \<le> ed_max d"

lemma decide_ok: "decider_ok d \<Longrightarrow> exponential_decide d draw s \<noteq> Panic"
  by (simp add: decider_ok_def exponential_decide_def rng_below_def dur_clamp_def Let_def)

lemma wait_within:
  assumes "exponential_decide d draw s = Ok (Some s')"
  shows "\<exists>w. rt_wait s' = Some w \<and> ed_min d \<le> w \<and> w \<le> ed_max d"
  using assms by (auto simp: exponential_decide_def rbind_eq_Ok dur_clamp_def Let_def split: if_splits)

text \<open>While an attempt is left the decider gives a wait within its bounds.\<close>

lemma decides_wait:
  assumes "decider_ok d" "rt_attempt s < rt_total_allowed s"
  obtains s' w where "exponential_decide d draw s = Ok (Some s')" "rt_wait s' = Some w" "ed_min d \<le> w" "w \<le> ed_max d"
proof -
  let ?d = "exponential_decide d draw s"
  have "?d \<noteq> Ok None" "?d \<noteq> Panic" "\<And>x. ?d \<noteq> Err x"
    using assms exponential.refuses_only_then [of d draw s] decide_ok [OF assms(1)] exponential.never_Err by auto
  then obtain s' where "?d = Ok (Some s')" by (cases ?d) auto
  with wait_within [OF this] that show thesis by blast
qed

lemma exponential_default_ok: "exponential_default = Ok d \<Longrightarrow> decider_ok d"
  using default_percent
  by (auto simp: exponential_default_def exponential_new_def decider_ok_def DEFAULT_MIN_DURATION_def duration_max_def
      split: if_splits)

text \<open>The invariant: the counter stays within its limit, and so does the number of sleeps.\<close>

definition idle_inv :: "idle_man \<Rightarrow> bool" where
  "idle_inv m \<longleftrightarrow> im_counter m \<le> im_max m \<and> decider_ok (sm_decider (im_sleepy m))
     \<and> (case sm_last (im_sleepy m) of
          Sleepy_Init \<Rightarrow> True
        | Sleepy_Ongoing s \<Rightarrow> rt_total_allowed s = sm_max_sleeps (im_sleepy m) \<and> rt_attempt s \<le> sm_max_sleeps (im_sleepy m)
        | Sleepy_Expired \<Rightarrow> False)"

lemma word_le_add_one: "\<not> b \<le> (a :: u32) \<Longrightarrow> a + 1 \<le> b"
  by (simp add: inc_le not_le)

lemma increment_inv:
  assumes "idle_inv m"
  shows "idle_inv (snd (increment draw m)) \<and> fst (increment draw m) \<noteq> Panic"
proof (cases "im_max m \<le> im_counter m")
  case False
  then show ?thesis
    using assms word_le_add_one by (auto simp: increment_def idle_inv_def split: sleepy_state.splits)
next
  case full: True
  then have counter: "im_counter m = im_max m" using assms by (auto simp: idle_inv_def)
  show ?thesis
  proof (cases "sm_last (im_sleepy m)")
    case Sleepy_Init
    then show ?thesis
      using assms full by (simp add: increment_def next_sleep_def idle_inv_def retry_state_new_def Let_def)
  next
    case (Sleepy_Ongoing s)
    let ?d = "exponential_decide (sm_decider (im_sleepy m)) draw s"
    have "?d \<noteq> Panic" "\<And>e. ?d \<noteq> Err e"
      using assms decide_ok exponential.never_Err by (auto simp: idle_inv_def)
    then obtain next' where d: "?d = Ok next'" by (cases ?d) auto
    show ?thesis
    proof (cases next')
      case None
      then show ?thesis
        using assms full counter Sleepy_Ongoing d
        by (simp add: increment_def next_sleep_def try_reset_def sleepy_reset_def idle_inv_def)
    next
      case (Some s')
      then show ?thesis
        using assms full Sleepy_Ongoing d exponential.attempt_within [of "sm_decider (im_sleepy m)" draw s s']
          exponential.goes_on [of "sm_decider (im_sleepy m)" draw s s']
        by (auto simp: increment_def next_sleep_def idle_inv_def)
    qed
  qed (use assms in \<open>simp add: idle_inv_def\<close>)
qed

lemma try_reset_inv: "idle_inv m \<Longrightarrow> idle_inv (snd (try_reset m))"
  by (auto simp: try_reset_def idle_inv_def split: sleepy_state.splits)

datatype idle_call = Increment "nat \<Rightarrow> nat" | TryReset

fun idle_run :: "idle_call list \<Rightarrow> idle_man \<Rightarrow> (unit, nat option) result list \<times> idle_man" where
  "idle_run [] m = ([], m)"
| "idle_run (Increment draw # cs) m =
     (case increment draw m of (r, m') \<Rightarrow> (case idle_run cs m' of (rs, m'') \<Rightarrow> (r # rs, m'')))"
| "idle_run (TryReset # cs) m = idle_run cs (snd (try_reset m))"

lemma idle_run_inv:
  "idle_inv m \<Longrightarrow> idle_inv (snd (idle_run cs m)) \<and> list_all (\<lambda>r. r \<noteq> Panic) (fst (idle_run cs m))"
proof (induction cs m rule: idle_run.induct)
  case (2 draw cs m)
  obtain r m' where step: "increment draw m = (r, m')" by (cases "increment draw m")
  then show ?case using "2.IH" [OF step [symmetric]] increment_inv [OF "2.prems", of draw] by (auto split: prod.splits)
qed (simp_all add: try_reset_inv)

text \<open>An \<open>IdleMan\<close> never fails. With a decider that does not panic, and the default one does not, neither
  the \<open>assert!\<close> nor the \<open>unreachable!\<close> of \<open>increment\<close> is ever reached, whatever is incremented, drawn
  and reset in between, and the idle count never passes its maximum.\<close>

theorem idle_man_never_fails:
  assumes "decider_ok d"
  shows "list_all (\<lambda>r. r \<noteq> Panic) (fst (idle_run cs (idle_new max_idle base (sleepy_new max_sleeps d))))
    \<and> im_counter (snd (idle_run cs (idle_new max_idle base (sleepy_new max_sleeps d)))) \<le> im_max (snd (idle_run cs (idle_new max_idle base (sleepy_new max_sleeps d))))"
proof -
  have "idle_inv (idle_new max_idle base (sleepy_new max_sleeps d))"
    using assms by (simp add: idle_inv_def idle_new_def sleepy_new_def)
  from idle_run_inv [OF this, of cs] show ?thesis by (simp add: idle_inv_def)
qed

theorem idle_man_never_fails_witness:
  "\<exists>d. exponential_default = Ok d \<and>
     list_all (\<lambda>r. r \<noteq> Panic) (fst (idle_run [Increment (\<lambda>_. 0), TryReset, Increment (\<lambda>_. 0)] (idle_new 1 None (sleepy_new 1 d))))"
proof -
  obtain d where "exponential_default = Ok d"
    by (simp add: exponential_default_def exponential_new_def jitter_ok_def DEFAULT_JITTER_def)
  then show ?thesis
    using idle_man_never_fails [OF exponential_default_ok, of d "[Increment (\<lambda>_. 0), TryReset, Increment (\<lambda>_. 0)]" 1 None 1] by blast
qed

end
