(* ===== verification/WsReconnect.thy ===== *)
theory WsReconnect
  imports WsTask Retries
begin

text \<open>
  The client that reconnects: \<open>ReconnectingWebSocketTask\<close> of
  \<open>foundation_core/src/wire/websocket/reconnecting_task.rs\<close>, a state machine around a \<open>WebSocketTask\<close> and a
  \<open>RetryDecider\<close>. A poll takes what the inner task takes, a reading of the clock and a random draw.
\<close>

section \<open>The state\<close>

datatype reconnect_progress = RP_Connecting | RP_Handshaking | RP_Reading | RP_Reconnecting

type_synonym reconnect_status = "((ws_error, ws_message) result, reconnect_progress) task_status"

record reconnecting_config =
  cf_url :: bytes
  cf_subprotocols :: "bytes option"
  cf_extra_headers :: "(bytes \<times> bytes) list"
  cf_max_retries :: u32
  cf_max_reconnect_duration :: "nat option"
  cf_read_timeout :: nat

datatype reconnecting_state = RS_Connected ws_task | RS_Waiting nat | RS_Reconnecting | RS_Exhausted

record reconnecting =
  rc_state :: "reconnecting_state option"
  rc_config :: reconnecting_config
  rc_retry_state :: retry_state
  rc_backoff :: exponential_decider
  rc_start_time :: "nat option"
  rc_delivery_queue :: "nat option"

record reconnect_env =
  re_task :: task_env
  re_now :: nat
  re_draw :: "nat \<Rightarrow> nat"

definition config_new :: "bytes \<Rightarrow> reconnecting_config" where
  "config_new url =
     \<lparr>cf_url = url, cf_subprotocols = None, cf_extra_headers = [], cf_max_retries = 5,
      cf_max_reconnect_duration = None, cf_read_timeout = 5 * 1000000000\<rparr>"

definition reconnecting_connect :: "reconnect_env \<Rightarrow> bytes \<Rightarrow> (ws_error, reconnecting) result" where
  "reconnecting_connect e url =
     (if \<not> te_parses (re_task e) url then Err WS_InvalidUrl
      else if \<not> te_is_ws (re_task e) url then Err WS_InvalidUrl
      else
        rbind (task_connect (re_task e) url) (\<lambda>inner.
        rbind (ok_or_panic (exponential_from_duration 1000000000 (Some (30 * 1000000000)))) (\<lambda>backoff.
        Ok \<lparr>rc_state = Some (RS_Connected inner), rc_config = config_new url, rc_retry_state = retry_state_new 0 5 None,
            rc_backoff = backoff, rc_start_time = Some (re_now e), rc_delivery_queue = None\<rparr>)))"

definition with_max_retries :: "u32 \<Rightarrow> reconnecting \<Rightarrow> reconnecting" where
  "with_max_retries max_retries c =
     c\<lparr>rc_config := (rc_config c)\<lparr>cf_max_retries := max_retries\<rparr>, rc_retry_state := retry_state_new 0 max_retries None\<rparr>"

definition with_max_reconnect_duration :: "nat \<Rightarrow> reconnecting \<Rightarrow> reconnecting" where
  "with_max_reconnect_duration duration c = c\<lparr>rc_config := (rc_config c)\<lparr>cf_max_reconnect_duration := Some duration\<rparr>\<rparr>"

definition with_backoff :: "exponential_decider \<Rightarrow> reconnecting \<Rightarrow> reconnecting" where
  "with_backoff backoff c = c\<lparr>rc_backoff := backoff\<rparr>"

definition rc_with_subprotocol :: "bytes \<Rightarrow> reconnecting \<Rightarrow> reconnecting" where
  "rc_with_subprotocol protocol c = c\<lparr>rc_config := (rc_config c)\<lparr>cf_subprotocols := Some protocol\<rparr>\<rparr>"

definition rc_with_header :: "bytes \<Rightarrow> bytes \<Rightarrow> reconnecting \<Rightarrow> reconnecting" where
  "rc_with_header name val c =
     c\<lparr>rc_config := (rc_config c)\<lparr>cf_extra_headers := cf_extra_headers (rc_config c) @ [(name, val)]\<rparr>\<rparr>"

definition with_read_timeout :: "nat \<Rightarrow> reconnecting \<Rightarrow> reconnecting" where
  "with_read_timeout timeout c = c\<lparr>rc_config := (rc_config c)\<lparr>cf_read_timeout := timeout\<rparr>\<rparr>"

definition with_delivery_queue :: "nat \<Rightarrow> reconnecting \<Rightarrow> reconnecting" where
  "with_delivery_queue queue c = c\<lparr>rc_delivery_queue := Some queue\<rparr>"

section \<open>One poll\<close>

definition create_inner_task :: "reconnect_env \<Rightarrow> reconnecting \<Rightarrow> ws_task option" where
  "create_inner_task e c =
     (case task_connect (re_task e) (cf_url (rc_config c)) of
        Ok task \<Rightarrow>
          (let task = (case cf_subprotocols (rc_config c) of Some p \<Rightarrow> with_subprotocol p task | None \<Rightarrow> task)
           in Some (fold (\<lambda>(name, val). with_header name val) (cf_extra_headers (rc_config c)) task))
      | _ \<Rightarrow> None)"

text \<open>The inner task has ended: give up, or wait.\<close>

definition inner_closed :: "reconnect_env \<Rightarrow> (reconnecting, unit, reconnect_status option) exec" where
  "inner_closed e c =
     (if (case (cf_max_reconnect_duration (rc_config c), rc_start_time c) of
            (Some max_duration, Some start) \<Rightarrow> max_duration < re_now e - start
          | _ \<Rightarrow> False)
      then (Ok None, c\<lparr>rc_state := Some RS_Exhausted\<rparr>)
      else
        (case exponential_decide (rc_backoff c) (re_draw e) (rc_retry_state c) of
           Ok (Some next_retry) \<Rightarrow>
             (Ok (Some (Status_Pending RP_Reconnecting)),
              c\<lparr>rc_retry_state := next_retry,
                rc_state := Some (RS_Waiting (case rt_wait next_retry of Some w \<Rightarrow> w | None \<Rightarrow> 1000000000))\<rparr>)
         | Ok None \<Rightarrow> (Ok None, c\<lparr>rc_state := Some RS_Exhausted\<rparr>)
         | Err err \<Rightarrow> (Err err, c\<lparr>rc_state := None\<rparr>)
         | Panic \<Rightarrow> (Panic, c\<lparr>rc_state := None\<rparr>)))"

definition rc_next_status :: "reconnect_env \<Rightarrow> (reconnecting, unit, reconnect_status option) exec" where
  "rc_next_status e c =
     (case rc_state c of
        None \<Rightarrow> (Ok None, c)
      | Some (RS_Connected inner) \<Rightarrow>
          (case next_status (re_task e) inner of
             (r, inner) \<Rightarrow>
               (let again = c\<lparr>rc_state := Some (RS_Connected inner)\<rparr>
                in (case r of
                      Ok (Some (Status_Ready msg_result)) \<Rightarrow>
                        (Ok (Some (Status_Ready msg_result)),
                         again\<lparr>rc_retry_state := retry_state_new 0 (cf_max_retries (rc_config c)) None\<rparr>)
                    | Ok (Some (Status_Pending progress)) \<Rightarrow>
                        (Ok (Some (Status_Pending (case progress of
                             WP_Connecting \<Rightarrow> RP_Connecting | WP_Handshaking \<Rightarrow> RP_Handshaking | WP_Reading \<Rightarrow> RP_Reading))), again)
                    | Ok (Some (Status_Delayed d)) \<Rightarrow> (Ok (Some (Status_Delayed d)), again)
                    | Ok (Some Status_Spawn) \<Rightarrow> (Ok (Some Status_Spawn), again)
                    | Ok (Some Status_Init) \<Rightarrow> (Ok (Some Status_Init), again)
                    | Ok (Some Status_Ignore) \<Rightarrow> (Ok (Some Status_Ignore), again)
                    | Ok None \<Rightarrow> inner_closed e (c\<lparr>rc_state := None\<rparr>)
                    | Err err \<Rightarrow> (Err err, c\<lparr>rc_state := None\<rparr>)
                    | Panic \<Rightarrow> (Panic, c\<lparr>rc_state := None\<rparr>))))
      | Some (RS_Waiting duration) \<Rightarrow>
          (Ok (Some (Status_Delayed duration)), c\<lparr>rc_state := Some RS_Reconnecting\<rparr>)
      | Some RS_Reconnecting \<Rightarrow>
          (case create_inner_task e c of
             Some inner \<Rightarrow> (Ok (Some (Status_Pending RP_Connecting)), c\<lparr>rc_state := Some (RS_Connected inner)\<rparr>)
           | None \<Rightarrow> (Ok None, c\<lparr>rc_state := Some RS_Exhausted\<rparr>))
      | Some RS_Exhausted \<Rightarrow> (Ok None, c\<lparr>rc_state := None\<rparr>))"

abbreviation rc_polls :: "reconnect_env list \<Rightarrow> reconnecting \<Rightarrow> (unit, reconnect_status option) result list \<times> reconnecting" where
  "rc_polls \<equiv> poll_all rc_next_status"

section \<open>No inner task has a queue\<close>

definition rc_not_ready :: "(unit, reconnect_status option) result \<Rightarrow> bool" where
  "rc_not_ready r = (case r of Ok (Some (Status_Ready _)) \<Rightarrow> False | _ \<Rightarrow> True)"

definition rc_queueless :: "reconnecting \<Rightarrow> bool" where
  "rc_queueless c \<longleftrightarrow> (\<forall>t. rc_state c = Some (RS_Connected t) \<longrightarrow> queueless_task t)"

text \<open>The attempts that are left, for a client that never resets them: each costs one.\<close>

definition attempts_left :: "reconnecting \<Rightarrow> nat" where
  "attempts_left c = unat (rt_total_allowed (rc_retry_state c)) - unat (rt_attempt (rc_retry_state c))"

definition pending_attempt :: "reconnecting \<Rightarrow> nat" where
  "pending_attempt c = (case rc_state c of Some (RS_Waiting _) \<Rightarrow> 1 | Some RS_Reconnecting \<Rightarrow> 1 | _ \<Rightarrow> 0)"

definition is_attempt :: "reconnecting \<Rightarrow> nat" where
  "is_attempt c = (if rc_state c = Some RS_Reconnecting then 1 else 0)"

abbreviation attempts :: "reconnect_env list \<Rightarrow> reconnecting \<Rightarrow> nat" where
  "attempts \<equiv> cost_all rc_next_status is_attempt"

lemma connect_queueless: "task_connect e url = Ok t \<Longrightarrow> queueless_task t"
  by (auto simp: task_connect_def queueless_task_def queueless_def split: if_splits)

lemma with_header_queueless: "queueless_task t \<Longrightarrow> queueless_task (with_header n v t)"
  by (auto simp: with_header_def queueless_task_def queueless_def split: option.split task_state.split)

lemma with_headers_queueless: "queueless_task t \<Longrightarrow> queueless_task (fold (\<lambda>(n, v). with_header n v) hs t)"
  by (induction hs arbitrary: t) (auto simp: with_header_queueless)

lemma with_subprotocol_queueless: "queueless_task t \<Longrightarrow> queueless_task (with_subprotocol p t)"
  by (auto simp: with_subprotocol_def queueless_task_def queueless_def split: option.split task_state.split)

lemma create_inner_queueless: "create_inner_task e c = Some t \<Longrightarrow> queueless_task t"
  by (auto simp: create_inner_task_def Let_def connect_queueless with_headers_queueless with_subprotocol_queueless
      split: result.splits option.splits)

lemma inner_closed_left:
  assumes "rc_state c = None"
  shows "rc_not_ready (fst (inner_closed e c)) \<and> rc_queueless (snd (inner_closed e c))
    \<and> attempts_left (snd (inner_closed e c)) + pending_attempt (snd (inner_closed e c)) \<le> attempts_left c"
proof (cases "exponential_decide (rc_backoff c) (re_draw e) (rc_retry_state c)")
  case (Ok next')
  show ?thesis
  proof (cases next')
    case (Some s')
    have "unat (rt_attempt s') \<le> unat (rt_total_allowed s')"
      using exponential.attempt_within [of "rc_backoff c" "re_draw e" "rc_retry_state c" s'] Ok Some
      by (simp add: word_le_nat_alt)
    then show ?thesis
      using assms Ok Some exponential.goes_on [of "rc_backoff c" "re_draw e" "rc_retry_state c" s']
      by (auto simp: inner_closed_def rc_not_ready_def rc_queueless_def attempts_left_def pending_attempt_def)
  qed (use assms Ok in \<open>simp add: inner_closed_def rc_not_ready_def rc_queueless_def attempts_left_def pending_attempt_def\<close>)
qed (use assms in \<open>simp_all add: inner_closed_def rc_not_ready_def rc_queueless_def attempts_left_def pending_attempt_def\<close>)

lemma rc_step:
  assumes "rc_queueless c"
  shows "rc_not_ready (fst (rc_next_status e c)) \<and> rc_queueless (snd (rc_next_status e c))
    \<and> is_attempt c + attempts_left (snd (rc_next_status e c)) + pending_attempt (snd (rc_next_status e c))
        \<le> attempts_left c + pending_attempt c"
proof (cases "\<exists>t. rc_state c = Some (RS_Connected t)")
  case True
  then obtain t where t: "rc_state c = Some (RS_Connected t)" "queueless_task t"
    using assms by (auto simp: rc_queueless_def)
  obtain r t' where step: "next_status (re_task e) t = (r, t')" by (cases "next_status (re_task e) t")
  have inner: "not_ready r" "queueless_task t'" using queueless_step [OF t(2), of "re_task e"] step by simp_all
  have idle: "is_attempt c = 0" "pending_attempt c = 0" using t(1) by (simp_all add: is_attempt_def pending_attempt_def)
  show ?thesis
  proof (cases "r = Ok None")
    case True
    then show ?thesis
      using t step idle inner_closed_left [of "c\<lparr>rc_state := None\<rparr>" e]
      by (simp add: rc_next_status_def attempts_left_def)
  next
    case False
    then show ?thesis
      using t step idle inner
      by (cases r)
        (auto simp: rc_next_status_def rc_not_ready_def not_ready_def rc_queueless_def attempts_left_def pending_attempt_def
          split: option.splits task_status.splits)
  qed
next
  case False
  then show ?thesis
    using assms create_inner_queueless [of e c]
    by (auto simp: rc_next_status_def rc_not_ready_def rc_queueless_def is_attempt_def attempts_left_def pending_attempt_def
        split: option.splits reconnecting_state.splits)
qed

interpretation rc: budgeted rc_next_status rc_queueless rc_not_ready is_attempt "\<lambda>c. attempts_left c + pending_attempt c" "\<lambda>_. 0"
  using rc_step by unfold_locales (simp_all add: add.assoc)

lemma reconnecting_connect_queueless:
  assumes "reconnecting_connect e url = Ok c"
  shows "rc_queueless c" "rc_retry_state c = retry_state_new 0 5 None" "pending_attempt c = 0"
  using assms connect_queueless
  by (auto simp: reconnecting_connect_def rbind_eq_Ok rc_queueless_def pending_attempt_def split: if_splits)

text \<open>The reconnecting client never delivers. Every inner task is made without the delivery queue, the one
  given to \<open>with_delivery_queue\<close> included, so no poll ever reports a message or an error, and the
  connections it makes after the first are never more than the retries it was allowed.\<close>

theorem reconnecting_never_delivers:
  assumes "reconnecting_connect e0 url = Ok c"
    and "c' = with_delivery_queue queue (with_max_retries max_retries c)"
  shows "list_all rc_not_ready (fst (rc_polls es c')) \<and> attempts es c' \<le> unat max_retries"
proof -
  have "rc_queueless c'" "attempts_left c' = unat max_retries" "pending_attempt c' = 0"
    using reconnecting_connect_queueless [OF assms(1)] assms(2)
    by (auto simp: rc_queueless_def with_delivery_queue_def with_max_retries_def attempts_left_def retry_state_new_def
        pending_attempt_def)
  then show ?thesis using rc.poll_all_good [of c' es] rc.within_budget [of c' es] by (simp add: sum_list_0)
qed

section \<open>Giving up\<close>

text \<open>Everything refuses: the pool never connects.\<close>

definition refusing :: "bytes \<Rightarrow> reconnect_env \<Rightarrow> bool" where
  "refusing url e \<longleftrightarrow> te_parses (re_task e) url \<and> te_is_ws (re_task e) url \<and> (\<forall>u. te_connect (re_task e) u = None)"

definition fresh_inner :: "bytes \<Rightarrow> ws_task \<Rightarrow> bool" where
  "fresh_inner url t \<longleftrightarrow> (\<exists>info. wt_state t = Some (TS_Init info) \<and> ci_url info = url)"

lemma with_headers_fresh: "fresh_inner url t \<Longrightarrow> fresh_inner url (fold (\<lambda>(n, v). with_header n v) hs t)"
  by (induction hs arbitrary: t) (auto simp: with_header_def fresh_inner_def)

lemma create_inner_fresh:
  assumes "refusing (cf_url (rc_config c)) e"
  obtains t where "create_inner_task e c = Some t" "fresh_inner (cf_url (rc_config c)) t"
proof -
  obtain t0 where t0: "task_connect (re_task e) (cf_url (rc_config c)) = Ok t0" "fresh_inner (cf_url (rc_config c)) t0"
    using assms by (auto simp: task_connect_def refusing_def fresh_inner_def)
  then have "fresh_inner (cf_url (rc_config c)) (case cf_subprotocols (rc_config c) of Some p \<Rightarrow> with_subprotocol p t0 | None \<Rightarrow> t0)"
    by (auto simp: with_subprotocol_def fresh_inner_def split: option.split)
  then show thesis using that t0(1) with_headers_fresh by (simp add: create_inner_task_def)
qed

definition delays :: "(unit, reconnect_status option) result list \<Rightarrow> nat list" where
  "delays rs = [d. Ok (Some (Status_Delayed d)) \<leftarrow> rs]"

text \<open>Two polls of a fresh inner task: it is told that it cannot connect, and the client moves on.\<close>

lemma refused_connection:
  assumes "rc_state c = Some (RS_Connected t)" "fresh_inner url t" "refusing url e1" "refusing url e2"
  obtains c0 where "rc_next_status e1 c = (Ok (Some (Status_Pending RP_Connecting)), c0)"
    "rc_next_status e2 c0 = inner_closed e2 (c\<lparr>rc_state := None\<rparr>)"
proof -
  obtain info where info: "wt_state t = Some (TS_Init info)" "ci_url info = url" using assms(2) by (auto simp: fresh_inner_def)
  obtain t1 where t1: "next_status (re_task e1) t = (Ok (Some (Status_Pending WP_Connecting)), t1)"
      "fst (next_status (re_task e2) t1) = Ok None"
    using info assms(3,4) by (simp add: next_status_def poll_init_def poll_connecting_def refusing_def)
  obtain t2 where t2: "next_status (re_task e2) t1 = (Ok None, t2)"
    using t1(2) by (cases "next_status (re_task e2) t1") simp
  show thesis
    by (rule that [of "c\<lparr>rc_state := Some (RS_Connected t1)\<rparr>"]) (use assms(1) t1(1) t2 in \<open>simp_all add: rc_next_status_def\<close>)
qed

text \<open>A client at the beginning of a connection, with \<open>n\<close> attempts left after it.\<close>

definition rc_trying :: "bytes \<Rightarrow> exponential_decider \<Rightarrow> nat \<Rightarrow> reconnecting \<Rightarrow> bool" where
  "rc_trying url d n c \<longleftrightarrow> (\<exists>t. rc_state c = Some (RS_Connected t) \<and> fresh_inner url t) \<and> cf_url (rc_config c) = url \<and>
     rc_backoff c = d \<and> decider_ok d \<and> cf_max_reconnect_duration (rc_config c) = None \<and> attempts_left c = n \<and>
     rt_attempt (rc_retry_state c) \<le> rt_total_allowed (rc_retry_state c)"

definition rc_waits :: "(unit, reconnect_status option) result \<Rightarrow> nat list" where
  "rc_waits r = (case r of Ok (Some (Status_Delayed d)) \<Rightarrow> [d] | _ \<Rightarrow> [])"

lemma delays_waits: "delays rs = concat (map rc_waits rs)"
  by (induction rs) (auto simp: delays_def rc_waits_def split: result.splits option.splits task_status.splits)

lemma rc_gives_up:
  assumes "rc_trying url d 0 c" "list_all (refusing url) [e1, e2]"
  shows "rc_state (snd (rc_polls [e1, e2] c)) = Some RS_Exhausted \<and> concat (map rc_waits (fst (rc_polls [e1, e2] c))) = [] \<and>
    last (fst (rc_polls [e1, e2] c)) = Ok None"
proof -
  obtain t where t: "rc_state c = Some (RS_Connected t)" "fresh_inner url t" using assms(1) by (auto simp: rc_trying_def)
  obtain c0 where c0: "rc_next_status e1 c = (Ok (Some (Status_Pending RP_Connecting)), c0)"
      "rc_next_status e2 c0 = inner_closed e2 (c\<lparr>rc_state := None\<rparr>)"
    using refused_connection [OF t] assms(2) by auto
  have "exponential_decide (rc_backoff c) (re_draw e2) (rc_retry_state c) = Ok None"
    using assms(1) by (intro exponential.gives_up) (simp add: rc_trying_def attempts_left_def word_le_nat_alt)
  then show ?thesis using c0 assms(1) by (simp add: inner_closed_def rc_waits_def rc_trying_def)
qed

lemma rc_tries_again:
  assumes "rc_trying url d (Suc n) c" "list_all (refusing url) [e1, e2, e3, e4]"
  shows "rc_trying url d n (snd (rc_polls [e1, e2, e3, e4] c)) \<and>
    (\<exists>w. (ed_min d \<le> w \<and> w \<le> ed_max d) \<and> concat (map rc_waits (fst (rc_polls [e1, e2, e3, e4] c))) = [w])"
proof -
  obtain t where t: "rc_state c = Some (RS_Connected t)" "fresh_inner url t" using assms(1) by (auto simp: rc_trying_def)
  obtain c0 where c0: "rc_next_status e1 c = (Ok (Some (Status_Pending RP_Connecting)), c0)"
      "rc_next_status e2 c0 = inner_closed e2 (c\<lparr>rc_state := None\<rparr>)"
    using refused_connection [OF t] assms(2) by auto
  obtain s' w where s': "exponential_decide (rc_backoff c) (re_draw e2) (rc_retry_state c) = Ok (Some s')"
    "rt_wait s' = Some w" "ed_min (rc_backoff c) \<le> w" "w \<le> ed_max (rc_backoff c)"
    by (rule decides_wait [of "rc_backoff c" "rc_retry_state c" "re_draw e2"])
      (use assms(1) in \<open>auto simp: rc_trying_def attempts_left_def word_less_nat_alt\<close>)
  let ?c2 = "c\<lparr>rc_retry_state := s', rc_state := Some (RS_Waiting w)\<rparr>"
  let ?c3 = "?c2\<lparr>rc_state := Some RS_Reconnecting\<rparr>"
  have e2: "rc_next_status e2 c0 = (Ok (Some (Status_Pending RP_Reconnecting)), ?c2)"
    using c0(2) s' assms(1) by (simp add: inner_closed_def rc_trying_def)
  have e3: "rc_next_status e3 ?c2 = (Ok (Some (Status_Delayed w)), ?c3)" by (simp add: rc_next_status_def)
  obtain t' where t': "create_inner_task e4 ?c3 = Some t'" "fresh_inner url t'"
    using create_inner_fresh [of ?c3 e4] assms by (auto simp: rc_trying_def)
  have e4: "rc_next_status e4 ?c3 = (Ok (Some (Status_Pending RP_Connecting)), ?c3\<lparr>rc_state := Some (RS_Connected t')\<rparr>)"
    using t'(1) by (simp add: rc_next_status_def)
  have "unat (rt_total_allowed s') - unat (rt_attempt s') = n" "rt_attempt s' \<le> rt_total_allowed s'"
    using exponential.goes_on [OF s'(1)] exponential.attempt_within [OF s'(1)] assms(1)
    by (auto simp: rc_trying_def attempts_left_def)
  then show ?thesis
    using assms(1) c0(1) e2 e3 e4 t' s' by (simp add: rc_trying_def attempts_left_def rc_waits_def)
qed

interpretation rc_cycle: retry_cycle rc_next_status "rc_trying url d" "\<lambda>c. rc_state c = Some RS_Exhausted" "refusing url" rc_waits
  "\<lambda>w. ed_min d \<le> w \<and> w \<le> ed_max d" "Ok None" for url d
  by unfold_locales (rule rc_tries_again rc_gives_up; assumption)+

lemma reconnecting_connect_state:
  assumes "reconnecting_connect e url = Ok c"
  shows "\<exists>t. rc_state c = Some (RS_Connected t) \<and> fresh_inner url t" "rc_config c = config_new url"
    "decider_ok (rc_backoff c)" "ed_min (rc_backoff c) = 1000000000" "ed_max (rc_backoff c) = 30000000000"
  using assms default_percent
  by (auto simp: reconnecting_connect_def rbind_eq_Ok task_connect_def fresh_inner_def exponential_from_duration_def
      exponential_new_def decider_ok_def jitter_ok_def DEFAULT_JITTER_def split: if_splits)

text \<open>C36: the reconnecting client gives up, in time. When no connection can be made, a client allowed \<open>n\<close> retries
  ends after exactly \<open>4 * n + 2\<close> polls, whatever is drawn; it has waited \<open>n\<close> times, each time between one and
  thirty seconds.\<close>

theorem reconnecting_gives_up:
  assumes "reconnecting_connect e0 url = Ok c" "c' = with_max_retries max_retries c"
    and "list_all (refusing url) es" "length es = 4 * unat max_retries + 2"
  shows "last (fst (rc_polls es c')) = Ok None \<and> rc_state (snd (rc_polls es c')) = Some RS_Exhausted
    \<and> length (delays (fst (rc_polls es c'))) = unat max_retries
    \<and> list_all (\<lambda>d. 1000000000 \<le> d \<and> d \<le> 30000000000) (delays (fst (rc_polls es c')))"
proof -
  obtain t where t: "rc_state c' = Some (RS_Connected t)" "fresh_inner (cf_url (rc_config c')) t"
    using reconnecting_connect_state(1,2) [OF assms(1)] assms(2) by (auto simp: with_max_retries_def config_new_def)
  note rest = reconnecting_connect_state(2-5) [OF assms(1)]
  have facts: "cf_url (rc_config c') = url" "rc_backoff c' = rc_backoff c" "cf_max_reconnect_duration (rc_config c') = None"
      "attempts_left c' = unat max_retries" "rt_attempt (rc_retry_state c') \<le> rt_total_allowed (rc_retry_state c')"
    using assms(2) rest(1) by (simp_all add: with_max_retries_def config_new_def attempts_left_def retry_state_new_def)
  show ?thesis
    using rc_cycle.ends [of url "rc_backoff c" "unat max_retries" c' es] t facts assms(3,4) rest
    by (simp add: rc_trying_def delays_waits)
qed

definition refusing_env :: reconnect_env where
  "refusing_env = \<lparr>re_task = demo_env\<lparr>te_connect := \<lambda>_. None\<rparr>, re_now = 0, re_draw = (\<lambda>_. 0)\<rparr>"

lemma demo_reconnecting: "\<exists>c. reconnecting_connect refusing_env [119] = Ok c"
  by (simp add: reconnecting_connect_def task_connect_def refusing_env_def demo_env_def exponential_from_duration_def
      exponential_new_def jitter_ok_def DEFAULT_JITTER_def)

theorem reconnecting_gives_up_witness:
  "\<exists>c. reconnecting_connect refusing_env [119] = Ok c
    \<and> last (fst (rc_polls (replicate 10 refusing_env) (with_max_retries 2 c))) = Ok None
    \<and> length (delays (fst (rc_polls (replicate 10 refusing_env) (with_max_retries 2 c)))) = 2"
proof -
  obtain c where c: "reconnecting_connect refusing_env [119] = Ok c" using demo_reconnecting by blast
  have "list_all (refusing [119]) (replicate 10 refusing_env)"
    by (simp add: list_all_iff refusing_def refusing_env_def demo_env_def)
  with reconnecting_gives_up [OF c refl this, of 2] c show ?thesis by auto
qed

theorem reconnecting_never_delivers_witness:
  "\<exists>c. reconnecting_connect refusing_env [119] = Ok c
    \<and> list_all rc_not_ready (fst (rc_polls [refusing_env, refusing_env] (with_delivery_queue 7 (with_max_retries 2 c))))
    \<and> attempts [refusing_env, refusing_env] (with_delivery_queue 7 (with_max_retries 2 c)) \<le> 2"
proof -
  obtain c where c: "reconnecting_connect refusing_env [119] = Ok c" using demo_reconnecting by blast
  with reconnecting_never_delivers [OF c refl, of "[refusing_env, refusing_env]" 7 2] show ?thesis by simp
qed

end
