(* ===== verification/EventSource.thy ===== *)
theory EventSource
  imports Streams Utf8
begin

text \<open>
  Server-sent events, of \<open>foundation_core/src/wire/event_source\<close>: what the server writes (\<open>core.rs\<close>,
  \<open>writer.rs\<close>) and how the client parses it (\<open>parser.rs\<close>), over the line reader of
  \<open>foundation_core/src/io/ioutils\<close>. A string is its UTF-8 bytes. The unread bytes of the reader's buffer
  are kept apart from what is still to arrive; how much is pulled at a time only moves that border.
\<close>

definition lit :: "string \<Rightarrow> bytes" where
  "lit s = map of_char s"

section \<open>Events\<close>

datatype event =
    Message "bytes option" "bytes option" bytes "u64 option"
  | Comment bytes
  | Reconnect

record parse_result =
  pr_event :: event
  pr_last_known_id :: "bytes option"

fun event_id :: "event \<Rightarrow> bytes option" where
  "event_id (Message i _ _ _) = i"
| "event_id _ = None"

record out_event =
  oe_id :: "bytes option"
  oe_type :: "bytes option"
  oe_data :: "bytes list"
  oe_retry :: "u64 option"

definition sse_message :: "bytes \<Rightarrow> out_event" where
  "sse_message d = \<lparr>oe_id = None, oe_type = None, oe_data = [d], oe_retry = None\<rparr>"

definition sse_retry :: "u64 \<Rightarrow> out_event" where
  "sse_retry ms = \<lparr>oe_id = None, oe_type = None, oe_data = [], oe_retry = Some ms\<rparr>"

text \<open>\<open>SseEventBuilder\<close>: what \<open>build\<close> makes of the identifier, the type and the data given to it.\<close>

definition sse_build :: "bytes option \<Rightarrow> bytes option \<Rightarrow> bytes list \<Rightarrow> out_event" where
  "sse_build i ty d = \<lparr>oe_id = i, oe_type = ty, oe_data = d, oe_retry = None\<rparr>"

section \<open>Writing\<close>

fun decimal :: "nat \<Rightarrow> bytes" where
  "decimal n = (if n < 10 then [of_nat (48 + n)] else decimal (n div 10) @ [of_nat (48 + n mod 10)])"

declare decimal.simps [simp del]

definition write_field :: "string \<Rightarrow> bytes \<Rightarrow> (writer, io_kind, unit) exec" where
  "write_field name v = bind (write_all (lit name)) (\<lambda>_. bind (write_all v) (\<lambda>_. write_all [10]))"

fun write_data :: "bytes list \<Rightarrow> (writer, io_kind, unit) exec" where
  "write_data [] = ret ()"
| "write_data (d # ds) = bind (write_field ''data: '' d) (\<lambda>_. write_data ds)"

definition when_some :: "'a option \<Rightarrow> ('a \<Rightarrow> (writer, io_kind, unit) exec) \<Rightarrow> (writer, io_kind, unit) exec" where
  "when_some x f = (case x of Some a \<Rightarrow> f a | None \<Rightarrow> ret ())"

definition sse_send :: "out_event \<Rightarrow> (writer, io_kind, unit) exec" where
  "sse_send e =
     bind (when_some (oe_type e) (write_field ''event: '')) (\<lambda>_.
     bind (when_some (oe_id e) (write_field ''id: '')) (\<lambda>_.
     bind (when_some (oe_retry e) (\<lambda>r. write_field ''retry: '' (decimal (unat r)))) (\<lambda>_.
     bind (write_data (oe_data e)) (\<lambda>_.
     bind (write_all [10]) (\<lambda>_. flush_writer)))))"

definition sse_comment :: "bytes \<Rightarrow> (writer, io_kind, unit) exec" where
  "sse_comment c = bind (write_field '': '' c) (\<lambda>_. flush_writer)"

section \<open>Reading lines\<close>

text \<open>A byte that is not part of valid UTF-8 is taken for the character of its number.\<close>

definition latin1 :: "u8 \<Rightarrow> bytes" where
  "latin1 b = (if b < 0x80 then [b] else [0xC0 OR drop_bit 6 b, 0x80 OR (b AND 0x3F)])"

definition cut_line :: "bytes \<Rightarrow> bytes \<times> bytes" where
  "cut_line buf = (takeWhile (\<lambda>b. b \<noteq> 10) buf @ [10], tl (dropWhile (\<lambda>b. b \<noteq> 10) buf))"

text \<open>Up to the next line break, or all there is at the end of the stream, with whether there was one.\<close>

fun next_until :: "bytes \<Rightarrow> reader \<Rightarrow> (io_kind, bytes \<times> bool) result \<times> bytes \<times> reader" where
  "next_until buf es =
     (if 10 \<in> set buf then (case cut_line buf of (l, rest) \<Rightarrow> (Ok (l, True), rest, es))
      else (case es of
          [] \<Rightarrow> (Ok (buf, False), [], [])
        | Fault k # es' \<Rightarrow> (Err k, buf, es')
        | Chunk bs # es' \<Rightarrow> if bs = [] then (Ok (buf, False), [], es') else next_until (buf @ bs) es'))"

declare next_until.simps [simp del]

record sse_parser =
  sp_buffer :: bytes
  sp_reader :: reader
  sp_last_event_id :: "bytes option"

definition sse_parser_new :: "reader \<Rightarrow> sse_parser" where
  "sse_parser_new r = \<lparr>sp_buffer = [], sp_reader = r, sp_last_event_id = None\<rparr>"

definition read_line :: "(sse_parser, io_kind, bytes) exec" where
  "read_line p = (case next_until (sp_buffer p) (sp_reader p) of
     (r, buf, es) \<Rightarrow>
       (case r of
          Ok (l, True) \<Rightarrow> Ok (if utf8_valid l then l else concat (map latin1 l))
        | Ok (l, False) \<Rightarrow> Ok l
        | Err k \<Rightarrow> Err k
        | Panic \<Rightarrow> Panic,
        p\<lparr>sp_buffer := buf, sp_reader := es\<rparr>))"

section \<open>Parsing\<close>

record event_builder =
  eb_id :: "bytes option"
  eb_event_type :: "bytes option"
  eb_data :: "bytes list"
  eb_retry :: "u64 option"

definition event_builder_new :: event_builder where
  "event_builder_new = \<lparr>eb_id = None, eb_event_type = None, eb_data = [], eb_retry = None\<rparr>"

text \<open>\<open>str::parse::<u64>\<close>: digits after an optional plus sign, as long as the number fits.\<close>

definition parse_digits :: "bytes \<Rightarrow> nat" where
  "parse_digits ds = foldl (\<lambda>n d. 10 * n + (unat d - 48)) 0 ds"

definition parse_u64 :: "bytes \<Rightarrow> u64 option" where
  "parse_u64 s =
     (let ds = (case s of b # bs \<Rightarrow> if b = 43 then bs else s | [] \<Rightarrow> [])
      in if ds = [] \<or> \<not> list_all (\<lambda>d. 48 \<le> d \<and> d \<le> 57) ds \<or> parse_digits ds \<ge> 2 ^ 64 then None
         else Some (of_nat (parse_digits ds)))"

definition process_field :: "bytes \<Rightarrow> bytes \<Rightarrow> event_builder \<Rightarrow> event_builder" where
  "process_field field v b =
     (if field = lit ''id'' \<and> 0 \<notin> set v then b\<lparr>eb_id := Some v\<rparr>
      else if field = lit ''event'' then b\<lparr>eb_event_type := Some v\<rparr>
      else if field = lit ''data'' then b\<lparr>eb_data := eb_data b @ [v]\<rparr>
      else if field = lit ''retry'' then (case parse_u64 v of Some ms \<Rightarrow> b\<lparr>eb_retry := Some ms\<rparr> | None \<Rightarrow> b)
      else b)"

fun join_lines :: "bytes list \<Rightarrow> bytes" where
  "join_lines [] = []"
| "join_lines [d] = d"
| "join_lines (d # ds) = d @ [10] @ join_lines ds"

definition build_event :: "event_builder \<Rightarrow> event option" where
  "build_event b = (if eb_data b = [] then None
     else Some (Message (eb_id b) (eb_event_type b) (join_lines (eb_data b)) (eb_retry b)))"

definition build_parse_result :: "event \<Rightarrow> (sse_parser, io_kind, parse_result option) exec" where
  "build_parse_result e p =
     (let p' = (case event_id e of Some i \<Rightarrow> p\<lparr>sp_last_event_id := Some i\<rparr> | None \<Rightarrow> p)
      in (Ok (Some \<lparr>pr_event = e, pr_last_known_id = sp_last_event_id p'\<rparr>), p'))"

text \<open>\<open>str::trim_start\<close> by the white space of Unicode.\<close>

fun white_start :: "bytes \<Rightarrow> nat" where
  "white_start (b # bs) =
     (if b = 32 \<or> (9 \<le> b \<and> b \<le> 13) then 1
      else (case bs of
         c # cs \<Rightarrow>
           if b = 0xC2 \<and> (c = 0x85 \<or> c = 0xA0) then 2
           else (case cs of
              d # _ \<Rightarrow>
                if (b = 0xE1 \<and> c = 0x9A \<and> d = 0x80) \<or>
                   (b = 0xE2 \<and> c = 0x80 \<and> ((0x80 \<le> d \<and> d \<le> 0x8A) \<or> d = 0xA8 \<or> d = 0xA9 \<or> d = 0xAF)) \<or>
                   (b = 0xE2 \<and> c = 0x81 \<and> d = 0x9F) \<or> (b = 0xE3 \<and> c = 0x80 \<and> d = 0x80)
                then 3 else 0
            | [] \<Rightarrow> 0)
       | [] \<Rightarrow> 0))"
| "white_start [] = 0"

function trim_start :: "bytes \<Rightarrow> bytes" where
  "trim_start s = (if white_start s = 0 \<or> s = [] then s else trim_start (drop (white_start s) s))"
  by auto
termination
  by (relation "measure length") auto

declare trim_start.simps [simp del]

text \<open>The line without its end: one line feed, then one carriage return.\<close>

definition pop_end :: "u8 \<Rightarrow> bytes \<Rightarrow> bytes" where
  "pop_end b l = (if l \<noteq> [] \<and> last l = b then butlast l else l)"

definition line_body :: "bytes \<Rightarrow> bytes" where
  "line_body l = pop_end 13 (pop_end 10 l)"

definition field_line :: "bytes \<Rightarrow> event_builder \<Rightarrow> event_builder" where
  "field_line l b =
     (if 58 \<in> set l then
        (let v = tl (dropWhile (\<lambda>x. x \<noteq> 58) l)
         in process_field (takeWhile (\<lambda>x. x \<noteq> 58) l) (case v of x # xs \<Rightarrow> if x = 32 then xs else v | [] \<Rightarrow> []) b)
      else b)"

text \<open>The bytes the parser has not looked at.\<close>

definition unread :: "sse_parser \<Rightarrow> bytes" where
  "unread p = sp_buffer p @ delivery (sp_reader p)"

lemma has_line: "(10::u8) \<in> set buf \<Longrightarrow> \<exists>l rest. buf = l @ 10 # rest \<and> 10 \<notin> set l"
  by (rule split_list_first)

lemma cut_line_found:
  assumes "10 \<notin> set l"
  shows "cut_line (l @ 10 # rest) = (l @ [10], rest)"
proof -
  have "\<forall>x\<in>set l. x \<noteq> 10" using assms by auto
  then show ?thesis by (simp add: cut_line_def takeWhile_append2 dropWhile_append2)
qed

text \<open>Each line read is taken off the unread bytes, so that reading lines ends.\<close>

lemma next_until_takes:
  "next_until buf es = (Ok (l, found), buf', es') \<Longrightarrow>
   length l + length buf' + length (delivery es') = length buf + length (delivery es)"
proof (induction buf es rule: next_until.induct)
  case (1 buf es)
  show ?case
  proof (cases "10 \<in> set buf")
    case True
    then obtain k rest where "buf = k @ 10 # rest" "10 \<notin> set k" using has_line by blast
    then show ?thesis using "1.prems" True by (auto simp: next_until.simps [of "k @ 10 # rest"] cut_line_found)
  next
    case False
    show ?thesis
    proof (cases es)
      case Nil
      then show ?thesis using "1.prems" False by (simp add: next_until.simps [of buf])
    next
      case (Cons e es1)
      then show ?thesis using "1.prems" "1.IH" False
        by (cases e) (auto simp: next_until.simps [of buf] split: if_splits)
    qed
  qed
qed

lemma read_line_takes:
  assumes "read_line p = (Ok l, p')"
  shows "length (unread p') \<le> length (unread p)" "l \<noteq> [] \<Longrightarrow> length (unread p') < length (unread p)"
proof -
  obtain r buf es where n: "next_until (sp_buffer p) (sp_reader p) = (r, buf, es)" by (cases "next_until (sp_buffer p) (sp_reader p)")
  then obtain k found where r: "r = Ok (k, found)" using assms by (cases r) (auto simp: read_line_def)
  have p': "p' = p\<lparr>sp_buffer := buf, sp_reader := es\<rparr>" using assms n by (simp add: read_line_def)
  have k: "0 < length k" if "l \<noteq> []" using assms n r that by (auto simp: read_line_def split: bool.splits if_splits)
  have "length k + length (unread p') = length (unread p)"
    using next_until_takes [OF n [unfolded r]] p' by (simp add: unread_def)
  then show "length (unread p') \<le> length (unread p)" "l \<noteq> [] \<Longrightarrow> length (unread p') < length (unread p)"
    using k by linarith+
qed

text \<open>What one line does to the event that is being put together.\<close>

datatype line_outcome = Goes_On event_builder | Ends_With event

definition line_effect :: "bytes \<Rightarrow> event_builder \<Rightarrow> line_outcome" where
  "line_effect raw b =
     (let l = line_body raw
      in if l = [] then (case build_event b of Some e \<Rightarrow> Ends_With e | None \<Rightarrow> Goes_On event_builder_new)
         else if hd l = 58 then Ends_With (Comment (trim_start (tl l)))
         else Goes_On (field_line l b))"

function parse_loop :: "event_builder \<Rightarrow> (sse_parser, io_kind, parse_result option) exec" where
  "parse_loop b p =
     (case read_line p of
        (Ok raw, p') \<Rightarrow>
          (if raw = [] then
             (case build_event b of Some e \<Rightarrow> build_parse_result e p' | None \<Rightarrow> (Ok None, p'))
           else
             (case line_effect raw b of
                Ends_With e \<Rightarrow> build_parse_result e p'
              | Goes_On b' \<Rightarrow> parse_loop b' p'))
      | (Err k, p') \<Rightarrow> (Err k, p')
      | (Panic, p') \<Rightarrow> (Panic, p'))"
  by pat_completeness auto
termination
  by (relation "measure (\<lambda>(b, p). length (unread p))") (auto intro: read_line_takes(2) [OF sym])

declare parse_loop.simps [simp del]

definition sse_parse_next :: "(sse_parser, io_kind, parse_result option) exec" where
  "sse_parse_next p = parse_loop event_builder_new p"

text \<open>The iterator.\<close>

definition sse_next :: "sse_parser \<Rightarrow> (io_kind, parse_result) result option \<times> sse_parser" where
  "sse_next p = (case sse_parse_next p of
     (Ok (Some x), p') \<Rightarrow> (Some (Ok x), p')
   | (Ok None, p') \<Rightarrow> (None, p')
   | (Err k, p') \<Rightarrow> (Some (Err k), p')
   | (Panic, p') \<Rightarrow> (Some Panic, p'))"

section \<open>Lines that arrive\<close>

lemma first_break_unique:
  "k @ 10 # r = l @ 10 # s \<Longrightarrow> 10 \<notin> set k \<Longrightarrow> 10 \<notin> set l \<Longrightarrow> k = l \<and> r = s" for k l :: bytes
proof (induction k arbitrary: l)
  case Nil
  then show ?case by (cases l) auto
next
  case (Cons x k)
  then show ?case by (cases l) auto
qed

lemma next_until_line:
  "arrives es \<Longrightarrow> buf @ delivery es = l @ 10 # rest \<Longrightarrow> 10 \<notin> set l \<Longrightarrow>
   \<exists>buf' es'. next_until buf es = (Ok (l @ [10], True), buf', es') \<and> buf' @ delivery es' = rest \<and> arrives es'"
proof (induction es arbitrary: buf)
  case Nil
  then show ?case using cut_line_found [of l rest] by (auto simp: next_until.simps [of "l @ 10 # rest"])
next
  case (Cons e es)
  show ?case
  proof (cases "10 \<in> set buf")
    case True
    then obtain k r where k: "buf = k @ 10 # r" "10 \<notin> set k" using has_line by blast
    then have "k @ 10 # (r @ delivery (e # es)) = l @ 10 # rest" using Cons.prems(2) by simp
    then have "k = l" "r @ delivery (e # es) = rest" using first_break_unique k(2) Cons.prems(3) by blast+
    then show ?thesis using k Cons.prems(1,3) by (simp add: next_until.simps [of "l @ 10 # r"] cut_line_found)
  next
    case False
    obtain bs where e: "e = Chunk bs" "bs \<noteq> []" using Cons.prems(1) by (cases e) auto
    then have "(buf @ bs) @ delivery es = l @ 10 # rest" using Cons.prems(2) by simp
    from Cons.IH [OF _ this Cons.prems(3)] Cons.prems(1) e False show ?thesis
      by (simp add: next_until.simps [of buf])
  qed
qed

lemma next_until_end:
  "arrives es \<Longrightarrow> 10 \<notin> set (buf @ delivery es) \<Longrightarrow> next_until buf es = (Ok (buf @ delivery es, False), [], [])"
proof (induction es arbitrary: buf)
  case (Cons e es)
  obtain bs where "e = Chunk bs" "bs \<noteq> []" using Cons.prems(1) by (cases e) auto
  then show ?case using Cons by (simp add: next_until.simps [of buf])
qed (simp add: next_until.simps)

text \<open>A parser that has these bytes left and this identifier.\<close>

definition has_left :: "sse_parser \<Rightarrow> bytes \<Rightarrow> bytes option \<Rightarrow> bool" where
  "has_left p bs i \<longleftrightarrow> arrives (sp_reader p) \<and> unread p = bs \<and> sp_last_event_id p = i"

lemma read_line_line:
  assumes "has_left p (l @ 10 # rest) i" "10 \<notin> set l" "utf8_valid l"
  shows "\<exists>p'. read_line p = (Ok (l @ [10]), p') \<and> has_left p' rest i"
proof -
  obtain buf es where n: "next_until (sp_buffer p) (sp_reader p) = (Ok (l @ [10], True), buf, es)"
    "buf @ delivery es = rest" "arrives es"
    using next_until_line [of "sp_reader p" "sp_buffer p" l rest] assms by (auto simp: has_left_def unread_def)
  have "utf8_valid (l @ [10])" using utf8_valid_append [OF assms(3)] by simp
  then show ?thesis using n assms(1) by (simp add: read_line_def has_left_def unread_def)
qed

lemma read_line_end:
  assumes "has_left p bs i" "10 \<notin> set bs"
  shows "\<exists>p'. read_line p = (Ok bs, p') \<and> has_left p' [] i"
  using assms next_until_end [of "sp_reader p" "sp_buffer p"] by (auto simp: read_line_def has_left_def unread_def)

section \<open>What the parser makes of the lines\<close>

text \<open>Parsing on from \<open>b\<close> with \<open>bs\<close> left and identifier \<open>i\<close> gives \<open>r\<close> and leaves \<open>bs'\<close> and \<open>i'\<close>.\<close>

definition parses :: "event_builder \<Rightarrow> bytes \<Rightarrow> bytes option \<Rightarrow> (io_kind, parse_result option) result \<Rightarrow> bytes \<Rightarrow> bytes option \<Rightarrow> bool" where
  "parses b bs i r bs' i' \<longleftrightarrow> (\<forall>p. has_left p bs i \<longrightarrow> (\<exists>p'. parse_loop b p = (r, p') \<and> has_left p' bs' i'))"

lemma parses_goes_on:
  assumes "line_effect (l @ [10]) b = Goes_On b'" "10 \<notin> set l" "utf8_valid l" "parses b' rest i r bs' i'"
  shows "parses b (l @ 10 # rest) i r bs' i'"
  unfolding parses_def
proof (intro allI impI)
  fix p assume "has_left p (l @ 10 # rest) i"
  then obtain p1 where "read_line p = (Ok (l @ [10]), p1)" "has_left p1 rest i"
    using read_line_line assms(2,3) by blast
  then show "\<exists>p'. parse_loop b p = (r, p') \<and> has_left p' bs' i'"
    using assms(1,4) by (simp add: parse_loop.simps [of b p] parses_def)
qed

lemma parses_ends:
  assumes "line_effect (l @ [10]) b = Ends_With e" "10 \<notin> set l" "utf8_valid l"
    and "i' = (case event_id e of Some x \<Rightarrow> Some x | None \<Rightarrow> i)"
  shows "parses b (l @ 10 # rest) i (Ok (Some \<lparr>pr_event = e, pr_last_known_id = i'\<rparr>)) rest i'"
  unfolding parses_def
proof (intro allI impI)
  fix p assume "has_left p (l @ 10 # rest) i"
  then obtain p1 where "read_line p = (Ok (l @ [10]), p1)" "has_left p1 rest i"
    using read_line_line assms(2,3) by blast
  then show "\<exists>p'. parse_loop b p = (Ok (Some \<lparr>pr_event = e, pr_last_known_id = i'\<rparr>), p') \<and> has_left p' rest i'"
    using assms(1,4)
    by (auto simp: parse_loop.simps [of b p] build_parse_result_def has_left_def unread_def split: option.split)
qed

lemma parses_nothing: "parses event_builder_new [] i (Ok None) [] i"
  unfolding parses_def
proof (intro allI impI)
  fix p assume "has_left p [] i"
  then obtain p1 where "read_line p = (Ok [], p1)" "has_left p1 [] i" using read_line_end by fastforce
  then show "\<exists>p'. parse_loop event_builder_new p = (Ok None, p') \<and> has_left p' [] i"
    by (simp add: parse_loop.simps [of _ p] build_event_def event_builder_new_def)
qed

lemma utf8_break: "utf8_valid [10]" "utf8_valid []" by simp_all

lemma line_effect_blank:
  "line_effect [10] b = (case build_event b of Some e \<Rightarrow> Ends_With e | None \<Rightarrow> Goes_On event_builder_new)"
  by (simp add: line_effect_def line_body_def pop_end_def)

lemma parses_blank_message:
  assumes "build_event b = Some e"
  shows "parses b (10 # rest) i (Ok (Some \<lparr>pr_event = e, pr_last_known_id = case event_id e of Some x \<Rightarrow> Some x | None \<Rightarrow> i\<rparr>))
    rest (case event_id e of Some x \<Rightarrow> Some x | None \<Rightarrow> i)"
  using parses_ends [of "[]" b e _ i rest] assms by (simp add: line_effect_blank)

lemma parses_blank_nothing:
  "build_event b = None \<Longrightarrow> parses event_builder_new rest i r bs' i' \<Longrightarrow> parses b (10 # rest) i r bs' i'"
  using parses_goes_on [of "[]" b event_builder_new rest] by (simp add: line_effect_blank)

text \<open>A value that fits on a line: no line feed in it, no carriage return at its end.\<close>

definition one_line :: "bytes \<Rightarrow> bool" where
  "one_line v \<longleftrightarrow> utf8_valid v \<and> 10 \<notin> set v \<and> (v \<noteq> [] \<longrightarrow> last v \<noteq> 13)"

lemma line_body_plain: "l = [] \<or> last l \<noteq> 13 \<Longrightarrow> line_body (l @ [10]) = l"
  by (auto simp: line_body_def pop_end_def)

definition field_name :: "bytes \<Rightarrow> bool" where
  "field_name n \<longleftrightarrow> n \<noteq> [] \<and> 58 \<notin> set n \<and> 10 \<notin> set n \<and> utf8_valid n"

lemma line_effect_field:
  assumes "field_name n" "one_line v"
  shows "line_effect ((n @ 58 # 32 # v) @ [10]) b = Goes_On (process_field n v b)"
proof -
  have nc: "\<forall>x\<in>set n. x \<noteq> 58" using assms(1) by (auto simp: field_name_def)
  have body: "line_body ((n @ 58 # 32 # v) @ [10]) = n @ 58 # 32 # v"
    using assms(2) by (intro line_body_plain) (auto simp: one_line_def)
  have h: "hd (n @ 58 # 32 # v) \<noteq> 58" using assms(1) nc by (simp add: field_name_def)
  have "field_line (n @ 58 # 32 # v) b = process_field n v b"
    using nc by (simp add: field_line_def takeWhile_append2 dropWhile_append2)
  then show ?thesis unfolding line_effect_def body using h by simp
qed

lemma parses_field:
  assumes "field_name n" "one_line v" "parses (process_field n v b) rest i r bs' i'"
  shows "parses b (n @ 58 # 32 # v @ 10 # rest) i r bs' i'"
proof -
  have "utf8_valid (n @ 58 # 32 # v)" "10 \<notin> set (n @ 58 # 32 # v)"
    using assms(1,2) by (auto simp: field_name_def one_line_def utf8_valid_append)
  from parses_goes_on [OF line_effect_field [OF assms(1,2)] this(2,1) assms(3)] show ?thesis by simp
qed

lemma field_names: "field_name (lit ''event'')" "field_name (lit ''id'')" "field_name (lit ''retry'')" "field_name (lit ''data'')"
  by (simp_all add: field_name_def lit_def of_char_def)

section \<open>What the writer puts out\<close>

definition field_bytes :: "bytes \<Rightarrow> bytes \<Rightarrow> bytes" where
  "field_bytes n v = n @ 58 # 32 # v @ [10]"

definition option_bytes :: "bytes \<Rightarrow> bytes option \<Rightarrow> bytes" where
  "option_bytes n x = (case x of Some v \<Rightarrow> field_bytes n v | None \<Rightarrow> [])"

definition sse_bytes :: "out_event \<Rightarrow> bytes" where
  "sse_bytes e = option_bytes (lit ''event'') (oe_type e) @ option_bytes (lit ''id'') (oe_id e) @
     option_bytes (lit ''retry'') (map_option (\<lambda>r. decimal (unat r)) (oe_retry e)) @
     concat (map (field_bytes (lit ''data'')) (oe_data e)) @ [10]"

text \<open>\<open>puts m bs\<close>: when \<open>m\<close> succeeds it has put out \<open>bs\<close>.\<close>

definition puts :: "(writer, io_kind, unit) exec \<Rightarrow> bytes \<Rightarrow> bool" where
  "puts m bs \<longleftrightarrow> (\<forall>w w'. m w = (Ok (), w') \<longrightarrow> w_out w' = w_out w @ bs)"

lemma puts_bind: "puts m a \<Longrightarrow> puts k b \<Longrightarrow> puts (bind m (\<lambda>_. k)) (a @ b)"
  by (auto simp: puts_def bind_eq_Ok)

lemma puts_ret: "puts (ret ()) []"
  by (simp add: puts_def ret_def)

lemma puts_all: "puts (write_all bs) bs"
  using write_all_Ok by (auto simp: puts_def)

lemma puts_flush: "puts flush_writer []"
  using flush_writer_out by (auto simp: puts_def)

lemma lit_append: "lit (s @ t) = lit s @ lit t"
  by (simp add: lit_def)

lemma puts_field: "puts (write_field (n @ '': '') v) (field_bytes (lit n) v)"
proof -
  have "lit '': '' = [58, 32]" by (simp add: lit_def of_char_def)
  then have "field_bytes (lit n) v = lit (n @ '': '') @ v @ [10]" by (simp add: field_bytes_def lit_append)
  then show ?thesis unfolding write_field_def by (simp only:) (intro puts_bind puts_all)
qed

lemma puts_when: "(\<And>a. x = Some a \<Longrightarrow> puts (f a) (g a)) \<Longrightarrow> puts (when_some x f) (case x of Some a \<Rightarrow> g a | None \<Rightarrow> [])"
  by (cases x) (simp_all add: when_some_def puts_ret)

lemma puts_data: "puts (write_data ds) (concat (map (field_bytes (lit ''data'')) ds))"
  using puts_field [of "''data''"] by (induction ds) (auto intro: puts_bind puts_ret)

lemma puts_send: "puts (sse_send e) (sse_bytes e)"
proof -
  have t: "puts (when_some (oe_type e) (write_field ''event: '')) (option_bytes (lit ''event'') (oe_type e))"
    and i: "puts (when_some (oe_id e) (write_field ''id: '')) (option_bytes (lit ''id'') (oe_id e))"
    using puts_field [of "''event''"] puts_field [of "''id''"] unfolding option_bytes_def by (auto intro: puts_when)
  have r: "puts (when_some (oe_retry e) (\<lambda>r. write_field ''retry: '' (decimal (unat r))))
      (option_bytes (lit ''retry'') (map_option (\<lambda>r. decimal (unat r)) (oe_retry e)))"
    using puts_field [of "''retry''"] by (cases "oe_retry e") (auto simp: option_bytes_def when_some_def puts_ret)
  have e: "[10] = [10] @ ([] :: bytes)" by simp
  show ?thesis unfolding sse_send_def sse_bytes_def
    by (subst e) (intro puts_bind t i r puts_data puts_all puts_flush)
qed

section \<open>Numbers\<close>

lemma parse_digits_snoc: "parse_digits (ds @ [d]) = 10 * parse_digits ds + (unat d - 48)"
  by (simp add: parse_digits_def)

lemma digit_word: "k < 10 \<Longrightarrow> unat (of_nat (48 + k) :: u8) = 48 + k"
  by (simp add: unat_of_nat del: of_nat_add)

lemma decimal_digits:
  "decimal n \<noteq> [] \<and> list_all (\<lambda>d. 48 \<le> d \<and> d \<le> 57) (decimal n) \<and> parse_digits (decimal n) = n"
proof (induction n rule: decimal.induct)
  case (1 n)
  have digit: "48 \<le> (of_nat (48 + k) :: u8) \<and> (of_nat (48 + k) :: u8) \<le> 57" if "k < 10" for k
    using digit_word [OF that] that by (simp add: word_le_nat_alt)
  show ?case
  proof (cases "n < 10")
    case True
    then show ?thesis using digit [of n] digit_word [of n]
      by (simp add: decimal.simps [of n] parse_digits_def del: of_nat_add)
  next
    case False
    then show ?thesis using 1 digit [of "n mod 10"] digit_word [of "n mod 10"]
      by (simp add: decimal.simps [of n] parse_digits_snoc del: of_nat_add)
  qed
qed

lemma parse_decimal: "parse_u64 (decimal (unat r)) = Some r"
proof -
  note d = decimal_digits [of "unat r"]
  obtain x xs where x: "decimal (unat r) = x # xs" using d by (cases "decimal (unat r)") auto
  then have "x \<noteq> 43" using d by auto
  moreover have "unat r < 2 ^ 64" using unsigned_less [of r] by simp
  ultimately show ?thesis using d x by (simp add: parse_u64_def)
qed

lemma decimal_one_line: "one_line (decimal n)"
proof -
  have "list_all (\<lambda>d. 48 \<le> d \<and> d \<le> 57) ds \<Longrightarrow> utf8_valid ds \<and> 10 \<notin> set ds \<and> 13 \<notin> set ds" for ds :: bytes
    by (induction ds) (auto simp: word_le_nat_alt word_less_nat_alt)
  then have "utf8_valid (decimal n) \<and> 10 \<notin> set (decimal n) \<and> 13 \<notin> set (decimal n)" using decimal_digits by blast
  then show ?thesis unfolding one_line_def by (metis last_in_set)
qed

section \<open>From the writer to the parser\<close>

lemma parses_option:
  assumes "field_name n" "\<And>v. x = Some v \<Longrightarrow> one_line v"
    and "parses (case x of Some v \<Rightarrow> process_field n v b | None \<Rightarrow> b) rest i r bs' i'"
  shows "parses b (option_bytes n x @ rest) i r bs' i'"
  using parses_field [OF assms(1)] assms(2,3) by (cases x) (auto simp: option_bytes_def field_bytes_def)

lemma process_data: "process_field (lit ''data'') d b = b\<lparr>eb_data := eb_data b @ [d]\<rparr>"
  by (simp add: process_field_def lit_def of_char_def)

lemma parses_data:
  "(\<And>d. d \<in> set ds \<Longrightarrow> one_line d) \<Longrightarrow> parses (b\<lparr>eb_data := eb_data b @ ds\<rparr>) rest i r bs' i' \<Longrightarrow>
   parses b (concat (map (field_bytes (lit ''data'')) ds) @ rest) i r bs' i'"
proof (induction ds arbitrary: b)
  case (Cons d ds)
  have "parses (b\<lparr>eb_data := eb_data b @ [d]\<rparr>) (concat (map (field_bytes (lit ''data'')) ds) @ rest) i r bs' i'"
    using Cons by simp
  then have "parses b (lit ''data'' @ 58 # 32 # d @ 10 # (concat (map (field_bytes (lit ''data'')) ds) @ rest)) i r bs' i'"
    using Cons.prems(1) by (intro parses_field [OF field_names(4)]) (simp_all only: process_data list.set_intros)
  moreover have "field_bytes (lit ''data'') d = lit ''data'' @ 58 # 32 # d @ [10]" by (rule field_bytes_def)
  ultimately show ?case by simp
qed simp

lemma process_names:
  "process_field (lit ''event'') v b = b\<lparr>eb_event_type := Some v\<rparr>"
  "0 \<notin> set v \<Longrightarrow> process_field (lit ''id'') v b = b\<lparr>eb_id := Some v\<rparr>"
  "process_field (lit ''retry'') v b = (case parse_u64 v of Some ms \<Rightarrow> b\<lparr>eb_retry := Some ms\<rparr> | None \<Rightarrow> b)"
  by (simp_all add: process_field_def lit_def of_char_def)

text \<open>Events whose strings each fit on a line, with an identifier that has no NUL.\<close>

definition fits_lines :: "out_event \<Rightarrow> bool" where
  "fits_lines e \<longleftrightarrow> (\<forall>v. oe_type e = Some v \<longrightarrow> one_line v) \<and> (\<forall>v. oe_id e = Some v \<longrightarrow> one_line v \<and> 0 \<notin> set v) \<and>
     (\<forall>d\<in>set (oe_data e). one_line d)"

definition builder_of :: "out_event \<Rightarrow> event_builder" where
  "builder_of e = \<lparr>eb_id = oe_id e, eb_event_type = oe_type e, eb_data = oe_data e, eb_retry = oe_retry e\<rparr>"

lemma parses_event:
  assumes "fits_lines e" "parses (builder_of e) (10 # rest) i r bs' i'"
  shows "parses event_builder_new (sse_bytes e @ rest) i r bs' i'"
proof -
  define b1 where "b1 = event_builder_new\<lparr>eb_event_type := oe_type e\<rparr>"
  define b2 where "b2 = b1\<lparr>eb_id := oe_id e\<rparr>"
  define b3 where "b3 = b2\<lparr>eb_retry := oe_retry e\<rparr>"
  have s1: "(case oe_type e of Some v \<Rightarrow> process_field (lit ''event'') v event_builder_new | None \<Rightarrow> event_builder_new) = b1"
    by (auto simp: b1_def event_builder_new_def process_names split: option.split)
  have s2: "(case oe_id e of Some v \<Rightarrow> process_field (lit ''id'') v b1 | None \<Rightarrow> b1) = b2"
    using assms(1) by (auto simp: b1_def b2_def event_builder_new_def process_names fits_lines_def split: option.split)
  have s3: "(case map_option (\<lambda>r. decimal (unat r)) (oe_retry e) of
      Some v \<Rightarrow> process_field (lit ''retry'') v b2 | None \<Rightarrow> b2) = b3"
    by (auto simp: b1_def b2_def b3_def event_builder_new_def process_names parse_decimal split: option.split)
  have s4: "b3\<lparr>eb_data := eb_data b3 @ oe_data e\<rparr> = builder_of e"
    by (simp add: b1_def b2_def b3_def event_builder_new_def builder_of_def)
  have p3: "parses b3 (concat (map (field_bytes (lit ''data'')) (oe_data e)) @ 10 # rest) i r bs' i'"
    using assms by (intro parses_data) (auto simp: s4 fits_lines_def)
  have "parses b2 (option_bytes (lit ''retry'') (map_option (\<lambda>r. decimal (unat r)) (oe_retry e)) @
      concat (map (field_bytes (lit ''data'')) (oe_data e)) @ 10 # rest) i r bs' i'"
    by (rule parses_option [OF field_names(3)]) (use p3 in \<open>auto simp only: s3 decimal_one_line map_option_eq_Some\<close>)
  then have "parses b1 (option_bytes (lit ''id'') (oe_id e) @
      option_bytes (lit ''retry'') (map_option (\<lambda>r. decimal (unat r)) (oe_retry e)) @
      concat (map (field_bytes (lit ''data'')) (oe_data e)) @ 10 # rest) i r bs' i'"
    using assms(1) by - (rule parses_option [OF field_names(2)], auto simp: s2 fits_lines_def)
  then have "parses event_builder_new (option_bytes (lit ''event'') (oe_type e) @ option_bytes (lit ''id'') (oe_id e) @
      option_bytes (lit ''retry'') (map_option (\<lambda>r. decimal (unat r)) (oe_retry e)) @
      concat (map (field_bytes (lit ''data'')) (oe_data e)) @ 10 # rest) i r bs' i'"
    using assms(1) by - (rule parses_option [OF field_names(1)], auto simp: s1 fits_lines_def)
  then show ?thesis by (simp add: sse_bytes_def)
qed

text \<open>The events a client gets: those with data, each with the latest identifier.\<close>

definition message_of :: "out_event \<Rightarrow> event" where
  "message_of e = Message (oe_id e) (oe_type e) (join_lines (oe_data e)) (oe_retry e)"

definition id_after :: "out_event \<Rightarrow> bytes option \<Rightarrow> bytes option" where
  "id_after e i = (case oe_id e of Some x \<Rightarrow> Some x | None \<Rightarrow> i)"

fun results_of :: "bytes option \<Rightarrow> out_event list \<Rightarrow> parse_result list" where
  "results_of i [] = []"
| "results_of i (e # es) = \<lparr>pr_event = message_of e, pr_last_known_id = id_after e i\<rparr> # results_of (id_after e i) es"

lemma parses_message:
  assumes "fits_lines e" "oe_data e \<noteq> []"
  shows "parses event_builder_new (sse_bytes e @ rest) i
    (Ok (Some \<lparr>pr_event = message_of e, pr_last_known_id = id_after e i\<rparr>)) rest (id_after e i)"
proof -
  have "build_event (builder_of e) = Some (message_of e)"
    using assms(2) by (simp add: build_event_def builder_of_def message_of_def)
  from parses_event [OF assms(1) parses_blank_message [OF this]] show ?thesis
    by (simp add: id_after_def message_of_def)
qed

text \<open>The iterator, asked n times.\<close>

fun sse_polls :: "nat \<Rightarrow> sse_parser \<Rightarrow> (io_kind, parse_result) result option list \<times> sse_parser" where
  "sse_polls 0 p = ([], p)"
| "sse_polls (Suc n) p = (case sse_next p of (r, p') \<Rightarrow> (case sse_polls n p' of (rs, p'') \<Rightarrow> (r # rs, p'')))"

text \<open>The server sends these events one after the other.\<close>

fun send_events :: "out_event list \<Rightarrow> (writer, io_kind, unit) exec" where
  "send_events [] = ret ()"
| "send_events (e # es) = bind (sse_send e) (\<lambda>_. send_events es)"

lemma puts_events: "puts (send_events es) (concat (map sse_bytes es))"
  by (induction es) (auto intro: puts_ret puts_bind puts_send)

lemma sse_next_parses:
  assumes "parses event_builder_new bs i (Ok r) bs' i'" "has_left p bs i"
  shows "\<exists>p'. sse_next p = (map_option Ok r, p') \<and> has_left p' bs' i'"
  using assms by (cases r) (fastforce simp: parses_def sse_next_def sse_parse_next_def)+

text \<open>Events without data are skipped; with them go their identifier and their retry time.\<close>

lemma parses_dropped:
  assumes "fits_lines e" "oe_data e = []" "parses event_builder_new rest i r bs' i'"
  shows "parses event_builder_new (sse_bytes e @ rest) i r bs' i'"
  using parses_event [OF assms(1) parses_blank_nothing [OF _ assms(3)]] assms(2)
  by (simp add: build_event_def builder_of_def)

lemma parses_all_dropped:
  "(\<And>e. e \<in> set es \<Longrightarrow> fits_lines e \<and> oe_data e = []) \<Longrightarrow> parses event_builder_new rest i r bs' i' \<Longrightarrow>
   parses event_builder_new (concat (map sse_bytes es) @ rest) i r bs' i'"
  by (induction es) (simp_all add: parses_dropped)

definition with_data :: "out_event list \<Rightarrow> out_event list" where
  "with_data es = filter (\<lambda>e. oe_data e \<noteq> []) es"

lemma with_data_split:
  "with_data es = e # us \<Longrightarrow> \<exists>xs ys. es = xs @ e # ys \<and> (\<forall>x\<in>set xs. oe_data x = []) \<and> oe_data e \<noteq> [] \<and> us = with_data ys"
  by (auto simp: with_data_def filter_eq_Cons_iff)

text \<open>Behind a beginning \<open>pre\<close> that the parser skips.\<close>

lemma sse_polls_messages:
  "\<forall>e\<in>set es. fits_lines e \<Longrightarrow> has_left p (pre @ concat (map sse_bytes es)) i \<Longrightarrow> us = with_data es \<Longrightarrow>
   (\<And>rest r bs' i'. parses event_builder_new rest i r bs' i' \<Longrightarrow> parses event_builder_new (pre @ rest) i r bs' i') \<Longrightarrow>
   \<exists>p'. sse_polls (Suc (length us)) p = (map (\<lambda>x. Some (Ok x)) (results_of i us) @ [None], p')"
proof (induction us arbitrary: es p i pre)
  case Nil
  then have "parses event_builder_new (concat (map sse_bytes es) @ []) i (Ok None) [] i"
    by (intro parses_all_dropped parses_nothing) (auto simp: with_data_def filter_empty_conv dest: sym)
  from Nil.prems(4) [OF this] obtain p' where "sse_next p = (None, p')" using sse_next_parses Nil.prems(2) by fastforce
  then show ?case by simp
next
  case (Cons u us)
  obtain xs ys where s: "es = xs @ u # ys" "\<forall>x\<in>set xs. oe_data x = []" "oe_data u \<noteq> []" "us = with_data ys"
    using with_data_split [of es u us] Cons.prems(3) by auto
  have "parses event_builder_new (concat (map sse_bytes xs) @ sse_bytes u @ concat (map sse_bytes ys)) i
      (Ok (Some \<lparr>pr_event = message_of u, pr_last_known_id = id_after u i\<rparr>)) (concat (map sse_bytes ys)) (id_after u i)"
    using s Cons.prems(1) by (intro parses_all_dropped parses_message) auto
  from Cons.prems(4) [OF this] obtain p1 where
    "sse_next p = (Some (Ok \<lparr>pr_event = message_of u, pr_last_known_id = id_after u i\<rparr>), p1)"
    "has_left p1 (concat (map sse_bytes ys)) (id_after u i)"
    using sse_next_parses Cons.prems(2) s(1) by fastforce
  then show ?case using Cons.IH [of ys p1 "[]" "id_after u i"] Cons.prems(1) s by auto
qed

lemma has_left_new: "arrives r \<Longrightarrow> has_left (sse_parser_new r) (delivery r) None"
  by (simp add: has_left_def sse_parser_new_def unread_def)

text \<open>C29: What a server sends with \<open>EventWriter::send\<close> a client polls: when every string fits on a line, then
  however the bytes are cut up on the way, the polls give exactly the events that have data, in order, each
  with its type, its data lines joined, its retry time and the latest identifier so far, and then the end.
  An event without data, as \<open>SseEvent::retry\<close> makes it, is not delivered.
\<close>
theorem sse_round_trip:
  assumes "\<forall>e\<in>set es. fits_lines e" "send_events es w = (Ok (), w')" "w_out w = []"
    and "arrives r" "delivery r = w_out w'"
  shows "fst (sse_polls (Suc (length (with_data es))) (sse_parser_new r)) =
    map (\<lambda>x. Some (Ok x)) (results_of None (with_data es)) @ [None]"
proof -
  have "delivery r = concat (map sse_bytes es)" using puts_events [of es] assms(2,3,5) by (simp add: puts_def)
  then have "has_left (sse_parser_new r) (concat (map sse_bytes es)) None" using has_left_new assms(4) by metis
  then show ?thesis using sse_polls_messages [OF assms(1) _ refl, of _ "[]"] by fastforce
qed

section \<open>What is lost and what is let in\<close>

lemma parses_comment:
  assumes "one_line c"
  shows "parses b (58 # c @ 10 # rest) i (Ok (Some \<lparr>pr_event = Comment (trim_start c), pr_last_known_id = i\<rparr>)) rest i"
proof -
  have l: "line_body ((58 # c) @ [10]) = 58 # c" using assms by (intro line_body_plain) (auto simp: one_line_def)
  have "line_effect ((58 # c) @ [10]) b = Ends_With (Comment (trim_start c))" unfolding line_effect_def l by simp
  then show ?thesis using parses_ends [of "58 # c" b _ i i rest] assms by (simp add: one_line_def)
qed

text \<open>
  A comment line inside an event discards what the event has gathered so far. After the line
  \<open>data: d\<close> and a comment, the client gets the comment, and the event's blank line gives nothing: \<open>d\<close> is lost,
  though a comment is to be ignored.
\<close>
theorem comment_discards_event:
  assumes "one_line d" "one_line c" "arrives r" "delivery r = field_bytes (lit ''data'') d @ 58 # c @ [10, 10]"
  shows "fst (sse_polls 2 (sse_parser_new r)) =
    [Some (Ok \<lparr>pr_event = Comment (trim_start c), pr_last_known_id = None\<rparr>), None]"
proof -
  have l: "has_left (sse_parser_new r) (lit ''data'' @ 58 # 32 # d @ 10 # 58 # c @ 10 # [10]) None"
    using has_left_new [OF assms(3)] assms(4) by (simp add: field_bytes_def)
  obtain p1 where p1: "sse_next (sse_parser_new r) = (Some (Ok \<lparr>pr_event = Comment (trim_start c), pr_last_known_id = None\<rparr>), p1)"
    "has_left p1 [10] None"
    using sse_next_parses [OF parses_field [OF field_names(4) assms(1) parses_comment [OF assms(2)]] l] by auto
  have "parses event_builder_new [10] None (Ok None) [] None"
    by (rule parses_blank_nothing [OF _ parses_nothing]) (simp add: build_event_def event_builder_new_def)
  from sse_next_parses [OF this p1(2)] p1(1) show ?thesis by (auto simp: numeral_2_eq_2)
qed

text \<open>The writer puts the data out as it is: data with a line break in it puts the part after the break on a
  line of its own, and the client takes that line for the field it names. A message with data
  \<open>d\<close>, line break, \<open>n: v\<close> arrives as an event with data \<open>d\<close> and field \<open>n\<close> set to \<open>v\<close>.
\<close>
theorem line_break_in_data_sets_field:
  assumes "one_line d" "field_name n" "one_line v"
    and "sse_send (sse_message (d @ 10 # n @ 58 # 32 # v)) w = (Ok (), w')" "w_out w = []"
    and "arrives r" "delivery r = w_out w'"
    and "build_event (process_field n v (event_builder_new\<lparr>eb_data := [d]\<rparr>)) = Some m"
  shows "\<exists>i. fst (sse_next (sse_parser_new r)) = Some (Ok \<lparr>pr_event = m, pr_last_known_id = i\<rparr>)"
proof -
  have "delivery r = lit ''data'' @ 58 # 32 # d @ 10 # n @ 58 # 32 # v @ 10 # [10]"
    using puts_send [of "sse_message (d @ 10 # n @ 58 # 32 # v)"] assms(4,5,7)
    by (simp add: puts_def sse_bytes_def sse_message_def option_bytes_def field_bytes_def)
  then have l: "has_left (sse_parser_new r) (lit ''data'' @ 58 # 32 # d @ 10 # n @ 58 # 32 # v @ 10 # [10]) None"
    using has_left_new [OF assms(6)] by simp
  have "process_field (lit ''data'') d event_builder_new = event_builder_new\<lparr>eb_data := [d]\<rparr>"
    by (simp add: process_data event_builder_new_def)
  with assms(8) have m: "build_event (process_field n v (process_field (lit ''data'') d event_builder_new)) = Some m" by simp
  from sse_next_parses [OF parses_field [OF field_names(4) assms(1) parses_field [OF assms(2,3) parses_blank_message [OF m]]] l]
  show ?thesis by auto
qed

text \<open>A writer that takes everything.\<close>

definition free_writer :: "bytes \<Rightarrow> writer" where
  "free_writer out = \<lparr>w_out = out, w_writes = [], w_flushes = []\<rparr>"

definition succeeds :: "(writer, io_kind, unit) exec \<Rightarrow> bool" where
  "succeeds m \<longleftrightarrow> (\<forall>out. \<exists>out'. m (free_writer out) = (Ok (), free_writer out'))"

lemma succeeds_bind:
  assumes "succeeds m" "succeeds k"
  shows "succeeds (bind m (\<lambda>_. k))"
  unfolding succeeds_def
proof
  fix a
  obtain b where "m (free_writer a) = (Ok (), free_writer b)" using assms(1) unfolding succeeds_def by blast
  moreover obtain c where "k (free_writer b) = (Ok (), free_writer c)" using assms(2) unfolding succeeds_def by blast
  ultimately show "\<exists>d. bind m (\<lambda>_. k) (free_writer a) = (Ok (), free_writer d)"
    by (intro exI [of _ c]) (simp add: bind_def)
qed

lemma puts_free: "puts m bs \<Longrightarrow> m (free_writer a) = (Ok (), free_writer b) \<Longrightarrow> b = a @ bs"
  unfolding puts_def free_writer_def by (metis writer.select_convs(1))

lemma succeeds_basic: "succeeds (ret ())" "succeeds (write_all bs)" "succeeds flush_writer"
  by (auto simp: succeeds_def ret_def write_all_def flush_writer_def free_writer_def)

lemma succeeds_field: "succeeds (write_field n v)"
  unfolding write_field_def by (intro succeeds_bind succeeds_basic)

lemma succeeds_data: "succeeds (write_data ds)"
  by (induction ds) (auto intro: succeeds_bind succeeds_basic succeeds_field)

lemma succeeds_when: "(\<And>a. succeeds (f a)) \<Longrightarrow> succeeds (when_some x f)"
  by (cases x) (simp_all add: when_some_def succeeds_basic)

lemma succeeds_send: "succeeds (sse_send e)"
  unfolding sse_send_def by (intro succeeds_bind succeeds_when succeeds_field succeeds_data succeeds_basic)

lemma succeeds_events: "succeeds (send_events es)"
  by (induction es) (auto intro: succeeds_bind succeeds_basic succeeds_send)

lemma send_events_free: "send_events es (free_writer []) = (Ok (), free_writer (concat (map sse_bytes es)))"
proof -
  obtain out where "send_events es (free_writer []) = (Ok (), free_writer out)"
    using succeeds_events unfolding succeeds_def by blast
  moreover from this have "out = concat (map sse_bytes es)" using puts_free [OF puts_events] by fastforce
  ultimately show ?thesis by simp
qed

theorem sse_round_trip_witness:
  "fst (sse_polls 2 (sse_parser_new [Chunk (concat (map sse_bytes [sse_retry 5, sse_message [97, 98]]))])) =
     [Some (Ok \<lparr>pr_event = Message None None [97, 98] None, pr_last_known_id = None\<rparr>), None]"
proof -
  let ?es = "[sse_retry 5, sse_message [97, 98]]"
  have w: "with_data ?es = [sse_message [97, 98]]" by (simp add: with_data_def sse_retry_def sse_message_def)
  have "\<forall>e\<in>set ?es. fits_lines e" by (simp add: fits_lines_def one_line_def sse_retry_def sse_message_def)
  moreover have "arrives [Chunk (concat (map sse_bytes ?es))]" by (simp add: sse_bytes_def)
  ultimately show ?thesis
    using sse_round_trip [OF _ send_events_free, of ?es "[Chunk (concat (map sse_bytes ?es))]"] w
    by (simp add: free_writer_def message_of_def id_after_def sse_message_def numeral_2_eq_2 del: sse_polls.simps)
qed

theorem line_break_in_data_sets_field_witness:
  "\<exists>i. fst (sse_next (sse_parser_new [Chunk (sse_bytes (sse_message ([97] @ 10 # lit ''id'' @ 58 # 32 # [55])))])) =
     Some (Ok \<lparr>pr_event = Message (Some [55]) None [97] None, pr_last_known_id = i\<rparr>)"
proof (rule line_break_in_data_sets_field)
  let ?e = "sse_message ([97] @ 10 # lit ''id'' @ 58 # 32 # [55])"
  show "one_line [97]" "one_line [55]" by (simp_all add: one_line_def)
  show "field_name (lit ''id'')" by (rule field_names)
  obtain out where o: "sse_send ?e (free_writer []) = (Ok (), free_writer out)"
    using succeeds_send unfolding succeeds_def by blast
  then have "out = sse_bytes ?e" using puts_free [OF puts_send o] by simp
  with o show "sse_send ?e (free_writer []) = (Ok (), free_writer (sse_bytes ?e))" by simp
  show "arrives [Chunk (sse_bytes ?e)]" by (simp add: sse_bytes_def)
qed (simp_all add: free_writer_def build_event_def process_names(2) event_builder_new_def)

end
