(* ===== verification/SseTask.thy ===== *)
theory SseTask
  imports EventSource Tasks
begin

text \<open>
  The client of an event stream as a task that is polled: \<open>EventSourceTask\<close> of
  \<open>foundation_core/src/wire/event_source/task.rs\<close>. What a poll takes from outside is the record
  \<open>sse_env\<close>: the URL parser, the connection pool, the building and rendering of the HTTP request, and
  the clock, read before and after the parser is asked. A body is taken as its bytes. The connection's
  reading half is the parser's reader.
\<close>

section \<open>States\<close>

datatype sse_progress = SP_Connecting | SP_Reading

type_synonym sse_status = "(parse_result, sse_progress) task_status"

datatype close_reason = CR_Eof | CR_ParseError | CR_IdleTimeout | CR_ConnectionError

datatype simple_method = M_HEAD | M_GET | M_POST | M_PUT | M_DELETE | M_PATCH | M_OPTIONS | M_CONNECT | M_TRACE | M_Custom bytes

record sse_config =
  ec_url :: bytes
  ec_method :: simple_method
  ec_headers :: "(bytes \<times> bytes) list"
  ec_body :: "bytes option"
  ec_last_event_id :: "bytes option"
  ec_idle_timeout :: "nat option"

text \<open>What the request builder is given, the headers in the order they are added.\<close>

record sse_request =
  rq_url :: bytes
  rq_method :: simple_method
  rq_body :: "bytes option"
  rq_headers :: "(bytes \<times> bytes) list"

datatype sse_state =
    SS_Init sse_config
  | SS_Connecting bytes sse_request
  | SS_Reading writer sse_parser nat
  | SS_Closed close_reason

record sse_task =
  et_state :: "sse_state option"
  et_last_event_id :: "bytes option"
  et_idle_timeout :: "nat option"

record sse_env =
  se_parses :: "bytes \<Rightarrow> bool"
  se_is_http :: "bytes \<Rightarrow> bool"
  se_builds :: "sse_request \<Rightarrow> bool"
  se_render :: "sse_request \<Rightarrow> bytes list"
  se_connect :: "bytes \<Rightarrow> transport option"
  se_before :: nat
  se_after :: nat

section \<open>Building a task\<close>

text \<open>The errors, without their messages.\<close>

datatype event_source_error =
    ES_Http | ES_ParseError | ES_ConnectionClosed | ES_InvalidRetry | ES_ReadError | ES_WriteError | ES_InvalidUrl | ES_Timeout

definition sse_config_new :: "bytes \<Rightarrow> sse_config" where
  "sse_config_new url = \<lparr>ec_url = url, ec_method = M_GET, ec_headers = [], ec_body = None,
     ec_last_event_id = None, ec_idle_timeout = None\<rparr>"

definition sse_connect :: "sse_env \<Rightarrow> bytes \<Rightarrow> (event_source_error, sse_task) result" where
  "sse_connect e url =
     (if \<not> se_parses e url then Err ES_InvalidUrl
      else if \<not> se_is_http e url then Err ES_InvalidUrl
      else Ok \<lparr>et_state = Some (SS_Init (sse_config_new url)), et_last_event_id = None, et_idle_timeout = None\<rparr>)"

definition on_config :: "(sse_config \<Rightarrow> sse_config) \<Rightarrow> sse_task \<Rightarrow> sse_task" where
  "on_config f t = (case et_state t of Some (SS_Init c) \<Rightarrow> t\<lparr>et_state := Some (SS_Init (f c))\<rparr> | _ \<Rightarrow> t)"

definition sse_with_header :: "bytes \<Rightarrow> bytes \<Rightarrow> sse_task \<Rightarrow> sse_task" where
  "sse_with_header n v t = on_config (\<lambda>c. c\<lparr>ec_headers := ec_headers c @ [(n, v)]\<rparr>) t"

definition sse_with_last_event_id :: "bytes \<Rightarrow> sse_task \<Rightarrow> sse_task" where
  "sse_with_last_event_id i t = (on_config (\<lambda>c. c\<lparr>ec_last_event_id := Some i\<rparr>) t)\<lparr>et_last_event_id := Some i\<rparr>"

definition sse_with_body :: "bytes \<Rightarrow> sse_task \<Rightarrow> sse_task" where
  "sse_with_body body t = on_config (\<lambda>c. c\<lparr>ec_method := M_POST, ec_body := Some body\<rparr>) t"

definition sse_with_method :: "simple_method \<Rightarrow> sse_task \<Rightarrow> sse_task" where
  "sse_with_method m t = on_config (\<lambda>c. c\<lparr>ec_method := m\<rparr>) t"

definition sse_with_idle_timeout :: "nat \<Rightarrow> sse_task \<Rightarrow> sse_task" where
  "sse_with_idle_timeout d t = (on_config (\<lambda>c. c\<lparr>ec_idle_timeout := Some d\<rparr>) t)\<lparr>et_idle_timeout := Some d\<rparr>"

definition sse_close_reason :: "sse_task \<Rightarrow> close_reason option" where
  "sse_close_reason t = (case et_state t of Some (SS_Closed r) \<Rightarrow> Some r | _ \<Rightarrow> None)"

section \<open>One poll\<close>

definition sse_request_of :: "sse_config \<Rightarrow> sse_request" where
  "sse_request_of c =
     \<lparr>rq_url = ec_url c, rq_method = ec_method c, rq_body = ec_body c,
      rq_headers = [(lit ''ACCEPT'', lit ''text/event-stream''), (lit ''CACHE-CONTROL'', lit ''no-cache'')] @ ec_headers c @
        (case ec_last_event_id c of Some i \<Rightarrow> [(lit ''Last-Event-ID'', i)] | None \<Rightarrow> [])\<rparr>"

definition poll_sse_init :: "sse_env \<Rightarrow> sse_config \<Rightarrow> (sse_task, unit, sse_status option) exec" where
  "poll_sse_init e c t =
     (if \<not> se_parses e (ec_url c) then (Ok None, t)
      else if \<not> se_builds e (sse_request_of c) then (Ok None, t)
      else (Ok (Some (Status_Pending SP_Connecting)),
        t\<lparr>et_last_event_id := (case ec_last_event_id c of Some i \<Rightarrow> Some i | None \<Rightarrow> et_last_event_id t),
          et_idle_timeout := (case ec_idle_timeout c of Some d \<Rightarrow> Some d | None \<Rightarrow> et_idle_timeout t),
          et_state := Some (SS_Connecting (ec_url c) (sse_request_of c))\<rparr>))"

text \<open>The rendered pieces are written until one fails; the failure is ignored.\<close>

fun write_pieces :: "bytes list \<Rightarrow> (writer, io_kind, unit) exec" where
  "write_pieces [] = ret ()"
| "write_pieces (p # ps) = bind (write_all p) (\<lambda>_. write_pieces ps)"

definition poll_sse_connecting :: "sse_env \<Rightarrow> bytes \<Rightarrow> sse_request \<Rightarrow> (sse_task, unit, sse_status option) exec" where
  "poll_sse_connecting e url request t =
     (case se_connect e url of
        None \<Rightarrow> (Ok None, t\<lparr>et_state := Some (SS_Closed CR_ConnectionError)\<rparr>)
      | Some connection \<Rightarrow>
          (let stream = try_flush (connection\<lparr>tr_out := snd (write_pieces (se_render e request) (tr_out connection))\<rparr>)
           in (Ok (Some (Status_Pending SP_Reading)),
               t\<lparr>et_state := Some (SS_Reading (tr_out stream) (sse_parser_new (tr_in stream)) (se_after e))\<rparr>)))"

definition poll_sse_reading :: "sse_env \<Rightarrow> writer \<Rightarrow> sse_parser \<Rightarrow> nat \<Rightarrow> (sse_task, unit, sse_status option) exec" where
  "poll_sse_reading e conn parser last_activity t =
     (if (case et_idle_timeout t of Some timeout \<Rightarrow> timeout < se_before e - last_activity | None \<Rightarrow> False)
      then (Ok None, t\<lparr>et_state := Some (SS_Closed CR_IdleTimeout)\<rparr>)
      else
        (case sse_next parser of
           (Some (Ok pr), parser) \<Rightarrow>
             (Ok (Some (Status_Ready pr)),
              t\<lparr>et_last_event_id := (if pr_last_known_id pr \<noteq> None then pr_last_known_id pr else et_last_event_id t),
                et_state := Some (SS_Reading conn parser (se_after e))\<rparr>)
         | (Some (Err _), _) \<Rightarrow> (Ok None, t\<lparr>et_state := Some (SS_Closed CR_ParseError)\<rparr>)
         | (Some Panic, _) \<Rightarrow> (Panic, t)
         | (None, _) \<Rightarrow> (Ok None, t\<lparr>et_state := Some (SS_Closed CR_Eof)\<rparr>)))"

definition sse_next_status :: "sse_env \<Rightarrow> (sse_task, unit, sse_status option) exec" where
  "sse_next_status e t =
     (let taken = t\<lparr>et_state := None\<rparr>
      in (case et_state t of
            None \<Rightarrow> (Ok None, t)
          | Some (SS_Init c) \<Rightarrow> poll_sse_init e c taken
          | Some (SS_Connecting url request) \<Rightarrow> poll_sse_connecting e url request taken
          | Some (SS_Reading conn parser last_activity) \<Rightarrow> poll_sse_reading e conn parser last_activity taken
          | Some (SS_Closed _) \<Rightarrow> (Ok None, taken)))"

abbreviation sse_task_polls :: "sse_env list \<Rightarrow> sse_task \<Rightarrow> (unit, sse_status option) result list \<times> sse_task" where
  "sse_task_polls \<equiv> poll_all sse_next_status"

section \<open>The parser never fails but by its reader\<close>

lemma next_until_no_panic: "fst (next_until buf es) \<noteq> Panic"
  by (induction buf es rule: next_until.induct)
    (simp add: next_until.simps split: prod.split list.split read_event.split)

lemma read_line_no_panic: "fst (read_line p) \<noteq> Panic"
  using next_until_no_panic [of "sp_buffer p" "sp_reader p"]
  by (auto simp: read_line_def split: prod.splits result.splits bool.splits)

lemma parse_loop_no_panic: "fst (parse_loop b p) \<noteq> Panic"
proof (induction b p rule: parse_loop.induct)
  case (1 b p)
  show ?case using "1.IH" read_line_no_panic [of p]
    by (auto simp: parse_loop.simps [of b p] build_parse_result_def Let_def
        split: prod.splits result.splits option.splits line_outcome.splits)
qed

lemma sse_next_no_panic: "fst (sse_next p) \<noteq> Some Panic"
  using parse_loop_no_panic [of event_builder_new p]
  by (auto simp: sse_next_def sse_parse_next_def split: prod.splits result.splits option.splits)

lemma sse_next_status_no_panic: "\<exists>r. fst (sse_next_status e t) = Ok r"
proof (cases "et_state t")
  case (Some s)
  then show ?thesis
  proof (cases s)
    case (SS_Reading conn parser last_activity)
    then show ?thesis using Some sse_next_no_panic [of parser]
      by (cases "sse_next parser"; cases "fst (sse_next parser)"; cases "the (fst (sse_next parser))")
        (auto simp: sse_next_status_def poll_sse_reading_def Let_def)
  qed (simp_all add: sse_next_status_def poll_sse_init_def poll_sse_connecting_def Let_def split: option.split)
qed (simp add: sse_next_status_def)

section \<open>From the server to the client\<close>

text \<open>A line of an HTTP head that reads neither as a comment nor as a field of an event; it ends in a carriage return
  and a line feed.\<close>

definition head_line :: "bytes \<Rightarrow> bool" where
  "head_line l \<longleftrightarrow> l \<noteq> [] \<and> hd l \<noteq> 58 \<and> 10 \<notin> set l \<and> utf8_valid l \<and>
     (58 \<in> set l \<longrightarrow> takeWhile (\<lambda>x. x \<noteq> 58) l \<notin> {lit ''id'', lit ''event'', lit ''data'', lit ''retry''})"

definition http_head :: "bytes list \<Rightarrow> bytes" where
  "http_head ls = concat (map (\<lambda>l. l @ [13, 10]) ls) @ [13, 10]"

lemma field_line_ignored: "head_line l \<Longrightarrow> field_line l b = b"
  by (simp add: head_line_def field_line_def process_field_def Let_def)

lemma parses_head_line:
  assumes "head_line l" "parses b rest i r bs' i'"
  shows "parses b (l @ 13 # 10 # rest) i r bs' i'"
proof -
  have "line_body ((l @ [13]) @ [10]) = l" by (simp add: line_body_def pop_end_def butlast_append)
  then have "line_effect ((l @ [13]) @ [10]) b = Goes_On b"
    using assms(1) field_line_ignored unfolding line_effect_def by (simp add: head_line_def)
  moreover have "10 \<notin> set (l @ [13])" "utf8_valid (l @ [13])"
    using assms(1) by (auto simp: head_line_def utf8_valid_append)
  ultimately show ?thesis using parses_goes_on [of "l @ [13]" b b rest] assms(2) by simp
qed

lemma parses_head:
  assumes "list_all head_line ls" "parses event_builder_new rest i r bs' i'"
  shows "parses event_builder_new (http_head ls @ rest) i r bs' i'"
proof -
  have "line_effect ([13] @ [10]) event_builder_new = Goes_On event_builder_new"
    by (simp add: line_effect_def line_body_def pop_end_def build_event_def event_builder_new_def)
  from parses_goes_on [OF this _ _ assms(2)] have blank: "parses event_builder_new (13 # 10 # rest) i r bs' i'" by simp
  show ?thesis using assms(1) blank by (induction ls) (simp_all add: http_head_def parses_head_line)
qed

text \<open>Polls of a task that reads, as polls of its parser.\<close>

definition keep_id :: "parse_result \<Rightarrow> bytes option \<Rightarrow> bytes option" where
  "keep_id pr i = (if pr_last_known_id pr \<noteq> None then pr_last_known_id pr else i)"

lemma length_results: "length (results_of i es) = length es"
  by (induction es arbitrary: i) auto

lemma fold_keep_id: "fold keep_id (results_of i es) i = fold id_after es i"
proof (induction es arbitrary: i)
  case (Cons e es)
  have "keep_id \<lparr>pr_event = message_of e, pr_last_known_id = id_after e i\<rparr> i = id_after e i"
    by (auto simp: keep_id_def id_after_def split: option.split)
  then show ?case using Cons by simp
qed simp

lemma reading_polls:
  "et_state t = Some (SS_Reading conn p since) \<Longrightarrow> et_idle_timeout t = None \<Longrightarrow>
   fst (sse_polls (Suc (length xs)) p) = map (\<lambda>x. Some (Ok x)) xs @ [None] \<Longrightarrow> length es = Suc (length xs) \<Longrightarrow>
   fst (sse_task_polls es t) = map (\<lambda>x. Ok (Some (Status_Ready x))) xs @ [Ok None] \<and>
   sse_close_reason (snd (sse_task_polls es t)) = Some CR_Eof \<and>
   et_last_event_id (snd (sse_task_polls es t)) = fold keep_id xs (et_last_event_id t)"
proof (induction xs arbitrary: t conn p since es)
  case Nil
  then obtain e where "es = [e]" by (auto simp: length_Suc_conv)
  then show ?case using Nil
    by (auto simp: sse_next_status_def poll_sse_reading_def sse_close_reason_def Let_def split: prod.splits)
next
  case (Cons x xs)
  then obtain e es' where es: "es = e # es'" "length es' = Suc (length xs)" by (cases es) auto
  obtain p' where p': "sse_next p = (Some (Ok x), p')"
    "fst (sse_polls (Suc (length xs)) p') = map (\<lambda>x. Some (Ok x)) xs @ [None]"
    using Cons.prems(3) by (auto split: prod.splits)
  define t' where "t' = t\<lparr>et_last_event_id := keep_id x (et_last_event_id t), et_state := Some (SS_Reading conn p' (se_after e))\<rparr>"
  have "sse_next_status e t = (Ok (Some (Status_Ready x)), t')"
    using Cons.prems(1,2) p'(1) by (simp add: sse_next_status_def poll_sse_reading_def t'_def keep_id_def)
  moreover note Cons.IH [of t' conn p' "se_after e" es']
  ultimately show ?case using Cons.prems(2) p'(2) es by (auto simp: t'_def split: prod.splits)
qed

lemma sse_polls_after_head:
  assumes "\<forall>e\<in>set es. fits_lines e" "list_all head_line ls" "arrives r"
    and "delivery r = http_head ls @ concat (map sse_bytes es)"
  shows "fst (sse_polls (Suc (length (with_data es))) (sse_parser_new r)) =
    map (\<lambda>x. Some (Ok x)) (results_of None (with_data es)) @ [None]"
proof -
  have "has_left (sse_parser_new r) (http_head ls @ concat (map sse_bytes es)) None"
    using has_left_new [OF assms(3)] assms(4) by simp
  from sse_polls_messages [OF assms(1) this refl parses_head [OF assms(2)]] show ?thesis by fastforce
qed


text \<open>A server that answers a request with status 404, one message with identifier \<open>7\<close>, and the end of the stream.\<close>

definition demo_event :: out_event where
  "demo_event = sse_build (Some [55]) None [[97]]"

definition demo_transport :: transport where
  "demo_transport = \<lparr>tr_in = [Chunk (http_head [lit ''HTTP/1.1 404 Not Found''] @ sse_bytes demo_event)], tr_out = free_writer []\<rparr>"

definition sse_demo_env :: sse_env where
  "sse_demo_env = \<lparr>se_parses = (\<lambda>_. True), se_is_http = (\<lambda>_. True), se_builds = (\<lambda>_. True), se_render = (\<lambda>_. [[1]]),
     se_connect = (\<lambda>_. Some demo_transport), se_before = 0, se_after = 0\<rparr>"


end
