(* ===== verification/SseReconnect.thy ===== *)
theory SseReconnect
  imports SseTask Retries
begin

text \<open>
  The event-stream client that reconnects: \<open>ReconnectingEventSourceTask\<close> of
  \<open>foundation_core/src/wire/event_source/reconnecting_task.rs\<close>, a state machine around an \<open>EventSourceTask\<close>
  and the exponential decider. A poll takes what the inner task takes, a reading of the clock and a random
  draw.
\<close>

section \<open>The state\<close>

datatype resume_progress = GP_Connecting | GP_Reading | GP_Reconnecting

type_synonym resume_status = "(parse_result, resume_progress) task_status"

record resume_config =
  gc_url :: bytes
  gc_method :: simple_method
  gc_headers :: "(bytes \<times> bytes) list"
  gc_body :: "bytes option"
  gc_max_retries :: u32
  gc_server_retry :: "nat option"
  gc_max_reconnect_duration :: "nat option"

definition resume_config_new :: "bytes \<Rightarrow> resume_config" where
  "resume_config_new url = \<lparr>gc_url = url, gc_method = M_GET, gc_headers = [], gc_body = None, gc_max_retries = 5,
     gc_server_retry = None, gc_max_reconnect_duration = None\<rparr>"

datatype resume_state = GS_Init | GS_Connected sse_task | GS_Waiting nat | GS_Reconnecting | GS_Exhausted

record resuming =
  gt_state :: "resume_state option"
  gt_config :: resume_config
  gt_last_event_id :: "bytes option"
  gt_retry_state :: retry_state
  gt_backoff :: exponential_decider
  gt_start_time :: "nat option"

record resume_env =
  ge_task :: sse_env
  ge_now :: nat
  ge_draw :: "nat \<Rightarrow> nat"

section \<open>Building a client\<close>

definition resuming_connect :: "resume_env \<Rightarrow> bytes \<Rightarrow> (event_source_error, resuming) result" where
  "resuming_connect e url =
     (if \<not> se_parses (ge_task e) url then Err ES_InvalidUrl
      else if \<not> se_is_http (ge_task e) url then Err ES_InvalidUrl
      else rbind (ok_or_panic (exponential_from_duration 1000000000 (Some (30 * 1000000000)))) (\<lambda>backoff.
        Ok \<lparr>gt_state = Some GS_Init, gt_config = resume_config_new url, gt_last_event_id = None,
            gt_retry_state = retry_state_new 0 5 None, gt_backoff = backoff, gt_start_time = Some (ge_now e)\<rparr>))"

definition resume_max_retries :: "u32 \<Rightarrow> resuming \<Rightarrow> resuming" where
  "resume_max_retries n c =
     c\<lparr>gt_config := (gt_config c)\<lparr>gc_max_retries := n\<rparr>, gt_retry_state := retry_state_new 0 n None\<rparr>"

definition resume_max_duration :: "nat \<Rightarrow> resuming \<Rightarrow> resuming" where
  "resume_max_duration d c = c\<lparr>gt_config := (gt_config c)\<lparr>gc_max_reconnect_duration := Some d\<rparr>\<rparr>"

definition resume_backoff :: "exponential_decider \<Rightarrow> resuming \<Rightarrow> resuming" where
  "resume_backoff d c = c\<lparr>gt_backoff := d\<rparr>"

definition resume_header :: "bytes \<Rightarrow> bytes \<Rightarrow> resuming \<Rightarrow> resuming" where
  "resume_header n v c = c\<lparr>gt_config := (gt_config c)\<lparr>gc_headers := gc_headers (gt_config c) @ [(n, v)]\<rparr>\<rparr>"

definition resume_last_event_id :: "bytes \<Rightarrow> resuming \<Rightarrow> resuming" where
  "resume_last_event_id i c = c\<lparr>gt_last_event_id := Some i\<rparr>"

definition resume_body :: "bytes \<Rightarrow> resuming \<Rightarrow> resuming" where
  "resume_body body c = c\<lparr>gt_config := (gt_config c)\<lparr>gc_body := Some body, gc_method := M_POST\<rparr>\<rparr>"

section \<open>One poll\<close>

text \<open>The body is taken out of the configuration: only the first connection has it.\<close>

definition resume_inner :: "resume_env \<Rightarrow> resuming \<Rightarrow> sse_task option \<times> resuming" where
  "resume_inner e c =
     (case sse_connect (ge_task e) (gc_url (gt_config c)) of
        Ok task \<Rightarrow>
          (let task = sse_with_method (gc_method (gt_config c)) task;
               task = fold (\<lambda>(n, v). sse_with_header n v) (gc_headers (gt_config c)) task;
               task = (case gc_body (gt_config c) of Some body \<Rightarrow> sse_with_body body task | None \<Rightarrow> task);
               task = (case gt_last_event_id c of Some i \<Rightarrow> sse_with_last_event_id i task | None \<Rightarrow> task)
           in (Some task, c\<lparr>gt_config := (gt_config c)\<lparr>gc_body := None\<rparr>\<rparr>))
      | _ \<Rightarrow> (None, c))"

definition track_event_id :: "parse_result \<Rightarrow> resuming \<Rightarrow> resuming" where
  "track_event_id pr c =
     (let c = (case pr_last_known_id pr of Some i \<Rightarrow> c\<lparr>gt_last_event_id := Some i\<rparr> | None \<Rightarrow> c)
      in (case pr_event pr of
            Message _ _ _ (Some ms) \<Rightarrow> c\<lparr>gt_config := (gt_config c)\<lparr>gc_server_retry := Some (unat ms * 1000000)\<rparr>\<rparr>
          | _ \<Rightarrow> c))"

definition resume_start :: "resume_env \<Rightarrow> (resuming, unit, resume_status option) exec" where
  "resume_start e c =
     (case resume_inner e c of
        (Some task, c) \<Rightarrow> (Ok (Some (Status_Pending GP_Connecting)), c\<lparr>gt_state := Some (GS_Connected task)\<rparr>)
      | (None, c) \<Rightarrow> (Ok None, c\<lparr>gt_state := Some GS_Exhausted\<rparr>))"

text \<open>The inner task has ended, and not with the end of the stream: give up, or wait.\<close>

definition resume_closed :: "resume_env \<Rightarrow> (resuming, unit, resume_status option) exec" where
  "resume_closed e c =
     (if (case (gc_max_reconnect_duration (gt_config c), gt_start_time c) of
            (Some max_duration, Some start) \<Rightarrow> max_duration < ge_now e - start
          | _ \<Rightarrow> False)
      then (Ok None, c\<lparr>gt_state := Some GS_Exhausted\<rparr>)
      else
        (case exponential_decide (gt_backoff c) (ge_draw e) (gt_retry_state c) of
           Ok (Some next_retry) \<Rightarrow>
             (Ok (Some (Status_Pending GP_Reconnecting)),
              c\<lparr>gt_retry_state := next_retry,
                gt_state := Some (GS_Waiting (case gc_server_retry (gt_config c) of
                    Some w \<Rightarrow> w
                  | None \<Rightarrow> (case rt_wait next_retry of Some w \<Rightarrow> w | None \<Rightarrow> 1000000000)))\<rparr>)
         | Ok None \<Rightarrow> (Ok None, c\<lparr>gt_state := Some GS_Exhausted\<rparr>)
         | Err err \<Rightarrow> (Err err, c)
         | Panic \<Rightarrow> (Panic, c)))"

definition resume_connected :: "resume_env \<Rightarrow> sse_task \<Rightarrow> (resuming, unit, resume_status option) exec" where
  "resume_connected e inner c =
     (case sse_next_status (ge_task e) inner of
        (r, inner) \<Rightarrow>
          (let again = c\<lparr>gt_state := Some (GS_Connected inner)\<rparr>
           in (case r of
                 Ok (Some (Status_Ready pr)) \<Rightarrow>
                   (Ok (Some (Status_Ready pr)),
                    (track_event_id pr again)\<lparr>gt_retry_state := retry_state_new 0 (gc_max_retries (gt_config c)) None\<rparr>)
               | Ok (Some (Status_Pending SP_Connecting)) \<Rightarrow> (Ok (Some (Status_Pending GP_Connecting)), again)
               | Ok (Some (Status_Pending SP_Reading)) \<Rightarrow> (Ok (Some (Status_Pending GP_Reading)), again)
               | Ok (Some (Status_Delayed d)) \<Rightarrow> (Ok (Some (Status_Delayed d)), again)
               | Ok (Some Status_Spawn) \<Rightarrow> (Ok (Some Status_Spawn), again)
               | Ok (Some Status_Init) \<Rightarrow> (Ok (Some Status_Init), again)
               | Ok (Some Status_Ignore) \<Rightarrow> (Ok (Some Status_Ignore), again)
               | Ok None \<Rightarrow>
                   (if sse_close_reason inner = Some CR_Eof then (Ok None, c\<lparr>gt_state := Some GS_Exhausted\<rparr>)
                    else resume_closed e c)
               | Err err \<Rightarrow> (Err err, c)
               | Panic \<Rightarrow> (Panic, c))))"

definition resume_next_status :: "resume_env \<Rightarrow> (resuming, unit, resume_status option) exec" where
  "resume_next_status e c =
     (let taken = c\<lparr>gt_state := None\<rparr>
      in (case gt_state c of
            None \<Rightarrow> (Ok None, c)
          | Some GS_Init \<Rightarrow> resume_start e taken
          | Some (GS_Connected inner) \<Rightarrow> resume_connected e inner taken
          | Some (GS_Waiting d) \<Rightarrow> (Ok (Some (Status_Delayed d)), taken\<lparr>gt_state := Some GS_Reconnecting\<rparr>)
          | Some GS_Reconnecting \<Rightarrow> resume_start e taken
          | Some GS_Exhausted \<Rightarrow> (Ok None, taken)))"

abbreviation resume_polls :: "resume_env list \<Rightarrow> resuming \<Rightarrow> (unit, resume_status option) result list \<times> resuming" where
  "resume_polls \<equiv> poll_all resume_next_status"

section \<open>Resuming\<close>

definition delivered :: "(unit, resume_status option) result list \<Rightarrow> parse_result list" where
  "delivered rs = [pr. Ok (Some (Status_Ready pr)) \<leftarrow> rs]"

text \<open>What a fresh inner task asks for, with the last identifier that was delivered.\<close>

definition resumes_from :: "resuming \<Rightarrow> sse_config \<Rightarrow> bool" where
  "resumes_from c cfg \<longleftrightarrow> ec_url cfg = gc_url (gt_config c) \<and> ec_headers cfg = gc_headers (gt_config c) \<and>
     ec_last_event_id cfg = gt_last_event_id c \<and> (ec_body cfg = None \<longrightarrow> ec_method cfg = gc_method (gt_config c))"

definition resuming_inv :: "resuming \<Rightarrow> bool" where
  "resuming_inv c \<longleftrightarrow>
     (\<forall>t. gt_state c = Some (GS_Connected t) \<longrightarrow>
        (\<forall>cfg. et_state t = Some (SS_Init cfg) \<longrightarrow> resumes_from c cfg) \<and>
        (\<forall>u rq. et_state t = Some (SS_Connecting u rq) \<longrightarrow> (\<exists>cfg. rq = sse_request_of cfg \<and> resumes_from c cfg)))"

lemma on_config_Init: "et_state t = Some (SS_Init c) \<Longrightarrow> et_state (on_config f t) = Some (SS_Init (f c))"
  by (simp add: on_config_def)

lemma with_sse_headers:
  "et_state t = Some (SS_Init c) \<Longrightarrow>
   et_state (fold (\<lambda>(n, v). sse_with_header n v) hs t) = Some (SS_Init (c\<lparr>ec_headers := ec_headers c @ hs\<rparr>))"
  by (induction hs arbitrary: t c) (auto simp: sse_with_header_def on_config_Init)

lemma resume_inner_cases:
  assumes "resume_inner e c = (t, c')"
  shows "c' = c \<and> t = None \<or>
    (\<exists>task cfg. t = Some task \<and> et_state task = Some (SS_Init cfg) \<and> resumes_from c cfg \<and> ec_body cfg = gc_body (gt_config c) \<and>
       c' = c\<lparr>gt_config := (gt_config c)\<lparr>gc_body := None\<rparr>\<rparr>)"
proof (cases "sse_connect (ge_task e) (gc_url (gt_config c))")
  case (Ok task)
  have "et_state task = Some (SS_Init (sse_config_new (gc_url (gt_config c))))"
    using Ok by (auto simp: sse_connect_def split: if_splits)
  from with_sse_headers [OF on_config_Init [OF this]]
  have "et_state (fold (\<lambda>(n, v). sse_with_header n v) (gc_headers (gt_config c)) (sse_with_method (gc_method (gt_config c)) task)) =
      Some (SS_Init ((sse_config_new (gc_url (gt_config c)))\<lparr>ec_method := gc_method (gt_config c), ec_headers := gc_headers (gt_config c)\<rparr>))"
    by (simp add: sse_with_method_def sse_config_new_def)
  then show ?thesis using assms Ok
    by (cases "gc_body (gt_config c)"; cases "gt_last_event_id c")
      (auto simp: resume_inner_def Let_def sse_with_body_def sse_with_last_event_id_def on_config_Init
        resumes_from_def sse_config_new_def)
qed (use assms in \<open>auto simp: resume_inner_def\<close>)

text \<open>What a poll of the inner task can do.\<close>

lemma sse_step:
  assumes "sse_next_status e t = (r, t')"
  shows "r = Ok None \<or> (\<exists>x. r = Ok (Some (Status_Pending x))) \<or>
      (\<exists>pr conn p n. r = Ok (Some (Status_Ready pr)) \<and> et_state t' = Some (SS_Reading conn p n))"
    and "et_state t' \<noteq> Some (SS_Init cfg)"
    and "et_state t' = Some (SS_Connecting u rq) \<Longrightarrow> \<exists>cfg. et_state t = Some (SS_Init cfg) \<and> rq = sse_request_of cfg"
proof -
  have "fst (sse_next p) \<noteq> Some Panic" for p by (rule sse_next_no_panic)
  then have p: "sse_next p \<noteq> (Some Panic, p')" for p p' by (metis fst_conv)
  show "r = Ok None \<or> (\<exists>x. r = Ok (Some (Status_Pending x))) \<or>
      (\<exists>pr conn p n. r = Ok (Some (Status_Ready pr)) \<and> et_state t' = Some (SS_Reading conn p n))"
    "et_state t' \<noteq> Some (SS_Init cfg)"
    "et_state t' = Some (SS_Connecting u rq) \<Longrightarrow> \<exists>cfg. et_state t = Some (SS_Init cfg) \<and> rq = sse_request_of cfg"
    using assms p
    by (auto simp: sse_next_status_def poll_sse_init_def poll_sse_connecting_def poll_sse_reading_def Let_def
        split: option.splits sse_state.splits if_splits prod.splits result.splits)
qed

lemma track_event_id_fields:
  "gt_last_event_id (track_event_id pr c) = keep_id pr (gt_last_event_id c)"
  "gt_state (track_event_id pr c) = gt_state c" "gt_backoff (track_event_id pr c) = gt_backoff c"
  "gc_headers (gt_config (track_event_id pr c)) = gc_headers (gt_config c)"
  "gc_url (gt_config (track_event_id pr c)) = gc_url (gt_config c)"
  "gc_method (gt_config (track_event_id pr c)) = gc_method (gt_config c)"
  "gc_body (gt_config (track_event_id pr c)) = gc_body (gt_config c)"
  "gc_max_retries (gt_config (track_event_id pr c)) = gc_max_retries (gt_config c)"
  by (auto simp: track_event_id_def keep_id_def Let_def split: option.split event.split)

text \<open>What a poll leaves as it was, and what it does to the identifier.\<close>

lemma resume_closed_keeps:
  assumes "resume_closed e c = (r, c')" "gt_state c = None"
  shows "gt_last_event_id c' = gt_last_event_id c \<and> gt_config c' = gt_config c \<and>
    (gt_state c' = None \<or> gt_state c' = Some GS_Exhausted \<or> (\<exists>w. gt_state c' = Some (GS_Waiting w))) \<and> delivered [r] = []"
  using assms by (auto simp: resume_closed_def delivered_def split: if_splits result.splits option.splits)

lemma resume_start_keeps:
  assumes "resume_start e c = (r, c')"
  shows "gt_last_event_id c' = gt_last_event_id c \<and> (gt_config c' = gt_config c \<or> gt_config c' = (gt_config c)\<lparr>gc_body := None\<rparr>) \<and> delivered [r] = [] \<and>
    (gt_state c' = Some GS_Exhausted \<or> (\<exists>t cfg. gt_state c' = Some (GS_Connected t) \<and> gc_body (gt_config c') = None \<and>
      et_state t = Some (SS_Init cfg) \<and> ec_body cfg = gc_body (gt_config c) \<and> resumes_from c' cfg))"
proof -
  obtain t c1 where i: "resume_inner e c = (t, c1)" by (cases "resume_inner e c")
  show ?thesis using resume_inner_cases [OF i] i assms
    by (auto simp: resume_start_def delivered_def resumes_from_def)
qed

lemma resume_step:
  assumes "resuming_inv c" "resume_next_status e c = (r, c')"
  shows "resuming_inv c' \<and> gt_last_event_id c' = fold keep_id (delivered [r]) (gt_last_event_id c) \<and>
    gc_headers (gt_config c') = gc_headers (gt_config c)"
proof (cases "\<exists>t. gt_state c = Some (GS_Connected t)")
  case True
  then obtain t where t: "gt_state c = Some (GS_Connected t)" by blast
  obtain r1 t1 where s: "sse_next_status (ge_task e) t = (r1, t1)" by (cases "sse_next_status (ge_task e) t")
  note step = sse_step [OF s]
  have r: "resume_next_status e c = resume_connected e t (c\<lparr>gt_state := None\<rparr>)" using t by (simp add: resume_next_status_def)
  from step(1) consider "r1 = Ok None" | x where "r1 = Ok (Some (Status_Pending x))"
    | pr conn p n where "r1 = Ok (Some (Status_Ready pr))" "et_state t1 = Some (SS_Reading conn p n)" by blast
  then show ?thesis
  proof cases
    case 1
    obtain r2 c2 where c2: "resume_closed e (c\<lparr>gt_state := None\<rparr>) = (r2, c2)" by (cases "resume_closed e (c\<lparr>gt_state := None\<rparr>)")
    then show ?thesis using 1 s r assms(2) resume_closed_keeps [OF c2]
      by (auto simp: resume_connected_def resuming_inv_def delivered_def split: if_splits)
  next
    case 2
    then show ?thesis using s r t assms step(2,3)
      by (cases x) (fastforce simp: resume_connected_def resuming_inv_def resumes_from_def delivered_def Let_def)+
  next
    case 3
    then show ?thesis using s r assms(2)
      by (auto simp: resume_connected_def resuming_inv_def delivered_def track_event_id_fields Let_def)
  qed
next
  case False
  then show ?thesis using assms resume_start_keeps [of e "c\<lparr>gt_state := None\<rparr>" r c']
    by (auto simp: resume_next_status_def resuming_inv_def delivered_def Let_def split: option.splits resume_state.splits)
qed

lemma delivered_Cons: "delivered (r # rs) = delivered [r] @ delivered rs"
  by (auto simp: delivered_def)

lemma resume_run:
  "resuming_inv c \<Longrightarrow> resuming_inv (snd (resume_polls es c)) \<and>
   gt_last_event_id (snd (resume_polls es c)) = fold keep_id (delivered (fst (resume_polls es c))) (gt_last_event_id c) \<and>
   gc_headers (gt_config (snd (resume_polls es c))) = gc_headers (gt_config c)"
proof (induction es arbitrary: c)
  case (Cons e es)
  obtain r c' where s: "resume_next_status e c = (r, c')" by (cases "resume_next_status e c")
  note step = resume_step [OF Cons.prems s]
  with Cons.IH [of c'] s show ?case
    by (simp add: poll_all_Cons delivered_Cons [of r "fst (resume_polls es c')"] del: poll_all.simps(2))
qed (simp add: delivered_def)

text \<open>C13: A client that reconnects resumes behind the last event it delivered. Whatever happened in the run so
  far, a connection it is about to open, the first or a later one, asks with the headers it was
  configured with and with a \<open>Last-Event-ID\<close> that is the latest identifier among the results it has
  delivered, or the one it was started with when none of them had any.
\<close>
theorem reconnection_resumes_after_last_event:
  assumes "gt_state c = Some GS_Init" "resume_polls es c = (rs, c')"
    and "gt_state c' = Some (GS_Connected t)" "et_state t = Some (SS_Connecting u rq)"
  shows "rq_headers rq = [(lit ''ACCEPT'', lit ''text/event-stream''), (lit ''CACHE-CONTROL'', lit ''no-cache'')] @
    gc_headers (gt_config c) @
    (case fold keep_id (delivered rs) (gt_last_event_id c) of Some i \<Rightarrow> [(lit ''Last-Event-ID'', i)] | None \<Rightarrow> [])"
proof -
  have "resuming_inv c" using assms(1) by (simp add: resuming_inv_def)
  from resume_run [OF this, of es] assms(2-4) obtain cfg where
    "rq = sse_request_of cfg" "resumes_from c' cfg" "gc_headers (gt_config c') = gc_headers (gt_config c)"
    "gt_last_event_id c' = fold keep_id (delivered rs) (gt_last_event_id c)"
    by (auto simp: resuming_inv_def)
  then show ?thesis by (simp add: sse_request_of_def resumes_from_def)
qed

section \<open>A bounded number of connections\<close>

definition resume_left :: "resuming \<Rightarrow> nat" where
  "resume_left c = unat (rt_total_allowed (gt_retry_state c)) - unat (rt_attempt (gt_retry_state c)) +
     (case gt_state c of Some (GS_Waiting _) \<Rightarrow> 1 | Some GS_Reconnecting \<Rightarrow> 1 | _ \<Rightarrow> 0)"

definition reconnects :: "resuming \<Rightarrow> nat" where
  "reconnects c = (if gt_state c = Some GS_Reconnecting then 1 else 0)"

definition regains :: "nat \<Rightarrow> (unit, resume_status option) result \<Rightarrow> nat" where
  "regains n r = n * length (delivered [r])"

lemma resume_closed_pays:
  assumes "resume_closed e c = (r, c')" "gt_state c = None"
  shows "resume_left c' \<le> resume_left c"
proof (cases "exponential_decide (gt_backoff c) (ge_draw e) (gt_retry_state c)")
  case (Ok next_retry)
  show ?thesis
  proof (cases next_retry)
    case (Some s)
    have "unat (rt_attempt s) \<le> unat (rt_total_allowed s)"
      using exponential.attempt_within Ok Some by (simp add: word_le_nat_alt)
    then show ?thesis
      using assms Ok Some exponential.goes_on [of "gt_backoff c" "ge_draw e" "gt_retry_state c" s]
      by (auto simp: resume_closed_def resume_left_def split: if_splits)
  qed (use assms Ok in \<open>auto simp: resume_closed_def resume_left_def split: if_splits\<close>)
qed (use assms in \<open>auto simp: resume_closed_def resume_left_def split: if_splits\<close>)

lemma resume_closed_silent: "delivered [fst (resume_closed e c)] = []"
  by (auto simp: resume_closed_def delivered_def split: result.split option.split)

lemma resume_start_silent: "delivered [fst (resume_start e c)] = []"
  by (auto simp: resume_start_def delivered_def split: prod.split option.split)

lemma resume_start_pays:
  assumes "resume_start e c = (r, c')"
  shows "gt_retry_state c' = gt_retry_state c \<and> gc_max_retries (gt_config c') = gc_max_retries (gt_config c)"
  using assms resume_inner_cases [of e c] by (cases "resume_inner e c") (auto simp: resume_start_def split: option.splits)

lemma resume_pays:
  assumes "gc_max_retries (gt_config c) = n" "resume_next_status e c = (r, c')"
  shows "gc_max_retries (gt_config c') = n \<and> reconnects c + resume_left c' \<le> resume_left c + regains (unat n) r"
proof (cases "\<exists>t. gt_state c = Some (GS_Connected t)")
  case True
  then obtain t where t: "gt_state c = Some (GS_Connected t)" by blast
  obtain r1 t1 where s: "sse_next_status (ge_task e) t = (r1, t1)" by (cases "sse_next_status (ge_task e) t")
  obtain r2 c2 where c2: "resume_closed e (c\<lparr>gt_state := None\<rparr>) = (r2, c2)" by (cases "resume_closed e (c\<lparr>gt_state := None\<rparr>)")
  have r: "resume_next_status e c = resume_connected e t (c\<lparr>gt_state := None\<rparr>)" "reconnects c = 0"
    "resume_left (c\<lparr>gt_state := None\<rparr>) = resume_left c"
    using t by (simp_all add: resume_next_status_def reconnects_def resume_left_def)
  from sse_step(1) [OF s] consider "r1 = Ok None" | x where "r1 = Ok (Some (Status_Pending x))"
    | pr where "r1 = Ok (Some (Status_Ready pr))" by blast
  then show ?thesis
  proof cases
    case 1
    then show ?thesis using s r assms resume_closed_keeps [OF c2] resume_closed_pays [OF c2] c2
      by (auto simp: resume_connected_def resume_left_def split: if_splits)
  next
    case 2
    then show ?thesis using s r t assms by (cases x) (auto simp: resume_connected_def resume_left_def)
  next
    case 3
    then show ?thesis using s r t assms
      by (auto simp: resume_connected_def resume_left_def regains_def delivered_def track_event_id_fields
          retry_state_new_def)
  qed
next
  case False
  then show ?thesis using assms resume_start_pays [of e "c\<lparr>gt_state := None\<rparr>" r c'] resume_start_keeps [of e "c\<lparr>gt_state := None\<rparr>" r c']
    by (auto simp: resume_next_status_def resume_left_def reconnects_def Let_def split: option.splits resume_state.splits)
qed

text \<open>An event sets the budget back to what is allowed; nothing else adds to it.\<close>

lemma resume_resets:
  assumes "gc_max_retries (gt_config c) = n" "resume_next_status e c = (r, c')" "delivered [r] \<noteq> []"
  shows "resume_left c' = unat n"
proof (cases "\<exists>t. gt_state c = Some (GS_Connected t)")
  case True
  then obtain t where t: "gt_state c = Some (GS_Connected t)" by blast
  obtain r1 t1 where s: "sse_next_status (ge_task e) t = (r1, t1)" by (cases "sse_next_status (ge_task e) t")
  have r: "resume_next_status e c = resume_connected e t (c\<lparr>gt_state := None\<rparr>)"
    using t by (simp add: resume_next_status_def)
  from sse_step(1) [OF s] consider "r1 = Ok None" | x where "r1 = Ok (Some (Status_Pending x))"
    | pr where "r1 = Ok (Some (Status_Ready pr))" by blast
  then show ?thesis
  proof cases
    case 1
    then have "resume_closed e (c\<lparr>gt_state := None\<rparr>) = (r, c') \<or> r = Ok None"
      using s r assms(2) by (auto simp: resume_connected_def split: if_splits)
    moreover have "delivered [Ok None] = []" by (simp add: delivered_def)
    ultimately show ?thesis using resume_closed_silent [of e "c\<lparr>gt_state := None\<rparr>"] assms(3) by (metis fst_conv)
  next
    case 2
    then show ?thesis using s r assms by (cases x) (auto simp: resume_connected_def delivered_def)
  next
    case 3
    then show ?thesis using s r assms
      by (auto simp: resume_connected_def resume_left_def track_event_id_fields retry_state_new_def)
  qed
next
  case False
  then show ?thesis using assms(2,3) resume_start_silent [of e "c\<lparr>gt_state := None\<rparr>"]
    by (auto simp: resume_next_status_def delivered_def Let_def split: option.splits resume_state.splits)
qed

lemma resume_capped:
  assumes "gc_max_retries (gt_config c) = n" "resume_left c \<le> unat n" "resume_next_status e c = (r, c')"
  shows "resume_left c' \<le> unat n"
  using resume_pays [OF assms(1,3)] resume_resets [OF assms(1,3)] assms(2)
  by (cases "delivered [r] = []") (simp_all add: regains_def)

interpretation resume: budgeted resume_next_status "\<lambda>c. gc_max_retries (gt_config c) = n \<and> resume_left c \<le> unat n" "\<lambda>_. True"
    reconnects resume_left "regains (unat n)" for n
  using resume_pays resume_capped by unfold_locales (metis prod.collapse)+

lemma regains_sum: "sum_list (map (regains n) rs) = n * length (delivered rs)"
proof (induction rs)
  case (Cons r rs)
  then show ?case by (simp add: delivered_Cons [of r rs] regains_def algebra_simps)
qed (simp add: delivered_def)

text \<open>C35: Between two events a client reconnects no more often than it is allowed. In a run of a client made
  with at most \<open>n\<close> retries, whatever the servers do, cut out any stretch of polls that deliver no event: the
  connections opened in it, not counting the first of the client, are at most \<open>n\<close>, however few were opened before.
  So in the whole run they are at most \<open>n\<close> for the beginning and \<open>n\<close> for each event delivered.
\<close>
theorem reconnections_bounded_by_events:
  assumes "resuming_connect e0 url = Ok c" "c' = resume_max_retries n c"
    and "delivered (fst (resume_polls stretch (snd (resume_polls before c')))) = []"
  shows "cost_all resume_next_status reconnects stretch (snd (resume_polls before c')) \<le> unat n
    \<and> cost_all resume_next_status reconnects es c' \<le> unat n * (1 + length (delivered (fst (resume_polls es c'))))"
proof -
  have inv: "gc_max_retries (gt_config c') = n \<and> resume_left c' \<le> unat n" and left: "resume_left c' = unat n"
    using assms(1,2) by (auto simp: resuming_connect_def resume_max_retries_def resume_left_def retry_state_new_def rbind_eq_Ok split: if_splits)
  let ?c = "snd (resume_polls before c')"
  have "gc_max_retries (gt_config ?c) = n \<and> resume_left ?c \<le> unat n" using resume.poll_all_good [OF inv, of before] by simp
  with resume.within_budget [of ?c n stretch] have "cost_all resume_next_status reconnects stretch ?c \<le> unat n"
    using assms(3) by (simp add: regains_sum)
  moreover have "cost_all resume_next_status reconnects es c' \<le> unat n * (1 + length (delivered (fst (resume_polls es c'))))"
    using resume.within_budget [OF inv, of es] left by (simp add: regains_sum algebra_simps)
  ultimately show ?thesis by blast
qed

section \<open>The end of a stream\<close>

lemma resume_ended:
  "gt_state c = None \<or> gt_state c = Some GS_Exhausted \<Longrightarrow>
   fst (resume_polls es c) = replicate (length es) (Ok None) \<and> cost_all resume_next_status reconnects es c = 0"
proof (induction es arbitrary: c)
  case (Cons e es)
  then have "fst (resume_next_status e c) = Ok None" "gt_state (snd (resume_next_status e c)) = None" "reconnects c = 0"
    by (auto simp: resume_next_status_def reconnects_def)
  then show ?case using Cons.IH [of "snd (resume_next_status e c)"] by (simp add: poll_all_Cons del: poll_all.simps(2))
qed simp

text \<open>When a server closes the connection the client is at its end. The poll that finds the end of the
  stream and every later one give nothing, and no connection is opened again, whatever the retries it was
  allowed.
\<close>
theorem end_of_stream_is_final:
  assumes "gt_state c = Some (GS_Connected t)" "et_state t = Some (SS_Reading conn p since)" "et_idle_timeout t = None"
    and "sse_next p = (None, p')"
  shows "fst (resume_polls es c) = replicate (length es) (Ok None) \<and> cost_all resume_next_status reconnects es c = 0"
proof (cases es)
  case (Cons e es')
  have "resume_next_status e c = (Ok None, c\<lparr>gt_state := Some GS_Exhausted\<rparr>)"
    using assms by (simp add: resume_next_status_def resume_connected_def sse_next_status_def poll_sse_reading_def
        sse_close_reason_def)
  then show ?thesis using resume_ended [of "c\<lparr>gt_state := Some GS_Exhausted\<rparr>" es'] assms(1) Cons
    by (simp add: poll_all_Cons reconnects_def del: poll_all.simps(2))
qed simp

section \<open>Giving up\<close>

definition pool_refuses :: "bytes \<Rightarrow> resume_env \<Rightarrow> bool" where
  "pool_refuses url e \<longleftrightarrow> se_parses (ge_task e) url \<and> se_is_http (ge_task e) url \<and> se_connect (ge_task e) url = None"

text \<open>A client at the beginning of a connection, with \<open>n\<close> attempts left after it.\<close>

definition resume_trying :: "bytes \<Rightarrow> exponential_decider \<Rightarrow> nat \<Rightarrow> resuming \<Rightarrow> bool" where
  "resume_trying url d n c \<longleftrightarrow>
     (\<exists>t cfg. gt_state c = Some (GS_Connected t) \<and> et_state t = Some (SS_Init cfg) \<and> ec_url cfg = url) \<and>
     gc_url (gt_config c) = url \<and> gt_backoff c = d \<and> decider_ok d \<and> gc_max_reconnect_duration (gt_config c) = None \<and>
     gc_server_retry (gt_config c) = None \<and> resume_left c = n \<and>
     rt_attempt (gt_retry_state c) \<le> rt_total_allowed (gt_retry_state c)"

definition resume_waits :: "(unit, resume_status option) result \<Rightarrow> nat list" where
  "resume_waits r = (case r of Ok (Some (Status_Delayed d)) \<Rightarrow> [d] | _ \<Rightarrow> [])"

lemma resume_refused:
  assumes "gt_state c = Some (GS_Connected t)" "et_state t = Some (SS_Init cfg)" "ec_url cfg = url"
    and "pool_refuses url e1" "pool_refuses url e2" "se_builds (ge_task e1) (sse_request_of cfg)"
  obtains c0 where "resume_next_status e1 c = (Ok (Some (Status_Pending GP_Connecting)), c0)"
    "resume_next_status e2 c0 = resume_closed e2 (c\<lparr>gt_state := None\<rparr>)"
proof -
  obtain t1 where t1: "sse_next_status (ge_task e1) t = (Ok (Some (Status_Pending SP_Connecting)), t1)"
    "et_state t1 = Some (SS_Connecting url (sse_request_of cfg))"
    using assms by (auto simp: sse_next_status_def poll_sse_init_def pool_refuses_def Let_def)
  obtain t2 where t2: "sse_next_status (ge_task e2) t1 = (Ok None, t2)" "sse_close_reason t2 = Some CR_ConnectionError"
    using t1(2) assms(5) by (auto simp: sse_next_status_def poll_sse_connecting_def pool_refuses_def sse_close_reason_def Let_def)
  show thesis
    by (rule that [of "c\<lparr>gt_state := Some (GS_Connected t1)\<rparr>"])
      (use assms(1) t1(1) t2 in \<open>simp_all add: resume_next_status_def resume_connected_def\<close>)
qed

text \<open>Every request can be built, and every connection is refused.\<close>

definition refuses_all :: "bytes \<Rightarrow> resume_env \<Rightarrow> bool" where
  "refuses_all url e \<longleftrightarrow> pool_refuses url e \<and> (\<forall>rq. se_builds (ge_task e) rq)"

lemma resume_gives_up:
  assumes "resume_trying url d 0 c" "list_all (refuses_all url) [e1, e2]"
  shows "gt_state (snd (resume_polls [e1, e2] c)) = Some GS_Exhausted \<and>
    concat (map resume_waits (fst (resume_polls [e1, e2] c))) = [] \<and> last (fst (resume_polls [e1, e2] c)) = Ok None"
proof -
  obtain t cfg where t: "gt_state c = Some (GS_Connected t)" "et_state t = Some (SS_Init cfg)" "ec_url cfg = url"
    using assms(1) by (auto simp: resume_trying_def)
  obtain c0 where c0: "resume_next_status e1 c = (Ok (Some (Status_Pending GP_Connecting)), c0)"
      "resume_next_status e2 c0 = resume_closed e2 (c\<lparr>gt_state := None\<rparr>)"
    by (rule resume_refused [OF t, of e1 e2]) (use assms(2) in \<open>auto simp: refuses_all_def\<close>)
  have "exponential_decide (gt_backoff c) (ge_draw e2) (gt_retry_state c) = Ok None"
    using assms(1) by (intro exponential.gives_up) (simp add: resume_trying_def resume_left_def word_le_nat_alt)
  then show ?thesis using c0 assms(1) by (simp add: resume_closed_def resume_waits_def resume_trying_def)
qed

lemma resume_tries_again:
  assumes "resume_trying url d (Suc n) c" "list_all (refuses_all url) [e1, e2, e3, e4]"
  shows "resume_trying url d n (snd (resume_polls [e1, e2, e3, e4] c)) \<and>
    (\<exists>w. (ed_min d \<le> w \<and> w \<le> ed_max d) \<and> concat (map resume_waits (fst (resume_polls [e1, e2, e3, e4] c))) = [w])"
proof -
  obtain t cfg where t: "gt_state c = Some (GS_Connected t)" "et_state t = Some (SS_Init cfg)" "ec_url cfg = url"
    using assms(1) by (auto simp: resume_trying_def)
  obtain c0 where c0: "resume_next_status e1 c = (Ok (Some (Status_Pending GP_Connecting)), c0)"
      "resume_next_status e2 c0 = resume_closed e2 (c\<lparr>gt_state := None\<rparr>)"
    by (rule resume_refused [OF t, of e1 e2]) (use assms(2) in \<open>auto simp: refuses_all_def\<close>)
  obtain s' w where s': "exponential_decide (gt_backoff c) (ge_draw e2) (gt_retry_state c) = Ok (Some s')"
    "rt_wait s' = Some w" "ed_min (gt_backoff c) \<le> w" "w \<le> ed_max (gt_backoff c)"
    by (rule decides_wait [of "gt_backoff c" "gt_retry_state c" "ge_draw e2"])
      (use assms(1) t(1) in \<open>auto simp: resume_trying_def resume_left_def word_less_nat_alt\<close>)
  let ?c2 = "c\<lparr>gt_state := Some (GS_Waiting w), gt_retry_state := s'\<rparr>"
  let ?c3 = "c\<lparr>gt_state := Some GS_Reconnecting, gt_retry_state := s'\<rparr>"
  have e2: "resume_next_status e2 c0 = (Ok (Some (Status_Pending GP_Reconnecting)), ?c2)"
    using c0(2) s' assms(1) by (simp add: resume_closed_def resume_trying_def)
  have e3: "resume_next_status e3 ?c2 = (Ok (Some (Status_Delayed w)), ?c3)" by (simp add: resume_next_status_def)
  obtain t' cfg' c1 where t': "resume_inner e4 (?c3\<lparr>gt_state := None\<rparr>) = (Some t', c1)" "et_state t' = Some (SS_Init cfg')"
    "ec_url cfg' = url" "c1 = ?c3\<lparr>gt_state := None, gt_config := (gt_config c)\<lparr>gc_body := None\<rparr>\<rparr>"
  proof -
    have "fst (resume_inner e4 (?c3\<lparr>gt_state := None\<rparr>)) \<noteq> None"
      using assms by (simp add: resume_inner_def sse_connect_def refuses_all_def pool_refuses_def resume_trying_def Let_def)
    then show thesis using resume_inner_cases [of e4 "?c3\<lparr>gt_state := None\<rparr>"] assms(1) that
      by (cases "resume_inner e4 (?c3\<lparr>gt_state := None\<rparr>)") (auto simp: resumes_from_def resume_trying_def)
  qed
  have e4: "resume_next_status e4 ?c3 = (Ok (Some (Status_Pending GP_Connecting)), c1\<lparr>gt_state := Some (GS_Connected t')\<rparr>)"
    using t'(1) by (simp add: resume_next_status_def resume_start_def)
  have "unat (rt_total_allowed s') - unat (rt_attempt s') = n" "rt_attempt s' \<le> rt_total_allowed s'"
    using exponential.goes_on [OF s'(1)] exponential.attempt_within [OF s'(1)] assms(1) t(1)
    by (auto simp: resume_trying_def resume_left_def)
  then show ?thesis
    using assms(1) c0(1) e2 e3 e4 t' s' by (simp add: resume_trying_def resume_left_def resume_waits_def)
qed

interpretation resume_cycle: retry_cycle resume_next_status "resume_trying url d" "\<lambda>c. gt_state c = Some GS_Exhausted"
  "refuses_all url" resume_waits "\<lambda>w. ed_min d \<le> w \<and> w \<le> ed_max d" "Ok None" for url d
  by unfold_locales (rule resume_tries_again resume_gives_up; assumption)+

text \<open>
  A client that can never connect gives up, in time. Allowed \<open>n\<close> retries it ends after exactly
  \<open>4 * n + 3\<close> polls, whatever is drawn, and it has waited \<open>n\<close> times, each time between one and
  thirty seconds.
\<close>
theorem resuming_gives_up:
  assumes "resuming_connect e0 url = Ok c" "c' = resume_max_retries n c"
    and "list_all (refuses_all url) es" "length es = 4 * unat n + 3"
  shows "last (fst (resume_polls es c')) = Ok None \<and> gt_state (snd (resume_polls es c')) = Some GS_Exhausted \<and>
    length (concat (map resume_waits (fst (resume_polls es c')))) = unat n \<and>
    list_all (\<lambda>d. 1000000000 \<le> d \<and> d \<le> 30000000000) (concat (map resume_waits (fst (resume_polls es c'))))"
proof -
  obtain e es' where es: "es = e # es'" "length es' = 4 * unat n + 2" using assms(4) by (cases es) auto
  have c: "gt_state c' = Some GS_Init" "gt_config c' = (resume_config_new url)\<lparr>gc_max_retries := n\<rparr>"
    "gt_retry_state c' = retry_state_new 0 n None" "decider_ok (gt_backoff c')" "ed_min (gt_backoff c') = 1000000000"
    "ed_max (gt_backoff c') = 30000000000"
    using assms(1,2) default_percent
    by (auto simp: resuming_connect_def resume_max_retries_def rbind_eq_Ok exponential_from_duration_def
        exponential_new_def decider_ok_def jitter_ok_def DEFAULT_JITTER_def split: if_splits)
  have p: "se_parses (ge_task e) url" "se_is_http (ge_task e) url" using assms(3) es by (simp_all add: refuses_all_def pool_refuses_def)
  obtain c1 where c1: "resume_next_status e c' = (Ok (Some (Status_Pending GP_Connecting)), c1)" "resume_trying url (gt_backoff c') (unat n) c1"
    using c p resume_inner_cases [of e "c'\<lparr>gt_state := None\<rparr>"]
    by (auto simp: resume_next_status_def resume_start_def resume_trying_def resume_left_def resumes_from_def
        resume_config_new_def retry_state_new_def resume_inner_def sse_connect_def Let_def)
  have "fst (resume_polls es' c1) \<noteq> []" using poll_all_length [of resume_next_status es' c1] es(2) by auto
  with resume_cycle.ends [OF c1(2), of es'] c1(1) c(5,6) es assms(3) show ?thesis
    by (simp add: poll_all_Cons resume_waits_def del: poll_all.simps(2))
qed

definition resume_demo_env :: resume_env where
  "resume_demo_env = \<lparr>ge_task = sse_demo_env, ge_now = 0, ge_draw = (\<lambda>_. 0)\<rparr>"

lemma resume_demo: "\<exists>c. resuming_connect resume_demo_env [104] = Ok c"
  by (simp add: resuming_connect_def resume_demo_env_def sse_demo_env_def exponential_from_duration_def
      exponential_new_def jitter_ok_def DEFAULT_JITTER_def)

theorem reconnections_bounded_by_events_witness:
  "\<exists>c. resuming_connect resume_demo_env [104] = Ok c \<and>
     cost_all resume_next_status reconnects [resume_demo_env, resume_demo_env] (snd (resume_polls [] (resume_max_retries 2 c))) \<le> 2"
proof -
  obtain c where c: "resuming_connect resume_demo_env [104] = Ok c" "gt_state c = Some GS_Init" "gt_config c = resume_config_new [104]"
    using resume_demo by (auto simp: resuming_connect_def rbind_eq_Ok split: if_splits)
  have "delivered (fst (resume_polls [resume_demo_env, resume_demo_env] (snd (resume_polls [] (resume_max_retries 2 c))))) = []"
    using c(2,3)
    by (auto simp: resume_next_status_def resume_start_def resume_inner_def resume_connected_def sse_connect_def
        sse_next_status_def poll_sse_init_def resume_max_retries_def resume_config_new_def sse_with_method_def
        sse_with_last_event_id_def on_config_def resume_demo_env_def sse_demo_env_def delivered_def Let_def split: option.splits)
  from reconnections_bounded_by_events [OF c(1) refl this, of "[]"] c(1) show ?thesis
    by (intro exI [of _ c]) (simp del: poll_all.simps)
qed

theorem end_of_stream_is_final_witness:
  "fst (resume_polls [resume_demo_env, resume_demo_env] \<lparr>gt_state = Some (GS_Connected
       \<lparr>et_state = Some (SS_Reading (free_writer []) (sse_parser_new []) 0), et_last_event_id = None, et_idle_timeout = None\<rparr>),
     gt_config = resume_config_new [104], gt_last_event_id = None, gt_retry_state = retry_state_new 0 5 None,
     gt_backoff = \<lparr>ed_factor = 3, ed_jitter = DEFAULT_JITTER, ed_min = 1, ed_max = 2\<rparr>, gt_start_time = None\<rparr>) = [Ok None, Ok None]"
proof -
  obtain p where p: "sse_next (sse_parser_new []) = (None, p)"
    using sse_next_parses [OF parses_nothing, of "sse_parser_new []" None] has_left_new [of "[]"] by auto
  show ?thesis
    by (subst end_of_stream_is_final [where conn = "free_writer []" and since = 0
        and t = "\<lparr>et_state = Some (SS_Reading (free_writer []) (sse_parser_new []) 0), et_last_event_id = None,
          et_idle_timeout = None\<rparr>", OF _ _ _ p]) simp_all
qed

theorem reconnection_resumes_after_last_event_witness:
  "\<exists>c c' t u rq. resuming_connect resume_demo_env [104] = Ok c \<and>
     snd (resume_polls [resume_demo_env, resume_demo_env] (resume_last_event_id [55] c)) = c' \<and>
     gt_state c' = Some (GS_Connected t) \<and> et_state t = Some (SS_Connecting u rq) \<and>
     rq_headers rq = [(lit ''ACCEPT'', lit ''text/event-stream''), (lit ''CACHE-CONTROL'', lit ''no-cache''), (lit ''Last-Event-ID'', [55])]"
proof -
  obtain c where c: "resuming_connect resume_demo_env [104] = Ok c" "gt_state c = Some GS_Init" "gt_config c = resume_config_new [104]"
    using resume_demo by (auto simp: resuming_connect_def rbind_eq_Ok split: if_splits)
  let ?c = "resume_last_event_id [55] c"
  obtain rs c' where run: "resume_polls [resume_demo_env, resume_demo_env] ?c = (rs, c')" by fastforce
  obtain t u rq where t: "gt_state c' = Some (GS_Connected t)" "et_state t = Some (SS_Connecting u rq)" "delivered rs = []"
    using run c(2,3)
    by (auto simp: resume_next_status_def resume_start_def resume_inner_def resume_connected_def sse_connect_def
        sse_next_status_def poll_sse_init_def resume_last_event_id_def resume_config_new_def sse_with_method_def
        sse_with_last_event_id_def on_config_def resume_demo_env_def sse_demo_env_def delivered_def Let_def)
  have "gt_state ?c = Some GS_Init" "gt_last_event_id ?c = Some [55]" "gc_headers (gt_config ?c) = []"
    using c(2,3) by (simp_all add: resume_last_event_id_def resume_config_new_def)
  then show ?thesis using reconnection_resumes_after_last_event [OF _ run t(1,2)] t c(1) run
    by (intro exI [of _ c] exI [of _ c'] exI [of _ t] exI [of _ u] exI [of _ rq]) (simp del: poll_all.simps)
qed

end
