(* ===== verification/SseStrings.thy ===== *)
theory SseStrings
  imports EventSource
begin

text \<open>
  The strings of the event-stream client. A \<open>String\<close> of Rust is UTF-8; the line reader keeps that for the
  lines that end, byte by byte if it must, but hands out an unterminated last line unchecked.
\<close>

section \<open>The pieces of a line\<close>

lemma latin1_table: "list_all (\<lambda>n. utf8_valid (latin1 (word_of_nat n))) [0..<256]"
  by code_simp

lemma latin1_valid: "utf8_valid (latin1 b)"
proof -
  have "unat b < 256" using unsigned_less [of b] by simp
  then have "utf8_valid (latin1 (word_of_nat (unat b)))" using latin1_table by (auto simp only: list_all_iff set_upt atLeastLessThan_iff)
  then show ?thesis by simp
qed

lemma latin1s_valid: "utf8_valid (concat (map latin1 l))"
  by (induction l) (simp_all add: utf8_valid_append latin1_valid)

lemma pop_end_valid: "utf8_valid l \<Longrightarrow> b < 0x80 \<Longrightarrow> utf8_valid (pop_end b l)"
  using utf8_valid_snoc [of b "butlast l"] append_butlast_last_id [of l] by (auto simp: pop_end_def)

lemma line_body_valid: "utf8_valid l \<Longrightarrow> utf8_valid (line_body l)"
  by (simp add: line_body_def pop_end_valid)

lemma white_start_char:
  assumes "white_start s \<noteq> 0"
  shows "utf8_first s = Char (white_start s)"
proof (cases s)
  case (Cons b bs)
  show ?thesis
  proof (cases "b = 32 \<or> (9 \<le> b \<and> b \<le> 13)")
    case True
    then have "b < 0x80" by (auto simp: word_le_nat_alt word_less_nat_alt)
    then show ?thesis using True Cons by (simp add: utf8_first_def)
  next
    case wide: False
    then obtain c cs where c: "bs = c # cs" using assms Cons by (cases bs) auto
    show ?thesis
    proof (cases "b = 0xC2 \<and> (c = 0x85 \<or> c = 0xA0)")
      case True
      then show ?thesis using Cons c by (auto simp: utf8_first_def utf8_lead2_def utf8_cont_def)
    next
      case False
      then obtain d ds where d: "cs = d # ds" using assms Cons c wide by (cases cs) (auto split: if_splits)
      have w: "white_start s = 3" using assms Cons c d wide False by (auto split: if_splits)
      then have "(b = 0xE1 \<and> c = 0x9A \<and> d = 0x80) \<or>
          (b = 0xE2 \<and> c = 0x80 \<and> ((0x80 \<le> d \<and> d \<le> 0x8A) \<or> d = 0xA8 \<or> d = 0xA9 \<or> d = 0xAF)) \<or>
          (b = 0xE2 \<and> c = 0x81 \<and> d = 0x9F) \<or> (b = 0xE3 \<and> c = 0x80 \<and> d = 0x80)"
        using Cons c d wide False by (simp split: if_splits)
      moreover from this have "utf8_cont c" "utf8_cont d" by (auto simp: utf8_cont_def word_le_nat_alt)
      ultimately show ?thesis using Cons c d w
        by (elim disjE) (simp_all add: utf8_first_def utf8_lead2_def utf8_lead3_def)
    qed
  qed
qed (use assms in simp)

lemma trim_start_valid: "utf8_valid s \<Longrightarrow> utf8_valid (trim_start s)"
proof (induction s rule: trim_start.induct)
  case (1 s)
  then show ?case using white_start_char [of s] utf8_valid_Char [of s "white_start s"]
    by (cases "white_start s = 0 \<or> s = []") (simp_all add: trim_start.simps [of s])
qed

lemma join_lines_valid: "list_all utf8_valid ds \<Longrightarrow> utf8_valid (join_lines ds)"
  by (induction ds rule: join_lines.induct) (simp_all add: utf8_valid_append)

section \<open>Builders, events and parsers whose strings are strings\<close>

definition string_option :: "bytes option \<Rightarrow> bool" where
  "string_option x \<longleftrightarrow> (\<forall>s. x = Some s \<longrightarrow> utf8_valid s)"

definition builder_strings :: "event_builder \<Rightarrow> bool" where
  "builder_strings b \<longleftrightarrow> string_option (eb_id b) \<and> string_option (eb_event_type b) \<and> list_all utf8_valid (eb_data b)"

fun event_strings :: "event \<Rightarrow> bool" where
  "event_strings (Message i ty d _) = (string_option i \<and> string_option ty \<and> utf8_valid d)"
| "event_strings (Comment c) = utf8_valid c"
| "event_strings Reconnect = True"

lemma process_field_strings:
  "builder_strings b \<Longrightarrow> utf8_valid v \<Longrightarrow> builder_strings (process_field n v b)"
  by (auto simp: process_field_def builder_strings_def string_option_def split: option.split)

lemma strip_space_valid:
  assumes "utf8_valid v"
  shows "utf8_valid (case v of x # xs \<Rightarrow> if x = 32 then xs else v | [] \<Rightarrow> [])"
proof (cases v)
  case (Cons x xs)
  moreover have "utf8_valid (32 # xs) \<longleftrightarrow> utf8_valid xs" by simp
  ultimately show ?thesis using assms by (cases "x = 32") (simp_all del: utf8_valid.simps(2))
qed simp

lemma field_line_strings:
  assumes "builder_strings b" "utf8_valid l"
  shows "builder_strings (field_line l b)"
proof (cases "58 \<in> set l")
  case True
  then obtain n v where l: "l = n @ 58 # v" "58 \<notin> set n" using split_list_first by fastforce
  then have "\<forall>x\<in>set n. x \<noteq> 58" by auto
  then have "tl (dropWhile (\<lambda>x. x \<noteq> 58) l) = v" using l(1) by (simp add: dropWhile_append2)
  moreover have "utf8_valid v" using utf8_valid_cut [of n 58 v] assms(2) l(1) by simp
  moreover from this have "utf8_valid (case v of x # xs \<Rightarrow> if x = 32 then xs else v | [] \<Rightarrow> [])" by (rule strip_space_valid)
  ultimately show ?thesis using assms(1) True by (simp only: field_line_def if_True Let_def process_field_strings)
qed (simp add: field_line_def assms(1))

lemma build_event_strings: "builder_strings b \<Longrightarrow> build_event b = Some e \<Longrightarrow> event_strings e"
  by (auto simp: build_event_def builder_strings_def join_lines_valid split: if_splits)

lemma builder_new_strings: "builder_strings event_builder_new"
  by (simp add: builder_strings_def event_builder_new_def string_option_def)

lemma line_effect_strings:
  assumes "builder_strings b" "utf8_valid raw"
  shows "case line_effect raw b of Goes_On b' \<Rightarrow> builder_strings b' | Ends_With e \<Rightarrow> event_strings e"
proof -
  have l: "utf8_valid (line_body raw)" using line_body_valid assms(2) by blast
  show ?thesis
  proof (cases "line_body raw")
    case Nil
    then show ?thesis using build_event_strings [OF assms(1)] builder_new_strings by (auto simp: line_effect_def split: option.split)
  next
    case (Cons x xs)
    then show ?thesis using l field_line_strings [OF assms(1) l] trim_start_valid [of xs]
      by (auto simp: line_effect_def Let_def)
  qed
qed

text \<open>A parser whose bytes arrive and end with a line.\<close>

definition lines_end :: "sse_parser \<Rightarrow> bool" where
  "lines_end p \<longleftrightarrow> arrives (sp_reader p) \<and> (unread p = [] \<or> last (unread p) = 10) \<and> string_option (sp_last_event_id p)"

lemma read_line_strings:
  assumes "lines_end p"
  shows "\<exists>l p'. read_line p = (Ok l, p') \<and> utf8_valid l \<and> lines_end p'"
proof (cases "unread p = []")
  case True
  then obtain p' where "read_line p = (Ok [], p')" "has_left p' [] (sp_last_event_id p)"
    using read_line_end [of p "[]"] assms by (auto simp: has_left_def lines_end_def)
  then show ?thesis using assms by (auto simp: has_left_def lines_end_def)
next
  case False
  then have "10 \<in> set (unread p)" using assms last_in_set by (metis lines_end_def)
  then obtain l rest where u: "unread p = l @ 10 # rest" "10 \<notin> set l" using has_line by blast
  obtain buf es where n: "next_until (sp_buffer p) (sp_reader p) = (Ok (l @ [10], True), buf, es)"
    "buf @ delivery es = rest" "arrives es"
    using next_until_line [of "sp_reader p" "sp_buffer p" l rest] assms u by (auto simp: lines_end_def unread_def)
  have "rest = [] \<or> last rest = 10" using assms u(1) by (auto simp: lines_end_def split: if_splits)
  then have "lines_end (p\<lparr>sp_buffer := buf, sp_reader := es\<rparr>)" using n(2,3) assms by (simp add: lines_end_def unread_def)
  moreover have "utf8_valid (if utf8_valid (l @ [10]) then l @ [10] else concat (map latin1 (l @ [10])))"
    using latin1s_valid by presburger
  ultimately show ?thesis unfolding read_line_def n(1) by auto
qed

definition result_strings :: "parse_result \<Rightarrow> bool" where
  "result_strings x \<longleftrightarrow> event_strings (pr_event x) \<and> string_option (pr_last_known_id x)"

lemma build_parse_result_strings:
  assumes "event_strings e" "lines_end p"
  shows "\<exists>x p'. build_parse_result e p = (Ok (Some x), p') \<and> result_strings x \<and> lines_end p'"
  using assms by (cases e) (auto simp: build_parse_result_def result_strings_def lines_end_def string_option_def unread_def
      Let_def split: option.split)

lemma parse_loop_strings:
  "builder_strings b \<Longrightarrow> lines_end p \<Longrightarrow>
   \<exists>r p'. parse_loop b p = (Ok r, p') \<and> (\<forall>x. r = Some x \<longrightarrow> result_strings x) \<and> lines_end p'"
proof (induction b p rule: parse_loop.induct)
  case (1 b p)
  obtain l p1 where l: "read_line p = (Ok l, p1)" "utf8_valid l" "lines_end p1" using read_line_strings "1.prems"(2) by blast
  have built: "\<exists>r p'. build_parse_result e p1 = (Ok r, p') \<and> (\<forall>x. r = Some x \<longrightarrow> result_strings x) \<and> lines_end p'"
    if "event_strings e" for e
    using build_parse_result_strings [OF that l(3)] by auto
  show ?case
  proof (cases "l = []")
    case True
    then show ?thesis using l built build_event_strings [OF "1.prems"(1)]
      by (cases "build_event b") (auto simp: parse_loop.simps [of b p])
  next
    case False
    then show ?thesis
      using l built line_effect_strings [OF "1.prems"(1) l(2)] "1.IH" [OF l(1) [symmetric] refl False] l(3)
      by (cases "line_effect l b") (auto simp: parse_loop.simps [of b p])
  qed
qed

lemma sse_next_strings:
  assumes "lines_end p"
  shows "\<exists>r p'. sse_next p = (r, p') \<and> (\<forall>y. r = Some y \<longrightarrow> (\<exists>x. y = Ok x \<and> result_strings x)) \<and> lines_end p'"
  using parse_loop_strings [OF builder_new_strings assms]
  by (auto simp: sse_next_def sse_parse_next_def split: option.split)

lemma sse_polls_strings:
  "lines_end p \<Longrightarrow> y \<in> set (fst (sse_polls n p)) \<Longrightarrow> y = None \<or> (\<exists>x. y = Some (Ok x) \<and> result_strings x)"
proof (induction n arbitrary: p)
  case (Suc n)
  obtain r p' where s: "sse_next p = (r, p')" "\<forall>y. r = Some y \<longrightarrow> (\<exists>x. y = Ok x \<and> result_strings x)" "lines_end p'"
    using sse_next_strings [OF Suc.prems(1)] by blast
  then show ?case using Suc.IH [OF s(3)] Suc.prems(2) by (cases r) (auto split: prod.splits)
qed simp

text \<open>C28: Every string the client hands out is a string. Whatever bytes a server sends, valid UTF-8 or not and in
  whatever pieces, as long as they end with a line break no poll fails, and every text in what the polls
  give, identifiers, types, data and comments, is valid UTF-8.
\<close>
theorem delivered_strings_are_utf8:
  assumes "arrives r" "delivery r = [] \<or> last (delivery r) = 10" "y \<in> set (fst (sse_polls n (sse_parser_new r)))"
  shows "y = None \<or> (\<exists>x. y = Some (Ok x) \<and> event_strings (pr_event x) \<and> string_option (pr_last_known_id x))"
proof -
  have "lines_end (sse_parser_new r)" using assms(1,2) by (simp add: lines_end_def sse_parser_new_def unread_def string_option_def)
  from sse_polls_strings [OF this assms(3)] show ?thesis by (simp add: result_strings_def)
qed

text \<open>
  An unterminated last line is put into a \<open>String\<close> unchecked: a stream that ends within a line with a
  byte that is not UTF-8 gives a message whose data is not a string.
\<close>
theorem unterminated_line_is_no_string:
  "\<exists>x. fst (sse_next (sse_parser_new [Chunk (lit ''data: '' @ [0xFF])])) = Some (Ok x) \<and> \<not> event_strings (pr_event x)"
proof -
  define d where "d = lit ''data: '' @ [0xFF]"
  have d: "d = [100, 97, 116, 97, 58, 32, 255]" by (simp add: d_def lit_def of_char_def)
  then have d_cons: "d \<noteq> []" by simp
  define b where "b = event_builder_new\<lparr>eb_data := [[0xFF]]\<rparr>"
  have "line_effect d event_builder_new = Goes_On b"
    by (simp add: d b_def line_effect_def line_body_def pop_end_def field_line_def process_field_def lit_def of_char_def
        event_builder_new_def)
  moreover obtain p1 where p1: "read_line (sse_parser_new [Chunk d]) = (Ok d, p1)" "has_left p1 [] None"
    using read_line_end [of "sse_parser_new [Chunk d]" d None] has_left_new [of "[Chunk d]"] by (auto simp: d)
  ultimately have "parse_loop event_builder_new (sse_parser_new [Chunk d]) = parse_loop b p1"
    using d_cons by (simp add: parse_loop.simps [of event_builder_new "sse_parser_new [Chunk d]"])
  moreover obtain p2 where "read_line p1 = (Ok [], p2)" using read_line_end [OF p1(2)] by auto
  moreover have "build_event b = Some (Message None None [0xFF] None)"
    by (simp add: build_event_def b_def event_builder_new_def)
  ultimately show ?thesis unfolding sse_next_def sse_parse_next_def d_def [symmetric]
    by (simp add: parse_loop.simps [of b p1] build_parse_result_def)
qed

theorem delivered_strings_are_utf8_witness:
  "\<exists>y \<in> set (fst (sse_polls 1 (sse_parser_new [Chunk (lit ''data: '' @ [0xFF, 10, 10])]))).
     y = None \<or> (\<exists>x. y = Some (Ok x) \<and> event_strings (pr_event x) \<and> string_option (pr_last_known_id x))"
proof -
  let ?p = "sse_parser_new [Chunk (lit ''data: '' @ [0xFF, 10, 10])]"
  obtain y where y: "y \<in> set (fst (sse_polls 1 ?p))" by (cases "sse_next ?p") simp
  have "y = None \<or> (\<exists>x. y = Some (Ok x) \<and> event_strings (pr_event x) \<and> string_option (pr_last_known_id x))"
    by (rule delivered_strings_are_utf8 [OF _ _ y]) simp_all
  with y show ?thesis by blast
qed

end
