(* ===== verification/Interleave.thy ===== *)
theory Interleave
  imports Prelude
begin

text \<open>
  Code that several threads run at once. An agent is one call and the guard it returns; what it has
  reached in the code is its local state, a datatype with one constructor for each place between two
  atomic accesses. A step of an agent is one atomic access to the shared state with the local work up
  to the next: a function of the shared state, of the agent's place, and of a choice, which says what
  an idle agent calls and whether a weak compare-exchange fails for no reason. A thread with several
  guards is several agents. Any number of agents may run, in any order.

  Atomic accesses take effect one at a time and a load reads the latest value. Every component here
  has all its accesses on one or two atomics, and the orderings it asks for are not looked at.
\<close>

record ('s, 'l) system =
  shared :: 's
  agent :: "nat \<Rightarrow> 'l"

type_synonym ('c, 's, 'l) steps = "'c \<Rightarrow> 's \<Rightarrow> 'l \<Rightarrow> 's \<times> 'l"

lemma system_id [simp]: "\<lparr>shared = shared z, agent = agent z\<rparr> = (z :: ('s, 'l) system)"
  by (cases z) simp

definition agent_step :: "('c, 's, 'l) steps \<Rightarrow> nat \<Rightarrow> 'c \<Rightarrow> ('s, 'l) system \<Rightarrow> ('s, 'l) system" where
  "agent_step step t c z = (case step c (shared z) (agent z t) of
     (s, l) \<Rightarrow> \<lparr>shared = s, agent = (agent z)(t := l)\<rparr>)"

text \<open>Evaluating a schedule: one step at a time from a state that is written out.\<close>

lemma agent_step_at:
  "agent_step step t c \<lparr>shared = s, agent = f\<rparr> = (case step c s (f t) of (s', l) \<Rightarrow> \<lparr>shared = s', agent = f(t := l)\<rparr>)"
  by (simp add: agent_step_def)

fun run_schedule :: "('c, 's, 'l) steps \<Rightarrow> (nat \<times> 'c) list \<Rightarrow> ('s, 'l) system \<Rightarrow> ('s, 'l) system" where
  "run_schedule step [] z = z"
| "run_schedule step ((t, c) # cs) z = run_schedule step cs (agent_step step t c z)"

inductive reaches :: "('c, 's, 'l) steps \<Rightarrow> ('s, 'l) system \<Rightarrow> ('s, 'l) system \<Rightarrow> bool"
  for step z0 where
  start: "reaches step z0 z0"
| step: "reaches step z0 z \<Longrightarrow> reaches step z0 (agent_step step t c z)"

lemma run_schedule_append: "run_schedule step (cs @ ds) z = run_schedule step ds (run_schedule step cs z)"
  by (induction cs arbitrary: z) auto

lemma reaches_run: "reaches step z0 z \<Longrightarrow> reaches step z0 (run_schedule step cs z)"
proof (induction cs arbitrary: z)
  case (Cons tc cs)
  obtain t c where "tc = (t, c)" by fastforce
  then show ?case using Cons.IH [OF reaches.step [OF Cons.prems]] by simp
qed simp

lemma reaches_schedule: "reaches step z0 (run_schedule step cs z0)"
  by (intro reaches_run reaches.start)

lemma reaches_iff_schedule: "reaches step z0 z \<longleftrightarrow> (\<exists>cs. z = run_schedule step cs z0)"
proof
  assume "reaches step z0 z"
  then show "\<exists>cs. z = run_schedule step cs z0"
  proof induction
    case start
    show ?case by (rule exI [of _ "[]"]) simp
  next
    case (step z t c)
    then obtain cs where "z = run_schedule step cs z0" by blast
    then have "agent_step step t c z = run_schedule step (cs @ [(t, c)]) z0"
      by (simp add: run_schedule_append)
    then show ?case by blast
  qed
qed (auto intro: reaches_schedule)

lemma reaches_trans: "reaches step z0 z \<Longrightarrow> reaches step z z' \<Longrightarrow> reaches step z0 z'"
  by (metis reaches_iff_schedule run_schedule_append)

lemma reaches_invariant:
  assumes "reaches step z0 z" "P z0" "\<And>z t c. P z \<Longrightarrow> P (agent_step step t c z)"
  shows "P z"
  using assms(1,2) by induction (auto intro: assms(3))

lemma agent_step_split:
  assumes "\<And>s l. step c (shared z) (agent z t) = (s, l) \<Longrightarrow> P \<lparr>shared = s, agent = (agent z)(t := l)\<rparr>"
  shows "P (agent_step step t c z)"
  using assms by (simp add: agent_step_def split: prod.split)

lemma agent_step_other: "u \<noteq> t \<Longrightarrow> agent (agent_step step t c z) u = agent z u"
  by (simp add: agent_step_def split: prod.split)

text \<open>An agent that runs alone for a while.\<close>

fun run_alone :: "('c, 's, 'l) steps \<Rightarrow> 'c list \<Rightarrow> 's \<times> 'l \<Rightarrow> 's \<times> 'l" where
  "run_alone step [] sl = sl"
| "run_alone step (c # cs) sl = run_alone step cs (step c (fst sl) (snd sl))"

lemma run_schedule_alone:
  "run_schedule step (map (Pair t) cs) z = (case run_alone step cs (shared z, agent z t) of
     (s, l) \<Rightarrow> \<lparr>shared = s, agent = (agent z)(t := l)\<rparr>)"
  by (induction cs arbitrary: z) (simp_all add: agent_step_def split: prod.split)

section \<open>The agents at a place\<close>

definition agents :: "('l \<Rightarrow> bool) \<Rightarrow> ('s, 'l) system \<Rightarrow> nat set" where
  "agents P z = {t. P (agent z t)}"

lemma in_agents [simp]: "t \<in> agents P z \<longleftrightarrow> P (agent z t)"
  by (simp add: agents_def)

lemma agents_upd [simp]:
  "agents P \<lparr>shared = s, agent = (agent z)(t := l)\<rparr>
   = (if P l then insert t (agents P z) else agents P z - {t})"
  by (auto simp: agents_def)

lemma agents_same: "P l = P (agent z t) \<Longrightarrow> agents P \<lparr>shared = s, agent = (agent z)(t := l)\<rparr> = agents P z"
  by (auto simp: agents_def)

lemma agents_none: "\<not> P l \<Longrightarrow> agents P \<lparr>shared = s, agent = \<lambda>_. l\<rparr> = {}"
  by (simp add: agents_def)

text \<open>The agents of a set are one exactly when a flag says so: a flag that one of them set.\<close>

definition sole :: "bool \<Rightarrow> nat set \<Rightarrow> bool" where
  "sole b T \<longleftrightarrow> (if b then \<exists>t. T = {t} else T = {})"

lemma sole_same: "sole b T \<Longrightarrow> t \<in> T \<Longrightarrow> u \<in> T \<Longrightarrow> u = t"
  by (auto simp: sole_def split: if_splits)

lemma sole_True: "sole b T \<Longrightarrow> t \<in> T \<Longrightarrow> b"
  by (auto simp: sole_def split: if_splits)

lemma sole_empty: "sole b T \<Longrightarrow> T = {} \<longleftrightarrow> \<not> b"
  by (auto simp: sole_def split: if_splits)

lemma sole_update:
  assumes "sole b (agents P z)"
    and "if P (agent z t) then b' = P l else if P l then \<not> b \<and> b' else b' = b"
  shows "sole b' (agents P \<lparr>shared = s, agent = (agent z)(t := l)\<rparr>)"
proof -
  have "t \<in> agents P z \<longleftrightarrow> P (agent z t)" by simp
  then show ?thesis using assms sole_same [OF assms(1), of t] sole_True [OF assms(1), of t]
    by (auto simp: sole_def simp del: in_agents split: if_splits)
qed

text \<open>A word that counts the agents at a place.\<close>

lemma count_update:
  fixes n :: "'w::len word"
  assumes "finite (agents P z)" "n = of_nat (card (agents P z))"
    and "if P l = P (agent z t) then n' = n else if P l then n' = n + 1 else n' = n - 1"
  shows "n' = of_nat (card (agents P \<lparr>shared = s, agent = (agent z)(t := l)\<rparr>))"
proof (cases "P l = P (agent z t)")
  case True
  then show ?thesis using assms(2,3) by (simp only: agents_same if_True)
next
  case False
  show ?thesis
  proof (cases "P l")
    case True
    then have "card (insert t (agents P z)) = card (agents P z) + 1" using False assms(1) by simp
    then show ?thesis using True False assms(2,3) by simp
  next
    case neg: False
    then have "card (agents P z) = card (agents P z - {t}) + 1"
      using False assms(1) by (metis Suc_eq_plus1 card_Suc_Diff1 in_agents)
    then have "n = of_nat (card (agents P z - {t})) + 1" using assms(2) by (metis of_nat_1 of_nat_add)
    then show ?thesis using neg False assms(3) by (simp only: agents_upd if_False) simp
  qed
qed

text \<open>An invariant of this shape: a flag of the shared state says whether one agent is at a place of \<open>P\<close>,
  and what each agent remembers fits the shared state. Others are only looked at when not both are in \<open>P\<close>.\<close>

lemma sole_remember_step:
  assumes sole: "sole (b (shared z)) (agents P z)" and rem: "\<And>u. Q (shared z) (agent z u)"
    and own: "Q s l"
    and flag: "if P (agent z t) then b s = P l else if P l then \<not> b (shared z) \<and> b s else b s = b (shared z)"
    and others: "\<And>q. Q (shared z) q \<Longrightarrow> \<not> (P (agent z t) \<and> P q) \<Longrightarrow> Q s q"
  shows "sole (b s) (agents P \<lparr>shared = s, agent = (agent z)(t := l)\<rparr>) \<and> (\<forall>u. Q s (((agent z)(t := l)) u))"
proof
  show "\<forall>u. Q s (((agent z)(t := l)) u)"
    using own others [OF rem] sole_same [OF sole, of t] by (auto simp: fun_upd_def)
qed (rule sole_update [OF sole flag])

section \<open>What a lock promises\<close>

text \<open>
  The contract of a lock and the data behind it. \<open>owns\<close> and \<open>shares\<close> say in which places an agent
  holds a guard that may write or that may only read.
\<close>

locale guard_lock =
  fixes step :: "('c, 's, 'l) steps"
    and inv :: "('s, 'l) system \<Rightarrow> bool"
    and owns shares :: "'l \<Rightarrow> bool"
  assumes inv_step: "inv z \<Longrightarrow> inv (agent_step step t c z)"
    and exclusive: "inv z \<Longrightarrow> owns (agent z t) \<Longrightarrow> owns (agent z u) \<or> shares (agent z u) \<Longrightarrow> u = t"

text \<open>
  A client reaches the data through its guard: \<open>Borrow\<close> reads it and keeps what it read, \<open>Update f\<close>
  writes back \<open>f\<close> of what was read and ends the borrow, \<open>Release\<close> ends it without writing. A guard
  is not dropped while a borrow of it lasts. The updates are logged in the order they take effect.
\<close>

datatype ('c, 'd) guard_use = Lock_Code 'c | Borrow | Update "'d \<Rightarrow> 'd" | Release

record ('s, 'd) guarded =
  lock_state :: 's
  data :: 'd
  updates :: "('d \<Rightarrow> 'd) list"

definition guarded_step ::
  "('c, 's, 'l) steps \<Rightarrow> ('l \<Rightarrow> bool) \<Rightarrow> ('l \<Rightarrow> bool) \<Rightarrow> (('c, 'd) guard_use, ('s, 'd) guarded, 'l \<times> 'd option) steps" where
  "guarded_step step owns shares c g lr = (case (c, lr) of
     (Lock_Code c, (l, None)) \<Rightarrow> (case step c (lock_state g) l of (s, l') \<Rightarrow> (g\<lparr>lock_state := s\<rparr>, (l', None)))
   | (Borrow, (l, r)) \<Rightarrow> (if owns l \<or> shares l then (g, (l, Some (data g))) else (g, (l, r)))
   | (Update f, (l, Some v)) \<Rightarrow>
       (if owns l then (g\<lparr>data := f v, updates := updates g @ [f]\<rparr>, (l, None)) else (g, (l, Some v)))
   | (Release, (l, _)) \<Rightarrow> (g, (l, None))
   | _ \<Rightarrow> (g, lr))"

definition lock_of :: "(('s, 'd) guarded, 'l \<times> 'd option) system \<Rightarrow> ('s, 'l) system" where
  "lock_of z = \<lparr>shared = lock_state (shared z), agent = \<lambda>t. fst (agent z t)\<rparr>"

definition guarded_start :: "('s, 'l) system \<Rightarrow> 'd \<Rightarrow> (('s, 'd) guarded, 'l \<times> 'd option) system" where
  "guarded_start z0 d =
     \<lparr>shared = \<lparr>lock_state = shared z0, data = d, updates = []\<rparr>, agent = \<lambda>t. (agent z0 t, None)\<rparr>"

definition serial :: "'d \<Rightarrow> (('s, 'd) guarded, 'l \<times> 'd option) system \<Rightarrow> bool" where
  "serial d z \<longleftrightarrow> data (shared z) = fold (\<lambda>f. f) (updates (shared z)) d \<and>
     (\<forall>t v. snd (agent z t) = Some v \<longrightarrow> v = data (shared z))"

lemma lock_of_start: "lock_of (guarded_start z0 d) = \<lparr>shared = shared z0, agent = agent z0\<rparr>"
  by (simp add: lock_of_def guarded_start_def)

lemma lock_of_code:
  assumes "agent z t = (l, None)"
  shows "lock_of (agent_step (guarded_step step owns shares) t (Lock_Code e) z) = agent_step step t e (lock_of z)"
  using assms by (auto simp: lock_of_def agent_step_def guarded_step_def fun_eq_iff split: prod.split)

lemma lock_of_use:
  assumes "(\<forall>e. c \<noteq> Lock_Code e) \<or> snd (agent z t) \<noteq> None"
  shows "lock_of (agent_step (guarded_step step owns shares) t c z) = lock_of z"
proof -
  obtain l r where "agent z t = (l, r)" by fastforce
  then show ?thesis using assms
    by (cases c; cases r) (auto simp: lock_of_def agent_step_def guarded_step_def fun_eq_iff)
qed

context guard_lock begin

definition guarded_inv :: "'d \<Rightarrow> (('s, 'd) guarded, 'l \<times> 'd option) system \<Rightarrow> bool" where
  "guarded_inv d z \<longleftrightarrow> inv (lock_of z) \<and> serial d z \<and>
     (\<forall>t v. snd (agent z t) = Some v \<longrightarrow> owns (fst (agent z t)) \<or> shares (fst (agent z t)))"

lemma guarded_inv_lock: "guarded_inv d z \<Longrightarrow> inv (lock_of (agent_step (guarded_step step owns shares) t c z))"
  using lock_of_use [of c z t step owns shares] lock_of_code [of z t _ step owns shares] inv_step
  by (cases c; cases "agent z t") (fastforce simp: guarded_inv_def)+

lemma guarded_inv_step:
  assumes "guarded_inv d z"
  shows "guarded_inv d (agent_step (guarded_step step owns shares) t c z)"
proof -
  let ?z = "agent_step (guarded_step step owns shares) t c z"
  obtain l r where a: "agent z t = (l, r)" by fastforce
  have lock: "inv (lock_of ?z)" using guarded_inv_lock [OF assms] .
  note inv = assms [unfolded guarded_inv_def serial_def]
  have ex: "u = t" if "owns l" "snd (agent z u) = Some v" for u v
    using exclusive [of "lock_of z" t u] inv that a by (auto simp: lock_of_def)
  have own: "v = data (shared z)" "\<not> shares l \<Longrightarrow> owns l" if "r = Some v" for v
    using spec [of _ t] inv a that by (metis fst_conv snd_conv)+
  show ?thesis unfolding guarded_inv_def serial_def
    by (intro conjI lock; cases c; cases r)
      (use inv a ex own in \<open>auto simp: agent_step_def guarded_step_def split: prod.splits\<close>)
qed

theorem guarded_serial:
  assumes "inv z0" "reaches (guarded_step step owns shares) (guarded_start z0 d) z"
  shows "serial d z"
proof -
  have "lock_of (guarded_start z0 d) = z0" by (simp add: lock_of_start)
  then have "guarded_inv d (guarded_start z0 d)"
    using assms(1) by (simp add: guarded_inv_def serial_def guarded_start_def)
  then have "guarded_inv d z"
    using guarded_inv_step by (rule reaches_invariant [OF assms(2)])
  then show ?thesis by (simp add: guarded_inv_def)
qed

lemma exclusive_reachable:
  assumes "inv z0" "reaches step z0 z" "owns (agent z t)" "owns (agent z u) \<or> shares (agent z u)"
  shows "u = t"
proof -
  have "inv z" using assms(2,1) inv_step by (rule reaches_invariant)
  then show ?thesis using exclusive assms(3,4) by blast
qed

end

end
