(* ===== verification/RwBits.thy ===== *)
theory RwBits
  imports Interleave
begin

unbundle bit_operations_syntax

text \<open>
  The state word that the three read-write locks of \<open>foundation_nostd/src/primitives\<close> share: the number
  of readers in its low 30 bits, a mark that a writer waits in bit 30, and a writer in bit 31. What the
  words mean for the agents that hold guards is one predicate, and the five things a lock does to a
  word keep it.
\<close>

definition READER_MASK :: "32 word" where "READER_MASK = 2 ^ 30 - 1"
definition WRITER_WAITING :: "32 word" where "WRITER_WAITING = 2 ^ 30"
definition WRITER_ACTIVE :: "32 word" where "WRITER_ACTIVE = 2 ^ 31"
definition MAX_READERS :: "32 word" where "MAX_READERS = READER_MASK"

definition readers_of :: "32 word \<Rightarrow> nat" where
  "readers_of s = unat (s AND READER_MASK)"

definition waiting :: "32 word \<Rightarrow> bool" where
  "waiting s \<longleftrightarrow> s AND WRITER_WAITING \<noteq> 0"

definition writing :: "32 word \<Rightarrow> bool" where
  "writing s \<longleftrightarrow> s AND WRITER_ACTIVE \<noteq> 0"

lemma readers_of_mod: "readers_of s = unat s mod 2 ^ 30"
proof -
  have "s AND READER_MASK = take_bit 30 s"
    by (simp only: READER_MASK_def mask_eq_exp_minus_1 [symmetric] take_bit_eq_mask)
  then have "readers_of s = take_bit 30 (unat s)" by (simp only: readers_of_def unsigned_take_bit_eq)
  then show ?thesis by (simp only: take_bit_eq_mod)
qed

lemma word_bit_odd: "n < 32 \<Longrightarrow> s AND 2 ^ n \<noteq> 0 \<longleftrightarrow> odd (unat s div 2 ^ n)" for s :: "32 word"
proof -
  have "bit s n \<longleftrightarrow> bit (unat s) n" by (simp add: bit_unsigned_iff)
  then show ?thesis by (simp only: and_exp_eq_0_iff_not_bit not_not bit_iff_odd [of "unat s"])
qed

lemma waiting_div: "waiting s \<longleftrightarrow> odd (unat s div 2 ^ 30)"
  unfolding waiting_def WRITER_WAITING_def by (rule word_bit_odd) simp

lemma writing_div: "writing s \<longleftrightarrow> odd (unat s div 2 ^ 31)"
  unfolding writing_def WRITER_ACTIVE_def by (rule word_bit_odd) simp

lemma readers_zero_iff: "s AND READER_MASK = 0 \<longleftrightarrow> readers_of s = 0"
  by (simp add: readers_of_def unsigned_eq_0_iff)

lemma no_writer_iff: "s AND (WRITER_ACTIVE OR WRITER_WAITING) = 0 \<longleftrightarrow> \<not> writing s \<and> \<not> waiting s"
  by (simp add: writing_def waiting_def bit.conj_disj_distrib or_eq_0_iff)

lemma writing_half: "writing s \<longleftrightarrow> odd (unat s div 2 ^ 30 div 2)"
  by (simp add: writing_div div_mult2_eq [symmetric])

lemma idle_word:
  assumes "readers_of s = 0" "\<not> writing s" "\<not> waiting s"
  shows "s = 0"
proof -
  define k where "k = unat s div 2 ^ 30"
  have "unat s < 2 ^ 32" using unsigned_less [of s] by simp
  then have "k < 4" by (simp add: k_def less_mult_imp_div_less)
  moreover have "even k" "even (k div 2)" using assms(2,3) by (simp_all add: k_def waiting_div writing_half)
  ultimately have "k = 0" by presburger
  moreover have "unat s = k * 2 ^ 30 + unat s mod 2 ^ 30" unfolding k_def by simp
  ultimately have "unat s = 0" using assms(1) by (simp add: readers_of_mod)
  then show ?thesis by (simp add: unsigned_eq_0_iff)
qed

section \<open>What a lock does to the word\<close>

lemma word_new: "readers_of 0 = 0" "\<not> writing 0" "\<not> waiting 0"
  by (simp_all add: readers_of_def writing_def waiting_def)

lemma word_active: "readers_of WRITER_ACTIVE = 0" "writing WRITER_ACTIVE" "\<not> waiting WRITER_ACTIVE"
  by (simp_all add: readers_of_mod writing_div waiting_div WRITER_ACTIVE_def)

lemma word_enter:
  assumes "\<not> writing s" "\<not> waiting s" "s < MAX_READERS"
  shows "readers_of (s + 1) = readers_of s + 1" "\<not> writing (s + 1)" "\<not> waiting (s + 1)"
proof -
  have l: "unat s < 2 ^ 30 - 1"
    using assms(3) by (simp add: MAX_READERS_def READER_MASK_def word_less_nat_alt)
  then have "unat (s + 1) = unat s + 1" by (subst unat_word_ariths) simp
  then show "readers_of (s + 1) = readers_of s + 1" "\<not> writing (s + 1)" "\<not> waiting (s + 1)"
    using l by (simp_all add: readers_of_mod writing_div waiting_div)
qed

lemma word_leave:
  assumes "0 < readers_of s"
  shows "readers_of (s - 1) + 1 = readers_of s" "writing (s - 1) = writing s" "waiting (s - 1) = waiting s"
proof -
  have m: "0 < unat s mod 2 ^ 30" using assms by (simp add: readers_of_mod)
  then have "s \<noteq> 0" by auto
  then have u: "unat (s - 1) = unat s - 1" by (rule unat_minus_one)
  obtain q r where qr: "unat s = q * 2 ^ 30 + r" "r < 2 ^ 30" "0 < r"
    using m by (metis div_mult_mod_eq mod_less_divisor zero_less_numeral zero_less_power)
  have "unat s - 1 = q * 2 ^ 30 + (r - 1)" using qr by simp
  then have d: "(unat s - 1) div 2 ^ 30 = q" "(unat s - 1) mod 2 ^ 30 = r - 1" using qr(2) by simp_all
  have d': "unat s div 2 ^ 30 = q" "unat s mod 2 ^ 30 = r" using qr by simp_all
  show "readers_of (s - 1) + 1 = readers_of s" using d d' qr(3) by (simp add: readers_of_mod u)
  show "writing (s - 1) = writing s" "waiting (s - 1) = waiting s"
    by (simp_all only: writing_half waiting_div u d d')
qed

lemma word_mark:
  "readers_of (s OR WRITER_WAITING) = readers_of s" "writing (s OR WRITER_WAITING) = writing s"
  "waiting (s OR WRITER_WAITING)"
proof -
  have "(s OR WRITER_WAITING) AND READER_MASK = s AND READER_MASK"
    "(s OR WRITER_WAITING) AND WRITER_ACTIVE = s AND WRITER_ACTIVE"
    by (simp_all add: bit.conj_disj_distrib2 READER_MASK_def WRITER_WAITING_def WRITER_ACTIVE_def)
  moreover have "(s OR WRITER_WAITING) AND WRITER_WAITING = WRITER_WAITING" by (simp add: ac_simps)
  ultimately show "readers_of (s OR WRITER_WAITING) = readers_of s"
    "writing (s OR WRITER_WAITING) = writing s" "waiting (s OR WRITER_WAITING)"
    by (simp_all add: readers_of_def writing_def waiting_def WRITER_WAITING_def)
qed

section \<open>What the word says of the agents\<close>

text \<open>The agents with a read guard are as many as the word counts, one has the write guard exactly when
  the word says so, and then there are no readers.\<close>

definition rw_word :: "32 word \<Rightarrow> nat set \<Rightarrow> nat set \<Rightarrow> bool" where
  "rw_word s R W \<longleftrightarrow> finite R \<and> readers_of s = card R \<and> sole (writing s) W \<and> (writing s \<longrightarrow> R = {})"

text \<open>What one step may do to the word, by what the moving agent held before and holds after it.\<close>

definition rw_effect :: "32 word \<Rightarrow> 32 word \<Rightarrow> bool \<times> bool \<Rightarrow> bool \<times> bool \<Rightarrow> bool" where
  "rw_effect s s' before after \<longleftrightarrow> (case (before, after) of
     ((False, False), (True, False)) \<Rightarrow>
       \<not> writing s \<and> \<not> writing s' \<and> readers_of s' = readers_of s + 1
   | ((True, False), (False, False)) \<Rightarrow> writing s' = writing s \<and> readers_of s' + 1 = readers_of s
   | ((False, False), (False, True)) \<Rightarrow>
       readers_of s = 0 \<and> \<not> writing s \<and> readers_of s' = 0 \<and> writing s'
   | ((False, True), (False, False)) \<Rightarrow> readers_of s' = 0 \<and> \<not> writing s'
   | _ \<Rightarrow> after = before \<and> readers_of s' = readers_of s \<and> writing s' = writing s)"

lemma rw_word_readers: "rw_word s R W \<Longrightarrow> t \<in> R \<Longrightarrow> 0 < readers_of s"
  by (auto simp: rw_word_def card_gt_0_iff)

lemma rw_word_start: "rw_word 0 {} {}"
  by (simp add: rw_word_def word_new sole_def)

lemma rw_word_step:
  assumes "rw_word s R W" "rw_effect s s' (t \<in> R, t \<in> W) (rd, wr)"
  shows "rw_word s' (if rd then insert t R else R - {t}) (if wr then insert t W else W - {t})"
proof -
  have W: "W = {} \<longleftrightarrow> \<not> writing s" "t \<in> W \<Longrightarrow> W = {t} \<and> R = {}"
    using assms(1) by (auto simp: rw_word_def sole_def split: if_splits)
  have R: "finite R" "readers_of s = card R" using assms(1) by (simp_all add: rw_word_def)
  have c: "t \<in> R \<Longrightarrow> card (R - {t}) + 1 = card R" "t \<notin> R \<Longrightarrow> card (insert t R) = card R + 1"
    using R(1) by (metis Suc_eq_plus1 card_Suc_Diff1) (simp add: R(1))
  show ?thesis
    using assms(2) assms(1) W R c
    by (cases rd; cases wr; cases "t \<in> R"; cases "t \<in> W")
      (auto simp: rw_effect_def rw_word_def sole_def insert_absorb card_0_eq split: if_splits)
qed

lemma rw_word_agents:
  assumes "rw_word s (agents rd z) (agents wr z)"
    and "rw_effect s s' (rd (agent z t), wr (agent z t)) (rd l, wr l)"
  shows "rw_word s' (agents rd \<lparr>shared = v, agent = (agent z)(t := l)\<rparr>)
    (agents wr \<lparr>shared = v, agent = (agent z)(t := l)\<rparr>)"
  using rw_word_step [OF assms(1), of s' t "rd l" "wr l"] assms(2) by simp

lemma rw_word_exclusive:
  assumes "rw_word s R W" "t \<in> W" "u \<in> W \<or> u \<in> R"
  shows "u = t"
  using assms sole_same [of "writing s" W t u] sole_True [of "writing s" W t] by (auto simp: rw_word_def)

lemma rw_word_unheld: "rw_word s {} {} \<Longrightarrow> readers_of s = 0 \<and> \<not> writing s"
  by (auto simp: rw_word_def sole_def split: if_splits)

end
