(* ===== verification/SpinMutexes.thy ===== *)
theory SpinMutexes
  imports Interleave
begin

unbundle bit_operations_syntax

text \<open>
  The mutual exclusion locks of \<open>foundation_nostd/src/primitives\<close>: \<open>SpinWait\<close> (\<open>spin_wait.rs\<close>),
  \<open>RawSpinMutex\<close> (\<open>raw_spin_mutex.rs\<close>) and \<open>SpinMutex\<close> (\<open>spin_mutex.rs\<close>), the \<open>Mutex\<close> under which
  \<open>foundation_wasm\<close> keeps its tables. The places of an agent follow the source: one for each atomic
  access, with the values loaded so far. \<open>Deref\<close> and \<open>DerefMut\<close>, which give the data to the holder of
  a guard, are the uses of a guard in \<open>Interleave\<close>.
\<close>

section \<open>SpinWait\<close>

record spin_wait =
  sw_counter :: "32 word"

definition SPIN_LIMIT :: "32 word" where
  "SPIN_LIMIT = 10"

definition spin_wait_new :: spin_wait where
  "spin_wait_new = \<lparr>sw_counter = 0\<rparr>"

text \<open>The hints given to the processor, the answer, and the next state.\<close>

definition spin :: "spin_wait \<Rightarrow> nat \<times> bool \<times> spin_wait" where
  "spin w = (if sw_counter w \<ge> SPIN_LIMIT then (0, False, w)
     else (2 ^ unat (min (sw_counter w) 31), True, \<lparr>sw_counter = sw_counter w + 1\<rparr>))"

definition spin_wait_reset :: "spin_wait \<Rightarrow> spin_wait" where
  "spin_wait_reset w = w\<lparr>sw_counter := 0\<rparr>"

definition is_exhausted :: "spin_wait \<Rightarrow> bool" where
  "is_exhausted w \<longleftrightarrow> sw_counter w \<ge> SPIN_LIMIT"

abbreviation spun :: "spin_wait \<Rightarrow> spin_wait" where
  "spun w \<equiv> snd (snd (spin w))"

fun hints_of :: "nat \<Rightarrow> spin_wait \<Rightarrow> nat" where
  "hints_of 0 w = 0"
| "hints_of (Suc n) w = fst (spin w) + hints_of n (spun w)"

lemma spin_hints: "sw_counter w \<le> SPIN_LIMIT \<Longrightarrow> hints_of n w + 2 ^ unat (sw_counter w) \<le> 2 ^ 10"
proof (induction n arbitrary: w)
  case 0
  then have "unat (sw_counter w) \<le> 10" by (simp add: SPIN_LIMIT_def word_le_nat_alt)
  then have "(2::nat) ^ unat (sw_counter w) \<le> 2 ^ 10" by (intro power_increasing) auto
  then show ?case by simp
next
  case (Suc n)
  show ?case
  proof (cases "sw_counter w \<ge> SPIN_LIMIT")
    case True
    then show ?thesis using Suc.IH [of w] Suc.prems by (simp add: spin_def)
  next
    case False
    then have c: "unat (sw_counter w) < 10" by (simp add: SPIN_LIMIT_def word_le_nat_alt)
    then have s: "unat (sw_counter w + 1) = unat (sw_counter w) + 1"
      by (subst unat_word_ariths) simp
    have "sw_counter (spun w) \<le> SPIN_LIMIT"
      using False c s by (simp add: spin_def SPIN_LIMIT_def word_le_nat_alt)
    moreover have "min (sw_counter w) 31 = sw_counter w"
      using c by (simp add: min_def word_le_nat_alt)
    ultimately show ?thesis using Suc.IH [of "spun w"] False s by (simp add: spin_def)
  qed
qed

section \<open>What an agent calls\<close>

text \<open>A choice: the call an idle agent makes, or the drop of its guard, and whether a weak
  compare-exchange fails although the value is the expected one.\<close>

datatype mutex_call = Call_lock | Call_try_lock | Call_try_lock_with_spin_limit nat | Call_drop

record mutex_choice =
  mc_call :: mutex_call
  mc_spurious :: bool

abbreviation calls :: "mutex_call \<Rightarrow> mutex_choice" where
  "calls m \<equiv> \<lparr>mc_call = m, mc_spurious = False\<rparr>"

section \<open>RawSpinMutex\<close>

datatype raw_mutex_place =
    RM_idle
  | RM_lock                        \<comment> \<open>\<open>lock\<close>, before its compare-exchange\<close>
  | RM_lock_slow spin_wait
  | RM_try_lock
  | RM_limit nat                   \<comment> \<open>rounds left of \<open>try_lock_with_spin_limit\<close>\<close>
  | RM_guard
  | RM_none                        \<comment> \<open>the call returned \<open>None\<close>\<close>

definition raw_mutex_new :: "(bool, raw_mutex_place) system" where
  "raw_mutex_new = \<lparr>shared = False, agent = \<lambda>_. RM_idle\<rparr>"

fun raw_mutex_step :: "(mutex_choice, bool, raw_mutex_place) steps" where
  "raw_mutex_step c locked RM_idle = (locked, case mc_call c of
      Call_lock \<Rightarrow> RM_lock
    | Call_try_lock \<Rightarrow> RM_try_lock
    | Call_try_lock_with_spin_limit n \<Rightarrow> RM_limit n
    | Call_drop \<Rightarrow> RM_idle)"
| "raw_mutex_step c locked RM_lock =
     (if \<not> locked then (True, RM_guard) else (locked, RM_lock_slow spin_wait_new))"
| "raw_mutex_step c locked (RM_lock_slow w) =
     (if \<not> locked \<and> \<not> mc_spurious c then (True, RM_guard) else (locked, RM_lock_slow (spun w)))"
| "raw_mutex_step c locked RM_try_lock = (if \<not> locked then (True, RM_guard) else (locked, RM_none))"
| "raw_mutex_step c locked (RM_limit 0) = (locked, RM_none)"
| "raw_mutex_step c locked (RM_limit (Suc n)) =
     (if \<not> locked \<and> \<not> mc_spurious c then (True, RM_guard) else (locked, RM_limit n))"
| "raw_mutex_step c locked RM_guard = (if mc_call c = Call_drop then (False, RM_idle) else (locked, RM_guard))"
| "raw_mutex_step c locked RM_none = (locked, RM_idle)"

fun raw_mutex_owns :: "raw_mutex_place \<Rightarrow> bool" where
  "raw_mutex_owns RM_guard = True"
| "raw_mutex_owns _ = False"

definition raw_mutex_inv :: "(bool, raw_mutex_place) system \<Rightarrow> bool" where
  "raw_mutex_inv z \<longleftrightarrow> sole (shared z) (agents raw_mutex_owns z)"

lemma raw_mutex_inv_step: "raw_mutex_inv z \<Longrightarrow> raw_mutex_inv (agent_step raw_mutex_step t c z)"
proof (rule agent_step_split)
  fix s l assume inv: "raw_mutex_inv z" and st: "raw_mutex_step c (shared z) (agent z t) = (s, l)"
  have "if raw_mutex_owns (agent z t) then s = raw_mutex_owns l
    else if raw_mutex_owns l then \<not> shared z \<and> s else s = shared z"
    using st sole_True [of "shared z" "agents raw_mutex_owns z" t] inv
    by (cases "(c, shared z, agent z t)" rule: raw_mutex_step.cases)
      (auto simp: raw_mutex_inv_def split: if_splits mutex_call.splits)
  with inv show "raw_mutex_inv \<lparr>shared = s, agent = (agent z)(t := l)\<rparr>"
    by (simp only: raw_mutex_inv_def system.simps(1) sole_update)
qed

lemma raw_mutex_inv_new: "raw_mutex_inv raw_mutex_new"
  by (simp add: raw_mutex_inv_def raw_mutex_new_def agents_none sole_def)

interpretation raw_mutex: guard_lock raw_mutex_step raw_mutex_inv raw_mutex_owns "\<lambda>_. False"
proof
  show "raw_mutex_inv z \<Longrightarrow> raw_mutex_inv (agent_step raw_mutex_step t c z)" for z t c
    by (rule raw_mutex_inv_step)
  show "u = t" if "raw_mutex_inv z" "raw_mutex_owns (agent z t)" "raw_mutex_owns (agent z u) \<or> False" for z t u
    using that sole_same [of "shared z" "agents raw_mutex_owns z" t u] by (simp add: raw_mutex_inv_def)
qed

text \<open>Nobody can be kept out of a free lock: a waiting agent takes it with its next step.\<close>

lemma raw_mutex_free: "raw_mutex_inv z \<Longrightarrow> agents raw_mutex_owns z = {} \<Longrightarrow> \<not> shared z"
  using sole_empty [of "shared z" "agents raw_mutex_owns z"] by (simp add: raw_mutex_inv_def)

lemma raw_mutex_takes:
  assumes "\<not> shared z" "agent z t \<in> {RM_lock, RM_try_lock} \<union> range RM_lock_slow"
  shows "agent (agent_step raw_mutex_step t (calls m) z) t = RM_guard"
  using assms by (auto simp: agent_step_def)

section \<open>SpinMutex\<close>

definition UNLOCKED :: "8 word" where "UNLOCKED = 0"
definition LOCKED :: "8 word" where "LOCKED = 1"
definition MUTEX_POISONED :: "8 word" where "MUTEX_POISONED = 2"

datatype spin_mutex_place =
    SM_idle
  | SM_lock                              \<comment> \<open>\<open>lock\<close>, before its load\<close>
  | SM_lock_cas "8 word"                 \<comment> \<open>with the state it loaded\<close>
  | SM_slow spin_wait
  | SM_slow_cas spin_wait "8 word"
  | SM_try
  | SM_try_cas "8 word"
  | SM_limit nat
  | SM_limit_cas nat "8 word"
  | SM_guard bool                        \<comment> \<open>a guard, and whether it came as \<open>PoisonError\<close>\<close>
  | SM_would_block
  | SM_drop "8 word"                     \<comment> \<open>\<open>drop\<close>, between its load and its store\<close>

definition spin_mutex_new :: "(8 word, spin_mutex_place) system" where
  "spin_mutex_new = \<lparr>shared = UNLOCKED, agent = \<lambda>_. SM_idle\<rparr>"

definition mutex_poisoned :: "8 word \<Rightarrow> bool" where
  "mutex_poisoned state \<longleftrightarrow> state AND MUTEX_POISONED \<noteq> 0"

fun spin_mutex_step :: "(mutex_choice, 8 word, spin_mutex_place) steps" where
  "spin_mutex_step c state SM_idle = (state, case mc_call c of
      Call_lock \<Rightarrow> SM_lock
    | Call_try_lock \<Rightarrow> SM_try
    | Call_try_lock_with_spin_limit n \<Rightarrow> SM_limit n
    | Call_drop \<Rightarrow> SM_idle)"
| "spin_mutex_step c state SM_lock =
     (state, if state AND LOCKED = 0 then SM_lock_cas state else SM_slow spin_wait_new)"
| "spin_mutex_step c state (SM_lock_cas st) =
     (if state = st then (st OR LOCKED, SM_guard (mutex_poisoned st)) else (state, SM_slow spin_wait_new))"
| "spin_mutex_step c state (SM_slow w) =
     (state, if state AND LOCKED = 0 then SM_slow_cas w state else SM_slow (spun w))"
| "spin_mutex_step c state (SM_slow_cas w st) =
     (if state = st \<and> \<not> mc_spurious c then (st OR LOCKED, SM_guard (mutex_poisoned st))
      else (state, SM_slow (spun w)))"
| "spin_mutex_step c state SM_try =
     (state, if state AND LOCKED = 0 then SM_try_cas state else SM_would_block)"
| "spin_mutex_step c state (SM_try_cas st) =
     (if state = st then (st OR LOCKED, SM_guard (mutex_poisoned st)) else (state, SM_would_block))"
| "spin_mutex_step c state (SM_limit 0) = (state, SM_would_block)"
| "spin_mutex_step c state (SM_limit (Suc n)) =
     (state, if state AND LOCKED = 0 then SM_limit_cas n state else SM_limit n)"
| "spin_mutex_step c state (SM_limit_cas n st) =
     (if state = st \<and> \<not> mc_spurious c then (st OR LOCKED, SM_guard (mutex_poisoned st))
      else (state, SM_limit n))"
| "spin_mutex_step c state (SM_guard p) =
     (state, if mc_call c = Call_drop then SM_drop state else SM_guard p)"
| "spin_mutex_step c state SM_would_block = (state, SM_idle)"
| "spin_mutex_step c state (SM_drop st) = (st AND NOT LOCKED, SM_idle)"

fun spin_mutex_owns :: "spin_mutex_place \<Rightarrow> bool" where
  "spin_mutex_owns (SM_guard _) = True"
| "spin_mutex_owns (SM_drop _) = True"
| "spin_mutex_owns _ = False"

text \<open>What an agent may remember: a compare-exchange waits with the unlocked state, a drop writes back
  the state that the lock has, and no guard came as poisoned.\<close>

fun spin_mutex_remembers :: "spin_mutex_place \<Rightarrow> bool" where
  "spin_mutex_remembers (SM_lock_cas st) = (st = 0)"
| "spin_mutex_remembers (SM_slow_cas w st) = (st = 0)"
| "spin_mutex_remembers (SM_try_cas st) = (st = 0)"
| "spin_mutex_remembers (SM_limit_cas n st) = (st = 0)"
| "spin_mutex_remembers (SM_guard p) = (\<not> p)"
| "spin_mutex_remembers (SM_drop st) = (st = 1)"
| "spin_mutex_remembers _ = True"

definition spin_mutex_inv :: "(8 word, spin_mutex_place) system \<Rightarrow> bool" where
  "spin_mutex_inv z \<longleftrightarrow> shared z \<in> {0, 1} \<and> sole (shared z = 1) (agents spin_mutex_owns z) \<and>
     (\<forall>t. spin_mutex_remembers (agent z t))"

lemma spin_mutex_inv_step: "spin_mutex_inv z \<Longrightarrow> spin_mutex_inv (agent_step spin_mutex_step t c z)"
proof (rule agent_step_split)
  fix s l assume inv: "spin_mutex_inv z" and st: "spin_mutex_step c (shared z) (agent z t) = (s, l)"
  have r: "spin_mutex_remembers (agent z t)" using inv by (simp add: spin_mutex_inv_def)
  have flag: "if spin_mutex_owns (agent z t) then (s = 1) = spin_mutex_owns l
    else if spin_mutex_owns l then shared z \<noteq> 1 \<and> s = 1 else (s = 1) = (shared z = 1)"
    and vals: "s \<in> {0, 1}" and mem: "spin_mutex_remembers l"
    using st r inv sole_True [of "shared z = 1" "agents spin_mutex_owns z" t]
    by (cases "(c, shared z, agent z t)" rule: spin_mutex_step.cases;
        force simp: spin_mutex_inv_def LOCKED_def mutex_poisoned_def split: if_splits mutex_call.splits)+
  show "spin_mutex_inv \<lparr>shared = s, agent = (agent z)(t := l)\<rparr>" unfolding spin_mutex_inv_def
  proof (intro conjI)
    have "sole (shared z = 1) (agents spin_mutex_owns z)" using inv by (simp add: spin_mutex_inv_def)
    from sole_update [OF this flag]
    show "sole (shared \<lparr>shared = s, agent = (agent z)(t := l)\<rparr> = 1)
        (agents spin_mutex_owns \<lparr>shared = s, agent = (agent z)(t := l)\<rparr>)"
      by (simp only: system.simps(1))
  next
    show "\<forall>u. spin_mutex_remembers (agent \<lparr>shared = s, agent = (agent z)(t := l)\<rparr> u)"
      using inv mem by (simp add: spin_mutex_inv_def)
  qed (use vals in simp)
qed

lemma spin_mutex_inv_new: "spin_mutex_inv spin_mutex_new"
  by (simp add: spin_mutex_inv_def spin_mutex_new_def UNLOCKED_def agents_none sole_def)

interpretation spin_mutex: guard_lock spin_mutex_step spin_mutex_inv spin_mutex_owns "\<lambda>_. False"
proof
  show "spin_mutex_inv z \<Longrightarrow> spin_mutex_inv (agent_step spin_mutex_step t c z)" for z t c
    by (rule spin_mutex_inv_step)
  show "u = t" if "spin_mutex_inv z" "spin_mutex_owns (agent z t)" "spin_mutex_owns (agent z u) \<or> False" for z t u
    using that sole_same [of "shared z = 1" "agents spin_mutex_owns z" t u] by (simp add: spin_mutex_inv_def)
qed

lemma spin_mutex_reachable: "reaches spin_mutex_step spin_mutex_new z \<Longrightarrow> spin_mutex_inv z"
  by (erule reaches_invariant) (fact spin_mutex_inv_new spin_mutex_inv_step)+

lemma spin_mutex_free: "spin_mutex_inv z \<Longrightarrow> agents spin_mutex_owns z = {} \<Longrightarrow> shared z = 0"
  using sole_empty [of "shared z = 1" "agents spin_mutex_owns z"] by (auto simp: spin_mutex_inv_def)

fun spin_mutex_waits :: "spin_mutex_place \<Rightarrow> bool" where
  "spin_mutex_waits SM_lock = True"
| "spin_mutex_waits (SM_lock_cas _) = True"
| "spin_mutex_waits (SM_slow _) = True"
| "spin_mutex_waits (SM_slow_cas _ _) = True"
| "spin_mutex_waits _ = False"

section \<open>Properties\<close>

text \<open>At most one agent holds a guard of a \<open>SpinMutex\<close>, however the steps of any number of agents
  interleave, the two steps of a drop included.\<close>

theorem spin_mutex_excludes:
  assumes "reaches spin_mutex_step spin_mutex_new z"
    and "spin_mutex_owns (agent z t)" "spin_mutex_owns (agent z u)"
  shows "t = u"
  using spin_mutex.exclusive_reachable [OF spin_mutex_inv_new assms(1), of u t] assms(2,3) by blast

text \<open>C12: what is written through the guards of a \<open>SpinMutex\<close> is never lost: the data is what the
  updates make of it one after the other, in the order they took effect, and what an agent read
  through its guard stays the current value for as long as it borrows it.\<close>

theorem spin_mutex_updates_serial:
  assumes "reaches (guarded_step spin_mutex_step spin_mutex_owns (\<lambda>_. False)) (guarded_start spin_mutex_new d) z"
  shows "serial d z"
  by (rule spin_mutex.guarded_serial [OF spin_mutex_inv_new assms])

text \<open>A free \<open>SpinMutex\<close> is never stuck: whoever waits in \<open>lock\<close> gets the guard with its next
  two steps if nobody else moves, and the guard comes as \<open>Ok\<close>.\<close>

theorem spin_mutex_free_is_taken:
  assumes "reaches spin_mutex_step spin_mutex_new z"
    and "agents spin_mutex_owns z = {}" "spin_mutex_waits (agent z t)"
  shows "agent (run_schedule spin_mutex_step [(t, calls Call_lock), (t, calls Call_lock)] z) t = SM_guard False"
proof -
  have inv: "spin_mutex_inv z" by (rule spin_mutex_reachable [OF assms(1)])
  then have "shared z = 0" "spin_mutex_remembers (agent z t)"
    using spin_mutex_free [OF inv assms(2)] by (simp_all add: spin_mutex_inv_def)
  then show ?thesis using assms(3)
    by (cases "agent z t") (simp_all add: agent_step_def mutex_poisoned_def)
qed

text \<open>Nothing ever poisons a \<open>SpinMutex\<close>: whatever its agents do, every guard comes as \<open>Ok\<close> and
  \<open>is_poisoned\<close> is false.\<close>

theorem spin_mutex_never_poisoned:
  assumes "reaches spin_mutex_step spin_mutex_new z"
  shows "\<not> mutex_poisoned (shared z) \<and> agent z t \<noteq> SM_guard True"
proof -
  have inv: "spin_mutex_inv z" by (rule spin_mutex_reachable [OF assms])
  then have "shared z \<in> {0, 1}" "spin_mutex_remembers (agent z t)" by (simp_all add: spin_mutex_inv_def)
  then show ?thesis by (auto simp: mutex_poisoned_def MUTEX_POISONED_def)
qed

theorem spin_mutex_updates_serial_witness:
  "let z = run_schedule (guarded_step spin_mutex_step spin_mutex_owns (\<lambda>_. False))
       (replicate 3 (0, Lock_Code (calls Call_lock)) @ [(0, Borrow), (0, Update (\<lambda>n. n + 1))]) (guarded_start spin_mutex_new (5 :: nat))
   in serial 5 z \<and> data (shared z) = 6"
proof -
  have three: "replicate 3 x = [x, x, x]" for x :: "nat \<times> (mutex_choice, nat) guard_use" by (simp add: eval_nat_numeral)
  have "data (shared (run_schedule (guarded_step spin_mutex_step spin_mutex_owns (\<lambda>_. False))
       (replicate 3 (0, Lock_Code (calls Call_lock)) @ [(0, Borrow), (0, Update (\<lambda>n. n + 1))]) (guarded_start spin_mutex_new (5 :: nat)))) = 6"
    by (simp add: three guarded_start_def spin_mutex_new_def agent_step_at guarded_step_def UNLOCKED_def)
  then show ?thesis by (simp only: Let_def spin_mutex_updates_serial [OF reaches_schedule] simp_thms)
qed

end
