(* ===== verification/RawRwLock.thy ===== *)
theory RawRwLock
  imports RwBits SpinMutexes
begin

text \<open>
  \<open>RawSpinRwLock\<close> of \<open>foundation_nostd/src/primitives/raw_spin_rwlock.rs\<close>: the read-write lock without
  poisoning, whose waiting writers keep new readers out by a mark in the state word.
\<close>

section \<open>The code\<close>

datatype rw_call = Call_read | Call_try_read | Call_write | Call_try_write | Drop_guard

record rw_choice =
  rc_call :: rw_call
  rc_spurious :: bool

abbreviation rcalls :: "rw_call \<Rightarrow> rw_choice" where
  "rcalls m \<equiv> \<lparr>rc_call = m, rc_spurious = False\<rparr>"

datatype raw_rw_place =
    RR_idle
  | RR_read                                  \<comment> \<open>\<open>read\<close>, before its load\<close>
  | RR_read_cas "32 word"
  | RR_read_slow spin_wait
  | RR_read_slow_cas spin_wait "32 word"
  | RR_try_read
  | RR_try_read_cas "32 word"
  | RR_reading
  | RR_write                                 \<comment> \<open>\<open>write\<close>, before its compare-exchange\<close>
  | RR_mark spin_wait                        \<comment> \<open>\<open>write_slow\<close>, its first loop\<close>
  | RR_mark_cas spin_wait "32 word"
  | RR_wait spin_wait                        \<comment> \<open>\<open>write_slow\<close>, its second loop\<close>
  | RR_wait_cas spin_wait "32 word"
  | RR_try_write
  | RR_writing
  | RR_none

definition raw_rw_new :: "(32 word, raw_rw_place) system" where
  "raw_rw_new = \<lparr>shared = 0, agent = \<lambda>_. RR_idle\<rparr>"

text \<open>The condition under which a reader tries to enter, the same in the three locks.\<close>

definition may_read :: "32 word \<Rightarrow> bool" where
  "may_read s \<longleftrightarrow> s AND (WRITER_ACTIVE OR WRITER_WAITING) = 0 \<and> s < MAX_READERS"

definition may_write :: "32 word \<Rightarrow> bool" where
  "may_write s \<longleftrightarrow> s AND READER_MASK = 0 \<and> s AND WRITER_ACTIVE = 0"

fun raw_rw_step :: "(rw_choice, 32 word, raw_rw_place) steps" where
  "raw_rw_step c s RR_idle = (s, case rc_call c of
      Call_read \<Rightarrow> RR_read | Call_try_read \<Rightarrow> RR_try_read | Call_write \<Rightarrow> RR_write
    | Call_try_write \<Rightarrow> RR_try_write | Drop_guard \<Rightarrow> RR_idle)"
| "raw_rw_step c s RR_read = (s, if may_read s then RR_read_cas s else RR_read_slow spin_wait_new)"
| "raw_rw_step c s (RR_read_cas st) =
     (if s = st then (st + 1, RR_reading) else (s, RR_read_slow spin_wait_new))"
| "raw_rw_step c s (RR_read_slow w) = (s, if may_read s then RR_read_slow_cas w s else RR_read_slow (spun w))"
| "raw_rw_step c s (RR_read_slow_cas w st) =
     (if s = st \<and> \<not> rc_spurious c then (st + 1, RR_reading) else (s, RR_read_slow (spun w)))"
| "raw_rw_step c s RR_try_read = (s, if may_read s then RR_try_read_cas s else RR_none)"
| "raw_rw_step c s (RR_try_read_cas st) = (if s = st then (st + 1, RR_reading) else (s, RR_none))"
| "raw_rw_step c s RR_reading = (if rc_call c = Drop_guard then (s - 1, RR_idle) else (s, RR_reading))"
| "raw_rw_step c s RR_write = (if s = 0 then (WRITER_ACTIVE, RR_writing) else (s, RR_mark spin_wait_new))"
| "raw_rw_step c s (RR_mark w) =
     (s, if s AND WRITER_WAITING = 0 then RR_mark_cas w s else RR_mark (spun w))"
| "raw_rw_step c s (RR_mark_cas w st) =
     (if s = st \<and> \<not> rc_spurious c then (st OR WRITER_WAITING, RR_wait w) else (s, RR_mark (spun w)))"
| "raw_rw_step c s (RR_wait w) = (s, if may_write s then RR_wait_cas w s else RR_wait (spun w))"
| "raw_rw_step c s (RR_wait_cas w st) =
     (if s = st then (WRITER_ACTIVE, RR_writing) else (s, RR_wait (spun w)))"
| "raw_rw_step c s RR_try_write = (if s = 0 then (WRITER_ACTIVE, RR_writing) else (s, RR_none))"
| "raw_rw_step c s RR_writing = (if rc_call c = Drop_guard then (0, RR_idle) else (s, RR_writing))"
| "raw_rw_step c s RR_none = (s, RR_idle)"

fun raw_rw_reads :: "raw_rw_place \<Rightarrow> bool" where
  "raw_rw_reads RR_reading = True"
| "raw_rw_reads _ = False"

fun raw_rw_writes :: "raw_rw_place \<Rightarrow> bool" where
  "raw_rw_writes RR_writing = True"
| "raw_rw_writes _ = False"

text \<open>The writers that have left their mark and wait for the lock to be free.\<close>

fun raw_rw_marked :: "raw_rw_place \<Rightarrow> bool" where
  "raw_rw_marked (RR_wait _) = True"
| "raw_rw_marked (RR_wait_cas _ _) = True"
| "raw_rw_marked _ = False"

fun raw_rw_remembers :: "raw_rw_place \<Rightarrow> bool" where
  "raw_rw_remembers (RR_read_cas st) = may_read st"
| "raw_rw_remembers (RR_read_slow_cas w st) = may_read st"
| "raw_rw_remembers (RR_try_read_cas st) = may_read st"
| "raw_rw_remembers (RR_wait_cas w st) = may_write st"
| "raw_rw_remembers _ = True"

section \<open>The invariant\<close>

lemma may_read_enter:
  assumes "may_read s"
  shows "rw_effect s (s + 1) (False, False) (True, False)" "\<not> waiting (s + 1)"
  using assms word_enter [of s] by (simp_all add: may_read_def no_writer_iff rw_effect_def)

lemma may_write_enter:
  assumes "may_write s"
  shows "rw_effect s WRITER_ACTIVE (False, False) (False, True)"
  using assms by (simp add: may_write_def readers_zero_iff rw_effect_def word_active) (simp add: writing_def)

lemma may_write_0: "may_write 0"
  by (simp add: may_write_def)

lemma rw_leave: "0 < readers_of s \<Longrightarrow> rw_effect s (s - 1) (True, False) (False, False)"
  using word_leave [of s] by (simp add: rw_effect_def)

lemma rw_unlock: "rw_effect s 0 (False, True) (False, False)"
  by (simp add: rw_effect_def word_new)

lemma rw_marks: "rw_effect s (s OR WRITER_WAITING) (False, False) (False, False)"
  by (simp add: rw_effect_def word_mark)

lemma rw_stays: "rw_effect s s (a, b) (a, b)"
  by (cases a; cases b) (simp_all add: rw_effect_def)

lemmas rw_effects = may_read_enter(1) may_write_enter may_write_enter [OF may_write_0] rw_leave rw_unlock rw_marks rw_stays

definition raw_rw_inv :: "(32 word, raw_rw_place) system \<Rightarrow> bool" where
  "raw_rw_inv z \<longleftrightarrow> rw_word (shared z) (agents raw_rw_reads z) (agents raw_rw_writes z) \<and>
     (\<forall>t. raw_rw_remembers (agent z t)) \<and> (waiting (shared z) \<longrightarrow> agents raw_rw_marked z \<noteq> {})"

lemma raw_rw_inv_step: "raw_rw_inv z \<Longrightarrow> raw_rw_inv (agent_step raw_rw_step t c z)"
proof (rule agent_step_split)
  fix s l assume inv: "raw_rw_inv z" and st: "raw_rw_step c (shared z) (agent z t) = (s, l)"
  let ?a = "agent z t"
  have r: "raw_rw_remembers ?a" and w: "rw_word (shared z) (agents raw_rw_reads z) (agents raw_rw_writes z)"
    using inv by (simp_all add: raw_rw_inv_def)
  have rd: "raw_rw_reads ?a \<Longrightarrow> 0 < readers_of (shared z)" using rw_word_readers [OF w] by simp
  have eff: "rw_effect (shared z) s (raw_rw_reads ?a, raw_rw_writes ?a) (raw_rw_reads l, raw_rw_writes l)"
    using st r rd by (cases ?a) (auto intro: rw_effects split: if_splits rw_call.splits)
  have mem: "raw_rw_remembers l" using st r by (cases ?a) (auto split: if_splits rw_call.splits)
  have mark: "waiting s \<longrightarrow> raw_rw_marked l \<or> (waiting (shared z) \<and> \<not> raw_rw_marked ?a)"
    using st r rd word_leave(3) [of "shared z"] may_read_enter(2)
    by (cases ?a) (auto simp: word_active word_new split: if_splits rw_call.splits)
  have "waiting s \<longrightarrow> agents raw_rw_marked \<lparr>shared = s, agent = (agent z)(t := l)\<rparr> \<noteq> {}"
  proof
    assume "waiting s"
    with mark consider "raw_rw_marked l" | u where "raw_rw_marked (agent z u)" "\<not> raw_rw_marked ?a"
      using inv by (auto simp: raw_rw_inv_def agents_def)
    then show "agents raw_rw_marked \<lparr>shared = s, agent = (agent z)(t := l)\<rparr> \<noteq> {}"
    proof cases
      case (2 u)
      then have "u \<in> agents raw_rw_marked z - {t}" by auto
      then show ?thesis by auto
    qed auto
  qed
  then show "raw_rw_inv \<lparr>shared = s, agent = (agent z)(t := l)\<rparr>"
    using inv mem rw_word_agents [OF w eff, of s] by (simp add: raw_rw_inv_def del: agents_upd)
qed

lemma raw_rw_inv_new: "raw_rw_inv raw_rw_new"
  by (simp add: raw_rw_inv_def raw_rw_new_def agents_none rw_word_start word_new)

interpretation raw_rw: guard_lock raw_rw_step raw_rw_inv raw_rw_writes raw_rw_reads
proof
  show "raw_rw_inv z \<Longrightarrow> raw_rw_inv (agent_step raw_rw_step t c z)" for z t c by (rule raw_rw_inv_step)
  show "u = t" if "raw_rw_inv z" "raw_rw_writes (agent z t)" "raw_rw_writes (agent z u) \<or> raw_rw_reads (agent z u)" for z t u
    using that rw_word_exclusive [of "shared z" "agents raw_rw_reads z" "agents raw_rw_writes z" t u]
    by (simp add: raw_rw_inv_def)
qed

lemma raw_rw_reachable: "reaches raw_rw_step raw_rw_new z \<Longrightarrow> raw_rw_inv z"
  by (erule reaches_invariant) (fact raw_rw_inv_new raw_rw_inv_step)+

section \<open>Properties\<close>

fun raw_rw_waits :: "raw_rw_place \<Rightarrow> bool" where
  "raw_rw_waits RR_idle = False"
| "raw_rw_waits RR_try_read = False"
| "raw_rw_waits (RR_try_read_cas _) = False"
| "raw_rw_waits RR_try_write = False"
| "raw_rw_waits RR_none = False"
| "raw_rw_waits RR_reading = False"
| "raw_rw_waits RR_writing = False"
| "raw_rw_waits _ = True"

definition raw_rw_holds :: "raw_rw_place \<Rightarrow> bool" where
  "raw_rw_holds p \<longleftrightarrow> raw_rw_reads p \<or> raw_rw_writes p"

text \<open>C19: whoever holds the write guard of a \<open>RawSpinRwLock\<close> holds the only guard, however the steps
  of any number of readers and writers interleave; and the low bits of the state count the readers
  exactly, so the count never runs into the bits of the writers.\<close>

theorem raw_rw_excludes:
  assumes "reaches raw_rw_step raw_rw_new z"
  shows "(\<forall>t u. raw_rw_writes (agent z t) \<and> raw_rw_holds (agent z u) \<longrightarrow> u = t) \<and>
    finite (agents raw_rw_reads z) \<and> readers_of (shared z) = card (agents raw_rw_reads z)"
  using raw_rw_reachable [OF assms] raw_rw.exclusive_reachable [OF raw_rw_inv_new assms]
  by (auto simp: raw_rw_holds_def raw_rw_inv_def rw_word_def)

text \<open>What is written through the guards of a \<open>RawSpinRwLock\<close> is never lost, and what a reader saw
  through its guard does not change while it looks.\<close>

theorem raw_rw_updates_serial:
  assumes "reaches (guarded_step raw_rw_step raw_rw_writes raw_rw_reads) (guarded_start raw_rw_new d) z"
  shows "serial d z"
  by (rule raw_rw.guarded_serial [OF raw_rw_inv_new assms])

lemma raw_rw_idle_word:
  assumes "raw_rw_inv z" "agents raw_rw_holds z = {}"
  shows "agents raw_rw_marked z = {} \<Longrightarrow> shared z = 0" "may_write (shared z)"
proof -
  have e: "agents raw_rw_reads z = {}" "agents raw_rw_writes z = {}"
    using assms(2) by (auto simp: agents_def raw_rw_holds_def)
  then have u: "readers_of (shared z) = 0" "\<not> writing (shared z)"
    using assms(1) rw_word_unheld by (auto simp: raw_rw_inv_def)
  then show "may_write (shared z)" by (simp add: may_write_def readers_zero_iff) (simp add: writing_def)
  show "agents raw_rw_marked z = {} \<Longrightarrow> shared z = 0"
    using u assms(1) by (intro idle_word) (auto simp: raw_rw_inv_def)
qed

lemma raw_rw_marked_takes:
  assumes "may_write (shared z)" "raw_rw_marked (agent z t)"
  shows "agent (run_schedule raw_rw_step (replicate 3 (t, rcalls Call_read)) z) t = RR_writing"
  using assms by (cases "agent z t") (auto simp: agent_step_def numeral_3_eq_3)

lemma may_read_0: "may_read 0"
  by (simp add: may_read_def MAX_READERS_def READER_MASK_def)

lemma raw_rw_waiter_takes:
  assumes "shared z = 0" "raw_rw_waits (agent z t)" "raw_rw_remembers (agent z t)"
  shows "raw_rw_holds (agent (run_schedule raw_rw_step (replicate 6 (t, rcalls Call_read)) z) t)"
proof -
  have "WRITER_WAITING \<noteq> 0" "may_write WRITER_WAITING"
    by (simp_all add: WRITER_WAITING_def may_write_def READER_MASK_def WRITER_ACTIVE_def)
  moreover have "replicate 6 x = [x, x, x, x, x, x]" for x :: "nat \<times> rw_choice"
    by (simp add: eval_nat_numeral)
  ultimately show ?thesis using assms may_read_0 may_write_0
    by (cases "agent z t") (auto simp: agent_step_def raw_rw_holds_def)
qed

text \<open>A \<open>RawSpinRwLock\<close> that nobody holds does not deadlock: of the agents that wait for it there is
  always one that gets its guard with at most six steps of its own.\<close>

theorem raw_rw_no_deadlock:
  assumes "reaches raw_rw_step raw_rw_new z"
    and "agents raw_rw_holds z = {}" "agents raw_rw_waits z \<noteq> {}"
  shows "\<exists>t n. raw_rw_waits (agent z t) \<and> n \<le> 6 \<and>
    raw_rw_holds (agent (run_schedule raw_rw_step (replicate n (t, rcalls Call_read)) z) t)"
proof (cases "agents raw_rw_marked z = {}")
  case True
  obtain t where t: "raw_rw_waits (agent z t)" using assms(3) by (auto simp: agents_def)
  have inv: "raw_rw_inv z" by (rule raw_rw_reachable [OF assms(1)])
  then have "raw_rw_remembers (agent z t)" by (simp add: raw_rw_inv_def)
  then have "raw_rw_holds (agent (run_schedule raw_rw_step (replicate 6 (t, rcalls Call_read)) z) t)"
    by (intro raw_rw_waiter_takes raw_rw_idle_word(1) inv assms(2) True t)
  then show ?thesis using t by (intro exI [of _ t] exI [of _ 6]) simp
next
  case False
  then obtain t where t: "raw_rw_marked (agent z t)" by (auto simp: agents_def)
  then have "raw_rw_waits (agent z t)" by (cases "agent z t") auto
  moreover have "raw_rw_holds (agent (run_schedule raw_rw_step (replicate 3 (t, rcalls Call_read)) z) t)"
    using raw_rw_marked_takes [OF raw_rw_idle_word(2) [OF raw_rw_reachable [OF assms(1)] assms(2)] t]
    by (simp add: raw_rw_holds_def)
  ultimately show ?thesis by (intro exI [of _ t] exI [of _ 3]) simp
qed

text \<open>While the mark of a waiting writer stands, no reader enters.\<close>

theorem raw_rw_mark_keeps_readers_out:
  assumes "reaches raw_rw_step raw_rw_new z" "waiting (shared z)"
    and "raw_rw_reads (agent (agent_step raw_rw_step t c z) t)"
  shows "raw_rw_reads (agent z t)"
proof -
  have "raw_rw_remembers (agent z t)" using raw_rw_reachable [OF assms(1)] by (simp add: raw_rw_inv_def)
  moreover have "\<not> may_read (shared z)" using assms(2) by (simp add: may_read_def no_writer_iff)
  ultimately show ?thesis using assms(3)
    by (cases "agent z t") (auto simp: agent_step_def split: if_splits rw_call.splits)
qed

definition overtaking :: "(nat \<times> rw_choice) list" where
  "overtaking = [(0, rcalls Call_write), (0, rcalls Call_write)] @ replicate 4 (1, rcalls Call_write) @ [(0, rcalls Drop_guard)]"

text \<open>The lock is not writer-preferring as it says. A writer that drops its guard stores 0 and so
  erases the mark of a writer that has begun to wait; a reader that comes only then enters before it.\<close>

theorem raw_rw_reader_overtakes_waiting_writer:
  "let z = run_schedule raw_rw_step overtaking raw_rw_new;
       z' = run_schedule raw_rw_step (replicate 3 (2, rcalls Call_read)) z
   in agent z 1 = RR_wait spin_wait_new \<and> agent z 2 = RR_idle \<and>
      agent z' 1 = RR_wait spin_wait_new \<and> agent z' 2 = RR_reading"
proof -
  have four: "replicate 4 x = [x, x, x, x]" "replicate 3 x = [x, x, x]" for x :: "nat \<times> rw_choice"
    by (simp_all add: eval_nat_numeral)
  have "WRITER_ACTIVE AND WRITER_WAITING = 0" "WRITER_ACTIVE \<noteq> 0"
    by (simp_all add: WRITER_ACTIVE_def WRITER_WAITING_def)
  then show ?thesis
    by (simp add: four overtaking_def raw_rw_new_def agent_step_at may_read_0 Let_def)
qed

theorem raw_rw_excludes_witness:
  "let z = run_schedule raw_rw_step (replicate 3 (0, rcalls Call_read)) raw_rw_new
   in agent z 0 = RR_reading \<and> readers_of (shared z) = card (agents raw_rw_reads z) \<and> \<not> raw_rw_writes (agent z 1)"
proof -
  let ?z = "run_schedule raw_rw_step (replicate 3 (0, rcalls Call_read)) raw_rw_new"
  have three: "replicate 3 x = [x, x, x]" for x :: "nat \<times> rw_choice" by (simp add: eval_nat_numeral)
  have r: "agent ?z 0 = RR_reading" by (simp add: three raw_rw_new_def agent_step_at may_read_0)
  have "raw_rw_holds (agent ?z 0)" by (simp add: r raw_rw_holds_def)
  then show ?thesis using raw_rw_excludes [OF reaches_schedule, of "replicate 3 (0, rcalls Call_read)"] r
    by (metis (no_types, lifting) zero_neq_one)
qed

theorem raw_rw_no_deadlock_witness:
  "let z = run_schedule raw_rw_step [(0, rcalls Call_read)] raw_rw_new
   in \<exists>t n. raw_rw_waits (agent z t) \<and> n \<le> 6 \<and>
     raw_rw_holds (agent (run_schedule raw_rw_step (replicate n (t, rcalls Call_read)) z) t)"
proof -
  let ?z = "run_schedule raw_rw_step [(0, rcalls Call_read)] raw_rw_new"
  have z: "?z = \<lparr>shared = 0, agent = (\<lambda>_. RR_idle)(0 := RR_read)\<rparr>" by (simp add: raw_rw_new_def agent_step_at)
  have "agents raw_rw_holds ?z = {}" "0 \<in> agents raw_rw_waits ?z" unfolding z by (auto simp: agents_def raw_rw_holds_def)
  then show ?thesis unfolding Let_def by (intro raw_rw_no_deadlock [OF reaches_schedule]) auto
qed

end
