(* ===== verification/RwLocks.thy ===== *)
theory RwLocks
  imports RawRwLock
begin

text \<open>
  The read-write locks of \<open>foundation_nostd/src/primitives\<close> that can be poisoned: \<open>SpinRwLock\<close>
  (\<open>spin_rwlock.rs\<close>, waiting writers first) and \<open>ReaderSpinRwLock\<close> (\<open>reader_spin_rwlock.rs\<close>, readers
  first). Both keep the flag of poisoning in a second atomic, which is a second access of its own
  after the guard was taken. The two nested loops of their slow paths are one loop here: the inner one
  counts to a hundred and starts again.
\<close>

record rw_shared =
  rw_state :: "32 word"
  rw_poisoned :: "32 word"

definition rw_is_poisoned :: "rw_shared \<Rightarrow> bool" where
  "rw_is_poisoned s \<longleftrightarrow> rw_poisoned s \<noteq> 0"

section \<open>SpinRwLock\<close>

datatype spin_rw_place =
    SR_idle
  | SR_read
  | SR_read_cas "32 word"
  | SR_read_slow
  | SR_read_slow_cas "32 word"
  | SR_try_read
  | SR_try_read_cas "32 word"
  | SR_read_check                  \<comment> \<open>a read guard, before \<open>is_poisoned\<close>\<close>
  | SR_reading bool                \<comment> \<open>a read guard, and whether it came as \<open>PoisonError\<close>\<close>
  | SR_write
  | SR_mark                        \<comment> \<open>\<open>write_slow\<close>, before its \<open>fetch_or\<close>\<close>
  | SR_wait
  | SR_wait_cas "32 word"
  | SR_try_write
  | SR_write_check
  | SR_writing bool
  | SR_would_block

definition spin_rw_new :: "(rw_shared, spin_rw_place) system" where
  "spin_rw_new = \<lparr>shared = \<lparr>rw_state = 0, rw_poisoned = 0\<rparr>, agent = \<lambda>_. SR_idle\<rparr>"

fun spin_rw_step :: "(rw_choice, rw_shared, spin_rw_place) steps" where
  "spin_rw_step c s SR_idle = (s, case rc_call c of
      Call_read \<Rightarrow> SR_read | Call_try_read \<Rightarrow> SR_try_read | Call_write \<Rightarrow> SR_write
    | Call_try_write \<Rightarrow> SR_try_write | Drop_guard \<Rightarrow> SR_idle)"
| "spin_rw_step c s SR_read = (s, if may_read (rw_state s) then SR_read_cas (rw_state s) else SR_read_slow)"
| "spin_rw_step c s (SR_read_cas st) =
     (if rw_state s = st then (s\<lparr>rw_state := st + 1\<rparr>, SR_read_check) else (s, SR_read_slow))"
| "spin_rw_step c s SR_read_slow =
     (s, if may_read (rw_state s) then SR_read_slow_cas (rw_state s) else SR_read_slow)"
| "spin_rw_step c s (SR_read_slow_cas st) =
     (if rw_state s = st then (s\<lparr>rw_state := st + 1\<rparr>, SR_read_check) else (s, SR_read_slow))"
| "spin_rw_step c s SR_try_read =
     (s, if may_read (rw_state s) then SR_try_read_cas (rw_state s) else SR_would_block)"
| "spin_rw_step c s (SR_try_read_cas st) =
     (if rw_state s = st then (s\<lparr>rw_state := st + 1\<rparr>, SR_read_check) else (s, SR_would_block))"
| "spin_rw_step c s SR_read_check = (s, SR_reading (rw_is_poisoned s))"
| "spin_rw_step c s (SR_reading p) =
     (if rc_call c = Drop_guard then (s\<lparr>rw_state := rw_state s - 1\<rparr>, SR_idle) else (s, SR_reading p))"
| "spin_rw_step c s SR_write =
     (if rw_state s = 0 then (s\<lparr>rw_state := WRITER_ACTIVE\<rparr>, SR_write_check) else (s, SR_mark))"
| "spin_rw_step c s SR_mark = (s\<lparr>rw_state := rw_state s OR WRITER_WAITING\<rparr>, SR_wait)"
| "spin_rw_step c s SR_wait = (s, if may_write (rw_state s) then SR_wait_cas (rw_state s) else SR_wait)"
| "spin_rw_step c s (SR_wait_cas st) =
     (if rw_state s = st then (s\<lparr>rw_state := WRITER_ACTIVE\<rparr>, SR_write_check) else (s, SR_wait))"
| "spin_rw_step c s SR_try_write =
     (if rw_state s = 0 then (s\<lparr>rw_state := WRITER_ACTIVE\<rparr>, SR_write_check) else (s, SR_would_block))"
| "spin_rw_step c s SR_write_check = (s, SR_writing (rw_is_poisoned s))"
| "spin_rw_step c s (SR_writing p) =
     (if rc_call c = Drop_guard then (s\<lparr>rw_state := 0\<rparr>, SR_idle) else (s, SR_writing p))"
| "spin_rw_step c s SR_would_block = (s, SR_idle)"

fun spin_rw_reads :: "spin_rw_place \<Rightarrow> bool" where
  "spin_rw_reads SR_read_check = True"
| "spin_rw_reads (SR_reading _) = True"
| "spin_rw_reads _ = False"

fun spin_rw_writes :: "spin_rw_place \<Rightarrow> bool" where
  "spin_rw_writes SR_write_check = True"
| "spin_rw_writes (SR_writing _) = True"
| "spin_rw_writes _ = False"

fun spin_rw_remembers :: "spin_rw_place \<Rightarrow> bool" where
  "spin_rw_remembers (SR_read_cas st) = may_read st"
| "spin_rw_remembers (SR_read_slow_cas st) = may_read st"
| "spin_rw_remembers (SR_try_read_cas st) = may_read st"
| "spin_rw_remembers (SR_wait_cas st) = may_write st"
| "spin_rw_remembers (SR_reading p) = (\<not> p)"
| "spin_rw_remembers (SR_writing p) = (\<not> p)"
| "spin_rw_remembers _ = True"

definition spin_rw_inv :: "(rw_shared, spin_rw_place) system \<Rightarrow> bool" where
  "spin_rw_inv z \<longleftrightarrow> rw_word (rw_state (shared z)) (agents spin_rw_reads z) (agents spin_rw_writes z) \<and>
     (\<forall>t. spin_rw_remembers (agent z t)) \<and> rw_poisoned (shared z) = 0"

lemma spin_rw_effect:
  assumes "spin_rw_step c s a = (s', l)" "spin_rw_remembers a" "spin_rw_reads a \<Longrightarrow> 0 < readers_of (rw_state s)"
  shows "rw_effect (rw_state s) (rw_state s') (spin_rw_reads a, spin_rw_writes a) (spin_rw_reads l, spin_rw_writes l)"
  using assms by (cases a) (auto intro: rw_effects split: if_splits rw_call.splits)

lemma spin_rw_inv_step: "spin_rw_inv z \<Longrightarrow> spin_rw_inv (agent_step spin_rw_step t c z)"
proof (rule agent_step_split)
  fix s l assume inv: "spin_rw_inv z" and st: "spin_rw_step c (shared z) (agent z t) = (s, l)"
  let ?a = "agent z t" and ?w = "rw_state (shared z)"
  have r: "spin_rw_remembers ?a" and w: "rw_word ?w (agents spin_rw_reads z) (agents spin_rw_writes z)"
    and p: "rw_poisoned (shared z) = 0"
    using inv by (simp_all add: spin_rw_inv_def)
  have rd: "spin_rw_reads ?a \<Longrightarrow> 0 < readers_of ?w" using rw_word_readers [OF w] by simp
  have eff: "rw_effect ?w (rw_state s) (spin_rw_reads ?a, spin_rw_writes ?a) (spin_rw_reads l, spin_rw_writes l)"
    by (rule spin_rw_effect [OF st r rd])
  have mem: "spin_rw_remembers l" and po: "rw_poisoned s = 0" using st r p
    by (cases ?a; auto simp: rw_is_poisoned_def split: if_splits rw_call.splits)+
  then show "spin_rw_inv \<lparr>shared = s, agent = (agent z)(t := l)\<rparr>"
    using inv rw_word_agents [OF w eff, of s] by (simp add: spin_rw_inv_def del: agents_upd)
qed

lemma spin_rw_inv_new: "spin_rw_inv spin_rw_new"
  by (simp add: spin_rw_inv_def spin_rw_new_def agents_none rw_word_start)

interpretation spin_rw: guard_lock spin_rw_step spin_rw_inv spin_rw_writes spin_rw_reads
proof
  show "spin_rw_inv z \<Longrightarrow> spin_rw_inv (agent_step spin_rw_step t c z)" for z t c by (rule spin_rw_inv_step)
  show "u = t" if "spin_rw_inv z" "spin_rw_writes (agent z t)" "spin_rw_writes (agent z u) \<or> spin_rw_reads (agent z u)" for z t u
    using that rw_word_exclusive [of "rw_state (shared z)" "agents spin_rw_reads z" "agents spin_rw_writes z" t u]
    by (simp add: spin_rw_inv_def)
qed

lemma spin_rw_reachable: "reaches spin_rw_step spin_rw_new z \<Longrightarrow> spin_rw_inv z"
  by (erule reaches_invariant) (fact spin_rw_inv_new spin_rw_inv_step)+

section \<open>ReaderSpinRwLock\<close>

text \<open>A place carries whether the call is \<open>read\<close> or \<open>write\<close>, which try again, or one of the \<open>try\<close> calls.\<close>

datatype reader_rw_place =
    RS_idle
  | RS_read bool                   \<comment> \<open>\<open>try_read\<close>, before it asks for poisoning\<close>
  | RS_read_load bool
  | RS_read_cas bool "32 word"
  | RS_reading bool                \<comment> \<open>a read guard, and whether it came as \<open>PoisonError\<close>\<close>
  | RS_write bool
  | RS_write_cas bool
  | RS_writing bool
  | RS_would_block

definition reader_rw_new :: "(rw_shared, reader_rw_place) system" where
  "reader_rw_new = \<lparr>shared = \<lparr>rw_state = 0, rw_poisoned = 0\<rparr>, agent = \<lambda>_. RS_idle\<rparr>"

definition would_block :: "bool \<Rightarrow> reader_rw_place \<Rightarrow> reader_rw_place" where
  "would_block again p = (if again then p else RS_would_block)"

fun reader_rw_step :: "(rw_choice, rw_shared, reader_rw_place) steps" where
  "reader_rw_step c s RS_idle = (s, case rc_call c of
      Call_read \<Rightarrow> RS_read True | Call_try_read \<Rightarrow> RS_read False | Call_write \<Rightarrow> RS_write True
    | Call_try_write \<Rightarrow> RS_write False | Drop_guard \<Rightarrow> RS_idle)"
| "reader_rw_step c s (RS_read again) = (s, if rw_is_poisoned s then RS_reading True else RS_read_load again)"
| "reader_rw_step c s (RS_read_load again) =
     (s, if rw_state s AND WRITER_ACTIVE \<noteq> 0 then would_block again (RS_read again)
         else if rw_state s AND READER_MASK \<ge> MAX_READERS then would_block again (RS_read again)
         else RS_read_cas again (rw_state s))"
| "reader_rw_step c s (RS_read_cas again st) =
     (if rw_state s = st \<and> \<not> rc_spurious c then (s\<lparr>rw_state := st + 1\<rparr>, RS_reading False)
      else (s, would_block again (RS_read again)))"
| "reader_rw_step c s (RS_reading p) =
     (if rc_call c = Drop_guard then (s\<lparr>rw_state := rw_state s - 1\<rparr>, RS_idle) else (s, RS_reading p))"
| "reader_rw_step c s (RS_write again) = (s, if rw_is_poisoned s then RS_writing True else RS_write_cas again)"
| "reader_rw_step c s (RS_write_cas again) =
     (if rw_state s = 0 then (s\<lparr>rw_state := WRITER_ACTIVE\<rparr>, RS_writing False)
      else (s, would_block again (RS_write again)))"
| "reader_rw_step c s (RS_writing p) =
     (if rc_call c = Drop_guard then (s\<lparr>rw_state := 0\<rparr>, RS_idle) else (s, RS_writing p))"
| "reader_rw_step c s RS_would_block = (s, RS_idle)"

fun reader_rw_reads :: "reader_rw_place \<Rightarrow> bool" where
  "reader_rw_reads (RS_reading _) = True"
| "reader_rw_reads _ = False"

fun reader_rw_writes :: "reader_rw_place \<Rightarrow> bool" where
  "reader_rw_writes (RS_writing _) = True"
| "reader_rw_writes _ = False"

fun reader_rw_remembers :: "reader_rw_place \<Rightarrow> bool" where
  "reader_rw_remembers (RS_read_cas again st) = may_read st"
| "reader_rw_remembers (RS_reading p) = (\<not> p)"
| "reader_rw_remembers (RS_writing p) = (\<not> p)"
| "reader_rw_remembers _ = True"

definition reader_rw_inv :: "(rw_shared, reader_rw_place) system \<Rightarrow> bool" where
  "reader_rw_inv z \<longleftrightarrow> rw_word (rw_state (shared z)) (agents reader_rw_reads z) (agents reader_rw_writes z) \<and>
     (\<forall>t. reader_rw_remembers (agent z t)) \<and> rw_poisoned (shared z) = 0 \<and> \<not> waiting (rw_state (shared z))"

lemma reader_may_read:
  "\<not> waiting s \<Longrightarrow> s AND WRITER_ACTIVE = 0 \<Longrightarrow> \<not> MAX_READERS \<le> s AND READER_MASK \<Longrightarrow> may_read s"
proof -
  assume a: "\<not> waiting s" "s AND WRITER_ACTIVE = 0" "\<not> MAX_READERS \<le> s AND READER_MASK"
  have m: "s = s AND READER_MASK"
  proof -
    define k where "k = unat s div 2 ^ 30"
    have "unat s < 2 ^ 32" using unsigned_less [of s] by simp
    then have "k < 4" by (simp add: k_def less_mult_imp_div_less)
    moreover have "even k" "even (k div 2)"
      using a(1,2) writing_half [of s] by (simp_all add: k_def waiting_div writing_def)
    ultimately have "k = 0" by presburger
    then have "unat s = unat s mod 2 ^ 30" by (simp add: k_def div_eq_0_iff)
    then have "unat s = unat (s AND READER_MASK)" using readers_of_mod [of s] by (simp add: readers_of_def)
    then show ?thesis by (simp only: word_unat_eq_iff)
  qed
  then show "may_read s" using a by (simp add: may_read_def no_writer_iff writing_def not_le)
qed

lemma reader_rw_effect:
  assumes "reader_rw_step c s a = (s', l)" "reader_rw_remembers a" "rw_poisoned s = 0"
    and "reader_rw_reads a \<Longrightarrow> 0 < readers_of (rw_state s)"
  shows "rw_effect (rw_state s) (rw_state s') (reader_rw_reads a, reader_rw_writes a) (reader_rw_reads l, reader_rw_writes l)"
  using assms
  by (cases a) (auto intro: rw_effects simp: would_block_def rw_is_poisoned_def split: if_splits rw_call.splits)

lemma reader_rw_inv_step: "reader_rw_inv z \<Longrightarrow> reader_rw_inv (agent_step reader_rw_step t c z)"
proof (rule agent_step_split)
  fix s l assume inv: "reader_rw_inv z" and st: "reader_rw_step c (shared z) (agent z t) = (s, l)"
  let ?a = "agent z t" and ?w = "rw_state (shared z)"
  have r: "reader_rw_remembers ?a" and w: "rw_word ?w (agents reader_rw_reads z) (agents reader_rw_writes z)"
    and p: "rw_poisoned (shared z) = 0" and nw: "\<not> waiting ?w"
    using inv by (simp_all add: reader_rw_inv_def)
  have rd: "reader_rw_reads ?a \<Longrightarrow> 0 < readers_of ?w" using rw_word_readers [OF w] by simp
  have eff: "rw_effect ?w (rw_state s) (reader_rw_reads ?a, reader_rw_writes ?a) (reader_rw_reads l, reader_rw_writes l)"
    by (rule reader_rw_effect [OF st r p rd])
  have mem: "reader_rw_remembers l" and po: "rw_poisoned s = 0" and nw': "\<not> waiting (rw_state s)"
    using st r p nw rd may_read_enter(2) word_leave(3) [of ?w] reader_may_read [OF nw]
    by (cases ?a; auto simp: would_block_def rw_is_poisoned_def word_active word_new split: if_splits rw_call.splits)+
  then show "reader_rw_inv \<lparr>shared = s, agent = (agent z)(t := l)\<rparr>"
    using inv rw_word_agents [OF w eff, of s] by (simp add: reader_rw_inv_def del: agents_upd)
qed

lemma reader_rw_inv_new: "reader_rw_inv reader_rw_new"
  by (simp add: reader_rw_inv_def reader_rw_new_def agents_none rw_word_start word_new)

interpretation reader_rw: guard_lock reader_rw_step reader_rw_inv reader_rw_writes reader_rw_reads
proof
  show "reader_rw_inv z \<Longrightarrow> reader_rw_inv (agent_step reader_rw_step t c z)" for z t c by (rule reader_rw_inv_step)
  show "u = t" if "reader_rw_inv z" "reader_rw_writes (agent z t)" "reader_rw_writes (agent z u) \<or> reader_rw_reads (agent z u)" for z t u
    using that rw_word_exclusive [of "rw_state (shared z)" "agents reader_rw_reads z" "agents reader_rw_writes z" t u]
    by (simp add: reader_rw_inv_def)
qed

lemma reader_rw_reachable: "reaches reader_rw_step reader_rw_new z \<Longrightarrow> reader_rw_inv z"
  by (erule reaches_invariant) (fact reader_rw_inv_new reader_rw_inv_step)+

section \<open>Properties\<close>

text \<open>Whoever holds the write guard of a \<open>SpinRwLock\<close> holds the only guard, and the state counts the
  readers exactly.\<close>

theorem spin_rw_excludes:
  assumes "reaches spin_rw_step spin_rw_new z"
  shows "(\<forall>t u. spin_rw_writes (agent z t) \<and> (spin_rw_writes (agent z u) \<or> spin_rw_reads (agent z u)) \<longrightarrow> u = t) \<and>
    finite (agents spin_rw_reads z) \<and> readers_of (rw_state (shared z)) = card (agents spin_rw_reads z)"
  using spin_rw_reachable [OF assms] spin_rw.exclusive_reachable [OF spin_rw_inv_new assms]
  by (auto simp: spin_rw_inv_def rw_word_def)

text \<open>What is written through the guards of a \<open>SpinRwLock\<close> is never lost, and what a reader saw does
  not change while it looks.\<close>

theorem spin_rw_updates_serial:
  assumes "reaches (guarded_step spin_rw_step spin_rw_writes spin_rw_reads) (guarded_start spin_rw_new d) z"
  shows "serial d z"
  by (rule spin_rw.guarded_serial [OF spin_rw_inv_new assms])

text \<open>The same of a \<open>ReaderSpinRwLock\<close>.\<close>

theorem reader_rw_updates_serial:
  assumes "reaches (guarded_step reader_rw_step reader_rw_writes reader_rw_reads) (guarded_start reader_rw_new d) z"
  shows "serial d z"
  by (rule reader_rw.guarded_serial [OF reader_rw_inv_new assms])

text \<open>Nothing poisons these locks: whatever the agents do, the flag stays 0 and every guard comes as
  \<open>Ok\<close>.\<close>

theorem rw_locks_never_poisoned:
  "(\<forall>z. reaches spin_rw_step spin_rw_new z \<longrightarrow> \<not> rw_is_poisoned (shared z) \<and>
     (\<forall>t. agent z t \<noteq> SR_reading True \<and> agent z t \<noteq> SR_writing True)) \<and>
   (\<forall>z. reaches reader_rw_step reader_rw_new z \<longrightarrow> \<not> rw_is_poisoned (shared z) \<and>
     (\<forall>t. agent z t \<noteq> RS_reading True \<and> agent z t \<noteq> RS_writing True))"
proof (intro conjI allI impI)
  fix z t assume "reaches spin_rw_step spin_rw_new z"
  then have "spin_rw_inv z" by (rule spin_rw_reachable)
  then have "spin_rw_remembers (agent z t)" "rw_poisoned (shared z) = 0" by (simp_all add: spin_rw_inv_def)
  then show "agent z t \<noteq> SR_reading True" "agent z t \<noteq> SR_writing True" "\<not> rw_is_poisoned (shared z)"
    by (auto simp: rw_is_poisoned_def)
next
  fix z t assume "reaches reader_rw_step reader_rw_new z"
  then have "reader_rw_inv z" by (rule reader_rw_reachable)
  then have "reader_rw_remembers (agent z t)" "rw_poisoned (shared z) = 0" by (simp_all add: reader_rw_inv_def)
  then show "agent z t \<noteq> RS_reading True" "agent z t \<noteq> RS_writing True" "\<not> rw_is_poisoned (shared z)"
    by (auto simp: rw_is_poisoned_def)
qed

text \<open>A \<open>ReaderSpinRwLock\<close> prefers readers: while no writer is active and the count is not full, a
  reader has its guard after its next three steps, however many writers wait.\<close>

theorem reader_rw_admits_reader:
  assumes "reaches reader_rw_step reader_rw_new z"
    and "\<not> writing (rw_state (shared z))" "readers_of (rw_state (shared z)) < 2 ^ 30 - 1"
    and "agent z t = RS_read again"
  shows "agent (run_schedule reader_rw_step (replicate 3 (t, rcalls Call_read)) z) t = RS_reading False"
proof -
  have "rw_poisoned (shared z) = 0" using reader_rw_reachable [OF assms(1)] by (simp add: reader_rw_inv_def)
  moreover have "\<not> MAX_READERS \<le> rw_state (shared z) AND READER_MASK"
    using assms(3) by (simp add: readers_of_def MAX_READERS_def READER_MASK_def word_le_nat_alt)
  moreover have "rw_state (shared z) AND WRITER_ACTIVE = 0" using assms(2) by (simp add: writing_def)
  ultimately show ?thesis using assms(4)
    by (simp add: agent_step_def rw_is_poisoned_def numeral_3_eq_3)
qed

text \<open>Were a \<open>ReaderSpinRwLock\<close> poisoned, as its interface foresees, the guard that comes with the
  error would be one that was never entered: dropping it takes one from the count of an unheld lock, and
  the word then says that a writer is active, for ever.\<close>

theorem poisoned_guard_wrecks_the_word:
  "let z = run_schedule reader_rw_step [(0, rcalls Call_read), (0, rcalls Call_read), (0, rcalls Drop_guard)]
       \<lparr>shared = \<lparr>rw_state = 0, rw_poisoned = 1\<rparr>, agent = \<lambda>_. RS_idle\<rparr>
   in rw_state (shared z) = - 1 \<and> writing (rw_state (shared z)) \<and> agent z = (\<lambda>_. RS_idle)"
proof -
  have "writing (- 1)" by (simp add: writing_def WRITER_ACTIVE_def)
  then show ?thesis by (simp add: agent_step_at rw_is_poisoned_def fun_eq_iff)
qed

end
