(* ===== verification/Onces.thy ===== *)
theory Onces
  imports Interleave
begin

text \<open>
  Initialisation that happens once: \<open>RawOnce\<close> (\<open>raw_once.rs\<close>), \<open>Once\<close> (\<open>once.rs\<close>), and the cells built
  on \<open>Once\<close>, \<open>OnceLock\<close> (\<open>once_lock.rs\<close>) and \<open>AtomicLazy\<close> (\<open>atomic_lazy.rs\<close>), all of
  \<open>foundation_nostd/src/primitives\<close>. The two flags are modelled with their interleavings: an agent is one
  call, and the choice says which call it is and whether its closure panics. The cells are modelled for
  one thread, as functions of their state.
\<close>

definition INCOMPLETE :: "8 word" where "INCOMPLETE = 0"
definition RUNNING :: "8 word" where "RUNNING = 1"
definition COMPLETE :: "8 word" where "COMPLETE = 2"
definition ONCE_POISONED :: "8 word" where "ONCE_POISONED = 3"

lemma once_states [simp]:
  "INCOMPLETE \<noteq> RUNNING" "INCOMPLETE \<noteq> COMPLETE" "INCOMPLETE \<noteq> ONCE_POISONED" "RUNNING \<noteq> COMPLETE"
  "RUNNING \<noteq> ONCE_POISONED" "COMPLETE \<noteq> ONCE_POISONED"
  "RUNNING \<noteq> INCOMPLETE" "COMPLETE \<noteq> INCOMPLETE" "ONCE_POISONED \<noteq> INCOMPLETE" "COMPLETE \<noteq> RUNNING"
  "ONCE_POISONED \<noteq> RUNNING" "ONCE_POISONED \<noteq> COMPLETE"
  by (simp_all add: INCOMPLETE_def RUNNING_def COMPLETE_def ONCE_POISONED_def)

section \<open>Once\<close>

datatype once_call = Call_once | Call_once_force

record once_choice =
  oc_call :: once_call
  oc_panics :: bool

datatype once_place =
    ON_idle
  | ON_load                       \<comment> \<open>\<open>call_once\<close>, before its load\<close>
  | ON_cas
  | ON_wait
  | ON_force                      \<comment> \<open>\<open>call_once_force\<close>, before its load\<close>
  | ON_force_cas bool "8 word"    \<comment> \<open>whether it saw the poison, and the state it expects\<close>
  | ON_running bool               \<comment> \<open>the closure runs, told whether there was poison\<close>
  | ON_finish                     \<comment> \<open>the closure returned\<close>
  | ON_unwind                     \<comment> \<open>the closure panicked\<close>
  | ON_returned bool              \<comment> \<open>the call returned, and whether it ran its closure\<close>
  | ON_panicked bool              \<comment> \<open>the call panicked, and whether it ran its closure\<close>

definition once_new :: "(8 word, once_place) system" where
  "once_new = \<lparr>shared = INCOMPLETE, agent = \<lambda>_. ON_idle\<rparr>"

fun once_step :: "(once_choice, 8 word, once_place) steps" where
  "once_step c s ON_idle = (s, case oc_call c of Call_once \<Rightarrow> ON_load | Call_once_force \<Rightarrow> ON_force)"
| "once_step c s ON_load = (s, if s = COMPLETE then ON_returned False
     else if s = ONCE_POISONED then ON_panicked False else ON_cas)"
| "once_step c s ON_cas = (if s = INCOMPLETE then (RUNNING, ON_running False) else (s, ON_wait))"
| "once_step c s ON_wait = (s, if s = COMPLETE then ON_returned False
     else if s = ONCE_POISONED then ON_panicked False else ON_wait)"
| "once_step c s ON_force = (s, if s = COMPLETE then ON_returned False else ON_force_cas (s = ONCE_POISONED) s)"
| "once_step c s (ON_force_cas p st) =
     (if s = st then (RUNNING, ON_running p)
      else (s, if s = COMPLETE then ON_returned False else ON_force_cas p s))"
| "once_step c s (ON_running p) = (s, if oc_panics c then ON_unwind else ON_finish)"
| "once_step c s ON_finish = (COMPLETE, ON_returned True)"
| "once_step c s ON_unwind = (ONCE_POISONED, ON_panicked True)"
| "once_step c s (ON_returned r) = (s, ON_returned r)"
| "once_step c s (ON_panicked r) = (s, ON_panicked r)"

text \<open>An agent that has started its closure.\<close>

fun once_ran :: "once_place \<Rightarrow> bool" where
  "once_ran (ON_running _) = True"
| "once_ran ON_finish = True"
| "once_ran ON_unwind = True"
| "once_ran (ON_returned r) = r"
| "once_ran (ON_panicked r) = r"
| "once_ran _ = False"

text \<open>All agents call \<open>call_once\<close>.\<close>

definition once_only :: "(once_choice, 8 word, once_place) steps" where
  "once_only c = once_step (c\<lparr>oc_call := Call_once\<rparr>)"

fun once_remembers :: "8 word \<Rightarrow> once_place \<Rightarrow> bool" where
  "once_remembers s (ON_running p) = (s = RUNNING \<and> \<not> p)"
| "once_remembers s ON_finish = (s = RUNNING)"
| "once_remembers s ON_unwind = (s = RUNNING)"
| "once_remembers s (ON_returned _) = (s = COMPLETE)"
| "once_remembers s (ON_panicked _) = (s = ONCE_POISONED)"
| "once_remembers s ON_force = False"
| "once_remembers s (ON_force_cas p st) = False"
| "once_remembers s _ = True"

definition once_done :: "8 word \<Rightarrow> once_place \<Rightarrow> bool" where
  "once_done s p \<longleftrightarrow> (s = RUNNING \<and> (p = ON_running False \<or> p = ON_finish \<or> p = ON_unwind)) \<or>
     (s = COMPLETE \<and> p = ON_returned True) \<or> (s = ONCE_POISONED \<and> p = ON_panicked True)"

definition once_inv :: "(8 word, once_place) system \<Rightarrow> bool" where
  "once_inv z \<longleftrightarrow> sole (shared z \<noteq> INCOMPLETE) (agents once_ran z) \<and> (\<forall>t. once_remembers (shared z) (agent z t))"

lemma once_ran_done:
  "once_remembers s p \<Longrightarrow> once_ran p \<Longrightarrow> once_done s p"
  by (cases p) (auto simp: once_done_def)

lemma once_ran_flag: "once_remembers s p \<Longrightarrow> once_ran p \<Longrightarrow> s \<noteq> INCOMPLETE"
  by (cases p) auto

text \<open>What an agent remembers survives the steps of others: only the agent that runs the closure changes
  the state, and the state leaves \<open>INCOMPLETE\<close> only when no one has returned.\<close>

lemma once_others:
  assumes "once_remembers s p" "once_only c s p = (s', l)" "once_remembers s q" "\<not> (once_ran p \<and> once_ran q)"
  shows "once_remembers s' q"
  using assms by (cases p; cases q) (auto simp: once_only_def split: if_splits)

lemma once_step_inv:
  assumes "once_remembers s p" "once_only c s p = (s', l)"
  shows "once_remembers s' l"
    and "if once_ran p then (s' \<noteq> INCOMPLETE) = once_ran l
      else if once_ran l then \<not> s \<noteq> INCOMPLETE \<and> s' \<noteq> INCOMPLETE else (s' \<noteq> INCOMPLETE) = (s \<noteq> INCOMPLETE)"
  using assms by (cases p; auto simp: once_only_def split: if_splits)+

lemma once_inv_step: "once_inv z \<Longrightarrow> once_inv (agent_step once_only t c z)"
proof (rule agent_step_split)
  fix s l assume inv: "once_inv z" and st: "once_only c (shared z) (agent z t) = (s, l)"
  have r: "once_remembers (shared z) (agent z u)" for u using inv by (simp add: once_inv_def)
  have sole: "sole (shared z \<noteq> INCOMPLETE) (agents once_ran z)" using inv by (simp add: once_inv_def)
  show "once_inv \<lparr>shared = s, agent = (agent z)(t := l)\<rparr>"
    using sole_remember_step [where b = "\<lambda>s. s \<noteq> INCOMPLETE" and Q = once_remembers, OF sole r
        once_step_inv [OF r st] once_others [OF r st]] by (simp add: once_inv_def)
qed

lemma once_inv_new: "once_inv once_new"
  by (simp add: once_inv_def once_new_def agents_none sole_def)

lemma once_reachable: "reaches once_only once_new z \<Longrightarrow> once_inv z"
  by (erule reaches_invariant) (fact once_inv_new once_inv_step)+

lemma once_inv_started:
  assumes "once_inv z" "shared z \<noteq> INCOMPLETE"
  shows "\<exists>u. once_done (shared z) (agent z u)"
proof -
  have "agents once_ran z \<noteq> {}" using assms sole_empty unfolding once_inv_def by blast
  then obtain u where "once_ran (agent z u)" by (auto simp: agents_def)
  then show ?thesis using once_ran_done [of "shared z" "agent z u"] assms(1) by (auto simp: once_inv_def)
qed

text \<open>C30: with any number of calls of \<open>call_once\<close> at once, at most one closure is ever started; a call
  returns only after that closure returned, and panics only if that closure panicked.\<close>

theorem once_runs_one_closure:
  assumes "reaches once_only once_new z"
  shows "(\<forall>t u. once_ran (agent z t) \<and> once_ran (agent z u) \<longrightarrow> t = u) \<and>
    (\<forall>t b. agent z t = ON_returned b \<longrightarrow> (\<exists>u. agent z u = ON_returned True)) \<and>
    (\<forall>t b. agent z t = ON_panicked b \<longrightarrow> (\<exists>u. agent z u = ON_panicked True))"
proof -
  have inv: "once_inv z" by (rule once_reachable [OF assms])
  then have sole: "sole (shared z \<noteq> INCOMPLETE) (agents once_ran z)"
    and r: "once_remembers (shared z) (agent z t)" for t by (simp_all add: once_inv_def)
  have ret: "\<exists>u. agent z u = ON_returned True" if "agent z t = ON_returned b" for t b
    using r [of t] that once_inv_started [OF inv] by (auto simp: once_done_def)
  have pan: "\<exists>u. agent z u = ON_panicked True" if "agent z t = ON_panicked b" for t b
    using r [of t] that once_inv_started [OF inv] by (auto simp: once_done_def)
  show ?thesis using sole_same [OF sole] ret pan by (auto 0 3)
qed

text \<open>\<open>call_once_force\<close> does not exclude a closure that is running. Finding the state \<open>RUNNING\<close> it
  exchanges \<open>RUNNING\<close> for \<open>RUNNING\<close>, which succeeds, and runs its own closure beside the first.\<close>

theorem once_force_runs_two_closures:
  "\<exists>cs. let z = run_schedule once_step cs once_new
     in agent z 0 = ON_running False \<and> agent z 1 = ON_running False"
proof -
  let ?f = "\<lparr>oc_call = Call_once_force, oc_panics = False\<rparr>"
  let ?cs = "[(0, ?f), (0, ?f), (0, ?f), (1, ?f), (1, ?f), (1, ?f)]"
  have "let z = run_schedule once_step ?cs once_new
     in agent z 0 = ON_running False \<and> agent z 1 = ON_running False"
    by (simp add: once_new_def agent_step_at Let_def)
  then show ?thesis by blast
qed

section \<open>RawOnce\<close>

text \<open>Without poisoning: a closure that panics leaves the state as it is.\<close>

datatype raw_once_place =
    RO_idle
  | RO_check
  | RO_cas
  | RO_wait
  | RO_running
  | RO_finish
  | RO_returned bool
  | RO_panicked

definition raw_once_new :: "(8 word, raw_once_place) system" where
  "raw_once_new = \<lparr>shared = INCOMPLETE, agent = \<lambda>_. RO_idle\<rparr>"

text \<open>The choice is whether the closure panics.\<close>

fun raw_once_step :: "(bool, 8 word, raw_once_place) steps" where
  "raw_once_step c s RO_idle = (s, RO_check)"
| "raw_once_step c s RO_check = (s, if s = COMPLETE then RO_returned False else RO_cas)"
| "raw_once_step c s RO_cas = (if s = INCOMPLETE then (RUNNING, RO_running) else (s, RO_wait))"
| "raw_once_step c s RO_wait = (s, if s = COMPLETE then RO_returned False else RO_wait)"
| "raw_once_step c s RO_running = (s, if c then RO_panicked else RO_finish)"
| "raw_once_step c s RO_finish = (COMPLETE, RO_returned True)"
| "raw_once_step c s (RO_returned r) = (s, RO_returned r)"
| "raw_once_step c s RO_panicked = (s, RO_panicked)"

fun raw_once_ran :: "raw_once_place \<Rightarrow> bool" where
  "raw_once_ran RO_running = True"
| "raw_once_ran RO_finish = True"
| "raw_once_ran (RO_returned r) = r"
| "raw_once_ran RO_panicked = True"
| "raw_once_ran _ = False"

fun raw_once_remembers :: "8 word \<Rightarrow> raw_once_place \<Rightarrow> bool" where
  "raw_once_remembers s RO_running = (s = RUNNING)"
| "raw_once_remembers s RO_finish = (s = RUNNING)"
| "raw_once_remembers s RO_panicked = (s = RUNNING)"
| "raw_once_remembers s (RO_returned _) = (s = COMPLETE)"
| "raw_once_remembers s _ = True"

definition raw_once_inv :: "(8 word, raw_once_place) system \<Rightarrow> bool" where
  "raw_once_inv z \<longleftrightarrow> sole (shared z \<noteq> INCOMPLETE) (agents raw_once_ran z) \<and>
     (\<forall>t. raw_once_remembers (shared z) (agent z t))"

lemma raw_once_others:
  assumes "raw_once_remembers s p" "raw_once_step c s p = (s', l)" "raw_once_remembers s q"
    and "\<not> (raw_once_ran p \<and> raw_once_ran q)"
  shows "raw_once_remembers s' q"
  using assms by (cases p; cases q) (auto split: if_splits)

lemma raw_once_step_inv:
  assumes "raw_once_remembers s p" "raw_once_step c s p = (s', l)"
  shows "raw_once_remembers s' l"
    and "if raw_once_ran p then (s' \<noteq> INCOMPLETE) = raw_once_ran l
      else if raw_once_ran l then \<not> s \<noteq> INCOMPLETE \<and> s' \<noteq> INCOMPLETE else (s' \<noteq> INCOMPLETE) = (s \<noteq> INCOMPLETE)"
  using assms by (cases p; auto split: if_splits)+

lemma raw_once_inv_step: "raw_once_inv z \<Longrightarrow> raw_once_inv (agent_step raw_once_step t c z)"
proof (rule agent_step_split)
  fix s l assume inv: "raw_once_inv z" and st: "raw_once_step c (shared z) (agent z t) = (s, l)"
  have r: "raw_once_remembers (shared z) (agent z u)" for u using inv by (simp add: raw_once_inv_def)
  have sole: "sole (shared z \<noteq> INCOMPLETE) (agents raw_once_ran z)" using inv by (simp add: raw_once_inv_def)
  show "raw_once_inv \<lparr>shared = s, agent = (agent z)(t := l)\<rparr>"
    using sole_remember_step [where b = "\<lambda>s. s \<noteq> INCOMPLETE" and Q = raw_once_remembers, OF sole r
        raw_once_step_inv [OF r st] raw_once_others [OF r st]] by (simp add: raw_once_inv_def)
qed

lemma raw_once_inv_new: "raw_once_inv raw_once_new"
  by (simp add: raw_once_inv_def raw_once_new_def agents_none sole_def)

lemma raw_once_reachable: "reaches raw_once_step raw_once_new z \<Longrightarrow> raw_once_inv z"
  by (erule reaches_invariant) (fact raw_once_inv_new raw_once_inv_step)+

text \<open>Of any number of calls at once \<open>RawOnce\<close> starts at most one closure, and no call returns before
  that closure did; but if it panics no other call ever returns, whatever happens later.\<close>

theorem raw_once_runs_one_closure:
  assumes "reaches raw_once_step raw_once_new z"
  shows "(\<forall>t u. raw_once_ran (agent z t) \<and> raw_once_ran (agent z u) \<longrightarrow> t = u) \<and>
    (\<forall>t b. agent z t = RO_returned b \<longrightarrow> (\<exists>u. agent z u = RO_returned True)) \<and>
    (\<forall>t u b. agent z t = RO_panicked \<longrightarrow> agent z u \<noteq> RO_returned b)"
proof -
  have inv: "raw_once_inv z" by (rule raw_once_reachable [OF assms])
  then have sole: "sole (shared z \<noteq> INCOMPLETE) (agents raw_once_ran z)"
    and r: "raw_once_remembers (shared z) (agent z t)" for t by (simp_all add: raw_once_inv_def)
  have ret: "\<exists>u. agent z u = RO_returned True" if "agent z t = RO_returned b" for t b
  proof -
    have s: "shared z = COMPLETE" using r [of t] that by simp
    then have "agents raw_once_ran z \<noteq> {}" using sole_empty [OF sole] by simp
    then obtain u where "raw_once_ran (agent z u)" by (auto simp: agents_def)
    then show ?thesis using r [of u] s by (cases "agent z u") (auto simp: exI [of _ u])
  qed
  have pan: "agent z u \<noteq> RO_returned b" if "agent z t = RO_panicked" for t u b
    using r [of t] r [of u] that by auto
  show ?thesis using sole_same [OF sole] ret pan by (auto 0 3)
qed

theorem once_runs_one_closure_witness:
  "let c = \<lparr>oc_call = Call_once, oc_panics = False\<rparr>; z = run_schedule once_only [(0, c), (1, c), (0, c), (1, c), (0, c), (1, c)] once_new
   in agent z 0 = ON_running False \<and> \<not> once_ran (agent z 1)"
proof -
  let ?c = "\<lparr>oc_call = Call_once, oc_panics = False\<rparr>"
  let ?cs = "[(0, ?c), (1, ?c), (0, ?c), (1, ?c), (0, ?c), (1, ?c)] :: (nat \<times> once_choice) list"
  have "agent (run_schedule once_only ?cs once_new) 0 = ON_running False"
    by (simp add: once_new_def agent_step_at once_only_def)
  moreover from this have "\<not> once_ran (agent (run_schedule once_only ?cs once_new) 1)"
    using once_runs_one_closure [OF reaches_schedule, of ?cs] by (metis once_ran.simps(1) zero_neq_one)
  ultimately show ?thesis by (simp add: Let_def)
qed

end
