(* ===== verification/OnceCells.thy ===== *)
theory OnceCells
  imports Onces
begin

text \<open>
  The cells on \<open>Once\<close>: \<open>OnceLock\<close> (\<open>once_lock.rs\<close>) and \<open>AtomicLazy\<close> (\<open>atomic_lazy.rs\<close>), for one
  thread. The memory of a cell is \<open>None\<close> while it is uninitialised or moved out; the code reads it without
  a check, so a call that gives \<open>Some None\<close> or \<open>Ok None\<close> gives a reference to uninitialised memory. A
  closure given by the caller is what it does: a value, an error, or a panic.
\<close>

section \<open>Calling a closure once\<close>

text \<open>The calls of \<open>Once\<close> by one thread, over the data the closure works on; the closure says whether it
  panics. A call from inside the closure finds \<open>RUNNING\<close>: \<open>call_once\<close> then waits for itself and does not
  return, which is \<open>Panic\<close> here.\<close>

definition call_once :: "('d \<Rightarrow> bool \<times> 'd) \<Rightarrow> (8 word \<times> 'd, unit, unit) exec" where
  "call_once f sd = (case sd of (s, d) \<Rightarrow>
     if s = COMPLETE then (Ok (), (s, d))
     else if s = ONCE_POISONED then (Panic, (s, d))
     else if s = INCOMPLETE then (case f d of
         (False, d') \<Rightarrow> (Ok (), (COMPLETE, d'))
       | (True, d') \<Rightarrow> (Panic, (ONCE_POISONED, d')))
     else (Panic, (s, d)))"

definition call_once_force :: "(bool \<Rightarrow> 'd \<Rightarrow> bool \<times> 'd) \<Rightarrow> (8 word \<times> 'd, unit, unit) exec" where
  "call_once_force f sd = (case sd of (s, d) \<Rightarrow>
     if s = COMPLETE then (Ok (), (s, d))
     else (case f (s = ONCE_POISONED) d of
         (False, d') \<Rightarrow> (Ok (), (COMPLETE, d'))
       | (True, d') \<Rightarrow> (Panic, (ONCE_POISONED, d'))))"

section \<open>OnceLock\<close>

record 'a once_lock =
  ol_once :: "8 word"
  ol_data :: "'a option"

definition once_lock_new :: "'a once_lock" where
  "once_lock_new = \<lparr>ol_once = INCOMPLETE, ol_data = None\<rparr>"

definition ol_get :: "'a once_lock \<Rightarrow> 'a option option" where
  "ol_get l = (if ol_once l = COMPLETE then Some (ol_data l) else None)"

definition ol_get_or_init :: "'a option \<Rightarrow> 'a once_lock \<Rightarrow> (unit, 'a option) result \<times> 'a once_lock" where
  "ol_get_or_init f l = (case ol_get l of
     Some v \<Rightarrow> (Ok v, l)
   | None \<Rightarrow> (case call_once (\<lambda>d. case f of Some v \<Rightarrow> (False, Some v) | None \<Rightarrow> (True, d)) (ol_once l, ol_data l) of
       (r, (s, d)) \<Rightarrow> let l' = \<lparr>ol_once = s, ol_data = d\<rparr>
         in (rbind r (\<lambda>_. some_or_panic (ol_get l')), l')))"

text \<open>The closure captures the memory and \<open>init_error\<close>.\<close>

definition ol_init_fn :: "('e, 'a) result \<Rightarrow> 'a option \<times> 'e option \<Rightarrow> bool \<times> 'a option \<times> 'e option" where
  "ol_init_fn f de = (case (f, de) of
     (Ok v, (d, e)) \<Rightarrow> (False, Some v, e)
   | (Err x, (d, e)) \<Rightarrow> (True, d, Some x)
   | (Panic, (d, e)) \<Rightarrow> (True, d, e))"

definition ol_get_or_try_init :: "('e, 'a) result \<Rightarrow> 'a once_lock \<Rightarrow> ('e, 'a option) result \<times> 'a once_lock" where
  "ol_get_or_try_init f l = (case ol_get l of
     Some v \<Rightarrow> (Ok v, l)
   | None \<Rightarrow> (case call_once_force (\<lambda>poisoned de. if \<not> poisoned then ol_init_fn f de else (False, de))
           (ol_once l, (ol_data l, None)) of
       (r, (s, (d, init_error))) \<Rightarrow> let l' = \<lparr>ol_once = s, ol_data = d\<rparr>
         in (case r of
               Ok _ \<Rightarrow> (case init_error of Some e \<Rightarrow> Err e | None \<Rightarrow> some_or_panic (ol_get l'))
             | _ \<Rightarrow> Panic, l')))"

text \<open>\<open>set\<close> gives the value back when the cell had one already; \<open>Err None\<close> is the zeroed memory of its
  last branch.\<close>

definition ol_set :: "'a \<Rightarrow> 'a once_lock \<Rightarrow> ('a option, unit) result \<times> 'a once_lock" where
  "ol_set x l = (case call_once_force
       (\<lambda>poisoned (d, captured, set_ok).
          if \<not> poisoned then (case captured of
              Some v \<Rightarrow> (False, (Some v, None, True))
            | None \<Rightarrow> (True, (d, None, set_ok)))
          else (False, (d, captured, set_ok)))
       (ol_once l, (ol_data l, Some x, False)) of
     (r, (s, (d, captured, set_ok))) \<Rightarrow>
       (case r of
          Ok _ \<Rightarrow> if set_ok then Ok () else (case captured of Some v \<Rightarrow> Err (Some v) | None \<Rightarrow> Err None)
        | _ \<Rightarrow> Panic, \<lparr>ol_once = s, ol_data = d\<rparr>))"

definition ol_take :: "'a once_lock \<Rightarrow> 'a option option \<times> 'a once_lock" where
  "ol_take l = (if ol_once l = COMPLETE then (Some (ol_data l), \<lparr>ol_once = INCOMPLETE, ol_data = None\<rparr>) else (None, l))"

definition ol_into_inner :: "'a once_lock \<Rightarrow> 'a option option" where
  "ol_into_inner l = fst (ol_take l)"

definition ol_from :: "'a \<Rightarrow> 'a once_lock" where
  "ol_from x = snd (ol_set x once_lock_new)"

section \<open>AtomicLazy\<close>

record 'a atomic_lazy =
  al_once :: "8 word"
  al_data :: "'a option"
  al_init :: "'a option option"     \<comment> \<open>the closure, until it is taken\<close>

definition lazy_new :: "'a option \<Rightarrow> 'a atomic_lazy" where
  "lazy_new f = \<lparr>al_once = INCOMPLETE, al_data = None, al_init = Some f\<rparr>"

definition lazy_force :: "'a atomic_lazy \<Rightarrow> (unit, 'a option) result \<times> 'a atomic_lazy" where
  "lazy_force l = (case call_once (\<lambda>(d, i). case i of
         None \<Rightarrow> (True, (d, None))
       | Some None \<Rightarrow> (True, (d, None))
       | Some (Some v) \<Rightarrow> (False, (Some v, None))) (al_once l, (al_data l, al_init l)) of
     (r, (s, (d, i))) \<Rightarrow> (rbind r (\<lambda>_. Ok d), \<lparr>al_once = s, al_data = d, al_init = i\<rparr>))"

section \<open>Properties\<close>

lemmas once_cell_defs = call_once_def call_once_force_def ol_get_def ol_get_or_init_def
  ol_get_or_try_init_def ol_init_fn_def ol_set_def ol_take_def

definition once_alone :: "once_choice \<Rightarrow> nat \<Rightarrow> 8 word \<Rightarrow> (8 word, once_place) system" where
  "once_alone c t s = run_schedule once_step (map (Pair t) (replicate 5 c)) \<lparr>shared = s, agent = \<lambda>_. ON_idle\<rparr>"

lemma once_alone_run:
  "once_alone c t s = (case run_alone once_step [c, c, c, c, c] (s, ON_idle) of
     (s', l) \<Rightarrow> \<lparr>shared = s', agent = (\<lambda>_. ON_idle)(t := l)\<rparr>)"
proof -
  have five: "replicate 5 c = [c, c, c, c, c]" by (simp add: eval_nat_numeral)
  show ?thesis by (simp only: once_alone_def five run_schedule_alone system.simps)
qed

text \<open>How a sequential call ended, as a place.\<close>

definition ended_as :: "(unit, unit) result \<Rightarrow> once_place \<Rightarrow> bool" where
  "ended_as r p \<longleftrightarrow> (case p of ON_returned _ \<Rightarrow> r = Ok () | ON_panicked _ \<Rightarrow> r = Panic | _ \<Rightarrow> False)"

text \<open>A call that runs alone does what the sequential functions say: the steps of one agent of \<open>Once\<close>,
  from any state but \<open>RUNNING\<close>, end in their state, returned or panicked as they do.\<close>

theorem once_alone_refines:
  assumes "s \<in> {INCOMPLETE, COMPLETE, ONCE_POISONED}"
  shows "case (call_once (\<lambda>d. (p, d)) (s, d), call_once_force (\<lambda>_ d. (p, d)) (s, d)) of
     ((r, (s1, _)), (r', (s2, _))) \<Rightarrow>
       shared (once_alone \<lparr>oc_call = Call_once, oc_panics = p\<rparr> t s) = s1 \<and>
       ended_as r (agent (once_alone \<lparr>oc_call = Call_once, oc_panics = p\<rparr> t s) t) \<and>
       shared (once_alone \<lparr>oc_call = Call_once_force, oc_panics = p\<rparr> t s) = s2 \<and>
       ended_as r' (agent (once_alone \<lparr>oc_call = Call_once_force, oc_panics = p\<rparr> t s) t)"
proof -
  note defs = once_alone_run ended_as_def call_once_def call_once_force_def
  have i: "?thesis" if "s = INCOMPLETE" unfolding that by (cases p) (simp_all add: defs)
  have c: "?thesis" if "s = COMPLETE" unfolding that by (simp add: defs)
  have q: "?thesis" if "s = ONCE_POISONED" unfolding that by (cases p) (simp_all add: defs)
  show ?thesis using assms by (elim insertE emptyE) (erule i, erule c, erule q)
qed

text \<open>A cell that no closure failed in: its memory is initialised whenever it counts as complete.\<close>

definition once_lock_clean :: "'a once_lock \<Rightarrow> bool" where
  "once_lock_clean l \<longleftrightarrow> ol_once l = INCOMPLETE \<or> (ol_once l = COMPLETE \<and> ol_data l \<noteq> None)"

text \<open>The first value put into an empty \<open>OnceLock\<close> is the one every later call gives, whatever it was
  to be initialised with, until it is taken; the cell is then as new.\<close>

theorem once_lock_first_value_wins:
  assumes "ol_once l = INCOMPLETE"
    and "(r, l') \<in> {(fst (ol_set v l), snd (ol_set v l)),
      (map_err (\<lambda>_. None) (rbind (fst (ol_get_or_init (Some v) l)) (\<lambda>_. Ok ())), snd (ol_get_or_init (Some v) l)),
      (map_err (\<lambda>_::unit. None) (rbind (fst (ol_get_or_try_init (Ok v) l)) (\<lambda>_. Ok ())), snd (ol_get_or_try_init (Ok v) l))}"
  shows "r = Ok () \<and> ol_get l' = Some (Some v) \<and> ol_get_or_init f l' = (Ok (Some v), l') \<and>
    ol_get_or_try_init g l' = (Ok (Some v), l') \<and> ol_set w l' = (Err (Some w), l') \<and>
    ol_take l' = (Some (Some v), once_lock_new)"
  using assms by (auto simp: once_cell_defs once_lock_new_def)

text \<open>As long as no closure fails no reference to uninitialised memory is given out, and every
  operation keeps it so.\<close>

theorem once_lock_clean_kept:
  assumes "once_lock_clean l"
  shows "ol_get l \<noteq> Some None \<and>
    (\<exists>x. fst (ol_get_or_init (Some v) l) = Ok (Some x)) \<and> once_lock_clean (snd (ol_get_or_init (Some v) l)) \<and>
    (\<exists>x. fst (ol_get_or_try_init (Ok v) l) = Ok (Some x)) \<and> once_lock_clean (snd (ol_get_or_try_init (Ok v) l)) \<and>
    fst (ol_set v l) \<in> {Ok (), Err (Some v)} \<and> once_lock_clean (snd (ol_set v l)) \<and>
    fst (ol_take l) \<noteq> Some None \<and> once_lock_clean (snd (ol_take l))"
  using assms by (auto simp: once_lock_clean_def once_cell_defs)

text \<open>\<open>get_or_try_init\<close> does not give the error of its closure, as it says, but panics, and does not
  leave the cell uninitialised but poisoned. Whoever then calls it or \<open>set\<close> completes the cell without
  writing it, and what is read from then on is uninitialised memory.\<close>

theorem once_lock_failed_init_exposes_memory:
  assumes "ol_once l = INCOMPLETE" "ol_data l = None"
  shows "\<exists>l'. ol_get_or_try_init (Err e) l = (Panic, l') \<and> ol_get l' = None \<and>
    fst (ol_get_or_try_init (Ok v) l') = Ok None \<and>
    fst (ol_set v l') = Err (Some v) \<and> ol_get (snd (ol_set v l')) = Some None"
  using assms by (auto simp: once_cell_defs)

text \<open>\<open>AtomicLazy\<close> runs its closure at the first \<open>force\<close> and gives its value then and ever after; when
  the closure panics so does every \<open>force\<close>, and uninitialised memory is never given out.\<close>

theorem lazy_force_once:
  "(\<exists>l. lazy_force (lazy_new (Some v)) = (Ok (Some v), l) \<and> lazy_force l = (Ok (Some v), l) \<and> al_init l = None) \<and>
   (\<exists>l. lazy_force (lazy_new None) = (Panic, l) \<and> lazy_force l = (Panic, l))"
  by (simp add: lazy_force_def lazy_new_def call_once_def)

theorem once_alone_refines_witness:
  "shared (once_alone \<lparr>oc_call = Call_once, oc_panics = False\<rparr> 0 INCOMPLETE) = COMPLETE"
  using once_alone_refines [of INCOMPLETE False 0 "()"] by (simp add: call_once_def call_once_force_def)

theorem once_lock_failed_init_exposes_memory_witness:
  "\<exists>l' :: nat once_lock. ol_get_or_try_init (Err True) once_lock_new = (Panic, l') \<and> ol_get (snd (ol_set 5 l')) = Some None"
  using once_lock_failed_init_exposes_memory [of "once_lock_new :: nat once_lock" True 5] by (auto simp: once_lock_new_def)

end
