(* ===== verification/SpinBarrier.thy ===== *)
theory SpinBarrier
  imports Interleave
begin

text \<open>
  \<open>SpinBarrier\<close> of \<open>foundation_nostd/src/primitives/barrier.rs\<close>. An agent is a thread that calls \<open>wait\<close>
  again and again; its places carry how many calls it has returned from. A \<open>usize\<close> is a word of any
  width, so the generation may wrap.
\<close>

record 'n barrier =
  sb_count :: 'n
  sb_generation :: 'n

datatype 'n barrier_place =
    SB_outside                    \<comment> \<open>not a thread of this program\<close>
  | SB_done nat bool              \<comment> \<open>outside \<open>wait\<close>, and whether the last call made it the leader\<close>
  | SB_add nat 'n          \<comment> \<open>with the generation it loaded\<close>
  | SB_wait nat 'n
  | SB_reset nat                  \<comment> \<open>the last to arrive, before it resets the count\<close>
  | SB_bump nat                   \<comment> \<open>before it advances the generation\<close>

text \<open>\<open>new n\<close> for a program of \<open>m\<close> threads; it panics when \<open>n\<close> is 0.\<close>

definition barrier_new :: "'w::len word \<Rightarrow> nat \<Rightarrow> (unit, ('w word barrier, 'w word barrier_place) system) result" where
  "barrier_new n m = (if n = 0 then Panic
     else Ok \<lparr>shared = \<lparr>sb_count = 0, sb_generation = 0\<rparr>,
       agent = \<lambda>t. if t < m then SB_done 0 False else SB_outside\<rparr>)"

fun barrier_step :: "'w::len word \<Rightarrow> (unit, 'w word barrier, 'w word barrier_place) steps" where
  "barrier_step n c s SB_outside = (s, SB_outside)"
| "barrier_step n c s (SB_done k b) = (s, SB_add k (sb_generation s))"
| "barrier_step n c s (SB_add k g) = (s\<lparr>sb_count := sb_count s + 1\<rparr>,
     if sb_count s + 1 < n then SB_wait k g else SB_reset k)"
| "barrier_step n c s (SB_wait k g) = (s, if sb_generation s = g then SB_wait k g else SB_done (k + 1) False)"
| "barrier_step n c s (SB_reset k) = (s\<lparr>sb_count := 0\<rparr>, SB_bump k)"
| "barrier_step n c s (SB_bump k) = (s\<lparr>sb_generation := sb_generation s + 1\<rparr>, SB_done (k + 1) True)"

text \<open>How many calls an agent has returned from, and how many it has arrived in.\<close>

fun passed :: "'n barrier_place \<Rightarrow> nat" where
  "passed SB_outside = 0"
| "passed (SB_done k b) = k"
| "passed (SB_add k g) = k"
| "passed (SB_wait k g) = k"
| "passed (SB_reset k) = k"
| "passed (SB_bump k) = k"

fun arrivals :: "'n barrier_place \<Rightarrow> nat" where
  "arrivals SB_outside = 0"
| "arrivals (SB_done k b) = k"
| "arrivals (SB_add k g) = k"
| "arrivals (SB_wait k g) = k + 1"
| "arrivals (SB_reset k) = k + 1"
| "arrivals (SB_bump k) = k + 1"

section \<open>The invariant\<close>

text \<open>In round \<open>r\<close> an agent has not arrived, or waits, or was released from the round before and has not
  noticed, or leads.\<close>

fun in_round :: "nat \<Rightarrow> 'w::len word barrier_place \<Rightarrow> bool" where
  "in_round r SB_outside = False"
| "in_round r (SB_done k b) = (k = r)"
| "in_round r (SB_add k g) = (k = r \<and> g = of_nat r)"
| "in_round r (SB_wait k g) = ((k = r \<or> k + 1 = r) \<and> g = of_nat k)"
| "in_round r (SB_reset k) = (k = r)"
| "in_round r (SB_bump k) = (k = r)"

definition at_wait :: "nat \<Rightarrow> 'w::len word barrier_place \<Rightarrow> bool" where
  "at_wait r p \<longleftrightarrow> p = SB_wait r (of_nat r)"

fun leads :: "'n barrier_place \<Rightarrow> bool" where
  "leads (SB_reset k) = True"
| "leads (SB_bump k) = True"
| "leads _ = False"

definition round_inv :: "nat \<Rightarrow> nat \<Rightarrow> ('w::len word barrier, 'w word barrier_place) system \<Rightarrow> bool" where
  "round_inv n r z \<longleftrightarrow> sb_generation (shared z) = of_nat r \<and>
     (\<forall>t<n. in_round r (agent z t)) \<and> (\<forall>t\<ge>n. agent z t = SB_outside) \<and>
     (if agents leads z = {} then
        sb_count (shared z) = of_nat (card (agents (at_wait r) z)) \<and> card (agents (at_wait r) z) < n
      else \<exists>t<n. agents leads z = {t} \<and> agents (at_wait r) z = {..<n} - {t} \<and>
        (agent z t = SB_reset r \<or> (agent z t = SB_bump r \<and> sb_count (shared z) = 0)))"

definition barrier_inv :: "'w::len word \<Rightarrow> ('w word barrier, 'w word barrier_place) system \<Rightarrow> bool" where
  "barrier_inv n z \<longleftrightarrow> (\<exists>r. round_inv (unat n) r z)"

lemma round_inv_start: "0 < n \<Longrightarrow> round_inv n 0 \<lparr>shared = \<lparr>sb_count = 0, sb_generation = 0\<rparr>,
    agent = \<lambda>t. if t < n then SB_done 0 False else SB_outside\<rparr>"
  by (simp add: round_inv_def at_wait_def agents_def)

text \<open>While nobody leads.\<close>

lemma round_no_leader:
  assumes "round_inv n r z" "agents leads z = {}"
  shows "sb_count (shared z) = of_nat (card (agents (at_wait r) z))" "card (agents (at_wait r) z) < n"
  using assms by (simp_all add: round_inv_def)

lemma round_leader:
  assumes "round_inv n r z" "leads (agent z t)"
  shows "agents leads z = {t}" "agents (at_wait r) z = {..<n} - {t}"
    "agent z t = SB_reset r \<or> (agent z t = SB_bump r \<and> sb_count (shared z) = 0)"
proof -
  have "t \<in> agents leads z" using assms(2) by simp
  then obtain u where "agents leads z = {u} \<and> agents (at_wait r) z = {..<n} - {u} \<and>
      (agent z u = SB_reset r \<or> (agent z u = SB_bump r \<and> sb_count (shared z) = 0))" "t = u"
    using assms(1) unfolding round_inv_def by (metis empty_iff singleton_iff)
  then show "agents leads z = {t}" "agents (at_wait r) z = {..<n} - {t}"
    "agent z t = SB_reset r \<or> (agent z t = SB_bump r \<and> sb_count (shared z) = 0)" by auto
qed

lemma round_leader_alone:
  assumes "round_inv n r z" "t < n" "\<not> at_wait r (agent z t)" "\<not> leads (agent z t)"
  shows "agents leads z = {}"
proof (rule ccontr)
  assume "agents leads z \<noteq> {}"
  then obtain u where u: "leads (agent z u)" by (auto simp: agents_def)
  then have "t \<noteq> u" using assms(4) by auto
  then have "t \<in> agents (at_wait r) z" using round_leader(2) [OF assms(1) u] assms(2) by simp
  then show False using assms(3) by simp
qed

lemma waiters_bound: "round_inv n r z \<Longrightarrow> agents (at_wait r) z \<subseteq> {..<n}"
  by (force simp: round_inv_def at_wait_def not_le)

text \<open>A step that changes neither the barrier nor who waits in this round nor who leads.\<close>

lemma round_quiet:
  assumes "round_inv n r z" "in_round r l" "at_wait r l = at_wait r (agent z t)" "\<not> leads l" "\<not> leads (agent z t)" "t < n"
  shows "round_inv n r \<lparr>shared = shared z, agent = (agent z)(t := l)\<rparr>"
proof -
  let ?z = "\<lparr>shared = shared z, agent = (agent z)(t := l)\<rparr>"
  have a: "agents leads ?z = agents leads z" "agents (at_wait r) ?z = agents (at_wait r) z"
    using assms(3-5) by (intro agents_same; simp)+
  have "agent ?z u = agent z u" if "leads (agent z u)" for u using that assms(5) by auto
  moreover have "\<forall>u<n. in_round r (agent ?z u)" "\<forall>u\<ge>n. agent ?z u = SB_outside"
    using assms(1,2,6) by (simp_all add: round_inv_def)
  ultimately show ?thesis using assms(1) unfolding round_inv_def a
    by (auto simp: agents_def set_eq_iff split: if_splits)
qed

lemma unat_up_to: "k \<le> unat (m :: 'w::len word) \<Longrightarrow> unat (of_nat k :: 'w word) = k"
  using unsigned_less [of m] by (simp add: unat_of_nat le_less_trans)

lemma round_arrives:
  fixes z :: "('w::len word barrier, 'w word barrier_place) system"
  assumes inv: "round_inv (unat m) r z" and t: "t < unat m" "agent z t = SB_add k g"
    and l: "l = (if sb_count (shared z) + 1 < m then SB_wait k g else SB_reset k)"
  shows "round_inv (unat m) r \<lparr>shared = (shared z)\<lparr>sb_count := sb_count (shared z) + 1\<rparr>, agent = (agent z)(t := l)\<rparr>"
    (is "round_inv _ _ ?z")
proof -
  let ?W = "agents (at_wait r) z"
  have g: "k = r" "g = of_nat r" using inv t by (auto simp: round_inv_def)
  have L: "agents leads z = {}" using round_leader_alone [OF inv t(1)] t(2) by (simp add: at_wait_def)
  note c = round_no_leader [OF inv L]
  have fin: "finite ?W" using waiters_bound [OF inv] by (rule finite_subset) simp
  have tW: "t \<notin> ?W" using t(2) by (simp add: at_wait_def)
  then have cW: "card (insert t ?W) = card ?W + 1" using fin by simp
  have s1: "sb_count (shared z) + 1 = of_nat (card ?W + 1)" using c(1) by simp
  have u: "unat (of_nat (card ?W + 1) :: 'w word) = card ?W + 1" by (rule unat_up_to [of _ m]) (use c(2) in simp)
  have last: "sb_count (shared z) + 1 < m \<longleftrightarrow> card ?W + 1 < unat m" by (simp only: s1 word_less_nat_alt u)
  have rest: "\<forall>u<unat m. in_round r (agent ?z u)" "\<forall>u\<ge>unat m. agent ?z u = SB_outside"
    using inv t(1) g l by (auto simp: round_inv_def)
  show ?thesis
  proof (cases "card ?W + 1 < unat m")
    case True
    then have l': "l = SB_wait r (of_nat r)" using l g last by simp
    then have "agents leads ?z = {}" "agents (at_wait r) ?z = insert t ?W" using L by (simp_all add: at_wait_def)
    then show ?thesis using inv rest s1 cW True by (simp add: round_inv_def)
  next
    case False
    then have l': "l = SB_reset r" using l g last by simp
    have "?W \<subseteq> {..<unat m} - {t}" using waiters_bound [OF inv] tW by blast
    moreover have "card ({..<unat m} - {t}) \<le> card ?W" using False t(1) by simp
    ultimately have "?W = {..<unat m} - {t}" by (intro card_seteq) simp_all
    then have "agents (at_wait r) ?z = {..<unat m} - {t}" using l' by (simp add: at_wait_def)
    moreover have "agents leads ?z = {t}" using l' L by simp
    ultimately show ?thesis using inv rest l' t(1) by (simp add: round_inv_def)
  qed
qed

lemma round_reset:
  assumes inv: "round_inv n r z" and t: "t < n" "agent z t = SB_reset k"
  shows "round_inv n r \<lparr>shared = (shared z)\<lparr>sb_count := 0\<rparr>, agent = (agent z)(t := SB_bump k)\<rparr>"
proof -
  have l: "leads (agent z t)" using t(2) by simp
  note L = round_leader [OF inv l]
  have k: "k = r" using L(3) t(2) by simp
  have a: "agents leads \<lparr>shared = v, agent = (agent z)(t := SB_bump k)\<rparr> = {t}"
    "agents (at_wait r) \<lparr>shared = v, agent = (agent z)(t := SB_bump k)\<rparr> = {..<n} - {t}" for v
    using L(1,2) by (auto simp: at_wait_def)
  show ?thesis using inv t(1) k a by (simp add: round_inv_def)
qed

text \<open>The leader opens the next round: everybody else waited in this one.\<close>

lemma round_opens:
  assumes inv: "round_inv n r z" and t: "t < n" "agent z t = SB_bump k"
  shows "round_inv n (r + 1)
    \<lparr>shared = (shared z)\<lparr>sb_generation := sb_generation (shared z) + 1\<rparr>, agent = (agent z)(t := SB_done (k + 1) True)\<rparr>"
    (is "round_inv _ _ ?z")
proof -
  have l: "leads (agent z t)" using t(2) by simp
  note L = round_leader [OF inv l]
  have k: "k = r" and c: "sb_count (shared z) = 0" using L(3) t(2) by auto
  have w: "agent z u = SB_wait r (of_nat r)" if "u < n" "u \<noteq> t" for u
    using L(2) that by (auto simp: at_wait_def set_eq_iff)
  have o: "agent z u = SB_outside" if "\<not> u < n" for u using inv that by (simp add: round_inv_def)
  have place: "agent ?z u = (if u = t then SB_done (r + 1) True else if u < n then SB_wait r (of_nat r) else SB_outside)" for u
    using w o k by simp
  have "agents leads ?z = {}" "agents (at_wait (r + 1)) ?z = {}"
    unfolding agents_def place by (simp_all add: at_wait_def)
  moreover have "\<forall>u<n. in_round (r + 1) (agent ?z u)" "\<forall>u\<ge>n. agent ?z u = SB_outside"
    unfolding place using t(1) by simp_all
  ultimately show ?thesis using inv c t(1) by (simp add: round_inv_def)
qed

lemma round_waits:
  assumes inv: "round_inv n r z" and t: "t < n" "agent z t = SB_wait k g"
    and l: "l = (if sb_generation (shared z) = g then SB_wait k g else SB_done (k + 1) False)"
  shows "round_inv n r \<lparr>shared = shared z, agent = (agent z)(t := l)\<rparr>"
proof (cases "sb_generation (shared z) = g")
  case True
  then show ?thesis using inv t(2) l by (simp add: fun_upd_idem)
next
  case False
  have "in_round r (SB_wait k g)" "sb_generation (shared z) = of_nat r"
    using inv t by (auto simp: round_inv_def)
  then have "k + 1 = r" using False by auto
  then show ?thesis using round_quiet [OF inv, of "SB_done r False" t] t False l by (auto simp: at_wait_def)
qed

lemma barrier_round_step:
  assumes inv: "round_inv (unat m) r z" and st: "barrier_step m c (shared z) (agent z t) = (s, l)"
  shows "\<exists>r'. round_inv (unat m) r' \<lparr>shared = s, agent = (agent z)(t := l)\<rparr>"
proof (cases "t < unat m")
  case False
  then have "agent z t = SB_outside" using inv by (simp add: round_inv_def)
  then have "\<lparr>shared = s, agent = (agent z)(t := l)\<rparr> = z" using st by (auto simp: fun_upd_idem)
  then show ?thesis using inv by auto
next
  case True
  then have r: "in_round r (agent z t)" "sb_generation (shared z) = of_nat r" using inv by (simp_all add: round_inv_def)
  show ?thesis
  proof (cases "agent z t")
    case (SB_wait k g)
    then show ?thesis using round_waits [OF inv True SB_wait refl] st by auto
  next
    case (SB_done k b)
    then show ?thesis using round_quiet [OF inv, of "SB_add r (of_nat r)" t] st r True by (auto simp: at_wait_def)
  next
    case (SB_add k g)
    then show ?thesis using round_arrives [OF inv True SB_add refl] st by auto
  next
    case (SB_reset k)
    then show ?thesis using round_reset [OF inv True SB_reset] st by auto
  next
    case (SB_bump k)
    then show ?thesis using round_opens [OF inv True SB_bump] st by auto
  qed (use r in simp)
qed

lemma barrier_inv_step: "barrier_inv m z \<Longrightarrow> barrier_inv m (agent_step (barrier_step m) t c z)"
proof (rule agent_step_split)
  fix s l assume "barrier_inv m z" "barrier_step m c (shared z) (agent z t) = (s, l)"
  then show "barrier_inv m \<lparr>shared = s, agent = (agent z)(t := l)\<rparr>"
    unfolding barrier_inv_def by (elim exE) (rule barrier_round_step)
qed

lemma barrier_reachable:
  assumes "barrier_new m (unat m) = Ok z0" "reaches (barrier_step m) z0 z"
  shows "barrier_inv m z"
proof -
  have "m \<noteq> 0" using assms(1) by (auto simp: barrier_new_def)
  then have "0 < unat m" by (simp add: unat_gt_0)
  then have start: "round_inv (unat m) 0 z0" using assms(1) round_inv_start [of "unat m"] \<open>m \<noteq> 0\<close>
    unfolding barrier_new_def by (metis result.inject(1))
  show ?thesis
  proof (rule reaches_invariant [OF assms(2)])
    show "barrier_inv m z0" unfolding barrier_inv_def by (rule exI) (rule start)
  qed (rule barrier_inv_step)
qed

section \<open>Properties\<close>

lemma in_round_passed: "in_round r p \<Longrightarrow> passed p \<le> r \<and> r \<le> arrivals p"
  by (cases p) auto

text \<open>C20: a barrier for n threads that n threads use holds them: nobody returns from a call of \<open>wait\<close>
  before everybody has arrived in it, in every round, and however often the generation wraps.\<close>

theorem barrier_waits_for_all:
  assumes "barrier_new m (unat m) = Ok z0" "reaches (barrier_step m) z0 z" "t < unat m" "u < unat m"
  shows "passed (agent z t) \<le> arrivals (agent z u)"
proof -
  obtain r where "round_inv (unat m) r z" using barrier_reachable [OF assms(1,2)] by (auto simp: barrier_inv_def)
  then have "in_round r (agent z t)" "in_round r (agent z u)" using assms(3,4) by (simp_all add: round_inv_def)
  from in_round_passed [OF this(1)] in_round_passed [OF this(2)] show ?thesis by linarith
qed

text \<open>And it lets them go: when all of them are inside \<open>wait\<close> one can go on, that is, it is not
  waiting for a generation that is still the current one.\<close>

theorem barrier_no_deadlock:
  assumes "barrier_new m (unat m) = Ok z0" "reaches (barrier_step m) z0 z"
    and "\<forall>t<unat m. \<forall>k b. agent z t \<noteq> SB_done k b"
  shows "\<exists>t<unat m. \<forall>k g. agent z t = SB_wait k g \<longrightarrow> sb_generation (shared z) \<noteq> g"
proof -
  obtain r where inv: "round_inv (unat m) r z" using barrier_reachable [OF assms(1,2)] by (auto simp: barrier_inv_def)
  have gen: "sb_generation (shared z) = of_nat r" using inv by (simp add: round_inv_def)
  show ?thesis
  proof (cases "agents leads z = {}")
    case True
    note c = round_no_leader(2) [OF inv True]
    have "finite (agents (at_wait r) z)" using waiters_bound [OF inv] by (rule finite_subset) simp
    then have "unat m \<le> card (agents (at_wait r) z)" if "{..<unat m} \<subseteq> agents (at_wait r) z"
      using card_mono [of "agents (at_wait r) z" "{..<unat m}"] that by simp
    then have "\<not> {..<unat m} \<subseteq> agents (at_wait r) z" using c by linarith
    then obtain t where t: "t < unat m" "\<not> at_wait r (agent z t)"
      by (metis in_agents lessThan_iff subsetI)
    have "in_round r (agent z t)" using inv t(1) by (simp add: round_inv_def)
    then have "sb_generation (shared z) \<noteq> g" if "agent z t = SB_wait k g" for k g
      using t(2) that gen by (auto simp: at_wait_def)
    then show ?thesis using t(1) by blast
  next
    case False
    then obtain t where l: "leads (agent z t)" by (auto simp: agents_def)
    then have "agent z t \<noteq> SB_outside" by auto
    then have "t < unat m" using inv by (meson not_less round_inv_def)
    then show ?thesis using l by (intro exI [of _ t]) auto
  qed
qed

text \<open>At most one thread leads a round.\<close>

theorem barrier_one_leader:
  assumes "barrier_new m (unat m) = Ok z0" "reaches (barrier_step m) z0 z" "leads (agent z t)" "leads (agent z u)"
  shows "t = u"
proof -
  obtain r where "round_inv (unat m) r z" using barrier_reachable [OF assms(1,2)] by (auto simp: barrier_inv_def)
  then show ?thesis using round_leader(1) [OF _ assms(3)] round_leader(1) [OF _ assms(4)] by blast
qed

definition third_thread :: "(nat \<times> unit) list" where
  "third_thread = map (\<lambda>t. (t, ())) [0, 0, 1, 1, 1, 2, 2, 1, 2]"

text \<open>With more threads than the barrier is for it does not hold. The leader resets the count before
  it advances the generation; a third thread that arrives in between is counted for the next round but
  waits for the old generation, and leaves at once although only it has arrived.\<close>

theorem barrier_lets_third_thread_through:
  "\<exists>z0. barrier_new (2 :: 64 word) 3 = Ok z0 \<and> (let z = run_schedule (barrier_step 2) third_thread z0
     in agent z 2 = SB_done 1 False \<and> sb_count (shared z) = 1 \<and> agent z 0 = SB_wait 0 0 \<and> agent z 1 = SB_done 1 True)"
proof -
  define p :: "nat \<Rightarrow> 64 word barrier_place" where "p = (\<lambda>t. if t < 3 then SB_done 0 False else SB_outside)"
  have p: "p 0 = SB_done 0 False" "p (Suc 0) = SB_done 0 False" "p 2 = SB_done 0 False" by (simp_all add: p_def)
  have "run_schedule (barrier_step 2) third_thread \<lparr>shared = \<lparr>sb_count = 0, sb_generation = 0\<rparr>, agent = p\<rparr>
    = \<lparr>shared = \<lparr>sb_count = 1, sb_generation = 1\<rparr>,
       agent = p(0 := SB_wait 0 0, 1 := SB_done 1 True, 2 := SB_done 1 False)\<rparr>"
    by (simp add: third_thread_def agent_step_at p)
  then show ?thesis by (simp add: barrier_new_def p_def [symmetric])
qed

theorem barrier_waits_for_all_witness:
  "\<exists>z0. barrier_new (2 :: 64 word) 2 = Ok z0 \<and>
     passed (agent (run_schedule (barrier_step 2) [(0, ()), (0, ())] z0) 0) \<le> arrivals (agent (run_schedule (barrier_step 2) [(0, ()), (0, ())] z0) 1)"
proof -
  obtain z0 where z0: "barrier_new (2 :: 64 word) (unat (2 :: 64 word)) = Ok z0" by (simp add: barrier_new_def)
  from barrier_waits_for_all [OF z0 reaches_schedule, of 0 1 "[(0, ()), (0, ())]"] z0 show ?thesis by auto
qed

end
