(* ===== verification/CondVars.thy ===== *)
theory CondVars
  imports SpinMutexes
begin

unbundle bit_operations_syntax

text \<open>
  Condition variables without an operating system: \<open>CondVarMutex\<close> and \<open>CondVar\<close> of
  \<open>foundation_nostd/src/primitives/condvar/nostd_impl.rs\<close>, as one system over the word of the mutex and
  the two words of the condition variable. An agent is a thread's use of both: it locks, waits with its
  guard, and drops it; a thread that notifies is an agent of its own. \<open>wait_while\<close> and
  \<open>wait_timeout_while\<close> are choices of an agent that has its guard back. The rounds of \<open>SpinWait\<close> inside
  the waiting loops change nothing and are left out.
\<close>

definition WAITER_MASK :: "32 word" where "WAITER_MASK = 2 ^ 30 - 1"
definition NOTIFY_FLAG :: "32 word" where "NOTIFY_FLAG = 2 ^ 30"

record 'n cv_shared =
  cv_mutex :: "8 word"
  cv_state :: "32 word"
  cv_generation :: 'n

datatype cv_call =
    Do_lock | Do_try_lock | Do_drop | Do_wait | Do_wait_timeout nat | Do_notify_one | Do_notify_all

record cv_choice =
  cc_call :: cv_call
  cc_spurious :: bool

text \<open>How many rounds \<open>wait_timeout_impl\<close> makes for a duration of so many microseconds, on a machine
  whose \<open>usize\<close> has \<open>usz\<close> bytes.\<close>

definition timeout_rounds :: "nat \<Rightarrow> nat \<Rightarrow> nat" where
  "timeout_rounds usz micros = max (micros div 10) 1 mod 2 ^ (8 * usz)"

text \<open>The places inside \<open>wait\<close> carry \<open>was_poisoned\<close> and the rounds left, \<open>None\<close> without a timeout.\<close>

datatype 'n cv_place =
    CV_outside
  | CV_idle
  | CV_lock
  | CV_lock_cas "8 word"
  | CV_try
  | CV_try_cas "8 word"
  | CV_would_block
  | CV_guard bool bool                 \<comment> \<open>came as \<open>PoisonError\<close>; timed out\<close>
  | CV_unlock "8 word"                 \<comment> \<open>drop of a guard, between load and store\<close>
  | CV_add bool "nat option"           \<comment> \<open>before the waiter is counted\<close>
  | CV_load_gen bool "nat option"
  | CV_drop bool "nat option" 'n       \<comment> \<open>with the generation to wait for the end of\<close>
  | CV_store bool "nat option" 'n "8 word"
  | CV_spin bool "nat option" 'n
  | CV_check bool "nat option" 'n 'n   \<comment> \<open>between the two loads of a round\<close>
  | CV_sub bool bool
  | CV_relock bool bool
  | CV_relock_cas bool bool "8 word"
  | CV_relocked bool
  | CV_notify_one
  | CV_notify_all
  | CV_bump

definition cv_new :: "nat \<Rightarrow> ('w::len word cv_shared, 'w word cv_place) system" where
  "cv_new n = \<lparr>shared = \<lparr>cv_mutex = UNLOCKED, cv_state = 0, cv_generation = 0\<rparr>,
     agent = \<lambda>t. if t < n then CV_idle else CV_outside\<rparr>"

text \<open>\<open>notify_one\<close> and \<open>notify_all\<close> do the same.\<close>

definition cv_notify :: "'n cv_shared \<Rightarrow> 'n cv_place" where
  "cv_notify s = (if cv_state s AND WAITER_MASK > 0 then CV_bump else CV_idle)"

text \<open>What a waiter does with the two values of a round; without rounds left it decides whether it timed
  out.\<close>

definition cv_round :: "32 word \<Rightarrow> bool \<Rightarrow> nat option \<Rightarrow> 'n \<Rightarrow> 'n \<Rightarrow> 'n cv_place" where
  "cv_round state wp left g new_gen = (case left of
     Some 0 \<Rightarrow> CV_sub wp (new_gen = g \<and> state AND NOTIFY_FLAG = 0)
   | _ \<Rightarrow> if new_gen \<noteq> g \<or> state AND NOTIFY_FLAG \<noteq> 0 then CV_sub wp False
       else CV_spin wp (map_option (\<lambda>n. n - 1) left) g)"

fun cv_step :: "(cv_choice, 'w::len word cv_shared, 'w word cv_place) steps" where
  "cv_step c s CV_outside = (s, CV_outside)"
| "cv_step c s CV_idle = (s, case cc_call c of
      Do_lock \<Rightarrow> CV_lock | Do_try_lock \<Rightarrow> CV_try | Do_notify_one \<Rightarrow> CV_notify_one | Do_notify_all \<Rightarrow> CV_notify_all
    | _ \<Rightarrow> CV_idle)"
| "cv_step c s CV_lock = (s, if cv_mutex s AND LOCKED = 0 then CV_lock_cas (cv_mutex s) else CV_lock)"
| "cv_step c s (CV_lock_cas st) =
     (if cv_mutex s = st \<and> \<not> cc_spurious c then (s\<lparr>cv_mutex := st OR LOCKED\<rparr>, CV_guard (mutex_poisoned st) False)
      else (s, CV_lock))"
| "cv_step c s CV_try = (s, if cv_mutex s AND LOCKED \<noteq> 0 then CV_would_block else CV_try_cas (cv_mutex s))"
| "cv_step c s (CV_try_cas st) =
     (if cv_mutex s = st then (s\<lparr>cv_mutex := st OR LOCKED\<rparr>, CV_guard (mutex_poisoned st) False)
      else (s, CV_would_block))"
| "cv_step c s CV_would_block = (s, CV_idle)"
| "cv_step c s (CV_guard p out) = (s, case cc_call c of
      Do_drop \<Rightarrow> CV_unlock (cv_mutex s)
    | Do_wait \<Rightarrow> CV_add (mutex_poisoned (cv_mutex s)) None
    | Do_wait_timeout n \<Rightarrow> CV_add (mutex_poisoned (cv_mutex s)) (Some n)
    | _ \<Rightarrow> CV_guard p out)"
| "cv_step c s (CV_unlock st) = (s\<lparr>cv_mutex := st AND NOT LOCKED\<rparr>, CV_idle)"
| "cv_step c s (CV_add wp left) = (s\<lparr>cv_state := cv_state s + 1\<rparr>, CV_load_gen wp left)"
| "cv_step c s (CV_load_gen wp left) = (s, CV_drop wp left (cv_generation s))"
| "cv_step c s (CV_drop wp left g) = (s, CV_store wp left g (cv_mutex s))"
| "cv_step c s (CV_store wp left g st) = (s\<lparr>cv_mutex := st AND NOT LOCKED\<rparr>, CV_spin wp left g)"
| "cv_step c s (CV_spin wp left g) = (s, CV_check wp left g (cv_generation s))"
| "cv_step c s (CV_check wp left g new_gen) = (s, cv_round (cv_state s) wp left g new_gen)"
| "cv_step c s (CV_sub wp out) = (s\<lparr>cv_state := cv_state s - 1\<rparr>, CV_relock wp out)"
| "cv_step c s (CV_relock wp out) =
     (s, if cv_mutex s AND LOCKED = 0 then CV_relock_cas wp out (cv_mutex s) else CV_relock wp out)"
| "cv_step c s (CV_relock_cas wp out st) =
     (if cv_mutex s = st \<and> \<not> cc_spurious c then (s\<lparr>cv_mutex := st OR LOCKED\<rparr>,
        if mutex_poisoned st \<or> wp then CV_guard True out else CV_relocked out)
      else (s, CV_relock wp out))"
| "cv_step c s (CV_relocked out) = (s, CV_guard (mutex_poisoned (cv_mutex s)) out)"
| "cv_step c s CV_notify_one = (s, cv_notify s)"
| "cv_step c s CV_notify_all = (s, cv_notify s)"
| "cv_step c s CV_bump = (s\<lparr>cv_generation := cv_generation s + 1\<rparr>, CV_idle)"

section \<open>The invariant\<close>

fun cv_holds :: "'n cv_place \<Rightarrow> bool" where
  "cv_holds (CV_guard _ _) = True"
| "cv_holds (CV_unlock _) = True"
| "cv_holds (CV_add _ _) = True"
| "cv_holds (CV_load_gen _ _) = True"
| "cv_holds (CV_drop _ _ _) = True"
| "cv_holds (CV_store _ _ _ _) = True"
| "cv_holds (CV_relocked _) = True"
| "cv_holds _ = False"

text \<open>The waiters that the state counts.\<close>

fun cv_counted :: "'n cv_place \<Rightarrow> bool" where
  "cv_counted (CV_load_gen _ _) = True"
| "cv_counted (CV_drop _ _ _) = True"
| "cv_counted (CV_store _ _ _ _) = True"
| "cv_counted (CV_spin _ _ _) = True"
| "cv_counted (CV_check _ _ _ _) = True"
| "cv_counted (CV_sub _ _) = True"
| "cv_counted _ = False"

fun cv_remembers :: "'n cv_place \<Rightarrow> bool" where
  "cv_remembers (CV_lock_cas st) = (st = 0)"
| "cv_remembers (CV_try_cas st) = (st = 0)"
| "cv_remembers (CV_relock_cas wp _ st) = (\<not> wp \<and> st = 0)"
| "cv_remembers (CV_guard p _) = (\<not> p)"
| "cv_remembers (CV_unlock st) = (st = 1)"
| "cv_remembers (CV_add wp _) = (\<not> wp)"
| "cv_remembers (CV_load_gen wp _) = (\<not> wp)"
| "cv_remembers (CV_drop wp _ _) = (\<not> wp)"
| "cv_remembers (CV_store wp _ _ st) = (\<not> wp \<and> st = 1)"
| "cv_remembers (CV_spin wp _ _) = (\<not> wp)"
| "cv_remembers (CV_check wp _ _ _) = (\<not> wp)"
| "cv_remembers (CV_sub wp _) = (\<not> wp)"
| "cv_remembers (CV_relock wp _) = (\<not> wp)"
| "cv_remembers _ = True"

definition cv_inv :: "nat \<Rightarrow> ('w::len word cv_shared, 'w word cv_place) system \<Rightarrow> bool" where
  "cv_inv n z \<longleftrightarrow> cv_mutex (shared z) \<in> {0, 1} \<and> sole (cv_mutex (shared z) = 1) (agents cv_holds z) \<and>
     (\<forall>t. cv_remembers (agent z t)) \<and> (\<forall>t\<ge>n. agent z t = CV_outside) \<and>
     cv_state (shared z) = of_nat (card (agents cv_counted z))"

lemma cv_round_place [simp]:
  "\<not> cv_holds (cv_round st wp left g ng)" "cv_counted (cv_round st wp left g ng)"
  "cv_remembers (cv_round st wp left g ng) = (\<not> wp)" "cv_round st wp left g ng \<noteq> CV_outside"
  by (auto simp: cv_round_def split: option.split nat.split)

lemma cv_notify_place [simp]:
  "\<not> cv_holds (cv_notify s)" "\<not> cv_counted (cv_notify s)" "cv_remembers (cv_notify s)" "cv_notify s \<noteq> CV_outside"
  by (simp_all add: cv_notify_def)

lemma cv_step_counted:
  assumes "cv_step c s p = (s', l)"
  shows "if cv_counted l = cv_counted p then cv_state s' = cv_state s
      else if cv_counted l then cv_state s' = cv_state s + 1 else cv_state s' = cv_state s - 1"
    and "p = CV_outside \<longleftrightarrow> l = CV_outside"
  using assms by (cases p; auto split: if_splits cv_call.splits)+

text \<open>The mutex has two states, so its bits are compared by computing.\<close>

lemma mutex_bits:
  "LOCKED = 1"
  "\<not> mutex_poisoned 0" "\<not> mutex_poisoned 1"
  by (simp_all add: LOCKED_def mutex_poisoned_def MUTEX_POISONED_def)

lemma cv_step_unlocked:
  assumes "cv_step c s p = (s', l)" "cv_remembers p" "cv_mutex s = 0" "\<not> cv_holds p"
  shows "cv_remembers l \<and> cv_mutex s' = (if cv_holds l then 1 else 0)"
  using assms by (cases p) (auto simp: mutex_bits split: if_splits cv_call.splits)

lemma cv_step_locked:
  assumes "cv_step c s p = (s', l)" "cv_remembers p" "cv_mutex s = 1"
  shows "cv_remembers l \<and> cv_mutex s' = (if cv_holds p \<and> \<not> cv_holds l then 0 else 1) \<and> (cv_holds l \<longrightarrow> cv_holds p)"
  using assms by (cases p) (auto simp: mutex_bits split: if_splits cv_call.splits)

lemma cv_step_local:
  assumes "cv_step c s p = (s', l)" "cv_remembers p" "cv_mutex s \<in> {0, 1}" "cv_holds p \<Longrightarrow> cv_mutex s = 1"
  shows "cv_mutex s' \<in> {0, 1}" "cv_remembers l"
    and "if cv_holds p then (cv_mutex s' = 1) = cv_holds l
      else if cv_holds l then \<not> cv_mutex s = 1 \<and> cv_mutex s' = 1 else (cv_mutex s' = 1) = (cv_mutex s = 1)"
proof -
  consider "cv_mutex s = 0" "\<not> cv_holds p" | "cv_mutex s = 1" using assms(3,4) by auto
  then have "cv_mutex s' \<in> {0, 1} \<and> cv_remembers l \<and> (if cv_holds p then (cv_mutex s' = 1) = cv_holds l
      else if cv_holds l then \<not> cv_mutex s = 1 \<and> cv_mutex s' = 1 else (cv_mutex s' = 1) = (cv_mutex s = 1))"
  proof cases
    case 1
    then show ?thesis using cv_step_unlocked [OF assms(1,2) 1] by auto
  next
    case 2
    then show ?thesis using cv_step_locked [OF assms(1,2) 2] by auto
  qed
  then show "cv_mutex s' \<in> {0, 1}" "cv_remembers l" "if cv_holds p then (cv_mutex s' = 1) = cv_holds l
      else if cv_holds l then \<not> cv_mutex s = 1 \<and> cv_mutex s' = 1 else (cv_mutex s' = 1) = (cv_mutex s = 1)"
    by blast+
qed

lemma cv_inv_step: "cv_inv n z \<Longrightarrow> cv_inv n (agent_step cv_step t c z)"
proof (rule agent_step_split)
  fix s l assume inv: "cv_inv n z" and st: "cv_step c (shared z) (agent z t) = (s, l)"
  have sole: "sole (cv_mutex (shared z) = 1) (agents cv_holds z)" and r: "cv_remembers (agent z u)"
    and m: "cv_mutex (shared z) \<in> {0, 1}" and out: "u \<ge> n \<longrightarrow> agent z u = CV_outside"
    and cnt: "cv_state (shared z) = of_nat (card (agents cv_counted z))" for u
    using inv by (simp_all add: cv_inv_def)
  have h: "cv_holds (agent z t) \<Longrightarrow> cv_mutex (shared z) = 1" using sole_True [OF sole, of t] by simp
  note loc = cv_step_local [OF st r m h] and cs = cv_step_counted [OF st]
  have "agents cv_counted z \<subseteq> {..<n}" using out by (auto simp: linorder_not_less [symmetric]) (metis cv_counted.simps(7))
  then have fin: "finite (agents cv_counted z)" by (rule finite_subset) simp
  show "cv_inv n \<lparr>shared = s, agent = (agent z)(t := l)\<rparr>" unfolding cv_inv_def system.simps
  proof (intro conjI)
    show "sole (cv_mutex s = 1) (agents cv_holds \<lparr>shared = s, agent = (agent z)(t := l)\<rparr>)"
      by (rule sole_update [OF sole loc(3)])
    show "cv_state s = of_nat (card (agents cv_counted \<lparr>shared = s, agent = (agent z)(t := l)\<rparr>))"
      by (rule count_update [OF fin cnt cs(1)])
    show "\<forall>u\<ge>n. ((agent z)(t := l)) u = CV_outside"
    proof (intro allI impI)
      fix u assume "n \<le> u"
      then show "((agent z)(t := l)) u = CV_outside" using cs(2) out [of u] by (cases "u = t") auto
    qed
    show "\<forall>u. cv_remembers (((agent z)(t := l)) u)" using loc(2) r by simp
  qed (rule loc(1))
qed

lemma cv_inv_new: "cv_inv n (cv_new n)"
proof -
  have "agents P (cv_new n) = {}" if "\<not> P CV_idle" "\<not> P CV_outside" for P :: "'a::len word cv_place \<Rightarrow> bool"
    using that by (auto simp: agents_def cv_new_def)
  then show ?thesis by (simp add: cv_inv_def sole_def) (simp add: cv_new_def UNLOCKED_def)
qed

interpretation cv: guard_lock "cv_step :: (cv_choice, 'w::len word cv_shared, 'w word cv_place) steps"
  "cv_inv n" cv_holds "\<lambda>_. False" for n
proof
  show "cv_inv n z \<Longrightarrow> cv_inv n (agent_step cv_step t c z)"
    for z :: "('w word cv_shared, 'w word cv_place) system" and t c by (rule cv_inv_step)
  show "u = t" if "cv_inv n z" "cv_holds (agent z t)" "cv_holds (agent z u) \<or> False"
    for z :: "('w word cv_shared, 'w word cv_place) system" and t u
    using that sole_same [of "cv_mutex (shared z) = 1" "agents cv_holds z" t u] by (simp add: cv_inv_def)
qed

lemma cv_reachable: "reaches cv_step (cv_new n) z \<Longrightarrow> cv_inv n z"
  by (erule reaches_invariant) (fact cv_inv_new cv_inv_step)+

section \<open>Notifications\<close>

lemma cv_counted_bound:
  assumes "cv_inv n z"
  shows "finite (agents cv_counted z)" "card (agents cv_counted z) \<le> n"
proof -
  have "agents cv_counted z \<subseteq> {..<n}"
  proof
    fix t assume "t \<in> agents cv_counted z"
    then have "agent z t \<noteq> CV_outside" by auto
    then show "t \<in> {..<n}" using assms by (auto simp: cv_inv_def linorder_not_less [symmetric])
  qed
  then show "finite (agents cv_counted z)" by (rule finite_subset) simp
  show "card (agents cv_counted z) \<le> n"
    using card_mono [OF finite_lessThan \<open>agents cv_counted z \<subseteq> {..<n}\<close>] by simp
qed

text \<open>With fewer than 2 to the 30 threads the count never reaches the flag.\<close>

lemma cv_state_bits:
  assumes "cv_inv n z" "n < 2 ^ 30"
  shows "cv_state (shared z) AND NOTIFY_FLAG = 0"
    and "cv_state (shared z) AND WAITER_MASK > 0 \<longleftrightarrow> agents cv_counted z \<noteq> {}"
proof -
  let ?k = "card (agents cv_counted z)" and ?s = "cv_state (shared z)"
  have k: "?k < 2 ^ 30" using cv_counted_bound(2) [OF assms(1)] assms(2) by simp
  have "?s = of_nat ?k" using assms(1) by (simp add: cv_inv_def)
  then have u: "unat ?s = ?k" using k by (simp add: unat_of_nat)
  have "\<not> bit ?s 30"
  proof -
    have "bit ?s 30 \<longleftrightarrow> bit (unat ?s) 30" by (simp add: bit_unsigned_iff)
    then show ?thesis using k u by (simp add: bit_iff_odd)
  qed
  then show "?s AND NOTIFY_FLAG = 0" unfolding NOTIFY_FLAG_def and_exp_eq_0_iff_not_bit .
  have "?s AND WAITER_MASK = take_bit 30 ?s"
    by (simp only: WAITER_MASK_def mask_eq_exp_minus_1 [symmetric] take_bit_eq_mask)
  then have "unat (?s AND WAITER_MASK) = take_bit 30 (unat ?s)" by (simp only: unsigned_take_bit_eq)
  then have "unat (?s AND WAITER_MASK) = ?k" using k u by (simp add: take_bit_nat_eq_self)
  then have "?s AND WAITER_MASK > 0 \<longleftrightarrow> ?k > 0" by (simp add: word_gt_0 unat_gt_0 [symmetric])
  then show "?s AND WAITER_MASK > 0 \<longleftrightarrow> agents cv_counted z \<noteq> {}"
    using cv_counted_bound(1) [OF assms(1)] by (simp add: card_gt_0_iff)
qed

text \<open>How far a schedule moves the generation.\<close>

lemma cv_generation_step:
  "\<exists>k\<le>1. cv_generation (shared (agent_step cv_step t c z)) = cv_generation (shared z) + of_nat k"
proof (rule agent_step_split)
  fix s l assume "cv_step c (shared z) (agent z t) = (s, l)"
  then have "cv_generation s = cv_generation (shared z) \<or> cv_generation s = cv_generation (shared z) + 1"
    by (cases "agent z t") (auto split: if_splits)
  then show "\<exists>k\<le>1. cv_generation (shared \<lparr>shared = s, agent = (agent z)(t := l)\<rparr>) = cv_generation (shared z) + of_nat k"
    by (elim disjE) (rule exI [of _ 0], simp, rule exI [of _ 1], simp)
qed

lemma cv_generation_run:
  "\<exists>k\<le>length cs. cv_generation (shared (run_schedule cv_step cs z)) = cv_generation (shared z) + of_nat k"
proof (induction cs arbitrary: z)
  case (Cons tc cs)
  obtain t c where tc: "tc = (t, c)" by fastforce
  obtain i where i: "i \<le> 1" "cv_generation (shared (agent_step cv_step t c z)) = cv_generation (shared z) + of_nat i"
    using cv_generation_step by blast
  obtain k where k: "k \<le> length cs" "cv_generation (shared (run_schedule cv_step cs (agent_step cv_step t c z)))
      = cv_generation (shared (agent_step cv_step t c z)) + of_nat k" using Cons.IH by blast
  show ?case using i k by (intro exI [of _ "i + k"]) (simp add: tc algebra_simps)
qed simp

text \<open>An agent inside \<open>notify\<close> that has not advanced the generation.\<close>

fun notifies :: "'n cv_place \<Rightarrow> bool" where
  "notifies CV_notify_one = True"
| "notifies CV_notify_all = True"
| "notifies CV_bump = True"
| "notifies _ = False"

lemma notify_step:
  assumes "cv_state s AND WAITER_MASK > 0" "notifies p" "cv_step c s p = (s', l)"
  shows "(p \<noteq> CV_bump \<and> s' = s \<and> l = CV_bump) \<or> cv_generation s' = cv_generation s + 1"
  using assms by (cases p) (auto simp: cv_notify_def)

lemma notify_moves_generation:
  assumes "cv_inv n z" "n < 2 ^ 30" "cv_counted (agent z t)" "\<forall>(v, c) \<in> set cs. v \<noteq> t"
    and "notifies (agent z u)" "\<not> notifies (agent (run_schedule cv_step cs z) u)"
  shows "\<exists>k. 1 \<le> k \<and> k \<le> length cs \<and>
    cv_generation (shared (run_schedule cv_step cs z)) = cv_generation (shared z) + of_nat k"
  using assms
proof (induction cs arbitrary: z)
  case (Cons vc cs)
  obtain v c where vc: "vc = (v, c)" by fastforce
  let ?z = "agent_step cv_step v c z"
  have t: "v \<noteq> t" using Cons.prems(4) vc by simp
  have inv: "cv_inv n ?z" by (rule cv_inv_step [OF Cons.prems(1)])
  have cnt: "cv_counted (agent ?z t)" using Cons.prems(3) agent_step_other [OF t [symmetric]] by metis
  have IH: "\<exists>k. 1 \<le> k \<and> k \<le> length cs \<and>
      cv_generation (shared (run_schedule cv_step cs ?z)) = cv_generation (shared ?z) + of_nat k"
    if "notifies (agent ?z u)"
    using Cons.IH [OF inv Cons.prems(2) cnt _ that] Cons.prems(4,6) vc by simp
  obtain i where i: "i \<le> 1" "cv_generation (shared ?z) = cv_generation (shared z) + of_nat i"
    using cv_generation_step by blast
  have more: ?case if "k \<le> length cs" "cv_generation (shared (run_schedule cv_step cs ?z)) = cv_generation (shared ?z) + of_nat k"
    "1 \<le> j + k" "j \<le> 1" "cv_generation (shared ?z) = cv_generation (shared z) + of_nat j" for j k
    using that vc by (intro exI [of _ "j + k"]) (simp add: algebra_simps)
  show ?case
  proof (cases "notifies (agent ?z u)")
    case True
    then obtain k where "1 \<le> k" "k \<le> length cs"
      "cv_generation (shared (run_schedule cv_step cs ?z)) = cv_generation (shared ?z) + of_nat k" using IH by blast
    then show ?thesis using i by (intro more [of k i]) simp_all
  next
    case False
    then have vu: "v = u" using Cons.prems(5) agent_step_other by metis
    have "agents cv_counted z \<noteq> {}" using Cons.prems(3) by (auto simp: agents_def)
    then have w: "cv_state (shared z) AND WAITER_MASK > 0" using cv_state_bits(2) [OF Cons.prems(1,2)] by simp
    obtain s' l where st: "cv_step c (shared z) (agent z u) = (s', l)" by fastforce
    have "\<not> notifies l" using False st vu by (simp add: agent_step_def)
    then have "cv_generation s' = cv_generation (shared z) + 1"
      using notify_step [OF w Cons.prems(5) st] by auto
    then have "cv_generation (shared ?z) = cv_generation (shared z) + of_nat 1"
      using st vu by (simp add: agent_step_def)
    moreover obtain k where "k \<le> length cs"
      "cv_generation (shared (run_schedule cv_step cs ?z)) = cv_generation (shared ?z) + of_nat k"
      using cv_generation_run by blast
    ultimately show ?thesis by (intro more [of k 1]) simp_all
  qed
qed simp

lemma waiter_leaves:
  assumes "agent z t = CV_spin wp left g" "cv_generation (shared z) \<noteq> g"
  shows "agent (run_schedule cv_step [(t, c), (t, c')] z) t = CV_sub wp False"
  using assms by (simp add: agent_step_def cv_round_def split: option.split nat.split)

section \<open>Timeouts\<close>

text \<open>The steps a waiter with a timeout has left in its loop.\<close>

fun rounds_left :: "'n cv_place \<Rightarrow> nat" where
  "rounds_left (CV_spin _ (Some n) _) = 2 * n + 2"
| "rounds_left (CV_check _ (Some n) _ _) = 2 * n + 1"
| "rounds_left _ = 0"

lemma rounds_left_step:
  assumes "0 < rounds_left p" "cv_step c s p = (s', l)"
  shows "(\<exists>wp out. l = CV_sub wp out) \<or> (rounds_left l < rounds_left p \<and> 0 < rounds_left l)"
  using assms
  by (cases p; cases "case p of CV_check wp left g ng \<Rightarrow> left | CV_spin wp left g \<Rightarrow> left | _ \<Rightarrow> None")
    (auto simp: cv_round_def split: nat.splits if_splits)

lemma rounds_run_out:
  assumes "0 < rounds_left (agent z t)" "rounds_left (agent z t) \<le> length (filter (\<lambda>vc. fst vc = t) cs)"
  shows "\<exists>k \<le> length cs. \<exists>wp out. agent (run_schedule cv_step (take k cs) z) t = CV_sub wp out"
  using assms
proof (induction cs arbitrary: z)
  case (Cons vc cs)
  obtain v c where vc: "vc = (v, c)" by fastforce
  let ?z = "agent_step cv_step v c z"
  have later: ?case if "k \<le> length cs" "agent (run_schedule cv_step (take k cs) ?z) t = CV_sub wp out" for k wp out
    using that vc by (intro exI [of _ "Suc k"]) auto
  show ?case
  proof (cases "v = t")
    case False
    then have "agent ?z t = agent z t" by (simp add: agent_step_other)
    then show ?thesis using Cons.IH [of ?z] Cons.prems vc False later by force
  next
    case True
    obtain s' l where st: "cv_step c (shared z) (agent z t) = (s', l)" by fastforce
    then have l: "agent ?z t = l" using True by (simp add: agent_step_def)
    show ?thesis
    proof (cases "\<exists>wp out. l = CV_sub wp out")
      case True
      then show ?thesis using l later [of 0] by auto
    next
      case False
      then have "rounds_left l < rounds_left (agent z t)" "0 < rounds_left l"
        using rounds_left_step [OF Cons.prems(1) st] by auto
      then show ?thesis using Cons.IH [of ?z] Cons.prems(2) vc True l later by force
    qed
  qed
qed simp

section \<open>Properties\<close>

text \<open>At most one agent holds the guard of a \<open>CondVarMutex\<close>, also around waiting: between giving the
  guard up and having it back a waiter holds nothing.\<close>

theorem condvar_mutex_excludes:
  assumes "reaches cv_step (cv_new n) z" "cv_holds (agent z t)" "cv_holds (agent z u)"
  shows "t = u"
  using cv.exclusive_reachable [OF cv_inv_new assms(1), of u t] assms(2,3) by blast

text \<open>What is written through the guards, before or after waiting, is never lost.\<close>

theorem condvar_updates_serial:
  assumes "reaches (guarded_step cv_step cv_holds (\<lambda>_. False)) (guarded_start (cv_new n) d) z"
  shows "serial d z"
  by (rule cv.guarded_serial [OF cv_inv_new assms])

text \<open>C18: no wake-up is lost. Let a thread be in its waiting loop, with the generation it waits for the end of
  still the current one, while another is inside a call that notifies. Once the notification is done,
  whatever else happened in the meantime, the waiter leaves its loop with the next round it makes. The
  generation may wrap, so the time in between is less than a whole turn of it.\<close>

theorem no_lost_wakeup:
  fixes z :: "('w::len word cv_shared, 'w word cv_place) system"
  assumes "reaches cv_step (cv_new n) z" "n < 2 ^ 30"
    and "agent z t = CV_spin wp left (cv_generation (shared z))" "notifies (agent z u)"
    and "\<forall>(v, c) \<in> set cs. v \<noteq> t" "length cs < 2 ^ LENGTH('w)"
    and "\<not> notifies (agent (run_schedule cv_step cs z) u)"
  shows "agent (run_schedule cv_step [(t, c), (t, c)] (run_schedule cv_step cs z)) t = CV_sub wp False"
proof -
  let ?z = "run_schedule cv_step cs z"
  have inv: "cv_inv n z" by (rule cv_reachable [OF assms(1)])
  have "cv_counted (agent z t)" using assms(3) by simp
  from notify_moves_generation [OF inv assms(2) this assms(5,4,7)]
  obtain k where k: "1 \<le> k" "k \<le> length cs" "cv_generation (shared ?z) = cv_generation (shared z) + of_nat k" by blast
  have "(of_nat k :: 'w word) \<noteq> 0"
  proof -
    have "k < 2 ^ LENGTH('w)" using k(2) assms(6) by linarith
    then have "unat (of_nat k :: 'w word) = k" by (simp add: unat_of_nat)
    then show ?thesis using k(1) by auto
  qed
  then have new: "cv_generation (shared ?z) \<noteq> cv_generation (shared z)" using k(3) by simp
  have "agent (run_schedule cv_step cs z) t = agent z t" using assms(5)
    by (induction cs arbitrary: z) (auto simp: agent_step_other)
  then show ?thesis using new assms(3) by (intro waiter_leaves) simp_all
qed

text \<open>\<open>notify_one\<close> does not wake one thread but all of them, as \<open>notify_all\<close> does: of any waiters in
  their loops each leaves with its next round.\<close>

theorem notify_one_wakes_all:
  assumes "reaches cv_step (cv_new n) z" "n < 2 ^ 30" "agent z v = CV_notify_one"
    and "z' = run_schedule cv_step [(v, c), (v, c)] z"
    and "agent z t = CV_spin wp left (cv_generation (shared z))"
  shows "agent (run_schedule cv_step [(t, c), (t, c)] z') t = CV_sub wp False"
proof -
  have "t \<in> agents cv_counted z" using assms(5) by simp
  then have "cv_state (shared z) AND WAITER_MASK > 0"
    using cv_state_bits(2) [OF cv_reachable [OF assms(1)] assms(2)] by blast
  then have "cv_generation (shared z') = cv_generation (shared z) + 1"
    using assms(3,4) by (simp add: agent_step_def cv_notify_def)
  then have "cv_generation (shared z') \<noteq> cv_generation (shared z)"
    by (metis add_cancel_right_right zero_neq_one)
  moreover have "agent z' t = agent z t" using assms(3-5) by (cases "t = v") (simp_all add: agent_step_other)
  ultimately show ?thesis using assms(5) by (intro waiter_leaves) simp_all
qed

text \<open>\<open>wait_timeout\<close> ends: whatever the other threads do, a waiter with so many rounds left has left
  its loop by the time it has made that many rounds, two steps each, and one to decide.\<close>

theorem wait_timeout_ends:
  assumes "agent z t = CV_spin wp (Some rounds) g" "length (filter (\<lambda>vc. fst vc = t) cs) \<ge> 2 * rounds + 2"
  shows "\<exists>k \<le> length cs. \<exists>wp out. agent (run_schedule cv_step (take k cs) z) t = CV_sub wp out"
  by (rule rounds_run_out) (use assms in simp_all)

theorem no_lost_wakeup_witness:
  "let c = \<lambda>d. \<lparr>cc_call = d, cc_spurious = False\<rparr>;
     z = run_schedule cv_step (map (Pair 0) (replicate 3 (c Do_lock) @ replicate 5 (c Do_wait)) @ [(1, c Do_notify_one)])
       (cv_new 2 :: (64 word cv_shared, 64 word cv_place) system)
   in agent (run_schedule cv_step [(0, c Do_lock), (0, c Do_lock)] (run_schedule cv_step [(1, c Do_lock), (1, c Do_lock)] z)) 0
      = CV_sub False False"
proof -
  define c where "c = (\<lambda>d. \<lparr>cc_call = d, cc_spurious = False\<rparr>)"
  let ?cs = "map (Pair 0) (replicate 3 (c Do_lock) @ replicate 5 (c Do_wait)) @ [(1, c Do_notify_one)]"
  define z where "z = run_schedule cv_step ?cs (cv_new 2 :: (64 word cv_shared, 64 word cv_place) system)"
  define p :: "nat \<Rightarrow> 64 word cv_place" where "p = (\<lambda>t. if t < 2 then CV_idle else CV_outside)"
  have p: "p 0 = CV_idle" "p 1 = CV_idle" "p (Suc 0) = CV_idle" by (simp_all add: p_def)
  have reps: "replicate 3 x = [x, x, x]" "replicate 5 x = [x, x, x, x, x]" for x :: cv_choice by (simp_all add: eval_nat_numeral)
  have z: "z = \<lparr>shared = \<lparr>cv_mutex = 0, cv_state = 1, cv_generation = 0\<rparr>, agent = p(0 := CV_spin False None 0, 1 := CV_notify_one)\<rparr>"
    by (simp add: z_def cv_new_def p_def [symmetric] reps agent_step_at p c_def UNLOCKED_def LOCKED_def mutex_poisoned_def
        MUTEX_POISONED_def)
  have r: "reaches cv_step (cv_new 2) z" unfolding z_def by (rule reaches_schedule)
  have n: "\<not> notifies (agent (run_schedule cv_step [(1, c Do_lock), (1, c Do_lock)] z) 1)"
    by (simp add: z agent_step_at cv_notify_def WAITER_MASK_def c_def)
  have "agent (run_schedule cv_step [(0, c Do_lock), (0, c Do_lock)] (run_schedule cv_step [(1, c Do_lock), (1, c Do_lock)] z)) 0
      = CV_sub False False"
    by (rule no_lost_wakeup [OF r _ _ _ _ _ n, of _ False None]) (simp_all add: z)
  then show ?thesis by (simp add: c_def z_def Let_def)
qed

theorem wait_timeout_ends_witness:
  "\<exists>k \<le> 8. \<exists>wp out. agent (run_schedule cv_step (take k (replicate 8 (0, \<lparr>cc_call = Do_lock, cc_spurious = False\<rparr>)))
     \<lparr>shared = \<lparr>cv_mutex = 0, cv_state = 1, cv_generation = 0 :: 64 word\<rparr>, agent = \<lambda>_. CV_spin False (Some 3) 0\<rparr>) 0 = CV_sub wp out"
  using wait_timeout_ends [of "\<lparr>shared = \<lparr>cv_mutex = 0, cv_state = 1, cv_generation = 0 :: 64 word\<rparr>,
      agent = \<lambda>_. CV_spin False (Some 3) 0\<rparr>" 0 False 3 0 "replicate 8 (0, \<lparr>cc_call = Do_lock, cc_spurious = False\<rparr>)"]
  by simp

end
