(* ===== verification/Entries.thy ===== *)
theory Entries
  imports Handles "HOL-Library.Multiset"
begin

text \<open>
  The generational slot list, \<open>foundation_core/src/synca/entrylist.rs\<close>. An \<open>Entry\<close> is a slot number
  and the generation it was handed out in; the list keeps for every slot its generation and its
  value, if any, and two stacks of entries whose slot is empty: the free ones, which \<open>insert\<close> reuses
  under the next generation, and the parked ones, which are kept for \<open>unpark\<close>.

  Slot numbers are indices of a \<open>Vec\<close>; generations and the slot counts are 64-bit \<open>usize\<close> and wrap, as
  the release profile does. A \<open>Vec\<close> used as a stack has its top at the end.
\<close>

section \<open>State\<close>

record list_entry =
  entry_id :: nat
  entry_gen :: u64

record 'a entry_list =
  entry_items :: "(u64 \<times> 'a option) list"
  free_entries :: "list_entry list"
  packed_entries :: "list_entry list"

definition entry_at :: "nat \<Rightarrow> u64 \<Rightarrow> list_entry" where
  "entry_at i g = \<lparr>entry_id = i, entry_gen = g\<rparr>"

definition el_new :: "'a entry_list" where
  "el_new = \<lparr>entry_items = [], free_entries = [], packed_entries = []\<rparr>"

definition item_at :: "'a entry_list \<Rightarrow> nat \<Rightarrow> (u64 \<times> 'a option) option" where
  "item_at l i = (if i < length (entry_items l) then Some (entry_items l ! i) else None)"

definition put_item :: "nat \<Rightarrow> u64 \<Rightarrow> 'a option \<Rightarrow> 'a entry_list \<Rightarrow> 'a entry_list" where
  "put_item i g v l = l\<lparr>entry_items := (entry_items l)[i := (g, v)]\<rparr>"

section \<open>Operations\<close>

definition allocated_slots :: "'a entry_list \<Rightarrow> u64" where
  "allocated_slots l = of_nat (length (entry_items l))"

definition open_slots :: "'a entry_list \<Rightarrow> u64" where
  "open_slots l = of_nat (length (free_entries l))"

definition parked_slots :: "'a entry_list \<Rightarrow> u64" where
  "parked_slots l = of_nat (length (packed_entries l))"

definition active_slots :: "'a entry_list \<Rightarrow> u64" where
  "active_slots l = allocated_slots l - open_slots l"

definition el_get :: "list_entry \<Rightarrow> 'a entry_list \<Rightarrow> 'a option" where
  "el_get e l =
     (case item_at l (entry_id e) of
        Some (g, v) \<Rightarrow> if g = entry_gen e \<and> v \<noteq> None then v else None
      | None \<Rightarrow> None)"

text \<open>\<open>get_mut\<close> lends the value out: \<open>f\<close> is what the caller does to it.\<close>

definition el_get_mut :: "('a \<Rightarrow> 'a) \<Rightarrow> list_entry \<Rightarrow> 'a entry_list \<Rightarrow> 'a option \<times> 'a entry_list" where
  "el_get_mut f e l =
     (case item_at l (entry_id e) of
        Some (g, Some x) \<Rightarrow>
          if g = entry_gen e then (Some x, put_item (entry_id e) g (Some (f x)) l) else (None, l)
      | _ \<Rightarrow> (None, l))"

definition el_not_valid :: "list_entry \<Rightarrow> 'a entry_list \<Rightarrow> bool" where
  "el_not_valid e l =
     (case item_at l (entry_id e) of
        Some (g, v) \<Rightarrow> if g \<noteq> entry_gen e then True else g = entry_gen e \<and> v = None
      | None \<Rightarrow> False)"

definition el_has :: "list_entry \<Rightarrow> 'a entry_list \<Rightarrow> bool" where
  "el_has e l =
     (case item_at l (entry_id e) of
        Some (g, v) \<Rightarrow> g = entry_gen e \<and> v \<noteq> None
      | None \<Rightarrow> False)"

definition el_take :: "list_entry \<Rightarrow> 'a entry_list \<Rightarrow> 'a option \<times> 'a entry_list" where
  "el_take e l =
     (case item_at l (entry_id e) of
        Some (g, Some con) \<Rightarrow>
          if g = entry_gen e
          then (Some con, (put_item (entry_id e) g None l)\<lparr>free_entries := free_entries l @ [e]\<rparr>)
          else (None, l)
      | _ \<Rightarrow> (None, l))"

definition el_vacate :: "list_entry \<Rightarrow> 'a entry_list \<Rightarrow> 'a entry_list" where
  "el_vacate e l =
     (case item_at l (entry_id e) of
        Some (g, Some con) \<Rightarrow>
          if g = entry_gen e
          then (put_item (entry_id e) g None l)\<lparr>free_entries := free_entries l @ [e]\<rparr> else l
      | _ \<Rightarrow> l)"

definition el_park :: "list_entry \<Rightarrow> 'a entry_list \<Rightarrow> 'a option \<times> 'a entry_list" where
  "el_park e l =
     (case item_at l (entry_id e) of
        Some (g, Some con) \<Rightarrow>
          if g = entry_gen e
          then (Some con, (put_item (entry_id e) g None l)\<lparr>packed_entries := packed_entries l @ [e]\<rparr>)
          else (None, l)
      | _ \<Rightarrow> (None, l))"

fun find_entry :: "list_entry \<Rightarrow> nat \<Rightarrow> list_entry list \<Rightarrow> nat option" where
  "find_entry e i [] = None"
| "find_entry e i (x # xs) = (if x = e then Some i else find_entry e (Suc i) xs)"

definition find_packed :: "list_entry \<Rightarrow> 'a entry_list \<Rightarrow> nat option" where
  "find_packed e l = find_entry e 0 (packed_entries l)"

definition update_packed :: "list_entry \<Rightarrow> 'a \<Rightarrow> 'a entry_list \<Rightarrow> 'a option \<times> 'a entry_list" where
  "update_packed e item l =
     (case item_at l (entry_id e) of
        Some (g, v) \<Rightarrow>
          if g = entry_gen e \<and> v = None then (v, put_item (entry_id e) g (Some item) l) else (None, l)
      | None \<Rightarrow> (None, l))"

definition el_unpark :: "list_entry \<Rightarrow> 'a \<Rightarrow> 'a entry_list \<Rightarrow> bool \<times> 'a entry_list" where
  "el_unpark e item l =
     (case find_packed e l of
        Some i \<Rightarrow>
          (True, snd (update_packed e item
             (l\<lparr>packed_entries := take i (packed_entries l) @ drop (Suc i) (packed_entries l)\<rparr>)))
      | None \<Rightarrow> (False, l))"

definition el_update :: "list_entry \<Rightarrow> 'a \<Rightarrow> 'a entry_list \<Rightarrow> 'a option \<times> 'a entry_list" where
  "el_update e item l =
     (case item_at l (entry_id e) of
        Some (g, v) \<Rightarrow>
          if g = entry_gen e \<and> v \<noteq> None then (v, put_item (entry_id e) g (Some item) l) else (None, l)
      | None \<Rightarrow> (None, l))"

definition el_replace ::
    "list_entry \<Rightarrow> 'a \<Rightarrow> 'a entry_list \<Rightarrow> (list_entry \<times> 'a) option \<times> 'a entry_list" where
  "el_replace e item l =
     (case item_at l (entry_id e) of
        Some (g, v) \<Rightarrow>
          if g = entry_gen e
          then (let new_gen = g + 1 in
                case v of
                  Some prev \<Rightarrow>
                    (Some (entry_at (entry_id e) new_gen, prev), put_item (entry_id e) new_gen (Some item) l)
                | None \<Rightarrow> (None, l))
          else (None, l)
      | None \<Rightarrow> (None, l))"

text \<open>The closures of \<open>map_with\<close> and \<open>select_take\<close> may read a clock, and are asked once about each slot: the
  model gives them the slot number.\<close>

fun map_items :: "(nat \<Rightarrow> 'a \<Rightarrow> 'b option) \<Rightarrow> nat \<Rightarrow> (u64 \<times> 'a option) list \<Rightarrow> 'b list" where
  "map_items f i [] = []"
| "map_items f i ((g, None) # its) = map_items f (Suc i) its"
| "map_items f i ((g, Some x) # its) =
     (case f i x of Some y \<Rightarrow> y # map_items f (Suc i) its | None \<Rightarrow> map_items f (Suc i) its)"

definition el_map_with :: "(nat \<Rightarrow> 'a \<Rightarrow> 'b option) \<Rightarrow> 'a entry_list \<Rightarrow> 'b list" where
  "el_map_with f l = map_items f 0 (entry_items l)"

text \<open>The closure of \<open>for_each\<close> has effects of its own: \<open>s\<close> is the state it works on.\<close>

definition el_for_each :: "('a option \<Rightarrow> 's \<Rightarrow> 's) \<Rightarrow> 'a entry_list \<Rightarrow> 's \<Rightarrow> 's" where
  "el_for_each f l s =
     fold (\<lambda>(_, v) s. case v of Some x \<Rightarrow> f (Some x) s | None \<Rightarrow> s) (entry_items l) s"

fun select_items :: "(nat \<Rightarrow> 'a \<Rightarrow> bool) \<Rightarrow> nat \<Rightarrow> (u64 \<times> 'a option) list
    \<Rightarrow> (u64 \<times> 'a option) list \<times> list_entry list \<times> 'a list" where
  "select_items p i [] = ([], [], [])"
| "select_items p i ((g, v) # its) =
     (case select_items p (Suc i) its of
        (its', es, xs) \<Rightarrow>
          (case v of
             Some x \<Rightarrow>
               if p i x then ((g, None) # its', entry_at i g # es, x # xs) else ((g, v) # its', es, xs)
           | None \<Rightarrow> ((g, v) # its', es, xs)))"

definition el_select_take :: "(nat \<Rightarrow> 'a \<Rightarrow> bool) \<Rightarrow> 'a entry_list \<Rightarrow> 'a list \<times> 'a entry_list" where
  "el_select_take p l =
     (case select_items p 0 (entry_items l) of
        (its, es, xs) \<Rightarrow> (xs, l\<lparr>entry_items := its, free_entries := free_entries l @ es\<rparr>))"

text \<open>\<open>self.items[entry.id] = ..\<close> panics out of range, which is \<open>None\<close>; \<open>inner.gen += 1\<close> wraps.\<close>

definition store_entry :: "list_entry \<Rightarrow> 'a \<Rightarrow> 'a entry_list \<Rightarrow> list_entry option \<times> 'a entry_list" where
  "store_entry e item l =
     (if length (entry_items l) = entry_id e
      then (Some e, l\<lparr>entry_items := entry_items l @ [(entry_gen e, Some item)]\<rparr>)
      else if entry_id e < length (entry_items l)
      then (Some e, put_item (entry_id e) (entry_gen e) (Some item) l)
      else (None, l))"

definition el_insert :: "'a \<Rightarrow> 'a entry_list \<Rightarrow> list_entry option \<times> 'a entry_list" where
  "el_insert item l =
     (if free_entries l = []
      then store_entry (entry_at (length (entry_items l)) 0) item l
      else let inner = last (free_entries l) in
           store_entry (inner\<lparr>entry_gen := entry_gen inner + 1\<rparr>) item
             (l\<lparr>free_entries := butlast (free_entries l)\<rparr>))"

section \<open>The invariant\<close>

text \<open>The entries on the two stacks are exactly the empty slots, each under its current generation, and
  none is there twice.\<close>

definition held :: "'a entry_list \<Rightarrow> list_entry list" where
  "held l = free_entries l @ packed_entries l"

fun empty_slots :: "nat \<Rightarrow> (u64 \<times> 'a option) list \<Rightarrow> list_entry list" where
  "empty_slots i [] = []"
| "empty_slots i ((g, None) # its) = entry_at i g # empty_slots (Suc i) its"
| "empty_slots i ((g, Some x) # its) = empty_slots (Suc i) its"

definition el_inv :: "'a entry_list \<Rightarrow> bool" where
  "el_inv l \<longleftrightarrow> distinct (held l) \<and> set (held l) = set (empty_slots 0 (entry_items l))"

lemma entry_at_simps [simp]:
  "entry_id (entry_at i g) = i" "entry_gen (entry_at i g) = g"
  "entry_at (entry_id e) (entry_gen e) = e" "entry_at i g = entry_at j h \<longleftrightarrow> i = j \<and> g = h"
  by (auto simp: entry_at_def)

lemma entry_eq_iff: "e = f \<longleftrightarrow> entry_id e = entry_id f \<and> entry_gen e = entry_gen f" for e f :: list_entry
  by (cases e; cases f) simp

lemma in_empty_slots:
  "e \<in> set (empty_slots i its) \<longleftrightarrow>
     (\<exists>j < length its. entry_id e = i + j \<and> its ! j = (entry_gen e, None))"
proof (induction i its rule: empty_slots.induct)
  case (2 i g its)
  then show ?case by (auto simp: entry_eq_iff less_Suc_eq_0_disj)
next
  case (3 i g x its)
  then show ?case by (auto simp: less_Suc_eq_0_disj)
qed simp

lemma el_inv_iff:
  "el_inv l \<longleftrightarrow> distinct (held l) \<and>
     (\<forall>e. e \<in> set (held l) \<longleftrightarrow> item_at l (entry_id e) = Some (entry_gen e, None))"
  by (auto simp: el_inv_def in_empty_slots item_at_def set_eq_iff)

lemma put_item_simps [simp]:
  "free_entries (put_item i g v l) = free_entries l" "packed_entries (put_item i g v l) = packed_entries l"
  "length (entry_items (put_item i g v l)) = length (entry_items l)" "held (put_item i g v l) = held l"
  by (simp_all add: put_item_def held_def)

lemma item_at_put:
  "item_at (put_item i g v l) j = (if j = i \<and> i < length (entry_items l) then Some (g, v) else item_at l j)"
  by (auto simp: item_at_def put_item_def)

lemma item_at_stacks [simp]:
  "item_at (l\<lparr>free_entries := fs\<rparr>) i = item_at l i" "item_at (l\<lparr>packed_entries := ps\<rparr>) i = item_at l i"
  by (simp_all add: item_at_def)

lemma item_at_Some: "item_at l i = Some v \<Longrightarrow> i < length (entry_items l)"
  by (simp add: item_at_def split: if_splits)

lemma el_inv_new: "el_inv el_new"
  by (simp add: el_inv_def el_new_def held_def)

text \<open>What each operation does to the stacks and the slots.\<close>

lemma el_get_Some: "el_get e l = Some x \<longleftrightarrow> item_at l (entry_id e) = Some (entry_gen e, Some x)"
  by (auto simp: el_get_def split: option.splits)

lemma el_get_None: "el_get e l = None \<longleftrightarrow> (\<forall>x. item_at l (entry_id e) \<noteq> Some (entry_gen e, Some x))"
  by (metis el_get_Some not_Some_eq)

lemma el_take_cases:
  obtains x where "el_get e l = Some x"
      "el_take e l = (Some x, (put_item (entry_id e) (entry_gen e) None l)\<lparr>free_entries := free_entries l @ [e]\<rparr>)"
  | "el_get e l = None" "el_take e l = (None, l)"
  by (cases "el_get e l") (auto simp: el_get_None el_get_Some el_take_def split: option.splits)

lemma el_vacate_take: "el_vacate e l = snd (el_take e l)"
  by (auto simp: el_vacate_def el_take_def split: option.splits)

lemma el_park_cases:
  obtains x where "el_get e l = Some x"
      "el_park e l = (Some x, (put_item (entry_id e) (entry_gen e) None l)\<lparr>packed_entries := packed_entries l @ [e]\<rparr>)"
  | "el_get e l = None" "el_park e l = (None, l)"
  by (cases "el_get e l") (auto simp: el_get_None el_get_Some el_park_def split: option.splits)

lemma el_update_cases:
  obtains x where "el_get e l = Some x" "el_update e y l = (Some x, put_item (entry_id e) (entry_gen e) (Some y) l)"
  | "el_get e l = None" "el_update e y l = (None, l)"
proof (cases "el_get e l")
  case None
  then have "el_update e y l = (None, l)"
    by (cases "item_at l (entry_id e)") (auto simp: el_get_None el_update_def)
  then show thesis using None that(2) by blast
qed (auto simp: el_get_Some el_update_def)

lemma el_get_mut_cases:
  obtains x where "el_get e l = Some x" "el_get_mut f e l = (Some x, put_item (entry_id e) (entry_gen e) (Some (f x)) l)"
  | "el_get e l = None" "el_get_mut f e l = (None, l)"
  by (cases "el_get e l") (auto simp: el_get_None el_get_Some el_get_mut_def split: option.splits)

lemma el_replace_cases:
  obtains x where "el_get e l = Some x"
      "el_replace e y l = (Some (entry_at (entry_id e) (entry_gen e + 1), x),
         put_item (entry_id e) (entry_gen e + 1) (Some y) l)"
  | "el_get e l = None" "el_replace e y l = (None, l)"
  by (cases "el_get e l") (auto simp: el_get_None el_get_Some el_replace_def Let_def split: option.splits)

lemma find_entry_Some: "find_entry e i es = Some k \<Longrightarrow> i \<le> k \<and> k - i < length es \<and> es ! (k - i) = e"
  by (induction e i es rule: find_entry.induct) (force simp: nth_Cons' split: if_splits)+

lemma find_entry_None: "find_entry e i es = None \<longleftrightarrow> e \<notin> set es"
  by (induction e i es rule: find_entry.induct) auto

lemma el_unpark_cases:
  obtains ps qs where "packed_entries l = ps @ e # qs"
      "el_unpark e y l = (True, snd (update_packed e y (l\<lparr>packed_entries := ps @ qs\<rparr>)))"
  | "e \<notin> set (packed_entries l)" "el_unpark e y l = (False, l)"
proof (cases "find_packed e l")
  case None
  then have "e \<notin> set (packed_entries l)" by (simp add: find_packed_def find_entry_None)
  then show thesis using that(2) None by (simp add: el_unpark_def)
next
  case (Some k)
  then have k: "k < length (packed_entries l)" "packed_entries l ! k = e"
    using find_entry_Some [of e 0] by (auto simp: find_packed_def)
  show thesis
    by (rule that(1) [of "take k (packed_entries l)" "drop (Suc k) (packed_entries l)"])
      (use id_take_nth_drop [OF k(1)] k(2) Some in \<open>auto simp: el_unpark_def\<close>)
qed

lemma el_insert_cases:
  assumes "el_inv l"
  obtains "free_entries l = []"
      "el_insert x l = (Some (entry_at (length (entry_items l)) 0), l\<lparr>entry_items := entry_items l @ [(0, Some x)]\<rparr>)"
  | es i g where "free_entries l = es @ [entry_at i g]" "item_at l i = Some (g, None)"
      "el_insert x l = (Some (entry_at i (g + 1)), put_item i (g + 1) (Some x) (l\<lparr>free_entries := es\<rparr>))"
proof (cases "free_entries l" rule: rev_cases)
  case Nil
  then show thesis using that(1) by (simp add: el_insert_def store_entry_def)
next
  case (snoc es e)
  then have e: "item_at l (entry_id e) = Some (entry_gen e, None)"
    using assms by (auto simp: el_inv_iff held_def)
  then have "entry_id e < length (entry_items l)" by (rule item_at_Some)
  then have "el_insert x l = (Some (entry_at (entry_id e) (entry_gen e + 1)),
      put_item (entry_id e) (entry_gen e + 1) (Some x) (l\<lparr>free_entries := es\<rparr>))"
    by (auto simp: snoc el_insert_def store_entry_def Let_def entry_eq_iff)
  then show thesis using that(2) [of es "entry_id e" "entry_gen e"] snoc e by simp
qed

definition keep_unless :: "(nat \<Rightarrow> 'a \<Rightarrow> bool) \<Rightarrow> nat \<times> u64 \<times> 'a option \<Rightarrow> u64 \<times> 'a option" where
  "keep_unless p it = (case it of (i, g, Some x) \<Rightarrow> if p i x then (g, None) else (g, Some x) | (i, g, None) \<Rightarrow> (g, None))"

definition chosen :: "(nat \<Rightarrow> 'a \<Rightarrow> bool) \<Rightarrow> nat \<times> u64 \<times> 'a option \<Rightarrow> bool" where
  "chosen p it = (case it of (i, g, Some x) \<Rightarrow> p i x | (i, g, None) \<Rightarrow> False)"

lemma select_items_eq:
  "select_items p i its =
     (map (keep_unless p) (enumerate i its),
      map (\<lambda>(j, g, _). entry_at j g) (filter (chosen p) (enumerate i its)),
      map_items (\<lambda>i x. if p i x then Some x else None) i its)"
  by (induction p i its rule: select_items.induct)
    (auto simp: keep_unless_def chosen_def split: option.splits)

text \<open>Each keeps the invariant.\<close>

lemma el_inv_put_live:
  assumes "el_inv l" "item_at l i = Some (g, Some x)"
  shows "el_inv (put_item i g' (Some y) l)"
  using assms by (auto simp: el_inv_iff item_at_put)

lemma el_inv_empty:
  assumes "el_inv l" "el_get e l = Some x"
    and "mset (held l') = add_mset e (mset (held l))" "\<And>i. item_at l' i = item_at (put_item (entry_id e) (entry_gen e) None l) i"
  shows "el_inv l'"
proof -
  have live: "item_at l (entry_id e) = Some (entry_gen e, Some x)" using assms(2) by (simp add: el_get_Some)
  then have "e \<notin> set (held l)" using assms(1) by (auto simp: el_inv_iff)
  then have d: "distinct (held l')"
    using assms(1) mset_eq_imp_distinct_iff [of "held l'" "e # held l"] assms(3) by (simp add: el_inv_def)
  have "set (held l') = insert e (set (held l))"
    using mset_eq_setD [of "held l'" "e # held l"] assms(3) by simp
  then show ?thesis
    using assms(1) live item_at_Some [OF live] d
    by (auto simp: el_inv_iff assms(4) item_at_put entry_eq_iff)
qed

lemma el_inv_fill:
  assumes "el_inv l" "mset (held l) = add_mset e (mset (held l'))"
    and "\<And>i. item_at l' i = item_at (put_item (entry_id e) g (Some x) l) i"
  shows "el_inv l'"
proof -
  have d: "distinct (held l')" "e \<notin> set (held l')"
    using assms(1) mset_eq_imp_distinct_iff [of "held l" "e # held l'"] assms(2) by (auto simp: el_inv_def)
  have "set (held l) = insert e (set (held l'))"
    using mset_eq_setD [of "held l" "e # held l'"] assms(2) by simp
  moreover from this have e: "item_at l (entry_id e) = Some (entry_gen e, None)"
    using assms(1) by (auto simp: el_inv_iff)
  moreover have "entry_id f \<noteq> entry_id e" if "f \<in> set (held l')" for f
  proof
    assume "entry_id f = entry_id e"
    moreover have "item_at l (entry_id f) = Some (entry_gen f, None)"
      using \<open>set (held l) = _\<close> that assms(1) by (auto simp: el_inv_iff)
    ultimately have "f = e" using e by (simp add: entry_eq_iff)
    then show False using that d(2) by simp
  qed
  ultimately show ?thesis
    using assms(1) d by (auto simp: el_inv_iff assms(3) item_at_put entry_eq_iff dest: item_at_Some)
qed

lemma el_inv_take: "el_inv l \<Longrightarrow> el_inv (snd (el_take e l))"
  by (rule el_take_cases [of e l]) (auto simp: held_def intro: el_inv_empty)

lemma el_inv_park: "el_inv l \<Longrightarrow> el_inv (snd (el_park e l))"
  by (rule el_park_cases [of e l]) (auto simp: held_def intro: el_inv_empty)

lemma el_inv_update: "el_inv l \<Longrightarrow> el_inv (snd (el_update e y l))"
  by (rule el_update_cases [of e l y]) (auto simp: el_get_Some intro: el_inv_put_live)

lemma el_inv_get_mut: "el_inv l \<Longrightarrow> el_inv (snd (el_get_mut f e l))"
  by (rule el_get_mut_cases [of e l f]) (auto simp: el_get_Some intro: el_inv_put_live)

lemma el_inv_replace: "el_inv l \<Longrightarrow> el_inv (snd (el_replace e y l))"
  by (rule el_replace_cases [of e l y]) (auto simp: el_get_Some intro: el_inv_put_live)

lemma update_packed_empty:
  "item_at l (entry_id e) = Some (entry_gen e, None) \<Longrightarrow>
     update_packed e y l = (None, put_item (entry_id e) (entry_gen e) (Some y) l)"
  by (simp add: update_packed_def)

lemma el_inv_item_packed: "el_inv l \<Longrightarrow> e \<in> set (packed_entries l) \<Longrightarrow> item_at l (entry_id e) = Some (entry_gen e, None)"
  and el_inv_item_free: "el_inv l \<Longrightarrow> e \<in> set (free_entries l) \<Longrightarrow> item_at l (entry_id e) = Some (entry_gen e, None)"
  by (auto simp: el_inv_iff held_def)

lemma el_unpark_packed:
  assumes "el_inv l" "e \<in> set (packed_entries l)"
  obtains ps qs where "packed_entries l = ps @ e # qs"
    "el_unpark e y l = (True, put_item (entry_id e) (entry_gen e) (Some y) (l\<lparr>packed_entries := ps @ qs\<rparr>))"
proof (rule el_unpark_cases [of l e y])
  fix ps qs
  assume "packed_entries l = ps @ e # qs"
    "el_unpark e y l = (True, snd (update_packed e y (l\<lparr>packed_entries := ps @ qs\<rparr>)))"
  then show thesis
    using that [of ps qs] el_inv_item_packed [OF assms] by (simp add: update_packed_empty)
qed (use assms in simp)

lemma el_inv_unpark:
  assumes "el_inv l"
  shows "el_inv (snd (el_unpark e y l))"
proof (cases "e \<in> set (packed_entries l)")
  case True
  then obtain ps qs where "packed_entries l = ps @ e # qs"
    "el_unpark e y l = (True, put_item (entry_id e) (entry_gen e) (Some y) (l\<lparr>packed_entries := ps @ qs\<rparr>))"
    by (rule el_unpark_packed [OF assms])
  then show ?thesis
    by (intro el_inv_fill [OF assms, of e _ "entry_gen e" y]) (auto simp: held_def item_at_put)
next
  case False
  then show ?thesis by (rule_tac el_unpark_cases [of l e y]) (use assms in auto)
qed

lemma el_inv_insert:
  assumes "el_inv l"
  shows "el_inv (snd (el_insert x l))"
proof (rule el_insert_cases [OF assms, of x])
  fix es i g
  assume "free_entries l = es @ [entry_at i g]"
    "el_insert x l = (Some (entry_at i (g + 1)), put_item i (g + 1) (Some x) (l\<lparr>free_entries := es\<rparr>))"
  then show ?thesis
    by (intro el_inv_fill [OF assms, of "entry_at i g" _ "g + 1" x]) (auto simp: held_def item_at_put)
qed (use assms in \<open>auto simp: el_inv_iff item_at_def held_def nth_append split: if_splits\<close>)

lemma item_at_select: "item_at (snd (el_select_take p l)) i = map_option (\<lambda>(g, v). keep_unless p (i, g, v)) (item_at l i)"
  by (auto simp: el_select_take_def select_items_eq item_at_def nth_enumerate_eq split: prod.split)

lemma el_select_take_free:
  "\<exists>es. free_entries (snd (el_select_take p l)) = free_entries l @ es \<and> distinct es
     \<and> (\<forall>e. e \<in> set es \<longleftrightarrow> (\<exists>x. el_get e l = Some x \<and> p (entry_id e) x))"
  "packed_entries (snd (el_select_take p l)) = packed_entries l"
proof -
  define its where "its = filter (chosen p) (enumerate 0 (entry_items l))"
  define es where "es = map (\<lambda>(j, g, _). entry_at j g) its"
  have "map entry_id es = map fst its" by (auto simp: es_def)
  moreover have "distinct (map fst its)" unfolding its_def by (intro distinct_map_filter) simp
  ultimately have "distinct es" using distinct_map by metis
  moreover have "e \<in> set es \<longleftrightarrow> (\<exists>x. el_get e l = Some x \<and> p (entry_id e) x)" for e
  proof -
    have "e \<in> set es \<longleftrightarrow> (\<exists>j < length (entry_items l). \<exists>g x. entry_items l ! j = (g, Some x) \<and> p j x \<and> e = entry_at j g)"
      by (force simp: es_def its_def in_set_enumerate_eq chosen_def split: option.splits)
    also have "\<dots> \<longleftrightarrow> (\<exists>x. el_get e l = Some x \<and> p (entry_id e) x)"
      by (auto simp: el_get_Some item_at_def entry_eq_iff split: if_splits)
    finally show ?thesis .
  qed
  moreover have "free_entries (snd (el_select_take p l)) = free_entries l @ es"
    by (simp add: el_select_take_def select_items_eq es_def its_def)
  ultimately show "\<exists>es. free_entries (snd (el_select_take p l)) = free_entries l @ es \<and> distinct es
     \<and> (\<forall>e. e \<in> set es \<longleftrightarrow> (\<exists>x. el_get e l = Some x \<and> p (entry_id e) x))" by blast
  show "packed_entries (snd (el_select_take p l)) = packed_entries l"
    by (simp add: el_select_take_def select_items_eq)
qed

lemma el_inv_select_take:
  assumes "el_inv l"
  shows "el_inv (snd (el_select_take p l))"
proof -
  obtain es where es: "free_entries (snd (el_select_take p l)) = free_entries l @ es" "distinct es"
    "\<And>e. e \<in> set es \<longleftrightarrow> (\<exists>x. item_at l (entry_id e) = Some (entry_gen e, Some x) \<and> p (entry_id e) x)"
    using el_select_take_free(1) [of p l] unfolding el_get_Some by blast
  have "set es \<inter> set (held l) = {}" using assms es(3) by (auto simp: el_inv_iff)
  then have d: "distinct (held (snd (el_select_take p l)))"
    using assms es(1,2) el_select_take_free(2) [of p l] by (auto simp: el_inv_def held_def)
  have "set (held (snd (el_select_take p l))) = set (held l) \<union> set es"
    using es(1) el_select_take_free(2) [of p l] by (auto simp: held_def)
  moreover have "item_at (snd (el_select_take p l)) (entry_id e) = Some (entry_gen e, None)
      \<longleftrightarrow> item_at l (entry_id e) = Some (entry_gen e, None) \<or> e \<in> set es" for e
    by (auto simp: item_at_select es(3) keep_unless_def split: option.splits if_splits)
  ultimately show ?thesis using assms d by (auto simp: el_inv_iff)
qed

section \<open>Calls\<close>

text \<open>The calls that change the list, as a client makes them. \<open>update_packed\<close>, which is public too,
  is not one of them: it is the part of \<open>unpark\<close> that does not look at the parked entries.\<close>

datatype 'a entry_call =
    Call_insert 'a
  | Call_take list_entry
  | Call_vacate list_entry
  | Call_park list_entry
  | Call_unpark list_entry 'a
  | Call_update list_entry 'a
  | Call_replace list_entry 'a
  | Call_get_mut list_entry "'a \<Rightarrow> 'a"
  | Call_select_take "nat \<Rightarrow> 'a \<Rightarrow> bool"

fun el_call :: "'a entry_call \<Rightarrow> 'a entry_list \<Rightarrow> 'a entry_list" where
  "el_call (Call_insert x) l = snd (el_insert x l)"
| "el_call (Call_take e) l = snd (el_take e l)"
| "el_call (Call_vacate e) l = el_vacate e l"
| "el_call (Call_park e) l = snd (el_park e l)"
| "el_call (Call_unpark e x) l = snd (el_unpark e x l)"
| "el_call (Call_update e x) l = snd (el_update e x l)"
| "el_call (Call_replace e x) l = snd (el_replace e x l)"
| "el_call (Call_get_mut e f) l = snd (el_get_mut f e l)"
| "el_call (Call_select_take p) l = snd (el_select_take p l)"

text \<open>What a call answers.\<close>

datatype 'a entry_answer =
    Answer_none
  | Answer_entry "list_entry option"
  | Answer_value "'a option"
  | Answer_stored bool
  | Answer_replaced "(list_entry \<times> 'a) option"
  | Answer_values "'a list"

fun el_answer :: "'a entry_call \<Rightarrow> 'a entry_list \<Rightarrow> 'a entry_answer" where
  "el_answer (Call_insert x) l = Answer_entry (fst (el_insert x l))"
| "el_answer (Call_take e) l = Answer_value (fst (el_take e l))"
| "el_answer (Call_vacate e) l = Answer_none"
| "el_answer (Call_park e) l = Answer_value (fst (el_park e l))"
| "el_answer (Call_unpark e x) l = Answer_stored (fst (el_unpark e x l))"
| "el_answer (Call_update e x) l = Answer_value (fst (el_update e x l))"
| "el_answer (Call_replace e x) l = Answer_replaced (fst (el_replace e x l))"
| "el_answer (Call_get_mut e f) l = Answer_value (fst (el_get_mut f e l))"
| "el_answer (Call_select_take p) l = Answer_values (fst (el_select_take p l))"

definition el_step :: "'a entry_list \<Rightarrow> 'a entry_list \<Rightarrow> bool" where
  "el_step l l' \<longleftrightarrow> (\<exists>c. l' = el_call c l)"

lemma el_inv_call: "el_inv l \<Longrightarrow> el_inv (el_call c l)"
  by (cases c) (simp_all add: el_inv_insert el_inv_take el_vacate_take el_inv_park el_inv_unpark el_inv_update
      el_inv_replace el_inv_get_mut el_inv_select_take)

lemma el_inv_calls: "el_inv l \<Longrightarrow> el_inv (fold el_call cs l)"
  by (induction cs arbitrary: l) (simp_all add: el_inv_call)

section \<open>The list as a map\<close>

text \<open>What the list promises is a map from entries to values.\<close>

definition el_map :: "'a entry_list \<Rightarrow> list_entry \<Rightarrow> 'a option" where
  "el_map l e = el_get e l"

lemma el_map_upd_iff: "el_map l e = Some x \<longleftrightarrow> item_at l (entry_id e) = Some (entry_gen e, Some x)"
  by (simp add: el_map_def el_get_Some)

lemma el_map_eqI:
  assumes "\<And>e x. item_at l (entry_id e) = Some (entry_gen e, Some x) \<longleftrightarrow> m e = Some x"
  shows "el_map l = m"
proof
  show "el_map l e = m e" for e using assms [of e] by (cases "m e"; cases "el_map l e") (auto simp: el_map_def el_get_None el_get_Some)
qed

lemma el_map_empty:
  assumes "el_get e l = Some x" "\<And>i. item_at l' i = item_at (put_item (entry_id e) (entry_gen e) None l) i"
  shows "el_map l' = (el_map l)(e := None)"
  using assms by (intro el_map_eqI) (auto simp: item_at_put el_get_Some el_map_upd_iff entry_eq_iff dest: item_at_Some)

lemma el_map_fill:
  assumes "item_at l i = Some (g, None)" "\<And>j. item_at l' j = item_at (put_item i h (Some y) l) j"
  shows "el_map l' = (el_map l)(entry_at i h \<mapsto> y)"
  using assms by (intro el_map_eqI) (auto simp: item_at_put el_map_upd_iff entry_eq_iff dest: item_at_Some)

lemma el_map_put:
  assumes "el_get e l = Some x" shows "el_map (put_item (entry_id e) (entry_gen e) (Some y) l) = (el_map l)(e \<mapsto> y)"
  using assms by (intro el_map_eqI) (auto simp: item_at_put el_get_Some el_map_upd_iff entry_eq_iff dest: item_at_Some)

lemma el_map_stacks [simp]:
  "el_map (l\<lparr>free_entries := fs\<rparr>) = el_map l" "el_map (l\<lparr>packed_entries := ps\<rparr>) = el_map l"
  by (simp_all add: fun_eq_iff el_map_def el_get_def)

lemma el_take_result: "fst (el_take e l) = el_map l e"
  by (rule el_take_cases [of e l]) (auto simp: el_map_def)

lemma el_take_map: "el_map (snd (el_take e l)) = (el_map l)(e := None)"
  by (rule el_take_cases [of e l]) (auto simp: el_map_empty el_map_def)

lemma el_park_map: "fst (el_park e l) = el_map l e" "el_map (snd (el_park e l)) = (el_map l)(e := None)"
  by (rule el_park_cases [of e l]; auto simp: el_map_empty el_map_def)+

lemma el_update_map:
  "fst (el_update e y l) = el_map l e"
  "el_map (snd (el_update e y l)) = (case el_map l e of Some _ \<Rightarrow> (el_map l)(e \<mapsto> y) | None \<Rightarrow> el_map l)"
  by (rule el_update_cases [of e l y]; auto simp: el_map_put; simp add: el_map_def)+

lemma el_get_mut_map:
  "fst (el_get_mut f e l) = el_map l e"
  "el_map (snd (el_get_mut f e l)) = (case el_map l e of Some x \<Rightarrow> (el_map l)(e \<mapsto> f x) | None \<Rightarrow> el_map l)"
  by (rule el_get_mut_cases [of e l f]; auto simp: el_map_put; simp add: el_map_def)+

lemma el_insert_map:
  assumes "el_inv l"
  obtains e where "fst (el_insert x l) = Some e" "el_map l e = None" "el_map (snd (el_insert x l)) = (el_map l)(e \<mapsto> x)"
proof (rule el_insert_cases [OF assms, of x])
  assume i: "el_insert x l = (Some (entry_at (length (entry_items l)) 0), l\<lparr>entry_items := entry_items l @ [(0, Some x)]\<rparr>)"
  have "el_map (snd (el_insert x l)) = (el_map l)(entry_at (length (entry_items l)) 0 \<mapsto> x)"
    by (intro el_map_eqI) (auto simp: i item_at_def nth_append el_map_upd_iff entry_eq_iff split: if_splits)
  moreover have "el_map l (entry_at (length (entry_items l)) 0) = None"
    by (simp add: el_map_def el_get_None item_at_def)
  ultimately show thesis using that i by simp
next
  fix es i g
  assume f: "item_at l i = Some (g, None)"
    "el_insert x l = (Some (entry_at i (g + 1)), put_item i (g + 1) (Some x) (l\<lparr>free_entries := es\<rparr>))"
  then have "el_map (snd (el_insert x l)) = (el_map l)(entry_at i (g + 1) \<mapsto> x)"
    by (intro el_map_fill) (simp_all add: item_at_put)
  moreover have "el_map l (entry_at i (g + 1)) = None" by (simp add: el_map_def el_get_None f(1))
  ultimately show thesis using that f(2) by simp
qed

lemma el_replace_map:
  assumes "el_map l e = Some x"
  obtains e' where "fst (el_replace e y l) = Some (e', x)" "el_map l e' = None" "entry_id e' = entry_id e"
    "el_map (snd (el_replace e y l)) = (el_map l)(e := None, e' \<mapsto> y)"
proof (rule el_replace_cases [of e l y])
  fix x'
  let ?e = "entry_at (entry_id e) (entry_gen e + 1)"
  assume r: "el_get e l = Some x'"
    "el_replace e y l = (Some (?e, x'), put_item (entry_id e) (entry_gen e + 1) (Some y) l)"
  then have i: "item_at l (entry_id e) = Some (entry_gen e, Some x)"
    using assms by (simp add: el_map_upd_iff)
  then have "el_map (snd (el_replace e y l)) = (el_map l)(e := None, ?e \<mapsto> y)"
    by (intro el_map_eqI) (auto simp: r item_at_put el_map_upd_iff entry_eq_iff dest: item_at_Some)
  moreover have "el_map l ?e = None" by (simp add: el_map_def el_get_None i)
  ultimately show thesis using that [of ?e] r assms by (simp add: el_map_def)
qed (use assms in \<open>simp add: el_map_def\<close>)

lemma el_unpark_map:
  assumes "el_inv l" "e \<in> set (packed_entries l)"
  shows "fst (el_unpark e y l)" "el_map l e = None" "el_map (snd (el_unpark e y l)) = (el_map l)(e \<mapsto> y)"
proof -
  have i: "item_at l (entry_id e) = Some (entry_gen e, None)" using el_inv_item_packed [OF assms] .
  then show "el_map l e = None" by (simp add: el_map_def el_get_None)
  obtain ps qs where u: "el_unpark e y l =
      (True, put_item (entry_id e) (entry_gen e) (Some y) (l\<lparr>packed_entries := ps @ qs\<rparr>))"
    using el_unpark_packed [OF assms] by metis
  show "fst (el_unpark e y l)" by (simp add: u)
  show "el_map (snd (el_unpark e y l)) = (el_map l)(e \<mapsto> y)"
    using el_map_fill [OF i, of "snd (el_unpark e y l)" "entry_gen e" y] by (simp add: u item_at_put)
qed

lemma el_select_take_map:
  "el_map (snd (el_select_take p l)) = (\<lambda>e. case el_map l e of Some x \<Rightarrow> if p (entry_id e) x then None else Some x | None \<Rightarrow> None)"
  by (intro el_map_eqI)
    (auto simp: item_at_select keep_unless_def el_map_def el_get_def split: option.splits if_splits)

interpretation entries: handle_store el_inv "\<lambda>l e. el_map l e"
    "\<lambda>x l. map_option (\<lambda>e. (e, snd (el_insert x l))) (fst (el_insert x l))" el_vacate entry_id
proof
  fix l :: "'a entry_list" and x k l' j
  assume inv: "el_inv l" and "map_option (\<lambda>e. (e, snd (el_insert x l))) (fst (el_insert x l)) = Some (k, l')"
  then have k: "fst (el_insert x l) = Some k" "l' = snd (el_insert x l)" by auto
  show "el_inv l'" using el_inv_insert [OF inv] k by simp
  obtain e where "fst (el_insert x l) = Some e" "el_map l e = None" "el_map l' = (el_map l)(e \<mapsto> x)"
    using el_insert_map [OF inv, of x] unfolding k(2) .
  then show "el_map l k = None" "\<exists>h. el_map l' k = Some h" "j \<noteq> k \<Longrightarrow> el_map l' j = el_map l j" using k by auto
qed (auto simp: el_vacate_take el_inv_take el_take_map el_map_upd_iff entry_eq_iff)

section \<open>Parked entries\<close>

lemma update_packed_stacks [simp]:
  "packed_entries (snd (update_packed e y l)) = packed_entries l"
  "free_entries (snd (update_packed e y l)) = free_entries l"
  by (simp_all add: update_packed_def split: option.splits)

lemma el_packed_call:
  assumes "el_inv l" "e \<in> set (packed_entries l)" "\<And>x. c \<noteq> Call_unpark e x"
  shows "e \<in> set (packed_entries (el_call c l))"
proof (cases c)
  case (Call_insert x)
  then show ?thesis using assms(2) by (rule_tac el_insert_cases [OF assms(1), of x]) auto
next
  case (Call_take f)
  then show ?thesis using assms(2) by (rule_tac el_take_cases [of f l]) auto
next
  case (Call_vacate f)
  then show ?thesis using assms(2) by (rule_tac el_take_cases [of f l]) (auto simp: el_vacate_take)
next
  case (Call_park f)
  then show ?thesis using assms(2) by (rule_tac el_park_cases [of f l]) auto
next
  case (Call_unpark f x)
  then have "f \<noteq> e" using assms(3) by auto
  then show ?thesis using Call_unpark assms(2) by (rule_tac el_unpark_cases [of l f x]) auto
next
  case (Call_update f x)
  then show ?thesis using assms(2) by (rule_tac el_update_cases [of f l x]) auto
next
  case (Call_replace f x)
  then show ?thesis using assms(2) by (rule_tac el_replace_cases [of f l x]) auto
next
  case (Call_get_mut f g)
  then show ?thesis using assms(2) by (rule_tac el_get_mut_cases [of f l g]) auto
qed (use assms(2) in \<open>simp add: el_select_take_free(2)\<close>)

lemma el_packed_calls:
  assumes "el_inv l" "e \<in> set (packed_entries l)" "\<And>x. Call_unpark e x \<notin> set cs"
  shows "e \<in> set (packed_entries (fold el_call cs l))"
  using assms
proof (induction cs arbitrary: l)
  case (Cons c cs)
  then have "e \<in> set (packed_entries (el_call c l))" by (intro el_packed_call) auto
  then show ?case using Cons el_inv_call by auto
qed simp

section \<open>Retired entries\<close>

definition el_retired :: "'a entry_list \<Rightarrow> list_entry \<Rightarrow> bool" where
  "el_retired l e \<longleftrightarrow> (case item_at l (entry_id e) of
     Some (g, v) \<Rightarrow> entry_gen e < g \<or> (g = entry_gen e \<and> v = None \<and> e \<notin> set (packed_entries l))
   | None \<Rightarrow> False)"

definition slot_generation :: "'a entry_list \<Rightarrow> list_entry \<Rightarrow> nat" where
  "slot_generation l e = (case item_at l (entry_id e) of Some (g, _) \<Rightarrow> unat g | None \<Rightarrow> 0)"

lemma el_retired_map: "el_retired l e \<Longrightarrow> el_map l e = None"
  by (auto simp: el_retired_def el_map_def el_get_def split: option.splits)

text \<open>A call leaves a slot its generation, or moves it on by one and fills it; an empty slot it fills under the
  same generation was parked.\<close>

definition slot_moves :: "'a entry_list \<Rightarrow> 'a entry_list \<Rightarrow> nat \<Rightarrow> bool" where
  "slot_moves l l' i \<longleftrightarrow> (case item_at l i of
     None \<Rightarrow> True
   | Some (g, v) \<Rightarrow> (case item_at l' i of
       None \<Rightarrow> False
     | Some (h, w) \<Rightarrow> h = g \<and> (v = None \<longrightarrow> w = None \<or> entry_at i g \<in> set (packed_entries l))
         \<or> h = g + 1 \<and> w \<noteq> None))"

lemma slot_moves_same: "item_at l' i = item_at l i \<Longrightarrow> slot_moves l l' i"
  by (simp add: slot_moves_def split: option.split prod.split)

lemma slot_moves_put:
  assumes "\<And>i. item_at l' i = item_at (put_item j h w l) i" "item_at l j = Some (g, v)"
    and "h = g \<and> (v = None \<longrightarrow> w = None \<or> entry_at j g \<in> set (packed_entries l)) \<or> h = g + 1 \<and> w \<noteq> None"
  shows "slot_moves l l' i"
  using assms(2,3) slot_moves_same [of l' i l]
  by (cases "i = j") (auto simp: slot_moves_def assms(1) item_at_put dest: item_at_Some)

lemma slot_moves_call:
  assumes "el_inv l"
  shows "slot_moves l (el_call c l) i"
proof (cases c)
  case (Call_insert x)
  then show ?thesis
  proof (rule_tac el_insert_cases [OF assms, of x])
    assume "el_insert x l = (Some (entry_at (length (entry_items l)) 0), l\<lparr>entry_items := entry_items l @ [(0, Some x)]\<rparr>)"
    then show ?thesis using Call_insert
      by (auto simp: slot_moves_def item_at_def nth_append split: option.split prod.split)
  qed (auto simp: item_at_put intro!: slot_moves_put)
next
  case (Call_take f)
  then show ?thesis
    by (rule_tac el_take_cases [of f l]) (auto simp: el_get_Some slot_moves_same intro!: slot_moves_put)
next
  case (Call_vacate f)
  then show ?thesis
    by (rule_tac el_take_cases [of f l])
      (auto simp: el_vacate_take el_get_Some slot_moves_same intro!: slot_moves_put)
next
  case (Call_park f)
  then show ?thesis
    by (rule_tac el_park_cases [of f l]) (auto simp: el_get_Some slot_moves_same intro!: slot_moves_put)
next
  case (Call_unpark f x)
  show ?thesis
  proof (cases "f \<in> set (packed_entries l)")
    case True
    then obtain ps qs where u: "el_unpark f x l =
      (True, put_item (entry_id f) (entry_gen f) (Some x) (l\<lparr>packed_entries := ps @ qs\<rparr>))"
      using el_unpark_packed [OF assms] by metis
    show ?thesis
      by (rule slot_moves_put [OF _ el_inv_item_packed [OF assms True], of _ "entry_gen f" "Some x"])
        (simp_all add: Call_unpark u True item_at_put)
  next
    case False
    then show ?thesis using Call_unpark by (rule_tac el_unpark_cases [of l f x]) (auto simp: slot_moves_same)
  qed
next
  case (Call_update f x)
  then show ?thesis
    by (rule_tac el_update_cases [of f l x]) (auto simp: el_get_Some slot_moves_same intro!: slot_moves_put)
next
  case (Call_replace f x)
  then show ?thesis
    by (rule_tac el_replace_cases [of f l x]) (auto simp: el_get_Some slot_moves_same intro!: slot_moves_put)
next
  case (Call_get_mut f g)
  then show ?thesis
    by (rule_tac el_get_mut_cases [of f l g]) (auto simp: el_get_Some slot_moves_same intro!: slot_moves_put)
qed (auto simp: slot_moves_def item_at_select keep_unless_def split: option.split)

lemma el_newly_packed:
  assumes "el_inv l" "e \<in> set (packed_entries (el_call c l))"
  shows "e \<in> set (packed_entries l) \<or> el_get e l \<noteq> None"
proof (cases c)
  case (Call_insert x)
  then show ?thesis using assms(2) by (rule_tac el_insert_cases [OF assms(1), of x]) auto
next
  case (Call_take f)
  then show ?thesis using assms(2) by (rule_tac el_take_cases [of f l]) auto
next
  case (Call_vacate f)
  then show ?thesis using assms(2) by (rule_tac el_take_cases [of f l]) (auto simp: el_vacate_take)
next
  case (Call_park f)
  then show ?thesis using assms(2) by (rule_tac el_park_cases [of f l]) auto
next
  case (Call_unpark f x)
  then show ?thesis using assms(2) by (rule_tac el_unpark_cases [of l f x]) auto
next
  case (Call_update f x)
  then show ?thesis using assms(2) by (rule_tac el_update_cases [of f l x]) auto
next
  case (Call_replace f x)
  then show ?thesis using assms(2) by (rule_tac el_replace_cases [of f l x]) auto
next
  case (Call_get_mut f g)
  then show ?thesis using assms(2) by (rule_tac el_get_mut_cases [of f l g]) auto
qed (use assms(2) in \<open>simp add: el_select_take_free(2)\<close>)

lemma el_retired_step:
  assumes "el_inv l" "el_retired l e" "Suc (slot_generation l e) < 2 ^ 64"
  shows "el_retired (el_call c l) e \<and> slot_generation (el_call c l) e \<le> Suc (slot_generation l e)"
proof -
  obtain g v where g: "item_at l (entry_id e) = Some (g, v)"
    "entry_gen e < g \<or> g = entry_gen e \<and> v = None \<and> e \<notin> set (packed_entries l)"
    using assms(2) by (auto simp: el_retired_def split: option.splits)
  obtain h w where h: "item_at (el_call c l) (entry_id e) = Some (h, w)"
    "h = g \<and> (v = None \<longrightarrow> w = None \<or> entry_at (entry_id e) g \<in> set (packed_entries l)) \<or> h = g + 1 \<and> w \<noteq> None"
    using slot_moves_call [OF assms(1), of c "entry_id e"] g(1) by (auto simp: slot_moves_def split: option.splits)
  have next_gen: "unat (g + 1) = Suc (unat g)"
    using assms(3) g(1) by (simp add: slot_generation_def unat_word_ariths)
  show ?thesis
  proof (cases "entry_gen e < g")
    case True
    then show ?thesis using h g(1) next_gen
      by (auto simp: el_retired_def slot_generation_def word_less_nat_alt)
  next
    case False
    then have e: "g = entry_gen e" "v = None" "e \<notin> set (packed_entries l)" using g(2) by auto
    then have "e \<notin> set (packed_entries (el_call c l))"
      using el_newly_packed [OF assms(1), of e c] g(1) by (auto simp: el_get_Some)
    then show ?thesis using h g(1) e next_gen
      by (auto simp: el_retired_def slot_generation_def word_less_nat_alt)
  qed
qed

interpretation entry_ids: generational el_inv el_step el_retired slot_generation "2 ^ 64"
  by unfold_locales (auto simp: el_step_def el_inv_call el_retired_step)

lemma el_step_calls: "(el_step ^^ length cs) l (fold el_call cs l)"
proof (induction cs arbitrary: l)
  case (Cons c cs)
  have "el_step l (el_call c l)" by (auto simp: el_step_def)
  then show ?case using relpowp_Suc_I2 Cons.IH by fastforce
qed simp

lemma el_retired_taken:
  assumes "el_inv l" "el_get e l = Some x"
  shows "el_retired (snd (el_take e l)) e" "slot_generation (snd (el_take e l)) e = unat (entry_gen e)"
proof -
  have i: "item_at l (entry_id e) = Some (entry_gen e, Some x)" using assms(2) by (simp add: el_get_Some)
  moreover have "e \<notin> set (packed_entries l)" using el_inv_item_packed [OF assms(1)] i by fastforce
  ultimately show "el_retired (snd (el_take e l)) e" "slot_generation (snd (el_take e l)) e = unat (entry_gen e)"
    using assms(2) item_at_Some [OF i]
    by (rule_tac [!] el_take_cases [of e l]) (auto simp: el_retired_def slot_generation_def item_at_put)
qed

section \<open>Counting slots\<close>

lemma distinct_empty_slots: "distinct (empty_slots i its)"
  by (induction i its rule: empty_slots.induct) (auto simp: in_empty_slots)

text \<open>\<open>map_with(Some)\<close>: the values that are there.\<close>

abbreviation el_values :: "'a entry_list \<Rightarrow> 'a list" where
  "el_values l \<equiv> el_map_with (\<lambda>_. Some) l"

lemma length_slots: "length its = length (empty_slots i its) + length (map_items (\<lambda>_. Some) i its)"
  by (induction i its rule: empty_slots.induct) simp_all

lemma held_length:
  assumes "el_inv l" shows "length (held l) = length (empty_slots 0 (entry_items l))"
  using assms by (metis distinct_card distinct_empty_slots el_inv_def)

lemma el_not_valid_has: "el_not_valid e l \<longleftrightarrow> entry_id e < length (entry_items l) \<and> \<not> el_has e l"
  by (auto simp: el_not_valid_def el_has_def item_at_def)

section \<open>Properties\<close>

text \<open>The same calls on a map from entries to values and a set of parked entries: what is answered, and what is
  there afterwards. Which entry an insertion takes is left open, but it is bound to nothing and not parked, and
  the entry that is answered is the one that is bound; so with \<open>replace\<close>, which stays in the slot.\<close>

type_synonym 'a entry_table = "(list_entry \<Rightarrow> 'a option) \<times> list_entry set"

fun entry_spec :: "'a entry_call \<Rightarrow> 'a entry_table \<Rightarrow> 'a entry_answer \<Rightarrow> 'a entry_table \<Rightarrow> bool" where
  "entry_spec (Call_insert x) (m, P) a mP \<longleftrightarrow>
     (\<exists>k. a = Answer_entry (Some k) \<and> m k = None \<and> k \<notin> P \<and> mP = (m(k \<mapsto> x), P))"
| "entry_spec (Call_take e) (m, P) a mP \<longleftrightarrow> a = Answer_value (m e) \<and> mP = (m(e := None), P)"
| "entry_spec (Call_vacate e) (m, P) a mP \<longleftrightarrow> a = Answer_none \<and> mP = (m(e := None), P)"
| "entry_spec (Call_park e) (m, P) a mP \<longleftrightarrow>
     a = Answer_value (m e) \<and> mP = (m(e := None), if m e = None then P else insert e P)"
| "entry_spec (Call_unpark e x) (m, P) a mP \<longleftrightarrow>
     a = Answer_stored (e \<in> P) \<and> mP = (if e \<in> P then (m(e \<mapsto> x), P - {e}) else (m, P))"
| "entry_spec (Call_update e x) (m, P) a mP \<longleftrightarrow>
     a = Answer_value (m e) \<and> mP = (if m e = None then m else m(e \<mapsto> x), P)"
| "entry_spec (Call_replace e x) (m, P) a mP \<longleftrightarrow>
     (case m e of
        None \<Rightarrow> a = Answer_replaced None \<and> mP = (m, P)
      | Some v \<Rightarrow> \<exists>k. entry_id k = entry_id e \<and> m k = None \<and> k \<notin> P
          \<and> a = Answer_replaced (Some (k, v)) \<and> mP = (m(e := None, k \<mapsto> x), P))"
| "entry_spec (Call_get_mut e f) (m, P) a mP \<longleftrightarrow> a = Answer_value (m e) \<and> mP = (m(e := map_option f (m e)), P)"
| "entry_spec (Call_select_take p) (m, P) a mP \<longleftrightarrow>
     (\<exists>es. sorted_wrt (\<lambda>e f. entry_id e < entry_id f) es \<and> (\<forall>e. e \<in> set es \<longleftrightarrow> (\<exists>x. m e = Some x \<and> p (entry_id e) x))
        \<and> a = Answer_values (map (the \<circ> m) es) \<and> mP = (\<lambda>e. if e \<in> set es then None else m e, P))"

definition el_table :: "'a entry_list \<Rightarrow> 'a entry_table" where
  "el_table l = (el_map l, set (packed_entries l))"

text \<open>The values that are there with their entries, in slot order.\<close>

fun live_pairs :: "nat \<Rightarrow> (u64 \<times> 'a option) list \<Rightarrow> (list_entry \<times> 'a) list" where
  "live_pairs i [] = []"
| "live_pairs i ((g, None) # its) = live_pairs (Suc i) its"
| "live_pairs i ((g, Some x) # its) = (entry_at i g, x) # live_pairs (Suc i) its"

lemma in_live_pairs:
  "(e, x) \<in> set (live_pairs i its) \<longleftrightarrow> (\<exists>j < length its. entry_id e = i + j \<and> its ! j = (entry_gen e, Some x))"
proof (induction i its rule: live_pairs.induct)
  case (2 i g its)
  then show ?case by (auto simp: less_Suc_eq_0_disj)
next
  case (3 i g x its)
  then show ?case by (auto simp: entry_eq_iff less_Suc_eq_0_disj)
qed simp

lemma live_pairs_map: "(e, x) \<in> set (live_pairs 0 (entry_items l)) \<longleftrightarrow> el_map l e = Some x"
  by (auto simp: in_live_pairs el_map_upd_iff item_at_def)

lemma live_pairs_sorted: "sorted_wrt (\<lambda>q r. entry_id (fst q) < entry_id (fst r)) (live_pairs i its)"
  by (induction i its rule: live_pairs.induct) (auto simp: in_live_pairs)

lemma select_pairs:
  "map_items (\<lambda>i x. if p i x then Some x else None) i its = map snd (filter (\<lambda>(e, x). p (entry_id e) x) (live_pairs i its))"
  by (induction i its rule: live_pairs.induct) simp_all

lemma el_select_take_spec:
  "entry_spec (Call_select_take p) (el_table l) (el_answer (Call_select_take p) l) (el_table (snd (el_select_take p l)))"
proof -
  let ?ps = "filter (\<lambda>(e, x). p (entry_id e) x) (live_pairs 0 (entry_items l))"
  let ?es = "map fst ?ps"
  have mem: "e \<in> set ?es \<longleftrightarrow> (\<exists>x. el_map l e = Some x \<and> p (entry_id e) x)" for e
    by (force simp: live_pairs_map)
  have "sorted_wrt (\<lambda>e f. entry_id e < entry_id f) ?es"
    using sorted_wrt_filter [OF live_pairs_sorted] by (simp add: sorted_wrt_map)
  moreover have "fst (el_select_take p l) = map (the \<circ> el_map l) ?es"
  proof -
    have "fst (el_select_take p l) = map snd ?ps"
      by (simp add: el_select_take_def select_items_eq select_pairs)
    also have "\<dots> = map (the \<circ> el_map l) ?es" by (auto simp: live_pairs_map)
    finally show ?thesis .
  qed
  moreover have "el_map (snd (el_select_take p l)) = (\<lambda>e. if e \<in> set ?es then None else el_map l e)"
    unfolding el_select_take_map mem by (auto split: option.split)
  ultimately show ?thesis
    unfolding el_table_def using mem by (auto simp: el_select_take_free(2) intro!: exI [of _ ?es])
qed

lemma el_insert_spec:
  assumes "el_inv l"
  shows "entry_spec (Call_insert x) (el_table l) (el_answer (Call_insert x) l) (el_table (snd (el_insert x l)))"
proof -
  obtain k where k: "fst (el_insert x l) = Some k" "el_map l k = None" "el_map (snd (el_insert x l)) = (el_map l)(k \<mapsto> x)"
    by (rule el_insert_map [OF assms, of x])
  have "packed_entries (snd (el_insert x l)) = packed_entries l" by (rule el_insert_cases [OF assms, of x]) auto
  moreover have "k \<notin> set (packed_entries l)"
  proof
    assume "k \<in> set (packed_entries l)"
    then have "item_at l (entry_id k) = Some (entry_gen k, None)" by (rule el_inv_item_packed [OF assms])
    with k(1) show False by (rule_tac el_insert_cases [OF assms, of x]) (auto simp: item_at_def split: if_splits)
  qed
  ultimately show ?thesis using k by (simp add: el_table_def)
qed

lemma el_replace_spec:
  assumes "el_inv l"
  shows "entry_spec (Call_replace e x) (el_table l) (el_answer (Call_replace e x) l) (el_table (snd (el_replace e x l)))"
proof (cases "el_map l e")
  case None
  then show ?thesis by (rule_tac el_replace_cases [of e l x]) (auto simp: el_table_def el_map_def)
next
  case (Some v)
  obtain k where k: "fst (el_replace e x l) = Some (k, v)" "el_map l k = None" "entry_id k = entry_id e"
    "el_map (snd (el_replace e x l)) = (el_map l)(e := None, k \<mapsto> x)"
    by (rule el_replace_map [OF Some, of x])
  have "packed_entries (snd (el_replace e x l)) = packed_entries l" by (rule el_replace_cases [of e l x]) auto
  moreover have "k \<notin> set (packed_entries l)"
    using el_inv_item_packed [OF assms, of k] Some k(3) by (auto simp: el_map_upd_iff)
  ultimately show ?thesis using k Some by (simp add: el_table_def)
qed

lemma el_unpark_spec:
  assumes "el_inv l"
  shows "entry_spec (Call_unpark e x) (el_table l) (el_answer (Call_unpark e x) l) (el_table (snd (el_unpark e x l)))"
proof (cases "e \<in> set (packed_entries l)")
  case True
  obtain ps qs where u: "packed_entries l = ps @ e # qs"
    "el_unpark e x l = (True, put_item (entry_id e) (entry_gen e) (Some x) (l\<lparr>packed_entries := ps @ qs\<rparr>))"
    by (rule el_unpark_packed [OF assms True])
  have "distinct (ps @ e # qs)" using assms u(1) by (simp add: el_inv_def held_def)
  then have "set (packed_entries (snd (el_unpark e x l))) = set (packed_entries l) - {e}" by (auto simp: u)
  then show ?thesis using el_unpark_map(1,3) [OF assms True, of x] True by (simp add: el_table_def)
next
  case False
  then show ?thesis by (rule_tac el_unpark_cases [of l e x]) (auto simp: el_table_def)
qed

lemma el_call_packed:
  "packed_entries (snd (el_take e l)) = packed_entries l"
  "packed_entries (snd (el_update e x l)) = packed_entries l"
  "packed_entries (snd (el_get_mut f e l)) = packed_entries l"
  "set (packed_entries (snd (el_park e l))) = (if el_map l e = None then set (packed_entries l) else insert e (set (packed_entries l)))"
proof -
  show "packed_entries (snd (el_take e l)) = packed_entries l" by (rule el_take_cases [of e l]) auto
  show "packed_entries (snd (el_update e x l)) = packed_entries l" by (rule el_update_cases [of e l x]) auto
  show "packed_entries (snd (el_get_mut f e l)) = packed_entries l" by (rule el_get_mut_cases [of e l f]) auto
  show "set (packed_entries (snd (el_park e l))) = (if el_map l e = None then set (packed_entries l) else insert e (set (packed_entries l)))"
    by (rule el_park_cases [of e l]) (auto simp: el_map_def)
qed

lemma el_call_refines:
  assumes "el_inv l"
  shows "entry_spec c (el_table l) (el_answer c l) (el_table (el_call c l))"
proof (cases c)
  case (Call_take e)
  then show ?thesis by (simp add: el_call_packed el_table_def el_take_result el_take_map)
next
  case (Call_vacate e)
  then show ?thesis by (simp add: el_call_packed el_table_def el_vacate_take el_take_map)
next
  case (Call_park e)
  then show ?thesis by (simp add: el_call_packed el_table_def el_park_map)
next
  case (Call_update e x)
  then show ?thesis by (simp add: el_call_packed el_table_def el_update_map split: option.split)
next
  case (Call_get_mut e f)
  then show ?thesis by (simp add: el_call_packed el_table_def el_get_mut_map fun_upd_idem split: option.split)
qed (use el_insert_spec [OF assms] el_replace_spec [OF assms] el_unpark_spec [OF assms] el_select_take_spec in simp_all)

text \<open>C22: the list refines a map with a set of parked entries. Whatever calls of the nine made it, each of them
  answers and does what it does there. An insert never panics; the entry it answers was bound to nothing and is
  bound to the value. \<open>take\<close>, \<open>vacate\<close>, \<open>update\<close> and \<open>get_mut\<close> answer and change what is bound to their entry;
  \<open>park\<close> moves it to the parked ones, and \<open>unpark\<close> puts a value back exactly when it is one of them; \<open>replace\<close>
  answers the old value with the new entry of the slot, which is what is bound afterwards; \<open>select_take\<close> takes
  out, in slot order, the values it was asked for. Nothing else is changed. \<open>get\<close> and \<open>has\<close> tell what is bound.
  \<open>update_packed\<close>, which is public too, is not among the calls: it breaks this
  (\<open>update_packed_into_free_slot\<close>).\<close>

theorem entry_list_refines_map:
  fixes cs :: "'a entry_call list"
  defines "l \<equiv> fold el_call cs el_new"
  shows "entry_spec c (el_table l) (el_answer c l) (el_table (el_call c l))
    \<and> el_get e l = fst (el_table l) e \<and> (el_has e l \<longleftrightarrow> fst (el_table l) e \<noteq> None)"
proof -
  have inv: "el_inv l" unfolding l_def by (rule el_inv_calls [OF el_inv_new])
  have "el_has e l \<longleftrightarrow> el_map l e \<noteq> None"
    by (auto simp: el_has_def el_map_def el_get_def split: option.splits)
  then show ?thesis using el_call_refines [OF inv, of c] by (simp add: el_table_def el_map_def)
qed

text \<open>A parked entry keeps its slot. Whatever is called after \<open>park\<close>, short of unparking that
  entry, its slot is given to nobody, and \<open>unpark\<close> then puts the value back under the same entry.\<close>

theorem parked_slot_reserved:
  assumes "el_park e (fold el_call before el_new) = (Some x, l)"
    and "\<And>y. Call_unpark e y \<notin> set cs"
  shows "el_get e (fold el_call cs l) = None
    \<and> (\<exists>l'. el_unpark e y (fold el_call cs l) = (True, l')
         \<and> el_map l' = (el_map (fold el_call cs l))(e \<mapsto> y))"
proof -
  let ?start = "fold el_call before el_new" and ?l = "fold el_call cs l"
  have inv0: "el_inv ?start" by (rule el_inv_calls [OF el_inv_new])
  have l: "l = snd (el_park e ?start)" by (simp add: assms(1))
  have inv: "el_inv l" unfolding l by (rule el_inv_park [OF inv0])
  have "e \<in> set (packed_entries l)"
    by (rule el_park_cases [of e ?start]) (use assms(1) in auto)
  then have e: "e \<in> set (packed_entries ?l)" using assms(2) by (rule el_packed_calls [OF inv])
  note inv' = el_inv_calls [OF inv, of cs]
  show ?thesis
    using el_unpark_map(1,3) [OF inv' e, of y] el_unpark_map(2) [OF inv' e] by (cases "el_unpark e y ?l") (auto simp: el_map_def)
qed

text \<open>An entry whose value was taken never finds a value again, whatever is called, until its 64-bit
  generation has gone round.\<close>

theorem taken_entry_stays_dead:
  assumes "el_take e (fold el_call before el_new) = (Some x, l)" "unat (entry_gen e) + length cs < 2 ^ 64"
  shows "el_get e (fold el_call cs l) = None"
proof -
  let ?start = "fold el_call before el_new"
  have inv0: "el_inv ?start" by (rule el_inv_calls [OF el_inv_new])
  have live: "el_get e ?start = Some x" by (rule el_take_cases [of e ?start]) (use assms(1) in auto)
  have l: "l = snd (el_take e ?start)" by (simp add: assms(1))
  have "el_retired (fold el_call cs l) e"
    using entry_ids.retired_steps [OF el_step_calls, of l e cs] el_inv_take [OF inv0, of e]
      el_retired_taken [OF inv0 live] assms(2) by (simp add: l)
  then show ?thesis using el_retired_map by (auto simp: el_map_def)
qed

text \<open>\<open>update_packed\<close> stores into any empty slot, parked or not. Into the slot of an entry that was
  taken it puts a value that is found under that entry, and that the next \<open>insert\<close> overwrites without
  handing it to anybody.\<close>

theorem update_packed_into_free_slot:
  fixes before :: "'a entry_call list"
  assumes "el_take e (fold el_call before el_new) = (Some x, l1)" "l2 = snd (update_packed e y l1)"
  shows "el_get e l2 = Some y \<and> (\<exists>l3. el_insert z l2 = (Some (entry_at (entry_id e) (entry_gen e + 1)), l3)
    \<and> el_get e l3 = None \<and> el_values l3 = el_values (snd (el_insert z l1)))"
proof -
  let ?start = "fold el_call before el_new"
  have live: "el_get e ?start = Some x" and l1: "l1 = (put_item (entry_id e) (entry_gen e) None ?start)
      \<lparr>free_entries := free_entries ?start @ [e]\<rparr>"
    by (rule el_take_cases [of e ?start]; use assms(1) in auto)+
  then have i: "entry_id e < length (entry_items ?start)" by (auto simp: el_get_Some dest: item_at_Some)
  have l2: "l2 = put_item (entry_id e) (entry_gen e) (Some y) l1"
    using i by (simp add: assms(2) update_packed_empty l1 item_at_put)
  then show ?thesis
    using i by (auto simp: l1 el_get_def item_at_put el_insert_def store_entry_def Let_def el_map_with_def put_item_def
        item_at_def entry_at_def)
qed

text \<open>The slot counts. Every slot holds a value, is parked or is open; \<open>active_slots\<close>, whose
  documentation promises the slots that have a value, counts the parked ones with them.\<close>

theorem slots_counted:
  fixes cs :: "'a entry_call list"
  defines "l \<equiv> fold el_call cs el_new"
  assumes "length (entry_items l) < 2 ^ 64"
  shows "unat (allocated_slots l) = length (el_values l) + length (packed_entries l) + length (free_entries l)
    \<and> unat (active_slots l) = length (el_values l) + length (packed_entries l)"
proof -
  have inv: "el_inv l" unfolding l_def by (rule el_inv_calls [OF el_inv_new])
  have n: "length (entry_items l) = length (el_values l) + length (packed_entries l) + length (free_entries l)"
    using length_slots [of "entry_items l" 0] held_length [OF inv] by (simp add: el_map_with_def held_def)
  define k where "k = length (el_values l) + length (packed_entries l)"
  have "active_slots l = of_nat k" using n by (simp add: active_slots_def allocated_slots_def open_slots_def k_def)
  moreover have "k < 2 ^ 64" using n assms(2) by (simp add: k_def)
  then have "unat (of_nat k :: u64) = k" by (simp add: unat_of_nat_small)
  moreover have "unat (allocated_slots l) = length (entry_items l)"
    using assms(2) by (simp add: allocated_slots_def unat_of_nat_small)
  ultimately show ?thesis using n by (simp add: k_def)
qed

section \<open>Witnesses\<close>

theorem parked_slot_reserved_witness:
  "el_get (entry_at 0 0) (fold el_call [Call_insert 8, Call_take (entry_at 0 0)]
       (snd (el_park (entry_at 0 0) (fold el_call [Call_insert (7::nat)] el_new)))) = None
    \<and> (\<exists>l'. el_unpark (entry_at 0 0) 9 (fold el_call [Call_insert 8, Call_take (entry_at 0 0)]
         (snd (el_park (entry_at 0 0) (fold el_call [Call_insert (7::nat)] el_new)))) = (True, l')
       \<and> el_map l' (entry_at 0 0) = Some 9)"
proof -
  have "el_park (entry_at 0 0) (fold el_call [Call_insert (7::nat)] el_new)
      = (Some 7, snd (el_park (entry_at 0 0) (fold el_call [Call_insert (7::nat)] el_new)))"
    by (simp add: el_insert_def store_entry_def el_new_def el_park_def item_at_def)
  from parked_slot_reserved [OF this, of "[Call_insert 8, Call_take (entry_at 0 0)]" 9]
  show ?thesis by auto
qed

theorem taken_entry_stays_dead_witness:
  "el_get (entry_at 0 0) (fold el_call [Call_insert 8, Call_insert 9]
     (snd (el_take (entry_at 0 0) (fold el_call [Call_insert (7::nat)] el_new)))) = None
   \<and> fst (el_insert 8 (snd (el_take (entry_at 0 0) (fold el_call [Call_insert (7::nat)] el_new)))) = Some (entry_at 0 1)"
proof
  have "el_take (entry_at 0 0) (fold el_call [Call_insert (7::nat)] el_new)
      = (Some 7, snd (el_take (entry_at 0 0) (fold el_call [Call_insert (7::nat)] el_new)))"
    by (simp add: el_insert_def store_entry_def el_new_def el_take_def item_at_def)
  from taken_entry_stays_dead [OF this, of "[Call_insert 8, Call_insert 9]"]
  show "el_get (entry_at 0 0) (fold el_call [Call_insert 8, Call_insert 9]
     (snd (el_take (entry_at 0 0) (fold el_call [Call_insert (7::nat)] el_new)))) = None" by simp
qed (simp add: el_insert_def store_entry_def el_new_def el_take_def item_at_def put_item_def entry_at_def)

theorem update_packed_into_free_slot_witness:
  "el_get (entry_at 0 0) (snd (update_packed (entry_at 0 0) 8
     (snd (el_take (entry_at 0 0) (fold el_call [Call_insert (7::nat)] el_new))))) = Some 8"
proof -
  have "el_take (entry_at 0 0) (fold el_call [Call_insert (7::nat)] el_new)
      = (Some 7, snd (el_take (entry_at 0 0) (fold el_call [Call_insert (7::nat)] el_new)))"
    by (simp add: el_insert_def store_entry_def el_new_def el_take_def item_at_def)
  from update_packed_into_free_slot [OF this refl, of 8] show ?thesis by blast
qed

theorem slots_counted_witness:
  "unat (active_slots (fold el_call [Call_insert (7::nat), Call_park (entry_at 0 0), Call_insert 8] el_new)) = 2"
  using slots_counted [of "[Call_insert (7::nat), Call_park (entry_at 0 0), Call_insert 8]"]
  by (simp add: el_insert_def store_entry_def el_new_def el_park_def item_at_def put_item_def el_map_with_def)

end
