(* ===== verification/Sleepers.thy ===== *)
theory Sleepers
  imports Entries
begin

text \<open>
  Timers over the slot list, \<open>foundation_core/src/synca/sleepers.rs\<close>: \<open>DurationWaker\<close>, the store of
  them \<open>DurationStore\<close>, and \<open>Sleepers\<close>, which is generic in the waiter and wakes the ones that are ready.

  An \<open>Instant\<close> is a number of nanoseconds, below \<open>INSTANT_END\<close> (64-bit seconds), a \<open>Duration\<close> a number of
  nanoseconds. Each entry that a scan visits reads the clock again: \<open>clock i\<close> is what it shows when slot
  \<open>i\<close> is visited. An operation holds the lock of the list while it runs, so it is one step of the list.
\<close>

section \<open>Wakers\<close>

definition INSTANT_END :: nat where "INSTANT_END = 2 ^ 63 * 1000000000"

definition instant_checked_add :: "nat \<Rightarrow> nat \<Rightarrow> nat option" where
  "instant_checked_add t d = (if t + d < INSTANT_END then Some (t + d) else None)"

definition checked_duration_since :: "nat \<Rightarrow> nat \<Rightarrow> nat option" where
  "checked_duration_since t earlier = (if earlier \<le> t then Some (t - earlier) else None)"

record 't duration_waker =
  dw_handle :: 't
  dw_from :: nat
  dw_how_long :: nat

definition duration_waker_new :: "'t \<Rightarrow> nat \<Rightarrow> nat \<Rightarrow> 't duration_waker" where
  "duration_waker_new h from how_long = \<lparr>dw_handle = h, dw_from = from, dw_how_long = how_long\<rparr>"

definition duration_waker_from_now :: "nat \<Rightarrow> 't \<Rightarrow> nat \<Rightarrow> 't duration_waker" where
  "duration_waker_from_now now h how_long = duration_waker_new h now how_long"

definition waker_remaining :: "nat \<Rightarrow> 't duration_waker \<Rightarrow> nat option" where
  "waker_remaining now w =
     (case instant_checked_add (dw_from w) (dw_how_long w) of
        Some when_ready \<Rightarrow> checked_duration_since when_ready now
      | None \<Rightarrow> None)"

definition try_is_ready :: "nat \<Rightarrow> 't duration_waker \<Rightarrow> bool option" where
  "try_is_ready now w =
     map_option (\<lambda>when_ready. checked_duration_since when_ready now = None)
       (instant_checked_add (dw_from w) (dw_how_long w))"

definition is_ready :: "nat \<Rightarrow> 't duration_waker \<Rightarrow> bool" where
  "is_ready now w = (case try_is_ready now w of Some b \<Rightarrow> b | None \<Rightarrow> False)"

section \<open>DurationStore\<close>

type_synonym 't duration_store = "'t duration_waker entry_list"

definition store_insert :: "'t duration_waker \<Rightarrow> 't duration_store \<Rightarrow> list_entry option \<times> 't duration_store" where
  "store_insert w l = el_insert w l"

definition store_update ::
    "list_entry \<Rightarrow> 't duration_waker \<Rightarrow> 't duration_store \<Rightarrow> 't duration_waker option \<times> 't duration_store" where
  "store_update e w l = el_update e w l"

definition store_remove :: "list_entry \<Rightarrow> 't duration_store \<Rightarrow> 't duration_waker option \<times> 't duration_store" where
  "store_remove e l = el_take e l"

definition store_has_pending_tasks :: "'t duration_store \<Rightarrow> bool" where
  "store_has_pending_tasks l \<longleftrightarrow> active_slots l > 0"

definition store_count :: "'t duration_store \<Rightarrow> u64" where
  "store_count l = active_slots l"

definition store_get_matured :: "(nat \<Rightarrow> nat) \<Rightarrow> 't duration_store \<Rightarrow> 't duration_waker list \<times> 't duration_store" where
  "store_get_matured clock l = el_select_take (\<lambda>i. is_ready (clock i)) l"

definition iter_max :: "nat list \<Rightarrow> nat option" where
  "iter_max ds = (if ds = [] then None else Some (fold max (tl ds) (hd ds)))"

definition store_min_duration :: "(nat \<Rightarrow> nat) \<Rightarrow> 't duration_store \<Rightarrow> nat option" where
  "store_min_duration clock l = iter_max (el_map_with (\<lambda>i. waker_remaining (clock i)) l)"

definition store_max_duration :: "(nat \<Rightarrow> nat) \<Rightarrow> 't duration_store \<Rightarrow> nat option" where
  "store_max_duration clock l = iter_max (el_map_with (\<lambda>i. waker_remaining (clock i)) l)"

section \<open>Sleepers\<close>

text \<open>\<open>ready\<close> is the waiter's \<open>is_ready\<close>, asked about slot \<open>i\<close>. Waking runs code of the waiter while the
  list is locked, because the guard of the scan is a temporary of the \<open>for\<close> loop: \<open>wakes\<close> is that code, on
  a state of its own and, if it calls back into these sleepers, \<open>None\<close>: the lock is taken and the thread
  does not come back.\<close>

definition sleepers_insert :: "'t \<Rightarrow> 't entry_list \<Rightarrow> list_entry option \<times> 't entry_list" where
  "sleepers_insert x l = el_insert x l"

definition sleepers_update :: "list_entry \<Rightarrow> 't \<Rightarrow> 't entry_list \<Rightarrow> 't option \<times> 't entry_list" where
  "sleepers_update e x l = el_update e x l"

definition sleepers_remove :: "list_entry \<Rightarrow> 't entry_list \<Rightarrow> 't option \<times> 't entry_list" where
  "sleepers_remove e l = el_take e l"

definition sleepers_has_pending_tasks :: "'t entry_list \<Rightarrow> bool" where
  "sleepers_has_pending_tasks l \<longleftrightarrow> active_slots l > 0"

definition sleepers_count :: "'t entry_list \<Rightarrow> u64" where
  "sleepers_count l = active_slots l"

definition sleepers_get_matured :: "(nat \<Rightarrow> 't \<Rightarrow> bool) \<Rightarrow> 't entry_list \<Rightarrow> 't list \<times> 't entry_list" where
  "sleepers_get_matured ready l = el_select_take ready l"

fun wake_all :: "('t \<Rightarrow> 's \<Rightarrow> 's option) \<Rightarrow> 't list \<Rightarrow> 's \<Rightarrow> 's option" where
  "wake_all wakes [] s = Some s"
| "wake_all wakes (x # xs) s = (case wakes x s of Some s' \<Rightarrow> wake_all wakes xs s' | None \<Rightarrow> None)"

definition sleepers_wake ::
    "(nat \<Rightarrow> 't \<Rightarrow> bool) \<Rightarrow> ('t \<Rightarrow> 's \<Rightarrow> 's option) \<Rightarrow> 't entry_list \<times> 's \<Rightarrow> ('t entry_list \<times> 's) option" where
  "sleepers_wake ready wakes ls =
     (case el_select_take ready (fst ls) of
        (xs, l') \<Rightarrow> map_option (Pair l') (wake_all wakes xs (snd ls)))"

definition sleepers_min_duration :: "(nat \<Rightarrow> 't \<Rightarrow> nat option) \<Rightarrow> 't entry_list \<Rightarrow> nat option" where
  "sleepers_min_duration remaining_duration l = iter_max (el_map_with remaining_duration l)"

definition sleepers_max_duration :: "(nat \<Rightarrow> 't \<Rightarrow> nat option) \<Rightarrow> 't entry_list \<Rightarrow> nat option" where
  "sleepers_max_duration remaining_duration l = iter_max (el_map_with remaining_duration l)"

section \<open>When a waker is ready\<close>

definition deadline :: "'t duration_waker \<Rightarrow> nat" where
  "deadline w = dw_from w + dw_how_long w"

lemma is_ready_iff: "is_ready now w \<longleftrightarrow> deadline w < now \<and> deadline w < INSTANT_END"
  by (auto simp: is_ready_def try_is_ready_def instant_checked_add_def checked_duration_since_def deadline_def)

lemma waker_remaining_eq:
  "waker_remaining now w = (if now \<le> deadline w \<and> deadline w < INSTANT_END then Some (deadline w - now) else None)"
  by (simp add: waker_remaining_def instant_checked_add_def checked_duration_since_def deadline_def)

lemma is_ready_mono: "is_ready now w \<Longrightarrow> now \<le> later \<Longrightarrow> is_ready later w"
  by (simp add: is_ready_iff)

lemma iter_max_eq: "iter_max ds = (if ds = [] then None else Some (Max (set ds)))"
  by (cases ds) (simp_all add: iter_max_def Max.set_eq_fold del: list.set)

section \<open>The values of a list\<close>

lemma mset_el_values:
  "mset (el_values l) = sum_list (map (\<lambda>it. mset_set (set_option (snd it))) (entry_items l))"
proof -
  have "mset (map_items (\<lambda>_. Some) i its) = sum_list (map (\<lambda>it. mset_set (set_option (snd it))) its)"
    for i and its :: "(u64 \<times> 'a option) list"
    by (induction i its rule: empty_slots.induct) simp_all
  then show ?thesis by (simp add: el_map_with_def)
qed

lemma sum_list_upd:
  fixes xs :: "'b::comm_monoid_add list"
  shows "i < length xs \<Longrightarrow> sum_list (xs[i := c]) + xs ! i = sum_list xs + c"
proof (induction xs arbitrary: i)
  case (Cons x xs)
  show ?case
  proof (cases i)
    case (Suc j)
    then have "sum_list (xs[j := c]) + xs ! j = sum_list xs + c" using Cons by simp
    then show ?thesis by (simp add: Suc add.assoc)
  qed (simp add: ac_simps)
qed simp

lemma el_values_put:
  assumes "item_at l i = Some (g, v)"
  shows "mset (el_values (put_item i h w l)) + mset_set (set_option v)
    = mset (el_values l) + mset_set (set_option w)"
proof -
  have i: "i < length (entry_items l)" "entry_items l ! i = (g, v)"
    using assms by (auto simp: item_at_def split: if_splits)
  let ?m = "map (\<lambda>it. mset_set (set_option (snd it))) (entry_items l)"
  have "sum_list (?m[i := mset_set (set_option w)]) + ?m ! i = sum_list ?m + mset_set (set_option w)"
    using i(1) by (intro sum_list_upd) simp
  then show ?thesis using i by (simp add: mset_el_values put_item_def map_update)
qed

lemma el_values_stacks [simp]:
  "el_values (l\<lparr>free_entries := fs\<rparr>) = el_values l" "el_values (l\<lparr>packed_entries := ps\<rparr>) = el_values l"
  by (simp_all add: el_map_with_def)

lemma el_values_insert:
  assumes "el_inv l" shows "mset (el_values (snd (el_insert x l))) = add_mset x (mset (el_values l))"
proof (rule el_insert_cases [OF assms, of x])
  fix es i g
  assume "item_at l i = Some (g, None)"
    "el_insert x l = (Some (entry_at i (g + 1)), put_item i (g + 1) (Some x) (l\<lparr>free_entries := es\<rparr>))"
  then show ?thesis using el_values_put [of "l\<lparr>free_entries := es\<rparr>" i g None "g + 1" "Some x"] by simp
qed (simp add: mset_el_values)

lemma el_values_take:
  "mset (el_values (snd (el_take e l))) + mset_set (set_option (fst (el_take e l))) = mset (el_values l)"
  by (rule el_take_cases [of e l]) (use el_values_put [of l "entry_id e" "entry_gen e" _ "entry_gen e" None] in
      \<open>auto simp: el_get_Some\<close>)

lemma el_values_update:
  "mset (el_values (snd (el_update e y l))) + mset_set (set_option (fst (el_update e y l)))
    = mset (el_values l) + (if el_get e l = None then {#} else {#y#})"
  by (rule el_update_cases [of e l y]) (use el_values_put [of l "entry_id e" "entry_gen e" _ "entry_gen e" "Some y"] in
      \<open>auto simp: el_get_Some\<close>)

lemma map_items_keep:
  "mset (map_items (\<lambda>i x. if p i x then Some x else None) i its) + mset (map_items (\<lambda>_. Some) i (map (keep_unless p) (enumerate i its)))
    = mset (map_items (\<lambda>_. Some) i its)"
  by (induction i its rule: empty_slots.induct) (auto simp: keep_unless_def)

lemma el_values_select_take:
  "mset (fst (el_select_take p l)) + mset (el_values (snd (el_select_take p l))) = mset (el_values l)"
  using map_items_keep [of p 0] by (simp add: el_select_take_def select_items_eq el_map_with_def)

lemma in_map_items:
  "y \<in> set (map_items f i its) \<longleftrightarrow> (\<exists>j < length its. \<exists>x. snd (its ! j) = Some x \<and> f (i + j) x = Some y)"
proof (induction i its rule: empty_slots.induct)
  case (2 i g its)
  then show ?case by (auto simp: less_Suc_eq_0_disj)
next
  case (3 i g x its)
  then show ?case by (auto simp: less_Suc_eq_0_disj split: option.split)
qed simp

lemma in_el_map_with: "y \<in> set (el_map_with f l) \<longleftrightarrow> (\<exists>e x. el_get e l = Some x \<and> f (entry_id e) x = Some y)"
proof -
  have "y \<in> set (el_map_with f l) \<longleftrightarrow> (\<exists>j g x. item_at l j = Some (g, Some x) \<and> f j x = Some y)"
    by (auto simp: el_map_with_def in_map_items item_at_def) (metis prod.collapse)+
  also have "\<dots> \<longleftrightarrow> (\<exists>e x. el_get e l = Some x \<and> f (entry_id e) x = Some y)"
    by (simp add: el_get_Some) (metis entry_at_simps(1,2))
  finally show ?thesis .
qed

lemma el_get_select_take:
  "el_get e (snd (el_select_take p l)) = Some x \<longleftrightarrow> el_get e l = Some x \<and> \<not> p (entry_id e) x"
  by (auto simp: el_get_Some item_at_select keep_unless_def split: option.splits if_splits)

section \<open>A store in use\<close>

datatype 't store_op =
    Op_insert "'t duration_waker"
  | Op_update list_entry "'t duration_waker"
  | Op_remove list_entry
  | Op_get_matured "nat \<Rightarrow> nat"

text \<open>With the wakers that went into the store and those that came out; an update of an entry that is
  gone takes nothing in.\<close>

record 't store_run =
  run_store :: "'t duration_store"
  run_in :: "'t duration_waker list"
  run_out :: "'t duration_waker list"

fun store_apply :: "'t store_op \<Rightarrow> 't store_run \<Rightarrow> 't store_run" where
  "store_apply (Op_insert w) r = r\<lparr>run_store := snd (store_insert w (run_store r)), run_in := run_in r @ [w]\<rparr>"
| "store_apply (Op_update e w) r =
     (case store_update e w (run_store r) of
        (Some old, l) \<Rightarrow> \<lparr>run_store = l, run_in = run_in r @ [w], run_out = run_out r @ [old]\<rparr>
      | (None, l) \<Rightarrow> r\<lparr>run_store := l\<rparr>)"
| "store_apply (Op_remove e) r =
     (case store_remove e (run_store r) of
        (Some w, l) \<Rightarrow> r\<lparr>run_store := l, run_out := run_out r @ [w]\<rparr>
      | (None, l) \<Rightarrow> r\<lparr>run_store := l\<rparr>)"
| "store_apply (Op_get_matured clock) r =
     (case store_get_matured clock (run_store r) of
        (ws, l) \<Rightarrow> r\<lparr>run_store := l, run_out := run_out r @ ws\<rparr>)"

definition store_start :: "'t store_run" where
  "store_start = \<lparr>run_store = el_new, run_in = [], run_out = []\<rparr>"

definition conserved :: "'t store_run \<Rightarrow> bool" where
  "conserved r \<longleftrightarrow> el_inv (run_store r) \<and> mset (run_in r) = mset (el_values (run_store r)) + mset (run_out r)"

lemma conserved_op: "conserved r \<Longrightarrow> conserved (store_apply a r)"
proof (cases a)
  case (Op_insert w)
  assume "conserved r"
  then show ?thesis
    by (simp add: Op_insert conserved_def store_insert_def el_inv_insert el_values_insert)
next
  case (Op_update e w)
  assume r: "conserved r"
  let ?u = "el_update e w (run_store r)"
  have "fst ?u = el_get e (run_store r)" by (simp add: el_update_map(1) el_map_def)
  then show ?thesis
    using r el_inv_update [of "run_store r" e w] el_values_update [of e w "run_store r"]
    by (cases ?u) (auto simp: Op_update conserved_def store_update_def split: option.splits)
next
  case (Op_remove e)
  assume "conserved r"
  then show ?thesis
    using el_inv_take [of "run_store r" e] el_values_take [of e "run_store r"]
    by (cases "el_take e (run_store r)") (auto simp: Op_remove conserved_def store_remove_def split: option.splits)
next
  case (Op_get_matured clock)
  assume "conserved r"
  then show ?thesis
    using el_inv_select_take [of "run_store r" "\<lambda>i. is_ready (clock i)"]
      el_values_select_take [of "\<lambda>i. is_ready (clock i)" "run_store r"]
    by (auto simp: Op_get_matured conserved_def store_get_matured_def ac_simps split: prod.splits)
qed

lemma conserved_ops: "conserved r \<Longrightarrow> conserved (fold store_apply ops r)"
  by (induction ops arbitrary: r) (simp_all add: conserved_op)

lemma conserved_start: "conserved store_start"
  by (simp add: conserved_def store_start_def el_inv_new) (simp add: el_new_def el_map_with_def)

section \<open>Properties\<close>

text \<open>Timers are neither lost nor doubled. Whatever is called on a store, every waker put into it is
  there still or was handed out, by \<open>remove\<close>, \<open>update\<close> or \<open>get_matured\<close>, as many times as it was put in.\<close>

theorem timers_conserved:
  "mset (run_in (fold store_apply ops store_start))
    = mset (el_values (run_store (fold store_apply ops store_start))) + mset (run_out (fold store_apply ops store_start))"
  using conserved_ops [OF conserved_start, of ops] by (simp add: conserved_def)

text \<open>C25: maturity. When the clock shows from \<open>t0\<close> to \<open>t1\<close> during a scan, \<open>get_matured\<close> gives out only wakers
  whose time is over by \<open>t1\<close>, leaves none whose time was over at \<open>t0\<close>, and keeps the others under
  their entries; a waker whose end is no instant is never given out.\<close>

theorem matured_exactly_the_due:
  assumes "\<And>i. t0 \<le> clock i \<and> clock i \<le> t1" "store_get_matured clock l = (ws, l')"
  shows "(\<forall>w \<in> set ws. deadline w < t1 \<and> deadline w < INSTANT_END)
    \<and> mset (el_values l) = mset ws + mset (el_values l')
    \<and> (\<forall>e w. el_get e l' = Some w \<longrightarrow> el_get e l = Some w \<and> (t0 \<le> deadline w \<or> INSTANT_END \<le> deadline w))
    \<and> (\<forall>e w. el_get e l = Some w \<and> (t1 \<le> deadline w \<or> INSTANT_END \<le> deadline w) \<longrightarrow> el_get e l' = Some w)"
proof -
  let ?p = "\<lambda>i. is_ready (clock i)"
  have l: "ws = fst (el_select_take ?p l)" "l' = snd (el_select_take ?p l)"
    using assms(2) by (simp_all add: store_get_matured_def)
  have "deadline w < t1 \<and> deadline w < INSTANT_END" if "w \<in> set ws" for w
  proof -
    have "fst (el_select_take ?p l) = el_map_with (\<lambda>i x. if ?p i x then Some x else None) l"
      by (simp add: el_select_take_def select_items_eq el_map_with_def)
    then have "w \<in> set (el_map_with (\<lambda>i x. if ?p i x then Some x else None) l)" using that l(1) by simp
    then obtain i where "is_ready (clock i) w" by (auto simp: in_el_map_with split: if_splits)
    then show ?thesis using assms(1) [of i] by (auto simp: is_ready_iff)
  qed
  moreover have "t0 \<le> deadline w \<or> INSTANT_END \<le> deadline w" if "el_get e l' = Some w" for e w
    using that assms(1) [of "entry_id e"] by (auto simp: l el_get_select_take is_ready_iff)
  moreover have "el_get e l' = Some w" if "el_get e l = Some w" "t1 \<le> deadline w \<or> INSTANT_END \<le> deadline w" for e w
    using that assms(1) [of "entry_id e"] by (auto simp: l el_get_select_take is_ready_iff)
  ultimately show ?thesis
    using el_values_select_take [of ?p l] by (auto simp: l el_get_select_take)
qed

text \<open>\<open>min_duration\<close> is the longest remaining time, not the shortest it is documented to be: while
  a waker is pending, it answers a duration by whose end that waker's time has come, whichever waker it is.\<close>

theorem min_duration_waits_for_all:
  assumes "el_get e l = Some w" "now \<le> deadline w" "deadline w < INSTANT_END"
  shows "\<exists>d. store_min_duration (\<lambda>_. now) l = Some d \<and> store_max_duration (\<lambda>_. now) l = Some d
    \<and> deadline w \<le> now + d"
proof -
  let ?ds = "el_map_with (\<lambda>_. waker_remaining now) l"
  have "deadline w - now \<in> set ?ds" using assms by (auto simp: in_el_map_with waker_remaining_eq)
  then have "deadline w - now \<le> Max (set ?ds)" "?ds \<noteq> []" by auto
  then show ?thesis using assms(2) by (auto simp: store_min_duration_def store_max_duration_def iter_max_eq)
qed

text \<open>\<open>wake\<close> wakes each sleeper that is ready once, in slot order, and it is gone from the list; but it
  does so with the list locked, so that it does not return if the first of them calls back into the list.\<close>

theorem wake_wakes_the_ready:
  assumes "sleepers_get_matured ready l = (x # xs, l')"
  shows "sleepers_wake ready (\<lambda>x s. Some (f x s)) (l, s) = Some (l', fold f (x # xs) s)
    \<and> (\<forall>wakes. wakes x s = None \<longrightarrow> sleepers_wake ready wakes (l, s) = None)"
proof -
  have "wake_all (\<lambda>x s. Some (f x s)) ys s = Some (fold f ys s)" for ys s
    by (induction ys arbitrary: s) simp_all
  then show ?thesis using assms by (simp add: sleepers_wake_def sleepers_get_matured_def)
qed

section \<open>Witnesses\<close>

definition two_timers :: "nat duration_store" where
  "two_timers = snd (store_insert (duration_waker_new 2 0 90) (snd (store_insert (duration_waker_new 1 0 10) el_new)))"

lemma two_timers_eq:
  "two_timers = \<lparr>entry_items = [(0, Some (duration_waker_new 1 0 10)), (0, Some (duration_waker_new 2 0 90))],
     free_entries = [], packed_entries = []\<rparr>"
  by (simp add: two_timers_def store_insert_def el_insert_def store_entry_def el_new_def entry_at_def)

theorem matured_exactly_the_due_witness:
  "deadline (duration_waker_new (1::nat) 0 10) < 50
    \<and> fst (store_get_matured (\<lambda>_. 50) two_timers) = [duration_waker_new 1 0 10]"
proof -
  have m: "store_get_matured (\<lambda>_. 50) two_timers
      = ([duration_waker_new 1 0 10], snd (store_get_matured (\<lambda>_. 50) two_timers))"
    by (simp add: two_timers_eq store_get_matured_def el_select_take_def is_ready_iff deadline_def
        duration_waker_new_def INSTANT_END_def entry_at_def)
  have "\<forall>w \<in> set [duration_waker_new (1::nat) 0 10]. deadline w < 50 \<and> deadline w < INSTANT_END"
    using matured_exactly_the_due [OF _ m, of 50 50] by blast
  then show ?thesis using m by (metis fst_conv list.set_intros(1))
qed

theorem min_duration_waits_for_all_witness:
  "\<exists>d. store_min_duration (\<lambda>_. 0) two_timers = Some d \<and> 90 \<le> d"
  using min_duration_waits_for_all [of "entry_at 1 0" two_timers "duration_waker_new 2 0 90" 0]
  by (auto simp: two_timers_eq el_get_def item_at_def deadline_def duration_waker_new_def INSTANT_END_def)

theorem wake_wakes_the_ready_witness:
  "sleepers_wake (\<lambda>_ w. is_ready 50 w) (\<lambda>w s. Some (dw_handle w # s)) (two_timers, [])
    = Some (snd (store_get_matured (\<lambda>_. 50) two_timers), [1])"
proof -
  have m: "sleepers_get_matured (\<lambda>_ w. is_ready 50 w) two_timers
      = (duration_waker_new 1 0 10 # [], snd (store_get_matured (\<lambda>_. 50) two_timers))"
    by (simp add: two_timers_eq store_get_matured_def sleepers_get_matured_def el_select_take_def is_ready_iff deadline_def
        duration_waker_new_def INSTANT_END_def entry_at_def)
  show ?thesis using wake_wakes_the_ready [OF m, of "\<lambda>w s. dw_handle w # s" "[]"]
    by (simp add: duration_waker_new_def)
qed

end
