(* ===== verification/WaitGroups.thy ===== *)
theory WaitGroups
  imports Interleave
begin

text \<open>
  Signals and wait groups of \<open>foundation_core/src/synca\<close>: the words of \<open>signals.rs\<close>, the \<open>LockSignal\<close> of
  \<open>event.rs\<close>, a state behind a mutex with a condition variable, and the \<open>WaitGroup\<close> of \<open>waitgroup.rs\<close>
  over it, as one system of threads.

  The mutex and the condition variable are those of the standard library. What a call does between
  taking the mutex and giving it up is one step; waiting gives up the mutex and starts to sleep in the
  same step. Who sleeps has a ticket, and may go on once a notification has removed it, or at any time
  for no reason.
\<close>

section \<open>Signals\<close>

definition SIG_UNSET :: u64 where "SIG_UNSET = 0"
definition SIG_SET :: u64 where "SIG_SET = 1"
definition SIG_SLEEPY :: u64 where "SIG_SLEEPY = 2"
definition SIG_SLEEPING :: u64 where "SIG_SLEEPING = 3"

definition compare_exchange :: "u64 \<Rightarrow> u64 \<Rightarrow> u64 \<Rightarrow> bool \<times> u64" where
  "compare_exchange old new w = (if w = old then (True, new) else (False, w))"

definition on_signal_new :: u64 where "on_signal_new = 0"

definition turn_off :: "u64 \<Rightarrow> bool \<times> u64" where
  "turn_off = compare_exchange SIG_SET SIG_UNSET"

definition turn_on :: "u64 \<Rightarrow> bool \<times> u64" where
  "turn_on = compare_exchange SIG_UNSET SIG_SET"

definition on_signal_probe :: "u64 \<Rightarrow> bool" where
  "on_signal_probe w \<longleftrightarrow> w = SIG_SET"

definition activity_new :: u64 where "activity_new = 0"

definition activity_wake_up :: "u64 \<Rightarrow> bool \<times> u64" where
  "activity_wake_up = compare_exchange SIG_SET SIG_UNSET"

definition make_asleep :: "u64 \<Rightarrow> bool \<times> u64" where
  "make_asleep = compare_exchange SIG_SLEEPY SIG_SLEEPING"

definition make_sleepy :: "u64 \<Rightarrow> bool \<times> u64" where
  "make_sleepy = compare_exchange SIG_UNSET SIG_SLEEPY"

definition become_paused :: "u64 \<Rightarrow> bool \<times> u64" where
  "become_paused = compare_exchange SIG_SLEEPING SIG_SET"

definition probe_sleepy :: "u64 \<Rightarrow> bool" where "probe_sleepy w \<longleftrightarrow> w = SIG_SLEEPY"
definition probe_asleep :: "u64 \<Rightarrow> bool" where "probe_asleep w \<longleftrightarrow> w = SIG_SLEEPING"
definition probe_paused :: "u64 \<Rightarrow> bool" where "probe_paused w \<longleftrightarrow> w = SIG_SET"

datatype activity = Make_sleepy | Make_asleep | Become_paused | Wake_up

fun activity_call :: "activity \<Rightarrow> u64 \<Rightarrow> bool \<times> u64" where
  "activity_call Make_sleepy w = make_sleepy w"
| "activity_call Make_asleep w = make_asleep w"
| "activity_call Become_paused w = become_paused w"
| "activity_call Wake_up w = activity_wake_up w"

text \<open>The calls that answered true, of calls made by any threads in this order.\<close>

fun activity_run :: "activity list \<Rightarrow> u64 \<Rightarrow> activity list" where
  "activity_run [] w = []"
| "activity_run (a # as) w =
     (case activity_call a w of (ok, w') \<Rightarrow> if ok then a # activity_run as w' else activity_run as w')"

section \<open>LockSignal\<close>

datatype lock_state = LS_Free | LS_Locked | LS_Released

datatype notify_directive = Notify_One | Notify_All

record lock_signal =
  ls_state :: lock_state
  ls_asleep :: "nat list"
  ls_ticket :: nat

definition ls_new :: lock_signal where
  "ls_new = \<lparr>ls_state = LS_Free, ls_asleep = [], ls_ticket = 0\<rparr>"

text \<open>\<open>signal\<close> is two steps. \<open>notify_one\<close> wakes one of the sleepers, the \<open>pick\<close>-th.\<close>

definition ls_release :: "lock_signal \<Rightarrow> lock_signal" where
  "ls_release s = s\<lparr>ls_state := LS_Released\<rparr>"

definition ls_notify :: "notify_directive \<Rightarrow> nat \<Rightarrow> lock_signal \<Rightarrow> lock_signal" where
  "ls_notify d pick s = (case d of
     Notify_One \<Rightarrow> s\<lparr>ls_asleep := take pick (ls_asleep s) @ drop (Suc pick) (ls_asleep s)\<rparr>
   | Notify_All \<Rightarrow> s\<lparr>ls_asleep := []\<rparr>)"

definition ls_probe :: "lock_signal \<Rightarrow> lock_state" where
  "ls_probe s = ls_state s"

definition ls_probe_locked :: "lock_signal \<Rightarrow> bool" where
  "ls_probe_locked s \<longleftrightarrow> ls_state s = LS_Locked"

definition ls_try_lock :: "lock_signal \<Rightarrow> bool \<times> lock_signal" where
  "ls_try_lock s = (if ls_state s = LS_Locked then (False, s) else (True, s\<lparr>ls_state := LS_Locked\<rparr>))"

definition ls_lock :: "lock_signal \<Rightarrow> lock_signal" where
  "ls_lock s = (if ls_state s \<noteq> LS_Locked then s\<lparr>ls_state := LS_Locked\<rparr> else s)"

text \<open>A round of the loop in \<open>wait\<close>, with the mutex: \<open>None\<close> when it returns, the ticket when it sleeps.\<close>

definition ls_wait_round :: "lock_signal \<Rightarrow> nat option \<times> lock_signal" where
  "ls_wait_round s = (case ls_state s of
     LS_Released \<Rightarrow> (None, s\<lparr>ls_state := LS_Free\<rparr>)
   | LS_Free \<Rightarrow> (None, s)
   | LS_Locked \<Rightarrow> (Some (ls_ticket s), s\<lparr>ls_asleep := ls_asleep s @ [ls_ticket s], ls_ticket := Suc (ls_ticket s)\<rparr>))"

definition ls_wait_enter :: "lock_signal \<Rightarrow> nat option \<times> lock_signal" where
  "ls_wait_enter s = (if ls_state s = LS_Free then (None, s) else ls_wait_round s)"

text \<open>What a sleeper does when it is given the chance to run.\<close>

definition ls_wait_resume :: "bool \<Rightarrow> nat \<Rightarrow> lock_signal \<Rightarrow> nat option \<times> lock_signal" where
  "ls_wait_resume spurious k s =
     (if k \<in> set (ls_asleep s) \<and> \<not> spurious then (Some k, s)
      else ls_wait_round (s\<lparr>ls_asleep := removeAll k (ls_asleep s)\<rparr>))"

section \<open>WaitGroup\<close>

record wait_group =
  wg_count :: u64
  wg_signal :: lock_signal

definition wait_group_new :: wait_group where
  "wait_group_new = \<lparr>wg_count = 0, wg_signal = ls_new\<rparr>"

definition wg_add :: "u64 \<Rightarrow> wait_group \<Rightarrow> wait_group" where
  "wg_add n s = s\<lparr>wg_count := wg_count s + n\<rparr>"

datatype wg_call = WG_Wait | WG_Add | WG_Guard | WG_Drop

record wg_choice =
  wc_call :: wg_call
  wc_spurious :: bool

text \<open>An agent is a call and what it leaves in the hands of a thread: a unit of work that \<open>add\<close> has counted and
  for which no guard is made yet, or a guard. An idle agent may call anything: \<open>wait\<close>, \<open>add(1)\<close>, but also
  \<open>guard\<close>, which counts nothing, and \<open>done\<close>; for a counted unit it may make the guard, or call \<open>done\<close>; a guard
  may be dropped.\<close>

datatype wg_place =
    WG_outside
  | WG_idle
  | WG_added            \<comment> \<open>counted by \<open>add\<close>, its guard not made\<close>
  | WG_guard
  | WG_release          \<comment> \<open>in \<open>signal_all\<close>, before the state is set\<close>
  | WG_notify
  | WG_load             \<comment> \<open>at the head of the loop in \<open>wait\<close>\<close>
  | WG_try_lock
  | WG_enter
  | WG_asleep nat

text \<open>\<open>done\<close>, up to where it signals.\<close>

definition wg_done :: "wait_group \<Rightarrow> wait_group \<times> wg_place" where
  "wg_done s = (s\<lparr>wg_count := wg_count s - 1\<rparr>, if wg_count s = 1 then WG_release else WG_idle)"

definition wg_after_wait :: "wait_group \<Rightarrow> nat option \<times> lock_signal \<Rightarrow> wait_group \<times> wg_place" where
  "wg_after_wait s r = (s\<lparr>wg_signal := snd r\<rparr>, case fst r of None \<Rightarrow> WG_load | Some k \<Rightarrow> WG_asleep k)"

fun wg_step :: "(wg_choice, wait_group, wg_place) steps" where
  "wg_step c s WG_outside = (s, WG_outside)"
| "wg_step c s WG_idle = (case wc_call c of
      WG_Wait \<Rightarrow> (s, WG_load) | WG_Add \<Rightarrow> (wg_add 1 s, WG_added) | WG_Guard \<Rightarrow> (s, WG_guard) | WG_Drop \<Rightarrow> wg_done s)"
| "wg_step c s WG_added = (case wc_call c of
      WG_Guard \<Rightarrow> (s, WG_guard) | WG_Drop \<Rightarrow> wg_done s | _ \<Rightarrow> (s, WG_added))"
| "wg_step c s WG_guard = (case wc_call c of WG_Drop \<Rightarrow> wg_done s | _ \<Rightarrow> (s, WG_guard))"
| "wg_step c s WG_release = (s\<lparr>wg_signal := ls_release (wg_signal s)\<rparr>, WG_notify)"
| "wg_step c s WG_notify = (s\<lparr>wg_signal := ls_notify Notify_All 0 (wg_signal s)\<rparr>, WG_idle)"
| "wg_step c s WG_load = (s, if wg_count s = 0 then WG_idle else WG_try_lock)"
| "wg_step c s WG_try_lock = (s\<lparr>wg_signal := snd (ls_try_lock (wg_signal s))\<rparr>, WG_enter)"
| "wg_step c s WG_enter = wg_after_wait s (ls_wait_enter (wg_signal s))"
| "wg_step c s (WG_asleep k) = wg_after_wait s (ls_wait_resume (wc_spurious c) k (wg_signal s))"

text \<open>A group after \<open>add(n)\<close>, with \<open>n\<close> threads that have yet to make their guards and \<open>m - n\<close> others.\<close>

definition wg_start :: "nat \<Rightarrow> nat \<Rightarrow> (wait_group, wg_place) system" where
  "wg_start m n = \<lparr>shared = wg_add (of_nat n) wait_group_new,
     agent = \<lambda>t. if t < n then WG_added else if t < m then WG_idle else WG_outside\<rparr>"

text \<open>A run in which every guard, and every \<open>done\<close>, goes with a unit that \<open>add\<close> has counted: no idle agent calls
  \<open>guard\<close> or \<open>done\<close> on its own.\<close>

definition paired :: "wg_choice \<Rightarrow> wg_place \<Rightarrow> bool" where
  "paired c p \<longleftrightarrow> p \<noteq> WG_idle \<or> wc_call c = WG_Wait \<or> wc_call c = WG_Add"

fun keeps_pairs :: "(nat \<times> wg_choice) list \<Rightarrow> (wait_group, wg_place) system \<Rightarrow> bool" where
  "keeps_pairs [] z \<longleftrightarrow> True"
| "keeps_pairs ((t, c) # cs) z \<longleftrightarrow> paired c (agent z t) \<and> keeps_pairs cs (agent_step wg_step t c z)"

section \<open>The cycle of activities\<close>

definition activity_cycle :: "activity list" where
  "activity_cycle = [Make_sleepy, Make_asleep, Become_paused, Wake_up]"

definition activity_words :: "u64 list" where
  "activity_words = [SIG_UNSET, SIG_SLEEPY, SIG_SLEEPING, SIG_SET]"

lemmas activity_defs = activity_words_def activity_cycle_def compare_exchange_def make_sleepy_def make_asleep_def
  become_paused_def activity_wake_up_def SIG_UNSET_def SIG_SET_def SIG_SLEEPY_def SIG_SLEEPING_def

lemma mod_4_cases:
  fixes j :: nat
  obtains "j mod 4 = 0" | "j mod 4 = 1" | "j mod 4 = 2" | "j mod 4 = 3"
proof -
  have "j mod 4 < 4" by simp
  then consider "j mod 4 = 0" | "j mod 4 = 1" | "j mod 4 = 2" | "j mod 4 = 3" by linarith
  then show thesis using that by cases
qed

lemma activity_call_cycle:
  "activity_call a (activity_words ! (j mod 4)) =
     (if a = activity_cycle ! (j mod 4) then (True, activity_words ! (Suc j mod 4))
      else (False, activity_words ! (j mod 4)))"
  by (rule mod_4_cases [of j]; cases a) (simp_all add: activity_defs mod_Suc)

lemma activity_run_cycle:
  "k < length (activity_run as (activity_words ! (j mod 4))) \<Longrightarrow>
     activity_run as (activity_words ! (j mod 4)) ! k = activity_cycle ! ((j + k) mod 4)"
proof (induction as arbitrary: j k)
  case (Cons a as)
  show ?case
  proof (cases "a = activity_cycle ! (j mod 4)")
    case True
    then have run: "activity_run (a # as) (activity_words ! (j mod 4)) = a # activity_run as (activity_words ! (Suc j mod 4))"
      by (simp add: activity_call_cycle)
    show ?thesis using Cons.IH [of "k - 1" "Suc j"] Cons.prems unfolding run
      by (cases k) (simp_all add: True)
  next
    case False
    then show ?thesis using Cons by (simp add: activity_call_cycle)
  qed
qed simp

section \<open>The invariant of a group\<close>

text \<open>The work that is counted: the guards, and the units whose guard is not made yet.\<close>

definition working :: "wg_place \<Rightarrow> bool" where
  "working p \<longleftrightarrow> p = WG_guard \<or> p = WG_added"

definition wg_inv :: "nat \<Rightarrow> (wait_group, wg_place) system \<Rightarrow> bool" where
  "wg_inv m z \<longleftrightarrow> (\<forall>t\<ge>m. agent z t = WG_outside) \<and> wg_count (shared z) = of_nat (card (agents working z))"

lemma wg_working_finite: "wg_inv m z \<Longrightarrow> finite (agents working z) \<and> card (agents working z) \<le> m"
proof -
  assume "wg_inv m z"
  then have "agents working z \<subseteq> {..<m}" by (force simp: wg_inv_def working_def not_less [symmetric])
  then show ?thesis using card_mono [of "{..<m}" "agents working z"] finite_subset by auto
qed

lemma wg_start_inv: "n \<le> m \<Longrightarrow> wg_inv m (wg_start m n)"
proof -
  have "agents working (wg_start m n) = {..<n}" by (auto simp: working_def wg_start_def split: if_splits)
  then show "n \<le> m \<Longrightarrow> wg_inv m (wg_start m n)"
    by (simp add: wg_inv_def) (simp add: wg_start_def wg_add_def wait_group_new_def)
qed

lemma wg_after_wait_place:
  "wg_after_wait s r = (s', l) \<Longrightarrow> \<not> working l \<and> l \<noteq> WG_outside \<and> wg_count s' = wg_count s"
  by (auto simp: wg_after_wait_def working_def split: option.splits)

lemma wg_step_count:
  assumes "wg_step c s p = (s', l)" "paired c p"
  shows "if working l = working p then wg_count s' = wg_count s
      else if working l then wg_count s' = wg_count s + 1 else wg_count s' = wg_count s - 1"
proof (cases p)
  case WG_idle
  then show ?thesis
    using assms by (cases "wc_call c") (auto simp: wg_add_def paired_def working_def)
next
  case WG_added
  then show ?thesis
    using assms by (cases "wc_call c") (auto simp: wg_done_def working_def split: if_splits)
next
  case WG_guard
  then show ?thesis
    using assms by (cases "wc_call c") (auto simp: wg_done_def working_def split: if_splits)
next
  case WG_enter
  then show ?thesis using assms(1) wg_after_wait_place [of s _ s' l] by (auto simp: working_def)
next
  case (WG_asleep k)
  then show ?thesis using assms(1) wg_after_wait_place [of s _ s' l] by (auto simp: working_def)
qed (use assms(1) in \<open>auto simp: working_def split: if_splits\<close>)

lemma wg_step_outside: "wg_step c s p = (s', l) \<Longrightarrow> p = WG_outside \<longleftrightarrow> l = WG_outside"
  by (cases p) (auto simp: wg_done_def dest: wg_after_wait_place split: wg_call.splits if_splits)

lemma wg_inv_step:
  assumes "wg_inv m z" "paired c (agent z t)" shows "wg_inv m (agent_step wg_step t c z)"
proof (rule agent_step_split)
  fix s l
  assume step: "wg_step c (shared z) (agent z t) = (s, l)"
  note inv = assms(1) [unfolded wg_inv_def]
  have "wg_count s = of_nat (card (agents working \<lparr>shared = s, agent = (agent z)(t := l)\<rparr>))"
    using wg_working_finite [OF assms(1)] inv wg_step_count [OF step assms(2)]
    by (intro count_update [where n = "wg_count (shared z)"]) auto
  then show "wg_inv m \<lparr>shared = s, agent = (agent z)(t := l)\<rparr>"
    using inv wg_step_outside [OF step] by (auto simp: wg_inv_def)
qed

lemma wg_inv_run: "wg_inv m z \<Longrightarrow> keeps_pairs cs z \<Longrightarrow> wg_inv m (run_schedule wg_step cs z)"
  by (induction cs arbitrary: z) (auto simp: wg_inv_step)

lemma wg_count_0:
  assumes "wg_inv m z" "m < 2 ^ 64"
  shows "wg_count (shared z) = 0 \<longleftrightarrow> (\<forall>u. \<not> working (agent z u))"
proof -
  have fin: "finite (agents working z)" "card (agents working z) < 2 ^ 64" using wg_working_finite [OF assms(1)] assms(2) by auto
  have "wg_count (shared z) = of_nat (card (agents working z))" using assms(1) by (simp add: wg_inv_def)
  then have "unat (wg_count (shared z)) = card (agents working z)" using fin(2) by (simp add: unat_of_nat_small)
  then have "wg_count (shared z) = 0 \<longleftrightarrow> agents working z = {}" using fin(1) by (metis card_0_eq unat_eq_zero)
  then show ?thesis by (auto simp: agents_def)
qed

section \<open>After the last guard\<close>

text \<open>The state when thread \<open>t\<close> has dropped the last guard and no thread had gone past the load of \<open>wait\<close>
  without falling asleep.\<close>

fun wg_quiet :: "wg_place \<Rightarrow> bool" where
  "wg_quiet WG_outside = True"
| "wg_quiet WG_idle = True"
| "wg_quiet WG_load = True"
| "wg_quiet (WG_asleep k) = True"
| "wg_quiet _ = False"

definition released_inv :: "nat \<Rightarrow> (wait_group, wg_place) system \<Rightarrow> bool" where
  "released_inv t z \<longleftrightarrow> wg_count (shared z) = 0
     \<and> (\<forall>u. wg_quiet (agent z u) \<or> u = t \<and> agent z u \<in> {WG_release, WG_notify})
     \<and> (agent z t \<noteq> WG_release \<longrightarrow> ls_state (wg_signal (shared z)) \<noteq> LS_Locked)
     \<and> (wg_quiet (agent z t) \<longrightarrow> (\<forall>u k. agent z u = WG_asleep k \<longrightarrow> k \<notin> set (ls_asleep (wg_signal (shared z)))))"

lemma ls_wait_round_cases:
  "ls_state s \<noteq> LS_Locked \<Longrightarrow> ls_wait_round s = (None, s\<lparr>ls_state := LS_Free\<rparr>)"
  "ls_state s = LS_Locked \<Longrightarrow> ls_wait_round s =
     (Some (ls_ticket s), s\<lparr>ls_asleep := ls_asleep s @ [ls_ticket s], ls_ticket := Suc (ls_ticket s)\<rparr>)"
  by (cases s; cases "ls_state s"; simp add: ls_wait_round_def)+

lemma released_inv_upd:
  assumes "released_inv t z" "wg_count s = 0" "wg_quiet l \<or> u = t \<and> l \<in> {WG_release, WG_notify}"
    and "(if u = t then l else agent z t) \<noteq> WG_release \<Longrightarrow> ls_state (wg_signal s) \<noteq> LS_Locked"
    and "wg_quiet (if u = t then l else agent z t) \<Longrightarrow>
      ls_asleep (wg_signal s) = [] \<or> wg_quiet (agent z t) \<and> (\<forall>k. l \<noteq> WG_asleep k \<or> k \<notin> set (ls_asleep (wg_signal s)))
        \<and> set (ls_asleep (wg_signal s)) \<subseteq> set (ls_asleep (wg_signal (shared z)))"
  shows "released_inv t \<lparr>shared = s, agent = (agent z)(u := l)\<rparr>"
  unfolding released_inv_def
proof (intro conjI impI allI)
  note inv = assms(1) [unfolded released_inv_def]
  fix v k
  let ?z = "\<lparr>shared = s, agent = (agent z)(u := l)\<rparr>"
  show "wg_quiet (agent ?z v) \<or> v = t \<and> agent ?z v \<in> {WG_release, WG_notify}"
    using inv assms(3) by simp
  show "agent ?z t \<noteq> WG_release \<Longrightarrow> ls_state (wg_signal (shared ?z)) \<noteq> LS_Locked"
    using assms(4) by (simp split: if_splits)
  assume q: "wg_quiet (agent ?z t)" and v: "agent ?z v = WG_asleep k"
  have "wg_quiet (if u = t then l else agent z t)" using q by (simp split: if_splits)
  from assms(5) [OF this] show "k \<notin> set (ls_asleep (wg_signal (shared ?z)))"
  proof (elim disjE conjE)
    assume "wg_quiet (agent z t)" "\<forall>k. l \<noteq> WG_asleep k \<or> k \<notin> set (ls_asleep (wg_signal s))"
      "set (ls_asleep (wg_signal s)) \<subseteq> set (ls_asleep (wg_signal (shared z)))"
    then show ?thesis using inv v by (cases "v = u") auto
  qed simp
qed (simp add: assms(2))

lemma released_step_sleeper:
  assumes "released_inv t z" "agent z u = WG_asleep k"
  shows "released_inv t (agent_step wg_step u c z)"
proof (rule agent_step_split)
  fix s l
  let ?s = "wg_signal (shared z)"
  let ?r = "?s\<lparr>ls_asleep := removeAll k (ls_asleep ?s)\<rparr>"
  assume step: "wg_step c (shared z) (agent z u) = (s, l)"
  note inv = assms(1) [unfolded released_inv_def]
  have lock: "agent z t \<noteq> WG_release \<Longrightarrow> ls_state ?s \<noteq> LS_Locked" "wg_count (shared z) = 0" using inv by blast+
  have asleep: "wg_quiet (agent z t) \<Longrightarrow> k \<notin> set (ls_asleep ?s)" using inv assms(2) by blast
  consider "k \<in> set (ls_asleep ?s)" "\<not> wc_spurious c"
    | "k \<notin> set (ls_asleep ?s) \<or> wc_spurious c" "ls_state ?s \<noteq> LS_Locked"
    | "k \<notin> set (ls_asleep ?s) \<or> wc_spurious c" "ls_state ?s = LS_Locked" by blast
  then show "released_inv t \<lparr>shared = s, agent = (agent z)(u := l)\<rparr>"
  proof cases
    case 1
    then have "ls_wait_resume (wc_spurious c) k ?s = (Some k, ?s)" by (simp add: ls_wait_resume_def)
    then have "(s, l) = ((shared z)\<lparr>wg_signal := ?s\<rparr>, WG_asleep k)"
      using step unfolding assms(2) by (simp add: wg_after_wait_def)
    then have "s = shared z" "l = WG_asleep k" by simp_all
    then show ?thesis using lock asleep 1 assms(2) by (intro released_inv_upd [OF assms(1)]) (auto split: if_splits)
  next
    case 2
    then have "ls_wait_resume (wc_spurious c) k ?s = (None, ?r\<lparr>ls_state := LS_Free\<rparr>)"
      by (subst ls_wait_round_cases(1) [symmetric]) (auto simp: ls_wait_resume_def)
    then have "s = (shared z)\<lparr>wg_signal := ?r\<lparr>ls_state := LS_Free\<rparr>\<rparr>" "l = WG_load"
      using step assms(2) by (simp_all add: wg_after_wait_def)
    then show ?thesis using lock assms(2) by (intro released_inv_upd [OF assms(1)]) (auto split: if_splits)
  next
    case 3
    then have t: "agent z t = WG_release" using lock by blast
    then have "u \<noteq> t" using assms(2) by auto
    moreover have "wg_count s = 0" "wg_quiet l"
      using step assms(2) lock(2) by (auto simp: wg_after_wait_def split: option.splits)
    ultimately show ?thesis using t by (intro released_inv_upd [OF assms(1)]) auto
  qed
qed

lemma released_inv_step:
  assumes "released_inv t z" "wc_call c \<noteq> WG_Add" "paired c (agent z u)"
  shows "released_inv t (agent_step wg_step u c z)"
proof (cases "\<exists>k. agent z u = WG_asleep k")
  case True
  then show ?thesis using released_step_sleeper [OF assms(1)] by blast
next
  case False
  note inv = assms(1) [unfolded released_inv_def]
  have lock: "agent z t \<noteq> WG_release \<Longrightarrow> ls_state (wg_signal (shared z)) \<noteq> LS_Locked" "wg_count (shared z) = 0"
    "wg_quiet (agent z u) \<or> u = t \<and> agent z u \<in> {WG_release, WG_notify}"
    using inv by blast+
  show ?thesis
  proof (rule agent_step_split, rule released_inv_upd [OF assms(1)])
    fix s l
    assume step: "wg_step c (shared z) (agent z u) = (s, l)"
    show "wg_count s = 0" "wg_quiet l \<or> u = t \<and> l \<in> {WG_release, WG_notify}"
      using step lock(2,3) assms(2,3) False by (cases "agent z u"; auto simp: paired_def split: wg_call.splits)+
    show "(if u = t then l else agent z t) \<noteq> WG_release \<Longrightarrow> ls_state (wg_signal s) \<noteq> LS_Locked"
      using step lock assms(2,3) False
      by (cases "agent z u") (auto simp: paired_def ls_release_def ls_notify_def split: wg_call.splits if_splits)
    show "wg_quiet (if u = t then l else agent z t) \<Longrightarrow>
        ls_asleep (wg_signal s) = [] \<or> wg_quiet (agent z t) \<and> (\<forall>k. l \<noteq> WG_asleep k \<or> k \<notin> set (ls_asleep (wg_signal s)))
          \<and> set (ls_asleep (wg_signal s)) \<subseteq> set (ls_asleep (wg_signal (shared z)))"
      using step lock(2,3) assms(2,3) False
      by (cases "agent z u") (auto simp: paired_def ls_release_def ls_notify_def split: wg_call.splits if_splits)
  qed
qed

lemma released_inv_run:
  "released_inv t z \<Longrightarrow> \<forall>(u, c) \<in> set cs. wc_call c \<noteq> WG_Add \<Longrightarrow> keeps_pairs cs z \<Longrightarrow> released_inv t (run_schedule wg_step cs z)"
  by (induction cs arbitrary: z) (auto simp: released_inv_step)

lemma released_sleeper_returns:
  assumes "released_inv t z" "wg_quiet (agent z t)" "agent z u = WG_asleep k"
  shows "agent (run_schedule wg_step [(u, c), (u, d)] z) u = WG_idle"
proof -
  let ?s = "wg_signal (shared z)"
  have "k \<notin> set (ls_asleep ?s)" "ls_state ?s \<noteq> LS_Locked" and n: "wg_count (shared z) = 0"
    using assms unfolding released_inv_def by (blast, force, blast)
  then have "wg_step c (shared z) (agent z u) = ((shared z)\<lparr>wg_signal := ?s\<lparr>ls_state := LS_Free\<rparr>\<rparr>, WG_load)"
    by (simp add: assms(3) wg_after_wait_def ls_wait_resume_def ls_wait_round_cases(1))
  then show ?thesis using n by (simp add: agent_step_def)
qed

lemma released_inv_drop:
  assumes "wg_inv m z" "agent z t = WG_guard" "\<And>u. u \<noteq> t \<Longrightarrow> wg_quiet (agent z u)" "wc_call c = WG_Drop"
  shows "released_inv t (agent_step wg_step t c z)"
proof -
  have "working (agent z u) \<longleftrightarrow> u = t" for u using assms(2) assms(3) [of u] by (cases "u = t") (auto simp: working_def)
  then have "agents working z = {t}" by (simp add: agents_def)
  then have n: "wg_count (shared z) = 1" using assms(1) by (simp add: wg_inv_def)
  have "agent_step wg_step t c z = \<lparr>shared = (shared z)\<lparr>wg_count := 0\<rparr>, agent = (agent z)(t := WG_release)\<rparr>"
    using assms(2,4) n by (simp add: agent_step_def wg_done_def)
  then show ?thesis using assms(3) by (simp add: released_inv_def)
qed

section \<open>The lost wakeup\<close>

text \<open>Thread 0 makes the guard of the one unit of work. Thread 1 loads the count; thread 0 drops it and signals; only then does
  thread 1 lock the signal and go to sleep.\<close>

definition lost_wakeup :: "(nat \<times> wg_choice) list" where
  "lost_wakeup =
     (let c = \<lambda>a. \<lparr>wc_call = a, wc_spurious = False\<rparr> in
      [(0, c WG_Guard), (1, c WG_Wait), (1, c WG_Wait), (0, c WG_Drop), (0, c WG_Drop), (0, c WG_Drop),
       (1, c WG_Wait), (1, c WG_Wait)])"

definition asleep_for_good :: "(wait_group, wg_place) system" where
  "asleep_for_good = \<lparr>shared = \<lparr>wg_count = 0, wg_signal = \<lparr>ls_state = LS_Locked, ls_asleep = [0], ls_ticket = 1\<rparr>\<rparr>,
     agent = \<lambda>t. if t = 0 then WG_idle else if t = 1 then WG_asleep 0 else WG_outside\<rparr>"

lemma lost_wakeup_run: "run_schedule wg_step lost_wakeup (wg_start 2 1) = asleep_for_good"
  by (simp add: lost_wakeup_def wg_start_def wg_add_def wait_group_new_def ls_new_def agent_step_at wg_done_def
      ls_release_def ls_notify_def ls_try_lock_def ls_wait_enter_def ls_wait_round_def wg_after_wait_def
      asleep_for_good_def fun_eq_iff)

definition stuck :: "(wait_group, wg_place) system \<Rightarrow> bool" where
  "stuck z \<longleftrightarrow> shared z = shared asleep_for_good \<and> agent z 1 = WG_asleep 0
     \<and> (\<forall>t. t \<noteq> 1 \<longrightarrow> agent z t \<in> {WG_idle, WG_load, WG_outside})"

lemma stuck_step:
  assumes "stuck z" "wc_call c \<noteq> WG_Add" "\<not> wc_spurious c" "paired c (agent z t)"
  shows "stuck (agent_step wg_step t c z)"
proof (rule agent_step_split)
  fix s l
  assume step: "wg_step c (shared z) (agent z t) = (s, l)"
  have s: "shared z = shared asleep_for_good" using assms(1) by (simp add: stuck_def)
  have "s = shared z \<and> (if t = 1 then l = WG_asleep 0 else l \<in> {WG_idle, WG_load, WG_outside})"
  proof (cases "t = 1")
    case True
    then have "agent z t = WG_asleep 0" using assms(1) by (simp add: stuck_def)
    then show ?thesis using step True assms(3)
      by (simp add: s asleep_for_good_def wg_after_wait_def ls_wait_resume_def)
  next
    case False
    then have "agent z t \<in> {WG_idle, WG_load, WG_outside}" using assms(1) by (simp add: stuck_def)
    then show ?thesis using step False assms(2,4)
      by (auto simp: s asleep_for_good_def paired_def split: wg_call.splits)
  qed
  then show "stuck \<lparr>shared = s, agent = (agent z)(t := l)\<rparr>" using assms(1) by (auto simp: stuck_def)
qed

lemma stuck_run:
  "stuck z \<Longrightarrow> \<forall>(t, c) \<in> set cs. wc_call c \<noteq> WG_Add \<and> \<not> wc_spurious c \<Longrightarrow> keeps_pairs cs z \<Longrightarrow>
    stuck (run_schedule wg_step cs z)"
  by (induction cs arbitrary: z) (auto simp: stuck_step)

section \<open>Properties\<close>

text \<open>An activity signal goes round. Whatever threads call on it, the calls that succeed are make_sleepy,
  make_asleep, become_paused and wake_up, in this order and over again.\<close>

theorem activity_signal_cycles:
  assumes "k < length (activity_run as activity_new)"
  shows "activity_run as activity_new ! k = [Make_sleepy, Make_asleep, Become_paused, Wake_up] ! (k mod 4)"
  using activity_run_cycle [of k as 0] assms
  by (simp add: activity_words_def activity_cycle_def activity_new_def SIG_UNSET_def)

text \<open>C23: a wait ends only when the work is done. In every interleaving in which each guard goes with a unit of
  work that \<open>add\<close> has counted, the step in which a thread returns from \<open>wait\<close> is one where no guard is left and no
  counted unit waits for its guard, however many were added meanwhile.\<close>

theorem wait_returns_without_guards:
  assumes "z = run_schedule wg_step cs (wg_start m n)" "keeps_pairs cs (wg_start m n)" "n \<le> m" "m < 2 ^ 64"
    and "agent z t = WG_load" "agent (agent_step wg_step t c z) t = WG_idle"
  shows "\<forall>u. agent z u \<noteq> WG_guard \<and> agent z u \<noteq> WG_added"
proof -
  have "wg_inv m z" unfolding assms(1) by (rule wg_inv_run [OF wg_start_inv [OF assms(3)] assms(2)])
  moreover have "wg_count (shared z) = 0" using assms(5,6) by (simp add: agent_step_def split: if_splits)
  ultimately show ?thesis using wg_count_0 [OF _ assms(4)] by (simp add: working_def)
qed

text \<open>The pairing is needed. \<open>guard\<close> counts nothing, so the drop of a guard made without a unit of its own takes off
  another's, and a wait returns while that other still has its guard.\<close>

theorem uncounted_guard_ends_the_wait:
  "\<exists>cs c. agent (run_schedule wg_step cs (wg_start 3 1)) 0 = WG_guard
    \<and> agent (run_schedule wg_step cs (wg_start 3 1)) 2 = WG_load
    \<and> agent (agent_step wg_step 2 c (run_schedule wg_step cs (wg_start 3 1))) 2 = WG_idle"
proof -
  let ?c = "\<lambda>a. \<lparr>wc_call = a, wc_spurious = False\<rparr>"
  have "agent (run_schedule wg_step [(0, ?c WG_Guard), (1, ?c WG_Guard), (1, ?c WG_Drop), (2, ?c WG_Wait)] (wg_start 3 1))
      = (\<lambda>t. if t = 0 then WG_guard else if t = 1 then WG_release else if t = 2 then WG_load else WG_outside)"
    "wg_count (shared (run_schedule wg_step [(0, ?c WG_Guard), (1, ?c WG_Guard), (1, ?c WG_Drop), (2, ?c WG_Wait)] (wg_start 3 1))) = 0"
    by (simp_all add: wg_start_def wg_add_def wait_group_new_def agent_step_at wg_done_def fun_eq_iff)
  then show ?thesis
    by (intro exI [of _ "[(0, ?c WG_Guard), (1, ?c WG_Guard), (1, ?c WG_Drop), (2, ?c WG_Wait)]"] exI [of _ "?c WG_Wait"])
      (simp add: agent_step_def del: run_schedule.simps)
qed

text \<open>C24: sleepers are released. In a run in which each guard goes with a unit that \<open>add\<close> has counted, if every
  thread that waits is asleep, or has not yet loaded the count, when the last guard is dropped and no unit waits for
  its guard, then once that drop has returned every sleeper is out of \<open>wait\<close> after two
  steps of its own, whatever the others have done meanwhile short of adding work.\<close>

theorem last_done_releases_sleepers:
  assumes "z0 = run_schedule wg_step bs (wg_start m n)" "keeps_pairs bs (wg_start m n)" "n \<le> m"
    and "agent z0 t = WG_guard" "\<And>u. u \<noteq> t \<Longrightarrow> wg_quiet (agent z0 u)" "wc_call c = WG_Drop"
    and "\<forall>(u, c) \<in> set cs. wc_call c \<noteq> WG_Add" "keeps_pairs cs (agent_step wg_step t c z0)"
    and "z = run_schedule wg_step cs (agent_step wg_step t c z0)"
    and "wg_quiet (agent z t)" "agent z u = WG_asleep k"
  shows "agent (run_schedule wg_step [(u, d), (u, e)] z) u = WG_idle"
proof (rule released_sleeper_returns)
  have "wg_inv m z0" unfolding assms(1) by (rule wg_inv_run [OF wg_start_inv [OF assms(3)] assms(2)])
  then have "released_inv t (agent_step wg_step t c z0)" by (rule released_inv_drop [OF _ assms(4-6)])
  then show "released_inv t z" unfolding assms(9) using assms(7,8) by (rule released_inv_run)
qed (fact assms)+

text \<open>A wakeup can be lost. There is a schedule of one guard and one waiter after which the guard is gone,
  the count is 0 and the waiter sleeps; and unless work is added or it is woken for no reason, it sleeps
  through everything that is done then.\<close>

theorem wait_group_loses_wakeup:
  assumes "\<forall>(t, c) \<in> set cs. wc_call c \<noteq> WG_Add \<and> \<not> wc_spurious c" "keeps_pairs cs asleep_for_good"
    and "z = run_schedule wg_step (lost_wakeup @ cs) (wg_start 2 1)"
  shows "wg_count (shared z) = 0 \<and> (\<forall>u. agent z u \<noteq> WG_guard) \<and> agent z 1 = WG_asleep 0"
proof -
  have "stuck asleep_for_good" by (simp add: stuck_def) (simp add: asleep_for_good_def)
  then have "stuck z"
    unfolding assms(3) run_schedule_append lost_wakeup_run by (rule stuck_run [OF _ assms(1,2)])
  then show ?thesis unfolding stuck_def by (auto simp: asleep_for_good_def) (metis wg_place.distinct)+
qed

section \<open>Witnesses\<close>

theorem activity_signal_cycles_witness:
  "activity_run [Make_sleepy, Wake_up, Make_asleep] activity_new ! 1 = Make_asleep"
  using activity_signal_cycles [of 1 "[Make_sleepy, Wake_up, Make_asleep]"]
  by (simp add: activity_new_def compare_exchange_def make_sleepy_def make_asleep_def activity_wake_up_def
      SIG_UNSET_def SIG_SET_def SIG_SLEEPY_def SIG_SLEEPING_def)

definition plain :: "wg_call \<Rightarrow> wg_choice" where
  "plain a = \<lparr>wc_call = a, wc_spurious = False\<rparr>"

lemmas wg_run_defs = plain_def wg_start_def wg_add_def wait_group_new_def ls_new_def agent_step_at wg_done_def
  ls_release_def ls_notify_def ls_try_lock_def ls_wait_enter_def ls_wait_round_def ls_wait_resume_def wg_after_wait_def

theorem wait_returns_without_guards_witness:
  "\<forall>u. agent (run_schedule wg_step [(0, plain WG_Guard), (0, plain WG_Drop), (1, plain WG_Wait)] (wg_start 2 1)) u \<noteq> WG_guard
     \<and> agent (run_schedule wg_step [(0, plain WG_Guard), (0, plain WG_Drop), (1, plain WG_Wait)] (wg_start 2 1)) u \<noteq> WG_added"
proof (rule wait_returns_without_guards [OF refl])
  let ?z = "run_schedule wg_step [(0, plain WG_Guard), (0, plain WG_Drop), (1, plain WG_Wait)] (wg_start 2 1)"
  show "agent ?z 1 = WG_load" "agent (agent_step wg_step 1 (plain WG_Wait) ?z) 1 = WG_idle"
    by (simp_all add: wg_run_defs)
  show "keeps_pairs [(0, plain WG_Guard), (0, plain WG_Drop), (1, plain WG_Wait)] (wg_start 2 1)"
    by (simp add: wg_run_defs paired_def)
qed simp_all

definition waiting :: "(nat \<times> wg_choice) list" where
  "waiting = (0, plain WG_Guard) # replicate 4 (1, plain WG_Wait)"

theorem last_done_releases_sleepers_witness:
  "agent (run_schedule wg_step [(1, plain WG_Wait), (1, plain WG_Wait)]
     (run_schedule wg_step [(0, plain WG_Wait), (0, plain WG_Wait)]
       (agent_step wg_step 0 (plain WG_Drop) (run_schedule wg_step waiting (wg_start 2 1))))) 1
   = WG_idle"
proof (rule last_done_releases_sleepers [OF refl, where m = 2 and n = 1 and t = 0 and k = 0
      and c = "plain WG_Drop" and cs = "[(0, plain WG_Wait), (0, plain WG_Wait)]"])
  let ?z = "run_schedule wg_step waiting (wg_start 2 1)"
  have z: "?z = \<lparr>shared = \<lparr>wg_count = 1, wg_signal = \<lparr>ls_state = LS_Locked, ls_asleep = [0], ls_ticket = 1\<rparr>\<rparr>,
      agent = (\<lambda>t. if t = 0 then WG_guard else if t = 1 then WG_asleep 0 else WG_outside)\<rparr>"
    by (simp add: waiting_def eval_nat_numeral wg_run_defs fun_eq_iff)
  show "keeps_pairs waiting (wg_start 2 1)" by (simp add: waiting_def eval_nat_numeral wg_run_defs paired_def)
  show "agent ?z 0 = WG_guard" "\<And>u. u \<noteq> 0 \<Longrightarrow> wg_quiet (agent ?z u)" unfolding z by simp_all
  show "wg_quiet (agent (run_schedule wg_step [(0, plain WG_Wait), (0, plain WG_Wait)]
      (agent_step wg_step 0 (plain WG_Drop) ?z)) 0)"
    "agent (run_schedule wg_step [(0, plain WG_Wait), (0, plain WG_Wait)]
      (agent_step wg_step 0 (plain WG_Drop) ?z)) 1 = WG_asleep 0"
    "keeps_pairs [(0, plain WG_Wait), (0, plain WG_Wait)] (agent_step wg_step 0 (plain WG_Drop) ?z)"
    unfolding z by (simp_all add: wg_run_defs paired_def)
qed (simp_all add: plain_def)

theorem wait_group_loses_wakeup_witness:
  "agent (run_schedule wg_step (lost_wakeup @ [(0, plain WG_Wait), (1, plain WG_Wait), (0, plain WG_Wait)])
     (wg_start 2 1)) 1 = WG_asleep 0"
  using wait_group_loses_wakeup [OF _ _ refl, of "[(0, plain WG_Wait), (1, plain WG_Wait), (0, plain WG_Wait)]"]
  by (simp add: plain_def paired_def)

end
