(* ===== verification/Channels.thy ===== *)
theory Channels
  imports Prelude
begin

text \<open>
  The channel ends of \<open>foundation_core/src/synca/mpp.rs\<close>, over the queue of the crate
  \<open>concurrent_queue\<close>. The queue is not modelled: what the calls of \<open>pop\<close> return, one after the other and
  for as long as is looked at, is an argument, with what \<open>elapsed\<close> reads after each of them; \<open>None\<close> says that
  the receiver is still in its loop when that ends.
\<close>

datatype pop_error = Pop_Empty | Pop_Closed

datatype receiver_error = RE_Timeout | RE_Empty | RE_Closed pop_error

datatype 'a push_error = Push_Full 'a | Push_Closed 'a

datatype 'a sender_error = SE_Full 'a | SE_Closed 'a

type_synonym 'a popped = "(pop_error, 'a) result"

fun receiver_is_timeout :: "receiver_error \<Rightarrow> bool" where
  "receiver_is_timeout RE_Timeout = True"
| "receiver_is_timeout _ = False"

section \<open>Receivers\<close>

fun chan_recv :: "'a popped \<Rightarrow> (receiver_error, 'a) result" where
  "chan_recv (Ok v) = Ok v"
| "chan_recv (Err Pop_Empty) = Err RE_Empty"
| "chan_recv (Err Pop_Closed) = Err (RE_Closed Pop_Closed)"
| "chan_recv Panic = Panic"

fun recv_timeout :: "nat \<Rightarrow> ('a popped \<times> nat) list \<Rightarrow> (receiver_error, 'a) result option" where
  "recv_timeout remaining [] = None"
| "recv_timeout remaining ((p, elapsed) # rs) =
     (case p of
        Ok v \<Rightarrow> Some (Ok v)
      | Err Pop_Empty \<Rightarrow>
          if elapsed \<ge> remaining then Some (Err RE_Timeout) else recv_timeout (remaining - elapsed) rs
      | Err Pop_Closed \<Rightarrow> Some (Err (RE_Closed Pop_Closed))
      | Panic \<Rightarrow> Some Panic)"

text \<open>With what is left of the pops. The flag says whether the next round only yields, and parking
  takes no part in the result.\<close>

fun block_recv :: "bool \<Rightarrow> 'a popped list \<Rightarrow> ((receiver_error, 'a) result \<times> 'a popped list) option" where
  "block_recv yield_now [] = None"
| "block_recv yield_now (p # ps) =
     (case p of
        Ok v \<Rightarrow> Some (Ok v, ps)
      | Err Pop_Empty \<Rightarrow> if yield_now then block_recv False ps else block_recv True ps
      | Err Pop_Closed \<Rightarrow> Some (Err (RE_Closed Pop_Closed), ps)
      | Panic \<Rightarrow> Some (Panic, ps))"

text \<open>\<open>RecvIterator::next\<close>, and a loop over the iterator.\<close>

definition recv_iterator_next :: "'a popped list \<Rightarrow> ('a option \<times> 'a popped list) option" where
  "recv_iterator_next ps =
     map_option (\<lambda>(r, ps'). (case r of Ok v \<Rightarrow> Some v | _ \<Rightarrow> None, ps')) (block_recv False ps)"

lemma block_recv_shorter: "block_recv y ps = Some (r, ps') \<Longrightarrow> length ps' < length ps"
  by (induction y ps rule: block_recv.induct)
    (fastforce split: result.splits pop_error.splits if_splits)+

lemma recv_iterator_next_shorter: "recv_iterator_next ps = Some (r, ps') \<Longrightarrow> length ps' < length ps"
  by (auto simp: recv_iterator_next_def dest: block_recv_shorter)

function recv_collect :: "'a popped list \<Rightarrow> 'a list option" where
  "recv_collect ps =
     (case recv_iterator_next ps of
        None \<Rightarrow> None
      | Some (None, _) \<Rightarrow> Some []
      | Some (Some v, ps') \<Rightarrow> map_option ((#) v) (recv_collect ps'))"
  by auto

termination
  by (relation "measure length") (auto dest: recv_iterator_next_shorter)

declare recv_collect.simps [simp del]

section \<open>Senders\<close>

fun chan_send :: "('a push_error, unit) result \<Rightarrow> ('a sender_error, unit) result" where
  "chan_send (Ok ()) = Ok ()"
| "chan_send (Err (Push_Full v)) = Err (SE_Full v)"
| "chan_send (Err (Push_Closed v)) = Err (SE_Closed v)"
| "chan_send Panic = Panic"

fun chan_force_send :: "('a, 'a option) result \<Rightarrow> ('a sender_error, 'a option) result" where
  "chan_force_send (Ok v) = Ok v"
| "chan_force_send (Err v) = Err (SE_Closed v)"
| "chan_force_send Panic = Panic"

section \<open>What is received\<close>

fun received :: "'a popped list \<Rightarrow> 'a list" where
  "received [] = []"
| "received (Ok v # ps) = v # received ps"
| "received (_ # ps) = received ps"

lemma block_recv_open:
  "set ps \<subseteq> range Ok \<union> {Err Pop_Empty} \<Longrightarrow>
     block_recv y (ps @ Err Pop_Closed # qs) =
       (case received ps of
          [] \<Rightarrow> Some (Err (RE_Closed Pop_Closed), qs)
        | v # _ \<Rightarrow> Some (Ok v, tl (dropWhile (\<lambda>p. p = Err Pop_Empty) ps) @ Err Pop_Closed # qs))"
  by (induction ps arbitrary: y) (auto split: list.splits)

lemma received_drop:
  "set ps \<subseteq> range Ok \<union> {Err Pop_Empty} \<Longrightarrow> received ps = v # vs \<Longrightarrow>
     received (tl (dropWhile (\<lambda>p. p = Err Pop_Empty) ps)) = vs"
  by (induction ps) auto

lemma tl_dropWhile_subset: "set (tl (dropWhile P ps)) \<subseteq> set ps"
  by (induction ps) auto

lemma recv_collect_received:
  assumes "set ps \<subseteq> range Ok \<union> {Err Pop_Empty}"
  shows "recv_collect (ps @ Err Pop_Closed # qs) = Some (received ps)"
  using assms
proof (induction "received ps" arbitrary: ps)
  case Nil
  then show ?case
    using block_recv_open [OF Nil(2), of False qs] by (simp add: recv_collect.simps [of "ps @ _"] recv_iterator_next_def)
next
  case (Cons v vs)
  let ?ps = "tl (dropWhile (\<lambda>p. p = Err Pop_Empty) ps)"
  have "received ?ps = vs" by (rule received_drop [OF Cons(3) Cons(2) [symmetric]])
  moreover have "set ?ps \<subseteq> range Ok \<union> {Err Pop_Empty}" using tl_dropWhile_subset Cons(3) by (rule order_trans)
  ultimately have "recv_collect (?ps @ Err Pop_Closed # qs) = Some vs" using Cons(1) [of ?ps] by simp
  then show ?case
    using block_recv_open [OF Cons(3), of False qs] Cons(2) [symmetric]
    by (simp add: recv_collect.simps [of "ps @ _"] recv_iterator_next_def)
qed

lemma recv_timeout_empty:
  "\<forall>(p, e) \<in> set rs. p = Err Pop_Empty \<Longrightarrow>
     recv_timeout d rs = Some (Err RE_Timeout) \<longleftrightarrow> (\<exists>k < length rs. d \<le> sum_list (map snd (take (Suc k) rs)))"
proof (induction d rs rule: recv_timeout.induct)
  case (2 d p e rs)
  show ?case
  proof (cases "d \<le> e")
    case True
    then show ?thesis using 2 by (auto intro!: exI [of _ 0])
  next
    case False
    then have "recv_timeout d ((p, e) # rs) = recv_timeout (d - e) rs" using 2(2) by simp
    moreover have "(\<exists>k < length ((p, e) # rs). d \<le> sum_list (map snd (take (Suc k) ((p, e) # rs))))
        \<longleftrightarrow> (\<exists>k < length rs. d - e \<le> sum_list (map snd (take (Suc k) rs)))"
      using False by (auto simp: Ex_less_Suc2 le_diff_conv ac_simps)
    ultimately show ?thesis using 2 False by simp
  qed
qed simp

section \<open>Properties\<close>

text \<open>A loop over a receiver's iterator gets, in order, every value the queue gives out before it is
  closed, and ends then.\<close>

theorem receiver_iterates_to_close:
  assumes "set ps \<subseteq> range Ok \<union> {Err Pop_Empty}"
  shows "recv_collect (ps @ Err Pop_Closed # qs) = Some (received ps)"
  using assms by (rule recv_collect_received)

text \<open>\<open>recv_timeout\<close> on a queue that stays empty gives up at the first round at which the readings of the
  elapsed time add up to the duration: each reading is the time since the start and is taken off once
  more, so that with early returns from parking it gives up before the duration is over.\<close>

theorem recv_timeout_adds_readings:
  assumes "\<forall>(p, e) \<in> set rs. p = Err Pop_Empty"
  shows "recv_timeout dur rs = Some (Err RE_Timeout)
    \<longleftrightarrow> (\<exists>k < length rs. dur \<le> sum_list (map snd (take (Suc k) rs)))"
  using assms by (rule recv_timeout_empty)

section \<open>Witnesses\<close>

theorem receiver_iterates_to_close_witness:
  "recv_collect [Err Pop_Empty, Ok (4::nat), Err Pop_Empty, Err Pop_Empty, Ok 5, Err Pop_Closed] = Some [4, 5]"
  using receiver_iterates_to_close [of "[Err Pop_Empty, Ok (4::nat), Err Pop_Empty, Err Pop_Empty, Ok 5]" "[]"] by simp

theorem recv_timeout_adds_readings_witness:
  "recv_timeout 100 [(Err Pop_Empty, 0), (Err Pop_Empty, 40), (Err Pop_Empty, 60 :: nat)] = Some (Err RE_Timeout :: (_, nat) result)"
proof -
  have "\<exists>k<3. (100::nat) \<le> sum_list (map snd (take (Suc k) [(Err Pop_Empty, 0), (Err Pop_Empty, 40), (Err Pop_Empty :: nat popped, 60)]))"
    by (rule exI [of _ 2]) simp
  then show ?thesis
    using recv_timeout_adds_readings [of "[(Err Pop_Empty :: nat popped, 0), (Err Pop_Empty, 40), (Err Pop_Empty, 60)]" 100]
    by simp
qed

end
