(* ===== verification/ExecTasks.thy ===== *)
theory ExecTasks
  imports Entries
begin

text \<open>
  The tasks of \<open>foundation_core/src/valtron\<close>: the data of \<open>task.rs\<close>; what a task asks of its executor
  while it runs; the two tasks made of a parent and a child (\<open>executors/dependent_lift.rs\<close>); the tasks made
  of a \<open>TaskIterator\<close> (\<open>do_next.rs\<close>, \<open>collect_next.rs\<close>, \<open>on_next.rs\<close>, \<open>task_iters.rs\<close>) and the actions
  these spawn with (\<open>actions.rs\<close>).

  A call of \<open>next\<close> may call the engine it is given any number of times before it returns, so it is a program:
  it returns, panics, or makes a call of the engine and goes on with the answer. The random numbers of an
  engine and its shared queue are not among the calls.
\<close>

section \<open>Data\<close>

datatype spawn_type = Sequenced | Lifted | LiftedWithParent | Broadcasted | Scheduled | SpawnNone

record spawn_info =
  si_type :: spawn_type
  si_child :: "list_entry option"
  si_parent :: "list_entry option"

definition spawn_info_new :: "spawn_type \<Rightarrow> list_entry option \<Rightarrow> list_entry option \<Rightarrow> spawn_info" where
  "spawn_info_new st task parent = \<lparr>si_type = st, si_child = task, si_parent = parent\<rparr>"

definition has_parent_and_child :: "spawn_info \<Rightarrow> bool" where
  "has_parent_and_child i \<longleftrightarrow> si_child i \<noteq> None \<and> si_parent i \<noteq> None"

datatype exec_state =
    St_Pending "nat option"
  | St_Panicked
  | St_SpawnFailed list_entry
  | St_SpawnFinished spawn_info
  | St_Reschedule
  | St_Progressed
  | St_ReadyValue list_entry
  | St_Done

datatype executor_error =
    FailedToLift | FailedToSchedule | AlreadyLiftedTask | ParentMustBeExecutingToLift | QueueClosed | QueueFull
  | FailedToCreate | NotSupported | TaskRequired | FailedToSendThreadActivity | ParentMustBeSupplied

datatype ('r, 'p, 's) iter_status =
    It_Delayed nat | It_Spawn 's | It_Pending 'p | It_Init | It_Ready 'r | It_Ignore

text \<open>\<open>Leaf_task\<close> is a task that is not made of others.\<close>

datatype 'a exec_task =
    Leaf_task 'a
  | Finish_child spawn_info "'a exec_task option" "'a exec_task option"
  | Dual_linked spawn_info "'a exec_task option" "'a exec_task option"

datatype 'a engine_call =
    Call_sequenced "'a exec_task" list_entry
  | Call_lift "'a exec_task" "list_entry option"
  | Call_schedule "'a exec_task"
  | Call_broadcast "'a exec_task"

datatype ('a, 'r) engine_prog =
    Prog_return 'r
  | Prog_call "'a engine_call" "(executor_error, spawn_info) result \<Rightarrow> ('a, 'r) engine_prog"
  | Prog_panic

primrec prog_bind :: "('a, 'r) engine_prog \<Rightarrow> ('r \<Rightarrow> ('a, 's) engine_prog) \<Rightarrow> ('a, 's) engine_prog" where
  "prog_bind (Prog_return x) k = k x"
| "prog_bind (Prog_call c h) k = Prog_call c (\<lambda>r. prog_bind (h r) k)"
| "prog_bind Prog_panic k = Prog_panic"

type_synonym ('b, 'a) leaf_next = "'b \<Rightarrow> list_entry \<Rightarrow> ('a, exec_state option \<times> 'b) engine_prog"

section \<open>A parent and a child\<close>

text \<open>\<open>FinishChildBeforeParentTask\<close> and \<open>DualSequeunceChildAndParentLinkedTask\<close>; \<open>take\<close> leaves \<open>None\<close> behind,
  so that a child that has finished, and a parent that has, are gone.\<close>

fun task_next :: "('b, 'a) leaf_next \<Rightarrow> 'b exec_task \<Rightarrow> list_entry
    \<Rightarrow> ('a, exec_state option \<times> 'b exec_task) engine_prog" where
  "task_next nx (Leaf_task x) e = prog_bind (nx x e) (\<lambda>(r, x'). Prog_return (r, Leaf_task x'))"
| "task_next nx (Finish_child i parent child) e =
     (let parent_only =
        (case parent of
           Some p \<Rightarrow>
             prog_bind (task_next nx p e)
               (\<lambda>(r, p'). Prog_return (r, Finish_child i (if r = None then None else Some p') None))
         | None \<Rightarrow> Prog_return (None, Finish_child i None None)) in
      case child of
        Some c \<Rightarrow>
          prog_bind (task_next nx c e)
            (\<lambda>(r, c').
               case r of
                 Some st \<Rightarrow>
                   if st \<noteq> St_Done then Prog_return (Some st, Finish_child i parent (Some c')) else parent_only
               | None \<Rightarrow> parent_only)
      | None \<Rightarrow> parent_only)"
| "task_next nx (Dual_linked i parent child) e =
     (let parent_only =
        (case parent of
           Some p \<Rightarrow>
             prog_bind (task_next nx p e)
               (\<lambda>(r, p'). Prog_return (r, Dual_linked i (if r = None then None else Some p') None))
         | None \<Rightarrow> Prog_return (None, Dual_linked i None None)) in
      case child of
        Some c \<Rightarrow>
          prog_bind (task_next nx c e)
            (\<lambda>(r, c').
               case r of
                 Some st \<Rightarrow>
                   if st \<noteq> St_Done
                   then (case parent of
                           Some p \<Rightarrow>
                             prog_bind (task_next nx p e)
                               (\<lambda>(r', p').
                                  Prog_return (Some st,
                                    Dual_linked i (if r' = None then None else Some p') (Some c')))
                         | None \<Rightarrow> Prog_return (Some st, Dual_linked i None (Some c')))
                   else parent_only
               | None \<Rightarrow> parent_only)
      | None \<Rightarrow> parent_only)"

section \<open>Tasks over a \<open>TaskIterator\<close>\<close>

text \<open>\<open>src\<close> is the iterator's \<open>next_status\<close>; a panic of it is caught, but leaves the mutex around the iterator
  poisoned, so that the next lock panics, which is caught as well. \<open>apply\<close> is the action's, \<open>None\<close> its error.\<close>

type_synonym ('t, 'r, 'p, 's) task_source = "'t \<Rightarrow> (unit, ('r, 'p, 's) iter_status option) result \<times> 't"

type_synonym ('s, 'a) action_apply = "'s \<Rightarrow> list_entry option \<Rightarrow> ('a, spawn_info option) engine_prog"

record 't guarded_task =
  gd_task :: 't
  gd_poisoned :: bool

definition guarded_next ::
    "('t, 'r, 'p, 's) task_source \<Rightarrow> 't guarded_task \<Rightarrow> ('r, 'p, 's) iter_status option option \<times> 't guarded_task" where
  "guarded_next src g =
     (if gd_poisoned g then (None, g)
      else (case src (gd_task g) of
              (Ok x, t) \<Rightarrow> (Some x, g\<lparr>gd_task := t\<rparr>)
            | (_, t) \<Rightarrow> (None, \<lparr>gd_task = t, gd_poisoned = True\<rparr>)))"

definition spawn_state :: "('s, 'a) action_apply \<Rightarrow> 's \<Rightarrow> list_entry \<Rightarrow> ('a, exec_state) engine_prog" where
  "spawn_state apply act e =
     prog_bind (apply act (Some e))
       (\<lambda>r. Prog_return (case r of Some info \<Rightarrow> St_SpawnFinished info | None \<Rightarrow> St_SpawnFailed e))"

text \<open>The state that answers a status that is not a spawn.\<close>

fun status_state :: "list_entry \<Rightarrow> ('r, 'p, 's) iter_status \<Rightarrow> exec_state" where
  "status_state e (It_Delayed dur) = St_Pending (Some dur)"
| "status_state e (It_Ready _) = St_ReadyValue e"
| "status_state e _ = St_Pending None"

definition do_next_next ::
    "('t, 'r, 'p, 's) task_source \<Rightarrow> ('s, 'a) action_apply \<Rightarrow> ('t guarded_task, 'a) leaf_next" where
  "do_next_next src apply g e =
     (case guarded_next src g of
        (None, g') \<Rightarrow> Prog_return (Some St_Panicked, g')
      | (Some None, g') \<Rightarrow> Prog_return (Some St_Done, g')
      | (Some (Some ts), g') \<Rightarrow>
          prog_bind
            (case ts of It_Spawn act \<Rightarrow> spawn_state apply act e | _ \<Rightarrow> Prog_return (status_state e ts))
            (\<lambda>st. Prog_return (Some st, g')))"

text \<open>\<open>CollectNext\<close> keeps the values, oldest first.\<close>

record ('t, 'r) collecting =
  cl_guarded :: "'t guarded_task"
  cl_list :: "'r list"

definition collect_next_next ::
    "('t, 'r, 'p, 's) task_source \<Rightarrow> ('s, 'a) action_apply \<Rightarrow> (('t, 'r) collecting, 'a) leaf_next" where
  "collect_next_next src apply g e =
     (case guarded_next src (cl_guarded g) of
        (None, g') \<Rightarrow> Prog_return (Some St_Panicked, g\<lparr>cl_guarded := g'\<rparr>)
      | (Some None, g') \<Rightarrow> Prog_return (Some St_Done, g\<lparr>cl_guarded := g'\<rparr>)
      | (Some (Some ts), g') \<Rightarrow>
          prog_bind
            (case ts of
               It_Spawn act \<Rightarrow> prog_bind (spawn_state apply act e) (\<lambda>st. Prog_return (st, cl_list g))
             | It_Ready x \<Rightarrow> Prog_return (status_state e ts, cl_list g @ [x])
             | _ \<Rightarrow> Prog_return (status_state e ts, cl_list g))
            (\<lambda>(st, l). Prog_return (Some st, \<lparr>cl_guarded = g', cl_list = l\<rparr>)))"

text \<open>A status goes through every mapper, each of which may drop it or change what it will do later.\<close>

fun run_mappers :: "('m \<Rightarrow> 'x option \<Rightarrow> 'x option \<times> 'm) \<Rightarrow> 'm list \<Rightarrow> 'x option \<Rightarrow> 'x option \<times> 'm list" where
  "run_mappers mp [] r = (r, [])"
| "run_mappers mp (m # ms) r =
     (case mp m r of (r', m') \<Rightarrow> (case run_mappers mp ms r' of (r'', ms') \<Rightarrow> (r'', m' # ms')))"

text \<open>\<open>OnNext\<close>; \<open>handle\<close> is the resolver's, which gets the engine.\<close>

record ('t, 'm) resolving =
  rs_guarded :: "'t guarded_task"
  rs_mappers :: "'m list"

definition on_next_next ::
    "('t, 'r, 'p, 's) task_source \<Rightarrow> ('s, 'a) action_apply
      \<Rightarrow> ('m \<Rightarrow> ('r, 'p, 's) iter_status option \<Rightarrow> ('r, 'p, 's) iter_status option \<times> 'm)
      \<Rightarrow> ('r \<Rightarrow> ('a, unit) engine_prog) \<Rightarrow> (('t, 'm) resolving, 'a) leaf_next" where
  "on_next_next src apply mp handle g e =
     (case guarded_next src (rs_guarded g) of
        (None, g') \<Rightarrow> Prog_return (Some St_Panicked, g\<lparr>rs_guarded := g'\<rparr>)
      | (Some None, g') \<Rightarrow> Prog_return (Some St_Done, g\<lparr>rs_guarded := g'\<rparr>)
      | (Some (Some ts), g') \<Rightarrow>
          (case run_mappers mp (rs_mappers g) (Some ts) of
             (mapped, ms) \<Rightarrow>
               prog_bind
                 (case mapped of
                    Some (It_Spawn act) \<Rightarrow> spawn_state apply act e
                  | Some (It_Ready content) \<Rightarrow> prog_bind (handle content) (\<lambda>_. Prog_return St_Progressed)
                  | Some ts' \<Rightarrow> Prog_return (status_state e ts')
                  | None \<Rightarrow> Prog_return (St_Pending None))
                 (\<lambda>st. Prog_return (Some st, \<lparr>rs_guarded = g', rs_mappers = ms\<rparr>))))"

text \<open>\<open>StreamConsumingIter\<close>, \<open>ConsumingIter\<close> and \<open>ReadyConsumingIter\<close> hand what they see to a channel, of the
  crate \<open>concurrent_queue\<close>: \<open>push\<close> says whether it took the item. They differ in what they hand on: \<open>item\<close>.\<close>

datatype ('r, 'p) stream_item = Str_Init | Str_Ignore | Str_Delayed nat | Str_Pending 'p | Str_Next 'r

fun stream_consuming_item :: "('r, 'p, 's) iter_status \<Rightarrow> ('r, 'p) stream_item option" where
  "stream_consuming_item (It_Delayed dur) = Some (Str_Delayed dur)"
| "stream_consuming_item (It_Spawn act) = None"
| "stream_consuming_item (It_Pending p) = Some (Str_Pending p)"
| "stream_consuming_item It_Init = Some Str_Init"
| "stream_consuming_item (It_Ready x) = Some (Str_Next x)"
| "stream_consuming_item It_Ignore = Some Str_Ignore"

fun consuming_item :: "('r, 'p, 's) iter_status \<Rightarrow> ('r, 'p, 's) iter_status option" where
  "consuming_item (It_Spawn act) = None"
| "consuming_item It_Ignore = None"
| "consuming_item ts = Some ts"

fun ready_consuming_item :: "('r, 'p, 's) iter_status \<Rightarrow> ('r, 'p, 's) iter_status option" where
  "ready_consuming_item (It_Ready x) = Some (It_Ready x)"
| "ready_consuming_item _ = None"

record ('c, 'x) channel_ops =
  ch_push :: "'x \<Rightarrow> 'c \<Rightarrow> bool \<times> 'c"
  ch_close :: "'c \<Rightarrow> 'c"

record ('t, 'm, 'c) consuming =
  cs_guarded :: "'t guarded_task"
  cs_alive :: bool
  cs_mappers :: "'m list"
  cs_channel :: 'c

definition consuming_done :: "('c, 'x) channel_ops \<Rightarrow> ('t, 'm, 'c) consuming \<Rightarrow> ('t, 'm, 'c) consuming" where
  "consuming_done ch g = g\<lparr>cs_channel := ch_close ch (cs_channel g), cs_alive := False\<rparr>"

definition consuming_push ::
    "('c, 'x) channel_ops \<Rightarrow> 'x option \<Rightarrow> exec_state \<Rightarrow> ('t, 'm, 'c) consuming
      \<Rightarrow> exec_state \<times> ('t, 'm, 'c) consuming" where
  "consuming_push ch x st g =
     (case x of
        None \<Rightarrow> (st, g)
      | Some x \<Rightarrow>
          (case ch_push ch x (cs_channel g) of
             (True, c) \<Rightarrow> (st, g\<lparr>cs_channel := c\<rparr>)
           | (False, c) \<Rightarrow> (St_Done, consuming_done ch (g\<lparr>cs_channel := c\<rparr>))))"

definition consuming_next ::
    "('c, 'x) channel_ops \<Rightarrow> (('r, 'p, 's) iter_status \<Rightarrow> 'x option) \<Rightarrow> ('t, 'r, 'p, 's) task_source
      \<Rightarrow> ('s, 'a) action_apply
      \<Rightarrow> ('m \<Rightarrow> ('r, 'p, 's) iter_status option \<Rightarrow> ('r, 'p, 's) iter_status option \<times> 'm)
      \<Rightarrow> (('t, 'm, 'c) consuming, 'a) leaf_next" where
  "consuming_next ch item src apply mp g e =
     (if \<not> cs_alive g then Prog_return (None, g)
      else case guarded_next src (cs_guarded g) of
        (None, g') \<Rightarrow> Prog_return (Some St_Panicked, g\<lparr>cs_guarded := g'\<rparr>)
      | (Some None, g') \<Rightarrow> Prog_return (Some St_Done, consuming_done ch (g\<lparr>cs_guarded := g'\<rparr>))
      | (Some (Some ts), g') \<Rightarrow>
          (case run_mappers mp (cs_mappers g) (Some ts) of
             (mapped, ms) \<Rightarrow>
               let g1 = g\<lparr>cs_guarded := g', cs_mappers := ms\<rparr> in
               (case mapped of
                  None \<Rightarrow> Prog_return (Some St_Done, consuming_done ch g1)
                | Some (It_Spawn act) \<Rightarrow>
                    prog_bind (spawn_state apply act e) (\<lambda>st. Prog_return (Some st, g1))
                | Some ts' \<Rightarrow>
                    (case consuming_push ch (item ts') (status_state e ts') g1 of
                       (st, g2) \<Rightarrow> Prog_return (Some st, g2)))))"

section \<open>Actions\<close>

text \<open>The actions of \<open>actions.rs\<close>, with the task each would start ready made; \<open>None\<close> where it has been used
  up, or where \<open>SpawnWithBroadcast\<close> has nobody to call. The builder (\<open>builders.rs\<close>) they go through has no
  resolver and no mappers there, and only passes the task on.\<close>

datatype send_behaviour = InlineSend_Sequenced | InlineSend_Lift | InlineSend_LiftWithParent | InlineSend_Schedule | InlineSend_Broadcast

datatype inline_behaviour = Inline_Sequenced | Inline_Lift | Inline_LiftWithParent | Inline_Schedule

datatype 'a spawn_action =
    No_action
  | Wrap_action "'a exec_task option"
  | Spawn_with_lift "'a exec_task option"
  | Spawn_with_schedule "'a exec_task option"
  | Spawn_with_broadcast "'a exec_task option"
  | Inline_send_action "(send_behaviour \<times> 'a exec_task) option"

definition engine_result :: "'a engine_call \<Rightarrow> ('a, spawn_info option) engine_prog" where
  "engine_result c = Prog_call c (\<lambda>r. Prog_return (case r of Ok info \<Rightarrow> Some info | _ \<Rightarrow> None))"

definition with_parent :: "list_entry option \<Rightarrow> (list_entry \<Rightarrow> 'a engine_call) \<Rightarrow> ('a, spawn_info option) engine_prog" where
  "with_parent key c = (case key of Some parent \<Rightarrow> engine_result (c parent) | None \<Rightarrow> Prog_return None)"

definition spawned_nothing :: "('a, spawn_info option) engine_prog" where
  "spawned_nothing = Prog_return (Some (spawn_info_new SpawnNone None None))"

fun inline_send_apply :: "send_behaviour \<Rightarrow> 'a exec_task \<Rightarrow> list_entry option \<Rightarrow> ('a, spawn_info option) engine_prog" where
  "inline_send_apply InlineSend_Sequenced t key = with_parent key (Call_sequenced t)"
| "inline_send_apply InlineSend_LiftWithParent t key = with_parent key (\<lambda>parent. Call_lift t (Some parent))"
| "inline_send_apply InlineSend_Lift t key = engine_result (Call_lift t key)"
| "inline_send_apply InlineSend_Schedule t key = engine_result (Call_schedule t)"
| "inline_send_apply InlineSend_Broadcast t key = engine_result (Call_broadcast t)"

fun spawn_action_apply :: "('a spawn_action, 'a) action_apply" where
  "spawn_action_apply No_action key = spawned_nothing"
| "spawn_action_apply (Wrap_action t) key =
     (case t of Some t \<Rightarrow> engine_result (Call_schedule t) | None \<Rightarrow> spawned_nothing)"
| "spawn_action_apply (Spawn_with_lift t) key =
     (case t of Some t \<Rightarrow> engine_result (Call_lift t key) | None \<Rightarrow> spawned_nothing)"
| "spawn_action_apply (Spawn_with_schedule t) key =
     (case t of Some t \<Rightarrow> engine_result (Call_schedule t) | None \<Rightarrow> spawned_nothing)"
| "spawn_action_apply (Spawn_with_broadcast t) key =
     (case t of Some t \<Rightarrow> engine_result (Call_broadcast t) | None \<Rightarrow> spawned_nothing)"
| "spawn_action_apply (Inline_send_action a) key =
     (case a of Some (b, t) \<Rightarrow> inline_send_apply b t key | None \<Rightarrow> Prog_return None)"

text \<open>\<open>InlineAction\<close> is the same, but lifts without a parent under \<open>Lift\<close>.\<close>

fun inline_action_apply :: "(inline_behaviour \<times> 'a exec_task) option \<Rightarrow> list_entry option \<Rightarrow> ('a, spawn_info option) engine_prog" where
  "inline_action_apply None key = Prog_return None"
| "inline_action_apply (Some (Inline_Sequenced, t)) key = with_parent key (Call_sequenced t)"
| "inline_action_apply (Some (Inline_LiftWithParent, t)) key = with_parent key (\<lambda>parent. Call_lift t (Some parent))"
| "inline_action_apply (Some (Inline_Lift, t)) key = engine_result (Call_lift t None)"
| "inline_action_apply (Some (Inline_Schedule, t)) key = engine_result (Call_schedule t)"

text \<open>The calls of the builder that give an iterator over what the new task produces (\<open>schedule_iter\<close>,
  \<open>lift_iter\<close>, \<open>sequenced_iter\<close> and their \<open>stream_\<close> forms), with the error, if any: the info is dropped.\<close>

definition builder_iter :: "'a engine_call \<Rightarrow> ('a, executor_error option) engine_prog" where
  "builder_iter c = Prog_call c (\<lambda>r. Prog_return (case r of Err e \<Rightarrow> Some e | _ \<Rightarrow> None))"

definition schedule_iter :: "'a exec_task \<Rightarrow> ('a, executor_error option) engine_prog" where
  "schedule_iter t = builder_iter (Call_schedule t)"

definition lift_iter :: "'a exec_task \<Rightarrow> list_entry option \<Rightarrow> ('a, executor_error option) engine_prog" where
  "lift_iter t parent = builder_iter (Call_lift t parent)"

definition sequenced_iter :: "'a exec_task \<Rightarrow> list_entry option \<Rightarrow> ('a, executor_error option) engine_prog" where
  "sequenced_iter t parent =
     (case parent of
        None \<Rightarrow> Prog_return (Some ParentMustBeSupplied)
      | Some parent \<Rightarrow> builder_iter (Call_sequenced t parent))"

section \<open>Tasks that keep to the rules\<close>

text \<open>What a program may return, told by a predicate over the infos the engine gave it: \<open>prog_all\<close> holds when
  the program does not panic and whatever the engine answers, with an info of the type that goes with the
  call or an error, the result satisfies the predicate.\<close>

fun call_type :: "'a engine_call \<Rightarrow> spawn_type" where
  "call_type (Call_sequenced _ _) = Sequenced"
| "call_type (Call_lift _ parent) = (if parent = None then Lifted else LiftedWithParent)"
| "call_type (Call_schedule _) = Scheduled"
| "call_type (Call_broadcast _) = Broadcasted"

primrec prog_all :: "(spawn_info set \<Rightarrow> 'r \<Rightarrow> bool) \<Rightarrow> spawn_info set \<Rightarrow> ('a, 'r) engine_prog \<Rightarrow> bool" where
  "prog_all P infos (Prog_return x) = P infos x"
| "prog_all P infos (Prog_call c k) =
     ((\<forall>i. si_type i = call_type c \<longrightarrow> prog_all P (insert i infos) (k (Ok i))) \<and> (\<forall>err. prog_all P infos (k (Err err))))"
| "prog_all P infos Prog_panic = False"

text \<open>An executor relies on this: a task that says it has spawned says so with an info it was given, not
  one of a child lifted without a parent.\<close>

definition spawn_allowed :: "spawn_info set \<Rightarrow> exec_state option \<Rightarrow> bool" where
  "spawn_allowed infos r \<longleftrightarrow>
     (\<forall>i. r = Some (St_SpawnFinished i) \<longrightarrow>
        i \<in> insert (spawn_info_new SpawnNone None None) infos \<and> si_type i \<noteq> Lifted)"

definition honest :: "('a, exec_state option \<times> 'b) engine_prog \<Rightarrow> bool" where
  "honest m \<longleftrightarrow> prog_all (\<lambda>infos r. spawn_allowed infos (fst r)) {} m"

lemma prog_all_bind [simp]:
  "prog_all P infos (prog_bind m k) \<longleftrightarrow> prog_all (\<lambda>infos x. prog_all P infos (k x)) infos m"
  by (induction m arbitrary: infos) simp_all

lemma prog_all_mono:
  assumes "prog_all P infos m" "infos \<subseteq> infos'" "\<And>is is' x. P is x \<Longrightarrow> is \<subseteq> is' \<Longrightarrow> P' is' x"
  shows "prog_all P' infos' m"
  using assms(1,2)
proof (induction m arbitrary: infos infos')
  case (Prog_call c k)
  have "prog_all P' (insert i infos') (k (Ok i))" if "si_type i = call_type c" for i
    using Prog_call.prems that by (intro Prog_call.IH [OF rangeI, where infos = "insert i infos"]) auto
  moreover have "prog_all P' infos' (k (Err err))" for err
    using Prog_call.prems by (intro Prog_call.IH [OF rangeI, where infos = infos]) auto
  ultimately show ?case by simp
qed (auto intro: assms(3))

lemma prog_all_weaken: "prog_all P infos m \<Longrightarrow> (\<And>is x. P is x \<Longrightarrow> P' is x) \<Longrightarrow> prog_all P' infos m"
proof (induction m arbitrary: infos)
  case (Prog_call c k)
  then show ?case by (simp add: Prog_call.IH [OF rangeI])
qed simp_all

lemma prog_all_grows: "prog_all P infos m \<Longrightarrow> prog_all (\<lambda>is r. infos \<subseteq> is \<and> P is r) infos m"
proof (induction m arbitrary: infos)
  case (Prog_call c k)
  have "prog_all (\<lambda>is r. infos \<subseteq> is \<and> P is r) (insert i infos) (k (Ok i))" if "si_type i = call_type c" for i
    using Prog_call.IH [OF rangeI, of "insert i infos" "Ok i"] Prog_call.prems that
    by (auto elim: prog_all_weaken)
  then show ?case using Prog_call.IH [OF rangeI, of infos "Err _"] Prog_call.prems by auto
qed simp_all

lemma prog_all_then:
  assumes "prog_all P infos m" "\<And>is x. infos \<subseteq> is \<Longrightarrow> P is x \<Longrightarrow> prog_all Q is (k x)"
  shows "prog_all Q infos (prog_bind m k)"
  using prog_all_weaken [OF prog_all_grows [OF assms(1)]] assms(2) by simp

lemma spawn_allowed_mono: "spawn_allowed infos r \<Longrightarrow> infos \<subseteq> infos' \<Longrightarrow> spawn_allowed infos' r"
  by (auto simp: spawn_allowed_def)

lemma spawn_allowed_simps [simp]:
  "spawn_allowed infos None" "spawn_allowed infos (Some (St_Pending d))" "spawn_allowed infos (Some St_Panicked)"
  "spawn_allowed infos (Some (St_SpawnFailed e))" "spawn_allowed infos (Some St_Reschedule)"
  "spawn_allowed infos (Some St_Progressed)" "spawn_allowed infos (Some (St_ReadyValue e))"
  "spawn_allowed infos (Some St_Done)"
  by (simp_all add: spawn_allowed_def)

lemma spawn_allowed_status [simp]: "spawn_allowed infos (Some (status_state e ts))"
  by (cases ts) simp_all

text \<open>An action keeps to the rules when its error and its info may be reported.\<close>

definition honest_action :: "('a, spawn_info option) engine_prog \<Rightarrow> bool" where
  "honest_action m \<longleftrightarrow>
     prog_all (\<lambda>infos r. \<forall>i. r = Some i \<longrightarrow> spawn_allowed infos (Some (St_SpawnFinished i))) {} m"

lemma honest_spawn_state:
  assumes "honest_action (apply act (Some e))"
  shows "prog_all (\<lambda>infos st. spawn_allowed infos (Some st)) {} (spawn_state apply act e)"
proof -
  have "prog_all (\<lambda>infos r. spawn_allowed infos (Some (case r of Some info \<Rightarrow> St_SpawnFinished info | None \<Rightarrow> St_SpawnFailed e)))
      {} (apply act (Some e))"
    using assms unfolding honest_action_def
    by (rule prog_all_mono) (auto intro: spawn_allowed_mono split: option.split)
  then show ?thesis by (simp add: spawn_state_def)
qed

lemma honest_engine_result: "call_type c \<noteq> Lifted \<Longrightarrow> honest_action (engine_result c)"
  by (simp add: honest_action_def engine_result_def spawn_allowed_def)

lemma honest_action_simps [simp]: "honest_action spawned_nothing" "honest_action (Prog_return None)"
  by (simp_all add: honest_action_def spawned_nothing_def spawn_allowed_def spawn_info_new_def)

lemma honest_inline_send: "honest_action (inline_send_apply b t (Some e))"
  by (cases b) (simp_all add: with_parent_def honest_engine_result)

lemma honest_send_action: "honest_action (spawn_action_apply act (Some e))"
  by (cases act) (auto simp: honest_engine_result honest_inline_send split: option.split)

locale honest_tasks =
  fixes nx :: "('b, 'a) leaf_next"
  assumes leaf_honest: "honest (nx x e)"
begin

text \<open>A task made of tasks that keep to the rules does too.\<close>

abbreviation task_allowed :: "spawn_info set \<Rightarrow> ('c, exec_state option \<times> 'd) engine_prog \<Rightarrow> bool" where
  "task_allowed infos m \<equiv> prog_all (\<lambda>infos r. spawn_allowed infos (fst r)) infos m"

lemma task_next_allowed: "task_allowed infos (task_next nx t e)"
proof (induction t arbitrary: infos)
  case (Leaf_task x)
  have "task_allowed infos (nx x e)"
    using leaf_honest [of x e] unfolding honest_def by (rule prog_all_mono) (auto intro: spawn_allowed_mono)
  then show ?case by (simp add: case_prod_beta)
next
  case (Finish_child i parent child)
  have rest: "task_allowed infos (case parent of
      Some p \<Rightarrow> prog_bind (task_next nx p e) (\<lambda>(r, p'). Prog_return (r, Finish_child i (if r = None then None else Some p') None))
    | None \<Rightarrow> Prog_return (None, Finish_child i None None))" for infos
    using Finish_child.IH(1) by (cases parent) (simp_all add: case_prod_beta)
  show ?case
  proof (cases child)
    case (Some c)
    have "task_allowed infos (task_next nx c e)" using Finish_child.IH(2) Some by simp
    then show ?thesis unfolding task_next.simps Let_def Some option.case
      apply (rule prog_all_then)
      subgoal for "is" r using rest [of "is"] by (cases r; cases "fst r") simp_all
      done
  qed (simp add: rest Let_def)
next
  case (Dual_linked i parent child)
  have rest: "task_allowed infos (case parent of
      Some p \<Rightarrow> prog_bind (task_next nx p e) (\<lambda>(r, p'). Prog_return (r, Dual_linked i (if r = None then None else Some p') None))
    | None \<Rightarrow> Prog_return (None, Dual_linked i None None))" for infos
    using Dual_linked.IH(1) by (cases parent) (simp_all add: case_prod_beta)
  have both: "task_allowed is (case parent of
      Some p \<Rightarrow> prog_bind (task_next nx p e) (\<lambda>(r', p'). Prog_return (Some st, Dual_linked i (if r' = None then None else Some p') (Some c')))
    | None \<Rightarrow> Prog_return (Some st, Dual_linked i None (Some c')))" if "spawn_allowed is (Some st)" for "is" st c'
  proof (cases parent)
    case (Some p)
    then have "task_allowed is (task_next nx p e)" using Dual_linked.IH(1) by simp
    then show ?thesis unfolding Some option.case
      by (rule prog_all_then) (auto intro: spawn_allowed_mono [OF that] split: prod.split)
  qed (simp add: that)
  show ?case
  proof (cases child)
    case (Some c)
    have "task_allowed infos (task_next nx c e)" using Dual_linked.IH(2) Some by simp
    then show ?thesis unfolding task_next.simps Let_def Some option.case
      apply (rule prog_all_then)
      subgoal for "is" r using rest [of "is"] both [of "is"] by (cases r; cases "fst r") simp_all
      done
  qed (simp add: rest Let_def)
qed

lemma task_honest: "honest (task_next nx t e)"
  by (simp add: honest_def task_next_allowed)

end

text \<open>The tasks over an iterator keep to the rules, with every action but \<open>InlineAction\<close>.\<close>

lemma honest_spawned: "prog_all (\<lambda>infos st. spawn_allowed infos (Some st)) {} (spawn_state spawn_action_apply act e)"
  by (rule honest_spawn_state) (rule honest_send_action)

interpretation do_next: honest_tasks "do_next_next src spawn_action_apply" for src
proof
  show "honest (do_next_next src spawn_action_apply g e)" for g e
    by (cases "guarded_next src g")
      (auto simp: do_next_next_def honest_def honest_spawned split: option.split iter_status.split)
qed

interpretation collect_next: honest_tasks "collect_next_next src spawn_action_apply" for src
proof
  show "honest (collect_next_next src spawn_action_apply g e)" for g e
    by (cases "guarded_next src (cl_guarded g)")
      (auto simp: collect_next_next_def honest_def honest_spawned split: option.split iter_status.split)
qed

interpretation consuming: honest_tasks "consuming_next ch item src spawn_action_apply mp" for ch item src mp
proof
  have push: "spawn_allowed {} (Some st) \<Longrightarrow> spawn_allowed {} (Some (fst (consuming_push ch x st g)))" for x st g
    by (auto simp: consuming_push_def split: option.split prod.split bool.split)
  show "honest (consuming_next ch item src spawn_action_apply mp g e)" for g e
    by (auto simp: push consuming_next_def honest_def honest_spawned Let_def case_prod_beta
        split: option.split iter_status.split)
qed

text \<open>\<open>OnNext\<close> does when its resolver does not panic.\<close>

lemma honest_on_next:
  assumes "\<And>x. prog_all (\<lambda>_ _. True) {} (handle x)"
  shows "honest (on_next_next src spawn_action_apply mp handle g e)"
  using assms
  by (auto simp: on_next_next_def honest_def honest_spawned case_prod_beta split: option.split iter_status.split)

end
