(* ===== verification/Executor.thy ===== *)
theory Executor
  imports ExecTasks Sleepers Retries Channels
begin

text \<open>
  The local executor, \<open>foundation_core/src/valtron/executors/local.rs\<close>: \<open>ExecutorState\<close> with the engine calls
  it answers, one round of work (\<open>schedule_and_do_work\<close>), and the loops of \<open>LocalThreadExecutor\<close> around it.
  It keeps its tasks in a slot list, the order to run them in a queue of entries, and those that sleep in a
  second slot list; an \<open>IdleMan\<close> says how long to wait when there is nothing to do.

  The queue it shares with other threads is of the crate \<open>concurrent_queue\<close>: its operations are arguments,
  with what other threads do to it part of its state. What a round reads of the world, the clocks, the flags
  and the random numbers, is the argument of type \<open>round\<close>. A loop that does not end is the error \<open>Hang\<close>. The
  random number generator of the executor is not modelled.
\<close>

section \<open>State\<close>

datatype priority_order = Order_Top | Order_Bottom

datatype sleepable = Timable "list_entry duration_waker" | Atomic_flag nat list_entry

fun sleepable_remaining :: "nat \<Rightarrow> sleepable \<Rightarrow> nat option" where
  "sleepable_remaining now (Timable inner) = waker_remaining now inner"
| "sleepable_remaining now (Atomic_flag _ _) = None"

fun sleepable_ready :: "nat \<Rightarrow> (nat \<Rightarrow> bool) \<Rightarrow> sleepable \<Rightarrow> bool" where
  "sleepable_ready now flags (Timable inner) = is_ready now inner"
| "sleepable_ready now flags (Atomic_flag flag _) = flags flag"

fun sleepable_entry :: "sleepable \<Rightarrow> list_entry" where
  "sleepable_entry (Timable wakeable) = dw_handle wakeable"
| "sleepable_entry (Atomic_flag _ entry) = entry"

text \<open>\<open>push\<close> gives its error, if any, \<open>pop\<close> the task, if any; \<open>activity\<close> is what sending to the activities'
  channel gives, \<open>None\<close> when the engine has none.\<close>

record ('a, 'q) task_queue =
  tq_push :: "'a exec_task \<Rightarrow> 'q \<Rightarrow> 'a exec_task push_error option \<times> 'q"
  tq_pop :: "'q \<Rightarrow> 'a exec_task option \<times> 'q"
  tq_is_empty :: "'q \<Rightarrow> bool"
  tq_activity :: "'q \<Rightarrow> bool option \<times> 'q"

record ('a, 'q) executor =
  ex_wakeup_priority :: priority_order
  ex_global_tasks :: 'q
  ex_current_task :: "list_entry option"
  ex_local_tasks :: "'a exec_task entry_list"
  ex_task_graph :: "list_entry \<Rightarrow> list_entry option"
  ex_packed_tasks :: "list_entry \<Rightarrow> bool option"
  ex_processing :: "list_entry list"
  ex_sleepers :: "sleepable entry_list"
  ex_idler :: idle_man

definition executor_new :: "'q \<Rightarrow> priority_order \<Rightarrow> idle_man \<Rightarrow> ('a, 'q) executor" where
  "executor_new global_tasks wakeup_priority idler =
     \<lparr>ex_wakeup_priority = wakeup_priority, ex_global_tasks = global_tasks, ex_current_task = None,
      ex_local_tasks = el_new, ex_task_graph = Map.empty, ex_packed_tasks = Map.empty, ex_processing = [],
      ex_sleepers = el_new, ex_idler = idler\<rparr>"

datatype schedule_outcome = GlobalTaskAcquired | NoTaskRunningOrAcquired | LocalTaskRunning

datatype progress = NoWork | CanProgress "exec_state option" | SpinWait nat

datatype hang = Hang

type_synonym ('a, 'q, 'r) ex_call = "(('a, 'q) executor, hang, 'r) exec"

text \<open>The clock when the scan for matured sleepers is at a slot, the flags there, the clock when a task is put
  to sleep, the clock when the scan for the longest wait is at a slot, and the random draws of the idler.\<close>

record round =
  rd_clock :: "nat \<Rightarrow> nat"
  rd_flags :: "nat \<Rightarrow> nat \<Rightarrow> bool"
  rd_now :: nat
  rd_after :: "nat \<Rightarrow> nat"
  rd_draw :: "nat \<Rightarrow> nat"

section \<open>Dependents, packing and waking\<close>

partial_function (option) dependents_from :: "(list_entry \<Rightarrow> list_entry option) \<Rightarrow> list_entry \<Rightarrow> list_entry list option" where
  "dependents_from graph key =
     (case graph key of
        Some dep \<Rightarrow> Option.bind (dependents_from graph dep) (\<lambda>deps. Some (dep # deps))
      | None \<Rightarrow> Some [])"

definition get_task_dependents :: "list_entry \<Rightarrow> ('a, 'q, list_entry list) ex_call" where
  "get_task_dependents target s =
     (case dependents_from (ex_task_graph s) target of Some deps \<Rightarrow> (Ok deps, s) | None \<Rightarrow> (Err Hang, s))"

definition is_packed :: "list_entry \<Rightarrow> ('a, 'q) executor \<Rightarrow> bool" where
  "is_packed target s = (case ex_packed_tasks s target of Some b \<Rightarrow> b | None \<Rightarrow> False)"

definition set_packed :: "list_entry \<Rightarrow> bool option \<Rightarrow> ('a, 'q) executor \<Rightarrow> ('a, 'q) executor" where
  "set_packed e b s = s\<lparr>ex_packed_tasks := (ex_packed_tasks s)(e := b)\<rparr>"

definition push_front :: "list_entry \<Rightarrow> ('a, 'q) executor \<Rightarrow> ('a, 'q) executor" where
  "push_front e s = s\<lparr>ex_processing := e # ex_processing s\<rparr>"

definition push_back :: "list_entry \<Rightarrow> ('a, 'q) executor \<Rightarrow> ('a, 'q) executor" where
  "push_back e s = s\<lparr>ex_processing := ex_processing s @ [e]\<rparr>"

definition unpack_task_and_dependents :: "list_entry \<Rightarrow> ('a, 'q, unit) ex_call" where
  "unpack_task_and_dependents target s =
     bind (get_task_dependents target) (\<lambda>deps s. (Ok (), fold (\<lambda>d. set_packed d None) deps s)) (set_packed target None s)"

definition pack_task_and_dependents :: "list_entry \<Rightarrow> ('a, 'q, unit) ex_call" where
  "pack_task_and_dependents target s =
     bind (get_task_dependents target) (\<lambda>deps s. (Ok (), fold (\<lambda>d. set_packed d (Some True)) deps s))
       (set_packed target (Some True) s)"

definition wake_up :: "list_entry \<Rightarrow> ('a, 'q, unit) ex_call" where
  "wake_up target =
     bind (get_task_dependents target) (\<lambda>deps s.
       let s = set_packed target None s in
       case ex_wakeup_priority s of
         Order_Top \<Rightarrow> (Ok (), push_front target (fold (\<lambda>d s. push_front d (set_packed d None s)) (rev deps) s))
       | Order_Bottom \<Rightarrow> (Ok (), fold (\<lambda>d s. push_back d (set_packed d None s)) deps (push_back target s)))"

fun wake_each :: "list_entry list \<Rightarrow> ('a, 'q, unit) ex_call" where
  "wake_each [] s = (Ok (), s)"
| "wake_each (e # es) s = bind (wake_up e) (\<lambda>_. wake_each es) s"

definition wakeup_ready_sleepers :: "round \<Rightarrow> ('a, 'q, unit) ex_call" where
  "wakeup_ready_sleepers rd s =
     (case sleepers_get_matured (\<lambda>i. sleepable_ready (rd_clock rd i) (rd_flags rd i)) (ex_sleepers s) of
        (matured, sl) \<Rightarrow> wake_each (map sleepable_entry matured) (s\<lparr>ex_sleepers := sl\<rparr>))"

section \<open>Counts\<close>

definition number_of_sleepers :: "('a, 'q) executor \<Rightarrow> u64" where
  "number_of_sleepers s = sleepers_count (ex_sleepers s)"

definition has_sleeping_tasks :: "('a, 'q) executor \<Rightarrow> bool" where
  "has_sleeping_tasks s \<longleftrightarrow> sleepers_has_pending_tasks (ex_sleepers s)"

definition total_tasks :: "('a, 'q) executor \<Rightarrow> u64" where
  "total_tasks s = active_slots (ex_local_tasks s)"

definition has_local_tasks :: "('a, 'q) executor \<Rightarrow> bool" where
  "has_local_tasks s \<longleftrightarrow> total_tasks s > 0"

definition has_inflight_task :: "('a, 'q) executor \<Rightarrow> bool" where
  "has_inflight_task s \<longleftrightarrow> ex_processing s \<noteq> []"

definition has_incoming_global_tasks :: "('a, 'q) task_queue \<Rightarrow> ('a, 'q) executor \<Rightarrow> bool" where
  "has_incoming_global_tasks Q s \<longleftrightarrow> \<not> tq_is_empty Q (ex_global_tasks s)"

definition total_active_tasks :: "('a, 'q) executor \<Rightarrow> u64" where
  "total_active_tasks s = total_tasks s - number_of_sleepers s"

definition has_active_tasks :: "('a, 'q) executor \<Rightarrow> bool" where
  "has_active_tasks s \<longleftrightarrow> total_active_tasks s > 0"

section \<open>The engine\<close>

definition add_task :: "'a exec_task \<Rightarrow> ('a, 'q, list_entry) ex_call" where
  "add_task task s =
     (case el_insert task (ex_local_tasks s) of
        (Some e, l) \<Rightarrow> (Ok e, s\<lparr>ex_local_tasks := l\<rparr>)
      | (None, l) \<Rightarrow> (Panic, s\<lparr>ex_local_tasks := l\<rparr>))"

text \<open>The errors of these calls are the code's own, so they are values of the call.\<close>

type_synonym spawn_answer = "(executor_error, spawn_info) result"

definition sequenced_task :: "'a exec_task \<Rightarrow> list_entry \<Rightarrow> ('a, 'q, spawn_answer) ex_call" where
  "sequenced_task task parent s =
     (case ex_current_task s of
        None \<Rightarrow> (Panic, s)
      | Some current \<Rightarrow>
          if current \<noteq> parent then (Ok (Err ParentMustBeExecutingToLift), s)
          else bind (add_task task) (\<lambda>e. ret (Ok (spawn_info_new Sequenced (Some e) (Some parent)))) s)"

definition lift_task :: "'a exec_task \<Rightarrow> list_entry option \<Rightarrow> ('a, 'q, spawn_answer) ex_call" where
  "lift_task task parent s =
     (case parent of
        Some parent_handle \<Rightarrow>
          (case ex_current_task s of
             None \<Rightarrow> (Panic, s)
           | Some current \<Rightarrow>
               if current \<noteq> parent_handle then (Ok (Err ParentMustBeExecutingToLift), s)
               else bind (add_task task) (\<lambda>e. ret (Ok (spawn_info_new LiftedWithParent (Some e) parent))) s)
      | None \<Rightarrow>
          bind (add_task task) (\<lambda>e s. (Ok (Ok (spawn_info_new Lifted (Some e) parent)), push_front e s)) s)"

definition schedule_task :: "'a exec_task \<Rightarrow> ('a, 'q, spawn_answer) ex_call" where
  "schedule_task task =
     bind (add_task task) (\<lambda>e s. (Ok (Ok (spawn_info_new Scheduled (Some e) None)), push_back e s))"

definition broadcast_task :: "('a, 'q) task_queue \<Rightarrow> 'a exec_task \<Rightarrow> ('a, 'q, spawn_answer) ex_call" where
  "broadcast_task Q task s =
     (case tq_push Q task (ex_global_tasks s) of
        (None, q) \<Rightarrow> (Ok (Ok (spawn_info_new Broadcasted None None)), s\<lparr>ex_global_tasks := q\<rparr>)
      | (Some (Push_Full _), q) \<Rightarrow> (Ok (Err QueueFull), s\<lparr>ex_global_tasks := q\<rparr>)
      | (Some (Push_Closed _), q) \<Rightarrow> (Ok (Err QueueClosed), s\<lparr>ex_global_tasks := q\<rparr>))"

text \<open>\<open>LocalExecutionEngine\<close> passes the calls on, and tells the activities of a broadcast.\<close>

definition engine_broadcast :: "('a, 'q) task_queue \<Rightarrow> 'a exec_task \<Rightarrow> ('a, 'q, spawn_answer) ex_call" where
  "engine_broadcast Q task =
     bind (broadcast_task Q task) (\<lambda>r s.
       case r of
         Ok info \<Rightarrow>
           (case tq_activity Q (ex_global_tasks s) of
              (Some False, q) \<Rightarrow> (Ok (Err FailedToSendThreadActivity), s\<lparr>ex_global_tasks := q\<rparr>)
            | (_, q) \<Rightarrow> (Ok (Ok info), s\<lparr>ex_global_tasks := q\<rparr>))
       | _ \<Rightarrow> (Ok r, s))"

fun engine_call_run :: "('a, 'q) task_queue \<Rightarrow> 'a engine_call \<Rightarrow> ('a, 'q, spawn_answer) ex_call" where
  "engine_call_run Q (Call_sequenced task parent) = sequenced_task task parent"
| "engine_call_run Q (Call_lift task parent) = lift_task task parent"
| "engine_call_run Q (Call_schedule task) = schedule_task task"
| "engine_call_run Q (Call_broadcast task) = engine_broadcast Q task"

primrec run_prog :: "('a, 'q) task_queue \<Rightarrow> ('a, 'r) engine_prog \<Rightarrow> ('a, 'q, 'r) ex_call" where
  "run_prog Q (Prog_return x) = ret x"
| "run_prog Q (Prog_call c k) = bind (engine_call_run Q c) (\<lambda>r. run_prog Q (k r))"
| "run_prog Q Prog_panic = (\<lambda>s. (Panic, s))"

section \<open>One round\<close>

definition schedule_next :: "('a, 'q) task_queue \<Rightarrow> ('a, 'q, schedule_outcome) ex_call" where
  "schedule_next Q s =
     (if active_slots (ex_local_tasks s) > 0 \<and> ex_processing s \<noteq> [] then (Ok LocalTaskRunning, s)
      else case tq_pop Q (ex_global_tasks s) of
        (Some task, q) \<Rightarrow>
          bind (add_task task) (\<lambda>e s. (Ok GlobalTaskAcquired, push_front e s)) (s\<lparr>ex_global_tasks := q\<rparr>)
      | (None, q) \<Rightarrow> (Ok NoTaskRunningOrAcquired, s\<lparr>ex_global_tasks := q\<rparr>))"

definition request_global_task :: "('a, 'q) task_queue \<Rightarrow> ('a, 'q, progress) ex_call" where
  "request_global_task Q s =
     (if has_active_tasks s then (Ok (CanProgress None), s)
      else bind (schedule_next Q) (\<lambda>outcome s.
        case outcome of
          GlobalTaskAcquired \<Rightarrow> (Ok (CanProgress None), s)
        | NoTaskRunningOrAcquired \<Rightarrow>
            if has_sleeping_tasks s then (Ok (CanProgress None), s) else (Ok NoWork, s)
        | LocalTaskRunning \<Rightarrow> (Panic, s)) s)"

definition check_processing_queue :: "('a, 'q) executor \<Rightarrow> progress option" where
  "check_processing_queue s =
     (if ex_processing s = [] then
        if has_sleeping_tasks s then Some (CanProgress None) else Some NoWork
      else None)"

text \<open>\<open>unpark\<close> puts the task back; \<open>unpark\<close> and \<open>take\<close> drop it; a failing \<open>expect\<close> of a \<open>take\<close> panics.\<close>

definition unpark_task :: "list_entry \<Rightarrow> 'a exec_task \<Rightarrow> ('a, 'q) executor \<Rightarrow> ('a, 'q) executor" where
  "unpark_task e t s = s\<lparr>ex_local_tasks := snd (el_unpark e t (ex_local_tasks s))\<rparr>"

definition drop_task :: "list_entry \<Rightarrow> ('a, 'q) executor \<Rightarrow> ('a, 'q) executor" where
  "drop_task e s = s\<lparr>ex_local_tasks := snd (el_take e (ex_local_tasks s))\<rparr>"

definition take_task :: "list_entry \<Rightarrow> ('a, 'q, 'a exec_task) ex_call" where
  "take_task e s =
     (case el_take e (ex_local_tasks s) of
        (Some t, l) \<Rightarrow> (Ok t, s\<lparr>ex_local_tasks := l\<rparr>)
      | (None, l) \<Rightarrow> (Panic, s\<lparr>ex_local_tasks := l\<rparr>))"

definition combine_tasks ::
    "('a exec_task option \<Rightarrow> 'a exec_task option \<Rightarrow> 'a exec_task) \<Rightarrow> list_entry \<Rightarrow> list_entry \<Rightarrow> ('a, 'q, progress) ex_call" where
  "combine_tasks mk parent child =
     bind (take_task parent) (\<lambda>parent_task.
     bind (take_task child) (\<lambda>child_task.
     bind (add_task (mk (Some parent_task) (Some child_task))) (\<lambda>e s.
       (Ok (CanProgress (Some (St_SpawnFinished (spawn_info_new Lifted (Some e) None)))), push_front e s))))"

definition or_no_work :: "nat \<Rightarrow> exec_state option \<Rightarrow> progress" where
  "or_no_work remaining st = (if remaining = 0 then NoWork else CanProgress st)"

definition spawn_finished :: "list_entry \<Rightarrow> spawn_info \<Rightarrow> ('a, 'q, progress) ex_call" where
  "spawn_finished top_entry info s =
     (if \<not> has_parent_and_child info then
        (case si_type info of
           Lifted \<Rightarrow>
             (case si_parent info of
                Some child_entry \<Rightarrow> combine_tasks (Finish_child info) top_entry child_entry s
              | None \<Rightarrow> (Panic, s))
         | Broadcasted \<Rightarrow> (Ok (CanProgress (Some (St_SpawnFinished info))), push_front top_entry s)
         | SpawnNone \<Rightarrow> (Ok (CanProgress (Some (St_SpawnFinished info))), push_front top_entry s)
         | Scheduled \<Rightarrow> (Ok (CanProgress (Some (St_SpawnFinished info))), push_front top_entry s)
         | LiftedWithParent \<Rightarrow> (Panic, s)
         | Sequenced \<Rightarrow> (Panic, s))
      else
        (case si_type info of
           LiftedWithParent \<Rightarrow>
             if Some top_entry = si_parent info then combine_tasks (Finish_child info) top_entry (the (si_child info)) s
             else (Panic, s)
         | Sequenced \<Rightarrow>
             if Some top_entry = si_parent info then combine_tasks (Dual_linked info) top_entry (the (si_child info)) s
             else (Panic, s)
         | _ \<Rightarrow> (Ok (CanProgress (Some (St_SpawnFinished info))), push_front top_entry s)))"

definition pending_for :: "nat \<Rightarrow> list_entry \<Rightarrow> nat \<Rightarrow> ('a, 'q, progress) ex_call" where
  "pending_for now top_entry d =
     bind (pack_task_and_dependents top_entry) (\<lambda>_ s.
       case sleepers_insert (Timable (duration_waker_from_now now top_entry d)) (ex_sleepers s) of
         (None, sl) \<Rightarrow> (Panic, s\<lparr>ex_sleepers := sl\<rparr>)
       | (Some _, sl) \<Rightarrow>
           (Ok (if ex_processing s \<noteq> [] then CanProgress (Some (St_Pending (Some d))) else SpinWait d),
            s\<lparr>ex_sleepers := sl\<rparr>))"

text \<open>What is done with the answer of a task.\<close>

fun after_next :: "nat \<Rightarrow> nat \<Rightarrow> list_entry \<Rightarrow> 'a exec_task \<Rightarrow> exec_state option \<Rightarrow> ('a, 'q, progress) ex_call" where
  "after_next now remaining top_entry t None s = (Ok (or_no_work remaining None), drop_task top_entry (unpark_task top_entry t s))"
| "after_next now remaining top_entry t (Some st) s =
     (let s = unpark_task top_entry t s in
      case st of
        St_SpawnFailed _ \<Rightarrow> (Ok (or_no_work remaining (Some st)), drop_task top_entry s)
      | St_Panicked \<Rightarrow> (Ok (or_no_work remaining (Some st)), drop_task top_entry s)
      | St_SpawnFinished info \<Rightarrow> spawn_finished top_entry info s
      | St_Done \<Rightarrow> (Ok (or_no_work remaining (Some st)), drop_task top_entry s)
      | St_ReadyValue _ \<Rightarrow> (Ok (CanProgress (Some st)), push_front top_entry s)
      | St_Progressed \<Rightarrow> (Ok (CanProgress (Some st)), push_front top_entry s)
      | St_Pending (Some d) \<Rightarrow> pending_for now top_entry d s
      | St_Pending None \<Rightarrow> (Ok (CanProgress None), push_front top_entry s)
      | St_Reschedule \<Rightarrow> (Ok (CanProgress (Some st)), push_back top_entry s))"

definition run_top :: "('a, 'q) task_queue \<Rightarrow> ('a, 'a) leaf_next \<Rightarrow> nat \<Rightarrow> nat \<Rightarrow> list_entry \<Rightarrow> ('a, 'q, progress) ex_call" where
  "run_top Q nx now remaining top_entry s =
     (case el_park top_entry (ex_local_tasks s) of
        (None, l) \<Rightarrow> (Panic, s\<lparr>ex_local_tasks := l\<rparr>)
      | (Some t, l) \<Rightarrow>
          bind (run_prog Q (task_next nx t top_entry)) (\<lambda>(r, t'). after_next now remaining top_entry t' r)
            (s\<lparr>ex_local_tasks := l\<rparr>))"

definition do_work :: "('a, 'q) task_queue \<Rightarrow> ('a, 'a) leaf_next \<Rightarrow> nat \<Rightarrow> ('a, 'q, progress) ex_call" where
  "do_work Q nx now s =
     (case check_processing_queue s of
        Some inner \<Rightarrow> (Ok inner, s)
      | None \<Rightarrow>
          let top_entry = hd (ex_processing s); rest = tl (ex_processing s); s = s\<lparr>ex_processing := rest\<rparr> in
          if is_packed top_entry s then (Ok (CanProgress None), s)
          else run_top Q nx now (length rest) top_entry (s\<lparr>ex_current_task := Some top_entry\<rparr>))"

definition idle_increment :: "round \<Rightarrow> ('a, 'q, progress) ex_call" where
  "idle_increment rd s =
     (case increment (rd_draw rd) (ex_idler s) of
        (Ok (Some next_dur), m) \<Rightarrow> (Ok (SpinWait next_dur), s\<lparr>ex_idler := m\<rparr>)
      | (Ok None, m) \<Rightarrow> (Ok NoWork, s\<lparr>ex_idler := m\<rparr>)
      | (_, m) \<Rightarrow> (Panic, s\<lparr>ex_idler := m\<rparr>))"

definition after_work :: "('a, 'q) task_queue \<Rightarrow> round \<Rightarrow> progress \<Rightarrow> ('a, 'q, progress) ex_call" where
  "after_work Q rd p s =
     (case p of
        CanProgress st \<Rightarrow> (Ok (CanProgress st), s)
      | NoWork \<Rightarrow>
          if has_sleeping_tasks s then
            (case sleepers_max_duration (\<lambda>i. sleepable_remaining (rd_after rd i)) (ex_sleepers s) of
               Some d \<Rightarrow> (Ok (SpinWait d), s)
             | None \<Rightarrow> (Ok (CanProgress None), s))
          else idle_increment rd (s\<lparr>ex_current_task := None\<rparr>)
      | SpinWait d \<Rightarrow>
          if has_inflight_task s then (Ok (CanProgress None), s)
          else if has_incoming_global_tasks Q s then (Ok (CanProgress None), s)
          else bind (schedule_next Q) (\<lambda>outcome s.
            case outcome of
              GlobalTaskAcquired \<Rightarrow> (Ok (CanProgress None), s)
            | NoTaskRunningOrAcquired \<Rightarrow> (Ok (SpinWait d), s)
            | LocalTaskRunning \<Rightarrow> (Panic, s)) (s\<lparr>ex_current_task := None\<rparr>))"

definition schedule_and_do_work :: "('a, 'q) task_queue \<Rightarrow> ('a, 'a) leaf_next \<Rightarrow> round \<Rightarrow> ('a, 'q, progress) ex_call" where
  "schedule_and_do_work Q nx rd =
     bind (request_global_task Q) (\<lambda>p.
       if p = NoWork then ret NoWork
       else bind (wakeup_ready_sleepers rd) (\<lambda>_.
              bind (do_work Q nx (rd_now rd)) (after_work Q rd)))"

text \<open>The loops of \<open>LocalThreadExecutor\<close>, over the rounds the world provides; \<open>None\<close> when they run out. With
  the waits that the \<open>ProcessController\<close> is asked for.\<close>

fun run_until :: "('a, 'q) task_queue \<Rightarrow> ('a, 'a) leaf_next \<Rightarrow> nat \<Rightarrow> (progress \<Rightarrow> bool) \<Rightarrow> round list
    \<Rightarrow> ('a, 'q) executor \<Rightarrow> ((hang, nat list) result \<times> ('a, 'q) executor) option" where
  "run_until Q nx no_work_yield checker [] s = None"
| "run_until Q nx no_work_yield checker (rd # rds) s =
     (case schedule_and_do_work Q nx rd s of
        (Ok response, s) \<Rightarrow>
          if checker response then Some (Ok [], s)
          else (case response of
                  SpinWait d \<Rightarrow>
                    map_option (\<lambda>(r, s). (rbind r (\<lambda>ds. Ok (d # ds)), s)) (run_until Q nx no_work_yield checker rds s)
                | _ \<Rightarrow>
                    if response = NoWork \<and> total_tasks s = 0 then Some (Ok [], s)
                    else map_option (\<lambda>(r, s). (rbind r (\<lambda>ds. Ok (no_work_yield # ds)), s))
                           (run_until Q nx no_work_yield checker rds s))
      | (Err e, s) \<Rightarrow> Some (Err e, s)
      | (Panic, s) \<Rightarrow> Some (Panic, s))"

fun block_until_finished :: "('a, 'q) task_queue \<Rightarrow> ('a, 'a) leaf_next \<Rightarrow> nat \<Rightarrow> nat \<Rightarrow> round list
    \<Rightarrow> ('a, 'q) executor \<Rightarrow> ((hang, nat list) result \<times> ('a, 'q) executor) option" where
  "block_until_finished Q nx no_work_yield turn [] s = None"
| "block_until_finished Q nx no_work_yield turn (rd # rds) s =
     (case schedule_and_do_work Q nx rd s of
        (Ok response, s) \<Rightarrow>
          if response = NoWork then Some (Ok [], s)
          else let waits = (case response of SpinWait d \<Rightarrow> [d] | _ \<Rightarrow> [])
                 @ (if Suc turn = 200 then [no_work_yield] else []) in
               map_option (\<lambda>(r, s). (rbind r (\<lambda>ds. Ok (waits @ ds)), s))
                 (block_until_finished Q nx no_work_yield (Suc turn mod 200) rds s)
      | (Err e, s) \<Rightarrow> Some (Err e, s)
      | (Panic, s) \<Rightarrow> Some (Panic, s))"

text \<open>\<open>block_on\<close> also looks at the signal to stop: \<open>kill k\<close> is what its \<open>k\<close>-th probe reads.\<close>

fun block_on :: "('a, 'q) task_queue \<Rightarrow> ('a, 'a) leaf_next \<Rightarrow> nat \<Rightarrow> (nat \<Rightarrow> bool) \<Rightarrow> nat \<Rightarrow> nat \<Rightarrow> round list
    \<Rightarrow> ('a, 'q) executor \<Rightarrow> ((hang, nat list) result \<times> ('a, 'q) executor) option" where
  "block_on Q nx no_work_yield kill k turn [] s = None"
| "block_on Q nx no_work_yield kill k turn (rd # rds) s =
     (let k = (if turn = 0 then Suc k else k) in
      if turn = 0 \<and> kill (k - 1) then Some (Ok [], s)
      else if kill k then Some (Ok [], s)
      else (case schedule_and_do_work Q nx rd s of
              (Ok response, s) \<Rightarrow>
                (case response of
                   CanProgress _ \<Rightarrow> block_on Q nx no_work_yield kill (k + 1) (Suc turn mod 200) rds s
                 | _ \<Rightarrow>
                     if kill (k + 1) then Some (Ok [], s)
                     else let wait = (case response of SpinWait d \<Rightarrow> d | _ \<Rightarrow> no_work_yield) in
                          map_option (\<lambda>(r, s). (rbind r (\<lambda>ds. Ok (wait # ds)), s))
                            (block_on Q nx no_work_yield kill (k + 2) (Suc turn mod 200) rds s))
            | (Err e, s) \<Rightarrow> Some (Err e, s)
            | (Panic, s) \<Rightarrow> Some (Panic, s)))"

end
