(* ===== verification/ExecutorLaws.thy ===== *)
theory ExecutorLaws
  imports Executor
begin

text \<open>
  The executor keeps its invariant and never panics.
\<close>

section \<open>Slot lists\<close>

lemma insert_packed: "el_inv l \<Longrightarrow> packed_entries (snd (el_insert x l)) = packed_entries l"
  by (rule el_insert_cases [of l x]) auto

lemma insert_items: "el_inv l \<Longrightarrow> length (entry_items l) \<le> length (entry_items (snd (el_insert x l)))"
  by (rule el_insert_cases [of l x]) auto

lemma take_packed: "packed_entries (snd (el_take e l)) = packed_entries l"
  by (rule el_take_cases [of e l]) auto

lemma packed_not_live: "el_inv l \<Longrightarrow> e \<in> set (packed_entries l) \<Longrightarrow> el_map l e = None"
  using el_inv_item_packed [of l e] by (simp add: el_map_def el_get_None)

lemma unpark_sole:
  assumes "el_inv l" "packed_entries l = [e]"
  shows "el_inv (snd (el_unpark e t l))" "packed_entries (snd (el_unpark e t l)) = []"
    "el_map (snd (el_unpark e t l)) = (el_map l)(e \<mapsto> t)"
  using assms el_inv_unpark [of l e t] el_unpark_map(3) [of l e t]
    by (auto simp: el_unpark_def find_packed_def)

text \<open>The entries that have a value, in slot order.\<close>

fun live_items :: "nat \<Rightarrow> (u64 \<times> 'a option) list \<Rightarrow> list_entry list" where
  "live_items i [] = []"
| "live_items i ((g, None) # its) = live_items (Suc i) its"
| "live_items i ((g, Some x) # its) = entry_at i g # live_items (Suc i) its"

lemma in_live_items:
  "e \<in> set (live_items i its) \<longleftrightarrow> (\<exists>j x. j < length its \<and> entry_id e = i + j \<and> its ! j = (entry_gen e, Some x))"
proof (induction i its rule: live_items.induct)
  case (2 i g its)
  then show ?case by (auto simp: less_Suc_eq_0_disj)
next
  case (3 i g x its)
  then show ?case by (auto simp: entry_eq_iff less_Suc_eq_0_disj)
qed simp

lemma distinct_live_items: "distinct (live_items i its)"
  by (induction i its rule: live_items.induct) (auto simp: in_live_items)

lemma length_live_items: "length (live_items i its) = length (map_items (\<lambda>_. Some) i its)"
  by (induction i its rule: live_items.induct) simp_all

lemma set_live_items: "set (live_items 0 (entry_items l)) = dom (el_map l)"
proof -
  have "e \<in> set (live_items 0 (entry_items l)) \<longleftrightarrow> el_map l e \<noteq> None" for e
    by (cases "el_map l e") (auto simp: in_live_items el_map_def el_get_Some el_get_None item_at_def split: if_splits)
  then show ?thesis by (auto simp: dom_def)
qed

lemma live_count: "length (el_values l) = card (dom (el_map l))"
  using distinct_card [OF distinct_live_items [of 0 "entry_items l"]]
  by (simp add: set_live_items length_live_items el_map_with_def)

lemma dom_finite: "finite (dom (el_map l))"
  using finite_set [of "live_items 0 (entry_items l)"] unfolding set_live_items .

lemma active_slots_live:
  assumes "el_inv l" "packed_entries l = []"
  shows "active_slots l = of_nat (length (el_values l))"
  using length_slots [of "entry_items l" 0] held_length [OF assms(1)] assms(2)
  by (simp add: active_slots_def allocated_slots_def open_slots_def el_map_with_def held_def)

lemma values_le_items: "length (el_values l) \<le> length (entry_items l)"
  using length_slots [of "entry_items l" 0] by (simp add: el_map_with_def)

section \<open>The invariant\<close>

definition sleeping :: "('a, 'q) executor \<Rightarrow> list_entry list" where
  "sleeping s = map sleepable_entry (el_values (ex_sleepers s))"

definition ex_live :: "('a, 'q) executor \<Rightarrow> list_entry \<Rightarrow> bool" where
  "ex_live s e \<longleftrightarrow> el_map (ex_local_tasks s) e \<noteq> None"

text \<open>An entry is queued or asleep at most once, and not both, and has a task then; the packed entries are the
  sleeping ones; no task has dependents, because nothing ever writes the task graph.\<close>

definition ex_base :: "('a, 'q) executor \<Rightarrow> bool" where
  "ex_base s \<longleftrightarrow>
     el_inv (ex_local_tasks s) \<and> el_inv (ex_sleepers s) \<and> packed_entries (ex_sleepers s) = [] \<and>
     ex_task_graph s = Map.empty \<and> distinct (ex_processing s @ sleeping s) \<and>
     (\<forall>e \<in> set (ex_processing s @ sleeping s). ex_live s e) \<and>
     (\<forall>e. is_packed e s \<longleftrightarrow> e \<in> set (sleeping s)) \<and> idle_inv (ex_idler s)"

definition ex_inv :: "('a, 'q) executor \<Rightarrow> bool" where
  "ex_inv s \<longleftrightarrow> ex_base s \<and> packed_entries (ex_local_tasks s) = []"

text \<open>While a task runs, its entry is parked.\<close>

definition ex_running :: "list_entry \<Rightarrow> ('a, 'q) executor \<Rightarrow> bool" where
  "ex_running e s \<longleftrightarrow> ex_base s \<and> packed_entries (ex_local_tasks s) = [e] \<and> ex_current_task s = Some e"

lemma running_not_queued:
  assumes "ex_running e s" shows "\<not> ex_live s e" "e \<notin> set (ex_processing s)" "e \<notin> set (sleeping s)"
  using assms packed_not_live [of "ex_local_tasks s" e] by (force simp: ex_running_def ex_base_def ex_live_def)+

text \<open>An info handed out to the running task names a child that is waiting to be combined with it.\<close>

definition child_waits :: "('a, 'q) executor \<Rightarrow> list_entry \<Rightarrow> bool" where
  "child_waits s c \<longleftrightarrow> ex_live s c \<and> c \<notin> set (ex_processing s) \<and> c \<notin> set (sleeping s)"

definition info_ok :: "list_entry \<Rightarrow> ('a, 'q) executor \<Rightarrow> spawn_info \<Rightarrow> bool" where
  "info_ok e s i \<longleftrightarrow>
     (case si_type i of
        LiftedWithParent \<Rightarrow> si_parent i = Some e \<and> (\<exists>c. si_child i = Some c \<and> child_waits s c)
      | Sequenced \<Rightarrow> si_parent i = Some e \<and> (\<exists>c. si_child i = Some c \<and> child_waits s c)
      | Lifted \<Rightarrow> True
      | _ \<Rightarrow> si_parent i = None)"

section \<open>The engine\<close>

lemma sleeping_upd [simp]:
  "sleeping (s\<lparr>ex_local_tasks := l\<rparr>) = sleeping s" "sleeping (s\<lparr>ex_global_tasks := q\<rparr>) = sleeping s"
  "sleeping (s\<lparr>ex_processing := ps\<rparr>) = sleeping s" "sleeping (s\<lparr>ex_packed_tasks := pk\<rparr>) = sleeping s"
  "sleeping (s\<lparr>ex_current_task := c\<rparr>) = sleeping s" "sleeping (s\<lparr>ex_idler := m\<rparr>) = sleeping s"
  by (simp_all add: sleeping_def)

lemma live_upd [simp]:
  "ex_live (s\<lparr>ex_sleepers := sl\<rparr>) = ex_live s" "ex_live (s\<lparr>ex_global_tasks := q\<rparr>) = ex_live s"
  "ex_live (s\<lparr>ex_processing := ps\<rparr>) = ex_live s" "ex_live (s\<lparr>ex_packed_tasks := pk\<rparr>) = ex_live s"
  "ex_live (s\<lparr>ex_current_task := c\<rparr>) = ex_live s" "ex_live (s\<lparr>ex_idler := m\<rparr>) = ex_live s"
  by (simp_all add: ex_live_def fun_eq_iff)

lemma is_packed_upd [simp]:
  "is_packed e (s\<lparr>ex_local_tasks := l\<rparr>) = is_packed e s" "is_packed e (s\<lparr>ex_global_tasks := q\<rparr>) = is_packed e s"
  "is_packed e (s\<lparr>ex_processing := ps\<rparr>) = is_packed e s" "is_packed e (s\<lparr>ex_sleepers := sl\<rparr>) = is_packed e s"
  "is_packed e (s\<lparr>ex_current_task := c\<rparr>) = is_packed e s" "is_packed e (s\<lparr>ex_idler := m\<rparr>) = is_packed e s"
  by (simp_all add: is_packed_def)

lemma add_task_run:
  assumes "ex_base s"
  obtains e l where "add_task t s = (Ok e, s\<lparr>ex_local_tasks := l\<rparr>)" "\<not> ex_live s e"
    "el_map l = (el_map (ex_local_tasks s))(e \<mapsto> t)" "el_inv l" "packed_entries l = packed_entries (ex_local_tasks s)"
    "length (entry_items (ex_local_tasks s)) \<le> length (entry_items l)"
proof -
  let ?l = "ex_local_tasks s"
  have inv: "el_inv ?l" using assms by (simp add: ex_base_def)
  obtain e where "fst (el_insert t ?l) = Some e" "el_map ?l e = None" "el_map (snd (el_insert t ?l)) = (el_map ?l)(e \<mapsto> t)"
    using el_insert_map [OF inv, of t] by blast
  then show thesis
    using that [of e "snd (el_insert t ?l)"] el_inv_insert [OF inv, of t] insert_packed [OF inv, of t] insert_items [OF inv, of t]
    by (cases "el_insert t ?l") (simp add: add_task_def ex_live_def)
qed

lemma base_add:
  assumes "ex_base s" "el_map l = (el_map (ex_local_tasks s))(e \<mapsto> t)" "el_inv l"
  shows "ex_base (s\<lparr>ex_local_tasks := l\<rparr>)"
  using assms by (auto simp: ex_base_def ex_live_def)

lemma base_queue:
  assumes "ex_base s" "ex_live s e" "e \<notin> set (ex_processing s)" "e \<notin> set (sleeping s)"
  shows "ex_base (push_front e s)" "ex_base (push_back e s)"
  using assms by (auto simp: ex_base_def push_front_def push_back_def)

text \<open>A call that does not panic keeps the basic invariant, and nothing is parked by it.\<close>

definition ex_grows :: "('a, 'q) executor \<Rightarrow> ('a, 'q) executor \<Rightarrow> bool" where
  "ex_grows s s' \<longleftrightarrow>
     ex_base s' \<and> packed_entries (ex_local_tasks s') = packed_entries (ex_local_tasks s)
     \<and> ex_current_task s' = ex_current_task s \<and> ex_sleepers s' = ex_sleepers s
     \<and> el_map (ex_local_tasks s) \<subseteq>\<^sub>m el_map (ex_local_tasks s')
     \<and> (\<forall>e. ex_live s e \<longrightarrow> e \<in> set (ex_processing s') \<longrightarrow> e \<in> set (ex_processing s))
     \<and> length (entry_items (ex_local_tasks s)) \<le> length (entry_items (ex_local_tasks s'))"

lemma grows_live: "ex_grows s s' \<Longrightarrow> ex_live s e \<Longrightarrow> ex_live s' e"
  by (auto simp: ex_grows_def ex_live_def map_le_def dom_def)

lemma grows_info: "ex_grows s s' \<Longrightarrow> info_ok e s i \<Longrightarrow> info_ok e s' i"
  using grows_live [of s s']
  by (auto simp: info_ok_def child_waits_def ex_grows_def sleeping_def split: spawn_type.splits)

lemma grows_refl: "ex_base s \<Longrightarrow> ex_grows s s"
  by (simp add: ex_grows_def)

lemma grows_trans: "ex_grows s s' \<Longrightarrow> ex_grows s' s'' \<Longrightarrow> ex_grows s s''"
  using grows_live [of s s'] by (auto simp: ex_grows_def intro: map_le_trans)

lemma grows_running: "ex_grows s s' \<Longrightarrow> ex_running e s \<Longrightarrow> ex_running e s'"
  by (simp add: ex_grows_def ex_running_def)

lemma grows_add:
  assumes "ex_base s" "\<not> ex_live s e" "el_map l = (el_map (ex_local_tasks s))(e \<mapsto> t)" "el_inv l"
    "packed_entries l = packed_entries (ex_local_tasks s)" "length (entry_items (ex_local_tasks s)) \<le> length (entry_items l)"
    "ps = ex_processing s \<or> ps = e # ex_processing s \<or> ps = ex_processing s @ [e]"
  shows "ex_grows s (s\<lparr>ex_local_tasks := l, ex_processing := ps\<rparr>)"
proof -
  have fresh: "e \<notin> set (ex_processing s)" "e \<notin> set (sleeping s)" using assms(1,2) by (auto simp: ex_base_def)
  have "ex_base (s\<lparr>ex_local_tasks := l, ex_processing := ps\<rparr>)"
    using assms fresh by (auto simp: ex_base_def ex_live_def)
  then show ?thesis using assms by (auto simp: ex_grows_def map_le_def ex_live_def)
qed

lemma grows_global: "ex_base s \<Longrightarrow> ex_grows s (s\<lparr>ex_global_tasks := q\<rparr>)"
  by (auto simp: ex_grows_def ex_base_def)

text \<open>What a call answers, when it does.\<close>

definition answer_ok :: "('a, 'q) executor \<Rightarrow> 'a engine_call \<Rightarrow> spawn_answer \<Rightarrow> bool" where
  "answer_ok s c r \<longleftrightarrow>
     (case r of Ok i \<Rightarrow> si_type i = call_type c \<and> (\<forall>e. ex_current_task s = Some e \<longrightarrow> info_ok e s i)
      | Err _ \<Rightarrow> True | Panic \<Rightarrow> False)"


lemma add_task_grows:
  assumes "ex_base s"
  obtains e l where "add_task t s = (Ok e, s\<lparr>ex_local_tasks := l\<rparr>)" "ex_grows s (s\<lparr>ex_local_tasks := l\<rparr>)"
    "child_waits (s\<lparr>ex_local_tasks := l\<rparr>) e" "ex_grows s (push_front e (s\<lparr>ex_local_tasks := l\<rparr>))"
    "ex_grows s (push_back e (s\<lparr>ex_local_tasks := l\<rparr>))" "\<not> ex_live s e"
    "el_map l = (el_map (ex_local_tasks s))(e \<mapsto> t)"
proof -
  obtain e l where add: "add_task t s = (Ok e, s\<lparr>ex_local_tasks := l\<rparr>)" "\<not> ex_live s e"
    "el_map l = (el_map (ex_local_tasks s))(e \<mapsto> t)" "el_inv l" "packed_entries l = packed_entries (ex_local_tasks s)"
    "length (entry_items (ex_local_tasks s)) \<le> length (entry_items l)"
    using add_task_run [OF assms] by blast
  have fresh: "e \<notin> set (ex_processing s)" "e \<notin> set (sleeping s)" using assms add(2) by (auto simp: ex_base_def)
  note grows = grows_add [OF assms add(2-6)]
  have "child_waits (s\<lparr>ex_local_tasks := l\<rparr>) e" using fresh add(3) by (simp add: child_waits_def ex_live_def)
  then show thesis
    using that [OF add(1) _ _ _ _ add(2,3)] grows [of "ex_processing s"] grows [of "e # ex_processing s"]
      grows [of "ex_processing s @ [e]"] by (simp add: push_front_def push_back_def)
qed

lemma engine_call_runs:
  assumes "ex_base s"
  shows "engine_call_run Q c s = (Panic, s) \<and> ex_current_task s = None
    \<or> (\<exists>r s'. engine_call_run Q c s = (Ok r, s') \<and> ex_grows s s' \<and> answer_ok s' c r)"
proof (cases c)
  case (Call_broadcast t)
  have "ex_grows s (s\<lparr>ex_global_tasks := q\<rparr>)" for q by (rule grows_global [OF assms])
  then show ?thesis
    by (auto simp: Call_broadcast engine_broadcast_def broadcast_task_def bind_def answer_ok_def info_ok_def
        spawn_info_new_def split: prod.split option.split push_error.split bool.split)
next
  case (Call_schedule t)
  show ?thesis
    by (rule add_task_grows [OF assms, of t])
      (auto simp: Call_schedule schedule_task_def bind_def answer_ok_def info_ok_def spawn_info_new_def)
next
  case (Call_sequenced t p)
  show ?thesis
    by (rule add_task_grows [OF assms, of t])
      (auto simp: Call_sequenced sequenced_task_def bind_def ret_def answer_ok_def info_ok_def spawn_info_new_def
        grows_refl [OF assms] split: option.split)
next
  case (Call_lift t p)
  show ?thesis
    by (rule add_task_grows [OF assms, of t])
      (auto simp: Call_lift lift_task_def bind_def ret_def answer_ok_def info_ok_def spawn_info_new_def
        grows_refl [OF assms] split: option.split)
qed

text \<open>A running task that keeps to the rules: its program returns, and what it returns is allowed.\<close>

lemma run_prog_runs:
  assumes "prog_all P infos m" "ex_running e s" "\<forall>i \<in> infos. info_ok e s i"
  obtains x "is" s' where "run_prog Q m s = (Ok x, s')" "ex_grows s s'" "\<forall>i \<in> is. info_ok e s' i" "P is x"
  using assms
proof (induction m arbitrary: infos s thesis)
  case (Prog_return x)
  then show ?case using grows_refl [of s] by (auto simp: ret_def ex_running_def)
next
  case (Prog_call c k)
  have "ex_base s" "ex_current_task s = Some e" using Prog_call.prems by (simp_all add: ex_running_def)
  then obtain r s1 where r: "engine_call_run Q c s = (Ok r, s1)" "ex_grows s s1" "answer_ok s1 c r"
    using engine_call_runs [of s Q c] by auto
  have running: "ex_running e s1" using grows_running [OF r(2) Prog_call.prems(3)] .
  have kept: "\<forall>i \<in> infos. info_ok e s1 i" using Prog_call.prems(4) grows_info [OF r(2)] by blast
  define infos' where "infos' = (case r of Ok i \<Rightarrow> insert i infos | _ \<Rightarrow> infos)"
  have "prog_all P infos' (k r)" "\<forall>i \<in> infos'. info_ok e s1 i"
    using r(3) Prog_call.prems(2) running kept
    by (auto simp: answer_ok_def infos'_def ex_running_def split: result.splits)
  from Prog_call.IH [OF rangeI _ this(1) running this(2)] obtain x "is" s' where
    "run_prog Q (k r) s1 = (Ok x, s')" "ex_grows s1 s'" "\<forall>i \<in> is. info_ok e s' i" "P is x" by metis
  then show ?case
    using Prog_call.prems(1) [of x s' "is"] r(1) grows_trans [OF r(2)] by (auto simp: bind_def)
qed simp

section \<open>After a task has run\<close>

lemma dependents_empty [simp]: "dependents_from Map.empty e = Some []"
  by (simp add: dependents_from.simps)

lemma no_dependents: "ex_base s \<Longrightarrow> get_task_dependents e s = (Ok [], s)"
  by (simp add: get_task_dependents_def ex_base_def)

text \<open>The entry of a task that is neither queued nor asleep.\<close>

definition at_hand :: "list_entry \<Rightarrow> ('a, 'q) executor \<Rightarrow> bool" where
  "at_hand e s \<longleftrightarrow> ex_inv s \<and> child_waits s e"

lemma unpark_at_hand:
  assumes "ex_running e s"
  shows "at_hand e (unpark_task e t s)" "child_waits s c \<Longrightarrow> child_waits (unpark_task e t s) c \<and> c \<noteq> e"
proof -
  let ?l = "ex_local_tasks s"
  have l: "el_inv ?l" "packed_entries ?l = [e]" using assms by (simp_all add: ex_running_def ex_base_def)
  show "at_hand e (unpark_task e t s)"
    using assms running_not_queued [OF assms] unpark_sole [OF l, of t]
    by (auto simp: at_hand_def child_waits_def ex_inv_def ex_base_def unpark_task_def ex_running_def ex_live_def)
  show "child_waits s c \<Longrightarrow> child_waits (unpark_task e t s) c \<and> c \<noteq> e"
    using running_not_queued [OF assms] unpark_sole(3) [OF l, of t] by (auto simp: child_waits_def unpark_task_def ex_live_def)
qed

lemma take_at_hand:
  assumes "at_hand e s"
  obtains t where "take_task e s = (Ok t, drop_task e s)" "ex_inv (drop_task e s)"
    "\<And>c. child_waits s c \<Longrightarrow> c \<noteq> e \<Longrightarrow> child_waits (drop_task e s) c"
proof -
  let ?l = "ex_local_tasks s"
  have inv: "el_inv ?l" "ex_live s e" using assms by (auto simp: at_hand_def ex_inv_def ex_base_def child_waits_def)
  have m: "el_map (snd (el_take e ?l)) = (el_map ?l)(e := None)" by (rule el_take_map)
  have "ex_inv (drop_task e s)"
    using assms el_inv_take [OF inv(1), of e] take_packed [of e ?l]
    by (auto simp: at_hand_def child_waits_def ex_inv_def ex_base_def drop_task_def ex_live_def m)
  moreover have "child_waits (drop_task e s) c" if "child_waits s c" "c \<noteq> e" for c
    using that by (simp add: drop_task_def child_waits_def ex_live_def m)
  moreover obtain t where "take_task e s = (Ok t, drop_task e s)"
    using inv(2) el_take_result [of e ?l] by (cases "el_take e ?l") (auto simp: take_task_def drop_task_def ex_live_def)
  ultimately show thesis using that by blast
qed

lemma at_hand_queued:
  assumes "at_hand e s" shows "ex_inv (push_front e s)" "ex_inv (push_back e s)"
  using assms base_queue [of s e] by (auto simp: at_hand_def ex_inv_def child_waits_def push_front_def push_back_def)

lemma combine_runs:
  assumes "at_hand e s" "child_waits s c" "c \<noteq> e"
  obtains e' s' where "combine_tasks mk e c s = (Ok (CanProgress (Some (St_SpawnFinished (spawn_info_new Lifted (Some e') None)))), s')"
    "ex_inv s'" "ex_live s' e'"
proof -
  obtain t where t: "take_task e s = (Ok t, drop_task e s)" "ex_inv (drop_task e s)" "child_waits (drop_task e s) c"
    using take_at_hand [OF assms(1)] assms(2,3) by metis
  let ?s = "drop_task e s"
  obtain t' where t': "take_task c ?s = (Ok t', drop_task c ?s)" "ex_inv (drop_task c ?s)"
    using take_at_hand [of c ?s] t by (auto simp: at_hand_def)
  let ?s' = "drop_task c ?s"
  have base: "ex_base ?s'" using t'(2) by (simp add: ex_inv_def)
  show thesis
  proof (rule add_task_grows [OF base, of "mk (Some t) (Some t')"])
    fix e' l
    assume a: "add_task (mk (Some t) (Some t')) ?s' = (Ok e', ?s'\<lparr>ex_local_tasks := l\<rparr>)"
      "ex_grows ?s' (push_front e' (?s'\<lparr>ex_local_tasks := l\<rparr>))" "el_map l = (el_map (ex_local_tasks ?s'))(e' \<mapsto> mk (Some t) (Some t'))"
    show thesis
      using that [of e' "push_front e' (?s'\<lparr>ex_local_tasks := l\<rparr>)"] a t t'
      by (simp add: combine_tasks_def bind_def ex_grows_def ex_inv_def ex_live_def push_front_def)
  qed
qed

lemma sleeping_inserted:
  assumes "ex_base s" "el_insert x (ex_sleepers s) = (r, sl)"
  shows "r \<noteq> None" "mset (sleeping (s\<lparr>ex_sleepers := sl\<rparr>)) = add_mset (sleepable_entry x) (mset (sleeping s))"
    "el_inv sl" "packed_entries sl = []"
proof -
  have inv: "el_inv (ex_sleepers s)" "packed_entries (ex_sleepers s) = []" using assms(1) by (simp_all add: ex_base_def)
  show "r \<noteq> None" by (rule el_insert_map [OF inv(1), of x]) (simp add: assms(2))
  show "mset (sleeping (s\<lparr>ex_sleepers := sl\<rparr>)) = add_mset (sleepable_entry x) (mset (sleeping s))"
    using el_values_insert [OF inv(1), of x] assms(2) by (simp add: sleeping_def)
  show "el_inv sl" "packed_entries sl = []"
    using el_inv_insert [OF inv(1), of x] insert_packed [OF inv(1), of x] inv(2) assms(2) by simp_all
qed

lemma pending_runs:
  assumes "at_hand e s"
  obtains s' where "pending_for now e d s =
      (Ok (if ex_processing s \<noteq> [] then CanProgress (Some (St_Pending (Some d))) else SpinWait d), s')"
    "ex_inv s'" "e \<in> set (sleeping s')" "ex_processing s' = ex_processing s"
proof -
  let ?x = "Timable (duration_waker_from_now now e d)" and ?s = "set_packed e (Some True) s"
  have base: "ex_base s" "ex_live s e" "e \<notin> set (ex_processing s)" "e \<notin> set (sleeping s)"
    using assms by (simp_all add: at_hand_def ex_inv_def child_waits_def)
  obtain r sl where ins: "el_insert ?x (ex_sleepers s) = (r, sl)" by fastforce
  note sl = sleeping_inserted [OF base(1) ins]
  let ?s' = "?s\<lparr>ex_sleepers := sl\<rparr>"
  have entry: "sleepable_entry ?x = e" by (simp add: duration_waker_from_now_def duration_waker_new_def)
  have same: "sleeping ?s' = sleeping (s\<lparr>ex_sleepers := sl\<rparr>)" by (simp add: sleeping_def)
  have m: "mset (sleeping ?s') = mset (e # sleeping s)" using sl(2) by (simp only: same entry mset.simps)
  then have set: "set (sleeping ?s') = insert e (set (sleeping s))" using mset_eq_setD [OF m] by simp
  have "distinct (sleeping ?s')"
    using mset_eq_imp_distinct_iff [OF m] base by (simp add: ex_base_def)
  then have "ex_base ?s'"
    using base sl(3,4) set by (auto simp: ex_base_def is_packed_def set_packed_def ex_live_def)
  then have "ex_inv ?s'" using assms by (simp add: at_hand_def ex_inv_def set_packed_def)
  moreover have "get_task_dependents e ?s = (Ok [], ?s)"
    using base(1) by (simp add: get_task_dependents_def ex_base_def set_packed_def)
  then have "pending_for now e d s =
      (Ok (if ex_processing s \<noteq> [] then CanProgress (Some (St_Pending (Some d))) else SpinWait d), ?s')"
    using ins sl(1) by (auto simp: pending_for_def pack_task_and_dependents_def bind_def sleepers_insert_def set_packed_def)
  ultimately show thesis using that [of ?s'] set by (simp add: set_packed_def)
qed

text \<open>An info whose child, if it is to be combined, is not the entry itself.\<close>

definition combinable :: "list_entry \<Rightarrow> ('a, 'q) executor \<Rightarrow> spawn_info \<Rightarrow> bool" where
  "combinable e s i \<longleftrightarrow> info_ok e s i \<and> si_type i \<noteq> Lifted
     \<and> (si_type i \<in> {LiftedWithParent, Sequenced} \<longrightarrow> si_child i \<noteq> Some e)"

lemma spawn_finished_runs:
  fixes s :: "('a, 'q) executor"
  assumes "at_hand e s" "combinable e s i"
  obtains p s' where "spawn_finished e i s = (Ok p, s')" "ex_inv s'"
proof (cases "si_type i \<in> {LiftedWithParent, Sequenced}")
  case True
  then obtain c where c: "si_parent i = Some e" "si_child i = Some c" "child_waits s c" "c \<noteq> e"
    using assms(2) by (auto simp: info_ok_def combinable_def)
  define mk :: "'a exec_task option \<Rightarrow> 'a exec_task option \<Rightarrow> 'a exec_task"
    where "mk = (if si_type i = Sequenced then Dual_linked i else Finish_child i)"
  have "spawn_finished e i s = combine_tasks mk e c s"
    using True c by (auto simp: spawn_finished_def has_parent_and_child_def mk_def)
  then show thesis using that combine_runs [OF assms(1) c(3,4), of mk] by metis
next
  case False
  then have "si_parent i = None" "si_type i \<in> {Broadcasted, Scheduled, SpawnNone}"
    using assms(2) by (auto simp: combinable_def info_ok_def split: spawn_type.splits)
  then have "spawn_finished e i s = (Ok (CanProgress (Some (St_SpawnFinished i))), push_front e s)"
    by (auto simp: spawn_finished_def has_parent_and_child_def)
  then show thesis using that at_hand_queued [OF assms(1)] by simp
qed

lemma after_next_runs:
  assumes "ex_running e s" "\<forall>i \<in> infos. info_ok e s i" "spawn_allowed infos r"
  obtains p s' where "after_next now n e t r s = (Ok p, s')" "ex_inv s'"
proof -
  let ?s = "unpark_task e t s"
  note hand = unpark_at_hand(1) [OF assms(1), of t]
  have drop: "ex_inv (drop_task e ?s)" using take_at_hand [OF hand] by metis
  note queued = at_hand_queued [OF hand]
  show thesis
  proof (cases r)
    case (Some st)
    show thesis
    proof (cases st)
      case (St_SpawnFinished i)
      have i: "info_ok e s i" "si_type i \<noteq> Lifted"
        using assms(2,3) Some St_SpawnFinished by (auto simp: spawn_allowed_def info_ok_def spawn_info_new_def)
      then have "combinable e ?s i"
        using unpark_at_hand(2) [OF assms(1), of _ t] running_not_queued(1) [OF assms(1)]
        by (auto simp: combinable_def info_ok_def child_waits_def split: spawn_type.splits)
      then show thesis
        by (rule spawn_finished_runs [OF hand]) (use that Some St_SpawnFinished in simp)
    next
      case (St_Pending d)
      then show thesis
        using that Some queued by (cases d; simp add: Let_def) (metis pending_runs [OF hand])
    qed (use that Some drop queued in \<open>auto simp: Let_def\<close>)
  qed (use that drop in simp)
qed

section \<open>A round\<close>

lemma start_running:
  assumes "ex_inv s" "ex_processing s = e # rest"
  obtains t l where "el_park e (ex_local_tasks s) = (Some t, l)" "el_map (ex_local_tasks s) e = Some t"
    "ex_running e (s\<lparr>ex_processing := rest, ex_current_task := Some e, ex_local_tasks := l\<rparr>)"
proof -
  let ?l = "ex_local_tasks s" and ?l' = "snd (el_park e (ex_local_tasks s))"
  have base: "el_inv ?l" "packed_entries ?l = []" "ex_live s e" using assms by (simp_all add: ex_inv_def ex_base_def)
  then obtain t where t: "el_map ?l e = Some t" by (auto simp: ex_live_def)
  have packed: "packed_entries ?l' = [e]"
    by (rule el_park_cases [of e ?l]) (use base(2) t in \<open>auto simp: el_map_def\<close>)
  have "ex_running e (s\<lparr>ex_processing := rest, ex_current_task := Some e, ex_local_tasks := ?l'\<rparr>)"
    using assms base el_inv_park [OF base(1), of e] packed el_park_map(2) [of e ?l]
    by (auto simp: ex_running_def ex_inv_def ex_base_def ex_live_def)
  then show thesis using that [of t ?l'] t el_park_map(1) [of e ?l] by (cases "el_park e ?l") simp
qed

text \<open>An executor's tasks spawn tasks of their own kind.\<close>

locale executor_tasks = honest_tasks nx for nx :: "('a, 'a) leaf_next"
begin

lemma run_top_runs:
  assumes "ex_inv s" "ex_processing s = e # rest"
  obtains p s' where "run_top Q nx now n e (s\<lparr>ex_processing := rest, ex_current_task := Some e\<rparr>) = (Ok p, s')" "ex_inv s'"
proof -
  obtain t l where park: "el_park e (ex_local_tasks s) = (Some t, l)"
    and running: "ex_running e (s\<lparr>ex_processing := rest, ex_current_task := Some e, ex_local_tasks := l\<rparr>)"
    using start_running [OF assms] by blast
  have "prog_all (\<lambda>infos r. spawn_allowed infos (fst r)) {} (task_next nx t e)" by (rule task_next_allowed)
  then obtain x "is" s1 where x: "run_prog Q (task_next nx t e)
        (s\<lparr>ex_processing := rest, ex_current_task := Some e, ex_local_tasks := l\<rparr>) = (Ok x, s1)"
    "ex_grows (s\<lparr>ex_processing := rest, ex_current_task := Some e, ex_local_tasks := l\<rparr>) s1"
    "\<forall>i \<in> is. info_ok e s1 i" "spawn_allowed is (fst x)"
    using run_prog_runs [OF _ running, of _ "{}"] by (metis empty_iff)
  from after_next_runs [OF grows_running [OF x(2) running] x(3,4), of now n "snd x"]
  obtain p s' where "after_next now n e (snd x) (fst x) s1 = (Ok p, s')" "ex_inv s'" .
  then show thesis using that [of p s'] park x(1) by (simp add: run_top_def bind_def case_prod_beta)
qed

lemma do_work_runs:
  assumes "ex_inv s"
  obtains p s' where "do_work Q nx now s = (Ok p, s')" "ex_inv s'"
proof (cases "ex_processing s")
  case Nil
  then show thesis
    using that assms by (cases "has_sleeping_tasks s") (simp_all add: do_work_def check_processing_queue_def)
next
  case (Cons e rest)
  then have "\<not> is_packed e s" using assms by (auto simp: ex_inv_def ex_base_def)
  then show thesis
    using that run_top_runs [OF assms Cons, of Q now "length rest"] Cons
    by (auto simp: do_work_def check_processing_queue_def Let_def)
qed

end

text \<open>Waking.\<close>

definition woken :: "priority_order \<Rightarrow> list_entry list \<Rightarrow> list_entry list \<Rightarrow> list_entry list" where
  "woken po es ps = (case po of Order_Top \<Rightarrow> rev es @ ps | Order_Bottom \<Rightarrow> ps @ es)"

lemma wake_each_run:
  assumes "ex_task_graph s = Map.empty"
  shows "wake_each es s = (Ok (), s\<lparr>ex_packed_tasks := (\<lambda>e. if e \<in> set es then None else ex_packed_tasks s e),
    ex_processing := woken (ex_wakeup_priority s) es (ex_processing s)\<rparr>)"
  using assms
proof (induction es arbitrary: s)
  case Nil
  then show ?case by (simp add: woken_def split: priority_order.split)
next
  case (Cons e es)
  let ?s = "(if ex_wakeup_priority s = Order_Top then push_front e else push_back e) (set_packed e None s)"
  have "wake_up e s = (Ok (), ?s)"
    using Cons.prems
    by (cases "ex_wakeup_priority s") (simp_all add: wake_up_def bind_def get_task_dependents_def set_packed_def)
  then have "wake_each (e # es) s = wake_each es ?s" by (simp add: bind_def)
  also have "\<dots> = (Ok (), ?s\<lparr>ex_packed_tasks := (\<lambda>e. if e \<in> set es then None else ex_packed_tasks ?s e),
      ex_processing := woken (ex_wakeup_priority ?s) es (ex_processing ?s)\<rparr>)"
    by (rule Cons.IH) (use Cons.prems in \<open>simp add: push_front_def push_back_def set_packed_def\<close>)
  finally show ?case
    by (auto simp: woken_def push_front_def push_back_def set_packed_def fun_eq_iff split: priority_order.split)
qed

lemma wakeup_runs:
  assumes "ex_inv s" "sleepers_get_matured (\<lambda>i. sleepable_ready (rd_clock rd i) (rd_flags rd i)) (ex_sleepers s) = (xs, sl)"
  defines "s' \<equiv> s\<lparr>ex_sleepers := sl,
      ex_packed_tasks := (\<lambda>e. if e \<in> set (map sleepable_entry xs) then None else ex_packed_tasks s e),
      ex_processing := woken (ex_wakeup_priority s) (map sleepable_entry xs) (ex_processing s)\<rparr>"
  shows "wakeup_ready_sleepers rd s = (Ok (), s')" "ex_inv s'"
    "mset (sleeping s) = mset (map sleepable_entry xs) + mset (sleeping s')"
proof -
  let ?p = "\<lambda>i. sleepable_ready (rd_clock rd i) (rd_flags rd i)" and ?es = "map sleepable_entry xs"
  have base: "ex_base s" using assms(1) by (simp add: ex_inv_def)
  have xs: "xs = fst (el_select_take ?p (ex_sleepers s))" "sl = snd (el_select_take ?p (ex_sleepers s))"
    using assms(2) by (simp_all add: sleepers_get_matured_def)
  have sl: "el_inv sl" "packed_entries sl = []"
    using base el_inv_select_take [of "ex_sleepers s" ?p] el_select_take_free(2) [of ?p "ex_sleepers s"]
    by (simp_all add: xs ex_base_def)
  show run: "wakeup_ready_sleepers rd s = (Ok (), s')"
    using base assms(2) wake_each_run [of "s\<lparr>ex_sleepers := sl\<rparr>" ?es]
    by (simp add: wakeup_ready_sleepers_def s'_def ex_base_def cong: if_cong)
  show m: "mset (sleeping s) = mset ?es + mset (sleeping s')"
    using arg_cong [OF el_values_select_take [of ?p "ex_sleepers s"], of "image_mset sleepable_entry"]
    unfolding xs(1,2) [symmetric] by (simp add: sleeping_def s'_def)
  have "mset (ex_processing s @ sleeping s) = mset (ex_processing s' @ sleeping s')"
    by (simp add: m s'_def woken_def split: priority_order.split)
  note d = mset_eq_imp_distinct_iff [OF this] mset_eq_setD [OF this]
  have "distinct (?es @ sleeping s')"
    using mset_eq_imp_distinct_iff [of "sleeping s" "?es @ sleeping s'"] m base by (simp add: ex_base_def)
  moreover have "set (sleeping s) = set ?es \<union> set (sleeping s')"
    using mset_eq_setD [of "sleeping s" "?es @ sleeping s'"] m by simp
  ultimately have "is_packed e s' \<longleftrightarrow> e \<in> set (sleeping s')" for e
    using base by (auto simp: is_packed_def s'_def ex_base_def)
  moreover have "ex_live s' = ex_live s" by (simp add: s'_def ex_live_def fun_eq_iff)
  ultimately show "ex_inv s'"
    using base d sl assms(1) by (simp add: ex_inv_def ex_base_def s'_def)
qed

lemma queued_le_live:
  assumes "ex_inv s"
  shows "length (ex_processing s) + length (sleeping s) \<le> card (dom (el_map (ex_local_tasks s)))"
proof -
  have "set (ex_processing s @ sleeping s) \<subseteq> dom (el_map (ex_local_tasks s))" "distinct (ex_processing s @ sleeping s)"
    using assms by (auto simp: ex_inv_def ex_base_def ex_live_def)
  then show ?thesis using card_mono [OF dom_finite] by (metis distinct_card length_append)
qed

lemma counts_exact:
  assumes "ex_inv s" "length (entry_items (ex_local_tasks s)) < 2 ^ 64"
  shows "unat (total_tasks s) = card (dom (el_map (ex_local_tasks s)))" "unat (number_of_sleepers s) = length (sleeping s)"
    "has_sleeping_tasks s \<longleftrightarrow> sleeping s \<noteq> []"
    "has_active_tasks s \<longleftrightarrow> length (sleeping s) < card (dom (el_map (ex_local_tasks s)))"
proof -
  let ?l = "ex_local_tasks s"
  have inv: "el_inv ?l" "packed_entries ?l = []" "el_inv (ex_sleepers s)" "packed_entries (ex_sleepers s) = []"
    using assms(1) by (simp_all add: ex_inv_def ex_base_def)
  have le: "length (sleeping s) \<le> card (dom (el_map ?l))" "card (dom (el_map ?l)) < 2 ^ 64"
    using queued_le_live [OF assms(1)] values_le_items [of ?l] assms(2) by (simp_all flip: live_count)
  have total: "total_tasks s = of_nat (card (dom (el_map ?l)))"
    using active_slots_live [OF inv(1,2)] by (simp add: total_tasks_def live_count)
  have sleepers: "number_of_sleepers s = of_nat (length (sleeping s))"
    using active_slots_live [OF inv(3,4)] by (simp add: number_of_sleepers_def sleepers_count_def sleeping_def)
  show t: "unat (total_tasks s) = card (dom (el_map ?l))" using le(2) by (simp add: total unat_of_nat_small)
  show n: "unat (number_of_sleepers s) = length (sleeping s)" using le by (simp add: sleepers unat_of_nat_small)
  have "has_sleeping_tasks s \<longleftrightarrow> number_of_sleepers s \<noteq> 0"
    by (simp add: has_sleeping_tasks_def sleepers_has_pending_tasks_def number_of_sleepers_def sleepers_count_def word_neq_0_conv)
  then show "has_sleeping_tasks s \<longleftrightarrow> sleeping s \<noteq> []" using n by (metis length_0_conv unat_0 unat_eq_zero)
  have "has_active_tasks s \<longleftrightarrow> total_tasks s \<noteq> number_of_sleepers s"
    by (auto simp: has_active_tasks_def total_active_tasks_def word_neq_0_conv [symmetric])
  then show "has_active_tasks s \<longleftrightarrow> length (sleeping s) < card (dom (el_map ?l))"
    using t n le(1) by (metis order_le_less word_unat_eq_iff less_irrefl)
qed

text \<open>Without active tasks, every task is asleep.\<close>

lemma no_active_tasks:
  assumes "ex_inv s" "length (entry_items (ex_local_tasks s)) < 2 ^ 64" "\<not> has_active_tasks s"
  shows "ex_processing s = []" "dom (el_map (ex_local_tasks s)) = set (sleeping s)"
proof -
  have eq: "length (sleeping s) = card (dom (el_map (ex_local_tasks s)))"
    using counts_exact(4) [OF assms(1,2)] assms(3) queued_le_live [OF assms(1)] by simp
  then show "ex_processing s = []" using queued_le_live [OF assms(1)] by simp
  have "distinct (sleeping s)" "set (sleeping s) \<subseteq> dom (el_map (ex_local_tasks s))"
    using assms(1) by (auto simp: ex_inv_def ex_base_def ex_live_def)
  then show "dom (el_map (ex_local_tasks s)) = set (sleeping s)"
    using eq card_subset_eq [OF dom_finite] by (metis distinct_card)
qed

lemma schedule_next_runs:
  assumes "ex_inv s" "ex_processing s = []"
  obtains p s' where "schedule_next Q s = (Ok p, s')" "ex_inv s'" "p \<noteq> LocalTaskRunning"
proof -
  obtain r q where q: "tq_pop Q (ex_global_tasks s) = (r, q)" by fastforce
  let ?s = "s\<lparr>ex_global_tasks := q\<rparr>"
  have base: "ex_base ?s" "ex_inv ?s" using assms(1) by (simp_all add: ex_inv_def ex_base_def)
  show thesis
  proof (cases r)
    case None
    then show thesis using that [of NoTaskRunningOrAcquired ?s] q base assms(2) by (simp add: schedule_next_def)
  next
    case (Some t)
    show thesis
    proof (rule add_task_grows [OF base(1), of t])
      fix e l
      assume "add_task t ?s = (Ok e, ?s\<lparr>ex_local_tasks := l\<rparr>)" "ex_grows ?s (push_front e (?s\<lparr>ex_local_tasks := l\<rparr>))"
      then show thesis
        using that [of GlobalTaskAcquired "push_front e (?s\<lparr>ex_local_tasks := l\<rparr>)"] q base assms(2) Some
        by (simp add: schedule_next_def bind_def ex_grows_def ex_inv_def push_front_def)
    qed
  qed
qed

lemma increment_runs:
  assumes "idle_inv m" obtains d m' where "increment draw m = (Ok d, m')" "idle_inv m'"
proof -
  have "fst (increment draw m) \<noteq> Err err" for err
    by (auto simp: increment_def next_sleep_def try_reset_def Let_def exponential.never_Err
        split: sleepy_state.splits result.splits option.splits)
  then show thesis
    using that increment_inv [OF assms, of draw] by (cases "increment draw m"; cases "fst (increment draw m)") auto
qed

lemma after_work_runs:
  assumes "ex_inv s"
  obtains p' s' where "after_work Q rd p s = (Ok p', s')" "ex_inv s'"
proof -
  have idle: "ex_inv (s\<lparr>ex_current_task := None\<rparr>)" using assms by (simp add: ex_inv_def ex_base_def)
  show thesis
  proof (cases p)
    case NoWork
    obtain d m where m: "increment (rd_draw rd) (ex_idler s) = (Ok d, m)" "idle_inv m"
      using increment_runs assms by (metis ex_inv_def ex_base_def)
    then have "ex_inv (s\<lparr>ex_current_task := None, ex_idler := m\<rparr>)" using assms by (simp add: ex_inv_def ex_base_def)
    then show thesis
      using that assms m NoWork
      by (cases "has_sleeping_tasks s";
          cases "sleepers_max_duration (\<lambda>i. sleepable_remaining (rd_after rd i)) (ex_sleepers s)"; cases d)
        (simp_all add: after_work_def idle_increment_def)
  next
    case (SpinWait d)
    show thesis
    proof (cases "has_inflight_task s \<or> has_incoming_global_tasks Q s")
      case False
      then have "ex_processing (s\<lparr>ex_current_task := None\<rparr>) = []" by (simp add: has_inflight_task_def)
      from schedule_next_runs [OF idle this, of Q] obtain outcome s' where
        "schedule_next Q (s\<lparr>ex_current_task := None\<rparr>) = (Ok outcome, s')" "ex_inv s'" "outcome \<noteq> LocalTaskRunning" .
      then show thesis using that False SpinWait by (cases outcome) (auto simp: after_work_def bind_def)
    qed (use that assms SpinWait in \<open>auto simp: after_work_def\<close>)
  qed (use that assms in \<open>auto simp: after_work_def\<close>)
qed

lemma request_runs:
  assumes "ex_inv s" "length (entry_items (ex_local_tasks s)) < 2 ^ 64"
  obtains p s' where "request_global_task Q s = (Ok p, s')" "ex_inv s'"
proof (cases "has_active_tasks s")
  case False
  from schedule_next_runs [OF assms(1) no_active_tasks(1) [OF assms False], of Q] obtain outcome s' where
    o: "schedule_next Q s = (Ok outcome, s')" "ex_inv s'" "outcome \<noteq> LocalTaskRunning" .
  show thesis
    by (cases outcome; cases "has_sleeping_tasks s'") (use that o False in \<open>simp_all add: request_global_task_def bind_def\<close>)
qed (use that assms in \<open>simp add: request_global_task_def\<close>)

context executor_tasks begin

text \<open>A round returns, whatever the world shows it.\<close>

lemma round_runs:
  assumes "ex_inv s" "length (entry_items (ex_local_tasks s)) < 2 ^ 64"
  obtains p s' where "schedule_and_do_work Q nx rd s = (Ok p, s')" "ex_inv s'"
proof -
  obtain p1 s1 where r: "request_global_task Q s = (Ok p1, s1)" "ex_inv s1" using request_runs [OF assms] .
  show thesis
  proof (cases "p1 = NoWork")
    case False
    obtain xs sl where "sleepers_get_matured (\<lambda>i. sleepable_ready (rd_clock rd i) (rd_flags rd i)) (ex_sleepers s1) = (xs, sl)"
      by fastforce
    from wakeup_runs(1,2) [OF r(2) this] obtain s2 where w: "wakeup_ready_sleepers rd s1 = (Ok (), s2)" "ex_inv s2" by blast
    obtain p3 s3 where d: "do_work Q nx (rd_now rd) s2 = (Ok p3, s3)" "ex_inv s3" using do_work_runs [OF w(2)] .
    obtain p4 s4 where "after_work Q rd p3 s3 = (Ok p4, s4)" "ex_inv s4" using after_work_runs [OF d(2)] .
    then show thesis using that r(1) w(1) d(1) False by (simp add: schedule_and_do_work_def bind_def)
  qed (use that r in \<open>simp add: schedule_and_do_work_def bind_def ret_def\<close>)
qed

end

section \<open>Executors in use\<close>

text \<open>Rounds, calls from outside, and what other threads do to the shared queue.\<close>

inductive ex_reachable :: "('a, 'q) task_queue \<Rightarrow> ('a, 'a) leaf_next \<Rightarrow> ('a, 'q) executor \<Rightarrow> bool" for Q nx where
  Ex_new: "idle_inv m \<Longrightarrow> ex_reachable Q nx (executor_new q po m)"
| Ex_round: "ex_reachable Q nx s \<Longrightarrow> length (entry_items (ex_local_tasks s)) < 2 ^ 64
    \<Longrightarrow> schedule_and_do_work Q nx rd s = (Ok p, s') \<Longrightarrow> ex_reachable Q nx s'"
| Ex_call: "ex_reachable Q nx s \<Longrightarrow> engine_call_run Q c s = (Ok r, s') \<Longrightarrow> ex_reachable Q nx s'"
| Ex_others: "ex_reachable Q nx s \<Longrightarrow> ex_reachable Q nx (s\<lparr>ex_global_tasks := q\<rparr>)"

lemma ex_inv_new: "idle_inv m \<Longrightarrow> ex_inv (executor_new q po m)"
  by (simp add: ex_inv_def ex_base_def executor_new_def sleeping_def is_packed_def el_inv_new)
    (simp add: el_new_def el_map_with_def)

lemma ex_inv_call: "ex_inv s \<Longrightarrow> engine_call_run Q c s = (Ok r, s') \<Longrightarrow> ex_inv s'"
  using engine_call_runs [of s Q c] by (auto simp: ex_inv_def ex_grows_def)

context executor_tasks begin

lemma reachable_inv: "ex_reachable Q nx s \<Longrightarrow> ex_inv s"
proof (induction rule: ex_reachable.induct)
  case (Ex_round s rd p s')
  then show ?case using round_runs [of s Q rd] by (metis prod.inject)
next
  case (Ex_others s q)
  then show ?case by (simp add: ex_inv_def ex_base_def)
qed (auto intro: ex_inv_new ex_inv_call)

end

section \<open>Running an executor\<close>

text \<open>A round in which the clock stands still.\<close>

definition still :: "nat \<Rightarrow> round" where
  "still now = \<lparr>rd_clock = (\<lambda>_. now), rd_flags = (\<lambda>_ _. False), rd_now = now, rd_after = (\<lambda>_. now), rd_draw = (\<lambda>_. 0)\<rparr>"

lemma some_idler: obtains m where "idle_inv m" "im_base m = None" "im_counter m = 0" "im_max m = 3"
proof -
  obtain d where "exponential_default = Ok d" by (auto simp: exponential_default_def exponential_new_def jitter_ok_def DEFAULT_JITTER_def)
  then show thesis
    using that [of "idle_new 3 None (sleepy_new 3 d)"] exponential_default_ok [of d]
    by (simp add: idle_new_def sleepy_new_def idle_inv_def)
qed

lemmas executor_eval = schedule_and_do_work_def request_global_task_def has_active_tasks_def total_active_tasks_def
  total_tasks_def number_of_sleepers_def sleepers_count_def active_slots_def allocated_slots_def open_slots_def
  schedule_next_def bind_def ret_def add_task_def el_insert_def store_entry_def el_new_def executor_new_def
  push_front_def push_back_def wakeup_ready_sleepers_def sleepers_get_matured_def el_select_take_def
  do_work_def check_processing_queue_def is_packed_def run_top_def el_park_def item_at_def put_item_def
  unpark_task_def drop_task_def el_unpark_def find_packed_def update_packed_def el_take_def
  or_no_work_def after_work_def has_sleeping_tasks_def sleepers_has_pending_tasks_def still_def entry_at_def
  Let_def

end
