(* ===== verification/Executors.thy ===== *)
theory Executors
  imports ExecutorLaws
begin

text \<open>
  What the executor of \<open>local.rs\<close> does with its tasks: the properties, over the invariant of \<open>ExecutorLaws\<close>.
\<close>

section \<open>The tasks of the repository\<close>

interpretation do_next_executor: executor_tasks "do_next_next src spawn_action_apply"
  for src :: "('t, 'r, 'p, 't guarded_task spawn_action) task_source"
  by unfold_locales

interpretation collect_next_executor: executor_tasks "collect_next_next src spawn_action_apply"
  for src :: "('t, 'r, 'p, ('t, 'r) collecting spawn_action) task_source"
  by unfold_locales

interpretation consuming_executor: executor_tasks "consuming_next ch item src spawn_action_apply mp"
  for ch :: "('c, 'x) channel_ops" and item :: "('r, 'p, ('t, 'm, 'c) consuming spawn_action) iter_status \<Rightarrow> 'x option"
    and src and mp
  by unfold_locales

section \<open>Running a task over and over\<close>

fun task_runs :: "('a, 'q) task_queue \<Rightarrow> ('a, 'a) leaf_next \<Rightarrow> list_entry \<Rightarrow> nat \<Rightarrow> 'a exec_task
    \<Rightarrow> ('a, 'q, exec_state option list \<times> 'a exec_task) ex_call" where
  "task_runs Q nx e 0 t = ret ([], t)"
| "task_runs Q nx e (Suc n) t =
     bind (run_prog Q (task_next nx t e)) (\<lambda>(r, t). bind (task_runs Q nx e n t) (\<lambda>(rs, t). ret (r # rs, t)))"

lemma run_prog_bind: "run_prog Q (prog_bind m k) = bind (run_prog Q m) (\<lambda>x. run_prog Q (k x))"
proof (induction m)
  case (Prog_return x)
  then show ?case by (simp add: bind_ret)
next
  case (Prog_call c h)
  then show ?case by (simp add: bind_assoc)
qed (simp add: bind_def fun_eq_iff)

lemma task_runs_Suc:
  "task_runs Q nx e (Suc n) t s = (Ok (rs, t'), s') \<longleftrightarrow>
     (\<exists>r t1 s1 rs1. run_prog Q (task_next nx t e) s = (Ok (r, t1), s1) \<and>
        task_runs Q nx e n t1 s1 = (Ok (rs1, t'), s') \<and> rs = r # rs1)"
  by (auto simp: bind_eq_Ok ret_def)

declare task_runs.simps(2) [simp del]

lemma finish_child_goes_on:
  assumes "run_prog Q (task_next nx c e) s = (Ok (Some st, c'), s')" "st \<noteq> St_Done"
  shows "run_prog Q (task_next nx (Finish_child i p (Some c)) e) s = (Ok (Some st, Finish_child i p (Some c')), s')"
  using assms by (simp add: run_prog_bind bind_def ret_def Let_def)

lemma finish_child_turns:
  assumes "run_prog Q (task_next nx c e) s = (Ok (r, c'), s')" "r = None \<or> r = Some St_Done"
  shows "run_prog Q (task_next nx (Finish_child i p (Some c)) e) s = run_prog Q (task_next nx (Finish_child i p None) e) s'"
  using assms by (auto simp: run_prog_bind bind_def Let_def)

lemma parent_alone:
  assumes "run_prog Q (task_next nx p e) s = (Ok (r, p'), s')"
  shows "run_prog Q (task_next nx (Finish_child i (Some p) None) e) s
    = (Ok (r, Finish_child i (if r = None then None else Some p') None), s')"
  using assms by (simp add: run_prog_bind bind_def ret_def Let_def)

declare task_next.simps(2) [simp del]

lemma parent_alone_runs:
  assumes "task_runs Q nx e (Suc (length ps)) p s = (Ok (map Some ps @ [r], p'), s')"
  shows "\<exists>t. task_runs Q nx e (Suc (length ps)) (Finish_child i (Some p) None) s = (Ok (map Some ps @ [r], t), s')"
  using assms
proof (induction ps arbitrary: p s)
  case Nil
  then have "run_prog Q (task_next nx p e) s = (Ok (r, p'), s')" by (auto simp: task_runs_Suc ret_def)
  from parent_alone [OF this, of i] show ?case by (auto simp: task_runs_Suc ret_def)
next
  case (Cons st ps)
  then obtain p1 s1 where 1: "run_prog Q (task_next nx p e) s = (Ok (Some st, p1), s1)"
    "task_runs Q nx e (Suc (length ps)) p1 s1 = (Ok (map Some ps @ [r], p'), s')"
    by (auto simp: task_runs_Suc [of _ _ _ "Suc (length ps)"])
  from Cons.IH [OF 1(2)] parent_alone [OF 1(1), of i] show ?case
    by (simp add: task_runs_Suc [of _ _ _ "Suc (length ps)"])
qed

text \<open>C8: a lifted child runs first. Until the child has finished, the task made of it and its parent does what
  the child does, with the same effects on the executor and the same answers; from the call in which the
  child finishes it does what the parent does.\<close>

theorem lifted_child_runs_first:
  assumes "task_runs Q nx e (length cs) c s = (Ok (map Some cs, c1), s1)" "St_Done \<notin> set cs"
    and "run_prog Q (task_next nx c1 e) s1 = (Ok (r, c2), s2)" "r = None \<or> r = Some St_Done"
    and "task_runs Q nx e (Suc (length ps)) p s2 = (Ok (map Some ps @ [r'], p'), s3)"
  shows "\<exists>t. task_runs Q nx e (length cs + Suc (length ps)) (Finish_child i (Some p) (Some c)) s
    = (Ok (map Some cs @ map Some ps @ [r'], t), s3)"
  using assms(1,2)
proof (induction cs arbitrary: c s)
  case Nil
  then have c: "c1 = c" "s1 = s" by (simp_all add: ret_def)
  have "task_runs Q nx e (Suc (length ps)) (Finish_child i (Some p) (Some c)) s
      = task_runs Q nx e (Suc (length ps)) (Finish_child i (Some p) None) s2"
    using finish_child_turns [OF assms(3,4), of i "Some p"] unfolding task_runs.simps c bind_def by simp
  then show ?case using parent_alone_runs [OF assms(5), of i] by simp
next
  case (Cons st cs)
  then obtain c' s' where 1: "run_prog Q (task_next nx c e) s = (Ok (Some st, c'), s')"
    "task_runs Q nx e (length cs) c' s' = (Ok (map Some cs, c1), s1)" "st \<noteq> St_Done" "St_Done \<notin> set cs"
    by (auto simp: task_runs_Suc)
  have "length (st # cs) + Suc (length ps) = Suc (length cs + Suc (length ps))" by simp
  with Cons.IH [OF 1(2,4)] finish_child_goes_on [OF 1(1,3), of i "Some p"] show ?case
    unfolding list.map(2) append.simps by (metis task_runs_Suc)
qed


section \<open>Rounds\<close>

text \<open>C5: the executor does not fail. When no task panics and every task that says it has spawned says so with
  an info it was given, not one of a child lifted without a parent, no round panics or hangs, in any state of use
  with less than \<open>2^64\<close> slots: no \<open>unreachable\<close>, \<open>expect\<close>, \<open>assert\<close> or \<open>unwrap\<close> of the executor is hit.\<close>

theorem executor_never_fails:
  assumes "\<And>x e. honest (nx x e)" "ex_reachable Q nx s" "length (entry_items (ex_local_tasks s)) < 2 ^ 64"
  shows "\<exists>p s'. schedule_and_do_work Q nx rd s = (Ok p, s') \<and> ex_reachable Q nx s'"
proof -
  have tasks: "executor_tasks nx" using assms(1) by unfold_locales
  show ?thesis
    using executor_tasks.round_runs [OF tasks executor_tasks.reachable_inv [OF tasks assms(2)] assms(3), of Q rd]
      Ex_round [OF assms(2,3), of rd] by metis
qed

text \<open>C7: an entry is in the queue or asleep at most once, never both, and always has a task; the packed
  entries are the sleeping ones, nothing is left parked, and the counts the executor steers by are exact.\<close>

theorem executor_queues_exact:
  assumes "\<And>x e. honest (nx x e)" "ex_reachable Q nx s" "length (entry_items (ex_local_tasks s)) < 2 ^ 64"
  shows "distinct (ex_processing s @ sleeping s) \<and> set (ex_processing s @ sleeping s) \<subseteq> {e. ex_live s e}
    \<and> {e. is_packed e s} = set (sleeping s) \<and> packed_entries (ex_local_tasks s) = []
    \<and> unat (total_tasks s) = card {e. ex_live s e} \<and> unat (number_of_sleepers s) = length (sleeping s)
    \<and> (has_sleeping_tasks s \<longleftrightarrow> sleeping s \<noteq> []) \<and> (has_active_tasks s \<longleftrightarrow> (\<exists>e. ex_live s e \<and> e \<notin> set (sleeping s)))"
proof -
  have tasks: "executor_tasks nx" using assms(1) by unfold_locales
  have inv: "ex_inv s" using executor_tasks.reachable_inv [OF tasks assms(2)] .
  have live: "{e. ex_live s e} = dom (el_map (ex_local_tasks s))" by (auto simp: ex_live_def)
  have sub: "set (sleeping s) \<subseteq> {e. ex_live s e}" and len: "length (sleeping s) = card (set (sleeping s))"
    using inv by (auto simp: ex_inv_def ex_base_def distinct_card)
  have "finite {e. ex_live s e}" unfolding live by (rule dom_finite)
  then have "length (sleeping s) < card {e. ex_live s e} \<longleftrightarrow> set (sleeping s) \<noteq> {e. ex_live s e}"
    using sub psubset_card_mono [of "{e. ex_live s e}" "set (sleeping s)"] by (auto simp: len psubset_eq)
  also have "\<dots> \<longleftrightarrow> (\<exists>e. ex_live s e \<and> e \<notin> set (sleeping s))" using sub by blast
  finally have "has_active_tasks s \<longleftrightarrow> (\<exists>e. ex_live s e \<and> e \<notin> set (sleeping s))"
    using counts_exact(4) [OF inv assms(3)] by (simp add: live)
  moreover have "set (ex_processing s @ sleeping s) \<subseteq> {e. ex_live s e}" using inv by (auto simp: ex_inv_def ex_base_def)
  ultimately show ?thesis using inv counts_exact(1-3) [OF inv assms(3)] by (simp add: live ex_inv_def ex_base_def)
qed

text \<open>The sleepers are listed in slot order, and those that a scan takes out keep it.\<close>

lemma filter_chosen:
  assumes "distinct (map h ps)"
  shows "filter (\<lambda>e. e \<in> set (map h (filter P ps))) (map h ps) = map h (filter P ps)"
  using assms by (auto simp: filter_map distinct_map inj_on_def intro!: arg_cong [where f = "map h"] filter_cong) metis

lemma values_pairs: "map_items (\<lambda>_. Some) i its = map snd (live_pairs i its)"
  by (induction i its rule: live_pairs.induct) simp_all

lemma matured_in_order:
  assumes "distinct (map f (el_values l))" "xs = fst (el_select_take p l)"
  shows "filter (\<lambda>e. e \<in> set (map f xs)) (map f (el_values l)) = map f xs"
proof -
  let ?ps = "live_pairs 0 (entry_items l)"
  have "map f xs = map (f \<circ> snd) (filter (\<lambda>(e, x). p (entry_id e) x) ?ps)"
    by (simp add: assms(2) el_select_take_def select_items_eq select_pairs)
  moreover have "map f (el_values l) = map (f \<circ> snd) ?ps" by (simp add: el_map_with_def values_pairs)
  ultimately show ?thesis using filter_chosen [of "f \<circ> snd" ?ps] assms(1) by simp
qed

text \<open>C9: waking. When the clock shows from \<open>t0\<close> to \<open>t1\<close> during the scan, the tasks it wakes are among those whose
  time is over by \<open>t1\<close> and include all whose time was over at \<open>t0\<close>; they leave the sleepers and join the queue,
  in slot order at its end, or each in that order at its front, and nothing else moves. (\<open>sleeping\<close> lists the
  sleepers in slot order.)\<close>

theorem sleepers_wake_in_order:
  assumes "\<And>x e. honest (nx x e)" "ex_reachable Q nx s" "\<And>i. t0 \<le> rd_clock rd i \<and> rd_clock rd i \<le> t1"
  shows "\<exists>es s'. wakeup_ready_sleepers rd s = (Ok (), s') \<and> mset (sleeping s) = mset es + mset (sleeping s')
    \<and> filter (\<lambda>e. e \<in> set es) (sleeping s) = es
    \<and> ex_processing s' = (case ex_wakeup_priority s of Order_Top \<Rightarrow> rev es @ ex_processing s | Order_Bottom \<Rightarrow> ex_processing s @ es)
    \<and> ex_local_tasks s' = ex_local_tasks s \<and> ex_global_tasks s' = ex_global_tasks s
    \<and> (\<forall>w. Timable w \<in> set (el_values (ex_sleepers s)) \<longrightarrow>
         (dw_handle w \<in> set es \<longrightarrow> deadline w < t1) \<and>
         (deadline w < t0 \<and> deadline w < INSTANT_END \<longrightarrow> dw_handle w \<in> set es))"
proof -
  have tasks: "executor_tasks nx" using assms(1) by unfold_locales
  have inv: "ex_inv s" using executor_tasks.reachable_inv [OF tasks assms(2)] .
  let ?p = "\<lambda>i. sleepable_ready (rd_clock rd i) (rd_flags rd i)"
  obtain xs sl where m: "sleepers_get_matured ?p (ex_sleepers s) = (xs, sl)" by fastforce
  note w = wakeup_runs [OF inv m]
  let ?es = "map sleepable_entry xs"
  have xs: "xs = fst (el_select_take ?p (ex_sleepers s))" "sl = snd (el_select_take ?p (ex_sleepers s))"
    using m by (simp_all add: sleepers_get_matured_def)
  have split: "set (el_values (ex_sleepers s)) = set xs \<union> set (el_values sl)"
    using mset_eq_setD [of "xs @ el_values sl" "el_values (ex_sleepers s)"] el_values_select_take [of ?p "ex_sleepers s"]
    by (simp add: xs)
  have "distinct (?es @ map sleepable_entry (el_values sl))"
    using mset_eq_imp_distinct_iff [of "sleeping s" "?es @ map sleepable_entry (el_values sl)"] w(3) inv
    by (simp add: sleeping_def ex_inv_def ex_base_def)
  then have apart: "sleepable_entry x \<notin> set ?es" if "x \<in> set (el_values sl)" for x using that by auto
  have ready: "\<exists>i. ?p i x" if "x \<in> set xs" for x
  proof -
    have "xs = el_map_with (\<lambda>i x. if ?p i x then Some x else None) (ex_sleepers s)"
      by (simp add: xs el_select_take_def select_items_eq el_map_with_def)
    then show ?thesis using that by (auto simp: in_el_map_with split: if_splits)
  qed
  have unready: "\<exists>i. \<not> ?p i x" if "x \<in> set (el_values sl)" for x
    using that by (auto simp: in_el_map_with xs el_get_select_take)
  have "deadline v < t1" if "Timable v \<in> set xs" for v
    using ready [OF that] assms(3) by (auto simp: is_ready_iff intro: less_le_trans)
  moreover have "\<not> (deadline v < t0 \<and> deadline v < INSTANT_END)" if "Timable v \<in> set (el_values sl)" for v
    using unready [OF that] assms(3) by (auto simp: is_ready_iff not_less intro: order_trans)
  moreover have "dw_handle v \<in> set ?es" if "Timable v \<in> set xs" for v using that by force
  moreover have "dw_handle v \<notin> set ?es" if "Timable v \<in> set (el_values sl)" for v using apart [OF that] by simp
  ultimately have timed: "\<forall>v. Timable v \<in> set (el_values (ex_sleepers s)) \<longrightarrow> (dw_handle v \<in> set ?es \<longrightarrow> deadline v < t1)
      \<and> (deadline v < t0 \<and> deadline v < INSTANT_END \<longrightarrow> dw_handle v \<in> set ?es)"
    unfolding split by blast
  have order: "filter (\<lambda>e. e \<in> set ?es) (sleeping s) = ?es"
    unfolding sleeping_def by (rule matured_in_order [OF _ xs(1)]) (use inv in \<open>simp add: ex_inv_def ex_base_def sleeping_def\<close>)
  show ?thesis
    by (intro exI [of _ ?es] exI conjI, rule w(1), rule w(3), rule order) (use timed in \<open>simp_all add: woken_def\<close>)
qed

section \<open>A child that nobody waits for\<close>

text \<open>Rounds with what the shared queue holds at the start of each; with each answer and the queue left.\<close>

fun rounds_run :: "('a, 'q) task_queue \<Rightarrow> ('a, 'a) leaf_next \<Rightarrow> (round \<times> 'q) list \<Rightarrow> ('a, 'q) executor
    \<Rightarrow> ((hang, progress) result \<times> 'q) list \<times> ('a, 'q) executor" where
  "rounds_run Q nx [] s = ([], s)"
| "rounds_run Q nx ((rd, q) # rqs) s =
     (case schedule_and_do_work Q nx rd (s\<lparr>ex_global_tasks := q\<rparr>) of
        (r, s1) \<Rightarrow> (case rounds_run Q nx rqs s1 of (rs, s2) \<Rightarrow> ((r, ex_global_tasks s1) # rs, s2)))"

definition stuck_with :: "list_entry \<Rightarrow> 'a exec_task \<Rightarrow> ('a, 'q) executor \<Rightarrow> bool" where
  "stuck_with c t s \<longleftrightarrow> ex_inv s \<and> length (entry_items (ex_local_tasks s)) < 2 ^ 64
     \<and> el_map (ex_local_tasks s) c = Some t \<and> ex_processing s = [] \<and> sleeping s = []"

lemma no_sleepers_wakeup:
  assumes "ex_inv s" "sleeping s = []"
  obtains s' where "wakeup_ready_sleepers rd s = (Ok (), s')" "ex_inv s'" "ex_processing s' = ex_processing s"
    "sleeping s' = []" "ex_local_tasks s' = ex_local_tasks s" "ex_global_tasks s' = ex_global_tasks s"
    "ex_idler s' = ex_idler s"
proof -
  obtain xs sl where m: "sleepers_get_matured (\<lambda>i. sleepable_ready (rd_clock rd i) (rd_flags rd i)) (ex_sleepers s) = (xs, sl)"
    by fastforce
  note w = wakeup_runs [OF assms(1) m]
  have "map sleepable_entry xs = []" using w(3) assms(2) by auto
  then have "xs = []" by simp
  with w show thesis using assms(2) by (intro that [OF w(1,2)]) (auto simp: woken_def split: priority_order.split)
qed

lemma stuck_round:
  assumes "stuck_with c t s"
  obtains p s' where "schedule_and_do_work Q nx rd s = (Ok p, s')" "p = NoWork \<or> (\<exists>d. p = SpinWait d)"
    "ex_global_tasks s' = ex_global_tasks s" "stuck_with c t s'" "ex_local_tasks s' = ex_local_tasks s"
proof -
  have inv: "ex_inv s" "length (entry_items (ex_local_tasks s)) < 2 ^ 64" "sleeping s = []" "ex_processing s = []"
    using assms by (simp_all add: stuck_with_def)
  have "card (dom (el_map (ex_local_tasks s))) \<noteq> 0"
    using assms dom_finite [of "ex_local_tasks s"] by (auto simp: stuck_with_def)
  then have "has_active_tasks s" using counts_exact(4) [OF inv(1,2)] inv(3) by simp
  then have r: "request_global_task Q s = (Ok (CanProgress None), s)" by (simp add: request_global_task_def)
  obtain s1 where w: "wakeup_ready_sleepers rd s = (Ok (), s1)" "ex_inv s1" "ex_processing s1 = []"
    "sleeping s1 = []" "ex_local_tasks s1 = ex_local_tasks s" "ex_global_tasks s1 = ex_global_tasks s"
    using no_sleepers_wakeup [OF inv(1,3), of rd] inv(4) by metis
  have "\<not> has_sleeping_tasks s1" using counts_exact(3) [OF w(2)] inv(2) w(4,5) by simp
  then have d: "do_work Q nx (rd_now rd) s1 = (Ok NoWork, s1)"
    "after_work Q rd NoWork s1 = idle_increment rd (s1\<lparr>ex_current_task := None\<rparr>)"
    using w(3) by (simp_all add: do_work_def check_processing_queue_def after_work_def)
  obtain x m where m: "increment (rd_draw rd) (ex_idler s1) = (Ok x, m)" "idle_inv m"
    using increment_runs w(2) by (metis ex_inv_def ex_base_def)
  let ?s' = "s1\<lparr>ex_current_task := None, ex_idler := m\<rparr>"
  have "ex_inv ?s'" using w(2) m(2) by (simp add: ex_inv_def ex_base_def)
  then have "stuck_with c t ?s'" using assms w by (simp add: stuck_with_def)
  moreover have "schedule_and_do_work Q nx rd s = (Ok (case x of Some d \<Rightarrow> SpinWait d | None \<Rightarrow> NoWork), ?s')"
    using r w(1) d m by (simp add: schedule_and_do_work_def bind_def idle_increment_def split: option.split)
  ultimately show thesis
    by (intro that [of "case x of Some d \<Rightarrow> SpinWait d | None \<Rightarrow> NoWork" ?s'])
      (auto simp: w(5,6) split: option.split)
qed

text \<open>The round in which a task spawns with \<open>sequenced_iter\<close> or \<open>lift_iter\<close>, which drop the info, and ends.\<close>

lemma drop_task_items: "length (entry_items (ex_local_tasks (drop_task e s))) = length (entry_items (ex_local_tasks s))"
  by (simp add: drop_task_def) (rule el_take_cases [of e "ex_local_tasks s"]; simp)

lemma park_items: "length (entry_items (snd (el_park e l))) = length (entry_items l)"
  by (rule el_park_cases [of e l]) auto

lemma unpark_items: "length (entry_items (snd (el_unpark e t l))) = length (entry_items l)"
  by (rule el_unpark_cases [of l e t]) (auto simp: update_packed_def split: option.split)

lemma insert_items_Suc: "el_inv l \<Longrightarrow> length (entry_items (snd (el_insert x l))) \<le> Suc (length (entry_items l))"
  by (rule el_insert_cases [of l x]) auto

lemma unreported_work:
  assumes "ex_inv s" "ex_processing s = [e]" "sleeping s = []" "el_map (ex_local_tasks s) e = Some (Leaf_task x)"
    and "nx x e = prog_bind m (\<lambda>_. Prog_return (r, x'))" "m = sequenced_iter t (Some e) \<or> m = lift_iter t (Some e)"
    and "r = None \<or> r = Some St_Done" "length (entry_items (ex_local_tasks s)) < 2 ^ 64 - 1"
  obtains c s' where "do_work Q nx now s = (Ok NoWork, s')" "stuck_with c t s'" "\<not> ex_live s c"
    "ex_global_tasks s' = ex_global_tasks s" "ex_idler s' = ex_idler s"
proof -
  obtain l where park: "el_park e (ex_local_tasks s) = (Some (Leaf_task x), l)"
    and running: "ex_running e (s\<lparr>ex_processing := [], ex_current_task := Some e, ex_local_tasks := l\<rparr>)" (is "ex_running e ?s")
    using start_running [OF assms(1,2)] assms(4) by (metis option.inject)
  have base: "ex_base ?s" using running by (simp add: ex_running_def)
  obtain c l' where add: "add_task t ?s = (Ok c, ?s\<lparr>ex_local_tasks := l'\<rparr>)" "ex_grows ?s (?s\<lparr>ex_local_tasks := l'\<rparr>)"
    "child_waits (?s\<lparr>ex_local_tasks := l'\<rparr>) c" "el_map l' = (el_map l)(c \<mapsto> t)"
    by (rule add_task_grows [OF base, of t]) simp
  have on: "ex_running e (?s\<lparr>ex_local_tasks := l'\<rparr>)" (is "ex_running e ?s1") by (rule grows_running [OF add(2) running])
  let ?u = "unpark_task e (Leaf_task x') ?s1"
  let ?s' = "drop_task e ?u"
  have c: "child_waits ?u c" "c \<noteq> e" using unpark_at_hand(2) [OF on add(3)] by simp_all
  have inv: "ex_inv ?s'" using take_at_hand [OF unpark_at_hand(1) [OF on]] by metis
  have l': "el_inv l'" "packed_entries l' = [e]" using on by (simp_all add: ex_running_def ex_base_def)
  have there: "el_map (ex_local_tasks ?s') c = Some t"
    using c(2) by (simp add: drop_task_def unpark_task_def el_take_map unpark_sole(3) [OF l'] add(4))
  have "length (entry_items (ex_local_tasks ?s')) < 2 ^ 64"
  proof -
    have "length (entry_items (ex_local_tasks ?s')) = length (entry_items l')"
      by (simp add: drop_task_items unpark_task_def unpark_items)
    moreover have "l' = snd (el_insert t l)" using add(1) by (auto simp: add_task_def dest!: arg_cong [where f = ex_local_tasks] split: prod.splits option.splits)
    ultimately show ?thesis
      using insert_items_Suc [of l t] running park_items [of e "ex_local_tasks s"] park assms(8)
      by (simp add: ex_running_def ex_base_def)
  qed
  then have stuck: "stuck_with c t ?s'"
    using inv there assms(3) by (simp add: stuck_with_def drop_task_def unpark_task_def)
  have fresh: "\<not> ex_live s c"
    using add(3) c(2) el_park_map(2) [of e "ex_local_tasks s"] park add_task_run [OF base, of t] add(1)
    by (auto simp: ex_live_def)
  have "\<not> is_packed e s" using assms(1,2) by (auto simp: ex_inv_def ex_base_def)
  then have work: "do_work Q nx now s = (Ok NoWork, ?s')"
    using assms(2,5-7) park add(1)
    by (auto simp: do_work_def check_processing_queue_def run_top_def bind_def ret_def or_no_work_def sequenced_iter_def
        lift_iter_def builder_iter_def sequenced_task_def lift_task_def)
  show thesis by (rule that [OF work stuck fresh]) (simp_all add: drop_task_def unpark_task_def)
qed

lemma unreported_round:
  assumes "ex_inv s" "ex_processing s = [e]" "sleeping s = []" "el_map (ex_local_tasks s) e = Some (Leaf_task x)"
    and "nx x e = prog_bind m (\<lambda>_. Prog_return (r, x'))" "m = sequenced_iter t (Some e) \<or> m = lift_iter t (Some e)"
    and "r = None \<or> r = Some St_Done" "length (entry_items (ex_local_tasks s)) < 2 ^ 64 - 1"
  obtains c p s1 where "schedule_and_do_work Q nx rd s = (Ok p, s1)" "\<not> ex_live s c" "stuck_with c t s1"
proof -
  have "card (dom (el_map (ex_local_tasks s))) \<noteq> 0"
    using assms(4) dom_finite [of "ex_local_tasks s"] by auto
  then have "has_active_tasks s" using counts_exact(4) [OF assms(1)] assms(3,8) by simp
  then have rq: "request_global_task Q s = (Ok (CanProgress None), s)" by (simp add: request_global_task_def)
  obtain s0 where w: "wakeup_ready_sleepers rd s = (Ok (), s0)" "ex_inv s0" "ex_processing s0 = [e]"
    "sleeping s0 = []" "ex_local_tasks s0 = ex_local_tasks s"
    using no_sleepers_wakeup [OF assms(1,3), of rd] assms(2) by metis
  obtain c s' where d: "do_work Q nx (rd_now rd) s0 = (Ok NoWork, s')" "stuck_with c t s'" "\<not> ex_live s0 c"
    by (rule unreported_work [OF w(2-4), of x nx m r x' t Q "rd_now rd"]) (use assms(4-8) w(5) in simp_all)
  have "\<not> has_sleeping_tasks s'" using counts_exact(3) [of s'] d(2) by (simp add: stuck_with_def)
  then have after: "after_work Q rd NoWork s' = idle_increment rd (s'\<lparr>ex_current_task := None\<rparr>)"
    by (simp add: after_work_def)
  have "idle_inv (ex_idler s')" using d(2) by (simp add: stuck_with_def ex_inv_def ex_base_def)
  then obtain y m' where m: "increment (rd_draw rd) (ex_idler s') = (Ok y, m')" "idle_inv m'"
    by (rule increment_runs)
  let ?s1 = "s'\<lparr>ex_current_task := None, ex_idler := m'\<rparr>"
  have "stuck_with c t ?s1" using d(2) m(2) by (simp add: stuck_with_def ex_inv_def ex_base_def)
  moreover have "schedule_and_do_work Q nx rd s = (Ok (case y of Some d \<Rightarrow> SpinWait d | None \<Rightarrow> NoWork), ?s1)"
    using rq w(1) d(1) m after by (simp add: schedule_and_do_work_def bind_def idle_increment_def split: option.split)
  moreover have "\<not> ex_live s c" using d(3) w(5) by (simp add: ex_live_def)
  ultimately show thesis using that by blast
qed

lemma stuck_rounds:
  assumes "stuck_with c t s"
  shows "let (rs, s') = rounds_run Q nx rqs s in
    map snd rs = map snd rqs \<and> (\<forall>a \<in> fst ` set rs. a = Ok NoWork \<or> (\<exists>d. a = Ok (SpinWait d)))
    \<and> ex_local_tasks s' = ex_local_tasks s \<and> ex_processing s' = [] \<and> sleeping s' = []"
  using assms
proof (induction rqs arbitrary: s)
  case Nil
  then show ?case by (simp add: stuck_with_def)
next
  case (Cons rq rqs)
  obtain rd q where rq: "rq = (rd, q)" by fastforce
  have "stuck_with c t (s\<lparr>ex_global_tasks := q\<rparr>)"
    using Cons.prems by (auto simp: stuck_with_def ex_inv_def ex_base_def)
  then obtain p s1 where "schedule_and_do_work Q nx rd (s\<lparr>ex_global_tasks := q\<rparr>) = (Ok p, s1)"
    "p = NoWork \<or> (\<exists>d. p = SpinWait d)" "ex_global_tasks s1 = q" "stuck_with c t s1" "ex_local_tasks s1 = ex_local_tasks s"
    using stuck_round [of c t "s\<lparr>ex_global_tasks := q\<rparr>" Q nx rd] by auto
  with Cons.IH [of s1] show ?case by (auto simp: rq split: prod.splits)
qed

text \<open>C10: a child that is spawned under its parent, but not reported, blocks its executor. When a leaf is the last
  task in the queue, nothing sleeps, and the leaf spawns a task with itself as the parent through \<open>sequenced_iter\<close> or
  \<open>lift_iter\<close>, which drop the info it would have to report, and ends, then its round leaves a new entry with
  that task which is in no queue and not asleep. From then on no round runs it, or any other task, or takes one
  from the shared queue, whatever other threads put there; the entry is there for good.\<close>

theorem unreported_child_blocks_the_queue:
  assumes "\<And>x e. honest (nx x e)" "ex_reachable Q nx s" "length (entry_items (ex_local_tasks s)) < 2 ^ 64 - 1"
    and "ex_processing s = [e]" "sleeping s = []" "el_map (ex_local_tasks s) e = Some (Leaf_task x)"
    and "nx x e = prog_bind m (\<lambda>_. Prog_return (r, x'))" "m = sequenced_iter t (Some e) \<or> m = lift_iter t (Some e)"
    and "r = None \<or> r = Some St_Done"
  shows "\<exists>c p s1. schedule_and_do_work Q nx rd s = (Ok p, s1) \<and> \<not> ex_live s c
    \<and> el_map (ex_local_tasks s1) c = Some t \<and> ex_processing s1 = [] \<and> sleeping s1 = []
    \<and> (let (rs, s2) = rounds_run Q nx rqs s1 in
        map snd rs = map snd rqs \<and> (\<forall>a \<in> fst ` set rs. a = Ok NoWork \<or> (\<exists>d. a = Ok (SpinWait d)))
        \<and> ex_local_tasks s2 = ex_local_tasks s1 \<and> ex_processing s2 = [] \<and> sleeping s2 = [])"
proof -
  have tasks: "executor_tasks nx" using assms(1) by unfold_locales
  note inv = executor_tasks.reachable_inv [OF tasks assms(2)]
  obtain c p s1 where "schedule_and_do_work Q nx rd s = (Ok p, s1)" "\<not> ex_live s c" "stuck_with c t s1"
    using unreported_round [where nx = nx and m = m and r = r and x' = x' and t = t and Q = Q and rd = rd and e = e and x = x,
      OF inv assms(4-9,3)] by blast
  moreover from this(3) have "let (rs, s2) = rounds_run Q nx rqs s1 in
        map snd rs = map snd rqs \<and> (\<forall>a \<in> fst ` set rs. a = Ok NoWork \<or> (\<exists>d. a = Ok (SpinWait d)))
        \<and> ex_local_tasks s2 = ex_local_tasks s1 \<and> ex_processing s2 = [] \<and> sleeping s2 = []"
    by (rule stuck_rounds)
  ultimately show ?thesis by (auto simp: stuck_with_def)
qed

section \<open>Finishing\<close>

text \<open>A task whose only call of \<open>next\<close> is its last.\<close>

definition ends_at_once :: "('a, 'a) leaf_next \<Rightarrow> 'a exec_task \<Rightarrow> bool" where
  "ends_at_once nx t \<longleftrightarrow> (\<forall>e. \<exists>r t'. task_next nx t e = Prog_return (r, t') \<and> (r = None \<or> r = Some St_Done))"

lemma none_asleep:
  assumes "ex_inv s" "sleeping s = []" shows "\<not> has_sleeping_tasks s" "number_of_sleepers s = 0"
  using active_slots_live [of "ex_sleepers s"] assms
  by (simp_all add: ex_inv_def ex_base_def sleeping_def has_sleeping_tasks_def sleepers_has_pending_tasks_def
      number_of_sleepers_def sleepers_count_def)

lemma none_there:
  assumes "ex_inv s" "sleeping s = []" "\<And>e. \<not> ex_live s e"
  shows "active_slots (ex_local_tasks s) = 0" "\<not> has_active_tasks s"
proof -
  have "dom (el_map (ex_local_tasks s)) = {}" using assms(3) by (simp add: ex_live_def dom_def)
  then show t: "active_slots (ex_local_tasks s) = 0"
    using active_slots_live [of "ex_local_tasks s"] live_count [of "ex_local_tasks s"] assms(1)
    by (simp add: ex_inv_def ex_base_def)
  show "\<not> has_active_tasks s"
    using none_asleep(2) [OF assms(1,2)] by (simp add: has_active_tasks_def total_active_tasks_def total_tasks_def t)
qed

lemma only_task_ends:
  assumes "ex_inv s" "ex_processing s = [e]" "\<And>e'. ex_live s e' \<longleftrightarrow> e' = e" "el_map (ex_local_tasks s) e = Some t"
    "ends_at_once nx t"
  obtains s' where "do_work Q nx now s = (Ok NoWork, s')" "ex_inv s'" "\<And>e'. \<not> ex_live s' e'" "ex_processing s' = []"
    "sleeping s' = sleeping s" "ex_global_tasks s' = ex_global_tasks s" "ex_idler s' = ex_idler s"
proof -
  obtain l where park: "el_park e (ex_local_tasks s) = (Some t, l)"
    and running: "ex_running e (s\<lparr>ex_processing := [], ex_current_task := Some e, ex_local_tasks := l\<rparr>)" (is "ex_running e ?s")
    using start_running [OF assms(1,2)] assms(4) by (metis option.inject)
  obtain r t' where t: "task_next nx t e = Prog_return (r, t')" "r = None \<or> r = Some St_Done"
    using assms(5) unfolding ends_at_once_def by blast
  let ?u = "unpark_task e t' ?s"
  let ?s' = "drop_task e ?u"
  have inv: "ex_inv ?s'" using take_at_hand [OF unpark_at_hand(1) [OF running]] by metis
  have l: "el_inv l" "packed_entries l = [e]" "el_map l = (el_map (ex_local_tasks s))(e := None)"
    using running el_park_map(2) [of e "ex_local_tasks s"] park by (simp_all add: ex_running_def ex_base_def)
  have "\<not> ex_live ?s' e'" for e'
    using assms(3) [of e'] by (auto simp: ex_live_def drop_task_def unpark_task_def el_take_map unpark_sole(3) [OF l(1,2)] l(3))
  moreover have "\<not> is_packed e s" using assms(1,2) by (auto simp: ex_inv_def ex_base_def)
  then have "do_work Q nx now s = (Ok NoWork, ?s')"
    using assms(2) park t by (auto simp: do_work_def check_processing_queue_def run_top_def bind_def ret_def or_no_work_def)
  ultimately show thesis by (intro that [OF _ inv]) (simp_all add: drop_task_def unpark_task_def)
qed

text \<open>C11: \<open>block_until_finished\<close>, documented to go on until no more work remains, does not. With an idle manager
  that has no base sleep, and the executor of the single-threaded pool has such a one, it returns when the
  first task it takes from the shared queue ends, whatever is left in the queue.\<close>

theorem block_until_finished_leaves_the_queue:
  assumes "\<And>x e. honest (nx x e)" "ex_reachable Q nx s" "\<And>e. \<not> ex_live s e"
    and "im_base (ex_idler s) = None" "im_counter (ex_idler s) < im_max (ex_idler s)"
    and "tq_pop Q (ex_global_tasks s) = (Some t, q)" "ends_at_once nx t"
  shows "\<exists>s'. block_until_finished Q nx no_work_yield turn (rd # rds) s = Some (Ok [], s') \<and> ex_global_tasks s' = q"
proof -
  have tasks: "executor_tasks nx" using assms(1) by unfold_locales
  have inv: "ex_inv s" using executor_tasks.reachable_inv [OF tasks assms(2)] .
  then have empty: "ex_processing s = []" "sleeping s = []"
    using assms(3) by (auto simp: ex_inv_def ex_base_def) (metis last_in_set UnCI)+
  let ?s = "s\<lparr>ex_global_tasks := q\<rparr>"
  have base: "ex_base ?s" using inv by (simp add: ex_inv_def ex_base_def)
  obtain e l where add: "add_task t ?s = (Ok e, ?s\<lparr>ex_local_tasks := l\<rparr>)"
    "ex_grows ?s (push_front e (?s\<lparr>ex_local_tasks := l\<rparr>))" "el_map l = (el_map (ex_local_tasks ?s))(e \<mapsto> t)"
    using add_task_grows [OF base, of t] by metis
  let ?s1 = "push_front e (?s\<lparr>ex_local_tasks := l\<rparr>)"
  have s1: "ex_inv ?s1" "ex_processing ?s1 = [e]" "sleeping ?s1 = []" "\<And>e'. ex_live ?s1 e' \<longleftrightarrow> e' = e"
    using inv add(2,3) empty assms(3) by (auto simp: ex_inv_def ex_grows_def push_front_def ex_live_def)
  have r: "request_global_task Q s = (Ok (CanProgress None), ?s1)"
    using none_there [OF inv empty(2) assms(3)] assms(6) add(1)
    by (simp add: request_global_task_def schedule_next_def bind_def)
  obtain s2 where w: "wakeup_ready_sleepers rd ?s1 = (Ok (), s2)" "ex_inv s2" "ex_processing s2 = [e]" "sleeping s2 = []"
    "ex_local_tasks s2 = l" "ex_global_tasks s2 = q" "ex_idler s2 = ex_idler s"
    using no_sleepers_wakeup [OF s1(1,3), of rd] s1(2) by (simp add: push_front_def) metis
  obtain s3 where d: "do_work Q nx (rd_now rd) s2 = (Ok NoWork, s3)" "ex_inv s3" "sleeping s3 = []" "ex_global_tasks s3 = q"
    "ex_idler s3 = ex_idler s"
    using only_task_ends [OF w(2,3) _ _ assms(7), of Q "rd_now rd"] s1(4) w(4-7) add(3)
    by (simp add: ex_live_def push_front_def) metis
  have "fst (after_work Q rd NoWork s3) = Ok NoWork" "ex_global_tasks (snd (after_work Q rd NoWork s3)) = q"
    using none_asleep(1) [OF d(2,3)] assms(4) not_le [THEN iffD2, OF assms(5)] d(4,5)
    by (simp_all add: after_work_def idle_increment_def increment_def)
  then show ?thesis using r w(1) d(1) by (cases "after_work Q rd NoWork s3") (auto simp: schedule_and_do_work_def bind_def)
qed

text \<open>\<open>InlineAction\<close> under \<open>Lift\<close> lifts without a parent, and the task that spawned with it then brings the
  executor down: the arm for such a child unwraps the parent.\<close>

theorem inline_lift_panics:
  assumes "ex_inv s" "ex_processing s = e # rest" "el_map (ex_local_tasks s) e = Some (Leaf_task g)" "\<not> gd_poisoned g"
    and "src (gd_task g) = (Ok (Some (It_Spawn (Some (Inline_Lift, t)))), x)"
  shows "fst (do_work Q (do_next_next src inline_action_apply) now s) = Panic"
proof -
  obtain l where park: "el_park e (ex_local_tasks s) = (Some (Leaf_task g), l)"
    and running: "ex_running e (s\<lparr>ex_processing := rest, ex_current_task := Some e, ex_local_tasks := l\<rparr>)" (is "ex_running e ?s")
    using start_running [OF assms(1,2)] assms(3) by (metis option.inject)
  then have base: "ex_base ?s" by (simp add: ex_running_def)
  obtain c l' where add: "add_task t ?s = (Ok c, ?s\<lparr>ex_local_tasks := l'\<rparr>)" by (rule add_task_grows [OF base, of t])
  have "\<not> is_packed e s" using assms(1,2) by (auto simp: ex_inv_def ex_base_def)
  then show ?thesis
    using assms(2,4,5) park add
    by (simp add: do_work_def check_processing_queue_def run_top_def do_next_next_def guarded_next_def spawn_state_def
        engine_result_def lift_task_def bind_def ret_def spawn_info_new_def Let_def spawn_finished_def
        has_parent_and_child_def)
qed

section \<open>Witnesses\<close>

definition list_queue :: "('a, 'a exec_task list) task_queue" where
  "list_queue = \<lparr>tq_push = (\<lambda>t q. (None, q @ [t])), tq_pop = (\<lambda>q. case q of [] \<Rightarrow> (None, []) | t # ts \<Rightarrow> (Some t, ts)),
     tq_is_empty = (\<lambda>q. q = []), tq_activity = (\<lambda>q. (None, q))\<rparr>"

text \<open>An iterator that counts down, and leaves that do the same, that sleep once, that end at once and that
  start a sequenced task and end.\<close>

definition count_down :: "(nat, nat, unit, nat guarded_task spawn_action) task_source" where
  "count_down n = (Ok (if n = 0 then None else Some (It_Ready n)), n - 1)"

definition count_leaf :: "(nat, nat) leaf_next" where
  "count_leaf n e = Prog_return (if n = 0 then None else Some St_Progressed, n - 1)"

definition sleepy_leaf :: "(nat, nat) leaf_next" where
  "sleepy_leaf d e = Prog_return (Some (St_Pending (Some d)), d)"

definition sequencing_leaf :: "(nat, nat) leaf_next" where
  "sequencing_leaf n e = prog_bind (sequenced_iter (Leaf_task 0) (Some e)) (\<lambda>_. Prog_return (None, n))"

lemma leaves_honest: "honest (count_leaf n e)" "honest (sleepy_leaf n e)" "honest (sequencing_leaf n e)"
  by (simp_all add: honest_def count_leaf_def sleepy_leaf_def sequencing_leaf_def sequenced_iter_def builder_iter_def)

theorem executor_never_fails_witness:
  "\<exists>m p s'. schedule_and_do_work list_queue (do_next_next count_down spawn_action_apply) (still 0)
    (executor_new [Leaf_task \<lparr>gd_task = 3, gd_poisoned = False\<rparr>] Order_Top m) = (Ok p, s')"
proof -
  obtain m where m: "idle_inv m" by (rule some_idler)
  have r: "ex_reachable list_queue (do_next_next count_down spawn_action_apply)
      (executor_new [Leaf_task \<lparr>gd_task = 3, gd_poisoned = False\<rparr>] Order_Top m)" by (rule Ex_new [OF m])
  show ?thesis
    using executor_never_fails [OF do_next.leaf_honest r, of "still 0"] by (auto simp: executor_new_def el_new_def)
qed

text \<open>An executor whose only task has gone to sleep at 0 for 10.\<close>

lemma asleep_run:
  "\<exists>s. schedule_and_do_work list_queue sleepy_leaf (still 0) (executor_new [Leaf_task 10] Order_Top m) = (Ok (SpinWait 10), s)
    \<and> el_values (ex_sleepers s) = [Timable (duration_waker_new (entry_at 0 0) 0 10)] \<and> length (entry_items (ex_local_tasks s)) = 1"
  by (simp add: executor_eval list_queue_def sleepy_leaf_def pending_for_def pack_task_and_dependents_def set_packed_def
      get_task_dependents_def sleepers_insert_def has_inflight_task_def has_incoming_global_tasks_def
      duration_waker_from_now_def el_map_with_def)

text \<open>It is in use.\<close>

lemma asleep_reachable:
  obtains s where "ex_reachable list_queue sleepy_leaf s" "length (entry_items (ex_local_tasks s)) < 2 ^ 64"
    "el_values (ex_sleepers s) = [Timable (duration_waker_new (entry_at 0 0) 0 10)]"
proof -
  obtain m where m: "idle_inv m" by (rule some_idler)
  have new: "ex_reachable list_queue sleepy_leaf (executor_new [Leaf_task 10] Order_Top m)" by (rule Ex_new [OF m])
  obtain s where "schedule_and_do_work list_queue sleepy_leaf (still 0) (executor_new [Leaf_task 10] Order_Top m) = (Ok (SpinWait 10), s)"
    "el_values (ex_sleepers s) = [Timable (duration_waker_new (entry_at 0 0) 0 10)]"
    "length (entry_items (ex_local_tasks s)) = 1"
    using asleep_run by blast
  with that Ex_round [OF new, of "still 0"] show thesis by (simp add: executor_new_def el_new_def)
qed

theorem executor_queues_exact_witness:
  "\<exists>s :: (nat, nat exec_task list) executor. unat (number_of_sleepers s) = 1 \<and> {e. is_packed e s} = {entry_at 0 0}"
proof -
  obtain s where s: "ex_reachable list_queue sleepy_leaf s" "length (entry_items (ex_local_tasks s)) < 2 ^ 64"
    "el_values (ex_sleepers s) = [Timable (duration_waker_new (entry_at 0 0) 0 10)]" by (rule asleep_reachable)
  then have "sleeping s = [entry_at 0 0]" by (simp add: sleeping_def duration_waker_new_def)
  then show ?thesis using executor_queues_exact [OF leaves_honest(2) s(1,2)] by auto
qed

theorem sleepers_wake_in_order_witness:
  "\<exists>(s :: (nat, nat exec_task list) executor) s'. sleeping s = [entry_at 0 0]
    \<and> wakeup_ready_sleepers (still 50) s = (Ok (), s') \<and> entry_at 0 0 \<in> set (ex_processing s')"
proof -
  obtain s where s: "ex_reachable list_queue sleepy_leaf s"
    "el_values (ex_sleepers s) = [Timable (duration_waker_new (entry_at 0 0) 0 10)]" by (rule asleep_reachable)
  have "50 \<le> rd_clock (still 50) i \<and> rd_clock (still 50) i \<le> 50" for i by (simp add: still_def)
  from sleepers_wake_in_order [OF leaves_honest(2) s(1) this] obtain es s' where
    "wakeup_ready_sleepers (still 50) s = (Ok (), s')" "entry_at 0 0 \<in> set es"
    "ex_processing s' = (case ex_wakeup_priority s of Order_Top \<Rightarrow> rev es @ ex_processing s | Order_Bottom \<Rightarrow> ex_processing s @ es)"
    by (auto simp: s(2) duration_waker_new_def deadline_def INSTANT_END_def)
  moreover have "sleeping s = [entry_at 0 0]" using s(2) by (simp add: sleeping_def duration_waker_new_def)
  ultimately show ?thesis by (auto split: priority_order.splits)
qed

theorem lifted_child_runs_first_witness:
  "\<forall>s :: (nat, nat exec_task list) executor. \<exists>t. task_runs list_queue count_leaf (entry_at 0 0) 4
      (Finish_child (spawn_info_new LiftedWithParent (Some (entry_at 1 0)) (Some (entry_at 0 0)))
         (Some (Leaf_task 1)) (Some (Leaf_task 2))) s
    = (Ok ([Some St_Progressed, Some St_Progressed, Some St_Progressed, None], t), s)"
proof
  fix s :: "(nat, nat exec_task list) executor"
  let ?P = "[St_Progressed, St_Progressed]" and ?e = "entry_at 0 0"
  let ?i = "spawn_info_new LiftedWithParent (Some (entry_at 1 0)) (Some ?e)"
  have "task_runs list_queue count_leaf ?e (length ?P) (Leaf_task 2) s = (Ok (map Some ?P, Leaf_task 0), s)"
    "run_prog list_queue (task_next count_leaf (Leaf_task 0) ?e) s = (Ok (None, Leaf_task 0), s)"
    "task_runs list_queue count_leaf ?e (Suc (length [St_Progressed])) (Leaf_task 1) s = (Ok (map Some [St_Progressed] @ [None], Leaf_task 0), s)"
    by (simp_all add: task_runs.simps(2) count_leaf_def bind_def ret_def)
  from lifted_child_runs_first [OF this(1) _ this(2) _ this(3), of ?i]
  show "\<exists>t. task_runs list_queue count_leaf ?e 4 (Finish_child ?i (Some (Leaf_task 1)) (Some (Leaf_task 2))) s
    = (Ok ([Some St_Progressed, Some St_Progressed, Some St_Progressed, None], t), s)" by (simp add: eval_nat_numeral)
qed

theorem unreported_child_blocks_the_queue_witness:
  "\<exists>(s :: (nat, nat exec_task list) executor) c p s1. schedule_and_do_work list_queue sequencing_leaf (still 0) s = (Ok p, s1)
    \<and> el_map (ex_local_tasks s1) c = Some (Leaf_task 0)
    \<and> map snd (fst (rounds_run list_queue sequencing_leaf [(still 1, [Leaf_task 1]), (still 2, [Leaf_task 1, Leaf_task 1])] s1))
        = [[Leaf_task 1], [Leaf_task 1, Leaf_task 1]]"
proof -
  obtain m where m: "idle_inv m" by (rule some_idler)
  have new: "ex_reachable list_queue sequencing_leaf (executor_new [] Order_Top m)" by (rule Ex_new [OF m])
  obtain a and s :: "(nat, nat exec_task list) executor"
    where s: "engine_call_run list_queue (Call_schedule (Leaf_task 1)) (executor_new [] Order_Top m) = (Ok a, s)"
    "ex_processing s = [entry_at 0 0]" "sleeping s = []" "el_map (ex_local_tasks s) (entry_at 0 0) = Some (Leaf_task 1)"
    "length (entry_items (ex_local_tasks s)) = 1"
    by (simp add: executor_eval schedule_task_def spawn_info_new_def sleeping_def el_map_with_def el_map_def el_get_def)
  have r: "ex_reachable list_queue sequencing_leaf s" by (rule Ex_call [OF new s(1)])
  have leaf: "sequencing_leaf 1 (entry_at 0 0) = prog_bind (sequenced_iter (Leaf_task 0) (Some (entry_at 0 0))) (\<lambda>_. Prog_return (None, 1))"
    by (simp add: sequencing_leaf_def)
  have few: "length (entry_items (ex_local_tasks s)) < 2 ^ 64 - 1" by (simp add: s(5))
  from unreported_child_blocks_the_queue [OF leaves_honest(3) r few s(2-4) leaf disjI1 [OF refl] disjI1 [OF refl],
      of "still 0" "[(still 1, [Leaf_task 1]), (still 2, [Leaf_task 1, Leaf_task 1])]"]
  obtain c p s1 where "schedule_and_do_work list_queue sequencing_leaf (still 0) s = (Ok p, s1)"
    "el_map (ex_local_tasks s1) c = Some (Leaf_task 0)"
    "map snd (fst (rounds_run list_queue sequencing_leaf [(still 1, [Leaf_task 1]), (still 2, [Leaf_task 1, Leaf_task 1])] s1))
        = [[Leaf_task 1], [Leaf_task 1, Leaf_task 1]]"
    by (auto simp: Let_def case_prod_beta simp del: rounds_run.simps)
  then show ?thesis by (intro exI conjI)
qed

theorem block_until_finished_leaves_the_queue_witness:
  "\<exists>m s'. block_until_finished list_queue count_leaf 10 0 [still 0] (executor_new [Leaf_task 0, Leaf_task 5] Order_Top m)
     = Some (Ok [], s') \<and> ex_global_tasks s' = [Leaf_task 5]"
proof -
  obtain m where m: "idle_inv m" "im_base m = None" "im_counter m = 0" "im_max m = 3" by (rule some_idler)
  let ?s = "executor_new [Leaf_task 0, Leaf_task 5] Order_Top m"
  have new: "ex_reachable list_queue count_leaf ?s" by (rule Ex_new [OF m(1)])
  have e: "\<not> ex_live ?s e" for e by (simp add: ex_live_def executor_new_def el_new_def el_map_def el_get_def item_at_def)
  have pop: "tq_pop list_queue (ex_global_tasks ?s) = (Some (Leaf_task 0), [Leaf_task 5])"
    by (simp add: list_queue_def executor_new_def)
  have "ends_at_once count_leaf (Leaf_task 0)" by (simp add: ends_at_once_def count_leaf_def)
  moreover have "im_base (ex_idler ?s) = None" "im_counter (ex_idler ?s) < im_max (ex_idler ?s)"
    using m by (simp_all add: executor_new_def)
  ultimately show ?thesis
    using block_until_finished_leaves_the_queue [OF leaves_honest(1) new e _ _ pop, of 10 0 "still 0" "[]"] by blast
qed
end
