(* ===== verification/Conservation.thy ===== *)
theory Conservation
  imports ExecutorLaws
begin

text \<open>
  The executor loses no task. This holds when its tasks report every child they lift, which excludes sequenced
  children: \<open>DualSequeunceChildAndParentLinkedTask\<close> drops what the parent answers while the child runs, a
  report among it.
\<close>

section \<open>Tasks that report their children\<close>

fun no_dual :: "'a exec_task \<Rightarrow> bool" where
  "no_dual (Leaf_task x) \<longleftrightarrow> True"
| "no_dual (Finish_child i p c) \<longleftrightarrow> (\<forall>t \<in> set_option p. no_dual t) \<and> (\<forall>t \<in> set_option c. no_dual t)"
| "no_dual (Dual_linked i p c) \<longleftrightarrow> False"

fun call_task :: "'a engine_call \<Rightarrow> 'a exec_task" where
  "call_task (Call_sequenced t _) = t"
| "call_task (Call_lift t _) = t"
| "call_task (Call_schedule t) = t"
| "call_task (Call_broadcast t) = t"

primrec spawns :: "('a exec_task \<Rightarrow> bool) \<Rightarrow> ('a, 'r) engine_prog \<Rightarrow> bool" where
  "spawns P (Prog_return x) \<longleftrightarrow> True"
| "spawns P (Prog_call c k) \<longleftrightarrow> P (call_task c) \<and> (\<forall>r. spawns P (k r))"
| "spawns P Prog_panic \<longleftrightarrow> True"

definition linked :: "spawn_info \<Rightarrow> bool" where
  "linked i \<longleftrightarrow> si_type i = LiftedWithParent \<or> si_type i = Sequenced"

definition reported :: "spawn_info set \<Rightarrow> exec_state option \<Rightarrow> bool" where
  "reported infos r \<longleftrightarrow> spawn_allowed infos r \<and>
     (\<forall>i \<in> infos. si_type i \<noteq> Sequenced \<and> (linked i \<longrightarrow> r = Some (St_SpawnFinished i)))"

definition reporting :: "('a, exec_state option \<times> 'b) engine_prog \<Rightarrow> bool" where
  "reporting m \<longleftrightarrow> prog_all (\<lambda>infos r. reported infos (fst r)) {} m \<and> spawns no_dual m"

lemma spawns_bind: "spawns P m \<Longrightarrow> (\<And>x. spawns P (k x)) \<Longrightarrow> spawns P (prog_bind m k)"
  by (induction m) simp_all

text \<open>A program that starts with infos of its own.\<close>

lemma prog_all_beside:
  "prog_all P js m \<Longrightarrow> prog_all (\<lambda>is r. \<exists>is'. P is' r \<and> is = is' \<union> infos) (js \<union> infos) m"
proof (induction m arbitrary: js)
  case (Prog_call c k)
  have "prog_all (\<lambda>is r. \<exists>is'. P is' r \<and> is = is' \<union> infos) (insert i js \<union> infos) (k (Ok i))" if "si_type i = call_type c" for i
    using Prog_call.prems that by (intro Prog_call.IH [OF rangeI]) simp
  moreover have "prog_all (\<lambda>is r. \<exists>is'. P is' r \<and> is = is' \<union> infos) (js \<union> infos) (k (Err err))" for err
    using Prog_call.prems by (intro Prog_call.IH [OF rangeI]) simp
  ultimately show ?case by simp
qed auto

lemma reported_beside:
  assumes "reported is r" "\<forall>i \<in> infos. \<not> linked i" shows "reported (is \<union> infos) r"
  using assms spawn_allowed_mono [of "is" r "is \<union> infos"] by (auto simp: reported_def linked_def)

lemma reported_ends: "reported infos r \<Longrightarrow> r = None \<or> r = Some St_Done \<Longrightarrow> \<forall>i \<in> infos. \<not> linked i"
  by (auto simp: reported_def)

locale reporting_tasks =
  fixes nx :: "('a, 'a) leaf_next"
  assumes leaf_reporting: "reporting (nx x e)"
begin

abbreviation report_kept :: "spawn_info set \<Rightarrow> ('a, exec_state option \<times> 'a exec_task) engine_prog \<Rightarrow> bool" where
  "report_kept infos m \<equiv> prog_all (\<lambda>infos r. reported infos (fst r) \<and> no_dual (snd r)) infos m"

lemma task_spawns: "no_dual t \<Longrightarrow> spawns no_dual (task_next nx t e)"
proof (induction t)
  case (Leaf_task x)
  then show ?case using leaf_reporting [of x e] by (auto simp: reporting_def intro!: spawns_bind)
next
  case (Finish_child i parent child)
  then show ?case by (auto simp: Let_def intro!: spawns_bind split: option.split)
qed simp

lemma task_reports: "no_dual t \<Longrightarrow> \<forall>i \<in> infos. \<not> linked i \<Longrightarrow> report_kept infos (task_next nx t e)"
proof (induction t arbitrary: infos)
  case (Leaf_task x)
  have "prog_all (\<lambda>is r. \<exists>is'. reported is' (fst r) \<and> is = is' \<union> infos) infos (nx x e)"
    using prog_all_beside [of _ "{}" "nx x e" infos] leaf_reporting [of x e] by (simp add: reporting_def)
  then have "prog_all (\<lambda>infos r. reported infos (fst r)) infos (nx x e)"
    by (rule prog_all_weaken) (use reported_beside Leaf_task.prems in blast)
  then show ?case by (simp add: case_prod_beta)
next
  case (Finish_child i parent child)
  have rest: "report_kept is (case parent of
      Some p \<Rightarrow> prog_bind (task_next nx p e) (\<lambda>(r, p'). Prog_return (r, Finish_child i (if r = None then None else Some p') None))
    | None \<Rightarrow> Prog_return (None, Finish_child i None None))" if free: "\<forall>i \<in> is. \<not> linked i" for "is"
  proof (cases parent)
    case None
    then show ?thesis using free by (auto simp: reported_def linked_def)
  next
    case (Some p)
    have "report_kept is (task_next nx p e)" using Finish_child.IH(1) [of p "is"] Finish_child.prems Some free by simp
    then show ?thesis unfolding Some option.case
      by (rule prog_all_then) (auto split: prod.split)
  qed
  show ?case
  proof (cases child)
    case (Some c)
    have "report_kept infos (task_next nx c e)" using Finish_child.IH(2) [of c infos] Finish_child.prems Some by simp
    then show ?thesis unfolding task_next.simps Let_def Some option.case
      apply (rule prog_all_then)
      subgoal for "is" r
        using rest [of "is"] reported_ends [of "is" "fst r"] Finish_child.prems(1)
        by (cases r; cases "fst r") auto
      done
  next
    case None
    then show ?thesis using rest [OF Finish_child.prems(2)] by (simp add: Let_def)
  qed
qed simp

end

sublocale reporting_tasks \<subseteq> executor_tasks
proof
  show "honest (nx x e)" for x e
    using leaf_reporting [of x e] unfolding honest_def reporting_def by (auto elim: prog_all_weaken simp: reported_def)
qed

section \<open>All tasks are there\<close>

definition children :: "spawn_info set \<Rightarrow> list_entry set" where
  "children infos = {c. \<exists>i \<in> infos. linked i \<and> si_child i = Some c}"

text \<open>Every task is queued, asleep or one of \<open>C\<close>.\<close>

definition all_there :: "list_entry set \<Rightarrow> ('a, 'q) executor \<Rightarrow> bool" where
  "all_there C s \<longleftrightarrow> {e. ex_live s e} = set (ex_processing s) \<union> set (sleeping s) \<union> C
     \<and> (\<forall>e t. el_map (ex_local_tasks s) e = Some t \<longrightarrow> no_dual t)"

lemma children_empty [simp]: "children {} = {}"
  by (simp add: children_def)

lemma children_free: "\<forall>i \<in> infos. \<not> linked i \<Longrightarrow> children infos = {}"
  by (auto simp: children_def)

lemma all_there_add:
  assumes "all_there C s" "el_map l = (el_map (ex_local_tasks s))(e \<mapsto> t)" "no_dual t"
  shows "all_there (insert e C) (s\<lparr>ex_local_tasks := l\<rparr>)" "all_there C (push_front e (s\<lparr>ex_local_tasks := l\<rparr>))"
    "all_there C (push_back e (s\<lparr>ex_local_tasks := l\<rparr>))"
proof -
  have "{e'. ex_live (s\<lparr>ex_local_tasks := l\<rparr>) e'} = insert e {e'. ex_live s e'}"
    using assms(2) by (auto simp: ex_live_def)
  then show "all_there (insert e C) (s\<lparr>ex_local_tasks := l\<rparr>)" "all_there C (push_front e (s\<lparr>ex_local_tasks := l\<rparr>))"
    "all_there C (push_back e (s\<lparr>ex_local_tasks := l\<rparr>))"
    using assms by (auto simp: all_there_def push_front_def push_back_def split: if_splits)
qed

lemma all_there_global: "all_there C (s\<lparr>ex_global_tasks := q\<rparr>) = all_there C s"
  by (simp add: all_there_def)

lemma engine_call_there:
  assumes "ex_base s" "no_dual (call_task c)" "all_there C s" "engine_call_run Q c s = (Ok r, s')"
  shows "all_there ((case r of Ok i \<Rightarrow> children {i} | _ \<Rightarrow> {}) \<union> C) s'"
proof (cases c)
  case (Call_broadcast t)
  then show ?thesis
    using assms(3,4)
    by (auto simp: engine_broadcast_def broadcast_task_def bind_def spawn_info_new_def children_def linked_def
        all_there_global split: prod.splits option.splits push_error.splits bool.splits)
next
  case (Call_schedule t)
  obtain e l where a: "add_task t s = (Ok e, s\<lparr>ex_local_tasks := l\<rparr>)" "el_map l = (el_map (ex_local_tasks s))(e \<mapsto> t)"
    using add_task_grows [OF assms(1), of t] by metis
  with all_there_add(3) [OF assms(3) a(2)] show ?thesis
    using assms(2,4) by (auto simp: Call_schedule schedule_task_def bind_def spawn_info_new_def children_def linked_def)
next
  case (Call_sequenced t p)
  obtain e l where a: "add_task t s = (Ok e, s\<lparr>ex_local_tasks := l\<rparr>)" "el_map l = (el_map (ex_local_tasks s))(e \<mapsto> t)"
    using add_task_grows [OF assms(1), of t] by metis
  with all_there_add(1) [OF assms(3) a(2)] show ?thesis
    using assms(2,3,4) by (auto simp: Call_sequenced sequenced_task_def bind_def ret_def spawn_info_new_def children_def
        linked_def split: option.splits if_splits)
next
  case (Call_lift t p)
  obtain e l where a: "add_task t s = (Ok e, s\<lparr>ex_local_tasks := l\<rparr>)" "el_map l = (el_map (ex_local_tasks s))(e \<mapsto> t)"
    using add_task_grows [OF assms(1), of t] by metis
  with all_there_add(1,2) [OF assms(3) a(2)] show ?thesis
    using assms(2,3,4) by (auto simp: Call_lift lift_task_def bind_def ret_def spawn_info_new_def children_def
        linked_def split: option.splits if_splits)
qed

lemma run_prog_there:
  assumes "prog_all P infos m" "spawns no_dual m" "ex_running e s" "\<forall>i \<in> infos. info_ok e s i" "all_there (children infos) s"
  obtains x "is" s' where "run_prog Q m s = (Ok x, s')" "ex_running e s'" "\<forall>i \<in> is. info_ok e s' i" "P is x"
    "all_there (children is) s'"
  using assms
proof (induction m arbitrary: infos s thesis)
  case (Prog_return x)
  then show ?case by (auto simp: ret_def)
next
  case (Prog_call c k)
  have base: "ex_base s" "ex_current_task s = Some e" using Prog_call.prems by (simp_all add: ex_running_def)
  then obtain r s1 where r: "engine_call_run Q c s = (Ok r, s1)" "ex_grows s s1" "answer_ok s1 c r"
    using engine_call_runs [of s Q c] by auto
  have running: "ex_running e s1" using grows_running [OF r(2) Prog_call.prems(4)] .
  have kept: "\<forall>i \<in> infos. info_ok e s1 i" using Prog_call.prems(5) grows_info [OF r(2)] by blast
  define infos' where "infos' = (case r of Ok i \<Rightarrow> insert i infos | _ \<Rightarrow> infos)"
  have "prog_all P infos' (k r)" "\<forall>i \<in> infos'. info_ok e s1 i"
    using r(3) Prog_call.prems(2) running kept
    by (auto simp: answer_ok_def infos'_def ex_running_def split: result.splits)
  moreover have "spawns no_dual (k r)" "no_dual (call_task c)" using Prog_call.prems(3) by simp_all
  moreover have "(case r of Ok i \<Rightarrow> children {i} | _ \<Rightarrow> {}) \<union> children infos = children infos'"
    by (cases r) (auto simp: infos'_def children_def)
  then have "all_there (children infos') s1"
    using engine_call_there [OF base(1) \<open>no_dual (call_task c)\<close> Prog_call.prems(6) r(1)] by simp
  ultimately obtain x "is" s' where
    "run_prog Q (k r) s1 = (Ok x, s')" "ex_running e s'" "\<forall>i \<in> is. info_ok e s' i" "P is x" "all_there (children is) s'"
    using Prog_call.IH [OF rangeI _ _ _ running] by metis
  then show ?case using Prog_call.prems(1) [of x s' "is"] r(1) by (auto simp: bind_def)
qed simp

section \<open>After a task has run\<close>

lemma unpark_there:
  assumes "ex_running e s" "all_there C s" "no_dual t"
  shows "all_there (insert e C) (unpark_task e t s)"
proof -
  have "el_map (ex_local_tasks (unpark_task e t s)) = (el_map (ex_local_tasks s))(e \<mapsto> t)"
    using unpark_sole(3) [of "ex_local_tasks s" e t] assms(1) by (simp add: unpark_task_def ex_running_def ex_base_def)
  then show ?thesis using all_there_add(1) [OF assms(2) _ assms(3), of "ex_local_tasks (unpark_task e t s)" e]
    by (simp add: unpark_task_def)
qed

lemma drop_there:
  assumes "all_there C s" "child_waits s e" shows "all_there (C - {e}) (drop_task e s)"
proof -
  have "{e'. ex_live (drop_task e s) e'} = {e'. ex_live s e'} - {e}"
    by (auto simp: drop_task_def ex_live_def el_take_map)
  then show ?thesis
    using assms by (auto simp: all_there_def drop_task_def child_waits_def el_take_map split: if_splits)
qed

lemma queue_there:
  assumes "all_there (insert e C) s" shows "all_there C (push_front e s)" "all_there C (push_back e s)"
  using assms by (auto simp: all_there_def push_front_def push_back_def ex_live_def)

lemma taken_there:
  assumes "at_hand e s" "all_there C s"
  obtains t where "take_task e s = (Ok t, drop_task e s)" "ex_inv (drop_task e s)" "no_dual t"
    "all_there (C - {e}) (drop_task e s)"
    "\<And>c. child_waits s c \<Longrightarrow> c \<noteq> e \<Longrightarrow> child_waits (drop_task e s) c"
proof -
  obtain t where t: "take_task e s = (Ok t, drop_task e s)" "ex_inv (drop_task e s)"
    "\<And>c. child_waits s c \<Longrightarrow> c \<noteq> e \<Longrightarrow> child_waits (drop_task e s) c" using take_at_hand [OF assms(1)] by metis
  have "el_map (ex_local_tasks s) e = Some t"
    using t(1) el_take_result [of e "ex_local_tasks s"] by (auto simp: take_task_def split: prod.splits option.splits)
  then have "no_dual t" using assms(2) by (auto simp: all_there_def)
  then show thesis using that t drop_there [OF assms(2)] assms(1) by (simp add: at_hand_def)
qed

lemma combine_there:
  assumes "at_hand e s" "child_waits s c" "c \<noteq> e" "all_there {e, c} s"
    "combine_tasks (Finish_child i) e c s = (Ok p, s')"
  shows "all_there {} s'"
proof -
  obtain t where t: "take_task e s = (Ok t, drop_task e s)" "ex_inv (drop_task e s)" "no_dual t"
    "all_there {c} (drop_task e s)" "child_waits (drop_task e s) c"
    using taken_there [OF assms(1,4)] assms(2,3) by (metis Diff_insert_absorb insert_commute singletonD)
  let ?s = "drop_task e s"
  obtain t' where t': "take_task c ?s = (Ok t', drop_task c ?s)" "ex_inv (drop_task c ?s)" "no_dual t'"
    "all_there {} (drop_task c ?s)"
    using taken_there [of c ?s "{c}"] t by (auto simp: at_hand_def)
  let ?s' = "drop_task c ?s"
  have base: "ex_base ?s'" using t'(2) by (simp add: ex_inv_def)
  obtain e' l where a: "add_task (Finish_child i (Some t) (Some t')) ?s' = (Ok e', ?s'\<lparr>ex_local_tasks := l\<rparr>)"
    "el_map l = (el_map (ex_local_tasks ?s'))(e' \<mapsto> Finish_child i (Some t) (Some t'))"
    using add_task_grows [OF base, of "Finish_child i (Some t) (Some t')"] by metis
  show ?thesis
    using all_there_add(2) [OF t'(4) a(2)] a(1) t t' assms(5) by (simp add: combine_tasks_def bind_def)
qed

lemma pending_there:
  assumes "at_hand e s" "all_there {e} s" "pending_for now e d s = (Ok p, s')"
  shows "all_there {} s'"
proof -
  let ?x = "Timable (duration_waker_from_now now e d)"
  have base: "ex_base s" using assms(1) by (simp add: at_hand_def ex_inv_def)
  obtain r sl where ins: "el_insert ?x (ex_sleepers s) = (r, sl)" by fastforce
  note sl = sleeping_inserted [OF base ins]
  have same: "sleeping (set_packed e (Some True) s\<lparr>ex_sleepers := sl\<rparr>) = sleeping (s\<lparr>ex_sleepers := sl\<rparr>)" by (simp add: sleeping_def)
  have "set (sleeping (s\<lparr>ex_sleepers := sl\<rparr>)) = insert e (set (sleeping s))"
    using mset_eq_setD [of "sleeping (s\<lparr>ex_sleepers := sl\<rparr>)" "e # sleeping s"] sl(2)
    by (simp add: duration_waker_from_now_def duration_waker_new_def)
  moreover have "s' = set_packed e (Some True) s\<lparr>ex_sleepers := sl\<rparr>"
    using assms(3) ins sl(1) base
    by (auto simp: pending_for_def pack_task_and_dependents_def bind_def sleepers_insert_def set_packed_def
        get_task_dependents_def ex_base_def)
  ultimately show ?thesis using assms(2) by (auto simp: all_there_def same) (auto simp: set_packed_def ex_live_def)
qed

lemma reported_children:
  assumes "reported infos r" shows "children infos = {} \<or> (\<exists>i. r = Some (St_SpawnFinished i) \<and> linked i \<and> i \<in> infos
    \<and> si_type i = LiftedWithParent \<and> children infos = {c. si_child i = Some c})"
proof (cases "\<exists>i \<in> infos. linked i")
  case True
  then obtain i where i: "i \<in> infos" "linked i" by blast
  then have "\<forall>j \<in> infos. linked j \<longrightarrow> j = i" "si_type i = LiftedWithParent" "r = Some (St_SpawnFinished i)"
    using assms by (auto simp: reported_def linked_def)
  moreover from this i have "children infos = {c. si_child i = Some c}" unfolding children_def by blast
  ultimately show ?thesis using i by blast
next
  case False
  then show ?thesis by (simp add: children_free)
qed

lemma spawn_finished_there:
  assumes "at_hand e s" "info_ok e s i" "si_type i \<notin> {Lifted, Sequenced}" "si_child i = Some e \<longrightarrow> \<not> linked i"
    "all_there (insert e {c. linked i \<and> si_child i = Some c}) s" "spawn_finished e i s = (Ok p, s')"
  shows "all_there {} s'"
proof (cases "linked i")
  case True
  then obtain c where c: "si_parent i = Some e" "si_child i = Some c" "child_waits s c" "c \<noteq> e" "si_type i = LiftedWithParent"
    using assms(2-4) by (auto simp: info_ok_def linked_def split: spawn_type.splits)
  then have "spawn_finished e i s = combine_tasks (Finish_child i) e c s"
    by (auto simp: spawn_finished_def has_parent_and_child_def)
  moreover have "all_there {e, c} s" using assms(5) True c(2) by (simp add: insert_commute)
  ultimately show ?thesis using combine_there [OF assms(1) c(3,4), of i p s'] assms(6) by simp
next
  case False
  then have "si_parent i = None" "si_type i \<in> {Broadcasted, Scheduled, SpawnNone}"
    using assms(2,3) by (auto simp: info_ok_def linked_def split: spawn_type.splits)
  then have "s' = push_front e s" using assms(6) by (auto simp: spawn_finished_def has_parent_and_child_def)
  then show ?thesis using queue_there(1) [of e "{}" s] assms(5) False by simp
qed

lemma after_next_there:
  assumes "ex_running e s" "\<forall>i \<in> infos. info_ok e s i" "reported infos r" "all_there (children infos) s" "no_dual t"
    "after_next now n e t r s = (Ok p, s')"
  shows "all_there {} s'"
proof -
  let ?s = "unpark_task e t s"
  note hand = unpark_at_hand(1) [OF assms(1), of t]
  have there: "all_there (insert e (children infos)) ?s" by (rule unpark_there [OF assms(1,4,5)])
  show ?thesis
  proof (cases "\<exists>i. r = Some (St_SpawnFinished i)")
    case True
    then obtain i where i: "r = Some (St_SpawnFinished i)" by blast
    have type: "si_type i \<notin> {Lifted, Sequenced}" "info_ok e s i"
      using assms(2,3) i by (auto simp: reported_def spawn_allowed_def info_ok_def spawn_info_new_def)
    have "info_ok e ?s i" "si_child i = Some e \<longrightarrow> \<not> linked i"
      using type unpark_at_hand(2) [OF assms(1), of _ t] running_not_queued(1) [OF assms(1)]
      by (auto simp: info_ok_def linked_def child_waits_def split: spawn_type.splits)
    moreover have "children infos = {c. linked i \<and> si_child i = Some c}"
      using reported_children [OF assms(3)] assms(3) i
      by (auto simp: children_def reported_def spawn_allowed_def linked_def spawn_info_new_def)
    ultimately show ?thesis using spawn_finished_there [OF hand _ type(1)] there assms(6) i by (simp add: Let_def)
  next
    case False
    then have "children infos = {}" using reported_children [OF assms(3)] by auto
    then have e: "all_there {e} ?s" using there by simp
    have drop: "all_there {} (drop_task e ?s)" using drop_there [OF e, of e] hand by (simp add: at_hand_def)
    note queued = queue_there [OF e]
    show ?thesis
    proof (cases r)
      case (Some st)
      then show ?thesis
        using assms(6) False drop queued pending_there [OF hand e]
        by (cases st; cases "case st of St_Pending d \<Rightarrow> d | _ \<Rightarrow> None") (auto simp: Let_def split: option.splits)
    qed (use assms(6) drop in simp)
  qed
qed

section \<open>A round\<close>

lemma all_there_same:
  assumes "ex_local_tasks s' = ex_local_tasks s"
    "set (ex_processing s') \<union> set (sleeping s') = set (ex_processing s) \<union> set (sleeping s)"
  shows "all_there {} s' \<longleftrightarrow> all_there {} s"
  using assms by (simp add: all_there_def ex_live_def)

lemma wakeup_there:
  assumes "ex_inv s" "all_there {} s" "wakeup_ready_sleepers rd s = (Ok (), s')"
  shows "all_there {} s'"
proof -
  obtain xs sl where m: "sleepers_get_matured (\<lambda>i. sleepable_ready (rd_clock rd i) (rd_flags rd i)) (ex_sleepers s) = (xs, sl)"
    by fastforce
  note w = wakeup_runs [OF assms(1) m]
  let ?s = "snd (wakeup_ready_sleepers rd s)"
  have eq: "?s = s'" using assms(3) by simp
  have "mset (sleeping s) = mset (map sleepable_entry xs) + mset (sleeping ?s)" using w(1,3) by simp
  then have "set (sleeping s) = set (map sleepable_entry xs) \<union> set (sleeping ?s)"
    using mset_eq_setD [of "sleeping s" "map sleepable_entry xs @ sleeping ?s"] by simp
  moreover have "set (ex_processing ?s) = set (map sleepable_entry xs) \<union> set (ex_processing s)" "ex_local_tasks ?s = ex_local_tasks s"
    using w(1) by (auto simp: woken_def split: priority_order.split)
  ultimately show ?thesis using all_there_same [of ?s s] assms(2) unfolding eq by (simp add: Un_ac)
qed

text \<open>A queue that holds no task of the excluded kind.\<close>

definition queue_ok :: "('a, 'q) task_queue \<Rightarrow> bool" where
  "queue_ok Q \<longleftrightarrow> (\<forall>q t q'. tq_pop Q q = (Some t, q') \<longrightarrow> no_dual t)"

lemma schedule_next_there:
  assumes "queue_ok Q" "ex_base s" "all_there {} s" "schedule_next Q s = (Ok p, s')"
  shows "all_there {} s'"
proof -
  obtain r q where q: "tq_pop Q (ex_global_tasks s) = (r, q)" by fastforce
  let ?s = "s\<lparr>ex_global_tasks := q\<rparr>"
  have base: "ex_base ?s" "all_there {} ?s" using assms(2,3) by (simp_all add: ex_base_def all_there_global)
  show ?thesis
  proof (cases r)
    case None
    then show ?thesis using assms(3,4) q base by (auto simp: schedule_next_def split: if_splits)
  next
    case (Some t)
    then have t: "no_dual t" using assms(1) q by (auto simp: queue_ok_def)
    obtain e l where a: "add_task t ?s = (Ok e, ?s\<lparr>ex_local_tasks := l\<rparr>)" "el_map l = (el_map (ex_local_tasks ?s))(e \<mapsto> t)"
      using add_task_grows [OF base(1), of t] by metis
    show ?thesis
      using all_there_add(2) [OF base(2) a(2) t] a(1) assms(3,4) q Some
      by (auto simp: schedule_next_def bind_def split: if_splits)
  qed
qed

context reporting_tasks begin

lemma do_work_there:
  assumes "ex_inv s" "all_there {} s" "do_work Q nx now s = (Ok p, s')"
  shows "all_there {} s'"
proof (cases "ex_processing s")
  case Nil
  then show ?thesis
    using assms by (cases "has_sleeping_tasks s") (simp_all add: do_work_def check_processing_queue_def)
next
  case (Cons e rest)
  obtain t l where park: "el_park e (ex_local_tasks s) = (Some t, l)" "el_map (ex_local_tasks s) e = Some t"
    and running: "ex_running e (s\<lparr>ex_processing := rest, ex_current_task := Some e, ex_local_tasks := l\<rparr>)" (is "ex_running e ?s")
    using start_running [OF assms(1) Cons] by blast
  have l: "el_map l = (el_map (ex_local_tasks s))(e := None)" using el_park_map(2) [of e "ex_local_tasks s"] park by simp
  have t: "no_dual t" using assms(2) park(2) by (auto simp: all_there_def)
  have "{e'. ex_live ?s e'} = {e'. ex_live s e'} - {e}" by (auto simp: ex_live_def l)
  moreover have "distinct (e # rest @ sleeping s)" using assms(1) Cons by (simp add: ex_inv_def ex_base_def)
  ultimately have there: "all_there (children {}) ?s" using assms(2) Cons by (auto simp: all_there_def l)
  obtain x "is" s1 where x: "run_prog Q (task_next nx t e) ?s = (Ok x, s1)" "ex_running e s1"
      "\<forall>i \<in> is. info_ok e s1 i" "reported is (fst x) \<and> no_dual (snd x)" "all_there (children is) s1"
    by (rule run_prog_there [OF task_reports [OF t, of "{}" e] task_spawns [OF t, of e] running _ there, of Q]) auto
  have "\<not> is_packed e s" using assms(1) Cons by (auto simp: ex_inv_def ex_base_def)
  then have "after_next now (length rest) e (snd x) (fst x) s1 = (Ok p, s')"
    using assms(3) Cons park(1) x(1)
    by (simp add: do_work_def check_processing_queue_def run_top_def bind_def case_prod_beta)
  then show ?thesis using after_next_there [OF x(2,3) _ x(5)] x(4) by blast
qed

lemma after_work_there:
  assumes "queue_ok Q" "ex_inv s" "all_there {} s" "after_work Q rd p s = (Ok p', s')"
  shows "all_there {} s'"
proof (cases "s' = s")
  case False
  let ?s = "s\<lparr>ex_current_task := None\<rparr>"
  have base: "ex_base ?s" using assms(2) by (simp add: ex_inv_def ex_base_def)
  have there: "all_there {} (s\<lparr>ex_current_task := c\<rparr>)" "all_there {} (s\<lparr>ex_current_task := c, ex_idler := m\<rparr>)" for c m
    using assms(3) by (simp_all add: all_there_def)
  show ?thesis
  proof (cases p)
    case (SpinWait d)
    then obtain outcome s1 where "schedule_next Q ?s = (Ok outcome, s1)" "s' = s1"
      using assms(4) False by (auto simp: after_work_def bind_def split: if_splits prod.splits result.splits schedule_outcome.splits)
    then show ?thesis using schedule_next_there [OF assms(1) base there(1)] by simp
  qed (use assms(4) False there(2) in \<open>auto simp: after_work_def idle_increment_def
    split: if_splits prod.splits result.splits option.splits\<close>)
qed (use assms(3) in simp)

lemma round_there:
  assumes "queue_ok Q" "ex_inv s" "length (entry_items (ex_local_tasks s)) < 2 ^ 64" "all_there {} s"
    "schedule_and_do_work Q nx rd s = (Ok p, s')"
  shows "all_there {} s'"
proof -
  obtain p1 s1 where r: "request_global_task Q s = (Ok p1, s1)" "ex_inv s1" using request_runs [OF assms(2,3)] .
  have "all_there {} s1"
  proof (cases "has_active_tasks s")
    case False
    then obtain outcome where "schedule_next Q s = (Ok outcome, s1)"
      using r(1) by (auto simp: request_global_task_def bind_def split: prod.splits result.splits schedule_outcome.splits if_splits)
    then show ?thesis using schedule_next_there [OF assms(1) _ assms(4)] assms(2) by (simp add: ex_inv_def)
  qed (use r(1) assms(4) in \<open>simp add: request_global_task_def\<close>)
  show ?thesis
  proof (cases "p1 = NoWork")
    case True
    then show ?thesis using \<open>all_there {} s1\<close> assms(5) r(1) by (simp add: schedule_and_do_work_def bind_def ret_def)
  next
    case False
    obtain xs sl where m: "sleepers_get_matured (\<lambda>i. sleepable_ready (rd_clock rd i) (rd_flags rd i)) (ex_sleepers s1) = (xs, sl)"
      by fastforce
    from wakeup_runs(1,2) [OF r(2) m] obtain s2 where w: "wakeup_ready_sleepers rd s1 = (Ok (), s2)" "ex_inv s2" by blast
    obtain p3 s3 where d: "do_work Q nx (rd_now rd) s2 = (Ok p3, s3)" "ex_inv s3" using do_work_runs [OF w(2)] .
    have "all_there {} s3"
      using do_work_there [OF w(2) wakeup_there [OF r(2) \<open>all_there {} s1\<close> w(1)] d(1)] .
    moreover have "after_work Q rd p3 s3 = (Ok p, s')"
      using assms(5) False r(1) w(1) d(1) by (simp add: schedule_and_do_work_def bind_def)
    ultimately show ?thesis using after_work_there [OF assms(1) d(2)] by blast
  qed
qed

end

section \<open>Executors in use\<close>

text \<open>As before, but from outside tasks are scheduled, broadcast or lifted without a parent.\<close>

inductive ex_served :: "('a, 'q) task_queue \<Rightarrow> ('a, 'a) leaf_next \<Rightarrow> ('a, 'q) executor \<Rightarrow> bool" for Q nx where
  Served_new: "idle_inv m \<Longrightarrow> ex_served Q nx (executor_new q po m)"
| Served_round: "ex_served Q nx s \<Longrightarrow> length (entry_items (ex_local_tasks s)) < 2 ^ 64
    \<Longrightarrow> schedule_and_do_work Q nx rd s = (Ok p, s') \<Longrightarrow> ex_served Q nx s'"
| Served_call: "ex_served Q nx s \<Longrightarrow> no_dual (call_task c) \<Longrightarrow> call_type c \<in> {Scheduled, Broadcasted, Lifted}
    \<Longrightarrow> engine_call_run Q c s = (Ok r, s') \<Longrightarrow> ex_served Q nx s'"
| Served_others: "ex_served Q nx s \<Longrightarrow> ex_served Q nx (s\<lparr>ex_global_tasks := q\<rparr>)"

lemma served_reachable: "ex_served Q nx s \<Longrightarrow> ex_reachable Q nx s"
  by (induction rule: ex_served.induct) (auto intro: ex_reachable.intros)


context reporting_tasks begin

lemma served_there:
  assumes "queue_ok Q" "ex_served Q nx s" shows "all_there {} s"
  using assms(2)
proof (induction rule: ex_served.induct)
  case (Served_new m q po)
  then show ?case
    by (simp add: all_there_def executor_new_def ex_live_def sleeping_def el_new_def el_map_def el_get_def item_at_def el_map_with_def)
next
  case (Served_round s rd p s')
  then show ?case using round_there [OF assms(1)] reachable_inv [OF served_reachable] by blast
next
  case (Served_call s c r s')
  have base: "ex_base s" using reachable_inv [OF served_reachable [OF Served_call.hyps(1)]] by (simp add: ex_inv_def)
  have "answer_ok s' c r" using engine_call_runs [OF base, of Q c] Served_call.hyps(4) by auto
  then have "(case r of Ok i \<Rightarrow> children {i} | _ \<Rightarrow> {}) = {}"
    using Served_call.hyps(3) by (auto simp: answer_ok_def children_def linked_def split: result.splits)
  then show ?case using engine_call_there [OF base Served_call.hyps(2) Served_call.IH Served_call.hyps(4)] by simp
qed (simp add: all_there_global)

lemma served_inv: "ex_served Q nx s \<Longrightarrow> ex_inv s"
  by (rule reachable_inv [OF served_reachable])

end

section \<open>The tasks of the repository\<close>

text \<open>\<open>SpawnStrategy\<close>, whose tasks are leaves, with what \<open>Custom\<close> does as an argument.\<close>

datatype ('a, 'c) spawn_strategy =
    Strategy_none
  | Strategy_wrap "'a option"
  | Strategy_lift "'a option"
  | Strategy_schedule "'a option"
  | Strategy_broadcast "'a option"
  | Strategy_custom 'c

fun spawn_strategy_apply :: "('c, 'a) action_apply \<Rightarrow> (('a, 'c) spawn_strategy, 'a) action_apply" where
  "spawn_strategy_apply custom Strategy_none key = spawned_nothing"
| "spawn_strategy_apply custom (Strategy_wrap t) key = spawn_action_apply (Wrap_action (map_option Leaf_task t)) key"
| "spawn_strategy_apply custom (Strategy_lift t) key = spawn_action_apply (Spawn_with_lift (map_option Leaf_task t)) key"
| "spawn_strategy_apply custom (Strategy_schedule t) key = spawn_action_apply (Spawn_with_schedule (map_option Leaf_task t)) key"
| "spawn_strategy_apply custom (Strategy_broadcast t) key = spawn_action_apply (Spawn_with_broadcast (map_option Leaf_task t)) key"
| "spawn_strategy_apply custom (Strategy_custom c) key = custom c key"

definition no_action_apply :: "(unit, 'a) action_apply" where
  "no_action_apply _ key = spawned_nothing"

lemma strategy_reports:
  "prog_all (\<lambda>infos st. reported infos (Some st)) {} (spawn_state (spawn_strategy_apply no_action_apply) act e)"
  "spawns no_dual (spawn_state (spawn_strategy_apply no_action_apply) act e)"
  by (cases act; auto simp: spawn_state_def no_action_apply_def spawned_nothing_def engine_result_def reported_def linked_def
      spawn_allowed_def spawn_info_new_def split: option.split)+

lemma reported_no_infos [simp]: "reported {} r \<longleftrightarrow> spawn_allowed {} r"
  by (simp add: reported_def)

interpretation do_next_reporting: reporting_tasks "do_next_next src (spawn_strategy_apply no_action_apply)"
  for src :: "('t, 'r, 'p, ('t guarded_task, unit) spawn_strategy) task_source"
proof
  show "reporting (do_next_next src (spawn_strategy_apply no_action_apply) g e)" for g e
    by (cases "guarded_next src g")
      (auto simp: do_next_next_def reporting_def strategy_reports intro!: spawns_bind split: option.split iter_status.split)
qed

section \<open>Properties\<close>

text \<open>C6: no task is lost. The leaves report each child they lift with themselves as the parent as the last thing
  they answer, and sequence none, and neither they nor the shared queue hand over a sequenced pair. From a new
  executor, by rounds in which the slots number below \<open>2^64\<close>, by spawns from outside that have no parent, and by
  whatever others do to the shared queue, only states are reached in which every task of the executor is in its queue or
  asleep; and it has active tasks exactly when its queue is not empty. (A child that is not reported is lost:
  \<open>unreported_child_blocks_the_queue\<close>.)\<close>

theorem no_task_is_lost:
  assumes "\<And>x e. reporting (nx x e)" "queue_ok Q" "ex_served Q nx s" "length (entry_items (ex_local_tasks s)) < 2 ^ 64"
  shows "{e. ex_live s e} = set (ex_processing s) \<union> set (sleeping s) \<and> (has_active_tasks s \<longleftrightarrow> ex_processing s \<noteq> [])"
proof -
  have tasks: "reporting_tasks nx" using assms(1) by unfold_locales
  have all: "{e. ex_live s e} = set (ex_processing s) \<union> set (sleeping s)"
    using reporting_tasks.served_there [OF tasks assms(2,3)] by (simp add: all_there_def)
  have inv: "ex_inv s" by (rule reporting_tasks.served_inv [OF tasks assms(3)])
  have "dom (el_map (ex_local_tasks s)) = set (ex_processing s @ sleeping s)" using all by (auto simp: ex_live_def)
  moreover have "distinct (ex_processing s @ sleeping s)" using inv by (simp add: ex_inv_def ex_base_def)
  ultimately have "card (dom (el_map (ex_local_tasks s))) = length (ex_processing s) + length (sleeping s)"
    by (metis distinct_card length_append)
  then show ?thesis using all counts_exact(4) [OF inv assms(4)] by auto
qed

section \<open>Witness\<close>

text \<open>A leaf that lifts a child with itself as the parent, reports it, and then ends.\<close>

definition lifting_leaf :: "(nat, nat) leaf_next" where
  "lifting_leaf n e =
     (if n = 0 then Prog_return (None, 0)
      else Prog_call (Call_lift (Leaf_task 0) (Some e))
             (\<lambda>r. Prog_return (Some (case r of Ok info \<Rightarrow> St_SpawnFinished info | _ \<Rightarrow> St_SpawnFailed e), 0)))"

definition no_queue :: "('a, unit) task_queue" where
  "no_queue = \<lparr>tq_push = (\<lambda>t q. (Some (Push_Full t), q)), tq_pop = (\<lambda>q. (None, q)), tq_is_empty = (\<lambda>q. True),
     tq_activity = (\<lambda>q. (None, q))\<rparr>"

lemma lifting_reports: "reporting (lifting_leaf n e)"
  by (auto simp: reporting_def lifting_leaf_def reported_def spawn_allowed_def linked_def)

theorem no_task_is_lost_witness:
  "\<exists>(s :: (nat, unit) executor) e. ex_live s e \<and> {e. ex_live s e} = set (ex_processing s) \<union> set (sleeping s)"
proof -
  obtain m where m: "idle_inv m" by (rule some_idler)
  let ?new = "executor_new () Order_Top m :: (nat, unit) executor"
  have new: "ex_served no_queue lifting_leaf ?new" by (rule Served_new [OF m])
  obtain r s1 where s1: "engine_call_run no_queue (Call_schedule (Leaf_task 1)) ?new = (Ok r, s1)"
    "length (entry_items (ex_local_tasks s1)) = 1" "\<exists>p s2. schedule_and_do_work no_queue lifting_leaf (still 0) s1 = (Ok p, s2)
      \<and> ex_processing s2 \<noteq> [] \<and> length (entry_items (ex_local_tasks s2)) = 2"
    by (simp add: executor_eval schedule_task_def lifting_leaf_def lift_task_def spawn_info_new_def spawn_finished_def
        has_parent_and_child_def combine_tasks_def take_task_def)
  have served: "ex_served no_queue lifting_leaf s1" by (rule Served_call [OF new _ _ s1(1)]) simp_all
  obtain p s2 where s2: "schedule_and_do_work no_queue lifting_leaf (still 0) s1 = (Ok p, s2)"
    "ex_processing s2 \<noteq> []" "length (entry_items (ex_local_tasks s2)) = 2" using s1(3) by blast
  have "ex_served no_queue lifting_leaf s2" by (rule Served_round [OF served _ s2(1)]) (simp add: s1(2))
  note all = no_task_is_lost [OF lifting_reports _ this]
  have "queue_ok (no_queue :: (nat, unit) task_queue)" by (simp add: queue_ok_def no_queue_def)
  then have "{e. ex_live s2 e} = set (ex_processing s2) \<union> set (sleeping s2)" using all s2(3) by simp
  moreover from this have "ex_live s2 (hd (ex_processing s2))" using hd_in_set [OF s2(2)] by blast
  ultimately show ?thesis by blast
qed

end
